(* ===== verification/Prelude.thy ===== *)
theory Prelude
  imports Complex_Main "HOL-Library.AList" "HOL-Library.Char_ord"
begin

text \<open>
  What the components share: the types the program's values are given, Python dictionaries
  as insertion-ordered association lists, the small part of \<open>str\<close> the program uses, and
  decimal printing and parsing of job numbers.

  Conventions of the development:
  \<^item> a Python \<open>int\<close> is an \<open>int\<close>, a counter that only grows from 0 a \<open>nat\<close>;
  \<^item> \<open>datetime\<close> has microsecond resolution: a value is its number of microseconds;
  \<^item> a float number of seconds is a \<open>real\<close> (no rounding);
  \<^item> a \<open>dict\<close> keeps insertion order and an assignment to a present key keeps its place,
    which is exactly \<^const>\<open>AList.update\<close>; \<open>pop\<close> is \<^const>\<open>AList.delete\<close>;
  \<^item> an operation that may raise returns \<open>py_error + 'a\<close>; one that also writes state
    returns the state beside it, so that what was written before a raise stays visible.
\<close>

type_synonym datetime = int
type_synonym seconds = real
type_synonym jobset_id = string
type_synonym job_key = string
type_synonym uuid = string
type_synonym user_dict = string

named_theorems dict_simps "lookups and keys of insertion-ordered dictionaries"
named_theorems store_simps "reads of a store after a write"
named_theorems counter_simps "what an operation leaves of the counters it does not touch"

section \<open>Dictionaries\<close>

type_synonym ('k, 'v) dict = "('k \<times> 'v) list"

abbreviation dget :: "('k, 'v) dict \<Rightarrow> 'k \<Rightarrow> 'v option" where
  "dget \<equiv> map_of"

abbreviation dset :: "'k \<Rightarrow> 'v \<Rightarrow> ('k, 'v) dict \<Rightarrow> ('k, 'v) dict" where
  "dset \<equiv> AList.update"

abbreviation ddel :: "'k \<Rightarrow> ('k, 'v) dict \<Rightarrow> ('k, 'v) dict" where
  "ddel \<equiv> AList.delete"

abbreviation dkeys :: "('k, 'v) dict \<Rightarrow> 'k list" where
  "dkeys d \<equiv> map fst d"

abbreviation dvalues :: "('k, 'v) dict \<Rightarrow> 'v list" where
  "dvalues d \<equiv> map snd d"

definition dhas :: "('k, 'v) dict \<Rightarrow> 'k \<Rightarrow> bool" where
  "dhas d k \<longleftrightarrow> dget d k \<noteq> None"

definition dget_or :: "('k, 'v) dict \<Rightarrow> 'k \<Rightarrow> 'v \<Rightarrow> 'v" where
  "dget_or d k v = (case dget d k of None \<Rightarrow> v | Some x \<Rightarrow> x)"

text \<open>A comprehension that keeps some items of a dict.\<close>

lemma dget_filter: "distinct (dkeys d) \<Longrightarrow>
    dget (filter (\<lambda>(k, v). P k v) d) k = (case dget d k of Some v \<Rightarrow> if P k v then Some v else None | None \<Rightarrow> None)"
  by (induction d) (auto split: option.splits dest: map_of_SomeD simp: rev_image_eqI)

lemma distinct_keys_filter: "distinct (dkeys d) \<Longrightarrow> distinct (dkeys (filter P d))"
  by (simp add: distinct_map_filter)

text \<open>\<open>d.setdefault(k, v)\<close>, and equality of dictionaries, which ignores the order.\<close>

definition dsetdefault :: "'k \<Rightarrow> 'v \<Rightarrow> ('k, 'v) dict \<Rightarrow> ('k, 'v) dict" where
  "dsetdefault k v d = (if dhas d k then d else d @ [(k, v)])"

definition dict_eq :: "('k, 'v) dict \<Rightarrow> ('k, 'v) dict \<Rightarrow> bool" where
  "dict_eq a b \<longleftrightarrow> list_all (\<lambda>k. dget a k = dget b k) (dkeys a @ dkeys b)"

declare map_of_eq_Some_iff [simp del]

lemma dget_dset [simp, dict_simps]: "dget (dset k v d) j = (if j = k then Some v else dget d j)"
  by (simp add: update_conv')

lemma dget_ddel [simp, dict_simps]: "dget (ddel k d) j = (if j = k then None else dget d j)"
  by (simp add: delete_conv')

lemma dhas_dset [simp, dict_simps]: "dhas (dset k v d) j \<longleftrightarrow> j = k \<or> dhas d j"
  by (simp add: dhas_def)

lemma dhas_ddel [simp, dict_simps]: "dhas (ddel k d) j \<longleftrightarrow> j \<noteq> k \<and> dhas d j"
  by (simp add: dhas_def)

lemma dhas_iff_key: "dhas d k \<longleftrightarrow> k \<in> set (dkeys d)"
  by (simp add: dhas_def map_of_eq_None_iff)

lemma dhas_Some: "dget d k = Some v \<Longrightarrow> dhas d k"
  by (simp add: dhas_def)

lemma dget_dsetdefault [simp, dict_simps]:
  "dget (dsetdefault k v d) j = (if j = k then Some (dget_or d k v) else dget d j)"
  by (auto simp: dsetdefault_def dhas_def dget_or_def map_add_def split: option.splits)

lemma dkeys_dset:
  "dkeys (dset k v d) = (if k \<in> set (dkeys d) then dkeys d else dkeys d @ [k])"
  by (rule update_keys)

lemma dkeys_ddel: "dkeys (ddel k d) = filter (\<lambda>j. j \<noteq> k) (dkeys d)"
  by (induction d) (auto simp: AList.delete_eq)

lemma distinct_dkeys_dset [intro, simp]: "distinct (dkeys d) \<Longrightarrow> distinct (dkeys (dset k v d))"
  by (rule distinct_update)

lemma distinct_dkeys_ddel [intro, simp]: "distinct (dkeys d) \<Longrightarrow> distinct (dkeys (ddel k d))"
  by (rule distinct_delete)

lemma distinct_dkeys_dsetdefault [intro, simp]:
  "distinct (dkeys d) \<Longrightarrow> distinct (dkeys (dsetdefault k v d))"
  by (auto simp: dsetdefault_def dhas_iff_key)

lemma dict_eq_iff: "dict_eq a b \<longleftrightarrow> dget a = dget b"
proof
  assume eq: "dict_eq a b"
  show "dget a = dget b"
  proof
    fix k
    show "dget a k = dget b k"
    proof (cases "k \<in> set (dkeys a @ dkeys b)")
      case True
      with eq show ?thesis by (auto simp: dict_eq_def list_all_iff)
    next
      case False
      then have "dget a k = None" "dget b k = None"
        by (simp_all add: map_of_eq_None_iff)
      then show ?thesis by simp
    qed
  qed
qed (simp add: dict_eq_def list_all_iff)

lemma set_dset:
  "distinct (dkeys d) \<Longrightarrow> set (dset k v d) = insert (k, v) {p \<in> set d. fst p \<noteq> k}"
  by (induction d) (auto simp: image_iff)

lemma set_ddel: "set (ddel k d) = {p \<in> set d. fst p \<noteq> k}"
  by (auto simp: AList.delete_eq)

text \<open>How often a value's attribute occurs, after an assignment or a removal.\<close>

definition opt_count :: "('v \<Rightarrow> 'b) \<Rightarrow> 'v option \<Rightarrow> 'b \<Rightarrow> nat" where
  "opt_count f v y = (case v of None \<Rightarrow> 0 | Some w \<Rightarrow> of_bool (f w = y))"

lemma opt_count_simps [simp]:
  "opt_count f None y = 0" "opt_count f (Some w) y = of_bool (f w = y)"
  by (simp_all add: opt_count_def)

lemma count_list_dset:
  "count_list (map f (dvalues (dset k v d))) y + opt_count f (dget d k) y
     = count_list (map f (dvalues d)) y + of_bool (f v = y)"
  by (induction d) auto

lemma count_list_ddel:
  "distinct (dkeys d) \<Longrightarrow>
     count_list (map f (dvalues (ddel k d))) y + opt_count f (dget d k) y
       = count_list (map f (dvalues d)) y"
  by (induction d) auto

lemma length_dset: "length (dset k v d) = (if dhas d k then length d else Suc (length d))"
  by (induction d) (auto simp: dhas_def)

lemma sum_list_dvalues:
  "distinct (dkeys d) \<Longrightarrow> sum_list (dvalues d) = (\<Sum>k\<in>set (dkeys d). the (dget d k))"
proof (induction d)
  case Nil
  then show ?case by simp
next
  case (Cons p d)
  obtain a b where p: "p = (a, b)" by (cases p)
  have "(\<Sum>k\<in>fst ` set d. the (dget (p # d) k)) = (\<Sum>k\<in>fst ` set d. the (dget d k))"
    by (rule sum.cong) (use Cons.prems p in auto)
  with Cons p show ?case by simp
qed

lemma dvalues_iff: "distinct (dkeys d) \<Longrightarrow> v \<in> set (dvalues d) \<longleftrightarrow> (\<exists>k. dget d k = Some v)"
  by (force simp: image_iff map_of_eq_Some_iff)

section \<open>Strings\<close>

text \<open>Whitespace and digits are the ASCII ones: the texts the program reads are ASCII.\<close>

definition py_isspace :: "char \<Rightarrow> bool" where
  "py_isspace c \<longleftrightarrow> (of_char c :: nat) \<in> {9, 10, 11, 12, 13, 28, 29, 30, 31, 32}"

definition py_lstrip :: "string \<Rightarrow> string" where
  "py_lstrip s = dropWhile py_isspace s"

definition py_strip :: "string \<Rightarrow> string" where
  "py_strip s = rev (dropWhile py_isspace (rev (py_lstrip s)))"

definition is_digit :: "char \<Rightarrow> bool" where
  "is_digit c \<longleftrightarrow> 48 \<le> (of_char c :: nat) \<and> (of_char c :: nat) \<le> 57"

definition digit_val :: "char \<Rightarrow> nat" where
  "digit_val c = of_char c - 48"

definition py_isdigit :: "string \<Rightarrow> bool" where
  "py_isdigit s \<longleftrightarrow> s \<noteq> [] \<and> list_all is_digit s"

definition parse_nat :: "string \<Rightarrow> nat" where
  "parse_nat s = foldl (\<lambda>a c. 10 * a + digit_val c) 0 s"

definition digit_char :: "nat \<Rightarrow> char" where
  "digit_char n = char_of (48 + n)"

fun show_nat :: "nat \<Rightarrow> string" where
  "show_nat n = (if n < 10 then [digit_char n] else show_nat (n div 10) @ [digit_char (n mod 10)])"

declare show_nat.simps [simp del]

definition show_int :: "int \<Rightarrow> string" where
  "show_int i = (if i < 0 then CHR ''-'' # show_nat (nat (- i)) else show_nat (nat i))"

text \<open>\<open>s.split(c)\<close> for a one-character separator, and \<open>sep.join(parts)\<close>.\<close>

fun py_split :: "char \<Rightarrow> string \<Rightarrow> string list" where
  "py_split c [] = [[]]"
| "py_split c (x # s) =
     (if x = c then [] # py_split c s
      else (case py_split c s of [] \<Rightarrow> [[x]] | p # ps \<Rightarrow> (x # p) # ps))"

fun py_join :: "string \<Rightarrow> string list \<Rightarrow> string" where
  "py_join sep [] = []"
| "py_join sep [p] = p"
| "py_join sep (p # ps) = p @ sep @ py_join sep ps"

text \<open>\<open>sub in s\<close>.\<close>

fun py_contains :: "string \<Rightarrow> string \<Rightarrow> bool" where
  "py_contains sub [] \<longleftrightarrow> sub = []"
| "py_contains sub (c # s) \<longleftrightarrow> take (length sub) (c # s) = sub \<or> py_contains sub s"

definition py_lower_char :: "char \<Rightarrow> char" where
  "py_lower_char c = (if 65 \<le> (of_char c :: nat) \<and> (of_char c :: nat) \<le> 90
                      then char_of ((of_char c :: nat) + 32) else c)"

definition py_lower :: "string \<Rightarrow> string" where
  "py_lower s = map py_lower_char s"

lemma is_digit_digit_char [simp]: "n < 10 \<Longrightarrow> is_digit (digit_char n)"
  by (simp add: is_digit_def digit_char_def)

lemma digit_val_digit_char [simp]: "n < 10 \<Longrightarrow> digit_val (digit_char n) = n"
  by (simp add: digit_val_def digit_char_def)

lemma show_nat_nonempty [simp]: "show_nat n \<noteq> []"
  by (subst show_nat.simps) simp

lemma show_nat_digits [simp]: "list_all is_digit (show_nat n)"
proof (induction n rule: show_nat.induct)
  case (1 n)
  show ?case
    by (subst show_nat.simps) (use 1 in auto)
qed

lemma parse_show_nat [simp]: "parse_nat (show_nat n) = n"
proof (induction n rule: show_nat.induct)
  case (1 n)
  show ?case
    by (subst show_nat.simps) (use 1 in \<open>auto simp: parse_nat_def\<close>)
qed

lemma py_isdigit_show_nat [simp]: "py_isdigit (show_nat n)"
  by (simp add: py_isdigit_def)

lemma show_nat_inject [simp]: "show_nat m = show_nat n \<longleftrightarrow> m = n"
  by (metis parse_show_nat)

lemma show_int_nonneg: "0 \<le> i \<Longrightarrow> show_int i = show_nat (nat i)"
  by (simp add: show_int_def)

lemma py_split_nonempty [simp]: "py_split c s \<noteq> []"
  by (induction s) (auto split: list.splits)

lemma py_split_append_sep: "c \<notin> set s \<Longrightarrow> py_split c (s @ c # t) = s # py_split c t"
  by (induction s) auto

lemma py_split_nosep: "c \<notin> set s \<Longrightarrow> py_split c s = [s]"
  by (induction s) auto

lemma py_strip_Nil [simp]: "py_strip [] = []"
  by (simp add: py_strip_def py_lstrip_def)

section \<open>Lists\<close>

text \<open>\<open>sorted(set)\<close> for a list of members, and the fold of a loop that may raise.\<close>

definition sorted_set :: "'a::linorder list \<Rightarrow> 'a list" where
  "sorted_set xs = sort (remdups xs)"

lemma set_sorted_set [simp]: "set (sorted_set xs) = set xs"
  by (simp add: sorted_set_def)

lemma distinct_sorted_set [simp]: "distinct (sorted_set xs)"
  by (simp add: sorted_set_def)

lemma sum_list_map_eq: "(\<And>x. x \<in> set xs \<Longrightarrow> f x = g x) \<Longrightarrow> sum_list (map f xs) = sum_list (map g xs)"
  by (metis map_eq_conv)

lemma set_map_filter: "set (List.map_filter f xs) = {y. \<exists>x\<in>set xs. f x = Some y}"
  by (induction xs) (auto simp: List.map_filter_def)

lemma map_filter_keys:
  "(\<And>x p. f x = Some p \<Longrightarrow> fst p = key x) \<Longrightarrow>
     map fst (List.map_filter f xs) = map key (filter (\<lambda>x. f x \<noteq> None) xs)"
  by (induction xs) (auto simp: List.map_filter_def)

end
