(* ===== verification/JobStates.thy ===== *)
theory JobStates
  imports Prelude
begin

text \<open>
  The data model: \<open>lsfmgr/states.py\<close> (states, job records, observations, jobset records),
  the exception hierarchy of \<open>lsfmgr/errors.py\<close> and the reports of \<open>lsfmgr/reports.py\<close>.
  Message texts of exceptions are not modelled, their class and programmatic payload are.
\<close>

section \<open>Job states\<close>

datatype JobState =
    CREATED | SUBMITTING | RETRY_WAIT | SUBMIT_FAILED | CANCELLED | LOST
  | PEND | RUN | DONE | EXIT | PSUSP | USUSP | SSUSP | UNKWN | ZOMBI

definition all_states :: "JobState list" where
  "all_states = [CREATED, SUBMITTING, RETRY_WAIT, SUBMIT_FAILED, CANCELLED, LOST,
     PEND, RUN, DONE, EXIT, PSUSP, USUSP, SSUSP, UNKWN, ZOMBI]"

definition TERMINAL :: "JobState list" where
  "TERMINAL = [DONE, EXIT, SUBMIT_FAILED, LOST, CANCELLED]"

definition FAILED :: "JobState list" where
  "FAILED = [EXIT, SUBMIT_FAILED, LOST]"

definition ON_LSF :: "JobState list" where
  "ON_LSF = [PEND, RUN, PSUSP, USUSP, SSUSP, UNKWN, ZOMBI]"

definition is_terminal :: "JobState \<Rightarrow> bool" where
  "is_terminal s \<longleftrightarrow> s \<in> set TERMINAL"

definition is_failed :: "JobState \<Rightarrow> bool" where
  "is_failed s \<longleftrightarrow> s \<in> set FAILED"

definition is_on_lsf :: "JobState \<Rightarrow> bool" where
  "is_on_lsf s \<longleftrightarrow> s \<in> set ON_LSF"

definition is_inactive :: "JobState \<Rightarrow> bool" where
  "is_inactive s \<longleftrightarrow> s = CREATED \<or> s \<in> set TERMINAL"

text \<open>\<open>JobState.value\<close>: the string an enum member carries.\<close>

fun state_value :: "JobState \<Rightarrow> string" where
  "state_value CREATED = ''CREATED''"
| "state_value SUBMITTING = ''SUBMITTING''"
| "state_value RETRY_WAIT = ''RETRY_WAIT''"
| "state_value SUBMIT_FAILED = ''SUBMIT_FAILED''"
| "state_value CANCELLED = ''CANCELLED''"
| "state_value LOST = ''LOST''"
| "state_value PEND = ''PEND''"
| "state_value RUN = ''RUN''"
| "state_value DONE = ''DONE''"
| "state_value EXIT = ''EXIT''"
| "state_value PSUSP = ''PSUSP''"
| "state_value USUSP = ''USUSP''"
| "state_value SSUSP = ''SSUSP''"
| "state_value UNKWN = ''UNKWN''"
| "state_value ZOMBI = ''ZOMBI''"

definition LSF_STAT_MAP :: "(string, JobState) dict" where
  "LSF_STAT_MAP =
     dset ''EXIT'' EXIT (dset ''DONE'' DONE (map (\<lambda>s. (state_value s, s)) ON_LSF))"

lemmas state_class_defs = is_terminal_def is_failed_def is_on_lsf_def is_inactive_def
  TERMINAL_def FAILED_def ON_LSF_def

lemma all_states_complete: "s \<in> set all_states"
  by (cases s) (simp_all add: all_states_def)

text \<open>The type is enumerated, so a statement about every state is decided by evaluation.\<close>

instantiation JobState :: enum
begin
definition "enum_JobState = all_states"
definition "enum_all_JobState (P :: JobState \<Rightarrow> bool) = list_all P all_states"
definition "enum_ex_JobState (P :: JobState \<Rightarrow> bool) = list_ex P all_states"
instance
proof
  show "(UNIV :: JobState set) = set enum_class.enum"
    by (auto simp: enum_JobState_def all_states_complete)
  show "distinct (enum_class.enum :: JobState list)"
    by (simp add: enum_JobState_def all_states_def)
  show "enum_class.enum_all P \<longleftrightarrow> Ball UNIV P" for P :: "JobState \<Rightarrow> bool"
    by (auto simp: enum_all_JobState_def list_all_iff all_states_complete)
  show "enum_class.enum_ex P \<longleftrightarrow> Bex UNIV P" for P :: "JobState \<Rightarrow> bool"
    by (auto simp: enum_ex_JobState_def list_ex_iff all_states_complete)
qed
end

lemma is_terminal_simps [simp]:
  "is_terminal DONE" "is_terminal EXIT" "is_terminal SUBMIT_FAILED" "is_terminal LOST"
  "is_terminal CANCELLED" "\<not> is_terminal CREATED" "\<not> is_terminal SUBMITTING"
  "\<not> is_terminal RETRY_WAIT" "\<not> is_terminal PEND" "\<not> is_terminal RUN"
  "\<not> is_terminal PSUSP" "\<not> is_terminal USUSP" "\<not> is_terminal SSUSP"
  "\<not> is_terminal UNKWN" "\<not> is_terminal ZOMBI"
  by (simp_all add: is_terminal_def TERMINAL_def)

lemma is_on_lsf_simps [simp]:
  "is_on_lsf PEND" "is_on_lsf RUN" "is_on_lsf PSUSP" "is_on_lsf USUSP" "is_on_lsf SSUSP"
  "is_on_lsf UNKWN" "is_on_lsf ZOMBI" "\<not> is_on_lsf CREATED" "\<not> is_on_lsf SUBMITTING"
  "\<not> is_on_lsf RETRY_WAIT" "\<not> is_on_lsf SUBMIT_FAILED" "\<not> is_on_lsf CANCELLED"
  "\<not> is_on_lsf LOST" "\<not> is_on_lsf DONE" "\<not> is_on_lsf EXIT"
  by (simp_all add: is_on_lsf_def ON_LSF_def)

lemma is_inactive_iff: "is_inactive s \<longleftrightarrow> s = CREATED \<or> is_terminal s"
  by (simp add: is_inactive_def is_terminal_def)

lemma on_lsf_not_terminal: "is_on_lsf s \<Longrightarrow> \<not> is_terminal s"
  by (cases s) auto

lemma on_lsf_not_inactive: "is_on_lsf s \<Longrightarrow> \<not> is_inactive s"
  by (cases s) (auto simp: is_inactive_iff)

lemma state_value_inject: "state_value a = state_value b \<longleftrightarrow> a = b"
  by (cases a; cases b) simp_all

section \<open>Records\<close>

record JobStatus =
  st_job_id :: int
  st_array_index :: "int option"
  st_state :: JobState
  st_exit_code :: "int option"
  st_run_time_s :: "int option"
  st_start_time :: "datetime option"
  st_finish_time :: "datetime option"
  st_source_cluster :: "string option"
  st_forward_cluster :: "string option"

record JobRecord =
  jr_job_id :: "int option"
  jr_array_index :: "int option"
  jr_jobset_id :: jobset_id
  jr_job_key :: job_key
  jr_state :: JobState
  jr_fail_reason :: "string option"
  jr_fail_message :: "string option"
  jr_retry_count :: nat
  jr_exit_code :: "int option"
  jr_killed :: bool
  jr_submit_time :: "datetime option"
  jr_command :: string
  jr_updated_at :: "datetime option"
  jr_run_time_s :: "int option"
  jr_start_time :: "datetime option"
  jr_finish_time :: "datetime option"
  jr_source_cluster :: "string option"
  jr_forward_cluster :: "string option"
  jr_submit_cwd :: "string option"
  jr_user_data :: "user_dict option"
  jr_generation :: uuid
  jr_revision :: nat

record JobSetRecord =
  jset_jobset_id :: jobset_id
  jset_intended_count :: int
  jset_label :: string
  jset_tags :: "string list"
  jset_created_at :: "datetime option"

text \<open>
  A record as its constructor makes it from the required fields: every other field has its
  default, and the execution identifier is a fresh one from the environment.
\<close>

definition new_JobRecord ::
    "int option \<Rightarrow> int option \<Rightarrow> jobset_id \<Rightarrow> job_key \<Rightarrow> JobState \<Rightarrow> uuid \<Rightarrow> JobRecord" where
  "new_JobRecord jid idx jsid key st uid =
     \<lparr> jr_job_id = jid, jr_array_index = idx, jr_jobset_id = jsid, jr_job_key = key,
       jr_state = st, jr_fail_reason = None, jr_fail_message = None, jr_retry_count = 0,
       jr_exit_code = None, jr_killed = False, jr_submit_time = None, jr_command = [],
       jr_updated_at = None, jr_run_time_s = None, jr_start_time = None,
       jr_finish_time = None, jr_source_cluster = None, jr_forward_cluster = None,
       jr_submit_cwd = None, jr_user_data = None, jr_generation = uid, jr_revision = 0 \<rparr>"

definition same_execution :: "JobRecord \<Rightarrow> JobRecord \<Rightarrow> bool" where
  "same_execution a b \<longleftrightarrow> jr_jobset_id a = jr_jobset_id b \<and> jr_job_key a = jr_job_key b
     \<and> jr_generation a = jr_generation b"

lemma same_execution_refl [simp]: "same_execution r r"
  by (simp add: same_execution_def)

lemma same_execution_sym: "same_execution a b \<Longrightarrow> same_execution b a"
  by (simp add: same_execution_def)

lemma same_execution_trans: "same_execution a b \<Longrightarrow> same_execution b c \<Longrightarrow> same_execution a c"
  by (simp add: same_execution_def)

lemma new_JobRecord_simps [simp]:
  "jr_job_id (new_JobRecord jid idx jsid key st uid) = jid"
  "jr_array_index (new_JobRecord jid idx jsid key st uid) = idx"
  "jr_jobset_id (new_JobRecord jid idx jsid key st uid) = jsid"
  "jr_job_key (new_JobRecord jid idx jsid key st uid) = key"
  "jr_state (new_JobRecord jid idx jsid key st uid) = st"
  "jr_generation (new_JobRecord jid idx jsid key st uid) = uid"
  "jr_killed (new_JobRecord jid idx jsid key st uid) = False"
  "jr_revision (new_JobRecord jid idx jsid key st uid) = 0"
  "jr_fail_reason (new_JobRecord jid idx jsid key st uid) = None"
  "jr_exit_code (new_JobRecord jid idx jsid key st uid) = None"
  by (simp_all add: new_JobRecord_def)

section \<open>Exceptions\<close>

text \<open>
  \<open>SubmitError\<close> carries what the submitter decides on (\<open>fail_reason\<close>, \<open>retryable\<close>) and
  what it stores; \<open>LsfCommandError\<close> the stderr that the bjobs format fallback reads.
\<close>

record submit_error =
  se_message :: string
  se_fail_reason :: string
  se_returncode :: "int option"
  se_stderr :: string
  se_stdout :: string
  se_retryable :: bool

datatype py_error =
    LsfmgrError
  | JobSetNotFoundError jobset_id
  | JobNotFoundError jobset_id job_key
  | JobSetRemovedError
  | SubmitNotAllowedError jobset_id "job_key list"
  | JobEditNotAllowedError jobset_id "job_key list"
  | RemoveNotAllowedError jobset_id "job_key list"
  | RemoveJobSetNotAllowedError jobset_id "job_key list"
  | LsfCommandError "int option" string
  | SubmitError submit_error
  | ArgMaxExceededError string
  | ValueError
  | TypeError
  | RuntimeError
  | TimeoutExpired
  | OSError
  | OverflowError

type_synonym ('a, 's) outcome = "(py_error + 'a) \<times> 's"

fun is_LsfmgrError :: "py_error \<Rightarrow> bool" where
  "is_LsfmgrError ValueError = False"
| "is_LsfmgrError TypeError = False"
| "is_LsfmgrError RuntimeError = False"
| "is_LsfmgrError TimeoutExpired = False"
| "is_LsfmgrError OSError = False"
| "is_LsfmgrError OverflowError = False"
| "is_LsfmgrError _ = True"

fun is_JobSetStateError :: "py_error \<Rightarrow> bool" where
  "is_JobSetStateError (SubmitNotAllowedError _ _) = True"
| "is_JobSetStateError (JobEditNotAllowedError _ _) = True"
| "is_JobSetStateError (RemoveNotAllowedError _ _) = True"
| "is_JobSetStateError (RemoveJobSetNotAllowedError _ _) = True"
| "is_JobSetStateError _ = False"

text \<open>\<open>RECORD_GONE\<close>: the two exceptions that say the record was deleted meanwhile.\<close>

fun RECORD_GONE :: "py_error \<Rightarrow> bool" where
  "RECORD_GONE (JobNotFoundError _ _) = True"
| "RECORD_GONE (JobSetNotFoundError _) = True"
| "RECORD_GONE _ = False"

definition diagnostic :: "submit_error \<Rightarrow> string" where
  "diagnostic e =
     (let parts = filter (\<lambda>t. t \<noteq> []) [py_strip (se_stderr e), py_strip (se_stdout e)];
          joined = py_join [CHR 0x0A] parts
      in if joined \<noteq> [] then joined else se_message e)"

lemma RECORD_GONE_LsfmgrError: "RECORD_GONE e \<Longrightarrow> is_LsfmgrError e"
  by (cases e) auto

section \<open>Reports\<close>

record SubmitReport =
  srp_jobset_id :: jobset_id
  srp_total :: int
  srp_succeeded :: int
  srp_failed :: int
  srp_cancelled :: int
  srp_retried :: nat
  srp_fail_reasons :: "(string, int) dict"

definition report_ok :: "SubmitReport \<Rightarrow> int" where
  "report_ok r = srp_succeeded r"

record SubmitProgress =
  spg_jobset_id :: jobset_id
  spg_done :: int
  spg_total :: int
  spg_succeeded :: int
  spg_failed :: int
  spg_cancelled :: int

definition submit_remaining :: "SubmitProgress \<Rightarrow> int" where
  "submit_remaining p = max 0 (spg_total p - spg_done p)"

definition submit_fraction :: "SubmitProgress \<Rightarrow> real" where
  "submit_fraction p = (if spg_total p \<noteq> 0 then real_of_int (spg_done p) / real_of_int (spg_total p) else 1)"

record KillProgress =
  kpg_jobset_id :: jobset_id
  kpg_done :: int
  kpg_total :: int

definition kill_remaining :: "KillProgress \<Rightarrow> int" where
  "kill_remaining p = max 0 (kpg_total p - kpg_done p)"

definition kill_fraction :: "KillProgress \<Rightarrow> real" where
  "kill_fraction p = (if kpg_total p \<noteq> 0 then real_of_int (kpg_done p) / real_of_int (kpg_total p) else 0)"

text \<open>
  \<open>KillReport.errors\<close> holds messages; the model keeps which message each is.
\<close>

datatype kill_error_msg = QuiesceTimeout | KillUnconfirmed nat nat | InternalError

record KillReport =
  krp_jobset_id :: jobset_id
  krp_requested :: nat
  krp_strategies :: "string list"
  krp_command_calls :: nat
  krp_still_alive :: "nat option"
  krp_unconfirmed :: nat
  krp_kill_retries :: nat
  krp_changed :: "JobRecord list"
  krp_errors :: "kill_error_msg list"
  krp_jobset_ids :: "jobset_id list"

section \<open>Sequencing\<close>

text \<open>
  \<open>a; b\<close> of a function that may raise: an exception ends the function and leaves the state
  it had reached.
\<close>

definition obind :: "('a, 's) outcome \<Rightarrow> ('a \<Rightarrow> 's \<Rightarrow> ('b, 's) outcome) \<Rightarrow> ('b, 's) outcome" where
  "obind m f = (case m of (Inl e, s) \<Rightarrow> (Inl e, s) | (Inr x, s) \<Rightarrow> f x s)"

definition ebind :: "py_error + 'a \<Rightarrow> ('a \<Rightarrow> py_error + 'b) \<Rightarrow> py_error + 'b" where
  "ebind m f = (case m of Inl e \<Rightarrow> Inl e | Inr x \<Rightarrow> f x)"

definition oread :: "py_error + 'a \<Rightarrow> 's \<Rightarrow> ('a, 's) outcome" where
  "oread v s = (v, s)"

lemma obind_simps [simp]:
  "obind (Inl e, s) f = (Inl e, s)" "obind (Inr x, s) f = f x s"
  "ebind (Inl e) g = Inl e" "ebind (Inr y) g = g y"
  by (simp_all add: obind_def ebind_def)

lemma obind_eq_Inr:
  "obind m f = (Inr y, t) \<longleftrightarrow> (\<exists>x s. m = (Inr x, s) \<and> f x s = (Inr y, t))"
  by (auto simp: obind_def split: prod.splits sum.splits)

lemma obind_eq_Inl:
  "obind m f = (Inl e, t) \<longleftrightarrow> m = (Inl e, t) \<or> (\<exists>x s. m = (Inr x, s) \<and> f x s = (Inl e, t))"
  by (auto simp: obind_def split: prod.splits sum.splits)

lemma ebind_eq_Inr: "ebind m f = Inr y \<longleftrightarrow> (\<exists>x. m = Inr x \<and> f x = Inr y)"
  by (auto simp: ebind_def split: sum.splits)

lemma ebind_eq_Inl: "ebind m f = Inl e \<longleftrightarrow> m = Inl e \<or> (\<exists>x. m = Inr x \<and> f x = Inl e)"
  by (auto simp: ebind_def split: sum.splits)

lemma oread_eq [simp]:
  "oread v s = (Inr x, t) \<longleftrightarrow> v = Inr x \<and> t = s" "oread v s = (Inl e, t) \<longleftrightarrow> v = Inl e \<and> t = s"
  by (auto simp: oread_def)

lemma obind_oread [simp]: "obind (oread v s) f = (case v of Inl e \<Rightarrow> (Inl e, s) | Inr x \<Rightarrow> f x s)"
  by (simp add: obind_def oread_def split: sum.splits)

lemma obind_cong [fundef_cong]:
  "m = m' \<Longrightarrow> (\<And>x s. m' = (Inr x, s) \<Longrightarrow> f x s = f' x s) \<Longrightarrow> obind m f = obind m' f'"
  by (auto simp: obind_def split: prod.splits sum.splits)

end
