(* ===== verification/Util.thy ===== *)
theory Util
  imports JobStates
begin

text \<open>
  \<open>lsfmgr/util.py\<close>: the concurrency slots of a submit cycle, the signal throttle, the
  activity ledgers that the submit gate and the killer keep, and the log sampler.
  Every method body runs under one lock, so each is one atomic function of the object.
\<close>

section \<open>WorkerSlots\<close>

record WorkerSlots =
  ws_limit :: int
  ws_free :: int

definition new_WorkerSlots :: "int \<Rightarrow> WorkerSlots" where
  "new_WorkerSlots n = \<lparr> ws_limit = max 1 n, ws_free = max 1 n \<rparr>"

text \<open>
  One round of the loop of \<open>acquire\<close>: the semaphore if it is free, else give up when
  \<open>should_stop()\<close> holds, else (\<open>None\<close>) another round.
\<close>

definition slots_acquire_round :: "bool \<Rightarrow> WorkerSlots \<Rightarrow> bool option \<times> WorkerSlots" where
  "slots_acquire_round stop ws =
     (if 0 < ws_free ws then (Some True, ws\<lparr>ws_free := ws_free ws - 1\<rparr>)
      else if stop then (Some False, ws)
      else (None, ws))"

definition slots_release :: "WorkerSlots \<Rightarrow> WorkerSlots" where
  "slots_release ws = ws\<lparr>ws_free := ws_free ws + 1\<rparr>"

lemma new_slots_positive: "0 < ws_free (new_WorkerSlots n)"
  by (simp add: new_WorkerSlots_def)

section \<open>EmitThrottler\<close>

text \<open>\<open>int(x)\<close> of a float truncates towards zero.\<close>

definition py_int_of_real :: "real \<Rightarrow> int" where
  "py_int_of_real x = (if 0 \<le> x then \<lfloor>x\<rfloor> else \<lceil>x\<rceil>)"

text \<open>\<open>qt.timer_ms\<close>: every interval given to a timer.\<close>

definition MAX_TIMER_MS :: int where
  "MAX_TIMER_MS = 2147483647"

definition timer_ms :: "seconds \<Rightarrow> int" where
  "timer_ms seconds =
     (let ms = seconds * 1000
      in if ms \<ge> of_int MAX_TIMER_MS then MAX_TIMER_MS else max 0 (py_int_of_real (ms + 1/2)))"

record EmitThrottler =
  th_min_interval_s :: seconds
  th_min_step_ratio :: real
  th_last_t :: seconds
  th_last_done :: int

definition new_EmitThrottler :: "seconds \<Rightarrow> real \<Rightarrow> EmitThrottler" where
  "new_EmitThrottler iv ratio =
     \<lparr> th_min_interval_s = iv, th_min_step_ratio = ratio, th_last_t = 0, th_last_done = -1 \<rparr>"

definition should_emit :: "seconds \<Rightarrow> int \<Rightarrow> int \<Rightarrow> EmitThrottler \<Rightarrow> bool \<times> EmitThrottler" where
  "should_emit now done tot th =
     (if done \<ge> tot then (True, th\<lparr>th_last_t := now, th_last_done := done\<rparr>)
      else
        (let step = max 1 (py_int_of_real (real_of_int tot * th_min_step_ratio th))
         in if now - th_last_t th \<ge> th_min_interval_s th \<or> done - th_last_done th \<ge> step
            then (True, th\<lparr>th_last_t := now, th_last_done := done\<rparr>)
            else (False, th)))"

lemma should_emit_final: "done \<ge> tot \<Longrightarrow> fst (should_emit now done tot th)"
  by (simp add: should_emit_def)

lemma should_emit_False:
  "should_emit now done tot th = (False, th') \<Longrightarrow>
     th' = th \<and> done < tot \<and> now - th_last_t th < th_min_interval_s th"
  by (auto simp: should_emit_def Let_def split: if_splits)

section \<open>Activity ledgers\<close>

text \<open>
  Entries are removed by identity (\<open>is\<close>), so an entry is a pair of an object identity and
  its contents; two entries with equal contents stay distinct.
\<close>

type_synonym 'a entry = "nat \<times> 'a"
type_synonym ('k, 'a) ledger = "('k, 'a entry list) dict"

fun remove_entry :: "nat \<Rightarrow> 'a entry list \<Rightarrow> 'a entry list" where
  "remove_entry i [] = []"
| "remove_entry i ((j, x) # es) = (if j = i then es else (j, x) # remove_entry i es)"

definition ledger_add :: "'k \<Rightarrow> 'a entry \<Rightarrow> ('k, 'a) ledger \<Rightarrow> ('k, 'a) ledger" where
  "ledger_add k e t = (let t' = dsetdefault k [] t in dset k (dget_or t' k [] @ [e]) t')"

definition ledger_remove :: "'k \<Rightarrow> nat \<Rightarrow> ('k, 'a) ledger \<Rightarrow> ('k, 'a) ledger" where
  "ledger_remove k i t =
     (case dget t k of
        None \<Rightarrow> t
      | Some [] \<Rightarrow> t
      | Some es \<Rightarrow> (let es' = remove_entry i es in if es' = [] then ddel k t else dset k es' t))"

definition ledger_get :: "('k, 'a) ledger \<Rightarrow> 'k \<Rightarrow> 'a entry list" where
  "ledger_get t k = dget_or t k []"

lemma remove_entry_append_new:
  "i \<notin> fst ` set es \<Longrightarrow> remove_entry i (es @ [(i, x)]) = es"
  by (induction es) auto

lemma remove_entry_notin: "i \<notin> fst ` set es \<Longrightarrow> remove_entry i es = es"
  by (induction es) auto

lemma set_remove_entry_subset: "set (remove_entry i es) \<subseteq> set es"
  by (induction es) (auto split: if_splits)

lemma set_remove_entry:
  "distinct (map fst es) \<Longrightarrow> set (remove_entry i es) = {e \<in> set es. fst e \<noteq> i}"
  by (induction es) (force simp: image_iff split: if_splits)+

lemma distinct_remove_entry: "distinct (map fst es) \<Longrightarrow> distinct (map fst (remove_entry i es))"
proof (induction es)
  case Nil
  then show ?case by simp
next
  case (Cons e es)
  obtain j x where e: "e = (j, x)" by (cases e)
  have "j \<notin> fst ` set (remove_entry i es)"
    using Cons.prems e set_remove_entry_subset [of i es] by auto
  with Cons e show ?case by auto
qed

text \<open>
  The contract a client of a ledger relies on: entries are appended under their key, an
  entry goes by its identity alone, and no other key is touched.
\<close>

locale activity_ledger =
  fixes add :: "'k \<Rightarrow> 'a entry \<Rightarrow> 't \<Rightarrow> 't"
    and remove :: "'k \<Rightarrow> nat \<Rightarrow> 't \<Rightarrow> 't"
    and entries :: "'t \<Rightarrow> 'k \<Rightarrow> 'a entry list"
  assumes entries_add: "entries (add k e t) j = (if j = k then entries t k @ [e] else entries t j)"
    and entries_remove:
      "entries (remove k i t) j = (if j = k then remove_entry i (entries t k) else entries t j)"
begin

lemma add_then_remove:
  assumes "i \<notin> fst ` set (entries t k)"
  shows "entries (remove k i (add k (i, x) t)) = entries t"
  using assms by (auto simp: fun_eq_iff entries_add entries_remove remove_entry_append_new)

lemma remove_idempotent:
  assumes "distinct (map fst (entries t k))"
  shows "entries (remove k i (remove k i t)) = entries (remove k i t)"
proof -
  have "i \<notin> fst ` set (remove_entry i (entries t k))"
    using assms by (auto simp: set_remove_entry)
  then show ?thesis
    by (auto simp: fun_eq_iff entries_remove remove_entry_notin)
qed

lemma remove_keeps_others:
  assumes "distinct (map fst (entries t k))" and "(j, x) \<in> set (entries t k)" and "j \<noteq> i"
  shows "(j, x) \<in> set (entries (remove k i t) k)"
  using assms by (simp add: entries_remove set_remove_entry)

lemma add_present: "e \<in> set (entries (add k e t) k)"
  by (simp add: entries_add)

end

lemma ledger_get_add:
  "ledger_get (ledger_add k e t) j = (if j = k then ledger_get t k @ [e] else ledger_get t j)"
  by (simp add: ledger_get_def ledger_add_def Let_def dget_or_def)

lemma ledger_get_remove:
  "ledger_get (ledger_remove k i t) j
     = (if j = k then remove_entry i (ledger_get t k) else ledger_get t j)"
  by (simp add: ledger_get_def ledger_remove_def Let_def dget_or_def
      split: option.splits list.splits)

interpretation ledger: activity_ledger ledger_add ledger_remove ledger_get
  by unfold_locales (simp_all add: ledger_get_add ledger_get_remove)

text \<open>A ledger never keeps a key with no entry, so \<open>bool(table.get(key))\<close> is "something runs".\<close>

definition ledger_tidy :: "('k, 'a) ledger \<Rightarrow> bool" where
  "ledger_tidy t \<longleftrightarrow> list_all (\<lambda>p. snd p \<noteq> []) t \<and> distinct (dkeys t)"

lemma ledger_tidy_add: "ledger_tidy t \<Longrightarrow> ledger_tidy (ledger_add k e t)"
  by (auto simp: ledger_tidy_def ledger_add_def Let_def set_dset list_all_iff dsetdefault_def
      dhas_iff_key)

lemma ledger_tidy_remove: "ledger_tidy t \<Longrightarrow> ledger_tidy (ledger_remove k i t)"
  by (auto simp: ledger_tidy_def ledger_remove_def Let_def set_dset set_ddel list_all_iff
      split: option.splits list.splits)

lemma ledger_tidy_has: "ledger_tidy t \<Longrightarrow> dhas t k \<longleftrightarrow> ledger_get t k \<noteq> []"
  by (auto simp: ledger_tidy_def dhas_def ledger_get_def dget_or_def list_all_iff
      split: option.splits dest!: map_of_SomeD)

section \<open>LogSampler\<close>

record 'k LogSampler =
  lsm_limit :: int
  lsm_n :: "('k, int) dict"
  lsm_folded_pending :: "'k list"

definition new_LogSampler :: "int \<Rightarrow> 'k LogSampler" where
  "new_LogSampler n = \<lparr> lsm_limit = max 1 n, lsm_n = [], lsm_folded_pending = [] \<rparr>"

definition sampler_allow :: "'k \<Rightarrow> 'k LogSampler \<Rightarrow> bool \<times> 'k LogSampler" where
  "sampler_allow k s =
     (let n = dget_or (lsm_n s) k 0 + 1;
          s1 = s\<lparr>lsm_n := dset k n (lsm_n s)\<rparr>;
          s2 = (if n = lsm_limit s + 1
                then s1\<lparr>lsm_folded_pending := List.insert k (lsm_folded_pending s1)\<rparr> else s1)
      in (n \<le> lsm_limit s, s2))"

definition sampler_just_folded :: "'k \<Rightarrow> 'k LogSampler \<Rightarrow> bool \<times> 'k LogSampler" where
  "sampler_just_folded k s =
     (if k \<in> set (lsm_folded_pending s)
      then (True, s\<lparr>lsm_folded_pending := removeAll k (lsm_folded_pending s)\<rparr>)
      else (False, s))"

text \<open>
  How the submitter uses the pair (\<open>BulkSubmitter._log_failure\<close>): the line itself while
  the budget lasts, then one notice that the rest is folded.
\<close>

datatype log_line = LogLine | FoldNotice

definition log_failure :: "'k \<Rightarrow> 'k LogSampler \<Rightarrow> log_line list \<times> 'k LogSampler" where
  "log_failure k s =
     (let (ok, s1) = sampler_allow k s
      in if ok then ([LogLine], s1)
         else (let (folded, s2) = sampler_just_folded k s1
               in (if folded then [FoldNotice] else [], s2)))"

fun log_failures :: "'k list \<Rightarrow> 'k LogSampler \<Rightarrow> ('k \<times> log_line) list \<times> 'k LogSampler" where
  "log_failures [] s = ([], s)"
| "log_failures (k # ks) s =
     (let (out, s1) = log_failure k s; (rest, s2) = log_failures ks s1
      in (map (Pair k) out @ rest, s2))"

definition sampler_count :: "'k LogSampler \<Rightarrow> 'k \<Rightarrow> int" where
  "sampler_count s k = dget_or (lsm_n s) k 0"

definition sampler_clean :: "'k LogSampler \<Rightarrow> bool" where
  "sampler_clean s \<longleftrightarrow> lsm_folded_pending s = [] \<and> 1 \<le> lsm_limit s"

lemma log_failure_step:
  assumes "sampler_clean s" and "log_failure k s = (out, s')"
  shows "sampler_clean s'" and "lsm_limit s' = lsm_limit s"
    and "sampler_count s' j = (if j = k then sampler_count s k + 1 else sampler_count s j)"
    and "out = (if sampler_count s k < lsm_limit s then [LogLine]
                else if sampler_count s k = lsm_limit s then [FoldNotice] else [])"
  using assms
  by (auto simp: log_failure_def sampler_allow_def sampler_just_folded_def sampler_clean_def
      sampler_count_def Let_def dget_or_def split: if_splits prod.splits)

lemma log_failures_lines:
  assumes "sampler_clean s" and "log_failures ks s = (out, s')"
  shows "int (count_list out (k, LogLine))
           = min (int (count_list ks k)) (max 0 (lsm_limit s - sampler_count s k))
       \<and> count_list out (k, FoldNotice)
           = (if sampler_count s k \<le> lsm_limit s
                \<and> lsm_limit s < sampler_count s k + int (count_list ks k) then 1 else 0)"
  using assms
proof (induction ks arbitrary: s out s')
  case Nil
  then show ?case by simp
next
  case (Cons a ks)
  obtain o1 s1 where step: "log_failure a s = (o1, s1)" by (cases "log_failure a s")
  obtain o2 s2 where rest: "log_failures ks s1 = (o2, s2)" by (cases "log_failures ks s1")
  have out: "out = map (Pair a) o1 @ o2"
    using Cons.prems(2) step rest by simp
  note st = log_failure_step [OF Cons.prems(1) step]
  have IH: "int (count_list o2 (k, LogLine))
           = min (int (count_list ks k)) (max 0 (lsm_limit s - sampler_count s1 k))
       \<and> count_list o2 (k, FoldNotice)
           = (if sampler_count s1 k \<le> lsm_limit s
                \<and> lsm_limit s < sampler_count s1 k + int (count_list ks k) then 1 else 0)"
    using Cons.IH [OF st(1) rest] st(2) by simp
  show ?case
  proof (cases "a = k")
    case True
    then show ?thesis using IH st(3) [of k] st(4) by (auto simp: out)
  next
    case False
    then have "count_list (map (Pair a) o1) (k, l) = 0" for l
      by (auto simp: count_list_0_iff)
    with False show ?thesis using IH st(3) [of k] by (simp add: out)
  qed
qed

end
