(* ===== verification/Options.thy ===== *)
theory Options
  imports Util
begin

text \<open>
  Configuration: the numeric ranges and the checks of \<open>lsfmgr/config.py\<close>, and the option
  layers of \<open>lsfmgr/options.py\<close>. Values are Python values, because the checks are about
  what a caller may pass; a float is exact (no rounding) or one of the special values.
\<close>

section \<open>Python values\<close>

datatype py_float = Fin real | PInf | NInf | NaN

datatype py_value =
    PyNone | PyBool bool | PyInt int | PyFloat py_float | PyStr string | PyList "py_value list"

fun fl_ge :: "py_float \<Rightarrow> real \<Rightarrow> bool" where
  "fl_ge (Fin x) r = (r \<le> x)" | "fl_ge PInf r = True" | "fl_ge NInf r = False" | "fl_ge NaN r = False"

fun fl_gt :: "py_float \<Rightarrow> real \<Rightarrow> bool" where
  "fl_gt (Fin x) r = (r < x)" | "fl_gt PInf r = True" | "fl_gt NInf r = False" | "fl_gt NaN r = False"

fun fl_le :: "py_float \<Rightarrow> real \<Rightarrow> bool" where
  "fl_le (Fin x) r = (x \<le> r)" | "fl_le PInf r = False" | "fl_le NInf r = True" | "fl_le NaN r = False"

fun fl_finite :: "py_float \<Rightarrow> bool" where
  "fl_finite (Fin x) = True" | "fl_finite PInf = False" | "fl_finite NInf = False" | "fl_finite NaN = False"

text \<open>Sign and unsigned remainder of a number text; the digits of \<open>int(s)\<close> and \<open>float(s)\<close>.\<close>

fun split_sign :: "string \<Rightarrow> int \<times> string" where
  "split_sign [] = (1, [])"
| "split_sign (c # s) = (if c = CHR ''-'' then (-1, s) else if c = CHR ''+'' then (1, s) else (1, c # s))"

text \<open>Digit groups separated by single underscores, as the number syntax allows.\<close>

definition digit_groups :: "string \<Rightarrow> string option" where
  "digit_groups s = (if list_all py_isdigit (py_split (CHR ''_'') s) then Some (filter is_digit s) else None)"

definition py_int_of_string :: "string \<Rightarrow> int option" where
  "py_int_of_string s =
     (let (sg, body) = split_sign (py_strip s)
      in map_option (\<lambda>ds. sg * int (parse_nat ds)) (digit_groups body))"

definition parse_decimal :: "string \<Rightarrow> real option" where
  "parse_decimal s =
     (let ip = takeWhile (\<lambda>c. c \<noteq> CHR ''.'') s;
          fp = drop (Suc (length ip)) s;
          int_ok = (ip = [] \<or> digit_groups ip \<noteq> None);
          frac_ok = (fp = [] \<or> digit_groups fp \<noteq> None);
          ids = (case digit_groups ip of Some d \<Rightarrow> d | None \<Rightarrow> []);
          fds = (case digit_groups fp of Some d \<Rightarrow> d | None \<Rightarrow> [])
      in if int_ok \<and> frac_ok \<and> (ids \<noteq> [] \<or> fds \<noteq> [])
         then Some (real (parse_nat ids) + real (parse_nat fds) / 10 ^ length fds)
         else None)"

definition py_float_of_string :: "string \<Rightarrow> py_float option" where
  "py_float_of_string s =
     (let (sg, body) = split_sign (py_strip (py_lower s))
      in if body = ''inf'' \<or> body = ''infinity'' then Some (if sg < 0 then NInf else PInf)
         else if body = ''nan'' then Some NaN
         else
           (let mant = takeWhile (\<lambda>c. c \<noteq> CHR ''e'') body;
                rest = drop (length mant) body
            in case parse_decimal mant of
                 None \<Rightarrow> None
               | Some m \<Rightarrow>
                   (if rest = [] then Some (Fin (real_of_int sg * m))
                    else
                      (let (es, eds) = split_sign (tl rest)
                       in case digit_groups eds of
                            None \<Rightarrow> None
                          | Some ds \<Rightarrow>
                              Some (Fin (real_of_int sg * m *
                                (if es < 0 then inverse (10 ^ parse_nat ds)
                                 else 10 ^ parse_nat ds)))))))"

text \<open>\<open>int(v)\<close>, \<open>float(v)\<close> and \<open>bool(v)\<close>. \<open>None\<close> of the first two is a raise.\<close>

fun py_int :: "py_value \<Rightarrow> py_error + int" where
  "py_int (PyInt i) = Inr i"
| "py_int (PyBool b) = Inr (if b then 1 else 0)"
| "py_int (PyFloat (Fin x)) = Inr (py_int_of_real x)"
| "py_int (PyFloat _) = Inl ValueError"
| "py_int (PyStr s) = (case py_int_of_string s of None \<Rightarrow> Inl ValueError | Some i \<Rightarrow> Inr i)"
| "py_int PyNone = Inl TypeError"
| "py_int (PyList _) = Inl TypeError"

fun py_flt :: "py_value \<Rightarrow> py_error + py_float" where
  "py_flt (PyInt i) = Inr (Fin (real_of_int i))"
| "py_flt (PyBool b) = Inr (Fin (if b then 1 else 0))"
| "py_flt (PyFloat x) = Inr x"
| "py_flt (PyStr s) = (case py_float_of_string s of None \<Rightarrow> Inl ValueError | Some x \<Rightarrow> Inr x)"
| "py_flt PyNone = Inl TypeError"
| "py_flt (PyList _) = Inl TypeError"

fun py_truth :: "py_value \<Rightarrow> bool" where
  "py_truth PyNone = False"
| "py_truth (PyBool b) = b"
| "py_truth (PyInt i) = (i \<noteq> 0)"
| "py_truth (PyFloat x) = (x \<noteq> Fin 0)"
| "py_truth (PyStr s) = (s \<noteq> [])"
| "py_truth (PyList vs) = (vs \<noteq> [])"

section \<open>Numeric ranges\<close>

datatype num_cast = CastInt | CastFloat

record num_range =
  nr_cast :: num_cast
  nr_lo :: real
  nr_hi :: "real option"
  nr_inclusive_lo :: bool

definition MAX_STATE_DWELL_S :: real where
  "MAX_STATE_DWELL_S = 3600"

definition rng :: "num_cast \<Rightarrow> real \<Rightarrow> real option \<Rightarrow> bool \<Rightarrow> num_range" where
  "rng c lo hi incl = \<lparr> nr_cast = c, nr_lo = lo, nr_hi = hi, nr_inclusive_lo = incl \<rparr>"

definition NUMERIC_RANGES :: "(string, num_range) dict" where
  "NUMERIC_RANGES =
    [(''workers'', rng CastInt 1 (Some 64) True),
     (''max_retry'', rng CastInt 0 None True),
     (''retry_delay_s'', rng CastFloat 0 None True),
     (''chunk_size'', rng CastInt 1 (Some 5000) True),
     (''arg_max'', rng CastInt 4096 None True),
     (''kill_chunk_size'', rng CastInt 1 (Some 5000) True),
     (''kill_workers'', rng CastInt 1 (Some 32) True),
     (''kill_max_retry'', rng CastInt 0 None True),
     (''kill_retry_delay_s'', rng CastFloat 0 None True),
     (''lost_after_missing_polls'', rng CastInt 1 None True),
     (''progress_min_interval_s'', rng CastFloat 0 None True),
     (''progress_min_step_ratio'', rng CastFloat 0 (Some 1) True),
     (''min_state_dwell_s'', rng CastFloat 0 (Some MAX_STATE_DWELL_S) True),
     (''internal_retention_days'', rng CastFloat 0 None True),
     (''internal_lost_grace_s'', rng CastFloat 0 None True),
     (''poll_interval_s'', rng CastFloat 0 None False),
     (''submit_timeout_s'', rng CastFloat 0 None False),
     (''query_timeout_s'', rng CastFloat 0 None False),
     (''kill_timeout_s'', rng CastFloat 0 None False)]"

definition cast_number :: "num_cast \<Rightarrow> py_value \<Rightarrow> py_error + py_value" where
  "cast_number c v =
     (case c of
        CastInt \<Rightarrow> (case py_int v of Inl e \<Rightarrow> Inl e | Inr i \<Rightarrow> Inr (PyInt i))
      | CastFloat \<Rightarrow> (case py_flt v of Inl e \<Rightarrow> Inl e | Inr x \<Rightarrow> Inr (PyFloat x)))"

fun num_float :: "py_value \<Rightarrow> py_float" where
  "num_float (PyInt i) = Fin (real_of_int i)"
| "num_float (PyFloat x) = x"
| "num_float _ = NaN"

definition in_range :: "py_value \<Rightarrow> num_range \<Rightarrow> py_error + py_value" where
  "in_range value r =
     (case cast_number (nr_cast r) value of
        Inl _ \<Rightarrow> Inl ValueError
      | Inr v \<Rightarrow>
          (if (nr_cast r \<noteq> CastFloat \<or> fl_finite (num_float v))
              \<and> (if nr_inclusive_lo r then fl_ge (num_float v) (nr_lo r)
                 else fl_gt (num_float v) (nr_lo r))
              \<and> (case nr_hi r of None \<Rightarrow> True | Some hi \<Rightarrow> fl_le (num_float v) hi)
           then Inr v else Inl ValueError))"

text \<open>What a value that passed its range check satisfies.\<close>

definition satisfies_range :: "num_range \<Rightarrow> py_value \<Rightarrow> bool" where
  "satisfies_range r v \<longleftrightarrow> (\<exists>x. num_float v = Fin x \<and> (if nr_inclusive_lo r then nr_lo r \<le> x else nr_lo r < x)
     \<and> (case nr_hi r of None \<Rightarrow> True | Some hi \<Rightarrow> x \<le> hi))"

lemma in_range_satisfies: "in_range value r = Inr v \<Longrightarrow> satisfies_range r v"
proof -
  assume ok: "in_range value r = Inr v"
  then have c: "cast_number (nr_cast r) value = Inr v"
    by (auto simp: in_range_def split: sum.splits if_splits)
  have fin: "\<exists>x. num_float v = Fin x"
  proof (cases "nr_cast r")
    case CastInt
    with c show ?thesis by (auto simp: cast_number_def split: sum.splits)
  next
    case CastFloat
    with c ok have "fl_finite (num_float v)"
      by (auto simp: in_range_def split: if_splits)
    then show ?thesis by (cases "num_float v") auto
  qed
  with ok c show ?thesis
    by (auto simp: in_range_def satisfies_range_def split: if_splits option.splits)
qed

lemma in_range_ValueError: "in_range value r = Inl e \<Longrightarrow> e = ValueError"
  by (auto simp: in_range_def split: sum.splits if_splits)

lemma cast_number_idem: "cast_number c value = Inr v \<Longrightarrow> cast_number c v = Inr v"
  by (auto simp: cast_number_def split: num_cast.splits sum.splits)

lemma in_range_idem: "in_range value r = Inr v \<Longrightarrow> in_range v r = Inr v"
  by (auto simp: in_range_def dest: cast_number_idem split: sum.splits if_splits)

section \<open>Command paths\<close>

fun nonempty_str :: "py_value \<Rightarrow> bool" where
  "nonempty_str (PyStr s) = (s \<noteq> [])"
| "nonempty_str _ = False"

fun valid_cmd_path :: "py_value \<Rightarrow> bool" where
  "valid_cmd_path (PyStr s) = (s \<noteq> [])"
| "valid_cmd_path (PyList vs) = (vs \<noteq> [] \<and> list_all nonempty_str vs)"
| "valid_cmd_path _ = False"

definition validate_cmd_path :: "py_value \<Rightarrow> py_error + unit" where
  "validate_cmd_path v = (if valid_cmd_path v then Inr () else Inl ValueError)"

datatype CmdPath = Program string | Tokens "string list"

fun cmd_tokens :: "CmdPath \<Rightarrow> string list" where
  "cmd_tokens (Program p) = [p]"
| "cmd_tokens (Tokens ts) = ts"


section \<open>LsfConfig\<close>

text \<open>
  The configuration before and after its own check. The numeric fields are kept by name,
  because the check is a loop over the range table; of a callback only whether it is given
  and callable is looked at.
\<close>

datatype callback = CbNone | CbCallable | CbNotCallable

record LsfConfig =
  cfg_num :: "(string, py_value) dict"
  cfg_retry_backoff :: py_value
  cfg_kill_status_policy :: py_value
  cfg_wrapper_pattern :: py_value
  cfg_job_status_fetcher :: callback
  cfg_failover :: callback
  cfg_internal_refresh_min_s :: py_value

fun check_ranges :: "(string \<times> num_range) list \<Rightarrow> (string, py_value) dict
    \<Rightarrow> py_error + (string, py_value) dict" where
  "check_ranges [] nums = Inr nums"
| "check_ranges ((name, r) # rs) nums =
     (case in_range (dget_or nums name PyNone) r of
        Inl e \<Rightarrow> Inl e
      | Inr v \<Rightarrow> check_ranges rs (dset name v nums))"

definition check_backoff_number :: "py_value \<Rightarrow> py_error + py_value" where
  "check_backoff_number v =
     (case py_flt v of
        Inl _ \<Rightarrow> Inl ValueError
      | Inr x \<Rightarrow> if fl_finite x then Inr (PyFloat x) else Inl ValueError)"

definition valid_policy :: "py_value \<Rightarrow> bool" where
  "valid_policy v \<longleftrightarrow> v = PyStr ''optimistic'' \<or> v = PyStr ''actual''"

fun valid_wrapper_rule :: "py_value \<Rightarrow> bool" where
  "valid_wrapper_rule PyNone = True"
| "valid_wrapper_rule (PyList [pat, cmd]) = (nonempty_str pat \<and> valid_cmd_path cmd)"
| "valid_wrapper_rule _ = False"

definition config_post_init :: "LsfConfig \<Rightarrow> py_error + LsfConfig" where
  "config_post_init c =
     (case check_ranges NUMERIC_RANGES (cfg_num c) of
        Inl e \<Rightarrow> Inl e
      | Inr nums \<Rightarrow>
     (case check_backoff_number (cfg_retry_backoff c) of
        Inl e \<Rightarrow> Inl e
      | Inr backoff \<Rightarrow>
        if \<not> valid_policy (cfg_kill_status_policy c) then Inl ValueError
        else if \<not> valid_wrapper_rule (cfg_wrapper_pattern c) then Inl ValueError
        else if cfg_job_status_fetcher c = CbNotCallable then Inl ValueError
        else if cfg_failover c = CbNotCallable then Inl ValueError
        else if cfg_failover c \<noteq> CbNone \<and> cfg_job_status_fetcher c = CbNone then Inl ValueError
        else
          (case (if cfg_internal_refresh_min_s c = PyNone then Inr PyNone
                 else in_range (cfg_internal_refresh_min_s c) (rng CastFloat 0 None True)) of
             Inl e \<Rightarrow> Inl e
           | Inr refresh \<Rightarrow>
               Inr (c\<lparr>cfg_num := nums, cfg_retry_backoff := backoff,
                      cfg_internal_refresh_min_s := refresh\<rparr>))))"

lemma check_ranges_keeps:
  "check_ranges rs nums = Inr nums' \<Longrightarrow> k \<notin> fst ` set rs \<Longrightarrow> dget nums' k = dget nums k"
proof (induction rs arbitrary: nums)
  case Nil
  then show ?case by simp
next
  case (Cons p rs)
  obtain a b where p: "p = (a, b)" by (cases p)
  from Cons.prems p obtain v where
    rest: "check_ranges rs (dset a v nums) = Inr nums'" by (auto split: sum.splits)
  from Cons.IH [OF rest] Cons.prems p show ?case by simp
qed

lemma check_ranges_all:
  assumes "check_ranges rs nums = Inr nums'" and "distinct (map fst rs)" and "(k, r) \<in> set rs"
  shows "\<exists>v. dget nums' k = Some v \<and> satisfies_range r v \<and> in_range v r = Inr v"
  using assms
proof (induction rs arbitrary: nums)
  case Nil
  then show ?case by simp
next
  case (Cons p rs)
  obtain a b where p: "p = (a, b)" by (cases p)
  from Cons.prems p obtain v where
    v: "in_range (dget_or nums a PyNone) b = Inr v"
    and rest: "check_ranges rs (dset a v nums) = Inr nums'" by (auto split: sum.splits)
  show ?case
  proof (cases "k = a")
    case True
    with Cons.prems p have "r = b" by (auto simp: image_iff)
    moreover have "dget nums' a = Some v"
      using check_ranges_keeps [OF rest] Cons.prems p by auto
    ultimately show ?thesis using True in_range_satisfies [OF v] in_range_idem [OF v] by auto
  next
    case False
    with Cons.IH [OF rest] Cons.prems p show ?thesis by auto
  qed
qed

lemma distinct_NUMERIC_RANGES: "distinct (map fst NUMERIC_RANGES)"
  by (simp add: NUMERIC_RANGES_def)

text \<open>A configuration that exists satisfies every range, its policy and its callback rule.\<close>

definition config_ok :: "LsfConfig \<Rightarrow> bool" where
  "config_ok c \<longleftrightarrow> (\<forall>k r. (k, r) \<in> set NUMERIC_RANGES \<longrightarrow>
       (\<exists>v. dget (cfg_num c) k = Some v \<and> satisfies_range r v))
     \<and> valid_policy (cfg_kill_status_policy c)
     \<and> valid_wrapper_rule (cfg_wrapper_pattern c)
     \<and> cfg_job_status_fetcher c \<noteq> CbNotCallable
     \<and> (cfg_failover c \<noteq> CbNone \<longrightarrow> cfg_failover c = CbCallable \<and> cfg_job_status_fetcher c = CbCallable)"

lemma config_post_init_cases:
  assumes "config_post_init c = Inr c'"
  obtains nums where "check_ranges NUMERIC_RANGES (cfg_num c) = Inr nums"
    and "cfg_num c' = nums"
    and "cfg_kill_status_policy c' = cfg_kill_status_policy c" "valid_policy (cfg_kill_status_policy c)"
    and "cfg_wrapper_pattern c' = cfg_wrapper_pattern c" "valid_wrapper_rule (cfg_wrapper_pattern c)"
    and "cfg_job_status_fetcher c' = cfg_job_status_fetcher c"
    and "cfg_failover c' = cfg_failover c"
    and "cfg_job_status_fetcher c \<noteq> CbNotCallable" "cfg_failover c \<noteq> CbNotCallable"
    and "cfg_failover c = CbNone \<or> cfg_job_status_fetcher c \<noteq> CbNone"
  using assms unfolding config_post_init_def by (auto split: sum.splits if_splits)

lemma config_post_init_sound: "config_post_init c = Inr c' \<Longrightarrow> config_ok c'"
proof -
  assume "config_post_init c = Inr c'"
  then obtain nums where c: "check_ranges NUMERIC_RANGES (cfg_num c) = Inr nums"
    "cfg_num c' = nums"
    "cfg_kill_status_policy c' = cfg_kill_status_policy c" "valid_policy (cfg_kill_status_policy c)"
    "cfg_wrapper_pattern c' = cfg_wrapper_pattern c" "valid_wrapper_rule (cfg_wrapper_pattern c)"
    "cfg_job_status_fetcher c' = cfg_job_status_fetcher c" "cfg_failover c' = cfg_failover c"
    "cfg_job_status_fetcher c \<noteq> CbNotCallable" "cfg_failover c \<noteq> CbNotCallable"
    "cfg_failover c = CbNone \<or> cfg_job_status_fetcher c \<noteq> CbNone"
    by (rule config_post_init_cases)
  have ranges: "\<forall>k r. (k, r) \<in> set NUMERIC_RANGES \<longrightarrow> (\<exists>v. dget nums k = Some v \<and> satisfies_range r v)"
    using check_ranges_all [OF c(1) distinct_NUMERIC_RANGES] by blast
  have callbacks: "cfg_job_status_fetcher c' \<noteq> CbNotCallable
      \<and> (cfg_failover c' \<noteq> CbNone \<longrightarrow> cfg_failover c' = CbCallable \<and> cfg_job_status_fetcher c' = CbCallable)"
    using c(7-11) by (cases "cfg_failover c"; cases "cfg_job_status_fetcher c") simp_all
  show ?thesis
    unfolding config_ok_def c(2) using ranges callbacks c(3-6) by presburger
qed

section \<open>Call options\<close>

definition MAX_RETRY_DELAY_S :: real where
  "MAX_RETRY_DELAY_S = 86400"

datatype backoff_kind = BackoffFixed | BackoffExpo

text \<open>\<open>value.split(":", 1)\<close> must give two parts, the second a float.\<close>

fun parse_retry_backoff :: "py_value \<Rightarrow> py_error + backoff_kind \<times> real" where
  "parse_retry_backoff (PyStr s) =
     (let kind = takeWhile (\<lambda>c. c \<noteq> CHR '':'') s;
          rest = drop (length kind) s
      in if rest = [] then Inl ValueError
         else
           (case py_float_of_string (tl rest) of
              None \<Rightarrow> Inl ValueError
            | Some base \<Rightarrow>
                (if (kind = ''fixed'' \<or> kind = ''expo'') \<and> fl_finite base \<and> fl_ge base 0
                 then (case base of
                         Fin b \<Rightarrow> Inr (if kind = ''fixed'' then BackoffFixed else BackoffExpo, b)
                       | _ \<Rightarrow> Inl ValueError)
                 else Inl ValueError)))"
| "parse_retry_backoff _ = Inl ValueError"

definition delay_of :: "backoff_kind \<Rightarrow> real \<Rightarrow> nat \<Rightarrow> real" where
  "delay_of kind base attempt =
     (case kind of
        BackoffFixed \<Rightarrow> min base MAX_RETRY_DELAY_S
      | BackoffExpo \<Rightarrow>
          (if attempt > 62 then (if base > 0 then MAX_RETRY_DELAY_S else 0)
           else min (base * 2 ^ attempt) MAX_RETRY_DELAY_S))"

record Options =
  opt_workers :: int
  opt_max_retry :: int
  opt_retry_backoff :: string
  opt_poll_interval_s :: real
  opt_auto_poll :: bool
  opt_submit_timeout_s :: real

definition default_Options :: Options where
  "default_Options = \<lparr> opt_workers = 8, opt_max_retry = 3, opt_retry_backoff = ''fixed:2'',
     opt_poll_interval_s = 10, opt_auto_poll = True, opt_submit_timeout_s = 30 \<rparr>"

definition retry_delay_s :: "Options \<Rightarrow> nat \<Rightarrow> py_error + real" where
  "retry_delay_s o1 attempt =
     (case parse_retry_backoff (PyStr (opt_retry_backoff o1)) of
        Inl e \<Rightarrow> Inl e
      | Inr (kind, base) \<Rightarrow> Inr (delay_of kind base attempt))"

lemma parse_retry_backoff_nonneg: "parse_retry_backoff v = Inr (kind, base) \<Longrightarrow> 0 \<le> base"
  by (induction v rule: parse_retry_backoff.induct)
    (auto simp: Let_def split: if_splits option.splits py_float.splits)

lemma delay_of_bounds: "0 \<le> base \<Longrightarrow> 0 \<le> delay_of kind base n \<and> delay_of kind base n \<le> MAX_RETRY_DELAY_S"
  by (auto simp: delay_of_def MAX_RETRY_DELAY_S_def split: backoff_kind.splits)

lemma delay_of_mono:
  assumes "0 \<le> base" "m \<le> n"
  shows "delay_of kind base m \<le> delay_of kind base n"
proof (cases kind)
  case BackoffFixed
  then show ?thesis by (simp add: delay_of_def)
next
  case BackoffExpo
  have "(2::real) ^ m \<le> 2 ^ n" using assms by (simp add: power_increasing)
  then have "base * 2 ^ m \<le> base * 2 ^ n" using assms by (simp add: mult_left_mono)
  moreover have "base = 0 \<or> 0 < base" using assms by auto
  ultimately show ?thesis
    using BackoffExpo assms by (auto simp: delay_of_def MAX_RETRY_DELAY_S_def min_def)
qed

section \<open>Option layers\<close>

definition SHARED_KEYS :: "string list" where
  "SHARED_KEYS = [''workers'', ''max_retry'', ''retry_backoff'', ''poll_interval_s'',
     ''auto_poll'', ''submit_timeout_s'']"

definition DEPRECATED_KEYS :: "string list" where
  "DEPRECATED_KEYS = [''script_dir'', ''queue'', ''resource_req'', ''output_dir'',
     ''default_queue'', ''lsf_group_root'', ''bsub_path'', ''bgdel_path'', ''bhist_path'',
     ''label'', ''tags'', ''description'']"

definition MANAGER_ONLY_KEYS :: "string list" where
  "MANAGER_ONLY_KEYS = [''chunk_size'', ''verify_kill'', ''arg_max'', ''bjobs_path'',
     ''bkill_path'', ''kill_status_policy'', ''kill_chunk_size'', ''kill_workers'',
     ''kill_max_retry'', ''kill_retry_delay_s'', ''progress_min_interval_s'',
     ''progress_min_step_ratio'', ''poll_runtime_updates'', ''submit_finished_on_gate_reject'',
     ''lost_after_missing_polls'', ''internal_refresh_min_s'', ''internal_retention_days'',
     ''internal_lost_grace_s'', ''collect_clusters'', ''min_state_dwell_s'',
     ''test_submit_wrapper_pattern_cmd'']"

definition check_float_in :: "real \<Rightarrow> real \<Rightarrow> py_value \<Rightarrow> py_error + py_value" where
  "check_float_in lo hi value =
     (case py_flt value of
        Inl e \<Rightarrow> Inl e
      | Inr x \<Rightarrow> if fl_ge x lo \<and> fl_le x hi then Inr (PyFloat x) else Inl ValueError)"

definition check_bool :: "py_value \<Rightarrow> py_error + py_value" where
  "check_bool value = Inr (PyBool (py_truth value))"

definition check_backoff :: "py_value \<Rightarrow> py_error + py_value" where
  "check_backoff value = (case parse_retry_backoff value of Inl e \<Rightarrow> Inl e | Inr _ \<Rightarrow> Inr value)"

definition check_opt_float_min :: "real \<Rightarrow> py_value \<Rightarrow> py_error + py_value" where
  "check_opt_float_min lo value =
     (if value = PyNone then Inr PyNone else in_range value (rng CastFloat lo None True))"

definition check_policy :: "py_value \<Rightarrow> py_error + py_value" where
  "check_policy value = (if valid_policy value then Inr value else Inl ValueError)"

definition check_cmd_path :: "py_value \<Rightarrow> py_error + py_value" where
  "check_cmd_path value = (case validate_cmd_path value of Inl e \<Rightarrow> Inl e | Inr _ \<Rightarrow> Inr value)"

definition MIN_POLL_INTERVAL_S :: real where "MIN_POLL_INTERVAL_S = 5"
definition MAX_POLL_INTERVAL_S :: real where "MAX_POLL_INTERVAL_S = 60"

definition validate_option :: "string \<Rightarrow> py_value \<Rightarrow> py_error + py_value" where
  "validate_option key value =
     (if key = ''poll_interval_s'' then check_float_in MIN_POLL_INTERVAL_S MAX_POLL_INTERVAL_S value
      else if key = ''retry_backoff'' then check_backoff value
      else if key \<in> set [''auto_poll'', ''verify_kill'', ''poll_runtime_updates'',
                         ''submit_finished_on_gate_reject'', ''collect_clusters'']
        then check_bool value
      else if key = ''bjobs_path'' \<or> key = ''bkill_path'' then check_cmd_path value
      else if key = ''kill_status_policy'' then check_policy value
      else if key = ''internal_refresh_min_s'' then check_opt_float_min 0 value
      else (case dget NUMERIC_RANGES key of Some r \<Rightarrow> in_range value r | None \<Rightarrow> Inr value))"

fun validate_options :: "(string, py_value) dict \<Rightarrow> string list \<Rightarrow> (string, py_value) dict
    \<Rightarrow> py_error + (string, py_value) dict" where
  "validate_options [] allowed out = Inr out"
| "validate_options ((key, value) # kw) allowed out =
     (if key \<in> set DEPRECATED_KEYS then validate_options kw allowed out
      else if key \<notin> set allowed then Inl TypeError
      else (case validate_option key value of
              Inl e \<Rightarrow> Inl e
            | Inr v \<Rightarrow> validate_options kw allowed (dset key v out)))"

definition dupdate :: "('k, 'v) dict \<Rightarrow> ('k, 'v) dict \<Rightarrow> ('k, 'v) dict" where
  "dupdate d e = fold (\<lambda>(k, v) acc. dset k v acc) e d"

definition BUILTIN_DEFAULTS :: "(string, py_value) dict" where
  "BUILTIN_DEFAULTS =
    [(''workers'', PyInt (opt_workers default_Options)),
     (''max_retry'', PyInt (opt_max_retry default_Options)),
     (''retry_backoff'', PyStr (opt_retry_backoff default_Options)),
     (''poll_interval_s'', PyFloat (Fin (opt_poll_interval_s default_Options))),
     (''auto_poll'', PyBool (opt_auto_poll default_Options)),
     (''submit_timeout_s'', PyFloat (Fin (opt_submit_timeout_s default_Options)))]"

text \<open>The fields the frozen \<open>Options\<close> of one call is built from.\<close>

definition resolve_options :: "(string, py_value) dict \<Rightarrow> (string, py_value) dict
    \<Rightarrow> py_error + (string, py_value) dict" where
  "resolve_options defaults call_kwargs =
     (case validate_options call_kwargs SHARED_KEYS [] of
        Inl e \<Rightarrow> Inl e
      | Inr call \<Rightarrow>
          Inr (filter (\<lambda>(k, _). k \<in> set (dkeys BUILTIN_DEFAULTS))
                 (dupdate (dupdate BUILTIN_DEFAULTS defaults) call)))"

lemma dget_dupdate:
  "distinct (dkeys e) \<Longrightarrow>
     dget (dupdate d e) k = (case dget e k of None \<Rightarrow> dget d k | Some v \<Rightarrow> Some v)"
proof (induction e arbitrary: d)
  case Nil
  then show ?case by (simp add: dupdate_def)
next
  case (Cons p e)
  obtain a b where p: "p = (a, b)" by (cases p)
  have step: "dupdate d (p # e) = dupdate (dset a b d) e" by (simp add: dupdate_def p)
  from Cons.prems p have "dget e a = None" "distinct (dkeys e)"
    by (auto simp: map_of_eq_None_iff)
  with Cons.IH [of "dset a b d"] show ?case
    unfolding step by (auto simp: p split: option.splits)
qed

lemma dget_filter_keys:
  "dget (filter (\<lambda>(k, _). P k) d) k = (if P k then dget d k else None)"
  by (induction d) auto

text \<open>
  A dictionary that came out of the check holds exactly the given supported keys, each
  with its normalised value.
\<close>

lemma validate_options_out:
  assumes "validate_options kw allowed out = Inr out'" and "distinct (dkeys kw)"
    and "distinct (dkeys out)"
  shows "distinct (dkeys out') \<and> (\<forall>k. dget out' k =
     (if k \<in> set DEPRECATED_KEYS then dget out k
      else case dget kw k of
             None \<Rightarrow> dget out k
           | Some v \<Rightarrow> (case validate_option k v of Inr w \<Rightarrow> Some w | Inl _ \<Rightarrow> None)))"
  using assms
proof (induction kw arbitrary: out)
  case Nil
  then show ?case by simp
next
  case (Cons p kw)
  obtain a b where p: "p = (a, b)" by (cases p)
  have fresh: "dget kw a = None" "distinct (dkeys kw)"
    using Cons.prems(2) p by (auto simp: map_of_eq_None_iff)
  show ?case
  proof (cases "a \<in> set DEPRECATED_KEYS")
    case True
    with Cons p fresh show ?thesis by (auto split: option.splits)
  next
    case False
    with Cons.prems(1) p obtain v where v: "validate_option a b = Inr v"
      and rest: "validate_options kw allowed (dset a v out) = Inr out'"
      by (auto split: if_splits sum.splits)
    have IH: "distinct (dkeys out') \<and> (\<forall>k. dget out' k =
        (if k \<in> set DEPRECATED_KEYS then dget (dset a v out) k
         else case dget kw k of
                None \<Rightarrow> dget (dset a v out) k
              | Some v \<Rightarrow> (case validate_option k v of Inr w \<Rightarrow> Some w | Inl _ \<Rightarrow> None)))"
      by (rule Cons.IH [OF rest fresh(2)]) (simp add: Cons.prems(3))
    show ?thesis
      using IH False v fresh p by (auto split: option.splits)
  qed
qed

lemma validate_options_allowed:
  assumes "validate_options kw allowed out = Inr out'" and "(k, v) \<in> set kw"
  shows "k \<in> set DEPRECATED_KEYS \<or> k \<in> set allowed"
  using assms by (induction kw allowed out rule: validate_options.induct)
    (auto split: if_splits sum.splits)

lemma validate_options_valid:
  assumes "validate_options kw allowed out = Inr out'" and "(k, v) \<in> set kw"
    and "k \<notin> set DEPRECATED_KEYS"
  shows "\<exists>w. validate_option k v = Inr w"
  using assms by (induction kw allowed out rule: validate_options.induct)
    (auto split: if_splits sum.splits)

section \<open>Properties\<close>

text \<open>
  Option layers. When \<open>resolve_options\<close> succeeds, every field of the call's options is
  the (normalised) call argument if the call gave one, else the manager's default, else the
  built-in one; fields outside the table, and removed options, have no effect.
\<close>

theorem resolve_options_layers:
  assumes "resolve_options defaults call_kwargs = Inr opts"
    and "distinct (dkeys defaults)" and "distinct (dkeys call_kwargs)"
  shows "dget opts k =
    (if k \<in> set (dkeys BUILTIN_DEFAULTS) then
       (case dget call_kwargs k of
          Some v \<Rightarrow> (case validate_option k v of Inr w \<Rightarrow> Some w | Inl _ \<Rightarrow> None)
        | None \<Rightarrow> (case dget defaults k of Some v \<Rightarrow> Some v | None \<Rightarrow> dget BUILTIN_DEFAULTS k))
     else None)"
proof -
  from assms(1) obtain call where call: "validate_options call_kwargs SHARED_KEYS [] = Inr call"
    and opts: "opts = filter (\<lambda>(k, _). k \<in> set (dkeys BUILTIN_DEFAULTS))
                 (dupdate (dupdate BUILTIN_DEFAULTS defaults) call)"
    by (auto simp: resolve_options_def split: sum.splits)
  have out: "distinct (dkeys call)" "dget call k =
     (if k \<in> set DEPRECATED_KEYS then None
      else case dget call_kwargs k of
             None \<Rightarrow> None
           | Some v \<Rightarrow> (case validate_option k v of Inr w \<Rightarrow> Some w | Inl _ \<Rightarrow> None))"
    using validate_options_out [OF call assms(3)] by (simp_all cong: option.case_cong)
  have field: "dget opts k = (if k \<in> set (dkeys BUILTIN_DEFAULTS) then
      (case dget call k of Some v \<Rightarrow> Some v
       | None \<Rightarrow> (case dget defaults k of Some v \<Rightarrow> Some v | None \<Rightarrow> dget BUILTIN_DEFAULTS k)) else None)"
    unfolding opts dget_filter_keys
    by (simp add: dget_dupdate out(1) assms(2) split: option.splits)
  show ?thesis
  proof (cases "k \<in> set (dkeys BUILTIN_DEFAULTS)")
    case True
    then have "k \<notin> set DEPRECATED_KEYS"
      by (auto simp: BUILTIN_DEFAULTS_def DEPRECATED_KEYS_def)
    moreover have "\<exists>w. validate_option k v = Inr w" if "dget call_kwargs k = Some v" for v
      using validate_options_valid [OF call map_of_SomeD [OF that]] calculation by simp
    ultimately show ?thesis
      using True by (auto simp: field out(2) split: option.splits sum.splits)
  qed (simp add: field)
qed

theorem resolve_options_layers_witness:
  "dget [(''workers'', PyInt 4), (''max_retry'', PyInt 3), (''retry_backoff'', PyStr ''fixed:2''),
      (''poll_interval_s'', PyFloat (Fin 7)), (''auto_poll'', PyBool True),
      (''submit_timeout_s'', PyFloat (Fin 30))] ''workers'' = Some (PyInt 4)"
proof -
  let ?d = "[(''poll_interval_s'', PyFloat (Fin 7))]"
  let ?c = "[(''queue'', PyStr ''normal''), (''workers'', PyInt 4)]"
  let ?o = "[(''workers'', PyInt 4), (''max_retry'', PyInt 3), (''retry_backoff'', PyStr ''fixed:2''),
      (''poll_interval_s'', PyFloat (Fin 7)), (''auto_poll'', PyBool True),
      (''submit_timeout_s'', PyFloat (Fin 30))]"
  have v: "validate_option ''workers'' (PyInt 4) = Inr (PyInt 4)"
    by (simp add: validate_option_def NUMERIC_RANGES_def in_range_def cast_number_def rng_def)
  have r: "resolve_options ?d ?c = Inr ?o"
    by (simp add: resolve_options_def v DEPRECATED_KEYS_def SHARED_KEYS_def BUILTIN_DEFAULTS_def
        dupdate_def default_Options_def)
  show ?thesis
    using resolve_options_layers [OF r, of "''workers''"]
    by (simp add: v BUILTIN_DEFAULTS_def)
qed

text \<open>
  Retry delays. Whatever backoff option parses, every delay is between 0 and one day,
  so its milliseconds fit the timer's 32-bit argument, and delays never shrink from one
  attempt to a later one.
\<close>

theorem retry_delay_bounded_mono:
  assumes "retry_delay_s o1 m = Inr d" and "m \<le> n"
  shows "\<exists>d'. retry_delay_s o1 n = Inr d' \<and> 0 \<le> d \<and> d \<le> d' \<and> d' \<le> MAX_RETRY_DELAY_S
    \<and> d' * 1000 < 2 ^ 31"
proof -
  from assms(1) obtain kind base where p: "parse_retry_backoff (PyStr (opt_retry_backoff o1)) = Inr (kind, base)"
    and d: "d = delay_of kind base m"
    by (auto simp: retry_delay_s_def split: sum.splits)
  have "retry_delay_s o1 n = Inr (delay_of kind base n)"
    unfolding retry_delay_s_def p by simp
  then show ?thesis
    using delay_of_bounds [OF parse_retry_backoff_nonneg [OF p], of kind m]
      delay_of_bounds [OF parse_retry_backoff_nonneg [OF p], of kind n]
      delay_of_mono [OF parse_retry_backoff_nonneg [OF p] assms(2), of kind]
    by (simp add: d MAX_RETRY_DELAY_S_def)
qed

theorem retry_delay_bounded_mono_witness:
  "\<exists>d'. retry_delay_s (default_Options\<lparr>opt_retry_backoff := ''expo:2''\<rparr>) 70 = Inr d' \<and> (0::real) \<le> 16
     \<and> 16 \<le> d' \<and> d' \<le> MAX_RETRY_DELAY_S \<and> d' * 1000 < 2 ^ 31"
proof -
  have "retry_delay_s (default_Options\<lparr>opt_retry_backoff := ''expo:2''\<rparr>) 3 = Inr 16"
    by (simp add: retry_delay_s_def Let_def py_float_of_string_def py_lower_def py_lower_char_def
        py_strip_def py_lstrip_def py_isspace_def parse_decimal_def digit_groups_def py_isdigit_def
        is_digit_def parse_nat_def digit_val_def delay_of_def MAX_RETRY_DELAY_S_def)
  then show ?thesis by (rule retry_delay_bounded_mono) simp
qed

text \<open>
  Configuration. A configuration that its constructor accepts has every numeric field
  inside its documented range, a known kill policy, a well-formed wrapper rule, and never a
  failover callback without a primary one; normalising is stable under a second check.
\<close>

theorem config_accepted_is_valid:
  assumes "config_post_init c = Inr c'"
  shows "config_ok c'
    \<and> list_all (\<lambda>(k, r). in_range (dget_or (cfg_num c') k PyNone) r = Inr (dget_or (cfg_num c') k PyNone))
        NUMERIC_RANGES"
proof
  show "config_ok c'" using assms by (rule config_post_init_sound)
  from assms obtain nums where nums: "check_ranges NUMERIC_RANGES (cfg_num c) = Inr nums"
    "cfg_num c' = nums"
    by (rule config_post_init_cases)
  show "list_all (\<lambda>(k, r). in_range (dget_or (cfg_num c') k PyNone) r = Inr (dget_or (cfg_num c') k PyNone))
        NUMERIC_RANGES"
    using check_ranges_all [OF nums(1) distinct_NUMERIC_RANGES]
    by (auto simp: list_all_iff dget_or_def nums(2) split: option.splits) fastforce+
qed

definition default_config :: LsfConfig where
  "default_config = \<lparr> cfg_num =
    [(''workers'', PyInt 8), (''max_retry'', PyInt 3), (''retry_delay_s'', PyFloat (Fin 2)),
     (''chunk_size'', PyInt 500), (''arg_max'', PyInt 131072), (''kill_chunk_size'', PyInt 16),
     (''kill_workers'', PyInt 4), (''kill_max_retry'', PyInt 2),
     (''kill_retry_delay_s'', PyFloat (Fin 3)), (''lost_after_missing_polls'', PyInt 3),
     (''progress_min_interval_s'', PyFloat (Fin (1/2))),
     (''progress_min_step_ratio'', PyFloat (Fin (1/100))), (''min_state_dwell_s'', PyFloat (Fin 0)),
     (''internal_retention_days'', PyFloat (Fin 14)), (''internal_lost_grace_s'', PyFloat (Fin 60)),
     (''poll_interval_s'', PyFloat (Fin 10)), (''submit_timeout_s'', PyFloat (Fin 30)),
     (''query_timeout_s'', PyFloat (Fin 120)), (''kill_timeout_s'', PyFloat (Fin 120))],
    cfg_retry_backoff = PyFloat (Fin 1), cfg_kill_status_policy = PyStr ''optimistic'',
    cfg_wrapper_pattern = PyNone, cfg_job_status_fetcher = CbNone, cfg_failover = CbNone,
    cfg_internal_refresh_min_s = PyNone \<rparr>"

theorem config_accepted_is_valid_witness: "config_ok default_config"
proof -
  have "config_post_init default_config = Inr default_config"
    by (simp add: config_post_init_def default_config_def NUMERIC_RANGES_def in_range_def rng_def
        cast_number_def MAX_STATE_DWELL_S_def dget_or_def check_backoff_number_def valid_policy_def)
  from config_accepted_is_valid [OF this] show ?thesis by simp
qed

end
