(* ===== verification/Store.thy ===== *)
theory Store
  imports Util
begin

text \<open>
  The job store: the abstract contract of \<open>lsfmgr/store/base.py\<close> with its default
  (job by job) operations, and \<open>lsfmgr/store/memory.py\<close>, the in-memory store with its
  incrementally maintained state counts. Each method runs under the store's lock, so each
  is one atomic function of the store; \<open>now\<close> stands for the clock it reads.
\<close>

section \<open>Field updates\<close>

text \<open>
  The keyword arguments of \<open>transition\<close>. \<open>state\<close>, \<open>updated_at\<close> and \<open>_revision\<close> are set
  by the store itself and cannot be passed.
\<close>

datatype field_update =
    FJobId "int option" | FArrayIndex "int option" | FFailReason "string option"
  | FFailMessage "string option" | FRetryCount nat | FExitCode "int option" | FKilled bool
  | FSubmitTime "datetime option" | FCommand string | FRunTime "int option"
  | FStartTime "datetime option" | FFinishTime "datetime option"
  | FSourceCluster "string option" | FForwardCluster "string option"
  | FSubmitCwd "string option" | FUserData "user_dict option" | FGeneration uuid
  | FJobKey job_key | FJobsetId jobset_id

fun apply_field :: "field_update \<Rightarrow> JobRecord \<Rightarrow> JobRecord" where
  "apply_field (FJobId v) r = r\<lparr>jr_job_id := v\<rparr>"
| "apply_field (FArrayIndex v) r = r\<lparr>jr_array_index := v\<rparr>"
| "apply_field (FFailReason v) r = r\<lparr>jr_fail_reason := v\<rparr>"
| "apply_field (FFailMessage v) r = r\<lparr>jr_fail_message := v\<rparr>"
| "apply_field (FRetryCount v) r = r\<lparr>jr_retry_count := v\<rparr>"
| "apply_field (FExitCode v) r = r\<lparr>jr_exit_code := v\<rparr>"
| "apply_field (FKilled v) r = r\<lparr>jr_killed := v\<rparr>"
| "apply_field (FSubmitTime v) r = r\<lparr>jr_submit_time := v\<rparr>"
| "apply_field (FCommand v) r = r\<lparr>jr_command := v\<rparr>"
| "apply_field (FRunTime v) r = r\<lparr>jr_run_time_s := v\<rparr>"
| "apply_field (FStartTime v) r = r\<lparr>jr_start_time := v\<rparr>"
| "apply_field (FFinishTime v) r = r\<lparr>jr_finish_time := v\<rparr>"
| "apply_field (FSourceCluster v) r = r\<lparr>jr_source_cluster := v\<rparr>"
| "apply_field (FForwardCluster v) r = r\<lparr>jr_forward_cluster := v\<rparr>"
| "apply_field (FSubmitCwd v) r = r\<lparr>jr_submit_cwd := v\<rparr>"
| "apply_field (FUserData v) r = r\<lparr>jr_user_data := v\<rparr>"
| "apply_field (FGeneration v) r = r\<lparr>jr_generation := v\<rparr>"
| "apply_field (FJobKey v) r = r\<lparr>jr_job_key := v\<rparr>"
| "apply_field (FJobsetId v) r = r\<lparr>jr_jobset_id := v\<rparr>"

definition apply_fields :: "field_update list \<Rightarrow> JobRecord \<Rightarrow> JobRecord" where
  "apply_fields fs r = fold apply_field fs r"

fun is_key_field :: "field_update \<Rightarrow> bool" where
  "is_key_field (FJobKey _) = True"
| "is_key_field (FJobsetId _) = True"
| "is_key_field _ = False"

fun is_generation_field :: "field_update \<Rightarrow> bool" where
  "is_generation_field (FGeneration _) = True"
| "is_generation_field _ = False"

definition reject_key_fields :: "field_update list \<Rightarrow> bool" where
  "reject_key_fields fs \<longleftrightarrow> list_ex is_key_field fs"

type_synonym guard = "(JobRecord \<Rightarrow> bool) option"
type_synonym TransitionSpec = "job_key \<times> JobState option \<times> guard \<times> field_update list"

definition guard_ok :: "guard \<Rightarrow> JobRecord \<Rightarrow> bool" where
  "guard_ok g r = (case g of None \<Rightarrow> True | Some p \<Rightarrow> p r)"

text \<open>The record a write puts: \<open>replace(old, updated_at=now, _revision=..., state=..., **fields)\<close>.\<close>

definition replaced :: "JobRecord \<Rightarrow> nat \<Rightarrow> datetime \<Rightarrow> JobState \<Rightarrow> field_update list \<Rightarrow> JobRecord" where
  "replaced r n now st fs =
     (apply_fields fs r)\<lparr>jr_state := st, jr_updated_at := Some now, jr_revision := Suc n\<rparr>"

definition transitioned :: "JobRecord \<Rightarrow> datetime \<Rightarrow> JobState option \<Rightarrow> field_update list \<Rightarrow> JobRecord" where
  "transitioned old now st fs =
     replaced old (jr_revision old) now (case st of None \<Rightarrow> jr_state old | Some x \<Rightarrow> x) fs"

lemma apply_field_keeps [simp]:
  "jr_state (apply_field f r) = jr_state r"
  "jr_revision (apply_field f r) = jr_revision r"
  "\<not> is_key_field f \<Longrightarrow> jr_job_key (apply_field f r) = jr_job_key r"
  "\<not> is_key_field f \<Longrightarrow> jr_jobset_id (apply_field f r) = jr_jobset_id r"
  "\<not> is_generation_field f \<Longrightarrow> jr_generation (apply_field f r) = jr_generation r"
  by (cases f; simp)+

lemma apply_fields_keeps [simp]:
  "jr_state (apply_fields fs r) = jr_state r"
  "jr_revision (apply_fields fs r) = jr_revision r"
  "\<not> reject_key_fields fs \<Longrightarrow> jr_job_key (apply_fields fs r) = jr_job_key r"
  "\<not> reject_key_fields fs \<Longrightarrow> jr_jobset_id (apply_fields fs r) = jr_jobset_id r"
  unfolding apply_fields_def reject_key_fields_def
  by (induction fs arbitrary: r) auto

lemma apply_fields_generation:
  "\<not> list_ex is_generation_field fs \<Longrightarrow> jr_generation (apply_fields fs r) = jr_generation r"
  unfolding apply_fields_def by (induction fs arbitrary: r) auto

lemma transitioned_simps [simp]:
  "jr_state (transitioned old now st fs) = (case st of None \<Rightarrow> jr_state old | Some x \<Rightarrow> x)"
  "jr_revision (transitioned old now st fs) = Suc (jr_revision old)"
  "jr_updated_at (transitioned old now st fs) = Some now"
  "\<not> reject_key_fields fs \<Longrightarrow> jr_job_key (transitioned old now st fs) = jr_job_key old"
  "\<not> reject_key_fields fs \<Longrightarrow> jr_jobset_id (transitioned old now st fs) = jr_jobset_id old"
  by (simp_all add: transitioned_def replaced_def)

lemma transitioned_generation:
  "\<not> list_ex is_generation_field fs \<Longrightarrow> jr_generation (transitioned old now st fs) = jr_generation old"
  by (simp add: transitioned_def replaced_def apply_fields_generation)

section \<open>The default operations of the abstract store\<close>

text \<open>
  \<open>JobSetStore\<close> gives its batch operations in terms of the single ones; they are functions
  of those here. A backend may override them.
\<close>

definition base_exists :: "(jobset_id \<Rightarrow> 's \<Rightarrow> py_error + 'j) \<Rightarrow> jobset_id \<Rightarrow> 's \<Rightarrow> py_error + bool" where
  "base_exists get_jobset jsid s =
     (case get_jobset jsid s of
        Inr _ \<Rightarrow> Inr True
      | Inl (JobSetNotFoundError _) \<Rightarrow> Inr False
      | Inl e \<Rightarrow> Inl e)"

fun base_add_jobs :: "(JobRecord \<Rightarrow> 's \<Rightarrow> (JobRecord, 's) outcome) \<Rightarrow> JobRecord list \<Rightarrow> 's
    \<Rightarrow> (JobRecord list, 's) outcome" where
  "base_add_jobs add [] s = (Inr [], s)"
| "base_add_jobs add (r # rs) s =
     (case add r s of
        (Inl e, s') \<Rightarrow> (Inl e, s')
      | (Inr r', s') \<Rightarrow>
          (case base_add_jobs add rs s' of
             (Inl e, s'') \<Rightarrow> (Inl e, s'')
           | (Inr out, s'') \<Rightarrow> (Inr (r' # out), s'')))"

fun base_delete_jobs :: "(jobset_id \<Rightarrow> job_key \<Rightarrow> 's \<Rightarrow> (JobRecord, 's) outcome) \<Rightarrow> jobset_id
    \<Rightarrow> job_key list \<Rightarrow> 's \<Rightarrow> (JobRecord list, 's) outcome" where
  "base_delete_jobs del jsid [] s = (Inr [], s)"
| "base_delete_jobs del jsid (k # ks) s =
     (case del jsid k s of
        (Inl e, s') \<Rightarrow> (if RECORD_GONE e then base_delete_jobs del jsid ks s' else (Inl e, s'))
      | (Inr r, s') \<Rightarrow>
          (case base_delete_jobs del jsid ks s' of
             (Inl e, s'') \<Rightarrow> (Inl e, s'')
           | (Inr out, s'') \<Rightarrow> (Inr (r # out), s'')))"

fun base_get_jobs_by_keys :: "(jobset_id \<Rightarrow> job_key \<Rightarrow> 's \<Rightarrow> py_error + JobRecord) \<Rightarrow> jobset_id
    \<Rightarrow> job_key list \<Rightarrow> 's \<Rightarrow> (job_key, JobRecord) dict \<Rightarrow> py_error + (job_key, JobRecord) dict" where
  "base_get_jobs_by_keys get jsid [] s out = Inr out"
| "base_get_jobs_by_keys get jsid (k # ks) s out =
     (case get jsid k s of
        Inl e \<Rightarrow> (if RECORD_GONE e then base_get_jobs_by_keys get jsid ks s out else Inl e)
      | Inr r \<Rightarrow> base_get_jobs_by_keys get jsid ks s (dset k r out))"

fun find_jobs_where :: "(jobset_id \<Rightarrow> 's \<Rightarrow> py_error + JobRecord list) \<Rightarrow> JobSetRecord list
    \<Rightarrow> (JobRecord \<Rightarrow> bool) \<Rightarrow> 's \<Rightarrow> py_error + JobRecord list" where
  "find_jobs_where get_jobs [] pred s = Inr []"
| "find_jobs_where get_jobs (js # rest) pred s =
     (case get_jobs (jset_jobset_id js) s of
        Inl (JobSetNotFoundError _) \<Rightarrow> find_jobs_where get_jobs rest pred s
      | Inl e \<Rightarrow> Inl e
      | Inr jobs \<Rightarrow>
          (case find_jobs_where get_jobs rest pred s of
             Inl e \<Rightarrow> Inl e
           | Inr out \<Rightarrow> Inr (filter pred jobs @ out)))"

fun base_transition_many_impl :: "(jobset_id \<Rightarrow> job_key \<Rightarrow> JobState option \<Rightarrow> guard \<Rightarrow> field_update list
      \<Rightarrow> 's \<Rightarrow> (JobRecord option, 's) outcome) \<Rightarrow> jobset_id \<Rightarrow> TransitionSpec list \<Rightarrow> 's
    \<Rightarrow> (JobRecord list, 's) outcome" where
  "base_transition_many_impl tr jsid [] s = (Inr [], s)"
| "base_transition_many_impl tr jsid ((k, st, g, fs) # specs) s =
     (case tr jsid k st g fs s of
        (Inl (JobNotFoundError _ _), s') \<Rightarrow> base_transition_many_impl tr jsid specs s'
      | (Inl e, s') \<Rightarrow> (Inl e, s')
      | (Inr r, s') \<Rightarrow>
          (case base_transition_many_impl tr jsid specs s' of
             (Inl e, s'') \<Rightarrow> (Inl e, s'')
           | (Inr out, s'') \<Rightarrow> (Inr (case r of None \<Rightarrow> out | Some x \<Rightarrow> x # out), s'')))"

definition transition_many :: "(jobset_id \<Rightarrow> TransitionSpec list \<Rightarrow> 's \<Rightarrow> (JobRecord list, 's) outcome)
    \<Rightarrow> jobset_id \<Rightarrow> TransitionSpec list \<Rightarrow> 's \<Rightarrow> (JobRecord list, 's) outcome" where
  "transition_many impl jsid specs s =
     (if list_ex (\<lambda>(_, _, _, fs). reject_key_fields fs) specs then (Inl ValueError, s)
      else impl jsid specs s)"

definition summary_from_counts :: "JobSetRecord \<Rightarrow> (string, int) dict \<Rightarrow> (string, int) dict" where
  "summary_from_counts js counts =
     (let missing = jset_intended_count js - sum_list (dvalues counts);
          counts' = (if missing > 0
                     then dset (state_value CREATED) (dget_or counts (state_value CREATED) 0 + missing) counts
                     else counts)
      in fold (\<lambda>(k, v) out. dset k v out) counts' [(''total'', jset_intended_count js)])"

definition count_states :: "JobRecord list \<Rightarrow> (string, int) dict" where
  "count_states jobs =
     fold (\<lambda>r c. dset (state_value (jr_state r)) (dget_or c (state_value (jr_state r)) 0 + 1) c) jobs []"

definition make_summary :: "JobSetRecord \<Rightarrow> JobRecord list \<Rightarrow> (string, int) dict" where
  "make_summary js jobs = summary_from_counts js (count_states jobs)"

section \<open>InMemoryStore\<close>

record store =
  s_jobsets :: "(jobset_id, JobSetRecord) dict"
  s_jobs :: "(jobset_id, (job_key, JobRecord) dict) dict"
  s_counts :: "(jobset_id, (string, int) dict) dict"

definition empty_store :: store where
  "empty_store = \<lparr> s_jobsets = [], s_jobs = [], s_counts = [] \<rparr>"

definition jobs_of :: "store \<Rightarrow> jobset_id \<Rightarrow> (job_key, JobRecord) dict" where
  "jobs_of s jsid = dget_or (s_jobs s) jsid []"

definition counts_of :: "store \<Rightarrow> jobset_id \<Rightarrow> (string, int) dict" where
  "counts_of s jsid = dget_or (s_counts s) jsid []"

definition count_del :: "jobset_id \<Rightarrow> JobState \<Rightarrow> store \<Rightarrow> store" where
  "count_del jsid st s =
     (case dget (s_counts s) jsid of
        None \<Rightarrow> s
      | Some counts \<Rightarrow>
          (if counts = [] then s
           else
             (let key = state_value st; n = dget_or counts key 0 - 1
              in s\<lparr>s_counts := dset jsid (if n > 0 then dset key n counts else ddel key counts)
                               (s_counts s)\<rparr>)))"

definition put_rec :: "JobRecord \<Rightarrow> store \<Rightarrow> store" where
  "put_rec r s =
     (let jsid = jr_jobset_id r;
          jobs = jobs_of s jsid;
          s1 = (case dget jobs (jr_job_key r) of None \<Rightarrow> s | Some old \<Rightarrow> count_del jsid (jr_state old) s);
          s2 = s1\<lparr>s_jobs := dset jsid (dset (jr_job_key r) r jobs) (s_jobs s1)\<rparr>;
          counts = counts_of s2 jsid;
          key = state_value (jr_state r)
      in s2\<lparr>s_counts := dset jsid (dset key (dget_or counts key 0 + 1) counts) (s_counts s2)\<rparr>)"

definition drop_rec :: "jobset_id \<Rightarrow> job_key \<Rightarrow> store \<Rightarrow> JobRecord option \<times> store" where
  "drop_rec jsid key s =
     (case dget (s_jobs s) jsid of
        None \<Rightarrow> (None, s)
      | Some jobs \<Rightarrow>
          (case dget jobs key of
             None \<Rightarrow> (None, s)
           | Some old \<Rightarrow>
               (Some old,
                count_del jsid (jr_state old) (s\<lparr>s_jobs := dset jsid (ddel key jobs) (s_jobs s)\<rparr>))))"

definition debug_counts_ok :: "jobset_id \<Rightarrow> store \<Rightarrow> bool" where
  "debug_counts_ok jsid s \<longleftrightarrow> dict_eq (count_states (dvalues (jobs_of s jsid))) (counts_of s jsid)"

definition store_insert_jobset :: "datetime \<Rightarrow> JobSetRecord \<Rightarrow> store \<Rightarrow> (JobSetRecord, store) outcome" where
  "store_insert_jobset now r s =
     (if dhas (s_jobsets s) (jset_jobset_id r) then (Inl ValueError, s)
      else
        (let r1 = (if jset_created_at r = None then r\<lparr>jset_created_at := Some now\<rparr> else r);
             jsid = jset_jobset_id r1
         in (Inr r1, s\<lparr>s_jobsets := dset jsid r1 (s_jobsets s),
                       s_jobs := dsetdefault jsid [] (s_jobs s),
                       s_counts := dsetdefault jsid [] (s_counts s)\<rparr>)))"

definition store_exists :: "jobset_id \<Rightarrow> store \<Rightarrow> bool" where
  "store_exists jsid s = dhas (s_jobsets s) jsid"

definition get_jobset :: "jobset_id \<Rightarrow> store \<Rightarrow> py_error + JobSetRecord" where
  "get_jobset jsid s =
     (case dget (s_jobsets s) jsid of None \<Rightarrow> Inl (JobSetNotFoundError jsid) | Some r \<Rightarrow> Inr r)"

definition update_jobset :: "JobSetRecord \<Rightarrow> store \<Rightarrow> (JobSetRecord, store) outcome" where
  "update_jobset r s =
     (if \<not> dhas (s_jobsets s) (jset_jobset_id r) then (Inl (JobSetNotFoundError (jset_jobset_id r)), s)
      else (Inr r, s\<lparr>s_jobsets := dset (jset_jobset_id r) r (s_jobsets s)\<rparr>))"

definition store_delete_jobset :: "jobset_id \<Rightarrow> store \<Rightarrow> store" where
  "store_delete_jobset jsid s =
     s\<lparr>s_jobsets := ddel jsid (s_jobsets s), s_jobs := ddel jsid (s_jobs s),
       s_counts := ddel jsid (s_counts s)\<rparr>"

definition list_jobsets :: "store \<Rightarrow> JobSetRecord list" where
  "list_jobsets s = dvalues (s_jobsets s)"

definition stamped :: "datetime \<Rightarrow> JobRecord \<Rightarrow> JobRecord" where
  "stamped now r = (if jr_updated_at r = None then r\<lparr>jr_updated_at := Some now\<rparr> else r)"

definition store_add_job :: "datetime \<Rightarrow> JobRecord \<Rightarrow> store \<Rightarrow> (JobRecord, store) outcome" where
  "store_add_job now r s =
     (if \<not> dhas (s_jobsets s) (jr_jobset_id r) then (Inl (JobSetNotFoundError (jr_jobset_id r)), s)
      else if dhas (jobs_of s (jr_jobset_id r)) (jr_job_key r) then (Inl ValueError, s)
      else (Inr (stamped now r), put_rec (stamped now r) s))"

fun add_jobs_check :: "JobRecord list \<Rightarrow> (jobset_id \<times> job_key) list \<Rightarrow> store \<Rightarrow> py_error option" where
  "add_jobs_check [] seen s = None"
| "add_jobs_check (r # rs) seen s =
     (if \<not> dhas (s_jobsets s) (jr_jobset_id r) then Some (JobSetNotFoundError (jr_jobset_id r))
      else if (jr_jobset_id r, jr_job_key r) \<in> set seen
              \<or> dhas (jobs_of s (jr_jobset_id r)) (jr_job_key r) then Some ValueError
      else add_jobs_check rs ((jr_jobset_id r, jr_job_key r) # seen) s)"

definition store_add_jobs :: "datetime \<Rightarrow> JobRecord list \<Rightarrow> store \<Rightarrow> (JobRecord list, store) outcome" where
  "store_add_jobs now rs s =
     (case add_jobs_check rs [] s of
        Some e \<Rightarrow> (Inl e, s)
      | None \<Rightarrow> (Inr (map (stamped now) rs), fold (\<lambda>r. put_rec (stamped now r)) rs s))"

definition store_delete_job :: "jobset_id \<Rightarrow> job_key \<Rightarrow> store \<Rightarrow> (JobRecord, store) outcome" where
  "store_delete_job jsid key s =
     (case drop_rec jsid key s of
        (None, s') \<Rightarrow> (Inl (JobNotFoundError jsid key), s)
      | (Some old, s') \<Rightarrow> (Inr old, s'))"

fun delete_jobs_loop :: "jobset_id \<Rightarrow> job_key list \<Rightarrow> store \<Rightarrow> JobRecord list \<times> store" where
  "delete_jobs_loop jsid [] s = ([], s)"
| "delete_jobs_loop jsid (k # ks) s =
     (case drop_rec jsid k s of
        (None, s') \<Rightarrow> delete_jobs_loop jsid ks s
      | (Some old, s') \<Rightarrow> (let (out, s'') = delete_jobs_loop jsid ks s' in (old # out, s'')))"

definition store_delete_jobs :: "jobset_id \<Rightarrow> job_key list \<Rightarrow> store \<Rightarrow> JobRecord list \<times> store" where
  "store_delete_jobs jsid ks s =
     (if dhas (s_jobs s) jsid then delete_jobs_loop jsid ks s else ([], s))"

definition get_jobs_by_keys :: "jobset_id \<Rightarrow> job_key list \<Rightarrow> store \<Rightarrow> (job_key, JobRecord) dict" where
  "get_jobs_by_keys jsid ks s =
     fold (\<lambda>k out. case dget (jobs_of s jsid) k of None \<Rightarrow> out | Some r \<Rightarrow> dset k r out) ks []"

definition replace_rec :: "JobRecord \<Rightarrow> datetime \<Rightarrow> JobState \<Rightarrow> field_update list \<Rightarrow> store \<Rightarrow> JobRecord \<times> store" where
  "replace_rec r now st fs s =
     (let revision = (case dget (jobs_of s (jr_jobset_id r)) (jr_job_key r) of
                        None \<Rightarrow> 0 | Some cur \<Rightarrow> jr_revision cur);
          new = replaced r revision now st fs
      in (new, put_rec new s))"

definition update_job :: "datetime \<Rightarrow> JobRecord \<Rightarrow> store \<Rightarrow> (JobRecord, store) outcome" where
  "update_job now r s =
     (if dhas (jobs_of s (jr_jobset_id r)) (jr_job_key r)
      then (let (new, s') = replace_rec r now (jr_state r) [] s in (Inr new, s'))
      else (Inl (JobNotFoundError (jr_jobset_id r) (jr_job_key r)), s))"

definition get_job :: "jobset_id \<Rightarrow> job_key \<Rightarrow> store \<Rightarrow> py_error + JobRecord" where
  "get_job jsid key s =
     (case dget (jobs_of s jsid) key of
        None \<Rightarrow> Inl (JobNotFoundError jsid key) | Some r \<Rightarrow> Inr r)"

definition get_jobs :: "jobset_id \<Rightarrow> JobState list option \<Rightarrow> store \<Rightarrow> py_error + JobRecord list" where
  "get_jobs jsid states s =
     (if \<not> dhas (s_jobsets s) jsid then Inl (JobSetNotFoundError jsid)
      else
        (let recs = dvalues (jobs_of s jsid)
         in Inr (case states of None \<Rightarrow> recs | Some sts \<Rightarrow> filter (\<lambda>r. jr_state r \<in> set sts) recs)))"

definition count_jobs :: "jobset_id \<Rightarrow> store \<Rightarrow> py_error + int" where
  "count_jobs jsid s =
     (case get_jobset jsid s of Inl e \<Rightarrow> Inl e | Inr _ \<Rightarrow> Inr (int (length (jobs_of s jsid))))"

definition transition :: "datetime \<Rightarrow> jobset_id \<Rightarrow> job_key \<Rightarrow> JobState option \<Rightarrow> guard
    \<Rightarrow> field_update list \<Rightarrow> store \<Rightarrow> (JobRecord option, store) outcome" where
  "transition now jsid key st g fs s =
     (if reject_key_fields fs then (Inl ValueError, s)
      else
        (case get_job jsid key s of
           Inl e \<Rightarrow> (Inl e, s)
         | Inr old \<Rightarrow>
             (if \<not> guard_ok g old then (Inr None, s)
              else
                (let (new, s') = replace_rec old now (case st of None \<Rightarrow> jr_state old | Some x \<Rightarrow> x) fs s
                 in (Inr (Some new), s')))))"

fun transition_many_loop :: "datetime \<Rightarrow> jobset_id \<Rightarrow> TransitionSpec list \<Rightarrow> store
    \<Rightarrow> JobRecord list \<times> store" where
  "transition_many_loop now jsid [] s = ([], s)"
| "transition_many_loop now jsid ((k, st, g, fs) # specs) s =
     (case dget (jobs_of s jsid) k of
        None \<Rightarrow> transition_many_loop now jsid specs s
      | Some old \<Rightarrow>
          (if \<not> guard_ok g old then transition_many_loop now jsid specs s
           else
             (let (new, s') = replace_rec old now (case st of None \<Rightarrow> jr_state old | Some x \<Rightarrow> x) fs s;
                  (out, s'') = transition_many_loop now jsid specs s'
              in (new # out, s''))))"

definition store_transition_many :: "datetime \<Rightarrow> jobset_id \<Rightarrow> TransitionSpec list \<Rightarrow> store
    \<Rightarrow> (JobRecord list, store) outcome" where
  "store_transition_many now =
     transition_many (\<lambda>jsid specs s. let (out, s') = transition_many_loop now jsid specs s in (Inr out, s'))"

definition store_summary :: "jobset_id \<Rightarrow> store \<Rightarrow> py_error + (string, int) dict" where
  "store_summary jsid s =
     (case get_jobset jsid s of
        Inl e \<Rightarrow> Inl e | Inr js \<Rightarrow> Inr (summary_from_counts js (counts_of s jsid)))"

definition store_search :: "string option \<Rightarrow> string option \<Rightarrow> datetime option \<Rightarrow> store \<Rightarrow> JobSetRecord list" where
  "store_search tag label since s =
     filter (\<lambda>js. (case tag of None \<Rightarrow> True | Some t \<Rightarrow> t \<in> set (jset_tags js))
        \<and> (case label of None \<Rightarrow> True | Some l \<Rightarrow> l = jset_label js)
        \<and> (case since of None \<Rightarrow> True
           | Some d \<Rightarrow> (case jset_created_at js of None \<Rightarrow> False | Some c \<Rightarrow> \<not> c < d)))
       (dvalues (s_jobsets s))"

definition find_jobs :: "int list \<Rightarrow> store \<Rightarrow> py_error + JobRecord list" where
  "find_jobs ids s =
     (if ids = [] then Inr []
      else find_jobs_where (\<lambda>j. get_jobs j None) (list_jobsets s)
             (\<lambda>r. case jr_job_id r of None \<Rightarrow> False | Some i \<Rightarrow> i \<in> set ids) s)"

definition find_jobs_by_keys :: "job_key list \<Rightarrow> store \<Rightarrow> py_error + JobRecord list" where
  "find_jobs_by_keys ks s =
     (if ks = [] then Inr []
      else find_jobs_where (\<lambda>j. get_jobs j None) (list_jobsets s) (\<lambda>r. jr_job_key r \<in> set ks) s)"

section \<open>The store's invariant\<close>

text \<open>
  The three tables have the same jobsets; every record sits under its own keys; and the
  counts are exactly the numbers of records per state, with no entry for a state that has
  none.
\<close>

definition state_count :: "(job_key, JobRecord) dict \<Rightarrow> string \<Rightarrow> nat" where
  "state_count jobs v = count_list (map (\<lambda>r. state_value (jr_state r)) (dvalues jobs)) v"

definition represents :: "(string, int) dict \<Rightarrow> (string \<Rightarrow> nat) \<Rightarrow> bool" where
  "represents c m \<longleftrightarrow> distinct (dkeys c) \<and> (\<forall>v. dget c v = (if m v = 0 then None else Some (int (m v))))"

definition jobs_wf :: "jobset_id \<Rightarrow> (job_key, JobRecord) dict \<Rightarrow> bool" where
  "jobs_wf jsid jobs \<longleftrightarrow> distinct (dkeys jobs)
     \<and> (\<forall>k r. dget jobs k = Some r \<longrightarrow> jr_job_key r = k \<and> jr_jobset_id r = jsid)"

definition store_inv :: "store \<Rightarrow> bool" where
  "store_inv s \<longleftrightarrow> distinct (dkeys (s_jobsets s))
     \<and> (\<forall>j. dhas (s_jobs s) j = dhas (s_jobsets s) j)
     \<and> (\<forall>j. dhas (s_counts s) j = dhas (s_jobsets s) j)
     \<and> (\<forall>j r. dget (s_jobsets s) j = Some r \<longrightarrow> jset_jobset_id r = j)
     \<and> (\<forall>j. jobs_wf j (jobs_of s j))
     \<and> (\<forall>j. represents (counts_of s j) (state_count (jobs_of s j)))"

definition counts_dec :: "JobState \<Rightarrow> (string, int) dict \<Rightarrow> (string, int) dict" where
  "counts_dec st c =
     (if c = [] then [] else
        (let key = state_value st; n = dget_or c key 0 - 1
         in if n > 0 then dset key n c else ddel key c))"

definition counts_inc :: "JobState \<Rightarrow> (string, int) dict \<Rightarrow> (string, int) dict" where
  "counts_inc st c = dset (state_value st) (dget_or c (state_value st) 0 + 1) c"

lemma represents_inc:
  "represents c m \<Longrightarrow> represents (counts_inc st c) (m(state_value st := Suc (m (state_value st))))"
  by (auto simp: represents_def counts_inc_def dget_or_def)

lemma represents_dec:
  assumes "represents c m" and "0 < m (state_value st)"
  shows "represents (counts_dec st c) (m(state_value st := m (state_value st) - 1))"
proof -
  have "dget c (state_value st) = Some (int (m (state_value st)))"
    using assms by (simp add: represents_def)
  moreover have "c \<noteq> []" using calculation by auto
  ultimately show ?thesis
    using assms by (auto simp: represents_def counts_dec_def dget_or_def Let_def)
qed

lemma count_del_simps:
  "s_jobsets (count_del j st s) = s_jobsets s"
  "s_jobs (count_del j st s) = s_jobs s"
  "dhas (s_counts (count_del j st s)) i = dhas (s_counts s) i"
  "counts_of (count_del j st s) i = (if i = j then counts_dec st (counts_of s j) else counts_of s i)"
  by (auto simp: count_del_def counts_of_def counts_dec_def dget_or_def dhas_def Let_def
      split: option.splits)

lemma jobs_of_cong: "s_jobs s = s_jobs t \<Longrightarrow> jobs_of s = jobs_of t"
  by (simp add: jobs_of_def fun_eq_iff)

lemma put_rec_simps [store_simps]:
  "s_jobsets (put_rec r s) = s_jobsets s"
  "dhas (s_jobs (put_rec r s)) j \<longleftrightarrow> j = jr_jobset_id r \<or> dhas (s_jobs s) j"
  "dhas (s_counts (put_rec r s)) j \<longleftrightarrow> j = jr_jobset_id r \<or> dhas (s_counts s) j"
  "jobs_of (put_rec r s) j = (if j = jr_jobset_id r then dset (jr_job_key r) r (jobs_of s j) else jobs_of s j)"
  by (auto simp: put_rec_def Let_def jobs_of_def dget_or_def count_del_simps split: option.splits)

lemma put_rec_counts:
  "counts_of (put_rec r s) j =
     (if j = jr_jobset_id r then
        counts_inc (jr_state r)
          (case dget (jobs_of s j) (jr_job_key r) of None \<Rightarrow> counts_of s j
           | Some old \<Rightarrow> counts_dec (jr_state old) (counts_of s j))
      else counts_of s j)"
proof -
  define j0 where "j0 = jr_jobset_id r"
  define s1 where "s1 = (case dget (jobs_of s j0) (jr_job_key r) of None \<Rightarrow> s
     | Some old \<Rightarrow> count_del j0 (jr_state old) s)"
  have c1: "counts_of s1 j = (if j = j0 then (case dget (jobs_of s j0) (jr_job_key r) of
      None \<Rightarrow> counts_of s j0 | Some old \<Rightarrow> counts_dec (jr_state old) (counts_of s j0)) else counts_of s j)" for j
    by (simp add: s1_def count_del_simps split: option.splits)
  have "counts_of (put_rec r s) j = (if j = j0 then counts_inc (jr_state r) (counts_of s1 j0) else counts_of s1 j)"
    unfolding put_rec_def Let_def j0_def [symmetric] s1_def [symmetric]
    by (simp add: counts_of_def counts_inc_def dget_or_def)
  then show ?thesis by (simp add: c1 j0_def cong: option.case_cong)
qed

lemma drop_rec_None: "drop_rec j k s = (None, s') \<Longrightarrow> s' = s \<and> dget (jobs_of s j) k = None"
  by (auto simp: drop_rec_def jobs_of_def dget_or_def split: option.splits)

lemma counts_of_jobs_update [simp]: "counts_of (s\<lparr>s_jobs := x\<rparr>) = counts_of s"
  by (simp add: counts_of_def fun_eq_iff)

lemma jobs_of_count_del [simp]: "jobs_of (count_del j st s) = jobs_of s"
  by (rule jobs_of_cong) (simp add: count_del_simps)

lemma drop_rec_Some:
  assumes "drop_rec j k s = (Some old, s')"
  shows "dget (jobs_of s j) k = Some old"
    and "s_jobsets s' = s_jobsets s"
    and "dhas (s_jobs s') i = dhas (s_jobs s) i"
    and "dhas (s_counts s') i = dhas (s_counts s) i"
    and "jobs_of s' i = (if i = j then ddel k (jobs_of s i) else jobs_of s i)"
    and "counts_of s' i = (if i = j then counts_dec (jr_state old) (counts_of s i) else counts_of s i)"
proof -
  from assms obtain jobs where jobs: "dget (s_jobs s) j = Some jobs" "dget jobs k = Some old"
    and s': "s' = count_del j (jr_state old) (s\<lparr>s_jobs := dset j (ddel k jobs) (s_jobs s)\<rparr>)"
    by (auto simp: drop_rec_def split: option.splits)
  show "dget (jobs_of s j) k = Some old" using jobs by (simp add: jobs_of_def dget_or_def)
  show "s_jobsets s' = s_jobsets s" "dhas (s_jobs s') i = dhas (s_jobs s) i"
    "dhas (s_counts s') i = dhas (s_counts s) i"
    using jobs by (auto simp: s' count_del_simps dhas_Some)
  show "jobs_of s' i = (if i = j then ddel k (jobs_of s i) else jobs_of s i)"
    using jobs by (simp add: s' jobs_of_def [of s] jobs_of_def [of "s\<lparr>s_jobs := x\<rparr>" for x] dget_or_def)
  show "counts_of s' i = (if i = j then counts_dec (jr_state old) (counts_of s i) else counts_of s i)"
    by (simp add: s' count_del_simps)
qed

lemma drop_rec_cases:
  "drop_rec j k s = (dget (jobs_of s j) k, snd (drop_rec j k s))"
  by (auto simp: drop_rec_def jobs_of_def dget_or_def split: option.splits)

lemma state_count_dset:
  "state_count (dset k r d) v + (case dget d k of None \<Rightarrow> 0 | Some w \<Rightarrow> of_bool (state_value (jr_state w) = v))
     = state_count d v + of_bool (state_value (jr_state r) = v)"
  using count_list_dset [of "\<lambda>r. state_value (jr_state r)" k r d v]
  by (simp add: state_count_def opt_count_def)

lemma state_count_ddel:
  assumes "distinct (dkeys d)"
  shows "state_count (ddel k d) v + (case dget d k of None \<Rightarrow> 0 | Some w \<Rightarrow> of_bool (state_value (jr_state w) = v))
     = state_count d v"
  using count_list_ddel [OF assms, of "\<lambda>r. state_value (jr_state r)" k v]
  by (simp add: state_count_def opt_count_def)

lemma state_count_pos: "dget d k = Some w \<Longrightarrow> 0 < state_count d (state_value (jr_state w))"
  by (induction d) (auto simp: state_count_def split: if_splits)

lemma store_inv_empty [simp]: "store_inv empty_store"
  by (simp add: store_inv_def empty_store_def dhas_def jobs_of_def counts_of_def dget_or_def
      jobs_wf_def represents_def state_count_def)

lemma store_inv_put_rec:
  assumes inv: "store_inv s" and has: "dhas (s_jobsets s) (jr_jobset_id r)"
  shows "store_inv (put_rec r s)"
proof -
  have rep: "represents (counts_of (put_rec r s) j) (state_count (jobs_of (put_rec r s) j))" for j
  proof (cases "j = jr_jobset_id r")
    case False
    with inv show ?thesis by (simp add: put_rec_counts store_simps store_inv_def)
  next
    case True
    let ?d = "jobs_of s j" and ?k = "jr_job_key r" and ?v = "state_value (jr_state r)"
    have base: "represents (counts_of s j) (state_count ?d)" using inv by (simp add: store_inv_def)
    define c1 where "c1 = (case dget ?d ?k of None \<Rightarrow> counts_of s j
           | Some old \<Rightarrow> counts_dec (jr_state old) (counts_of s j))"
    define m1 where "m1 = (case dget ?d ?k of None \<Rightarrow> state_count ?d
           | Some old \<Rightarrow> (state_count ?d)(state_value (jr_state old) := state_count ?d (state_value (jr_state old)) - 1))"
    have "represents c1 m1"
      using base represents_dec [OF base] state_count_pos [of ?d ?k]
      by (auto simp: c1_def m1_def split: option.splits)
    then have "represents (counts_inc (jr_state r) c1) (m1(?v := Suc (m1 ?v)))"
      by (rule represents_inc)
    moreover have "m1(?v := Suc (m1 ?v)) = state_count (dset ?k r ?d)"
    proof
      fix v
      show "(m1(?v := Suc (m1 ?v))) v = state_count (dset ?k r ?d) v"
        using state_count_dset [of ?k r ?d v] state_count_pos [of ?d ?k]
        by (auto simp: m1_def split: option.splits)
    qed
    ultimately show ?thesis
      using True by (simp add: put_rec_counts store_simps c1_def cong: option.case_cong)
  qed
  moreover have "jobs_wf j (jobs_of (put_rec r s) j)" for j
    using inv by (auto simp: store_simps store_inv_def jobs_wf_def)
  ultimately show ?thesis
    using inv has by (auto simp: store_inv_def store_simps)
qed

lemma store_inv_drop_rec:
  assumes inv: "store_inv s" and drop: "drop_rec j k s = (Some old, s')"
  shows "store_inv s'"
proof -
  note d = drop_rec_Some [OF drop]
  have wf: "distinct (dkeys (jobs_of s j))" using inv by (simp add: store_inv_def jobs_wf_def)
  have base: "represents (counts_of s j) (state_count (jobs_of s j))" using inv by (simp add: store_inv_def)
  have eq: "(state_count (jobs_of s j))(state_value (jr_state old) :=
        state_count (jobs_of s j) (state_value (jr_state old)) - 1) = state_count (ddel k (jobs_of s j))"
  proof
    fix v
    show "((state_count (jobs_of s j))(state_value (jr_state old) :=
        state_count (jobs_of s j) (state_value (jr_state old)) - 1)) v = state_count (ddel k (jobs_of s j)) v"
      using state_count_ddel [OF wf, of k v] d(1) by auto
  qed
  have "represents (counts_of s' i) (state_count (jobs_of s' i))" for i
    using represents_dec [OF base state_count_pos [OF d(1)]] inv
    by (simp add: d(5,6) eq [symmetric] store_inv_def del: fun_upd_apply)
  moreover have "jobs_wf i (jobs_of s' i)" for i
    using inv by (auto simp: d store_inv_def jobs_wf_def)
  ultimately show ?thesis using inv d by (auto simp: store_inv_def)
qed

text \<open>Every operation keeps the invariant.\<close>

lemma jobset_has_iff: "store_inv s \<Longrightarrow> dhas (s_jobs s) j \<longleftrightarrow> dhas (s_jobsets s) j"
  by (simp add: store_inv_def)

lemma jobs_of_missing: "store_inv s \<Longrightarrow> \<not> dhas (s_jobsets s) j \<Longrightarrow> jobs_of s j = []"
  using jobset_has_iff [of s j] by (simp add: jobs_of_def dhas_def dget_or_def)

lemma jobs_of_job:
  assumes "store_inv s" and "dget (jobs_of s j) k = Some r"
  shows "jr_jobset_id r = j" and "jr_job_key r = k" and "dhas (s_jobsets s) j"
  using assms jobs_of_missing [of s j] by (auto simp: store_inv_def jobs_wf_def)

lemma store_inv_distinct: "store_inv s \<Longrightarrow> distinct (dkeys (jobs_of s j))"
  by (simp add: store_inv_def jobs_wf_def)

lemma replaced_keys [simp]:
  "\<not> reject_key_fields fs \<Longrightarrow> jr_job_key (replaced r n now st fs) = jr_job_key r"
  "\<not> reject_key_fields fs \<Longrightarrow> jr_jobset_id (replaced r n now st fs) = jr_jobset_id r"
  by (simp_all add: replaced_def)

lemma replace_rec_inv:
  assumes "store_inv s" and "dhas (s_jobsets s) (jr_jobset_id r)" and "\<not> reject_key_fields fs"
    and "replace_rec r now st fs s = (new, s')"
  shows "store_inv s'"
  using assms by (auto simp: replace_rec_def Let_def intro: store_inv_put_rec)

lemma no_key_fields_Nil [simp]: "\<not> reject_key_fields []"
  by (simp add: reject_key_fields_def)

lemma transition_cases:
  assumes "transition now j k st g fs s = (res, s')"
  obtains (rejected) "reject_key_fields fs" "res = Inl ValueError" "s' = s"
    | (missing) "\<not> reject_key_fields fs" "dget (jobs_of s j) k = None" "res = Inl (JobNotFoundError j k)" "s' = s"
    | (refused) old where "\<not> reject_key_fields fs" "dget (jobs_of s j) k = Some old"
        "\<not> guard_ok g old" "res = Inr None" "s' = s"
    | (moved) old where "\<not> reject_key_fields fs" "dget (jobs_of s j) k = Some old" "guard_ok g old"
        "(case res of Inr (Some new) \<Rightarrow> replace_rec old now (case st of None \<Rightarrow> jr_state old | Some x \<Rightarrow> x) fs s = (new, s')
          | _ \<Rightarrow> False)"
  using assms
  by (auto simp: transition_def get_job_def Let_def split: if_splits option.splits prod.splits)

lemma transition_present:
  assumes "store_inv s" and "dget (jobs_of s j) k = Some old" and "\<not> reject_key_fields fs"
  shows "transition now j k st g fs s =
    (if guard_ok g old then (Inr (Some (transitioned old now st fs)), put_rec (transitioned old now st fs) s)
     else (Inr None, s))"
  using assms jobs_of_job [OF assms(1,2)]
  by (simp add: transition_def get_job_def replace_rec_def transitioned_def Let_def)

lemma transition_missing:
  "dget (jobs_of s j) k = None \<Longrightarrow> \<not> reject_key_fields fs \<Longrightarrow>
     transition now j k st g fs s = (Inl (JobNotFoundError j k), s)"
  by (simp add: transition_def get_job_def)

lemma jobs_of_put_transitioned:
  assumes "store_inv s" and "dget (jobs_of s j) k = Some old" and "\<not> reject_key_fields fs"
  shows "jobs_of (put_rec (transitioned old now st fs) s) i =
    (if i = j then dset k (transitioned old now st fs) (jobs_of s i) else jobs_of s i)"
  using jobs_of_job [OF assms(1,2)] assms(3) by (simp add: store_simps)

lemma transition_inv: "store_inv s \<Longrightarrow> store_inv (snd (transition now j k st g fs s))"
proof (cases "reject_key_fields fs")
  case True
  then show "store_inv s \<Longrightarrow> ?thesis" by (simp add: transition_def)
next
  case False
  assume inv: "store_inv s"
  show ?thesis
  proof (cases "dget (jobs_of s j) k")
    case None
    with inv False show ?thesis by (simp add: transition_missing)
  next
    case (Some old)
    then show ?thesis
      using inv False jobs_of_job [OF inv Some]
      by (simp add: transition_present store_inv_put_rec)
  qed
qed

lemma transition_many_loop_Cons:
  assumes "store_inv s" and "\<not> reject_key_fields fs"
  shows "transition_many_loop now j ((k, st, g, fs) # specs) s =
    (case dget (jobs_of s j) k of
       None \<Rightarrow> transition_many_loop now j specs s
     | Some old \<Rightarrow>
         (if guard_ok g old then
            (transitioned old now st fs #
               fst (transition_many_loop now j specs (put_rec (transitioned old now st fs) s)),
             snd (transition_many_loop now j specs (put_rec (transitioned old now st fs) s)))
          else transition_many_loop now j specs s))"
proof (cases "dget (jobs_of s j) k")
  case None
  then show ?thesis by simp
next
  case (Some old)
  then have "replace_rec old now (case st of None \<Rightarrow> jr_state old | Some x \<Rightarrow> x) fs s
      = (transitioned old now st fs, put_rec (transitioned old now st fs) s)"
    using jobs_of_job [OF assms(1) Some] by (simp add: replace_rec_def transitioned_def Let_def)
  with Some show ?thesis by (simp add: split_beta)
qed

declare transition_many_loop.simps(2) [simp del]

lemma store_inv_put_transitioned:
  assumes "store_inv s" and "dget (jobs_of s j) k = Some old" and "\<not> reject_key_fields fs"
  shows "store_inv (put_rec (transitioned old now st fs) s)"
  using jobs_of_job [OF assms(1,2)] assms by (simp add: store_inv_put_rec)

lemma transition_many_loop_inv:
  assumes "store_inv s" and "\<not> list_ex (\<lambda>(_, _, _, fs). reject_key_fields fs) specs"
  shows "store_inv (snd (transition_many_loop now j specs s))"
  using assms
proof (induction specs arbitrary: s)
  case Nil
  then show ?case by simp
next
  case (Cons sp specs)
  obtain k st g fs where sp: "sp = (k, st, g, fs)" by (cases sp)
  from Cons.prems sp show ?case
    by (auto simp: transition_many_loop_Cons store_inv_put_transitioned Cons.IH split: option.splits)
qed

lemma store_transition_many_inv: "store_inv s \<Longrightarrow> store_inv (snd (store_transition_many now j specs s))"
  using transition_many_loop_inv [of s specs now j]
  by (auto simp: store_transition_many_def transition_many_def split: prod.splits)

lemma store_add_job_inv: "store_inv s \<Longrightarrow> store_inv (snd (store_add_job now r s))"
  by (auto simp: store_add_job_def stamped_def intro!: store_inv_put_rec)

lemma stamped_keys [simp]:
  "jr_jobset_id (stamped now r) = jr_jobset_id r" "jr_job_key (stamped now r) = jr_job_key r"
  "jr_state (stamped now r) = jr_state r" "jr_revision (stamped now r) = jr_revision r"
  "jr_generation (stamped now r) = jr_generation r"
  by (simp_all add: stamped_def)

lemma add_jobs_check_jobsets:
  "add_jobs_check rs seen s = None \<Longrightarrow> r \<in> set rs \<Longrightarrow> dhas (s_jobsets s) (jr_jobset_id r)"
  by (induction rs arbitrary: seen) (auto split: if_splits)

lemma put_all_inv:
  assumes "store_inv s" and "\<forall>r\<in>set rs. dhas (s_jobsets s) (jr_jobset_id r)"
  shows "store_inv (fold (\<lambda>r. put_rec (stamped now r)) rs s)
    \<and> s_jobsets (fold (\<lambda>r. put_rec (stamped now r)) rs s) = s_jobsets s"
  using assms
proof (induction rs arbitrary: s)
  case Nil
  then show ?case by simp
next
  case (Cons r rs)
  then have "store_inv (put_rec (stamped now r) s)" by (simp add: store_inv_put_rec)
  with Cons.IH [of "put_rec (stamped now r) s"] Cons.prems show ?case by (simp add: store_simps)
qed

lemma store_add_jobs_inv: "store_inv s \<Longrightarrow> store_inv (snd (store_add_jobs now rs s))"
  using put_all_inv add_jobs_check_jobsets
  by (auto simp: store_add_jobs_def split: option.splits)

lemma store_delete_job_inv: "store_inv s \<Longrightarrow> store_inv (snd (store_delete_job j k s))"
  using store_inv_drop_rec by (auto simp: store_delete_job_def split: prod.splits option.splits)

lemma delete_jobs_loop_inv: "store_inv s \<Longrightarrow> store_inv (snd (delete_jobs_loop j ks s))"
proof (induction ks arbitrary: s)
  case Nil
  then show ?case by simp
next
  case (Cons k ks)
  then show ?case
    using store_inv_drop_rec by (auto split: prod.splits option.splits) (metis snd_conv)
qed

lemma store_delete_jobs_inv: "store_inv s \<Longrightarrow> store_inv (snd (store_delete_jobs j ks s))"
  by (simp add: store_delete_jobs_def delete_jobs_loop_inv)

lemma jobs_of_has: "store_inv s \<Longrightarrow> dhas (jobs_of s j) k \<Longrightarrow> dhas (s_jobsets s) j"
  using jobs_of_missing [of s j] by (cases "dhas (s_jobsets s) j") (auto simp: dhas_def)

lemma update_job_present:
  assumes "dget (jobs_of s (jr_jobset_id r)) (jr_job_key r) = Some cur"
  shows "update_job now r s = (Inr (replaced r (jr_revision cur) now (jr_state r) []),
     put_rec (replaced r (jr_revision cur) now (jr_state r) []) s)"
  using assms by (simp add: update_job_def dhas_def replace_rec_def Let_def)

lemma update_job_inv: "store_inv s \<Longrightarrow> store_inv (snd (update_job now r s))"
proof (cases "dget (jobs_of s (jr_jobset_id r)) (jr_job_key r)")
  case None
  then show "store_inv s \<Longrightarrow> ?thesis" by (simp add: update_job_def dhas_def)
next
  case (Some cur)
  assume inv: "store_inv s"
  show ?thesis
    using jobs_of_has [OF inv dhas_Some [OF Some]] inv
    by (simp add: update_job_present [OF Some] store_inv_put_rec)
qed

lemma store_delete_jobset_simps [store_simps]:
  "s_jobsets (store_delete_jobset j s) = ddel j (s_jobsets s)"
  "dhas (s_jobs (store_delete_jobset j s)) i \<longleftrightarrow> i \<noteq> j \<and> dhas (s_jobs s) i"
  "dhas (s_counts (store_delete_jobset j s)) i \<longleftrightarrow> i \<noteq> j \<and> dhas (s_counts s) i"
  "jobs_of (store_delete_jobset j s) i = (if i = j then [] else jobs_of s i)"
  "counts_of (store_delete_jobset j s) i = (if i = j then [] else counts_of s i)"
  by (auto simp: store_delete_jobset_def jobs_of_def counts_of_def dget_or_def)

lemma empty_counts [simp]: "represents [] (state_count [])" "jobs_wf j []"
  by (simp_all add: represents_def state_count_def jobs_wf_def)

lemma store_delete_jobset_inv: "store_inv s \<Longrightarrow> store_inv (store_delete_jobset j s)"
  by (simp add: store_inv_def store_simps)

lemma update_jobset_simps [store_simps]:
  "jobs_of (snd (update_jobset r s)) = jobs_of s"
  "counts_of (snd (update_jobset r s)) = counts_of s"
  "s_jobs (snd (update_jobset r s)) = s_jobs s"
  "s_counts (snd (update_jobset r s)) = s_counts s"
  "dhas (s_jobsets (snd (update_jobset r s))) j = dhas (s_jobsets s) j"
  by (auto simp: update_jobset_def jobs_of_def counts_of_def fun_eq_iff)

lemma update_jobset_inv: "store_inv s \<Longrightarrow> store_inv (snd (update_jobset r s))"
  by (auto simp: store_inv_def store_simps) (auto simp: update_jobset_def split: if_splits)

lemma store_insert_jobset_inv: "store_inv s \<Longrightarrow> store_inv (snd (store_insert_jobset now r s))"
proof -
  assume inv: "store_inv s"
  show ?thesis
  proof (cases "dhas (s_jobsets s) (jset_jobset_id r)")
    case True
    with inv show ?thesis by (simp add: store_insert_jobset_def)
  next
    case False
    then have none: "dget (s_jobs s) (jset_jobset_id r) = None" "dget (s_counts s) (jset_jobset_id r) = None"
      using inv unfolding store_inv_def by (metis dhas_def)+
    have same: "jobs_of (snd (store_insert_jobset now r s)) = jobs_of s"
      "counts_of (snd (store_insert_jobset now r s)) = counts_of s"
      using none False by (auto simp: store_insert_jobset_def jobs_of_def counts_of_def dget_or_def Let_def fun_eq_iff)
    have has: "dhas (s_jobs (snd (store_insert_jobset now r s))) j = (j = jset_jobset_id r \<or> dhas (s_jobs s) j)"
      "dhas (s_counts (snd (store_insert_jobset now r s))) j = (j = jset_jobset_id r \<or> dhas (s_counts s) j)" for j
      using False by (auto simp: store_insert_jobset_def dhas_def Let_def)
    show ?thesis
      using inv False unfolding store_inv_def same has
      by (auto simp: store_insert_jobset_def Let_def)
  qed
qed

section \<open>The contract and its clients\<close>

text \<open>
  What \<open>JobSetStore\<close> promises of the single-record operations. The default batch
  operations are clients of it: what they return and leave behind is proved here once, for
  every backend.
\<close>

lemma bex_Cons_other: "(\<exists>y\<in>set (x # xs). P y) \<longleftrightarrow> P x \<or> (\<exists>y\<in>set xs. y \<noteq> x \<and> P y)"
  by auto

locale job_table =
  fixes inv :: "'s \<Rightarrow> bool"
    and get :: "jobset_id \<Rightarrow> job_key \<Rightarrow> 's \<Rightarrow> py_error + JobRecord"
    and del :: "jobset_id \<Rightarrow> job_key \<Rightarrow> 's \<Rightarrow> (JobRecord, 's) outcome"
    and tr :: "datetime \<Rightarrow> jobset_id \<Rightarrow> job_key \<Rightarrow> JobState option \<Rightarrow> guard \<Rightarrow> field_update list
      \<Rightarrow> 's \<Rightarrow> (JobRecord option, 's) outcome"
  assumes get_missing: "inv s \<Longrightarrow> get j k s = Inl e \<Longrightarrow> e = JobNotFoundError j k"
    and get_present: "inv s \<Longrightarrow> get j k s = Inr r \<Longrightarrow> jr_jobset_id r = j \<and> jr_job_key r = k"
    and del_missing: "inv s \<Longrightarrow> get j k s = Inl e \<Longrightarrow> del j k s = (Inl e, s)"
    and del_present: "inv s \<Longrightarrow> get j k s = Inr r \<Longrightarrow>
      \<exists>s'. del j k s = (Inr r, s') \<and> inv s' \<and>
        (\<forall>j' k'. get j' k' s' = (if j' = j \<and> k' = k then Inl (JobNotFoundError j k) else get j' k' s))"
    and tr_missing: "inv s \<Longrightarrow> \<not> reject_key_fields fs \<Longrightarrow> get j k s = Inl e \<Longrightarrow>
      tr now j k st g fs s = (Inl e, s)"
    and tr_refused: "inv s \<Longrightarrow> \<not> reject_key_fields fs \<Longrightarrow> get j k s = Inr old \<Longrightarrow> \<not> guard_ok g old \<Longrightarrow>
      tr now j k st g fs s = (Inr None, s)"
    and tr_done: "inv s \<Longrightarrow> \<not> reject_key_fields fs \<Longrightarrow> get j k s = Inr old \<Longrightarrow> guard_ok g old \<Longrightarrow>
      \<exists>s'. tr now j k st g fs s = (Inr (Some (transitioned old now st fs)), s') \<and> inv s' \<and>
        (\<forall>j' k'. get j' k' s' = (if j' = j \<and> k' = k then Inr (transitioned old now st fs) else get j' k' s))"
begin

lemma delete_jobs_total:
  assumes "inv s"
  shows "\<exists>out s'. base_delete_jobs del j ks s = (Inr out, s') \<and> inv s' \<and>
     (\<forall>j' k'. get j' k' s' = (if j' = j \<and> k' \<in> set ks then Inl (JobNotFoundError j k') else get j' k' s)) \<and>
     set out = {r. \<exists>k\<in>set ks. get j k s = Inr r} \<and> distinct (map jr_job_key out)"
  using assms
proof (induction ks arbitrary: s)
  case Nil
  then show ?case by simp
next
  case (Cons k ks)
  show ?case
  proof (cases "get j k s")
    case (Inl e)
    note e = get_missing [OF Cons.prems Inl]
    obtain out s' where IH: "base_delete_jobs del j ks s = (Inr out, s')" "inv s'"
      "\<forall>j' k'. get j' k' s' = (if j' = j \<and> k' \<in> set ks then Inl (JobNotFoundError j k') else get j' k' s)"
      "set out = {r. \<exists>k\<in>set ks. get j k s = Inr r}" "distinct (map jr_job_key out)"
      using Cons.IH [OF Cons.prems] by blast
    have "base_delete_jobs del j (k # ks) s = (Inr out, s')"
      using IH(1) del_missing [OF Cons.prems Inl] by (simp add: e)
    moreover have "{r. \<exists>k'\<in>set (k # ks). get j k' s = Inr r} = set out" using IH(4) Inl by auto
    ultimately show ?thesis using IH Inl e by auto
  next
    case (Inr r)
    obtain s1 where s1: "del j k s = (Inr r, s1)" "inv s1"
      "\<forall>j' k'. get j' k' s1 = (if j' = j \<and> k' = k then Inl (JobNotFoundError j k) else get j' k' s)"
      using del_present [OF Cons.prems Inr] by blast
    obtain out s' where IH: "base_delete_jobs del j ks s1 = (Inr out, s')" "inv s'"
      "\<forall>j' k'. get j' k' s' = (if j' = j \<and> k' \<in> set ks then Inl (JobNotFoundError j k') else get j' k' s1)"
      "set out = {r. \<exists>k\<in>set ks. get j k s1 = Inr r}" "distinct (map jr_job_key out)"
      using Cons.IH [OF s1(2)] by blast
    have after: "get j k' s1 = Inr x \<longleftrightarrow> k' \<noteq> k \<and> get j k' s = Inr x" for k' x
      using s1(3) by simp
    have key: "jr_job_key x = k'" if "get j k' s = Inr x" for x k'
      using get_present [OF Cons.prems that] by simp
    have out: "x \<in> set out \<longleftrightarrow> (\<exists>k'\<in>set ks. k' \<noteq> k \<and> get j k' s = Inr x)" for x
      unfolding IH(4) after by blast
    have fresh: "jr_job_key r \<notin> jr_job_key ` set out"
    proof
      assume "jr_job_key r \<in> jr_job_key ` set out"
      then obtain x where "x \<in> set out" and eq: "jr_job_key x = jr_job_key r" by auto
      then obtain k' where "k' \<noteq> k" and "get j k' s = Inr x" using out by blast
      then show False using key [of k' x] key [OF Inr] eq by simp
    qed
    have "base_delete_jobs del j (k # ks) s = (Inr (r # out), s')" using IH(1) s1(1) by simp
    moreover have "set (r # out) = {r. \<exists>k'\<in>set (k # ks). get j k' s = Inr r}"
    proof (rule set_eqI)
      fix x
      have "x = r \<longleftrightarrow> get j k s = Inr x" using Inr by auto
      then show "x \<in> set (r # out) \<longleftrightarrow> x \<in> {r. \<exists>k'\<in>set (k # ks). get j k' s = Inr r}"
        unfolding mem_Collect_eq bex_Cons_other by (simp add: out)
    qed
    ultimately show ?thesis
      using IH(2,3,5) s1(3) fresh by (intro exI [of _ "r # out"] exI [of _ s']) simp
  qed
qed

lemma get_jobs_by_keys_total:
  assumes "inv s"
  shows "\<exists>out. base_get_jobs_by_keys get j ks s acc = Inr out \<and>
     (\<forall>k. dget out k = (if k \<in> set ks \<and> (\<exists>r. get j k s = Inr r) then Some (projr (get j k s)) else dget acc k))"
proof (induction ks arbitrary: acc)
  case Nil
  then show ?case by simp
next
  case (Cons k ks)
  show ?case
  proof (cases "get j k s")
    case (Inl e)
    with get_missing [OF assms Inl] Cons.IH [of acc] show ?thesis by auto
  next
    case (Inr r)
    with Cons.IH [of "dset k r acc"] show ?thesis by auto
  qed
qed

lemma transition_many_total:
  assumes "inv s" and "\<not> list_ex (\<lambda>(_, _, _, fs). reject_key_fields fs) specs"
  shows "\<exists>out s'. base_transition_many_impl (tr now) j specs s = (Inr out, s') \<and> inv s' \<and>
     (\<forall>j' k'. (j' \<noteq> j \<or> k' \<notin> fst ` set specs) \<longrightarrow> get j' k' s' = get j' k' s) \<and>
     (\<forall>k r. get j k s = Inr r \<longrightarrow> (\<exists>r'. get j k s' = Inr r' \<and> jr_revision r \<le> jr_revision r'))"
  using assms
proof (induction specs arbitrary: s)
  case Nil
  then show ?case by simp
next
  case (Cons sp specs)
  obtain k st g fs where sp: "sp = (k, st, g, fs)" by (cases sp)
  have ok: "\<not> reject_key_fields fs" "\<not> list_ex (\<lambda>(_, _, _, fs). reject_key_fields fs) specs"
    using Cons.prems(2) sp by auto
  show ?case
  proof (cases "get j k s")
    case (Inl e)
    with Cons.IH [OF Cons.prems(1) ok(2)] tr_missing [OF Cons.prems(1) ok(1) Inl]
      get_missing [OF Cons.prems(1) Inl] show ?thesis
      by (fastforce simp: sp)
  next
    case (Inr old)
    show ?thesis
    proof (cases "guard_ok g old")
      case False
      obtain out s' where IH: "base_transition_many_impl (tr now) j specs s = (Inr out, s')" "inv s'"
        "\<forall>j' k'. (j' \<noteq> j \<or> k' \<notin> fst ` set specs) \<longrightarrow> get j' k' s' = get j' k' s"
        "\<forall>k r. get j k s = Inr r \<longrightarrow> (\<exists>r'. get j k s' = Inr r' \<and> jr_revision r \<le> jr_revision r')"
        using Cons.IH [OF Cons.prems(1) ok(2)] by blast
      have "base_transition_many_impl (tr now) j (sp # specs) s = (Inr out, s')"
        using IH(1) tr_refused [OF Cons.prems(1) ok(1) Inr False] by (simp add: sp)
      with IH show ?thesis by auto
    next
      case True
      let ?new = "transitioned old now st fs"
      obtain s1 where s1: "tr now j k st g fs s = (Inr (Some ?new), s1)" "inv s1"
        "\<forall>j' k'. get j' k' s1 = (if j' = j \<and> k' = k then Inr ?new else get j' k' s)"
        using tr_done [OF Cons.prems(1) ok(1) Inr True] by blast
      obtain out s' where IH: "base_transition_many_impl (tr now) j specs s1 = (Inr out, s')" "inv s'"
        "\<forall>j' k'. (j' \<noteq> j \<or> k' \<notin> fst ` set specs) \<longrightarrow> get j' k' s' = get j' k' s1"
        "\<forall>k r. get j k s1 = Inr r \<longrightarrow> (\<exists>r'. get j k s' = Inr r' \<and> jr_revision r \<le> jr_revision r')"
        using Cons.IH [OF s1(2) ok(2)] by blast
      have "base_transition_many_impl (tr now) j (sp # specs) s = (Inr (?new # out), s')"
        using IH(1) s1(1) by (simp add: sp)
      moreover have "\<exists>r'. get j k' s' = Inr r' \<and> jr_revision r \<le> jr_revision r'" if "get j k' s = Inr r" for k' r
      proof (cases "k' = k")
        case True
        then have "r = old" using that Inr by simp
        moreover have "get j k s1 = Inr ?new" using s1(3) by simp
        then obtain r' where "get j k s' = Inr r'" "jr_revision ?new \<le> jr_revision r'" using IH(4) by blast
        ultimately show ?thesis using True by auto
      next
        case False
        then have "get j k' s1 = Inr r" using s1(3) that by simp
        then show ?thesis using IH(4) by blast
      qed
      ultimately show ?thesis using IH(2,3) s1(3) by (auto simp: sp)
    qed
  qed
qed

text \<open>
  The compare-and-set rule the pollers and killers rely on: a transition guarded by the
  execution it was decided for cannot touch a later execution of the same key.
\<close>

lemma stale_transition_is_noop:
  assumes "inv s" and "get j k s = Inr cur" and "\<not> reject_key_fields fs"
    and "\<And>r. p r \<Longrightarrow> same_execution r seen" and "jr_generation cur \<noteq> jr_generation seen"
  shows "tr now j k st (Some p) fs s = (Inr None, s)"
proof -
  have "\<not> guard_ok (Some p) cur"
    using assms(4) [of cur] assms(5) by (auto simp: guard_ok_def same_execution_def)
  then show ?thesis by (rule tr_refused [OF assms(1,3,2)])
qed

end

lemma get_job_iff: "get_job j k s = Inr r \<longleftrightarrow> dget (jobs_of s j) k = Some r"
  by (simp add: get_job_def split: option.splits)

lemma get_job_Inl: "get_job j k s = Inl e \<longleftrightarrow> dget (jobs_of s j) k = None \<and> e = JobNotFoundError j k"
  by (auto simp: get_job_def split: option.splits)

lemma store_delete_job_present:
  assumes "store_inv s" and "dget (jobs_of s j) k = Some r"
  obtains s' where "store_delete_job j k s = (Inr r, s')" and "store_inv s'"
    and "\<And>i. jobs_of s' i = (if i = j then ddel k (jobs_of s i) else jobs_of s i)"
proof -
  obtain s' where d: "drop_rec j k s = (Some r, s')"
    using drop_rec_cases [of j k s] assms(2) by (metis)
  then have "store_delete_job j k s = (Inr r, s')" by (simp add: store_delete_job_def)
  with that [OF this] store_inv_drop_rec [OF assms(1) d] drop_rec_Some(5) [OF d] show ?thesis by blast
qed

interpretation mem: job_table store_inv get_job store_delete_job transition
proof unfold_locales
  fix s :: store and j k r
  assume inv: "store_inv s" and r: "get_job j k s = Inr r"
  then have d: "dget (jobs_of s j) k = Some r" by (simp add: get_job_iff)
  show "\<exists>s'. store_delete_job j k s = (Inr r, s') \<and> store_inv s' \<and>
      (\<forall>j' k'. get_job j' k' s' = (if j' = j \<and> k' = k then Inl (JobNotFoundError j k) else get_job j' k' s))"
    by (rule store_delete_job_present [OF inv d]) (auto simp: get_job_def)
next
  fix s :: store and fs j k e now st g
  assume "\<not> reject_key_fields fs" "get_job j k s = Inl e"
  then show "transition now j k st g fs s = (Inl e, s)" by (auto simp: get_job_Inl transition_missing)
next
  fix s :: store and fs j k old g now st
  assume inv: "store_inv s" and fs: "\<not> reject_key_fields fs" and old: "get_job j k s = Inr old"
    and g: "guard_ok g old"
  let ?new = "transitioned old now st fs"
  from old have d: "dget (jobs_of s j) k = Some old" by (simp add: get_job_iff)
  have "transition now j k st g fs s = (Inr (Some ?new), put_rec ?new s)"
    using transition_present [OF inv d fs] g by simp
  moreover have "get_job j' k' (put_rec ?new s) = (if j' = j \<and> k' = k then Inr ?new else get_job j' k' s)" for j' k'
    by (auto simp: get_job_def jobs_of_put_transitioned [OF inv d fs])
  ultimately show "\<exists>s'. transition now j k st g fs s = (Inr (Some ?new), s') \<and> store_inv s' \<and>
      (\<forall>j' k'. get_job j' k' s' = (if j' = j \<and> k' = k then Inr ?new else get_job j' k' s))"
    using store_inv_put_transitioned [OF inv d fs] by blast
qed (auto simp: get_job_iff get_job_Inl jobs_of_job transition_present store_delete_job_def
      drop_rec_def jobs_of_def dget_or_def split: option.splits)

section \<open>What a client of the store relies on\<close>

text \<open>The stores a sequence of calls can produce, in any order and with any arguments.\<close>

inductive store_reach :: "store \<Rightarrow> bool" where
  initial: "store_reach empty_store"
| insert_jobset: "store_reach s \<Longrightarrow> store_reach (snd (store_insert_jobset now js s))"
| update_jobset: "store_reach s \<Longrightarrow> store_reach (snd (update_jobset js s))"
| delete_jobset: "store_reach s \<Longrightarrow> store_reach (store_delete_jobset j s)"
| add_job: "store_reach s \<Longrightarrow> store_reach (snd (store_add_job now r s))"
| add_jobs: "store_reach s \<Longrightarrow> store_reach (snd (store_add_jobs now rs s))"
| delete_job: "store_reach s \<Longrightarrow> store_reach (snd (store_delete_job j k s))"
| delete_jobs: "store_reach s \<Longrightarrow> store_reach (snd (store_delete_jobs j ks s))"
| update_job: "store_reach s \<Longrightarrow> store_reach (snd (update_job now r s))"
| transition: "store_reach s \<Longrightarrow> store_reach (snd (transition now j k st g fs s))"
| transition_many: "store_reach s \<Longrightarrow> store_reach (snd (store_transition_many now j specs s))"

lemmas store_op_invs = store_insert_jobset_inv update_jobset_inv store_delete_jobset_inv
  store_add_job_inv store_add_jobs_inv store_delete_job_inv store_delete_jobs_inv update_job_inv
  transition_inv store_transition_many_inv

lemma store_reach_inv: "store_reach s \<Longrightarrow> store_inv s"
  by (induction rule: store_reach.induct) (simp_all add: store_op_invs)

lemma count_states_get:
  "dget (fold (\<lambda>r c. dset (state_value (jr_state r)) (dget_or c (state_value (jr_state r)) 0 + 1) c) jobs c) v =
     (let n = count_list (map (\<lambda>r. state_value (jr_state r)) jobs) v
      in if n = 0 then dget c v else Some (dget_or c v 0 + int n))"
  by (induction jobs arbitrary: c) (auto simp: Let_def dget_or_def)

lemma count_states_represents:
  "dget (count_states (dvalues jobs)) v = (let n = state_count jobs v in if n = 0 then None else Some (int n))"
  unfolding count_states_def count_states_get by (simp add: state_count_def dget_or_def Let_def)

lemma debug_counts_ok_inv: "store_inv s \<Longrightarrow> debug_counts_ok j s"
  unfolding debug_counts_ok_def dict_eq_iff
  by (rule ext) (simp add: count_states_represents store_inv_def represents_def Let_def)

lemma fold_dset_get:
  "distinct (dkeys d) \<Longrightarrow>
     dget (fold (\<lambda>(k, v) out. dset k v out) d acc) k = (case dget d k of None \<Rightarrow> dget acc k | Some v \<Rightarrow> Some v)"
proof (induction d arbitrary: acc)
  case Nil
  then show ?case by simp
next
  case (Cons p d)
  obtain a b where p: "p = (a, b)" by (cases p)
  have "dget d a = None" using Cons.prems p by (simp add: map_of_eq_None_iff)
  with Cons p show ?case by (auto split: option.splits)
qed

lemma sum_state_count: "(\<Sum>st\<in>UNIV. state_count jobs (state_value st)) = length jobs"
proof (induction jobs)
  case Nil
  then show ?case by (simp add: state_count_def)
next
  case (Cons p jobs)
  let ?st = "jr_state (snd p)"
  have "state_count (p # jobs) (state_value st) = of_bool (st = ?st) + state_count jobs (state_value st)" for st
    by (auto simp: state_count_def state_value_inject)
  with Cons show ?case by (simp add: sum.distrib of_bool_def sum.delta' flip: UNIV_enum)
qed

lemma state_count_other: "v \<notin> range state_value \<Longrightarrow> state_count jobs v = 0"
  by (auto simp: state_count_def count_list_0_iff)

lemma represents_sum:
  assumes "represents c (state_count jobs)"
  shows "sum_list (dvalues c) = int (length jobs)"
proof -
  let ?xs = "map (\<lambda>r. state_value (jr_state r)) (dvalues jobs)"
  have keys: "set (dkeys c) = set ?xs"
  proof (rule set_eqI)
    fix v
    show "v \<in> set (dkeys c) \<longleftrightarrow> v \<in> set ?xs"
      using assms unfolding dhas_iff_key [symmetric] dhas_def represents_def
      by (simp add: state_count_def count_list_0_iff)
  qed
  have "sum_list (dvalues c) = (\<Sum>k\<in>set (dkeys c). the (dget c k))"
    using assms by (intro sum_list_dvalues) (simp add: represents_def)
  also have "\<dots> = (\<Sum>k\<in>set ?xs. int (count_list ?xs k))"
    unfolding keys using assms
    by (intro sum.cong) (auto simp: represents_def state_count_def count_list_0_iff)
  also have "\<dots> = int (\<Sum>k\<in>set ?xs. count_list ?xs k)" by simp
  also have "\<dots> = int (length ?xs)" by (subst sum_count_set) auto
  finally show ?thesis by simp
qed

lemma transition_many_loop_base:
  assumes "store_inv s" and "\<not> list_ex (\<lambda>(_, _, _, fs). reject_key_fields fs) specs"
  shows "base_transition_many_impl (transition now) j specs s =
    (Inr (fst (transition_many_loop now j specs s)), snd (transition_many_loop now j specs s))"
  using assms
proof (induction specs arbitrary: s)
  case Nil
  then show ?case by simp
next
  case (Cons sp specs)
  obtain k st g fs where sp: "sp = (k, st, g, fs)" by (cases sp)
  have ok: "\<not> reject_key_fields fs" "\<not> list_ex (\<lambda>(_, _, _, fs). reject_key_fields fs) specs"
    using Cons.prems(2) sp by auto
  show ?case
  proof (cases "dget (jobs_of s j) k")
    case None
    with Cons.IH [OF Cons.prems(1) ok(2)] show ?thesis
      by (simp add: sp transition_missing ok transition_many_loop_Cons Cons.prems(1))
  next
    case (Some old)
    with Cons.IH [OF Cons.prems(1) ok(2)]
      Cons.IH [OF store_inv_put_transitioned [OF Cons.prems(1) Some ok(1)] ok(2)]
    show ?thesis
      by (simp add: sp transition_present [OF Cons.prems(1) Some ok(1)] ok
          transition_many_loop_Cons Cons.prems(1))
  qed
qed

text \<open>With distinct keys the specs do not interfere: each is judged on the record it started from.\<close>

definition spec_result :: "datetime \<Rightarrow> (job_key, JobRecord) dict \<Rightarrow> TransitionSpec \<Rightarrow> JobRecord option" where
  "spec_result now jobs sp = (case sp of (k, st, g, fs) \<Rightarrow>
     (case dget jobs k of
        None \<Rightarrow> None
      | Some old \<Rightarrow> if guard_ok g old then Some (transitioned old now st fs) else None))"

lemma spec_result_other: "k \<noteq> k' \<Longrightarrow> spec_result now (dset k' v d) (k, sp) = spec_result now d (k, sp)"
  by (cases sp) (simp add: spec_result_def)

lemma transition_many_loop_distinct:
  assumes "store_inv s" and "\<not> list_ex (\<lambda>(_, _, _, fs). reject_key_fields fs) specs"
    and "distinct (map fst specs)"
  shows "fst (transition_many_loop now j specs s) = List.map_filter (spec_result now (jobs_of s j)) specs \<and>
    (\<forall>i k. dget (jobs_of (snd (transition_many_loop now j specs s)) i) k =
       (case find (\<lambda>sp. i = j \<and> fst sp = k) specs of
          None \<Rightarrow> dget (jobs_of s i) k
        | Some sp \<Rightarrow> (case spec_result now (jobs_of s j) sp of None \<Rightarrow> dget (jobs_of s i) k | Some r \<Rightarrow> Some r)))"
  using assms
proof (induction specs arbitrary: s)
  case Nil
  then show ?case by (simp add: List.map_filter_def)
next
  case (Cons sp specs)
  obtain k0 st g fs where sp: "sp = (k0, st, g, fs)" by (cases sp)
  have ok: "\<not> reject_key_fields fs" "\<not> list_ex (\<lambda>(_, _, _, fs). reject_key_fields fs) specs"
    and dist: "distinct (map fst specs)" "k0 \<notin> fst ` set specs"
    using Cons.prems(2,3) sp by auto
  show ?case
  proof (cases "spec_result now (jobs_of s j) sp")
    case None
    then have "transition_many_loop now j (sp # specs) s = transition_many_loop now j specs s"
      unfolding sp transition_many_loop_Cons [OF Cons.prems(1) ok(1)]
      by (auto simp: spec_result_def split: option.splits if_splits)
    moreover have "find (\<lambda>sp. fst sp = k0) specs = None"
      unfolding find_None_iff using dist(2) by force
    ultimately show ?thesis
      using Cons.IH [OF Cons.prems(1) ok(2) dist(1)] None
      by (auto simp: List.map_filter_def sp)
  next
    case (Some new)
    then obtain old where old: "dget (jobs_of s j) k0 = Some old" "guard_ok g old" "new = transitioned old now st fs"
      by (auto simp: spec_result_def sp split: option.splits if_splits)
    let ?s = "put_rec new s"
    have jobs: "jobs_of ?s i = (if i = j then dset k0 new (jobs_of s i) else jobs_of s i)" for i
      using jobs_of_put_transitioned [OF Cons.prems(1) old(1) ok(1)] old(3) by simp
    have run: "transition_many_loop now j (sp # specs) s =
        (new # fst (transition_many_loop now j specs ?s), snd (transition_many_loop now j specs ?s))"
      unfolding sp transition_many_loop_Cons [OF Cons.prems(1) ok(1)] using old by simp
    have same: "spec_result now (jobs_of ?s j) q = spec_result now (jobs_of s j) q" if "q \<in> set specs" for q
    proof -
      have "fst q \<noteq> k0" using that dist(2) by force
      then show ?thesis by (cases q) (simp add: jobs spec_result_def)
    qed
    have mf: "List.map_filter (spec_result now (jobs_of ?s j)) specs = List.map_filter (spec_result now (jobs_of s j)) specs"
      using same by (simp add: List.map_filter_def cong: map_cong filter_cong)
    have found: "q \<in> set specs \<and> fst q = k" if "find (\<lambda>sp. i = j \<and> fst sp = k) specs = Some q" for q i k
      using that by (metis (mono_tags, lifting) find_Some_iff nth_mem)
    have none: "find (\<lambda>sp. i = j \<and> fst sp = k0) specs = None" for i
      unfolding find_None_iff using dist(2) by force
    have "store_inv ?s"
      unfolding old(3) by (rule store_inv_put_transitioned [OF Cons.prems(1) old(1) ok(1)])
    note IH = Cons.IH [OF this ok(2) dist(1)]
    have get: "dget (jobs_of (snd (transition_many_loop now j specs ?s)) i) k =
       (case find (\<lambda>sp. i = j \<and> fst sp = k) (sp # specs) of
          None \<Rightarrow> dget (jobs_of s i) k
        | Some q \<Rightarrow> (case spec_result now (jobs_of s j) q of None \<Rightarrow> dget (jobs_of s i) k | Some r \<Rightarrow> Some r))" for i k
    proof (cases "i = j \<and> k0 = k")
      case True
      then show ?thesis using IH none [of j] Some by (simp add: sp jobs)
    next
      case False
      have other: "dget (jobs_of ?s i) k = dget (jobs_of s i) k" using False by (auto simp: jobs)
      have tail: "find (\<lambda>q. i = j \<and> fst q = k) (sp # specs) = find (\<lambda>q. i = j \<and> fst q = k) specs"
        using False by (auto simp: sp)
      show ?thesis
      proof (cases "find (\<lambda>q. i = j \<and> fst q = k) specs")
        case None
        with IH other tail show ?thesis by simp
      next
        case (Some q)
        with IH other tail same [of q] found [OF Some] show ?thesis by (simp split: option.split)
      qed
    qed
    show ?thesis
      unfolding run using IH mf get Some by (simp add: List.map_filter_def)
  qed
qed

lemma delete_jobs_loop_base:
  "base_delete_jobs store_delete_job j ks s =
    (Inr (fst (delete_jobs_loop j ks s)), snd (delete_jobs_loop j ks s))"
  by (induction ks arbitrary: s) (auto simp: store_delete_job_def split: prod.splits option.splits)

lemma delete_jobs_loop_missing:
  "\<not> dhas (s_jobs s) j \<Longrightarrow> delete_jobs_loop j ks s = ([], s)"
  by (induction ks) (auto simp: drop_rec_def dhas_def split: option.splits)

lemma get_jobs_by_keys_base:
  "base_get_jobs_by_keys get_job j ks s acc = Inr (fold (\<lambda>k out.
     case dget (jobs_of s j) k of None \<Rightarrow> out | Some r \<Rightarrow> dset k r out) ks acc)"
  by (induction ks arbitrary: acc) (auto simp: get_job_def split: option.splits)

lemma add_jobs_check_base:
  assumes "s_jobsets t = s_jobsets s"
    and "\<And>j k. dhas (jobs_of t j) k \<longleftrightarrow> (j, k) \<in> set seen \<or> dhas (jobs_of s j) k"
  shows "case add_jobs_check rs seen s of
      Some e \<Rightarrow> fst (base_add_jobs (store_add_job now) rs t) = Inl e
    | None \<Rightarrow> base_add_jobs (store_add_job now) rs t =
        (Inr (map (stamped now) rs), fold (\<lambda>r. put_rec (stamped now r)) rs t)"
  using assms
proof (induction rs arbitrary: t seen)
  case Nil
  then show ?case by simp
next
  case (Cons r rs)
  let ?t = "put_rec (stamped now r) t" and ?seen = "(jr_jobset_id r, jr_job_key r) # seen"
  have "s_jobsets ?t = s_jobsets s" using Cons.prems(1) by (simp add: store_simps)
  moreover have "dhas (jobs_of ?t j) k \<longleftrightarrow> (j, k) \<in> set ?seen \<or> dhas (jobs_of s j) k" for j k
    using Cons.prems(2) [of j k] by (auto simp: store_simps)
  ultimately have IH: "case add_jobs_check rs ?seen s of
      Some e \<Rightarrow> fst (base_add_jobs (store_add_job now) rs ?t) = Inl e
    | None \<Rightarrow> base_add_jobs (store_add_job now) rs ?t =
        (Inr (map (stamped now) rs), fold (\<lambda>r. put_rec (stamped now r)) rs ?t)"
    by (rule Cons.IH)
  show ?case
    using IH Cons.prems
    by (cases "add_jobs_check rs ?seen s")
      (auto simp: store_add_job_def split: prod.splits sum.splits)
qed

section \<open>Properties of the store\<close>

definition demo_rec :: "job_key \<Rightarrow> JobState \<Rightarrow> JobRecord" where
  "demo_rec k st = new_JobRecord None None ''js'' k st ''g1''"

definition demo_jobset :: "int \<Rightarrow> JobSetRecord" where
  "demo_jobset n = \<lparr> jset_jobset_id = ''js'', jset_intended_count = n, jset_label = [], jset_tags = [],
     jset_created_at = None \<rparr>"

definition demo_store :: store where
  "demo_store = snd (store_add_jobs 5 [demo_rec ''a'' PEND, demo_rec ''b'' DONE, demo_rec ''c'' PEND]
     (snd (store_insert_jobset 1 (demo_jobset 5) empty_store)))"

lemma demo_store_reach: "store_reach demo_store"
  unfolding demo_store_def by (intro store_reach.intros)

text \<open>
  C1: Exact counts. In every store that calls can produce, the incrementally maintained
  counts of a jobset are the counts that a recount of its records gives: the optional debug
  check never fails.
\<close>

theorem store_counts_exact: "store_reach s \<Longrightarrow> debug_counts_ok j s"
  by (rule debug_counts_ok_inv) (rule store_reach_inv)

theorem store_counts_exact_witness:
  "debug_counts_ok ''js'' demo_store \<and> dget (counts_of demo_store ''js'') ''PEND'' = Some 2"
  using store_counts_exact [OF demo_store_reach, of "''js''"] by (rule conjI) code_simp

text \<open>
  Summary. For a jobset that holds no more records than it intends, the summary's total is
  the intended count, every state other than CREATED has the number of records in it, and the
  numbers of all states add up to the total (jobs not yet made count as CREATED).
\<close>

theorem summary_accounts_for_every_job:
  assumes "store_reach s" and "get_jobset j s = Inr js"
    and "int (length (jobs_of s j)) \<le> jset_intended_count js"
  shows "\<exists>out. store_summary j s = Inr out \<and> dget out ''total'' = Some (jset_intended_count js) \<and>
     (\<forall>st. st = CREATED \<or> dget_or out (state_value st) 0 = int (state_count (jobs_of s j) (state_value st))) \<and>
     (\<Sum>st\<in>UNIV. dget_or out (state_value st) 0) = jset_intended_count js"
proof -
  let ?c = "counts_of s j" and ?n = "jset_intended_count js"
  let ?out = "summary_from_counts js ?c" and ?m = "state_count (jobs_of s j)"
  have rep: "represents ?c ?m" using store_reach_inv [OF assms(1)] by (simp add: store_inv_def)
  define missing where "missing = ?n - int (length (jobs_of s j))"
  have missing: "?n - sum_list (dvalues ?c) = missing" "0 \<le> missing"
    using represents_sum [OF rep] assms(3) by (simp_all add: missing_def)
  define c' where "c' = (if missing > 0
     then dset (state_value CREATED) (dget_or ?c (state_value CREATED) 0 + missing) ?c else ?c)"
  have out: "?out = fold (\<lambda>(k, v) out. dset k v out) c' [(''total'', ?n)]"
    unfolding summary_from_counts_def Let_def missing(1) c'_def by simp
  have dist: "distinct (dkeys c')" using rep by (simp add: c'_def represents_def)
  have outget: "dget ?out v = (case dget c' v of None \<Rightarrow> dget [(''total'', ?n)] v | Some x \<Rightarrow> Some x)" for v
    unfolding out by (rule fold_dset_get [OF dist])
  have c: "dget ?c v = (if ?m v = 0 then None else Some (int (?m v)))" for v
    using rep by (simp add: represents_def)
  have c': "dget c' v = (if missing > 0 \<and> v = state_value CREATED then Some (int (?m v) + missing)
      else if ?m v = 0 then None else Some (int (?m v)))" for v
    by (simp add: c'_def c dget_or_def del: state_value.simps)
  have nt: "state_value st \<noteq> ''total''" for st by (cases st) simp_all
  have get: "dget_or ?out (state_value st) 0 = int (?m (state_value st)) + (if st = CREATED then missing else 0)" for st
    using missing(2)
    by (auto simp add: dget_or_def outget c' state_value_inject nt simp del: state_value.simps)
  have "''total'' \<notin> range state_value" using nt by (metis rangeE)
  then have "?m ''total'' = 0" by (rule state_count_other)
  then have tot: "dget ?out ''total'' = Some ?n"
    by (simp add: outget c')
  have "(\<Sum>st\<in>UNIV. dget_or ?out (state_value st) 0) = int (\<Sum>st\<in>UNIV. ?m (state_value st)) + missing"
    by (simp only: get sum.distrib int_sum) simp
  also have "\<dots> = ?n" by (simp only: sum_state_count missing_def)
  finally show ?thesis
    using tot get assms(2) by (intro exI [of _ ?out]) (auto simp: store_summary_def)
qed

theorem summary_accounts_for_every_job_witness:
  "\<exists>out. store_summary ''js'' demo_store = Inr out \<and> dget out ''total'' = Some 5 \<and>
     (\<Sum>st\<in>UNIV. dget_or out (state_value st) 0) = 5"
proof -
  have js: "get_jobset ''js'' demo_store = Inr ((demo_jobset 5)\<lparr>jset_created_at := Some 1\<rparr>)" by code_simp
  have n: "length (jobs_of demo_store ''js'') = 3" by code_simp
  show ?thesis
    using summary_accounts_for_every_job [OF demo_store_reach js] by (auto simp: n demo_jobset_def)
qed

text \<open>
  Batch operations. The in-memory batch operations (transition, delete, lookup under
  one lock) return and leave behind exactly what the base class's job-by-job loops do over
  the single operations.
\<close>

theorem batch_operations_are_sequences:
  assumes "store_reach s"
  shows "store_transition_many now j specs s
       = transition_many (base_transition_many_impl (transition now)) j specs s \<and>
     base_delete_jobs store_delete_job j ks s
       = (Inr (fst (store_delete_jobs j ks s)), snd (store_delete_jobs j ks s)) \<and>
     base_get_jobs_by_keys get_job j ks s [] = Inr (get_jobs_by_keys j ks s)"
proof (intro conjI)
  note inv = store_reach_inv [OF assms]
  show "store_transition_many now j specs s
       = transition_many (base_transition_many_impl (transition now)) j specs s"
    using transition_many_loop_base [OF inv, of specs now j]
    by (auto simp: store_transition_many_def transition_many_def split_beta)
  show "base_delete_jobs store_delete_job j ks s
       = (Inr (fst (store_delete_jobs j ks s)), snd (store_delete_jobs j ks s))"
    using delete_jobs_loop_missing [of s j ks]
    by (auto simp: delete_jobs_loop_base store_delete_jobs_def)
  show "base_get_jobs_by_keys get_job j ks s [] = Inr (get_jobs_by_keys j ks s)"
    by (simp add: get_jobs_by_keys_base get_jobs_by_keys_def)
qed

theorem batch_operations_are_sequences_witness:
  "map jr_job_key (fst (store_delete_jobs ''js'' [''c'', ''x'', ''a''] demo_store)) = [''c'', ''a''] \<and>
   fst (base_delete_jobs store_delete_job ''js'' [''c'', ''x'', ''a''] demo_store)
     = Inr (fst (store_delete_jobs ''js'' [''c'', ''x'', ''a''] demo_store))"
proof
  show "map jr_job_key (fst (store_delete_jobs ''js'' [''c'', ''x'', ''a''] demo_store)) = [''c'', ''a'']"
    by code_simp
  show "fst (base_delete_jobs store_delete_job ''js'' [''c'', ''x'', ''a''] demo_store)
     = Inr (fst (store_delete_jobs ''js'' [''c'', ''x'', ''a''] demo_store))"
    using batch_operations_are_sequences [OF demo_store_reach, where j = "''js''" and ks = "[''c'', ''x'', ''a'']"]
    by simp
qed

text \<open>
  C2: Atomic insertion. \<open>add_jobs\<close> either writes nothing and raises the error that adding
  the records one by one would have stopped with, or adds them all, with the result and the
  final store of adding them one by one.
\<close>

theorem add_jobs_all_or_nothing:
  "case store_add_jobs now rs s of
     (Inl e, s') \<Rightarrow> s' = s \<and> fst (base_add_jobs (store_add_job now) rs s) = Inl e
   | (Inr out, s') \<Rightarrow> base_add_jobs (store_add_job now) rs s = (Inr out, s')"
  using add_jobs_check_base [of s s "[]" now rs]
  by (auto simp: store_add_jobs_def split: option.splits)

text \<open>
  Transitions. A transition of a stored record writes exactly that record (state and
  fields as asked, revision one higher) and nothing else when its guard accepts the stored
  record, and changes nothing when the guard refuses it.
\<close>

theorem transition_exact:
  assumes "store_reach s" and "get_job j k s = Inr old" and "\<not> reject_key_fields fs"
  shows "if guard_ok g old
     then (\<exists>s'. transition now j k st g fs s = (Inr (Some (transitioned old now st fs)), s') \<and>
             jr_revision (transitioned old now st fs) = Suc (jr_revision old) \<and>
             (\<forall>j' k'. get_job j' k' s' =
                (if j' = j \<and> k' = k then Inr (transitioned old now st fs) else get_job j' k' s)))
     else transition now j k st g fs s = (Inr None, s)"
proof (cases "guard_ok g old")
  case True
  from mem.tr_done [OF store_reach_inv [OF assms(1)] assms(3,2) True, of now st]
  obtain s' where "transition now j k st g fs s = (Inr (Some (transitioned old now st fs)), s')"
    and "\<forall>j' k'. get_job j' k' s' =
          (if j' = j \<and> k' = k then Inr (transitioned old now st fs) else get_job j' k' s)"
    by blast
  with True show ?thesis by simp
next
  case False
  from mem.tr_refused [OF store_reach_inv [OF assms(1)] assms(3,2) False] False show ?thesis by simp
qed

theorem transition_exact_witness:
  "\<exists>s'. transition 9 ''js'' ''a'' (Some RUN) None [FExitCode (Some 3)] demo_store
      = (Inr (Some (transitioned (stamped 5 (demo_rec ''a'' PEND)) 9 (Some RUN) [FExitCode (Some 3)])), s') \<and>
     get_job ''js'' ''b'' s' = get_job ''js'' ''b'' demo_store"
proof -
  have "get_job ''js'' ''a'' demo_store = Inr (stamped 5 (demo_rec ''a'' PEND))" by code_simp
  from transition_exact [OF demo_store_reach this, of "[FExitCode (Some 3)]" None 9 "Some RUN"]
  show ?thesis by (auto simp: reject_key_fields_def guard_ok_def)
qed

text \<open>
  C3: Stale executions. A transition whose guard requires the record the caller saw (same
  jobset, key and generation) changes nothing once the key belongs to a later execution.
\<close>

theorem stale_execution_untouched:
  assumes "store_reach s" and "get_job j k s = Inr cur" and "\<not> reject_key_fields fs"
    and "jr_generation cur \<noteq> jr_generation seen"
  shows "transition now j k st (Some (\<lambda>r. same_execution r seen \<and> p r)) fs s = (Inr None, s)"
  by (rule mem.stale_transition_is_noop [OF store_reach_inv [OF assms(1)] assms(2,3)])
    (use assms(4) in auto)

theorem stale_execution_untouched_witness:
  "transition 9 ''js'' ''a'' (Some EXIT)
     (Some (\<lambda>r. same_execution r ((demo_rec ''a'' RUN)\<lparr>jr_generation := ''g0''\<rparr>) \<and> True)) [] demo_store
   = (Inr None, demo_store)"
proof -
  have "get_job ''js'' ''a'' demo_store = Inr (stamped 5 (demo_rec ''a'' PEND))" by code_simp
  then show ?thesis
    by (rule stale_execution_untouched [OF demo_store_reach]) (simp_all add: demo_rec_def)
qed

end
