(* ===== verification/JobsetCore.thy ===== *)
theory JobsetCore
  imports Store
begin

text \<open>
  \<open>lsfmgr/jobset_core.py\<close>: building job records from commands, resolving job references,
  choosing what to submit, and the create / edit / remove operations over the store. Each
  operation runs under the manager's lock and is one function on the store; \<open>now i\<close> is the
  clock at its \<open>i\<close>-th write and \<open>fresh i\<close> the \<open>i\<close>-th generated identifier.
\<close>

section \<open>Command lines\<close>

text \<open>The parts of \<open>shlex\<close> the code uses: \<open>split\<close> in POSIX mode without comments, and \<open>join\<close>.\<close>

datatype lex_state = LSpace | LWord | LQuote char | LEsc "char option"

definition sh_space :: "char \<Rightarrow> bool" where
  "sh_space c \<longleftrightarrow> c = CHR '' '' \<or> c = CHR 0x09 \<or> c = CHR 0x0D \<or> c = CHR 0x0A"

definition sh_backslash :: char where
  "sh_backslash = CHR 0x5C"

definition sh_squote :: char where
  "sh_squote = CHR 0x27"

definition sh_dquote :: char where
  "sh_dquote = CHR 0x22"

definition sh_isquote :: "char \<Rightarrow> bool" where
  "sh_isquote c \<longleftrightarrow> c = sh_squote \<or> c = sh_dquote"

fun shlex_go :: "lex_state \<Rightarrow> string \<Rightarrow> bool \<Rightarrow> string \<Rightarrow> py_error + string list" where
  "shlex_go LSpace tok quoted [] = Inr (if tok \<noteq> [] \<or> quoted then [tok] else [])"
| "shlex_go LWord tok quoted [] = Inr (if tok \<noteq> [] \<or> quoted then [tok] else [])"
| "shlex_go (LQuote q) tok quoted [] = Inl ValueError"
| "shlex_go (LEsc e) tok quoted [] = Inl ValueError"
| "shlex_go LSpace tok quoted (c # cs) =
     (if sh_space c then
        (if tok \<noteq> [] \<or> quoted then ebind (shlex_go LSpace [] False cs) (\<lambda>ts. Inr (tok # ts))
         else shlex_go LSpace tok quoted cs)
      else if c = sh_backslash then shlex_go (LEsc None) tok quoted cs
      else if sh_isquote c then shlex_go (LQuote c) tok quoted cs
      else shlex_go LWord [c] quoted cs)"
| "shlex_go LWord tok quoted (c # cs) =
     (if sh_space c then
        (if tok \<noteq> [] \<or> quoted then ebind (shlex_go LSpace [] False cs) (\<lambda>ts. Inr (tok # ts))
         else shlex_go LSpace tok quoted cs)
      else if sh_isquote c then shlex_go (LQuote c) tok quoted cs
      else if c = sh_backslash then shlex_go (LEsc None) tok quoted cs
      else shlex_go LWord (tok @ [c]) quoted cs)"
| "shlex_go (LQuote q) tok quoted (c # cs) =
     (if c = q then shlex_go LWord tok True cs
      else if c = sh_backslash \<and> q = sh_dquote then shlex_go (LEsc (Some q)) tok True cs
      else shlex_go (LQuote q) (tok @ [c]) True cs)"
| "shlex_go (LEsc e) tok quoted (c # cs) =
     (case e of
        None \<Rightarrow> shlex_go LWord (tok @ [c]) quoted cs
      | Some q \<Rightarrow>
          shlex_go (LQuote q) (if c \<noteq> sh_backslash \<and> c \<noteq> q then tok @ [sh_backslash, c] else tok @ [c]) quoted cs)"

definition shlex_split :: "string \<Rightarrow> py_error + string list" where
  "shlex_split s = shlex_go LSpace [] False s"

definition sh_safe :: "char \<Rightarrow> bool" where
  "sh_safe c \<longleftrightarrow> (let n = (of_char c :: nat) in
     (48 \<le> n \<and> n \<le> 57) \<or> (65 \<le> n \<and> n \<le> 90) \<or> (97 \<le> n \<and> n \<le> 122) \<or> c \<in> set ''_@%+=:,./-'')"

definition sh_quote :: "string \<Rightarrow> string" where
  "sh_quote s =
     (if s = [] then [sh_squote, sh_squote]
      else if list_all sh_safe s then s
      else sh_squote
           # concat (map (\<lambda>c. if c = sh_squote then [sh_squote, sh_dquote, sh_squote, sh_dquote, sh_squote] else [c]) s)
           @ [sh_squote])"

definition shlex_join :: "string list \<Rightarrow> string" where
  "shlex_join argv = py_join '' '' (map sh_quote argv)"

text \<open>Splitting a joined command gives the arguments back.\<close>

lemma sh_chars [simp]:
  "sh_squote \<noteq> sh_dquote" "sh_dquote \<noteq> sh_squote" "sh_squote \<noteq> sh_backslash" "sh_dquote \<noteq> sh_backslash"
  "\<not> sh_space sh_squote" "\<not> sh_space sh_dquote" "sh_isquote sh_squote" "sh_isquote sh_dquote"
  "sh_space CHR '' ''"
  by (simp_all add: sh_squote_def sh_dquote_def sh_backslash_def sh_space_def sh_isquote_def)

lemma sh_safe_plain:
  assumes "sh_safe c"
  shows "\<not> sh_space c" and "\<not> sh_isquote c" and "c \<noteq> sh_backslash"
  using assms
  by (auto simp: sh_safe_def sh_space_def sh_isquote_def sh_squote_def sh_dquote_def sh_backslash_def Let_def)

lemma shlex_go_safe:
  "list_all sh_safe s \<Longrightarrow> shlex_go LWord tok quoted (s @ rest) = shlex_go LWord (tok @ s) quoted rest"
  by (induction s arbitrary: tok) (simp_all add: sh_safe_plain)

lemma shlex_go_quoted:
  "shlex_go (LQuote sh_squote) tok True
     (concat (map (\<lambda>c. if c = sh_squote then [sh_squote, sh_dquote, sh_squote, sh_dquote, sh_squote] else [c]) s)
      @ sh_squote # rest)
   = shlex_go LWord (tok @ s) True rest"
proof (induction s arbitrary: tok)
  case Nil
  then show ?case by simp
next
  case (Cons c s)
  show ?case
    by (cases "c = sh_squote") (simp_all add: Cons.IH)
qed

lemma shlex_go_first_quote: "shlex_go (LQuote sh_squote) tok quoted (c # cs) = shlex_go (LQuote sh_squote) tok True (c # cs)"
  by simp

lemma shlex_go_quote:
  "\<exists>q. shlex_go LSpace [] False (sh_quote s @ rest) = shlex_go LWord s q rest \<and> (s \<noteq> [] \<or> q)"
proof -
  consider "s = []" | "s \<noteq> []" "list_all sh_safe s" | "s \<noteq> []" "\<not> list_all sh_safe s" by blast
  then show ?thesis
  proof cases
    case 1
    then show ?thesis by (auto simp: sh_quote_def)
  next
    case 2
    then obtain c t where s: "s = c # t" by (cases s) auto
    with 2 have "shlex_go LSpace [] False (s @ rest) = shlex_go LWord s False rest"
      using shlex_go_safe [of t "[c]" False rest] by (simp add: sh_safe_plain)
    with 2 show ?thesis by (auto simp: sh_quote_def)
  next
    case 3
    define body where "body = concat (map (\<lambda>c. if c = sh_squote
      then [sh_squote, sh_dquote, sh_squote, sh_dquote, sh_squote] else [c]) s) @ sh_squote # rest"
    have "sh_quote s @ rest = sh_squote # body" using 3 by (simp add: sh_quote_def body_def)
    then have "shlex_go LSpace [] False (sh_quote s @ rest) = shlex_go (LQuote sh_squote) [] False body" by simp
    also have "\<dots> = shlex_go (LQuote sh_squote) [] True body"
      by (cases body) (simp_all add: body_def)
    also have "\<dots> = shlex_go LWord s True rest"
      unfolding body_def using shlex_go_quoted [of "[]" s rest] by simp
    finally show ?thesis by auto
  qed
qed

lemma shlex_split_join: "shlex_split (shlex_join argv) = Inr argv"
  unfolding shlex_split_def shlex_join_def
proof (induction argv)
  case Nil
  then show ?case by simp
next
  case (Cons a argv)
  show ?case
  proof (cases argv)
    case Nil
    with shlex_go_quote [of a "[]"] show ?thesis by auto
  next
    case (Cons b bs)
    obtain q where "shlex_go LSpace [] False (sh_quote a @ '' '' @ py_join '' '' (map sh_quote argv))
        = shlex_go LWord a q ('' '' @ py_join '' '' (map sh_quote argv))" and "a \<noteq> [] \<or> q"
      using shlex_go_quote by blast
    with Cons.IH Cons show ?thesis by simp
  qed
qed

section \<open>Building records\<close>

fun check_records :: "jobset_id \<Rightarrow> JobRecord list \<Rightarrow> job_key list \<Rightarrow> py_error option" where
  "check_records jsid [] keys = None"
| "check_records jsid (r # rs) keys =
     (if jr_jobset_id r \<noteq> jsid then Some ValueError
      else if py_strip (jr_job_key r) = [] then Some ValueError
      else if jr_job_key r \<in> set keys then Some ValueError
      else check_records jsid rs (jr_job_key r # keys))"

text \<open>A command is a string or a list of words; \<open>commands\<close> itself must not be a string.\<close>

datatype command_item = CmdStr string | CmdWords "string list"
datatype commands_arg = CommandsStr string | Commands "command_item list"

fun item_argv :: "command_item \<Rightarrow> py_error + string list" where
  "item_argv (CmdStr s) = shlex_split s"
| "item_argv (CmdWords ws) = Inr ws"

definition make_record :: "jobset_id \<Rightarrow> string list \<Rightarrow> job_key \<Rightarrow> user_dict option \<Rightarrow> string option \<Rightarrow> uuid \<Rightarrow> JobRecord" where
  "make_record jsid argv key ud cwd uid =
     (new_JobRecord None None jsid key CREATED uid)
       \<lparr>jr_command := shlex_join argv, jr_user_data := ud, jr_submit_cwd := cwd\<rparr>"

fun build_loop :: "(nat \<Rightarrow> uuid) \<Rightarrow> nat \<Rightarrow> jobset_id
    \<Rightarrow> (command_item \<times> job_key \<times> user_dict option \<times> string option) list \<Rightarrow> py_error + JobRecord list" where
  "build_loop fresh i jsid [] = Inr []"
| "build_loop fresh i jsid ((item, key, ud, cwd) # rest) =
     ebind (item_argv item) (\<lambda>argv.
       if argv = [] then Inl ValueError
       else ebind (build_loop fresh (Suc i) jsid rest) (\<lambda>rs.
              Inr (make_record jsid argv key ud cwd (fresh i) # rs)))"

definition build_records :: "(nat \<Rightarrow> uuid) \<Rightarrow> jobset_id \<Rightarrow> commands_arg \<Rightarrow> job_key list option
    \<Rightarrow> user_dict option list option \<Rightarrow> string option \<Rightarrow> string option list option
    \<Rightarrow> py_error + JobRecord list" where
  "build_records fresh jsid commands job_keys user_datas work_dir work_dirs =
     (case commands of
        CommandsStr _ \<Rightarrow> Inl TypeError
      | Commands items \<Rightarrow>
          (if items = [] then Inr []
           else if work_dir \<noteq> None \<and> work_dirs \<noteq> None then Inl ValueError
           else
             (case job_keys of
                None \<Rightarrow> Inl ValueError
              | Some keys_in \<Rightarrow>
                  (let uds = (case user_datas of Some u \<Rightarrow> u | None \<Rightarrow> replicate (length items) None);
                       wds = (case work_dirs of Some w \<Rightarrow> w | None \<Rightarrow> replicate (length items) work_dir)
                   in if length keys_in \<noteq> length items \<or> length uds \<noteq> length items
                         \<or> length wds \<noteq> length items then Inl ValueError
                      else
                        ebind (build_loop fresh 0 jsid (zip items (zip keys_in (zip uds wds)))) (\<lambda>rs.
                          case check_records jsid rs [] of
                            Some e \<Rightarrow> Inl e
                          | None \<Rightarrow> Inr rs)))))"

section \<open>References and submit targets\<close>

text \<open>A job is named by its key or by its LSF job id; a bare string is refused.\<close>

datatype job_ref = RefKey job_key | RefId int
datatype refs_arg = RefsStr string | Refs "job_ref list"

fun is_id_ref :: "job_ref \<Rightarrow> bool" where
  "is_id_ref (RefId _) = True"
| "is_id_ref (RefKey _) = False"

fun ref_text :: "job_ref \<Rightarrow> string" where
  "ref_text (RefId i) = show_int i"
| "ref_text (RefKey k) = k"

fun key_refs :: "job_ref list \<Rightarrow> job_key list" where
  "key_refs [] = []"
| "key_refs (RefKey k # rs) = k # key_refs rs"
| "key_refs (RefId _ # rs) = key_refs rs"

definition index_by :: "('r \<Rightarrow> 'k) \<Rightarrow> 'r list \<Rightarrow> ('k, 'r) dict" where
  "index_by f rs = fold (\<lambda>r d. dset (f r) r d) rs []"

definition parent_index :: "JobRecord list \<Rightarrow> (int option, JobRecord) dict" where
  "parent_index jobs =
     index_by jr_job_id (filter (\<lambda>r. jr_job_id r \<noteq> None \<and> jr_array_index r = None) jobs)"

fun resolve_loop :: "jobset_id \<Rightarrow> JobRecord list \<Rightarrow> (job_key, JobRecord) dict \<Rightarrow> (int option, JobRecord) dict
    \<Rightarrow> job_ref list \<Rightarrow> job_key list \<Rightarrow> py_error + JobRecord list" where
  "resolve_loop jsid jobs by_key by_jid [] seen = Inr []"
| "resolve_loop jsid jobs by_key by_jid (ref # refs) seen =
     (case (case ref of RefId i \<Rightarrow> dget by_jid (Some i) | RefKey k \<Rightarrow> dget by_key k) of
        None \<Rightarrow>
          (if (case ref of RefId i \<Rightarrow> list_ex (\<lambda>r. jr_job_id r = Some i) jobs | RefKey _ \<Rightarrow> False)
           then Inl ValueError
           else Inl (JobNotFoundError jsid (ref_text ref)))
      | Some r \<Rightarrow>
          (if jr_job_key r \<in> set seen then resolve_loop jsid jobs by_key by_jid refs seen
           else ebind (resolve_loop jsid jobs by_key by_jid refs (jr_job_key r # seen)) (\<lambda>out. Inr (r # out))))"

definition resolve_refs :: "jobset_id \<Rightarrow> refs_arg \<Rightarrow> store \<Rightarrow> py_error + JobRecord list" where
  "resolve_refs jsid refs s =
     (case refs of
        RefsStr _ \<Rightarrow> Inl TypeError
      | Refs rs \<Rightarrow>
          ebind (get_jobset jsid s) (\<lambda>_.
            if list_ex is_id_ref rs then
              ebind (get_jobs jsid None s) (\<lambda>jobs.
                resolve_loop jsid jobs (index_by jr_job_key jobs) (parent_index jobs) rs [])
            else
              resolve_loop jsid [] (get_jobs_by_keys jsid (key_refs rs) s) (parent_index []) rs []))"

definition submit_targets :: "jobset_id \<Rightarrow> refs_arg option \<Rightarrow> store \<Rightarrow> py_error + JobRecord list" where
  "submit_targets jsid only s =
     ebind (case only of
              None \<Rightarrow> ebind (get_jobs jsid None s) (\<lambda>jobs. Inr (filter (\<lambda>r. jr_array_index r = None) jobs))
            | Some refs \<Rightarrow> resolve_refs jsid refs s)
       (\<lambda>targets.
          if list_ex (\<lambda>r. jr_array_index r \<noteq> None) targets then Inl ValueError
          else if targets = [] then Inl (SubmitNotAllowedError jsid [])
          else
            (let busy = map jr_job_key (filter (\<lambda>r. \<not> is_inactive (jr_state r)) targets)
             in if busy \<noteq> [] then Inl (SubmitNotAllowedError jsid busy) else Inr targets))"

section \<open>Creating jobsets and jobs\<close>

definition local_create_jobset :: "datetime \<Rightarrow> jobset_id \<Rightarrow> int \<Rightarrow> string \<Rightarrow> string list \<Rightarrow> jobset_id option
    \<Rightarrow> store \<Rightarrow> (JobSetRecord, store) outcome" where
  "local_create_jobset now generated intended label tags jobset_id s =
     (if intended < 0 then (Inl ValueError, s)
      else
        (let jsid = (case jobset_id of None \<Rightarrow> generated | Some j \<Rightarrow> if j = [] then generated else j)
         in store_insert_jobset now
              \<lparr> jset_jobset_id = jsid, jset_intended_count = intended, jset_label = label,
                jset_tags = tags, jset_created_at = Some now \<rparr> s))"

definition local_create_jobs :: "(nat \<Rightarrow> datetime) \<Rightarrow> jobset_id \<Rightarrow> JobRecord list \<Rightarrow> store
    \<Rightarrow> (JobRecord list, store) outcome" where
  "local_create_jobs now jsid records s =
     (if records = [] then (Inr [], s)
      else
        obind (oread (get_jobset jsid s) s) (\<lambda>_ s.
          case check_records jsid records [] of
            Some e \<Rightarrow> (Inl e, s)
          | None \<Rightarrow>
              (let existing = get_jobs_by_keys jsid (map jr_job_key records) s
               in if list_ex (\<lambda>r. dhas existing (jr_job_key r)) records then (Inl ValueError, s)
                  else
                    obind (store_add_jobs (now 0) records s) (\<lambda>out s.
                    obind (oread (get_jobset jsid s) s) (\<lambda>js s.
                    obind (oread (count_jobs jsid s) s) (\<lambda>n s.
                      if n > jset_intended_count js
                      then obind (update_jobset (js\<lparr>jset_intended_count := n\<rparr>) s) (\<lambda>_ s. (Inr out, s))
                      else (Inr out, s)))))))"

definition sync_intended_count :: "jobset_id \<Rightarrow> store \<Rightarrow> (unit, store) outcome" where
  "sync_intended_count jsid s =
     obind (oread (get_jobset jsid s) s) (\<lambda>js s.
     obind (oread (count_jobs jsid s) s) (\<lambda>n s.
       if jset_intended_count js \<noteq> n
       then obind (update_jobset (js\<lparr>jset_intended_count := n\<rparr>) s) (\<lambda>_ s. (Inr (), s))
       else (Inr (), s)))"

section \<open>Editing jobs\<close>

datatype edit_policy = PAdd | PReplace | PUpsert | PUnknown

fun edit_plan :: "jobset_id \<Rightarrow> edit_policy \<Rightarrow> (job_key, JobRecord) dict \<Rightarrow> JobRecord list
    \<Rightarrow> py_error + (JobRecord \<times> JobRecord option) list" where
  "edit_plan jsid policy by_key [] = Inr []"
| "edit_plan jsid policy by_key (r # rs) =
     (let old = dget by_key (jr_job_key r)
      in if policy = PAdd \<and> old \<noteq> None then Inl ValueError
         else if policy = PReplace \<and> old = None then Inl (JobNotFoundError jsid (jr_job_key r))
         else ebind (edit_plan jsid policy by_key rs) (\<lambda>plan. Inr ((r, old) # plan)))"

fun edit_apply :: "(nat \<Rightarrow> datetime) \<Rightarrow> nat \<Rightarrow> (JobRecord \<times> JobRecord option) list \<Rightarrow> store
    \<Rightarrow> (JobRecord list, store) outcome" where
  "edit_apply now i [] s = (Inr [], s)"
| "edit_apply now i ((r, old) # plan) s =
     obind (if old \<noteq> None then update_job (now i) r s else store_add_job (now i) r s) (\<lambda>r' s.
     obind (edit_apply now (Suc i) plan s) (\<lambda>out s. (Inr (r' # out), s)))"

definition busy_keys :: "JobRecord list \<Rightarrow> job_key list" where
  "busy_keys rs = map jr_job_key (filter (\<lambda>r. \<not> is_inactive (jr_state r)) rs)"

definition orphans :: "JobRecord list \<Rightarrow> int option list" where
  "orphans rs = map jr_job_id (filter (\<lambda>r. is_on_lsf (jr_state r) \<and> jr_job_id r \<noteq> None) rs)"

definition local_edit_jobs :: "(nat \<Rightarrow> datetime) \<Rightarrow> jobset_id \<Rightarrow> JobRecord list \<Rightarrow> edit_policy \<Rightarrow> bool
    \<Rightarrow> store \<Rightarrow> (JobRecord list, store) outcome" where
  "local_edit_jobs now jsid records policy force s =
     (if policy = PUnknown then (Inl ValueError, s)
      else
        obind (oread (get_jobset jsid s) s) (\<lambda>_ s.
          case check_records jsid records [] of
            Some e \<Rightarrow> (Inl e, s)
          | None \<Rightarrow>
              obind (oread (edit_plan jsid policy (get_jobs_by_keys jsid (map jr_job_key records) s) records) s)
                (\<lambda>plan s.
                  let olds = List.map_filter snd plan; busy = busy_keys olds
                  in if busy \<noteq> [] \<and> \<not> force then (Inl (JobEditNotAllowedError jsid busy), s)
                     else
                       obind (edit_apply now 0 plan s) (\<lambda>changed s.
                       obind (sync_intended_count jsid s) (\<lambda>_ s. (Inr changed, s))))))"

section \<open>Removing jobs and jobsets\<close>

definition delete_jobs :: "jobset_id \<Rightarrow> JobRecord list \<Rightarrow> bool \<Rightarrow> store \<Rightarrow> (JobRecord list, store) outcome" where
  "delete_jobs jsid targets force s =
     (let busy = busy_keys targets
      in if busy \<noteq> [] \<and> \<not> force then (Inl (RemoveNotAllowedError jsid busy), s)
         else
           (let (removed, s') = store_delete_jobs jsid (map jr_job_key targets) s
            in obind (sync_intended_count jsid s') (\<lambda>_ s. (Inr removed, s))))"

fun pick_targets :: "jobset_id \<Rightarrow> (job_key, JobRecord) dict \<Rightarrow> job_key list \<Rightarrow> py_error + JobRecord list" where
  "pick_targets jsid by_key [] = Inr []"
| "pick_targets jsid by_key (k # ks) =
     (case dget by_key k of
        None \<Rightarrow> Inl (JobNotFoundError jsid k)
      | Some r \<Rightarrow> ebind (pick_targets jsid by_key ks) (\<lambda>rs. Inr (r # rs)))"

definition local_remove_jobs :: "jobset_id \<Rightarrow> job_key list \<Rightarrow> bool \<Rightarrow> store \<Rightarrow> (JobRecord list, store) outcome" where
  "local_remove_jobs jsid keys force s =
     (if keys = [] then (Inl ValueError, s)
      else
        obind (oread (get_jobset jsid s) s) (\<lambda>_ s.
        obind (oread (pick_targets jsid (get_jobs_by_keys jsid keys s) keys) s) (\<lambda>targets s.
          delete_jobs jsid targets force s)))"

definition local_clear_jobs :: "jobset_id \<Rightarrow> bool \<Rightarrow> store \<Rightarrow> (JobRecord list, store) outcome" where
  "local_clear_jobs jsid force s =
     obind (oread (get_jobs jsid None s) s) (\<lambda>jobs s. delete_jobs jsid jobs force s)"

definition detect_lost :: "datetime \<Rightarrow> jobset_id \<Rightarrow> store \<Rightarrow> (JobRecord list, store) outcome" where
  "detect_lost now jsid s =
     obind (oread (get_jobset jsid s) s) (\<lambda>_ s.
     obind (oread (get_jobs jsid None s) s) (\<lambda>records s.
       let candidates = filter (\<lambda>r. jr_job_id r = None \<and> jr_state r = SUBMITTING) records
       in if candidates = [] then (Inr [], s)
          else
            store_transition_many now jsid
              (map (\<lambda>r. (jr_job_key r, Some LOST,
                 Some (\<lambda>cur. same_execution cur r \<and> jr_job_id cur = None \<and> jr_state cur = jr_state r),
                 [FFailReason (case jr_fail_reason r of
                    Some m \<Rightarrow> Some (if m = [] then ''NO_JOBID_PARSED'' else m)
                  | None \<Rightarrow> Some ''NO_JOBID_PARSED'')])) candidates) s))"

definition local_remove_jobset :: "jobset_id \<Rightarrow> bool \<Rightarrow> store \<Rightarrow> (JobSetRecord, store) outcome" where
  "local_remove_jobset jsid force s =
     obind (oread (get_jobset jsid s) s) (\<lambda>js s.
     obind (oread (get_jobs jsid None s) s) (\<lambda>records s.
       let not_terminal = filter (\<lambda>r. \<not> is_terminal (jr_state r)) records
       in if not_terminal \<noteq> [] \<and> \<not> force
          then (Inl (RemoveJobSetNotAllowedError jsid (map jr_job_key not_terminal)), s)
          else (Inr js, store_delete_jobset jsid s)))"

section \<open>What the operations do\<close>

lemma check_records_None:
  "check_records jsid rs keys = None \<Longrightarrow>
     (\<forall>r\<in>set rs. jr_jobset_id r = jsid) \<and> distinct (map jr_job_key rs) \<and> set keys \<inter> jr_job_key ` set rs = {}"
proof (induction rs arbitrary: keys)
  case Nil
  then show ?case by simp
next
  case (Cons r rs)
  then have "check_records jsid rs (jr_job_key r # keys) = None" "jr_jobset_id r = jsid" "jr_job_key r \<notin> set keys"
    by (auto split: if_splits)
  with Cons.IH [of "jr_job_key r # keys"] show ?case by auto
qed

lemma get_jobs_by_keys_get:
  assumes "store_inv s"
  shows "dget (get_jobs_by_keys j ks s) k = (if k \<in> set ks then dget (jobs_of s j) k else None)"
proof -
  obtain out where "base_get_jobs_by_keys get_job j ks s [] = Inr out"
    and out: "\<And>k. dget out k = (if k \<in> set ks \<and> (\<exists>r. get_job j k s = Inr r) then Some (projr (get_job j k s)) else None)"
    using mem.get_jobs_by_keys_total [OF assms, of j ks "[]"] by auto
  then have "out = get_jobs_by_keys j ks s"
    using get_jobs_by_keys_base [of j ks s "[]"] by (simp add: get_jobs_by_keys_def)
  with out show ?thesis by (auto simp: get_job_def split: option.splits)
qed

lemma get_jobs_Inr:
  "get_jobs j None s = Inr rs \<longleftrightarrow> dhas (s_jobsets s) j \<and> rs = dvalues (jobs_of s j)"
  by (auto simp: get_jobs_def)

lemma get_jobset_iff: "get_jobset j s = Inr js \<longleftrightarrow> dget (s_jobsets s) j = Some js"
  by (auto simp: get_jobset_def split: option.splits)

lemma dvalues_job_iff:
  "store_inv s \<Longrightarrow> r \<in> set (dvalues (jobs_of s j)) \<longleftrightarrow> dget (jobs_of s j) (jr_job_key r) = Some r"
  using dvalues_iff [OF store_inv_distinct, of s r j] jobs_of_job(2) [of s j _ r] by metis

lemma distinct_keys_of_values:
  assumes "store_inv s"
  shows "distinct (map jr_job_key (dvalues (jobs_of s j)))"
proof -
  have "\<forall>p\<in>set (jobs_of s j). jr_job_key (snd p) = fst p"
    using jobs_of_job(2) [OF assms] store_inv_distinct [OF assms, of j]
    by (metis map_of_is_SomeI prod.collapse)
  then have "map jr_job_key (dvalues (jobs_of s j)) = dkeys (jobs_of s j)" by auto
  with store_inv_distinct [OF assms, of j] show ?thesis by metis
qed

text \<open>Resynchronising the intended count: it never fails, and it touches no record.\<close>

definition only_count_changed :: "jobset_id \<Rightarrow> store \<Rightarrow> store \<Rightarrow> bool" where
  "only_count_changed j s t \<longleftrightarrow> store_inv t \<and> s_jobs t = s_jobs s
     \<and> (\<exists>js. dget (s_jobsets s) j = Some js
           \<and> (\<exists>n. dget (s_jobsets t) j = Some (js\<lparr>jset_intended_count := n\<rparr>)))
     \<and> (\<forall>i. i = j \<or> dget (s_jobsets t) i = dget (s_jobsets s) i)"

definition intended :: "store \<Rightarrow> jobset_id \<Rightarrow> int" where
  "intended s j = (case dget (s_jobsets s) j of None \<Rightarrow> 0 | Some js \<Rightarrow> jset_intended_count js)"

lemma set_count:
  assumes "store_inv s" and "dget (s_jobsets s) j = Some js"
  shows "\<exists>t. update_jobset (js\<lparr>jset_intended_count := n\<rparr>) s = (Inr (js\<lparr>jset_intended_count := n\<rparr>), t)
     \<and> only_count_changed j s t \<and> intended t j = n"
proof -
  have id: "jset_jobset_id js = j" using assms by (simp add: store_inv_def)
  let ?js = "js\<lparr>jset_intended_count := n\<rparr>"
  have "update_jobset ?js s = (Inr ?js, s\<lparr>s_jobsets := dset j ?js (s_jobsets s)\<rparr>)"
    using assms(2) id by (simp add: update_jobset_def dhas_def)
  with update_jobset_inv [OF assms(1), of ?js] assms(2) show ?thesis
    by (auto simp: only_count_changed_def intended_def)
qed

lemma only_count_changed_refl:
  "store_inv s \<Longrightarrow> dget (s_jobsets s) j = Some js \<Longrightarrow> only_count_changed j s s"
  by (auto simp: only_count_changed_def) (metis JobSetRecord.surjective JobSetRecord.update_convs(2))

lemma sync_intended_count_ok:
  assumes "store_inv s" and "dhas (s_jobsets s) j"
  shows "\<exists>t. sync_intended_count j s = (Inr (), t) \<and> only_count_changed j s t
     \<and> intended t j = int (length (jobs_of t j))"
proof -
  obtain js where js: "dget (s_jobsets s) j = Some js" using assms(2) by (auto simp: dhas_def)
  let ?n = "int (length (jobs_of s j))"
  obtain t where t: "update_jobset (js\<lparr>jset_intended_count := ?n\<rparr>) s = (Inr (js\<lparr>jset_intended_count := ?n\<rparr>), t)"
    "only_count_changed j s t" "intended t j = ?n"
    using set_count [OF assms(1) js, of ?n] by blast
  have "jobs_of t = jobs_of s" using t(2) by (intro jobs_of_cong) (simp add: only_count_changed_def)
  with t only_count_changed_refl [OF assms(1) js] js show ?thesis
    by (auto simp: sync_intended_count_def get_jobset_def count_jobs_def oread_def intended_def)
qed

lemma only_count_changed_jobs: "only_count_changed j s t \<Longrightarrow> jobs_of t = jobs_of s"
  by (intro jobs_of_cong) (simp add: only_count_changed_def)

lemma edit_plan_Inr:
  "edit_plan jsid policy d rs = Inr plan \<Longrightarrow>
     plan = map (\<lambda>r. (r, dget d (jr_job_key r))) rs
     \<and> (\<forall>r\<in>set rs. (policy = PAdd \<longrightarrow> dget d (jr_job_key r) = None)
                  \<and> (policy = PReplace \<longrightarrow> dget d (jr_job_key r) \<noteq> None))"
  by (induction rs arbitrary: plan) (auto simp: Let_def ebind_eq_Inr split: if_splits)

definition rewritten :: "JobRecord \<Rightarrow> JobRecord \<Rightarrow> bool" where
  "rewritten r w \<longleftrightarrow> (\<exists>t n. w = r\<lparr>jr_updated_at := t, jr_revision := n\<rparr>)"

lemma rewritten_simps: "rewritten r w \<Longrightarrow> jr_job_key w = jr_job_key r \<and> jr_state w = jr_state r"
  by (auto simp: rewritten_def)

lemma rewritten_replaced: "rewritten r (replaced r n t (jr_state r) [])"
  unfolding rewritten_def replaced_def apply_fields_def by (intro exI [of _ "Some t"] exI [of _ "Suc n"]) simp

lemma rewritten_stamped: "rewritten r (stamped t r)"
  unfolding rewritten_def stamped_def
  by (intro exI [of _ "if jr_updated_at r = None then Some t else jr_updated_at r"] exI [of _ "jr_revision r"]) simp

lemma edit_apply_ok:
  assumes "store_inv s" and "dhas (s_jobsets s) j"
    and "\<forall>r\<in>set rs. jr_jobset_id r = j" and "distinct (map jr_job_key rs)"
    and "\<forall>r\<in>set rs. (f r \<noteq> None) = dhas (jobs_of s j) (jr_job_key r)"
  shows "\<exists>out t. edit_apply now i (map (\<lambda>r. (r, f r)) rs) s = (Inr out, t) \<and> store_inv t \<and>
     s_jobsets t = s_jobsets s \<and> list_all2 rewritten rs out \<and>
     (\<forall>w\<in>set out. dget (jobs_of t j) (jr_job_key w) = Some w) \<and>
     (\<forall>k. k \<in> jr_job_key ` set rs \<or> dget (jobs_of t j) k = dget (jobs_of s j) k) \<and>
     (\<forall>j'. j' = j \<or> jobs_of t j' = jobs_of s j')"
  using assms
proof (induction rs arbitrary: s i)
  case Nil
  then show ?case by simp
next
  case (Cons r rs)
  let ?old = "dget (jobs_of s j) (jr_job_key r)"
  have rj: "jr_jobset_id r = j" using Cons.prems by simp
  define w where "w = (case ?old of None \<Rightarrow> stamped (now i) r | Some cur \<Rightarrow> replaced r (jr_revision cur) (now i) (jr_state r) [])"
  have wk: "jr_job_key w = jr_job_key r" "jr_jobset_id w = j"
    using rj by (auto simp: w_def split: option.splits)
  have wr: "rewritten r w"
    by (auto simp: w_def rewritten_replaced rewritten_stamped split: option.splits)
  have step: "(if f r \<noteq> None then update_job (now i) r s else store_add_job (now i) r s) = (Inr w, put_rec w s)"
    using Cons.prems(2,5) rj
    by (cases ?old) (auto simp: w_def update_job_present store_add_job_def dhas_def)
  let ?s = "put_rec w s"
  have jobs: "jobs_of ?s j' = (if j' = j then dset (jr_job_key r) w (jobs_of s j') else jobs_of s j')" for j'
    by (simp add: store_simps wk)
  have "\<exists>out t. edit_apply now (Suc i) (map (\<lambda>r. (r, f r)) rs) ?s = (Inr out, t) \<and> store_inv t \<and>
     s_jobsets t = s_jobsets ?s \<and> list_all2 rewritten rs out \<and>
     (\<forall>w\<in>set out. dget (jobs_of t j) (jr_job_key w) = Some w) \<and>
     (\<forall>k. k \<in> jr_job_key ` set rs \<or> dget (jobs_of t j) k = dget (jobs_of ?s j) k) \<and>
     (\<forall>j'. j' = j \<or> jobs_of t j' = jobs_of ?s j')"
  proof (rule Cons.IH)
    show "store_inv ?s" using Cons.prems(1,2) by (simp add: store_inv_put_rec wk)
    show "\<forall>r\<in>set rs. (f r \<noteq> None) = dhas (jobs_of ?s j) (jr_job_key r)"
    proof
      fix q assume q: "q \<in> set rs"
      then have "jr_job_key q \<in> jr_job_key ` set rs" by simp
      moreover have "jr_job_key r \<notin> jr_job_key ` set rs" using Cons.prems(4) by simp
      ultimately have "jr_job_key q \<noteq> jr_job_key r" by metis
      with q Cons.prems(5) show "(f q \<noteq> None) = dhas (jobs_of ?s j) (jr_job_key q)" by (simp add: jobs)
    qed
  qed (use Cons.prems in \<open>auto simp: store_simps\<close>)
  then obtain out t where IH: "edit_apply now (Suc i) (map (\<lambda>r. (r, f r)) rs) ?s = (Inr out, t)" "store_inv t"
     "s_jobsets t = s_jobsets ?s" "list_all2 rewritten rs out"
     "\<forall>w\<in>set out. dget (jobs_of t j) (jr_job_key w) = Some w"
     "\<forall>k. k \<in> jr_job_key ` set rs \<or> dget (jobs_of t j) k = dget (jobs_of ?s j) k"
     "\<forall>j'. j' = j \<or> jobs_of t j' = jobs_of ?s j'"
    by blast
  have notin: "jr_job_key r \<notin> jr_job_key ` set rs" using Cons.prems(4) by simp
  have head: "dget (jobs_of t j) (jr_job_key w) = Some w"
    using IH(6) [rule_format, of "jr_job_key r"] notin by (simp add: jobs wk)
  have rest: "k \<in> jr_job_key ` set (r # rs) \<or> dget (jobs_of t j) k = dget (jobs_of s j) k" for k
    using IH(6) [rule_format, of k] by (auto simp: jobs)
  have others: "j' = j \<or> jobs_of t j' = jobs_of s j'" for j'
    using IH(7) [rule_format, of j'] jobs [of j'] by (cases "j' = j") auto
  show ?case
    using IH(1-5) step head rest wr others
    by (intro exI [of _ "w # out"] exI [of _ t]) (simp add: store_simps)
qed

lemma local_edit_jobs_ok:
  assumes inv: "store_inv s" and "local_edit_jobs now j rs policy force s = (res, t)"
  shows "case res of
      Inl e \<Rightarrow> t = s
    | Inr out \<Rightarrow> store_inv t \<and> list_all2 rewritten rs out \<and>
        (\<forall>w\<in>set out. dget (jobs_of t j) (jr_job_key w) = Some w) \<and>
        (\<forall>k. k \<in> jr_job_key ` set rs \<or> dget (jobs_of t j) k = dget (jobs_of s j) k) \<and>
        (\<forall>j'. j' = j \<or> jobs_of t j' = jobs_of s j') \<and>
        intended t j = int (length (jobs_of t j)) \<and>
        (\<forall>r\<in>set rs. case dget (jobs_of s j) (jr_job_key r) of
            None \<Rightarrow> policy \<noteq> PReplace
          | Some old \<Rightarrow> policy \<noteq> PAdd \<and> (force \<or> is_inactive (jr_state old)))"
proof (cases "policy = PUnknown \<or> \<not> dhas (s_jobsets s) j \<or> check_records j rs [] \<noteq> None")
  case True
  with assms(2) show ?thesis
    by (auto simp: local_edit_jobs_def get_jobset_def dhas_def split: option.splits if_splits)
next
  case False
  then have has: "dhas (s_jobsets s) j" and chk: "check_records j rs [] = None" and pol: "policy \<noteq> PUnknown"
    by auto
  note recs = check_records_None [OF chk]
  obtain js where js: "get_jobset j s = Inr js" using has by (auto simp: get_jobset_def dhas_def)
  define d where "d = get_jobs_by_keys j (map jr_job_key rs) s"
  have d: "dget d (jr_job_key r) = dget (jobs_of s j) (jr_job_key r)" if "r \<in> set rs" for r
    using that by (simp add: d_def get_jobs_by_keys_get [OF inv])
  have run: "local_edit_jobs now j rs policy force s = (case edit_plan j policy d rs of
      Inl e \<Rightarrow> (Inl e, s)
    | Inr plan \<Rightarrow> if busy_keys (List.map_filter snd plan) \<noteq> [] \<and> \<not> force
        then (Inl (JobEditNotAllowedError j (busy_keys (List.map_filter snd plan))), s)
        else obind (edit_apply now 0 plan s) (\<lambda>changed s.
               obind (sync_intended_count j s) (\<lambda>_ s. (Inr changed, s))))"
    using pol js chk by (simp add: local_edit_jobs_def d_def Let_def split: sum.splits)
  show ?thesis
  proof (cases "edit_plan j policy d rs")
    case (Inl e)
    with run assms(2) show ?thesis by auto
  next
    case (Inr plan)
    note plan = edit_plan_Inr [OF Inr]
    let ?busy = "busy_keys (List.map_filter snd plan)"
    show ?thesis
    proof (cases "?busy \<noteq> [] \<and> \<not> force")
      case True
      with run assms(2) Inr show ?thesis by auto
    next
      case False
      have "\<exists>out t. edit_apply now 0 (map (\<lambda>r. (r, dget d (jr_job_key r))) rs) s = (Inr out, t) \<and> store_inv t \<and>
         s_jobsets t = s_jobsets s \<and> list_all2 rewritten rs out \<and>
         (\<forall>w\<in>set out. dget (jobs_of t j) (jr_job_key w) = Some w) \<and>
         (\<forall>k. k \<in> jr_job_key ` set rs \<or> dget (jobs_of t j) k = dget (jobs_of s j) k) \<and>
         (\<forall>j'. j' = j \<or> jobs_of t j' = jobs_of s j')"
        by (rule edit_apply_ok [OF inv has]) (use recs d in \<open>auto simp: dhas_def\<close>)
      then obtain out t1 where t1: "edit_apply now 0 plan s = (Inr out, t1)" "store_inv t1"
         "s_jobsets t1 = s_jobsets s" "list_all2 rewritten rs out"
         "\<forall>w\<in>set out. dget (jobs_of t1 j) (jr_job_key w) = Some w"
         "\<forall>k. k \<in> jr_job_key ` set rs \<or> dget (jobs_of t1 j) k = dget (jobs_of s j) k"
         "\<forall>j'. j' = j \<or> jobs_of t1 j' = jobs_of s j'"
        using plan by auto
      obtain t2 where t2: "sync_intended_count j t1 = (Inr (), t2)" "only_count_changed j t1 t2"
          "intended t2 j = int (length (jobs_of t2 j))"
        using sync_intended_count_ok [OF t1(2), of j] has t1(3) by auto
      have "t = t2" "res = Inr out" using run Inr False t1(1) t2(1) assms(2) by auto
      moreover have "jobs_of t2 = jobs_of t1" by (rule only_count_changed_jobs [OF t2(2)])
      moreover have "store_inv t2" using t2(2) by (simp add: only_count_changed_def)
      moreover have "force \<or> is_inactive (jr_state old)"
        if "r \<in> set rs" "dget (jobs_of s j) (jr_job_key r) = Some old" for r old
      proof -
        have "old \<in> set (List.map_filter snd plan)"
          using that plan d by (force simp: List.map_filter_def)
        with False show ?thesis by (auto simp: busy_keys_def filter_empty_conv)
      qed
      moreover have "case dget (jobs_of s j) (jr_job_key r) of None \<Rightarrow> policy \<noteq> PReplace | Some _ \<Rightarrow> policy \<noteq> PAdd"
        if "r \<in> set rs" for r
        using plan d that by (auto split: option.splits)
      ultimately show ?thesis
        using t1 t2 by (fastforce split: option.splits)
    qed
  qed
qed

lemma notin_image_neq: "f x \<notin> f ` A \<Longrightarrow> y \<in> A \<Longrightarrow> f y \<noteq> f x"
  by (metis imageI)

lemma put_all_get:
  assumes "distinct (map jr_job_key rs)" and "\<forall>r\<in>set rs. jr_jobset_id r = j"
  shows "dget (jobs_of (fold (\<lambda>r. put_rec (stamped now r)) rs s) j) k =
      (case find (\<lambda>r. jr_job_key r = k) rs of Some r \<Rightarrow> Some (stamped now r) | None \<Rightarrow> dget (jobs_of s j) k)"
  using assms
proof (induction rs arbitrary: s)
  case Nil
  then show ?case by simp
next
  case (Cons r rs)
  have "jr_job_key r \<notin> jr_job_key ` set rs" using Cons.prems by simp
  then have "find (\<lambda>q. jr_job_key q = jr_job_key r) rs = None"
    unfolding find_None_iff by (metis imageI)
  with Cons.IH [of "put_rec (stamped now r) s"] Cons.prems show ?case
    by (auto simp: store_simps split: option.splits)
qed

lemma add_jobs_check_ok:
  assumes "dhas (s_jobsets s) j" and "\<forall>r\<in>set rs. jr_jobset_id r = j \<and> dget (jobs_of s j) (jr_job_key r) = None"
    and "distinct (map jr_job_key rs)" and "\<forall>k\<in>jr_job_key ` set rs. (j, k) \<notin> set seen"
  shows "add_jobs_check rs seen s = None"
  using assms(2-)
proof (induction rs arbitrary: seen)
  case Nil
  then show ?case by simp
next
  case (Cons r rs)
  have "add_jobs_check rs ((j, jr_job_key r) # seen) s = None"
    by (rule Cons.IH) (use Cons.prems in \<open>auto dest: notin_image_neq\<close>)
  with Cons.prems assms(1) show ?case by (auto simp: dhas_def)
qed

lemma delete_jobs_loop_jobsets: "s_jobsets (snd (delete_jobs_loop j ks s)) = s_jobsets s"
proof (induction ks arbitrary: s)
  case Nil
  then show ?case by simp
next
  case (Cons k ks)
  show ?case
  proof (cases "drop_rec j k s")
    case (Pair old s')
    with Cons.IH [of s'] Cons.IH [of s] drop_rec_Some(2) [of j k s _ s'] show ?thesis
      by (cases old) (auto split: prod.splits)
  qed
qed

lemma local_create_jobs_ok:
  assumes inv: "store_inv s" and "local_create_jobs now j rs s = (res, t)"
  shows "case res of
      Inl e \<Rightarrow> t = s
    | Inr out \<Rightarrow> store_inv t \<and> (rs = [] \<or> intended t j = max (intended s j) (int (length (jobs_of t j)))) \<and>
        (\<forall>r\<in>set rs. dget (jobs_of s j) (jr_job_key r) = None \<and>
                     dget (jobs_of t j) (jr_job_key r) = Some (stamped (now 0) r)) \<and>
        (\<forall>k. k \<in> jr_job_key ` set rs \<or> dget (jobs_of t j) k = dget (jobs_of s j) k)"
proof (cases "rs = [] \<or> \<not> dhas (s_jobsets s) j \<or> check_records j rs [] \<noteq> None
    \<or> list_ex (\<lambda>r. dhas (get_jobs_by_keys j (map jr_job_key rs) s) (jr_job_key r)) rs")
  case True
  with assms show ?thesis
    by (auto simp: local_create_jobs_def get_jobset_def dhas_def Let_def split: option.splits if_splits)
next
  case False
  then have has: "dhas (s_jobsets s) j" and chk: "check_records j rs [] = None" and ne: "rs \<noteq> []"
    and new: "\<forall>r\<in>set rs. \<not> dhas (get_jobs_by_keys j (map jr_job_key rs) s) (jr_job_key r)"
    by (auto simp: list_ex_iff)
  note recs = check_records_None [OF chk]
  have free: "dget (jobs_of s j) (jr_job_key r) = None" if "r \<in> set rs" for r
    using new that by (simp add: dhas_def get_jobs_by_keys_get [OF inv])
  obtain js where js: "dget (s_jobsets s) j = Some js" using has by (auto simp: dhas_def)
  let ?s1 = "fold (\<lambda>r. put_rec (stamped (now 0) r)) rs s"
  have "add_jobs_check rs [] s = None"
    using recs free by (intro add_jobs_check_ok [OF has]) auto
  then have add: "store_add_jobs (now 0) rs s = (Inr (map (stamped (now 0)) rs), ?s1)"
    by (simp add: store_add_jobs_def)
  have s1: "store_inv ?s1" "s_jobsets ?s1 = s_jobsets s"
    using put_all_inv [OF inv, of rs "now 0"] recs has by auto
  have js1: "dget (s_jobsets ?s1) j = Some js" using js s1 by simp
  let ?n = "int (length (jobs_of ?s1 j))"
  obtain t2 where t2: "update_jobset (js\<lparr>jset_intended_count := ?n\<rparr>) ?s1 = (Inr (js\<lparr>jset_intended_count := ?n\<rparr>), t2)"
    "only_count_changed j ?s1 t2" "intended t2 j = ?n"
    using set_count [OF s1(1) js1, of ?n] by blast
  have run: "res = Inr (map (stamped (now 0)) rs) \<and> t = (if ?n > jset_intended_count js then t2 else ?s1)"
    using assms(2) ne chk new js js1 add t2(1)
    by (auto simp: local_create_jobs_def get_jobset_def count_jobs_def Let_def list_ex_iff oread_def split: if_splits)
  have jobs: "jobs_of t = jobs_of ?s1" using run only_count_changed_jobs [OF t2(2)] by simp
  have found: "find (\<lambda>q. jr_job_key q = jr_job_key r) rs = Some r" if "r \<in> set rs" for r
    using that recs by (induction rs) auto
  have "dget (jobs_of t j) (jr_job_key r) = Some (stamped (now 0) r)" if "r \<in> set rs" for r
    using put_all_get [of rs j "now 0" s "jr_job_key r"] recs that found [OF that] by (simp add: jobs)
  moreover have "k \<in> jr_job_key ` set rs \<or> dget (jobs_of t j) k = dget (jobs_of s j) k" for k
    using put_all_get [of rs j "now 0" s k] recs
    by (cases "find (\<lambda>r. jr_job_key r = k) rs") (auto simp: jobs find_Some_iff)
  moreover have "intended t j = max (intended s j) (int (length (jobs_of t j)))"
    unfolding jobs using run t2(3) js js1 by (auto simp: intended_def)
  moreover have "store_inv t" using run s1(1) t2(2) by (simp add: only_count_changed_def)
  ultimately show ?thesis using run free by auto
qed

lemma delete_jobs_ok:
  assumes inv: "store_inv s" and has: "dhas (s_jobsets s) j" and "delete_jobs j targets force s = (res, t)"
  shows "case res of
      Inl e \<Rightarrow> t = s
    | Inr out \<Rightarrow> store_inv t \<and> intended t j = int (length (jobs_of t j)) \<and>
        (force \<or> list_all (\<lambda>r. is_inactive (jr_state r)) targets) \<and>
        (\<forall>k. dget (jobs_of t j) k = (if k \<in> jr_job_key ` set targets then None else dget (jobs_of s j) k)) \<and>
        set out = {r. \<exists>k\<in>jr_job_key ` set targets. dget (jobs_of s j) k = Some r} \<and>
        (\<forall>i. i = j \<or> (\<forall>k. dget (jobs_of t i) k = dget (jobs_of s i) k))"
proof (cases "busy_keys targets \<noteq> [] \<and> \<not> force")
  case True
  with assms(3) show ?thesis by (auto simp: delete_jobs_def)
next
  case False
  obtain out s1 where s1: "store_delete_jobs j (map jr_job_key targets) s = (out, s1)" by fastforce
  have base: "base_delete_jobs store_delete_job j (map jr_job_key targets) s = (Inr out, s1)"
    using delete_jobs_loop_missing [of s j "map jr_job_key targets"] s1
    by (auto simp: delete_jobs_loop_base store_delete_jobs_def split: if_splits)
  have tot: "store_inv s1"
    "\<forall>j' k'. get_job j' k' s1 = (if j' = j \<and> k' \<in> jr_job_key ` set targets then Inl (JobNotFoundError j k') else get_job j' k' s)"
    "set out = {r. \<exists>k\<in>jr_job_key ` set targets. get_job j k s = Inr r}"
    using mem.delete_jobs_total [OF inv, of j "map jr_job_key targets"] base by auto
  have same: "s_jobsets s1 = s_jobsets s"
    using s1 delete_jobs_loop_jobsets [of j "map jr_job_key targets" s]
    by (auto simp: store_delete_jobs_def split: if_splits)
  have get: "dget (jobs_of s1 i) k = (if i = j \<and> k \<in> jr_job_key ` set targets then None else dget (jobs_of s i) k)" for i k
    using tot(2) [rule_format, of i k] by (auto simp: get_job_def split: option.splits if_splits)
  obtain t2 where t2: "sync_intended_count j s1 = (Inr (), t2)" "only_count_changed j s1 t2"
      "intended t2 j = int (length (jobs_of t2 j))"
    using sync_intended_count_ok [OF tot(1), of j] has same by auto
  have "res = Inr out" "t = t2"
    using assms(3) False s1 t2(1) by (auto simp: delete_jobs_def)
  moreover have "jobs_of t2 = jobs_of s1" by (rule only_count_changed_jobs [OF t2(2)])
  moreover have "store_inv t2" using t2(2) by (simp add: only_count_changed_def)
  moreover have "force \<or> list_all (\<lambda>r. is_inactive (jr_state r)) targets"
    using False by (auto simp: busy_keys_def filter_empty_conv list_all_iff)
  ultimately show ?thesis using t2(3) get tot(3) by (auto simp: get_job_iff)
qed

lemma dvalues_I: "dget d k = Some r \<Longrightarrow> r \<in> set (dvalues d)"
  by (induction d) (auto split: if_splits)

lemma pick_targets_Inr:
  "pick_targets j d ks = Inr rs \<Longrightarrow>
     (\<forall>k\<in>set ks. \<exists>r\<in>set rs. dget d k = Some r) \<and> (\<forall>r\<in>set rs. \<exists>k\<in>set ks. dget d k = Some r)"
proof (induction ks arbitrary: rs)
  case Nil
  then show ?case by simp
next
  case (Cons k ks)
  then obtain r rest where "dget d k = Some r" "pick_targets j d ks = Inr rest" "rs = r # rest"
    by (auto simp: ebind_eq_Inr split: option.splits)
  with Cons.IH [of rest] show ?case by simp
qed

lemma local_remove_jobs_ok:
  assumes inv: "store_inv s" and "local_remove_jobs j ks force s = (res, t)"
  shows "case res of
      Inl e \<Rightarrow> t = s
    | Inr out \<Rightarrow> store_inv t \<and> intended t j = int (length (jobs_of t j)) \<and>
        (\<forall>k\<in>set ks. \<exists>r. dget (jobs_of s j) k = Some r \<and> (force \<or> is_inactive (jr_state r))) \<and>
        (\<forall>k. dget (jobs_of t j) k = (if k \<in> set ks then None else dget (jobs_of s j) k)) \<and>
        set out = {r. \<exists>k\<in>set ks. dget (jobs_of s j) k = Some r} \<and>
        (\<forall>i. i = j \<or> (\<forall>k. dget (jobs_of t i) k = dget (jobs_of s i) k))"
proof (cases "ks = [] \<or> \<not> dhas (s_jobsets s) j")
  case True
  with assms(2) show ?thesis by (auto simp: local_remove_jobs_def get_jobset_def dhas_def split: if_splits)
next
  case False
  then have has: "dhas (s_jobsets s) j" by simp
  show ?thesis
  proof (cases "pick_targets j (get_jobs_by_keys j ks s) ks")
    case (Inl e)
    with False assms(2) have "res = Inl e \<and> t = s"
      by (auto simp: local_remove_jobs_def get_jobset_def dhas_def)
    then show ?thesis by simp
  next
    case (Inr targets)
    note picked = pick_targets_Inr [OF Inr]
    have found: "dget (jobs_of s j) k = Some r \<and> jr_job_key r = k"
      if "k \<in> set ks" "dget (get_jobs_by_keys j ks s) k = Some r" for k r
      using that jobs_of_job(2) [OF inv, of j k r] by (simp add: get_jobs_by_keys_get [OF inv])
    have zipped: "\<exists>r\<in>set targets. dget (jobs_of s j) k = Some r \<and> jr_job_key r = k" if "k \<in> set ks" for k
      using picked found that by blast
    have backward: "\<exists>k\<in>set ks. jr_job_key r = k" if "r \<in> set targets" for r
      using picked found that by blast
    have keys: "jr_job_key ` set targets = set ks"
      using zipped backward by blast
    have "delete_jobs j targets force s = (res, t)"
      using False assms(2) Inr by (auto simp: local_remove_jobs_def get_jobset_def dhas_def)
    note del = delete_jobs_ok [OF inv has this, unfolded keys]
    have "\<exists>r. dget (jobs_of s j) k = Some r \<and> (force \<or> is_inactive (jr_state r))"
      if "force \<or> list_all (\<lambda>r. is_inactive (jr_state r)) targets" "k \<in> set ks" for k
      using zipped [OF that(2)] that(1) by (auto simp: list_all_iff)
    with del show ?thesis by (cases res) simp_all
  qed
qed

lemma local_clear_jobs_ok:
  assumes inv: "store_inv s" and "local_clear_jobs j force s = (res, t)"
  shows "case res of
      Inl e \<Rightarrow> t = s
    | Inr out \<Rightarrow> store_inv t \<and> intended t j = 0 \<and> jobs_of t j = [] \<and>
        (\<forall>k r. dget (jobs_of s j) k = Some r \<longrightarrow> force \<or> is_inactive (jr_state r)) \<and>
        set out = set (dvalues (jobs_of s j))"
proof (cases "dhas (s_jobsets s) j")
  case False
  with assms(2) show ?thesis by (auto simp: local_clear_jobs_def get_jobs_def)
next
  case True
  let ?all = "dvalues (jobs_of s j)"
  have "delete_jobs j ?all force s = (res, t)"
    using True assms(2) by (simp add: local_clear_jobs_def get_jobs_def)
  note del = delete_jobs_ok [OF inv True this]
  have keys: "k \<in> jr_job_key ` set ?all \<longleftrightarrow> dget (jobs_of s j) k \<noteq> None" for k
  proof
    assume "k \<in> jr_job_key ` set ?all"
    then obtain r where "r \<in> set ?all" and "jr_job_key r = k" by blast
    then show "dget (jobs_of s j) k \<noteq> None" using dvalues_job_iff [OF inv, of r j] by simp
  next
    assume "dget (jobs_of s j) k \<noteq> None"
    then obtain r where r: "dget (jobs_of s j) k = Some r" by blast
    then have "jr_job_key r = k" by (rule jobs_of_job(2) [OF inv])
    then show "k \<in> jr_job_key ` set ?all" using r dvalues_job_iff [OF inv, of r j] by blast
  qed
  show ?thesis
  proof (cases res)
    case (Inl e)
    with del show ?thesis by simp
  next
    case (Inr out)
    with del have gone: "dget (jobs_of t j) k = None" for k using keys by auto
    then have "jobs_of t j = []" by (metis list.exhaust map_of.simps(2) option.distinct(1) prod.collapse fun_upd_same)
    moreover have "set out = set ?all"
    proof (rule set_eqI)
      fix r
      have "set out = {r. \<exists>k\<in>jr_job_key ` set ?all. dget (jobs_of s j) k = Some r}" using del Inr by simp
      then have "r \<in> set out \<longleftrightarrow> (\<exists>k. dget (jobs_of s j) k = Some r)"
        unfolding Bex_def keys by auto
      then show "r \<in> set out \<longleftrightarrow> r \<in> set ?all"
        using dvalues_job_iff [OF inv, of r j] jobs_of_job(2) [OF inv, of j _ r] by blast
    qed
    moreover have "force \<or> is_inactive (jr_state r)" if "dget (jobs_of s j) k = Some r" for k r
      using del Inr that dvalues_job_iff [OF inv, of r j] jobs_of_job(2) [OF inv that]
      by (auto simp: list_all_iff)
    ultimately show ?thesis using del Inr by auto
  qed
qed

lemma local_remove_jobset_ok:
  assumes "store_inv s" and "local_remove_jobset j force s = (res, t)"
  shows "case res of
      Inl e \<Rightarrow> t = s
    | Inr js \<Rightarrow> get_jobset j s = Inr js \<and> t = store_delete_jobset j s \<and>
        (\<forall>k r. dget (jobs_of s j) k = Some r \<longrightarrow> force \<or> is_terminal (jr_state r))"
proof (cases "get_jobset j s")
  case (Inl e)
  with assms(2) have "res = Inl e \<and> t = s" by (simp add: local_remove_jobset_def)
  then show ?thesis by simp
next
  case (Inr js)
  then have "get_jobs j None s = Inr (dvalues (jobs_of s j))"
    by (simp add: get_jobs_def get_jobset_iff dhas_def)
  moreover have "r \<in> set (dvalues (jobs_of s j))" if "dget (jobs_of s j) k = Some r" for k r
    using that by (rule dvalues_I)
  moreover have "local_remove_jobset j force s =
      (let nt = filter (\<lambda>r. \<not> is_terminal (jr_state r)) (dvalues (jobs_of s j))
       in if nt \<noteq> [] \<and> \<not> force then (Inl (RemoveJobSetNotAllowedError j (map jr_job_key nt)), s)
          else (Inr js, store_delete_jobset j s))"
    using Inr calculation(1) by (simp add: local_remove_jobset_def Let_def)
  ultimately show ?thesis
    using assms(2) by (auto simp: Let_def filter_empty_conv Inr split: if_splits)
qed

lemma rejected_outcome:
  assumes "isl (fst m)" and "\<And>res t. m = (res, t) \<Longrightarrow> case res of Inl e \<Rightarrow> t = s | Inr x \<Rightarrow> Q x t"
  shows "snd m = s"
proof (cases m)
  case (Pair res t)
  with assms(1) assms(2) [OF Pair] show ?thesis by (cases res) simp_all
qed

section \<open>Properties of jobset operations\<close>

lemma build_loop_Inr:
  assumes "build_loop fresh i j items = Inr rs"
  shows "list_all2 (\<lambda>(item, key, ud, cwd) r. \<exists>argv n. item_argv item = Inr argv \<and> argv \<noteq> [] \<and>
     r = make_record j argv key ud cwd (fresh n)) items rs"
  using assms
proof (induction items arbitrary: i rs)
  case Nil
  then show ?case by simp
next
  case (Cons x items)
  obtain item key ud cwd where x: "x = (item, key, ud, cwd)" by (cases x)
  from Cons.prems x obtain argv rest where "item_argv item = Inr argv" "argv \<noteq> []"
    "build_loop fresh (Suc i) j items = Inr rest" "rs = make_record j argv key ud cwd (fresh i) # rest"
    by (auto simp: ebind_eq_Inr split: if_splits)
  with Cons.IH [of "Suc i" rest] x show ?case by auto
qed

text \<open>
  Commands survive. When \<open>build_records\<close> accepts a list of commands, it makes one
  CREATED record per command, in order, with distinct keys; and splitting the command text
  stored in a record gives exactly the argument vector of the caller's command.
\<close>

theorem build_records_keep_commands:
  assumes "build_records fresh j (Commands items) keys uds wd wds = Inr rs"
  shows "length rs = length items \<and> distinct (map jr_job_key rs) \<and>
     list_all2 (\<lambda>item r. shlex_split (jr_command r) = item_argv item \<and> jr_state r = CREATED \<and>
                         jr_jobset_id r = j \<and> jr_job_id r = None) items rs"
proof (cases "items = []")
  case True
  with assms show ?thesis by (simp add: build_records_def)
next
  case False
  with assms obtain ks us ws where z: "length ks = length items" "length us = length items" "length ws = length items"
    "build_loop fresh 0 j (zip items (zip ks (zip us ws))) = Inr rs" "check_records j rs [] = None"
    by (auto simp: build_records_def Let_def ebind_eq_Inr simp del: zip_replicate split: option.splits if_splits)
      (metis length_replicate)+
  have made: "shlex_split (jr_command r) = item_argv item \<and> jr_state r = CREATED \<and> jr_jobset_id r = j \<and> jr_job_id r = None"
    if "item_argv item = Inr argv" "r = make_record j argv key ud cwd uid" for item r argv key ud cwd uid
    using that by (simp add: make_record_def shlex_split_join)
  note loop = build_loop_Inr [OF z(4)]
  have len: "length rs = length items"
    using list_all2_lengthD [OF loop] z(1-3) by simp
  have "list_all2 (\<lambda>item r. shlex_split (jr_command r) = item_argv item \<and> jr_state r = CREATED \<and>
      jr_jobset_id r = j \<and> jr_job_id r = None) items rs"
    using loop z(1-3) made len by (fastforce simp: list_all2_conv_all_nth)
  with len check_records_None [OF z(5)] show ?thesis by simp
qed

theorem build_records_keep_commands_witness:
  "\<exists>rs. build_records (\<lambda>i. ''u'') ''js'' (Commands [CmdStr ''bsub -q n run'', CmdWords [''echo'', ''a b'']])
       (Some [''k1'', ''k2'']) None None None = Inr rs \<and>
     map (\<lambda>r. shlex_split (jr_command r)) rs = [Inr [''bsub'', ''-q'', ''n'', ''run''], Inr [''echo'', ''a b'']]"
proof -
  let ?b = "build_records (\<lambda>i. ''u'') ''js'' (Commands [CmdStr ''bsub -q n run'', CmdWords [''echo'', ''a b'']])
       (Some [''k1'', ''k2'']) None None None"
  have "\<not> isl ?b" by code_simp
  then obtain rs where rs: "?b = Inr rs" by (cases ?b) auto
  have split: "shlex_split ''bsub -q n run'' = Inr [''bsub'', ''-q'', ''n'', ''run'']" by code_simp
  from build_records_keep_commands [OF rs] rs split show ?thesis
    by (auto simp: list_all2_Cons1)
qed

text \<open>
  C4: All or nothing. A create, edit, remove, clear or remove-jobset call that raises leaves
  the store exactly as it was: every check comes before the first write.
\<close>

theorem rejected_calls_change_nothing:
  assumes "store_reach s"
  shows "(isl (fst (local_create_jobs now j rs s)) \<longrightarrow> snd (local_create_jobs now j rs s) = s) \<and>
     (isl (fst (local_edit_jobs now j rs policy force s)) \<longrightarrow> snd (local_edit_jobs now j rs policy force s) = s) \<and>
     (isl (fst (local_remove_jobs j ks force s)) \<longrightarrow> snd (local_remove_jobs j ks force s) = s) \<and>
     (isl (fst (local_clear_jobs j force s)) \<longrightarrow> snd (local_clear_jobs j force s) = s) \<and>
     (isl (fst (local_remove_jobset j force s)) \<longrightarrow> snd (local_remove_jobset j force s) = s)"
  by (intro conjI impI; erule rejected_outcome)
    (erule local_create_jobs_ok [OF store_reach_inv [OF assms]]
        local_edit_jobs_ok [OF store_reach_inv [OF assms]]
        local_remove_jobs_ok [OF store_reach_inv [OF assms]]
        local_clear_jobs_ok [OF store_reach_inv [OF assms]]
        local_remove_jobset_ok [OF store_reach_inv [OF assms]])+

theorem rejected_calls_change_nothing_witness:
  "fst (local_remove_jobs ''js'' [''b'', ''a''] False demo_store) = Inl (RemoveNotAllowedError ''js'' [''a'']) \<and>
   snd (local_remove_jobs ''js'' [''b'', ''a''] False demo_store) = demo_store"
proof -
  have e: "fst (local_remove_jobs ''js'' [''b'', ''a''] False demo_store) = Inl (RemoveNotAllowedError ''js'' [''a''])"
    by code_simp
  with rejected_calls_change_nothing [OF demo_store_reach, where j = "''js''" and ks = "[''b'', ''a'']" and force = False]
  show ?thesis by simp
qed

text \<open>
  C5: Edits. A successful add, replace or upsert returns the written records in order, each
  with the caller's content; they are what the store now holds for their keys; no other key
  of the jobset and no other jobset changes; the intended count is the number of records;
  and without \<open>force\<close> no replaced record was active.
\<close>

theorem edit_writes_exactly_the_records:
  assumes "store_reach s" and "local_edit_jobs now j rs policy force s = (Inr out, t)"
  shows "list_all2 rewritten rs out \<and> (\<forall>w\<in>set out. get_job j (jr_job_key w) t = Inr w) \<and>
     (\<forall>k. k \<in> jr_job_key ` set rs \<or> get_job j k t = get_job j k s) \<and>
     (\<forall>i. i = j \<or> jobs_of t i = jobs_of s i) \<and>
     intended t j = int (length (jobs_of t j)) \<and>
     (force \<or> (\<forall>r\<in>set rs. case get_job j (jr_job_key r) s of Inl _ \<Rightarrow> True | Inr old \<Rightarrow> is_inactive (jr_state old)))"
proof -
  note ok = local_edit_jobs_ok [OF store_reach_inv [OF assms(1)] assms(2), simplified]
  have "case get_job j (jr_job_key r) s of Inl _ \<Rightarrow> True | Inr old \<Rightarrow> is_inactive (jr_state old)"
    if "\<not> force" "r \<in> set rs" for r
    using ok that by (auto simp: get_job_def split: option.splits)
  moreover have "get_job j k t = get_job j k s" if "k \<notin> jr_job_key ` set rs" for k
    using ok that unfolding get_job_def by metis
  ultimately show ?thesis using ok by (auto simp: get_job_iff)
qed

theorem edit_writes_exactly_the_records_witness:
  "\<exists>out t. local_edit_jobs (\<lambda>_. 7) ''js'' [demo_rec ''b'' CREATED, demo_rec ''d'' CREATED] PUpsert False demo_store
      = (Inr out, t) \<and> intended t ''js'' = 4 \<and> get_job ''js'' ''a'' t = get_job ''js'' ''a'' demo_store"
proof -
  let ?r = "local_edit_jobs (\<lambda>_. 7) ''js'' [demo_rec ''b'' CREATED, demo_rec ''d'' CREATED] PUpsert False demo_store"
  have "\<not> isl (fst ?r)" by code_simp
  then obtain out t where r: "?r = (Inr out, t)" by (cases ?r; cases "fst ?r") auto
  have "length (jobs_of (snd ?r) ''js'') = 4" by code_simp
  with r have n: "length (jobs_of t ''js'') = 4" by simp
  have "''a'' \<notin> jr_job_key ` set [demo_rec ''b'' CREATED, demo_rec ''d'' CREATED]" by (simp add: demo_rec_def)
  with edit_writes_exactly_the_records [OF demo_store_reach r] n r show ?thesis by auto
qed

text \<open>
  C6: Removal. A successful \<open>remove_jobs\<close> found every requested key, removed exactly those
  records (and returned them), left every other record of every jobset, set the intended
  count to the number of remaining records, and without \<open>force\<close> removed no active job.
\<close>

theorem remove_jobs_exact:
  assumes "store_reach s" and "local_remove_jobs j ks force s = (Inr out, t)"
  shows "set out = {r. \<exists>k\<in>set ks. get_job j k s = Inr r} \<and>
     (\<forall>k\<in>set ks. \<exists>r. get_job j k s = Inr r \<and> (force \<or> is_inactive (jr_state r))) \<and>
     (\<forall>i k. get_job i k t = (if i = j \<and> k \<in> set ks then Inl (JobNotFoundError j k) else get_job i k s)) \<and>
     intended t j = int (length (jobs_of t j))"
proof -
  note ok = local_remove_jobs_ok [OF store_reach_inv [OF assms(1)] assms(2), simplified]
  have "get_job i k t = (if i = j \<and> k \<in> set ks then Inl (JobNotFoundError j k) else get_job i k s)" for i k
  proof (cases "i = j")
    case True
    with ok show ?thesis by (auto simp: get_job_def)
  next
    case False
    with ok have "dget (jobs_of t i) k = dget (jobs_of s i) k" by blast
    with False show ?thesis by (simp add: get_job_def)
  qed
  with ok show ?thesis by (auto simp: get_job_iff)
qed

theorem remove_jobs_exact_witness:
  "\<exists>out t. local_remove_jobs ''js'' [''b''] False demo_store = (Inr out, t) \<and>
     get_job ''js'' ''b'' t = Inl (JobNotFoundError ''js'' ''b'') \<and> intended t ''js'' = 2"
proof -
  let ?r = "local_remove_jobs ''js'' [''b''] False demo_store"
  have "\<not> isl (fst ?r)" by code_simp
  then obtain out t where r: "?r = (Inr out, t)" by (cases ?r; cases "fst ?r") auto
  have "length (jobs_of (snd ?r) ''js'') = 2" by code_simp
  with remove_jobs_exact [OF demo_store_reach r] r show ?thesis by simp
qed

lemma get_index_by:
  "dget (fold (\<lambda>r d. dset (f r) r d) rs d) k = (case find (\<lambda>r. f r = k) (rev rs) of Some r \<Rightarrow> Some r | None \<Rightarrow> dget d k)"
proof (induction rs arbitrary: d)
  case Nil
  then show ?case by simp
next
  case (Cons r rs)
  have "find P (xs @ ys) = (case find P xs of Some x \<Rightarrow> Some x | None \<Rightarrow> find P ys)" for P and xs ys :: "'a list"
    by (induction xs) auto
  with Cons show ?case by (auto split: option.splits)
qed

lemma index_by_Some: "dget (index_by f rs) k = Some r \<Longrightarrow> r \<in> set rs \<and> f r = k"
  by (auto simp: index_by_def get_index_by find_Some_iff split: option.splits)
    (metis nth_mem set_rev length_rev)+

lemma resolve_loop_Inr:
  assumes "resolve_loop j jobs by_key by_jid refs seen = Inr out"
    and "\<And>k r. dget by_key k = Some r \<Longrightarrow> P r" and "\<And>i r. dget by_jid i = Some r \<Longrightarrow> P r"
  shows "(\<forall>r\<in>set out. P r) \<and> distinct (map jr_job_key out) \<and> set seen \<inter> jr_job_key ` set out = {} \<and>
     (\<forall>ref\<in>set refs. \<exists>r. (case ref of RefId i \<Rightarrow> dget by_jid (Some i) = Some r | RefKey k \<Rightarrow> dget by_key k = Some r)
        \<and> jr_job_key r \<in> set seen \<union> jr_job_key ` set out)"
  using assms(1)
proof (induction refs arbitrary: seen out)
  case Nil
  then show ?case by simp
next
  case (Cons ref refs)
  let ?found = "case ref of RefId i \<Rightarrow> dget by_jid (Some i) | RefKey k \<Rightarrow> dget by_key k"
  obtain r where r: "?found = Some r" using Cons.prems by (cases ?found) (auto split: if_splits)
  have P: "P r" using r assms(2,3) by (auto split: job_ref.splits)
  have here: "case ref of RefId i \<Rightarrow> dget by_jid (Some i) = Some r | RefKey k \<Rightarrow> dget by_key k = Some r"
    using r by (cases ref) auto
  show ?case
  proof (cases "jr_job_key r \<in> set seen")
    case True
    with Cons r have "resolve_loop j jobs by_key by_jid refs seen = Inr out" by simp
    from Cons.IH [OF this] True here show ?thesis by auto
  next
    case False
    with Cons.prems r obtain out' where out: "resolve_loop j jobs by_key by_jid refs (jr_job_key r # seen) = Inr out'"
      "out = r # out'" by (auto simp: ebind_eq_Inr)
    note IH = Cons.IH [OF out(1)]
    then have "jr_job_key r \<notin> jr_job_key ` set out'" by auto
    with IH False here P out(2) show ?thesis by fastforce
  qed
qed

lemma resolve_refs_stored:
  assumes inv: "store_inv s" and "resolve_refs j refs s = Inr out"
  shows "(\<forall>r\<in>set out. get_job j (jr_job_key r) s = Inr r) \<and> distinct (map jr_job_key out)"
proof -
  let ?P = "\<lambda>r. get_job j (jr_job_key r) s = Inr r"
  obtain rs where rs: "refs = Refs rs" using assms(2) by (cases refs) (auto simp: resolve_refs_def)
  have stored: "?P r" if "r \<in> set (dvalues (jobs_of s j))" for r
    using that dvalues_job_iff [OF inv, of r j] by (simp add: get_job_iff)
  show ?thesis
  proof (cases "list_ex is_id_ref rs")
    case True
    with assms(2) rs obtain jobs where jobs: "jobs = dvalues (jobs_of s j)"
      "resolve_loop j jobs (index_by jr_job_key jobs) (parent_index jobs) rs [] = Inr out"
      by (auto simp: resolve_refs_def ebind_eq_Inr get_jobs_Inr)
    have "?P r" if "dget (index_by jr_job_key jobs) k = Some r" for k r
      using index_by_Some [OF that] jobs(1) stored by blast
    moreover have "?P r" if "dget (parent_index jobs) i = Some r" for i r
      using index_by_Some [OF that [unfolded parent_index_def]] jobs(1) stored by auto
    ultimately show ?thesis using resolve_loop_Inr [OF jobs(2), of ?P] by blast
  next
    case False
    with assms(2) rs have run: "resolve_loop j [] (get_jobs_by_keys j (key_refs rs) s) (parent_index []) rs [] = Inr out"
      by (auto simp: resolve_refs_def ebind_eq_Inr)
    have "?P r" if "dget (get_jobs_by_keys j (key_refs rs) s) k = Some r" for k r
      using that jobs_of_job(2) [OF inv, of j k r]
      by (simp add: get_jobs_by_keys_get [OF inv] get_job_iff split: if_splits)
    moreover have "?P r" if "dget (parent_index []) i = Some r" for i r
      using that by (simp add: parent_index_def index_by_def)
    ultimately show ?thesis using resolve_loop_Inr [OF run, of ?P] by blast
  qed
qed

text \<open>
  C7: Submit targets. What \<open>submit_targets\<close> returns is a non-empty selection of stored
  records with distinct keys, none of them an array element and none of them active.
\<close>

theorem submit_targets_ready:
  assumes "store_reach s" and "submit_targets j only s = Inr out"
  shows "out \<noteq> [] \<and> distinct (map jr_job_key out) \<and>
     list_all (\<lambda>r. get_job j (jr_job_key r) s = Inr r \<and> jr_array_index r = None \<and> is_inactive (jr_state r)) out"
proof -
  note inv = store_reach_inv [OF assms(1)]
  from assms(2) have chosen: "out \<noteq> []" "\<forall>r\<in>set out. jr_array_index r = None \<and> is_inactive (jr_state r)"
    "(case only of None \<Rightarrow> ebind (get_jobs j None s) (\<lambda>jobs. Inr (filter (\<lambda>r. jr_array_index r = None) jobs))
       | Some refs \<Rightarrow> resolve_refs j refs s) = Inr out"
    by (auto simp: submit_targets_def ebind_eq_Inr Let_def list_ex_iff filter_empty_conv split: if_splits)
  have "(\<forall>r\<in>set out. get_job j (jr_job_key r) s = Inr r) \<and> distinct (map jr_job_key out)"
  proof (cases only)
    case None
    with chosen(3) have "out = filter (\<lambda>r. jr_array_index r = None) (dvalues (jobs_of s j))"
      by (auto simp: ebind_eq_Inr get_jobs_Inr)
    with dvalues_job_iff [OF inv, of _ j] distinct_keys_of_values [OF inv, of j] show ?thesis
      by (auto simp: get_job_iff distinct_map_filter)
  next
    case (Some refs)
    with chosen(3) resolve_refs_stored [OF inv] show ?thesis by simp
  qed
  with chosen(1,2) show ?thesis by (auto simp: list_all_iff)
qed

theorem submit_targets_ready_witness:
  "\<exists>out. submit_targets ''js'' (Some (Refs [RefKey ''b'', RefKey ''b''])) demo_store = Inr out \<and>
     map jr_job_key out = [''b''] \<and> list_all (\<lambda>r. is_inactive (jr_state r)) out"
proof -
  let ?r = "submit_targets ''js'' (Some (Refs [RefKey ''b'', RefKey ''b''])) demo_store"
  have "\<not> isl ?r" and k: "map jr_job_key (projr ?r) = [''b'']" by code_simp+
  then obtain out where r: "?r = Inr out" by (cases ?r) auto
  from submit_targets_ready [OF demo_store_reach r] r k show ?thesis by (auto simp: list_all_iff)
qed

definition lost_candidate :: "JobRecord \<Rightarrow> bool" where
  "lost_candidate r \<longleftrightarrow> jr_job_id r = None \<and> jr_state r = SUBMITTING"

text \<open>
  Lost jobs. \<open>detect_lost\<close> marks exactly the jobs that are SUBMITTING without a job id:
  each of them becomes LOST, keeps its execution and its other fields, and has a fail reason;
  every other record of every jobset stays as it was.
\<close>

theorem detect_lost_exact:
  assumes "store_reach s" and "detect_lost now j s = (Inr out, t)"
  shows "\<forall>i k. (case get_job i k s of
       Inl e \<Rightarrow> get_job i k t = Inl e
     | Inr r \<Rightarrow> get_job i k t = Inr (if i = j \<and> lost_candidate r
         then transitioned r now (Some LOST)
                [FFailReason (Some (case jr_fail_reason r of Some (c # cs) \<Rightarrow> c # cs | _ \<Rightarrow> ''NO_JOBID_PARSED''))]
         else r))"
proof -
  note inv = store_reach_inv [OF assms(1)]
  define reason where "reason r = [FFailReason (case jr_fail_reason r of
      Some m \<Rightarrow> Some (if m = [] then ''NO_JOBID_PARSED'' else m) | None \<Rightarrow> Some ''NO_JOBID_PARSED'')]" for r :: JobRecord
  define sp where "sp r = (jr_job_key r, Some LOST,
      Some (\<lambda>cur. same_execution cur r \<and> jr_job_id cur = None \<and> jr_state cur = jr_state r), reason r)" for r
  define cs where "cs = filter lost_candidate (dvalues (jobs_of s j))"
  have cs: "filter (\<lambda>r. jr_job_id r = None \<and> jr_state r = SUBMITTING) (dvalues (jobs_of s j)) = cs"
    unfolding cs_def lost_candidate_def ..
  have has: "dhas (s_jobsets s) j"
    using assms(2) by (auto simp: detect_lost_def get_jobset_def dhas_def split: option.splits)
  then obtain js where "get_jobset j s = Inr js" by (auto simp: get_jobset_def dhas_def)
  with assms(2) has have run: "(if cs = [] then (Inr [], s) else store_transition_many now j (map sp cs) s) = (Inr out, t)"
    unfolding detect_lost_def sp_def reason_def by (simp add: get_jobs_def Let_def cs cong del: if_weak_cong)
  have fs: "\<not> list_ex (\<lambda>(_, _, _, fs). reject_key_fields fs) (map sp cs)"
    by (auto simp: list_ex_iff sp_def reason_def reject_key_fields_def split: option.splits)
  have dist: "distinct (map fst (map sp cs))"
  proof -
    have "map fst (map sp cs) = map jr_job_key cs" by (simp add: sp_def)
    moreover have "distinct (map jr_job_key cs)"
      unfolding cs_def by (rule distinct_map_filter [OF distinct_keys_of_values [OF inv]])
    ultimately show ?thesis by metis
  qed
  have t: "t = snd (transition_many_loop now j (map sp cs) s)"
    using run fs by (auto simp: store_transition_many_def transition_many_def split_beta split: if_splits)
  have mem: "r \<in> set cs \<longleftrightarrow> dget (jobs_of s j) (jr_job_key r) = Some r \<and> lost_candidate r" for r
    using dvalues_job_iff [OF inv, of r j] by (auto simp: cs_def)
  have sres: "spec_result now (jobs_of s j) (sp r) = Some (transitioned r now (Some LOST) (reason r))" if "r \<in> set cs" for r
    using that by (simp add: mem spec_result_def sp_def guard_ok_def lost_candidate_def)
  have get: "dget (jobs_of t i) k =
      (case find (\<lambda>q. i = j \<and> fst q = k) (map sp cs) of
         None \<Rightarrow> dget (jobs_of s i) k
       | Some q \<Rightarrow> (case spec_result now (jobs_of s j) q of None \<Rightarrow> dget (jobs_of s i) k | Some r \<Rightarrow> Some r))" for i k
    unfolding t using transition_many_loop_distinct [OF inv fs dist, of now j] by blast
  have hit: "find (\<lambda>q. fst q = k) (map sp cs) = Some (sp r)" if "dget (jobs_of s j) k = Some r" "lost_candidate r" for k r
  proof -
    have k: "jr_job_key r = k" by (rule jobs_of_job(2) [OF inv that(1)])
    then have "r \<in> set cs" using that mem by simp
    then obtain q where q: "find (\<lambda>q. fst q = k) (map sp cs) = Some q"
      using k by (cases "find (\<lambda>q. fst q = k) (map sp cs)") (auto simp: find_None_iff sp_def)
    then obtain r' where "r' \<in> set cs" "q = sp r'" "jr_job_key r' = k"
      by (auto simp: find_Some_iff sp_def) (metis nth_mem)
    moreover have "r' = r" using calculation mem [of r'] that(1) by simp
    ultimately show ?thesis using q by simp
  qed
  have miss: "find (\<lambda>q. i = j \<and> fst q = k) (map sp cs) = None"
    if "i \<noteq> j \<or> (\<forall>r. dget (jobs_of s j) k = Some r \<longrightarrow> \<not> lost_candidate r)" for i k
    unfolding find_None_iff using that mem by (auto simp: sp_def)
  have reason: "reason r = [FFailReason (Some (case jr_fail_reason r of Some (c # cs) \<Rightarrow> c # cs | _ \<Rightarrow> ''NO_JOBID_PARSED''))]" for r
    by (auto simp: reason_def split: option.splits list.splits)
  show ?thesis
  proof (intro allI)
    fix i k
    show "case get_job i k s of Inl e \<Rightarrow> get_job i k t = Inl e
     | Inr r \<Rightarrow> get_job i k t = Inr (if i = j \<and> lost_candidate r
         then transitioned r now (Some LOST)
                [FFailReason (Some (case jr_fail_reason r of Some (c # cs) \<Rightarrow> c # cs | _ \<Rightarrow> ''NO_JOBID_PARSED''))]
         else r)"
    proof (cases "dget (jobs_of s i) k")
      case None
      have "find (\<lambda>q. i = j \<and> fst q = k) (map sp cs) = None" by (rule miss) (use None in auto)
      then have "dget (jobs_of t i) k = None" using None by (simp only: get option.case)
      with None show ?thesis by (simp add: get_job_def)
    next
      case (Some r)
      show ?thesis
      proof (cases "i = j \<and> lost_candidate r")
        case True
        then have "r \<in> set cs" using Some mem jobs_of_job(2) [OF inv Some] by auto
        then show ?thesis
          using True Some hit [of k r] sres [of r] by (simp add: get_job_def get reason)
      next
        case False
        have "find (\<lambda>q. i = j \<and> fst q = k) (map sp cs) = None" by (rule miss) (use False Some in auto)
        then have "dget (jobs_of t i) k = Some r" using Some by (simp only: get option.case)
        moreover have "(if i = j \<and> lost_candidate r then x else r) = r" for x by (rule if_not_P [OF False])
        ultimately show ?thesis using Some by (simp only: get_job_def option.case sum.case)
      qed
    qed
  qed
qed

definition lost_store :: store where
  "lost_store = snd (store_add_job 6 (demo_rec ''d'' SUBMITTING) demo_store)"

theorem detect_lost_exact_witness:
  "\<exists>out t. detect_lost 9 ''js'' lost_store = (Inr out, t) \<and>
     get_job ''js'' ''d'' t = Inr (transitioned (stamped 6 (demo_rec ''d'' SUBMITTING)) 9 (Some LOST)
        [FFailReason (Some ''NO_JOBID_PARSED'')]) \<and>
     get_job ''js'' ''a'' t = get_job ''js'' ''a'' lost_store"
proof -
  have reach: "store_reach lost_store"
    unfolding lost_store_def by (rule store_reach.add_job [OF demo_store_reach])
  let ?r = "detect_lost 9 ''js'' lost_store"
  have "\<not> isl (fst ?r)" by code_simp
  then obtain out t where r: "?r = (Inr out, t)" by (cases ?r; cases "fst ?r") auto
  have d: "get_job ''js'' ''d'' lost_store = Inr (stamped 6 (demo_rec ''d'' SUBMITTING))" by code_simp
  have a: "get_job ''js'' ''a'' lost_store = Inr (stamped 5 (demo_rec ''a'' PEND))" by code_simp
  have l: "lost_candidate (stamped 6 (demo_rec ''d'' SUBMITTING))" "\<not> lost_candidate (stamped 5 (demo_rec ''a'' PEND))"
    "jr_fail_reason (stamped 6 (demo_rec ''d'' SUBMITTING)) = None" by code_simp+
  note ex = detect_lost_exact [OF reach r, rule_format, of "''js''"]
  from ex [of "''d''"] ex [of "''a''"] r show ?thesis by (simp add: d a l)
qed

end
