(* ===== verification/Lifecycle.thy ===== *)
theory Lifecycle
  imports Util "HOL-Library.Multiset"
begin

text \<open>
  \<open>lsfmgr/lifecycle.py\<close>: the submit gate, which gives kills priority over submit cycles. A
  cycle registers the keys it will submit; a kill raises a barrier over the jobset or over
  chosen keys and takes the list of activities registered at that instant. Each gate method
  runs under the gate's lock, so each is one atomic function.
\<close>

section \<open>The gate\<close>

text \<open>\<open>Scope\<close>: \<open>None\<close> is every job of the jobset.\<close>

type_synonym scope = "job_key set option"

fun in_scope :: "scope \<Rightarrow> job_key \<Rightarrow> bool" where
  "in_scope None k = True"
| "in_scope (Some ks) k = (k \<in> ks)"

text \<open>
  An activity holds the callbacks of one submit cycle; the cycle stands for them. Objects are
  compared by identity, the first component of a ledger entry.
\<close>

record activity =
  act_cycle :: nat
  act_timeout_s :: seconds

record Registration =
  rg_activity :: "activity entry option"
  rg_refused :: "job_key set"

record SubmitGate =
  g_activities :: "(jobset_id, activity) ledger"
  g_barriers :: "(jobset_id, scope) ledger"

definition new_SubmitGate :: SubmitGate where
  "new_SubmitGate = \<lparr> g_activities = [], g_barriers = [] \<rparr>"

text \<open>The loop over the barriers of \<open>register\<close>, with its early exit at a whole-jobset barrier.\<close>

fun refused_by :: "job_key set \<Rightarrow> scope list \<Rightarrow> job_key set \<Rightarrow> job_key set" where
  "refused_by want [] refused = refused"
| "refused_by want (None # scopes) refused = want"
| "refused_by want (Some ks # scopes) refused = refused_by want scopes (refused \<union> (want \<inter> ks))"

definition gate_register :: "jobset_id \<Rightarrow> job_key list \<Rightarrow> activity entry \<Rightarrow> SubmitGate
    \<Rightarrow> Registration \<times> SubmitGate" where
  "gate_register j keys act g =
     (let want = set keys;
          refused = refused_by want (map snd (ledger_get (g_barriers g) j)) {}
      in if want \<noteq> {} \<and> want \<subseteq> refused
         then (\<lparr> rg_activity = None, rg_refused = want \<rparr>, g)
         else (\<lparr> rg_activity = Some act, rg_refused = refused \<rparr>,
               g\<lparr>g_activities := ledger_add j act (g_activities g)\<rparr>))"

definition gate_unregister :: "jobset_id \<Rightarrow> activity entry option \<Rightarrow> SubmitGate \<Rightarrow> SubmitGate" where
  "gate_unregister j act g =
     (case act of
        None \<Rightarrow> g
      | Some (i, _) \<Rightarrow> g\<lparr>g_activities := ledger_remove j i (g_activities g)\<rparr>)"

definition barrier_up :: "jobset_id \<Rightarrow> scope entry \<Rightarrow> SubmitGate \<Rightarrow> activity entry list \<times> SubmitGate" where
  "barrier_up j sc g =
     (ledger_get (g_activities g) j, g\<lparr>g_barriers := ledger_add j sc (g_barriers g)\<rparr>)"

definition barrier_down :: "jobset_id \<Rightarrow> nat \<Rightarrow> SubmitGate \<Rightarrow> SubmitGate" where
  "barrier_down j i g = g\<lparr>g_barriers := ledger_remove j i (g_barriers g)\<rparr>"

section \<open>Kill scopes\<close>

text \<open>
  A kill scope keeps the scope object it raised, since the ledger removes by identity. The
  one \<open>None\<close> object has identity 0; every key set is an object of its own.
\<close>

record KillScope =
  ks_jobset_id :: jobset_id
  ks_keys :: scope
  ks_ident :: nat
  ks_acts :: "activity entry list option"

definition kill_scope :: "jobset_id \<Rightarrow> job_key list option \<Rightarrow> nat \<Rightarrow> KillScope" where
  "kill_scope j keys fresh =
     (case keys of
        None \<Rightarrow> \<lparr> ks_jobset_id = j, ks_keys = None, ks_ident = 0, ks_acts = None \<rparr>
      | Some ks \<Rightarrow> \<lparr> ks_jobset_id = j, ks_keys = Some (set ks), ks_ident = Suc fresh, ks_acts = None \<rparr>)"

text \<open>\<open>begin\<close> also returns the activities whose \<open>cancel(keys)\<close> it calls.\<close>

definition scope_begin :: "KillScope \<Rightarrow> SubmitGate \<Rightarrow> activity entry list \<times> KillScope \<times> SubmitGate" where
  "scope_begin sc g =
     (case ks_acts sc of
        Some _ \<Rightarrow> ([], sc, g)
      | None \<Rightarrow>
          (let (acts, g') = barrier_up (ks_jobset_id sc) (ks_ident sc, ks_keys sc) g
           in (acts, sc\<lparr>ks_acts := Some acts\<rparr>, g')))"

definition scope_acquire :: "(activity entry \<Rightarrow> scope \<Rightarrow> bool) \<Rightarrow> KillScope \<Rightarrow> SubmitGate
    \<Rightarrow> bool \<times> activity entry list \<times> KillScope \<times> SubmitGate" where
  "scope_acquire wait sc g =
     (let (cancelled, sc', g') = scope_begin sc g
      in (list_all (\<lambda>a. wait a (ks_keys sc')) (case ks_acts sc' of None \<Rightarrow> [] | Some acts \<Rightarrow> acts),
          cancelled, sc', g'))"

definition scope_release :: "KillScope \<Rightarrow> SubmitGate \<Rightarrow> KillScope \<times> SubmitGate" where
  "scope_release sc g =
     (case ks_acts sc of
        None \<Rightarrow> (sc, g)
      | Some _ \<Rightarrow> (sc\<lparr>ks_acts := None\<rparr>, barrier_down (ks_jobset_id sc) (ks_ident sc) g))"

section \<open>The gate among its clients\<close>

text \<open>
  The gate with the kill scopes made so far and, for each registered activity, the keys its
  registration accepted. A step is one call of a client, in any order.
\<close>

record gate_world =
  gw_gate :: SubmitGate
  gw_scopes :: "KillScope list"
  gw_accepted :: "nat \<Rightarrow> job_key set"
  gw_next :: nat

definition world_register :: "jobset_id \<Rightarrow> job_key list \<Rightarrow> activity \<Rightarrow> gate_world \<Rightarrow> gate_world" where
  "world_register j keys a w =
     (let (reg, g') = gate_register j keys (gw_next w, a) (gw_gate w)
      in w\<lparr>gw_gate := g', gw_accepted := (gw_accepted w)(gw_next w := set keys - rg_refused reg),
           gw_next := Suc (gw_next w)\<rparr>)"

definition world_begin :: "nat \<Rightarrow> gate_world \<Rightarrow> gate_world" where
  "world_begin n w =
     (let (_, sc', g') = scope_begin (gw_scopes w ! n) (gw_gate w)
      in w\<lparr>gw_gate := g', gw_scopes := (gw_scopes w)[n := sc']\<rparr>)"

definition world_release :: "nat \<Rightarrow> gate_world \<Rightarrow> gate_world" where
  "world_release n w =
     (let (sc', g') = scope_release (gw_scopes w ! n) (gw_gate w)
      in w\<lparr>gw_gate := g', gw_scopes := (gw_scopes w)[n := sc']\<rparr>)"

inductive gate_reach :: "gate_world \<Rightarrow> bool" where
  start: "gate_reach \<lparr> gw_gate = new_SubmitGate, gw_scopes = [], gw_accepted = (\<lambda>_. {}), gw_next = 0 \<rparr>"
| register: "gate_reach w \<Longrightarrow> gate_reach (world_register j keys a w)"
| unregister: "gate_reach w \<Longrightarrow> gate_reach (w\<lparr>gw_gate := gate_unregister j act (gw_gate w)\<rparr>)"
| new_scope: "gate_reach w \<Longrightarrow>
    gate_reach (w\<lparr>gw_scopes := gw_scopes w @ [kill_scope j keys (gw_next w)], gw_next := Suc (gw_next w)\<rparr>)"
| begin_scope: "gate_reach w \<Longrightarrow> n < length (gw_scopes w) \<Longrightarrow> gate_reach (world_begin n w)"
| release_scope: "gate_reach w \<Longrightarrow> n < length (gw_scopes w) \<Longrightarrow> gate_reach (world_release n w)"

text \<open>The scopes of a jobset whose barrier is up, and the invariant of the reachable states.\<close>

definition up_scopes :: "KillScope list \<Rightarrow> jobset_id \<Rightarrow> scope entry list" where
  "up_scopes scs j = map (\<lambda>sc. (ks_ident sc, ks_keys sc))
     (filter (\<lambda>sc. ks_jobset_id sc = j \<and> ks_acts sc \<noteq> None) scs)"

definition idents_ok :: "KillScope list \<Rightarrow> nat \<Rightarrow> bool" where
  "idents_ok scs m \<longleftrightarrow>
     (\<forall>a\<in>set scs. \<forall>b\<in>set scs. ks_ident a = ks_ident b \<longrightarrow> ks_keys a = ks_keys b) \<and>
     (\<forall>a\<in>set scs. ks_ident a \<le> m \<and> (ks_ident a = 0 \<longleftrightarrow> ks_keys a = None))"

definition free_of :: "job_key set \<Rightarrow> scope \<Rightarrow> bool" where
  "free_of ks sc \<longleftrightarrow> (\<forall>k\<in>ks. \<not> in_scope sc k)"

definition gate_inv :: "gate_world \<Rightarrow> bool" where
  "gate_inv w \<longleftrightarrow>
     (\<forall>j. mset (ledger_get (g_barriers (gw_gate w)) j) = mset (up_scopes (gw_scopes w) j)) \<and>
     idents_ok (gw_scopes w) (gw_next w) \<and>
     (\<forall>j i a. (i, a) \<in> set (ledger_get (g_activities (gw_gate w)) j) \<longrightarrow> i < gw_next w) \<and>
     (\<forall>sc\<in>set (gw_scopes w). \<forall>acts e. ks_acts sc = Some acts
        \<longrightarrow> e \<in> set (ledger_get (g_activities (gw_gate w)) (ks_jobset_id sc))
        \<longrightarrow> e \<in> set acts \<or> free_of (gw_accepted w (fst e)) (ks_keys sc))"

lemma gate_invI:
  assumes "\<And>j. mset (ledger_get (g_barriers (gw_gate w)) j) = mset (up_scopes (gw_scopes w) j)"
    and "idents_ok (gw_scopes w) (gw_next w)"
    and "\<And>j i a. (i, a) \<in> set (ledger_get (g_activities (gw_gate w)) j) \<Longrightarrow> i < gw_next w"
    and "\<And>sc acts e. sc \<in> set (gw_scopes w) \<Longrightarrow> ks_acts sc = Some acts \<Longrightarrow>
      e \<in> set (ledger_get (g_activities (gw_gate w)) (ks_jobset_id sc)) \<Longrightarrow>
      e \<in> set acts \<or> free_of (gw_accepted w (fst e)) (ks_keys sc)"
  shows "gate_inv w"
  using assms unfolding gate_inv_def by blast

lemma gate_invD:
  assumes "gate_inv w"
  shows "mset (ledger_get (g_barriers (gw_gate w)) j) = mset (up_scopes (gw_scopes w) j)"
    and "idents_ok (gw_scopes w) (gw_next w)"
    and "(i, a) \<in> set (ledger_get (g_activities (gw_gate w)) j) \<Longrightarrow> i < gw_next w"
    and "sc \<in> set (gw_scopes w) \<Longrightarrow> ks_acts sc = Some acts \<Longrightarrow>
      e \<in> set (ledger_get (g_activities (gw_gate w)) (ks_jobset_id sc)) \<Longrightarrow>
      e \<in> set acts \<or> free_of (gw_accepted w (fst e)) (ks_keys sc)"
  using assms unfolding gate_inv_def by blast+

lemma refused_by_eq:
  "refused_by want scs acc = (if None \<in> set scs then want else acc \<union> {k \<in> want. \<exists>sc\<in>set scs. in_scope sc k})"
  by (induction want scs acc rule: refused_by.induct) auto

lemma refused_covered:
  "refused_by want scs {} = {k \<in> want. \<exists>sc\<in>set scs. in_scope sc k}"
  by (auto simp: refused_by_eq intro: bexI [of _ None])

lemma gate_register_refused:
  "rg_refused (fst (gate_register j keys act g))
     = {k \<in> set keys. \<exists>sc\<in>snd ` set (ledger_get (g_barriers g) j). in_scope sc k}"
  by (auto simp: gate_register_def Let_def refused_covered)

lemma mset_remove_entry:
  assumes "(i, x) \<in> set es" and "\<And>y. (i, y) \<in> set es \<Longrightarrow> y = x"
  shows "mset (remove_entry i es) = mset es - {#(i, x)#}"
  using assms
proof (induction es)
  case Nil
  then show ?case by simp
next
  case (Cons e es)
  obtain k y where e: "e = (k, y)" by (cases e)
  show ?case
  proof (cases "k = i")
    case True
    with Cons.prems(2) [of y] e have "y = x" by simp
    with True e show ?thesis by simp
  next
    case False
    then have "(i, x) \<in> set es" using Cons.prems(1) e by simp
    moreover have "mset (remove_entry i es) = mset es - {#(i, x)#}"
      using Cons.IH [OF calculation] Cons.prems(2) by (meson list.set_intros(2))
    moreover have "add_mset e (mset es) - {#(i, x)#} = add_mset e (mset es - {#(i, x)#})"
      using False e by (simp add: diff_union_swap2)
    ultimately show ?thesis using e False by simp
  qed
qed

lemma up_scopes_append:
  "up_scopes (scs @ [sc]) j = up_scopes scs j @ (if ks_jobset_id sc = j \<and> ks_acts sc \<noteq> None then [(ks_ident sc, ks_keys sc)] else [])"
  by (simp add: up_scopes_def)

lemma mset_up_scopes_update:
  assumes "n < length scs" and "ks_jobset_id sc' = ks_jobset_id (scs ! n)"
    and "ks_ident sc' = ks_ident (scs ! n)" and "ks_keys sc' = ks_keys (scs ! n)"
  shows "mset (up_scopes (scs[n := sc']) j)
      + (if ks_jobset_id (scs ! n) = j \<and> ks_acts (scs ! n) \<noteq> None then {#(ks_ident sc', ks_keys sc')#} else {#})
    = mset (up_scopes scs j)
      + (if ks_jobset_id (scs ! n) = j \<and> ks_acts sc' \<noteq> None then {#(ks_ident sc', ks_keys sc')#} else {#})"
proof -
  have split: "scs = take n scs @ scs ! n # drop (Suc n) scs" "scs[n := sc'] = take n scs @ sc' # drop (Suc n) scs"
    using assms(1) by (simp_all add: id_take_nth_drop upd_conv_take_nth_drop)
  show ?thesis
    by (subst split(2), subst (2) split(1)) (simp add: up_scopes_def assms(2-4))
qed

lemma gate_register_gate:
  "ledger_get (g_barriers (snd (gate_register j keys act g))) i = ledger_get (g_barriers g) i"
  "e \<in> set (ledger_get (g_activities (snd (gate_register j keys act g))) i) \<Longrightarrow>
     e \<in> set (ledger_get (g_activities g) i) \<or> (e = act \<and> i = j)"
  by (auto simp: gate_register_def Let_def ledger.entries_add split: if_splits)

lemma gate_inv_register:
  assumes "gate_inv w"
  shows "gate_inv (world_register j keys a w)"
proof -
  let ?g = "gw_gate w" and ?n = "gw_next w"
  let ?r = "gate_register j keys (?n, a) ?g"
  let ?w = "world_register j keys a w"
  have w: "gw_gate ?w = snd ?r" "gw_scopes ?w = gw_scopes w" "gw_next ?w = Suc ?n"
    "gw_accepted ?w = (gw_accepted w)(?n := set keys - rg_refused (fst ?r))"
    by (simp_all add: world_register_def split_beta)
  have bar: "mset (ledger_get (g_barriers (gw_gate w)) i) = mset (up_scopes (gw_scopes w) i)" for i
    using assms by (simp add: gate_inv_def)
  have act: "i < Suc ?n" if "(i, b) \<in> set (ledger_get (g_activities (snd ?r)) k)" for i b k
    using gate_register_gate(2) [OF that] gate_invD(3) [OF assms, of i b k] by auto
  have cov: "e \<in> set acts \<or> free_of (gw_accepted ?w (fst e)) (ks_keys sc)"
    if sc: "sc \<in> set (gw_scopes w)" "ks_acts sc = Some acts"
      and e: "e \<in> set (ledger_get (g_activities (snd ?r)) (ks_jobset_id sc))" for sc acts e
  proof (cases "e = (?n, a) \<and> ks_jobset_id sc = j")
    case True
    have "(ks_ident sc, ks_keys sc) \<in> set (up_scopes (gw_scopes w) j)"
      using sc True by (auto simp: up_scopes_def)
    then have "(ks_ident sc, ks_keys sc) \<in> set (ledger_get (g_barriers ?g) j)"
      using bar [of j] by (metis set_mset_mset)
    then have "ks_keys sc \<in> snd ` set (ledger_get (g_barriers ?g) j)" by (rule rev_image_eqI) simp
    then have "k \<in> rg_refused (fst ?r)" if "k \<in> set keys" "in_scope (ks_keys sc) k" for k
      using that unfolding gate_register_refused by blast
    with True show ?thesis unfolding w by (auto simp: free_of_def)
  next
    case False
    then have old: "e \<in> set (ledger_get (g_activities ?g) (ks_jobset_id sc))"
      using gate_register_gate(2) [OF e] by auto
    then have "fst e < ?n" using gate_invD(3) [OF assms] by (metis prod.collapse)
    with gate_invD(4) [OF assms sc old] show ?thesis by (auto simp: w)
  qed
  have ids: "idents_ok (gw_scopes w) (Suc ?n)"
    using gate_invD(2) [OF assms] unfolding idents_ok_def by (meson le_SucI)
  show ?thesis
  proof (rule gate_invI)
    show "mset (ledger_get (g_barriers (gw_gate ?w)) i) = mset (up_scopes (gw_scopes ?w) i)" for i
      using bar by (simp add: w gate_register_gate(1))
    show "idents_ok (gw_scopes ?w) (gw_next ?w)" using ids by (simp add: w)
    show "(i, b) \<in> set (ledger_get (g_activities (gw_gate ?w)) k) \<Longrightarrow> i < gw_next ?w" for i b k
      using act by (simp add: w)
    show "sc \<in> set (gw_scopes ?w) \<Longrightarrow> ks_acts sc = Some acts \<Longrightarrow>
        e \<in> set (ledger_get (g_activities (gw_gate ?w)) (ks_jobset_id sc)) \<Longrightarrow>
        e \<in> set acts \<or> free_of (gw_accepted ?w (fst e)) (ks_keys sc)" for sc acts e
      using cov unfolding w(1,2) by blast
  qed
qed

lemma gate_inv_unregister:
  assumes "gate_inv w"
  shows "gate_inv (w\<lparr>gw_gate := gate_unregister j act (gw_gate w)\<rparr>)"
proof -
  let ?g = "gate_unregister j act (gw_gate w)"
  have "g_barriers ?g = g_barriers (gw_gate w)"
    by (simp add: gate_unregister_def split: option.splits prod.splits)
  moreover have "set (ledger_get (g_activities ?g) i) \<subseteq> set (ledger_get (g_activities (gw_gate w)) i)" for i
    using set_remove_entry_subset [of _ "ledger_get (g_activities (gw_gate w)) j"]
    by (auto simp: gate_unregister_def ledger.entries_remove split: option.splits prod.splits)
  ultimately show ?thesis
    using gate_invD [OF assms] by (intro gate_invI) (simp_all, blast+)
qed

lemma idents_ok_new:
  assumes "idents_ok scs m" and "ks_ident sc = 0 \<longleftrightarrow> ks_keys sc = None" and "ks_ident sc = 0 \<or> ks_ident sc = Suc m"
  shows "idents_ok (scs @ [sc]) (Suc m)"
proof -
  have old: "ks_ident a \<le> m \<and> (ks_ident a = 0 \<longleftrightarrow> ks_keys a = None)" if "a \<in> set scs" for a
    using assms(1) that unfolding idents_ok_def by blast
  have new: "ks_keys a = ks_keys sc" if "a \<in> set scs" "ks_ident a = ks_ident sc" for a
  proof -
    have "ks_ident sc \<le> m" using old [OF that(1)] that(2) by simp
    with assms(3) have "ks_ident sc = 0" by auto
    with assms(2) old [OF that(1)] that(2) show ?thesis by simp
  qed
  have "ks_keys a = ks_keys b" if ab: "a \<in> set (scs @ [sc])" "b \<in> set (scs @ [sc])" "ks_ident a = ks_ident b" for a b
  proof -
    consider "a \<in> set scs" "b \<in> set scs" | "a = sc" "b \<in> set scs" | "a \<in> set scs" "b = sc" | "a = sc" "b = sc"
      using ab(1,2) by auto
    then show ?thesis
    proof cases
      case 1
      then show ?thesis using assms(1) ab(3) unfolding idents_ok_def by blast
    next
      case 2
      then show ?thesis using new [of b] ab(3) by simp
    next
      case 3
      then show ?thesis using new [of a] ab(3) by simp
    qed simp
  qed
  moreover have "ks_ident a \<le> Suc m \<and> (ks_ident a = 0 \<longleftrightarrow> ks_keys a = None)" if "a \<in> set (scs @ [sc])" for a
    using that old [of a] assms(2,3) by (cases "a \<in> set scs") (auto simp: le_SucI)
  ultimately show ?thesis unfolding idents_ok_def by blast
qed

lemma gate_inv_new_scope:
  assumes "gate_inv w"
  shows "gate_inv (w\<lparr>gw_scopes := gw_scopes w @ [kill_scope j keys (gw_next w)], gw_next := Suc (gw_next w)\<rparr>)"
proof -
  let ?sc = "kill_scope j keys (gw_next w)"
  have sc: "ks_acts ?sc = None" by (simp add: kill_scope_def split: option.splits)
  have "idents_ok (gw_scopes w) (gw_next w)" using assms by (simp add: gate_inv_def)
  then have ids: "idents_ok (gw_scopes w @ [?sc]) (Suc (gw_next w))"
    by (rule idents_ok_new) (auto simp: kill_scope_def split: option.splits)
  have act: "i < Suc (gw_next w)" if "(i, a) \<in> set (ledger_get (g_activities (gw_gate w)) k)" for i a k
    using gate_invD(3) [OF assms that] by simp
  have up: "up_scopes (gw_scopes w @ [?sc]) i = up_scopes (gw_scopes w) i" for i
    by (simp add: up_scopes_append sc)
  show ?thesis
  proof (rule gate_invI, goal_cases)
    case (1 i)
    show ?case using gate_invD(1) [OF assms] by (simp add: up)
  next
    case 2
    show ?case using ids by simp
  next
    case (3 i n a)
    then show ?case using act by simp
  next
    case (4 s acts e)
    then have "s \<in> set (gw_scopes w)" using sc by auto
    with 4 gate_invD(4) [OF assms this, of acts e] show ?case by simp
  qed
qed

lemma idents_ok_update:
  assumes "idents_ok scs m" and "n < length scs" and "ks_ident sc' = ks_ident (scs ! n)" and "ks_keys sc' = ks_keys (scs ! n)"
  shows "idents_ok (scs[n := sc']) m"
proof -
  have "\<exists>b\<in>set scs. ks_ident a = ks_ident b \<and> ks_keys a = ks_keys b" if "a \<in> set (scs[n := sc'])" for a
    using that assms(2-) set_update_subset_insert [of scs n sc'] by (metis insertE nth_mem subsetD)
  with assms(1) show ?thesis unfolding idents_ok_def by metis
qed

lemma gate_inv_begin:
  assumes inv: "gate_inv w" and n: "n < length (gw_scopes w)"
  shows "gate_inv (world_begin n w)"
proof (cases "ks_acts (gw_scopes w ! n)")
  case (Some acts)
  then show ?thesis using inv by (simp add: world_begin_def scope_begin_def)
next
  case None
  let ?sc = "gw_scopes w ! n" and ?g = "gw_gate w" and ?scs = "gw_scopes w"
  let ?acts = "ledger_get (g_activities ?g) (ks_jobset_id ?sc)"
  let ?sc' = "?sc\<lparr>ks_acts := Some ?acts\<rparr>"
  let ?g' = "?g\<lparr>g_barriers := ledger_add (ks_jobset_id ?sc) (ks_ident ?sc, ks_keys ?sc) (g_barriers ?g)\<rparr>"
  have w: "world_begin n w = w\<lparr>gw_gate := ?g', gw_scopes := ?scs[n := ?sc']\<rparr>"
    using None by (simp add: world_begin_def scope_begin_def barrier_up_def Let_def)
  have bar: "mset (ledger_get (g_barriers ?g') j) = mset (up_scopes (?scs[n := ?sc']) j)" for j
    using inv mset_up_scopes_update [OF n, of ?sc' j] None
    by (auto simp: gate_inv_def ledger.entries_add split: if_splits)
  have ids: "idents_ok (?scs[n := ?sc']) (gw_next w)"
    by (rule idents_ok_update [OF _ n]) (use inv in \<open>auto simp: gate_inv_def\<close>)
  have cov: "e \<in> set acts \<or> free_of (gw_accepted w (fst e)) (ks_keys sc)"
    if "sc \<in> set (?scs[n := ?sc'])" "ks_acts sc = Some acts"
      "e \<in> set (ledger_get (g_activities ?g) (ks_jobset_id sc))" for sc acts e
  proof (cases "sc = ?sc'")
    case True
    with that show ?thesis by simp
  next
    case False
    then have "sc \<in> set ?scs" using that(1) set_update_subset_insert [of ?scs n ?sc'] by auto
    from gate_invD(4) [OF inv this that(2,3)] show ?thesis .
  qed
  show ?thesis
    unfolding w
  proof (rule gate_invI, goal_cases)
    case (1 i)
    show ?case using bar by simp
  next
    case 2
    show ?case using ids by simp
  next
    case (3 i n a)
    then show ?case using gate_invD(3) [OF inv, of n a i] by simp
  next
    case (4 s acts e)
    then show ?case using cov [of s acts e] by simp
  qed
qed

lemma gate_inv_release:
  assumes inv: "gate_inv w" and n: "n < length (gw_scopes w)"
  shows "gate_inv (world_release n w)"
proof (cases "ks_acts (gw_scopes w ! n)")
  case None
  then show ?thesis using inv by (simp add: world_release_def scope_release_def)
next
  case (Some acts)
  let ?sc = "gw_scopes w ! n" and ?g = "gw_gate w" and ?scs = "gw_scopes w"
  let ?sc' = "?sc\<lparr>ks_acts := None\<rparr>" and ?e = "(ks_ident (gw_scopes w ! n), ks_keys (gw_scopes w ! n))"
  let ?g' = "barrier_down (ks_jobset_id ?sc) (ks_ident ?sc) ?g"
  have w: "world_release n w = w\<lparr>gw_gate := ?g', gw_scopes := ?scs[n := ?sc']\<rparr>"
    using Some by (simp add: world_release_def scope_release_def)
  let ?b = "ledger_get (g_barriers ?g) (ks_jobset_id ?sc)"
  have same: "mset (ledger_get (g_barriers ?g) j) = mset (up_scopes ?scs j)" for j
    using inv by (simp add: gate_inv_def)
  have ids: "idents_ok ?scs (gw_next w)" using inv by (simp add: gate_inv_def)
  have "?e \<in> set (up_scopes ?scs (ks_jobset_id ?sc))"
    using Some nth_mem [OF n] by (auto simp: up_scopes_def)
  then have e: "?e \<in> set ?b" using same by (metis set_mset_mset)
  have uniq: "y = ks_keys ?sc" if "(ks_ident ?sc, y) \<in> set ?b" for y
  proof -
    have "(ks_ident ?sc, y) \<in> set (up_scopes ?scs (ks_jobset_id ?sc))" using that same by (metis set_mset_mset)
    then obtain s where "s \<in> set ?scs" and "ks_ident s = ks_ident ?sc" and "ks_keys s = y"
      by (auto simp: up_scopes_def)
    with ids nth_mem [OF n] show ?thesis unfolding idents_ok_def by metis
  qed
  have bar: "mset (ledger_get (g_barriers ?g') j) = mset (up_scopes (?scs[n := ?sc']) j)" for j
  proof (cases "j = ks_jobset_id ?sc")
    case True
    then show ?thesis
      using mset_up_scopes_update [OF n, of ?sc' j] Some mset_remove_entry [OF e uniq] same [of j]
      by (simp add: barrier_down_def ledger.entries_remove) (metis add_mset_remove_trivial)
  next
    case False
    then show ?thesis
      using mset_up_scopes_update [OF n, of ?sc' j] same [of j]
      by (simp add: barrier_down_def ledger.entries_remove)
  qed
  have ids': "idents_ok (?scs[n := ?sc']) (gw_next w)"
    by (rule idents_ok_update [OF ids n]) auto
  have cov: "e \<in> set acts \<or> free_of (gw_accepted w (fst e)) (ks_keys sc)"
    if "sc \<in> set (?scs[n := ?sc'])" "ks_acts sc = Some acts"
      "e \<in> set (ledger_get (g_activities ?g) (ks_jobset_id sc))" for sc acts e
  proof -
    have "sc \<in> set ?scs" using that(1,2) set_update_subset_insert [of ?scs n ?sc'] by auto
    from gate_invD(4) [OF inv this that(2,3)] show ?thesis .
  qed
  show ?thesis
    unfolding w
  proof (rule gate_invI, goal_cases)
    case (1 i)
    show ?case using bar by simp
  next
    case 2
    show ?case using ids' by simp
  next
    case (3 i n a)
    then show ?case using gate_invD(3) [OF inv, of n a i] by (simp add: barrier_down_def)
  next
    case (4 s acts e)
    then show ?case using cov [of s acts e] by (simp add: barrier_down_def)
  qed
qed

lemma gate_reach_inv: "gate_reach w \<Longrightarrow> gate_inv w"
proof (induction rule: gate_reach.induct)
  case start
  then show ?case
    by (simp add: gate_inv_def new_SubmitGate_def ledger_get_def dget_or_def up_scopes_def idents_ok_def)
qed (simp_all add: gate_inv_register gate_inv_unregister gate_inv_new_scope gate_inv_begin gate_inv_release)

section \<open>The contract with the submitter\<close>

text \<open>
  What a submit cycle relies on when it registers: exactly the keys that a raised barrier
  covers are refused, and there is no activity exactly when all of them are.
\<close>

locale submit_gate =
  fixes covered :: "'g \<Rightarrow> jobset_id \<Rightarrow> job_key \<Rightarrow> bool"
    and register :: "jobset_id \<Rightarrow> job_key list \<Rightarrow> activity entry \<Rightarrow> 'g \<Rightarrow> Registration \<times> 'g"
    and unregister :: "jobset_id \<Rightarrow> activity entry option \<Rightarrow> 'g \<Rightarrow> 'g"
  assumes refused_iff: "rg_refused (fst (register j keys act g)) = {k \<in> set keys. covered g j k}"
    and no_activity: "rg_activity (fst (register j keys act g)) = None \<longleftrightarrow>
      keys \<noteq> [] \<and> (\<forall>k\<in>set keys. covered g j k)"
    and covered_register: "covered (snd (register j keys act g)) = covered g"
    and covered_unregister: "covered (unregister j a g) = covered g"
    and refused_unchanged: "rg_activity (fst (register j keys act g)) = None \<Longrightarrow> snd (register j keys act g) = g"
begin

lemma born_cancelled_all:
  "rg_activity (fst (register j keys act g)) = None \<Longrightarrow> set keys = rg_refused (fst (register j keys act g))"
  by (auto simp: refused_iff no_activity)

lemma open_gate_accepts:
  assumes "\<And>k. k \<in> set keys \<Longrightarrow> \<not> covered g j k" and "keys \<noteq> []"
  shows "rg_refused (fst (register j keys act g)) = {} \<and> rg_activity (fst (register j keys act g)) \<noteq> None"
proof -
  obtain k where "k \<in> set keys" using assms(2) by (cases keys) auto
  with assms(1) show ?thesis using refused_iff no_activity by auto
qed

lemma refusal_stable:
  "rg_refused (fst (register j keys act (unregister i a (snd (register j' keys' act' g)))))
     = rg_refused (fst (register j keys act g))"
  by (simp add: refused_iff covered_unregister covered_register)

end

definition gate_covered :: "SubmitGate \<Rightarrow> jobset_id \<Rightarrow> job_key \<Rightarrow> bool" where
  "gate_covered g j k \<longleftrightarrow> list_ex (\<lambda>e. in_scope (snd e) k) (ledger_get (g_barriers g) j)"

lemma gate_refused_covered:
  "refused_by (set keys) (map snd (ledger_get (g_barriers g) j)) {} = {k \<in> set keys. gate_covered g j k}"
  by (auto simp: refused_covered gate_covered_def list_ex_iff)

interpretation gate: submit_gate gate_covered gate_register gate_unregister
proof unfold_locales
  show "rg_refused (fst (gate_register j keys act g)) = {k \<in> set keys. gate_covered g j k}" for j keys act g
    by (auto simp: gate_register_def Let_def gate_refused_covered)
  show "rg_activity (fst (gate_register j keys act g)) = None \<longleftrightarrow>
      keys \<noteq> [] \<and> (\<forall>k\<in>set keys. gate_covered g j k)" for j keys act g
    by (auto simp: gate_register_def Let_def gate_refused_covered)
  show "gate_covered (snd (gate_register j keys act g)) = gate_covered g" for j keys act g
    by (simp add: gate_register_def Let_def gate_covered_def fun_eq_iff)
  show "gate_covered (gate_unregister j a g) = gate_covered g" for j a g
    by (simp add: gate_unregister_def gate_covered_def fun_eq_iff split: option.splits prod.splits)
  show "rg_activity (fst (gate_register j keys act g)) = None \<Longrightarrow> snd (gate_register j keys act g) = g" for j keys act g
    by (auto simp: gate_register_def Let_def split: if_splits)
qed

section \<open>Properties of the gate\<close>

definition demo_gate :: gate_world where
  "demo_gate = world_register ''js'' [''b'', ''c''] \<lparr> act_cycle = 2, act_timeout_s = 60 \<rparr>
     (world_begin 0
       (let w = world_register ''js'' [''a'', ''b''] \<lparr> act_cycle = 1, act_timeout_s = 60 \<rparr>
                  \<lparr> gw_gate = new_SubmitGate, gw_scopes = [], gw_accepted = (\<lambda>_. {}), gw_next = 0 \<rparr>
        in w\<lparr>gw_scopes := gw_scopes w @ [kill_scope ''js'' (Some [''b'']) (gw_next w)],
             gw_next := Suc (gw_next w)\<rparr>))"

lemma demo_gate_reach: "gate_reach demo_gate"
  unfolding demo_gate_def Let_def
  by (intro gate_reach.register gate_reach.begin_scope gate_reach.new_scope gate_reach.start) simp

lemma demo_gate_simps:
  "gw_scopes demo_gate = [\<lparr> ks_jobset_id = ''js'', ks_keys = Some {''b''}, ks_ident = 2,
      ks_acts = Some [(0, \<lparr> act_cycle = 1, act_timeout_s = 60 \<rparr>)] \<rparr>]"
  "ledger_get (g_activities (gw_gate demo_gate)) ''js'' =
      [(0, \<lparr> act_cycle = 1, act_timeout_s = 60 \<rparr>), (2, \<lparr> act_cycle = 2, act_timeout_s = 60 \<rparr>)]"
  "gw_accepted demo_gate 2 = {''c''}"
  by (simp_all add: demo_gate_def world_register_def world_begin_def gate_register_def scope_begin_def
      barrier_up_def kill_scope_def new_SubmitGate_def ledger_get_def ledger_add_def dget_or_def
      dsetdefault_def dhas_def Let_def insert_Diff_if)

text \<open>
  C8: Kill priority. Whatever the interleaving of registrations and kills, an activity that
  is registered while a kill's barrier is up was either handed to that kill (which cancels
  it and waits for it) or was accepted for no key the kill covers: there is no window between
  raising the barrier and taking the list of activities.
\<close>

theorem kill_sees_every_covered_activity:
  assumes "gate_reach w" and "sc \<in> set (gw_scopes w)" and "ks_acts sc = Some acts"
    and "(i, a) \<in> set (ledger_get (g_activities (gw_gate w)) (ks_jobset_id sc))"
  shows "(i, a) \<in> set acts \<or> (\<forall>k\<in>gw_accepted w i. \<not> in_scope (ks_keys sc) k)"
  using gate_invD(4) [OF gate_reach_inv [OF assms(1)] assms(2,3,4)] by (simp add: free_of_def)

theorem kill_sees_every_covered_activity_witness:
  "let sc = gw_scopes demo_gate ! 0
   in \<exists>acts. ks_acts sc = Some acts \<and>
        ((2, \<lparr> act_cycle = 2, act_timeout_s = 60 \<rparr>) \<in> set acts \<or> (\<forall>k\<in>gw_accepted demo_gate 2. \<not> in_scope (ks_keys sc) k))
        \<and> ''c'' \<in> gw_accepted demo_gate 2"
proof -
  let ?sc = "gw_scopes demo_gate ! 0"
  note d = demo_gate_simps
  have "?sc \<in> set (gw_scopes demo_gate)" by (simp add: d)
  from kill_sees_every_covered_activity [OF demo_gate_reach this, of _ 2 "\<lparr> act_cycle = 2, act_timeout_s = 60 \<rparr>"]
  show ?thesis by (simp add: d)
qed

text \<open>
  Refusal. A registration refuses exactly the keys that a raised kill scope of the jobset
  covers; when it refuses every key it registers nothing and leaves the gate as it was.
\<close>

theorem register_refuses_exactly_covered:
  assumes "gate_reach w"
  shows "(let (reg, g') = gate_register j keys act (gw_gate w)
     in rg_refused reg = {k \<in> set keys. \<exists>sc\<in>set (gw_scopes w).
            ks_jobset_id sc = j \<and> ks_acts sc \<noteq> None \<and> in_scope (ks_keys sc) k} \<and>
        (rg_activity reg = None \<longleftrightarrow> keys \<noteq> [] \<and> set keys \<subseteq> rg_refused reg) \<and>
        (rg_activity reg \<noteq> None \<or> g' = gw_gate w))"
proof -
  let ?r = "gate_register j keys act (gw_gate w)"
  have "set (ledger_get (g_barriers (gw_gate w)) j) = set (up_scopes (gw_scopes w) j)"
    using gate_invD(1) [OF gate_reach_inv [OF assms], of j] by (metis set_mset_mset)
  then have cov: "gate_covered (gw_gate w) j k \<longleftrightarrow> (\<exists>sc\<in>set (gw_scopes w).
      ks_jobset_id sc = j \<and> ks_acts sc \<noteq> None \<and> in_scope (ks_keys sc) k)" for k
    by (auto simp: gate_covered_def list_ex_iff up_scopes_def)
  have "rg_activity (fst ?r) = None \<longleftrightarrow> keys \<noteq> [] \<and> set keys \<subseteq> rg_refused (fst ?r)"
    by (auto simp: gate.no_activity gate.refused_iff)
  then show ?thesis
    using gate.refused_iff [of j keys act "gw_gate w"] gate.refused_unchanged [of j keys act "gw_gate w"]
    by (auto simp: split_beta cov)
qed

theorem register_refuses_exactly_covered_witness:
  "rg_activity (fst (gate_register ''js'' [''b''] (9, \<lparr> act_cycle = 3, act_timeout_s = 1 \<rparr>) (gw_gate demo_gate))) = None
   \<and> rg_refused (fst (gate_register ''js'' [''b''] (9, \<lparr> act_cycle = 3, act_timeout_s = 1 \<rparr>) (gw_gate demo_gate))) = {''b''}"
  using register_refuses_exactly_covered [OF demo_gate_reach, of "''js''" "[''b'']"
      "(9, \<lparr> act_cycle = 3, act_timeout_s = 1 \<rparr>)"]
  by (auto simp: split_beta demo_gate_simps)

text \<open>
  No barrier is left behind. When no kill scope of a jobset is up (all were released,
  overlapping ones included), every registration of that jobset is accepted in full.
\<close>

theorem released_scopes_leave_no_barrier:
  assumes "gate_reach w" and "list_all (\<lambda>sc. ks_jobset_id sc \<noteq> j \<or> ks_acts sc = None) (gw_scopes w)"
  shows "ledger_get (g_barriers (gw_gate w)) j = [] \<and>
     rg_refused (fst (gate_register j keys act (gw_gate w))) = {} \<and>
     rg_activity (fst (gate_register j keys act (gw_gate w))) = Some act"
proof -
  have "up_scopes (gw_scopes w) j = []"
    using assms(2) by (auto simp: up_scopes_def filter_empty_conv list_all_iff)
  then have "ledger_get (g_barriers (gw_gate w)) j = []"
    using gate_invD(1) [OF gate_reach_inv [OF assms(1)], of j] by simp
  then show ?thesis by (auto simp: gate_register_def Let_def)
qed

theorem released_scopes_leave_no_barrier_witness:
  "rg_refused (fst (gate_register ''js'' [''b''] (9, \<lparr> act_cycle = 3, act_timeout_s = 1 \<rparr>)
     (gw_gate (world_release 0 demo_gate)))) = {}"
proof -
  have len: "length (gw_scopes demo_gate) = 1"
    by (simp add: demo_gate_def world_register_def world_begin_def split_beta Let_def)
  have reach: "gate_reach (world_release 0 demo_gate)"
    by (rule gate_reach.release_scope [OF demo_gate_reach]) (simp add: len)
  obtain sc where sc: "gw_scopes demo_gate = [sc]" using len by (cases "gw_scopes demo_gate") auto
  have "gw_scopes (world_release 0 demo_gate) = [fst (scope_release sc (gw_gate demo_gate))]"
    by (simp add: world_release_def sc split_beta)
  moreover have "ks_acts (fst (scope_release sc g)) = None" for g
    by (simp add: scope_release_def split: option.splits)
  ultimately show ?thesis
    using released_scopes_leave_no_barrier [OF reach, of "''js''"] by simp
qed

end
