(* ===== verification/Command.thy ===== *)
theory Command
  imports Options
begin

text \<open>
  \<open>lsfmgr/command.py\<close>: the wrapper around the submit, bjobs and bkill programs: target
  parsing, reading the programs' outputs, splitting argument lists, classifying failures, and
  the format fallback of bjobs. The program runner is outside the code (\<open>runner\<close>, injected
  by the caller): it is an argument, and threads a state \<open>'w\<close> of the world it acts on.
\<close>

section \<open>Results and runners\<close>

record CommandResult =
  cr_returncode :: int
  cr_stdout :: string
  cr_stderr :: string

type_synonym 'w runner = "string list \<Rightarrow> seconds \<Rightarrow> string option \<Rightarrow> 'w \<Rightarrow> (CommandResult, 'w) outcome"

section \<open>Scanning\<close>

definition digits_of :: "string \<Rightarrow> string" where
  "digits_of s = takeWhile is_digit s"

definition after_digits :: "string \<Rightarrow> string" where
  "after_digits s = dropWhile is_digit s"

definition starts_with :: "string \<Rightarrow> string \<Rightarrow> bool" where
  "starts_with p s \<longleftrightarrow> take (length p) s = p"

definition newline :: char where
  "newline = CHR 0x0A"

text \<open>\<open>$\<close> of a pattern also matches before one final newline.\<close>

definition at_end :: "string \<Rightarrow> bool" where
  "at_end s \<longleftrightarrow> s = [] \<or> s = [newline]"

text \<open>\<open>str.splitlines()\<close>.\<close>

definition is_linebreak :: "char \<Rightarrow> bool" where
  "is_linebreak c \<longleftrightarrow> (of_char c :: nat) \<in> {10, 11, 12, 13, 28, 29, 30, 133}"

fun splitlines_go :: "string \<Rightarrow> string \<Rightarrow> string list" where
  "splitlines_go acc [] = (if acc = [] then [] else [acc])"
| "splitlines_go acc (c # s) =
     (if is_linebreak c then
        acc # (case s of
                 d # s' \<Rightarrow> if c = CHR 0x0D \<and> d = newline then splitlines_go [] s' else splitlines_go [] s
               | [] \<Rightarrow> splitlines_go [] s)
      else splitlines_go (acc @ [c]) s)"

definition py_splitlines :: "string \<Rightarrow> string list" where
  "py_splitlines s = splitlines_go [] s"

section \<open>Targets\<close>

text \<open>The first \<open>Job <id>\<close> of a text.\<close>

definition JOB_OPEN :: string where
  "JOB_OPEN = ''Job <''"

fun find_job_id :: "string \<Rightarrow> string option" where
  "find_job_id [] = None"
| "find_job_id (c # s) =
     (let rest = drop (length JOB_OPEN) (c # s)
      in if starts_with JOB_OPEN (c # s) \<and> digits_of rest \<noteq> [] \<and> starts_with ''>'' (after_digits rest)
         then Some (digits_of rest)
         else find_job_id s)"

text \<open>\<open>_TARGET_RE\<close>: "id", "id[idx]" or "id[m-n]".\<close>

datatype target_match = TWhole int | TElem int int | TRange int int int

definition int_of_digits :: "string \<Rightarrow> int" where
  "int_of_digits s = int (parse_nat s)"

definition match_index :: "int \<Rightarrow> string \<Rightarrow> target_match option" where
  "match_index pid s =
     (let i = digits_of s; rest = after_digits s
      in if i = [] then None
         else (case rest of
                 [] \<Rightarrow> None
               | c # r \<Rightarrow>
                   if c = CHR '']'' then (if at_end r then Some (TElem pid (int_of_digits i)) else None)
                   else if c = CHR ''-'' then
                     (let h = digits_of r
                      in if h = [] then None
                         else (case after_digits r of
                                 [] \<Rightarrow> None
                               | d # e \<Rightarrow> if d = CHR '']'' \<and> at_end e
                                         then Some (TRange pid (int_of_digits i) (int_of_digits h)) else None))
                   else None))"

definition match_target :: "string \<Rightarrow> target_match option" where
  "match_target s =
     (let d = digits_of s; rest = after_digits s
      in if d = [] then None
         else if at_end rest then Some (TWhole (int_of_digits d))
         else (case rest of
                 [] \<Rightarrow> None
               | c # r \<Rightarrow> if c = CHR ''['' then match_index (int_of_digits d) r else None))"

definition target_parent_id :: "string \<Rightarrow> int option" where
  "target_parent_id t =
     (let head = takeWhile (\<lambda>c. c \<noteq> CHR ''['') t
      in if py_isdigit head then Some (int_of_digits head) else None)"

type_synonym targets = "int set \<times> (int \<times> int) set \<times> (int \<times> int \<times> int) list"

definition classify_step :: "targets \<Rightarrow> string \<Rightarrow> targets" where
  "classify_step acc t =
     (case acc of (whole, exact, ranges) \<Rightarrow>
        (case match_target t of
           None \<Rightarrow>
             (case target_parent_id t of
                None \<Rightarrow> (whole, exact, ranges)
              | Some pid \<Rightarrow> (insert pid whole, exact, ranges))
         | Some (TWhole pid) \<Rightarrow> (insert pid whole, exact, ranges)
         | Some (TElem pid i) \<Rightarrow> (whole, insert (pid, i) exact, ranges)
         | Some (TRange pid lo hi) \<Rightarrow> (whole, exact, ranges @ [(pid, lo, hi)])))"

definition classify_targets :: "string list \<Rightarrow> targets" where
  "classify_targets ts = foldl classify_step ({}, {}, []) ts"

text \<open>The texts of targets, as the killer builds them.\<close>

definition show_elem :: "int \<Rightarrow> int \<Rightarrow> string" where
  "show_elem pid i = show_int pid @ ''['' @ show_int i @ '']''"

definition show_range :: "int \<Rightarrow> int \<Rightarrow> int \<Rightarrow> string" where
  "show_range pid lo hi = show_int pid @ ''['' @ show_int lo @ ''-'' @ show_int hi @ '']''"

lemma digits_of_show: "0 \<le> i \<Longrightarrow> (case s of [] \<Rightarrow> True | c # _ \<Rightarrow> \<not> is_digit c) \<Longrightarrow>
    digits_of (show_int i @ s) = show_int i \<and> after_digits (show_int i @ s) = s"
proof -
  assume i: "0 \<le> i" and s: "case s of [] \<Rightarrow> True | c # _ \<Rightarrow> \<not> is_digit c"
  have d: "\<forall>c\<in>set (show_int i). is_digit c"
    using show_nat_digits [of "nat i"] i by (simp add: show_int_nonneg list_all_iff)
  then show ?thesis
    using s by (cases s) (simp_all add: digits_of_def after_digits_def takeWhile_append dropWhile_append
        takeWhile_eq_all_conv dropWhile_eq_Nil_conv)
qed

lemma show_int_nonempty [simp]: "show_int i \<noteq> []"
  by (simp add: show_int_def)

lemma int_of_show [simp]: "0 \<le> i \<Longrightarrow> int_of_digits (show_int i) = i"
  by (simp add: int_of_digits_def show_int_nonneg)

lemma at_end_simps [simp]: "at_end []" "c \<noteq> newline \<Longrightarrow> \<not> at_end (c # s)"
  by (simp_all add: at_end_def)

lemma bracket_chars [simp]:
  "\<not> is_digit CHR ''[''" "\<not> is_digit CHR '']''" "\<not> is_digit CHR ''-''" "CHR ''['' \<noteq> newline"
  by (simp_all add: is_digit_def newline_def)

lemma match_show:
  "0 \<le> pid \<Longrightarrow> match_target (show_int pid) = Some (TWhole pid)"
  "0 \<le> pid \<Longrightarrow> 0 \<le> i \<Longrightarrow> match_target (show_elem pid i) = Some (TElem pid i)"
  "0 \<le> pid \<Longrightarrow> 0 \<le> lo \<Longrightarrow> 0 \<le> hi \<Longrightarrow> match_target (show_range pid lo hi) = Some (TRange pid lo hi)"
  using digits_of_show [of pid "[]"]
    digits_of_show [of pid "''['' @ show_int i @ '']''"] digits_of_show [of i "'']''"]
    digits_of_show [of pid "''['' @ show_int lo @ ''-'' @ show_int hi @ '']''"]
    digits_of_show [of lo "''-'' @ show_int hi @ '']''"] digits_of_show [of hi "'']''"]
  by (simp_all add: match_target_def match_index_def show_elem_def show_range_def Let_def)

section \<open>Reading bkill\<close>

definition NO_JOB_PATTERNS :: "string list" where
  "NO_JOB_PATTERNS = [''no unfinished job'', ''no matching job'', ''is not found'', ''no job found'']"

definition BKILL_ACCEPTED_MSGS :: "string list" where
  "BKILL_ACCEPTED_MSGS = [''is being terminated'', ''is being signaled'', ''is being requeued'',
     ''is being killed'', ''in progress of being terminated'']"

definition BKILL_GONE_MSGS :: "string list" where
  "BKILL_GONE_MSGS = [''already finished'', ''has already'', ''no matching job'', ''is not found'',
     ''no unfinished job'', ''not found'']"

definition contains_any :: "string list \<Rightarrow> string \<Rightarrow> bool" where
  "contains_any ps s \<longleftrightarrow> list_ex (\<lambda>p. py_contains p s) ps"

text \<open>\<open>_BKILL_LINE_RE\<close> on one line: the job text, and the message after an optional colon.\<close>

definition bkill_id :: "string \<Rightarrow> (string \<times> string) option" where
  "bkill_id s =
     (let d = digits_of s; rest = after_digits s
      in if d = [] then None
         else (case rest of
                 [] \<Rightarrow> None
               | c # r \<Rightarrow>
                   if c = CHR ''>'' then Some (d, r)
                   else if c = CHR ''['' \<and> digits_of r \<noteq> [] \<and> starts_with '']>'' (after_digits r)
                   then Some (d @ ''['' @ digits_of r @ '']'', drop 2 (after_digits r))
                   else None))"

fun bkill_line :: "string \<Rightarrow> (string \<times> string) option" where
  "bkill_line [] = None"
| "bkill_line (c # s) =
     (case (if starts_with JOB_OPEN (c # s) then bkill_id (drop (length JOB_OPEN) (c # s)) else None) of
        Some (jid, r) \<Rightarrow>
          Some (jid, py_lstrip (case r of d # r' \<Rightarrow> if d = CHR '':'' then r' else r | [] \<Rightarrow> r))
      | None \<Rightarrow> bkill_line s)"

datatype bkill_verdict = Accepted | Gone | Unresolved

definition bkill_verdict :: "string \<Rightarrow> bkill_verdict" where
  "bkill_verdict msg =
     (let m = py_lower msg
      in if contains_any BKILL_ACCEPTED_MSGS m then Accepted
         else if contains_any BKILL_GONE_MSGS m then Gone else Unresolved)"

definition bkill_ids :: "string set \<Rightarrow> string \<Rightarrow> string set" where
  "bkill_ids requested jid =
     (let parent = takeWhile (\<lambda>c. c \<noteq> CHR ''['') jid
      in if CHR ''['' \<in> set jid \<and> parent \<in> requested then {jid, parent} else {jid})"

type_synonym bkill_sets = "string set \<times> string set \<times> string set"

definition bkill_step :: "string set \<Rightarrow> bkill_sets \<Rightarrow> string \<Rightarrow> bkill_sets" where
  "bkill_step requested acc line =
     (case acc of (resolved, accepted, unresolved) \<Rightarrow>
        (case bkill_line line of
           None \<Rightarrow> (resolved, accepted, unresolved)
         | Some (jid, msg) \<Rightarrow>
             (let ids = bkill_ids requested jid
              in case bkill_verdict msg of
                   Accepted \<Rightarrow> (resolved \<union> ids, accepted \<union> ids, unresolved)
                 | Gone \<Rightarrow> (resolved \<union> ids, accepted, unresolved)
                 | Unresolved \<Rightarrow> (resolved, accepted, unresolved \<union> ids))))"

definition parse_bkill_lines :: "string list \<Rightarrow> string set \<Rightarrow> string set \<times> string set" where
  "parse_bkill_lines lines requested =
     (case foldl (bkill_step requested) ({}, {}, {}) lines of
        (resolved, accepted, unresolved) \<Rightarrow> (resolved - unresolved, accepted))"

definition parse_bkill_resolved :: "string \<Rightarrow> string set \<Rightarrow> string set \<times> string set" where
  "parse_bkill_resolved text requested = parse_bkill_lines (py_splitlines text) requested"

text \<open>The ids a line speaks of, by its verdict; the parser collects them over all lines.\<close>

definition spoken :: "string set \<Rightarrow> bkill_verdict \<Rightarrow> string \<Rightarrow> string set" where
  "spoken requested v line =
     (case bkill_line line of
        None \<Rightarrow> {}
      | Some (jid, msg) \<Rightarrow> if bkill_verdict msg = v then bkill_ids requested jid else {})"

lemma bkill_fold:
  "foldl (bkill_step req) (r, a, u) lines =
     (r \<union> (\<Union>l\<in>set lines. spoken req Accepted l \<union> spoken req Gone l),
      a \<union> (\<Union>l\<in>set lines. spoken req Accepted l),
      u \<union> (\<Union>l\<in>set lines. spoken req Unresolved l))"
proof (induction lines arbitrary: r a u)
  case Nil
  then show ?case by simp
next
  case (Cons l lines)
  have "bkill_step req (r, a, u) l = (r \<union> (spoken req Accepted l \<union> spoken req Gone l),
      a \<union> spoken req Accepted l, u \<union> spoken req Unresolved l)"
    by (cases "bkill_line l"; cases "bkill_verdict (snd (the (bkill_line l)))")
      (auto simp: bkill_step_def spoken_def Let_def split: prod.splits)
  then show ?case by (simp add: Cons Un_assoc)
qed

lemma parse_bkill_lines_eq:
  "parse_bkill_lines lines req =
     ((\<Union>l\<in>set lines. spoken req Accepted l \<union> spoken req Gone l) - (\<Union>l\<in>set lines. spoken req Unresolved l),
      \<Union>l\<in>set lines. spoken req Accepted l)"
  by (simp add: parse_bkill_lines_def bkill_fold)

section \<open>Reading bjobs\<close>

definition clean_field :: "string \<Rightarrow> string option" where
  "clean_field s = (let t = py_strip s in if t \<noteq> [] \<and> t \<noteq> ''-'' then Some t else None)"

definition BJOBS_FIELD_ERR :: "string list" where
  "BJOBS_FIELD_ERR = [''run_time'', ''start_time'', ''finish_time'', ''source_cluster'', ''forward_cluster'',
     ''unknown field'', ''bad field'', ''field name'', ''illegal'', ''not a valid'', ''unrecognized'',
     ''output format'', ''format specification'', ''invalid format'', ''illegal option'']"

definition looks_like_field_error :: "string \<Rightarrow> bool" where
  "looks_like_field_error e \<longleftrightarrow> contains_any BJOBS_FIELD_ERR (py_lower e)"

definition parse_run_time :: "string \<Rightarrow> int option" where
  "parse_run_time s =
     (let t = py_strip s
      in if t = [] \<or> t = ''-'' then None
         else (let d = digits_of (dropWhile (\<lambda>c. \<not> is_digit c) t)
               in if d = [] then None else Some (int_of_digits d)))"

text \<open>
  Times. A parsed time is a calendar time; \<open>days_from_civil\<close> and \<open>civil_year\<close> convert between
  it and microseconds since 1970-01-01, the model's \<open>datetime\<close>.
\<close>

record civil =
  cv_year :: int
  cv_month :: int
  cv_day :: int
  cv_hour :: int
  cv_minute :: int
  cv_second :: int

definition leap_year :: "int \<Rightarrow> bool" where
  "leap_year y \<longleftrightarrow> y mod 4 = 0 \<and> (y mod 100 \<noteq> 0 \<or> y mod 400 = 0)"

definition days_in_month :: "int \<Rightarrow> int \<Rightarrow> int" where
  "days_in_month y m = (if m = 2 then (if leap_year y then 29 else 28)
                        else if m \<in> {4, 6, 9, 11} then 30 else 31)"

definition valid_date :: "int \<Rightarrow> int \<Rightarrow> int \<Rightarrow> bool" where
  "valid_date y m d \<longleftrightarrow> 1 \<le> y \<and> y \<le> 9999 \<and> 1 \<le> m \<and> m \<le> 12 \<and> 1 \<le> d \<and> d \<le> days_in_month y m"

definition days_before_year :: "int \<Rightarrow> int" where
  "days_before_year y = (let z = y - 1 in 365 * z + z div 4 - z div 100 + z div 400)"

fun days_before_month :: "int \<Rightarrow> nat \<Rightarrow> int" where
  "days_before_month y 0 = 0"
| "days_before_month y (Suc n) = days_before_month y n + days_in_month y (int (Suc n))"

definition civil_days :: "civil \<Rightarrow> int" where
  "civil_days c = days_before_year (cv_year c) + days_before_month (cv_year c) (nat (cv_month c - 1)) + (cv_day c - 1)
     - days_before_year 1970"

definition civil_datetime :: "civil \<Rightarrow> datetime" where
  "civil_datetime c =
     1000000 * (86400 * civil_days c + 3600 * cv_hour c + 60 * cv_minute c + cv_second c)"

lemma days_before_year_step: "364 \<le> days_before_year (y + 1) - days_before_year y"
proof -
  have "(y - 1) div 4 \<le> y div 4" "(y - 1) div 400 \<le> y div 400" by (rule zdiv_mono1; simp)+
  moreover have "y div 100 \<le> (y - 1 + 100) div 100" by (rule zdiv_mono1) simp_all
  then have "y div 100 \<le> (y - 1) div 100 + 1" by simp
  ultimately show ?thesis by (simp add: days_before_year_def Let_def)
qed

text \<open>The calendar year of a time: at most the estimate from 366-day years, then upwards.\<close>

function year_from :: "int \<Rightarrow> int \<Rightarrow> int" where
  "year_from days y =
     (if days_before_year (y + 1) - days_before_year 1970 \<le> days then year_from days (y + 1) else y)"
  by pat_completeness auto

termination
proof (relation "measure (\<lambda>(days, y). nat (days + days_before_year 1970 - days_before_year y))")
  fix days y
  assume "days_before_year (y + 1) - days_before_year 1970 \<le> days"
  with days_before_year_step [of y]
  show "((days, y + 1), days, y) \<in> measure (\<lambda>(days, y). nat (days + days_before_year 1970 - days_before_year y))"
    by simp
qed simp

definition datetime_year :: "datetime \<Rightarrow> int" where
  "datetime_year t = (let days = t div 86400000000 in year_from days (1970 + days div 366 - 1))"

definition MONTHS :: "string list" where
  "MONTHS = [''jan'', ''feb'', ''mar'', ''apr'', ''may'', ''jun'', ''jul'', ''aug'', ''sep'', ''oct'', ''nov'', ''dec'']"

text \<open>The directives of the five formats, as \<open>strptime\<close> reads them.\<close>

datatype directive = DYear4 | DMonthNum | DMonthName | DDay | DHour | DMinute | DSecond | DLit char | DSpace

definition number_between :: "int \<Rightarrow> int \<Rightarrow> string \<Rightarrow> (int \<times> string) option" where
  "number_between lo hi s =
     (let d = take 2 (digits_of s); one = take 1 d
      in if d = [] then None
         else if lo \<le> int_of_digits d \<and> int_of_digits d \<le> hi then Some (int_of_digits d, drop (length d) s)
         else if lo \<le> int_of_digits one \<and> int_of_digits one \<le> hi then Some (int_of_digits one, drop 1 s)
         else None)"

fun month_index :: "string list \<Rightarrow> int \<Rightarrow> string \<Rightarrow> int option" where
  "month_index [] i s = None"
| "month_index (m # ms) i s = (if starts_with m (py_lower s) then Some i else month_index ms (i + 1) s)"

definition read_directive :: "directive \<Rightarrow> civil \<Rightarrow> string \<Rightarrow> (civil \<times> string) option" where
  "read_directive d c s =
     (case d of
        DYear4 \<Rightarrow>
          (if length (take 4 (digits_of s)) = 4
           then Some (c\<lparr>cv_year := int_of_digits (take 4 s)\<rparr>, drop 4 s) else None)
      | DMonthNum \<Rightarrow> map_option (\<lambda>(n, r). (c\<lparr>cv_month := n\<rparr>, r)) (number_between 1 12 s)
      | DMonthName \<Rightarrow> map_option (\<lambda>n. (c\<lparr>cv_month := n\<rparr>, drop 3 s)) (month_index MONTHS 1 s)
      | DDay \<Rightarrow>
          map_option (\<lambda>(n, r). (c\<lparr>cv_day := n\<rparr>, r))
            (if starts_with '' '' s then number_between 1 9 (drop 1 s) else number_between 1 31 s)
      | DHour \<Rightarrow> map_option (\<lambda>(n, r). (c\<lparr>cv_hour := n\<rparr>, r)) (number_between 0 23 s)
      | DMinute \<Rightarrow> map_option (\<lambda>(n, r). (c\<lparr>cv_minute := n\<rparr>, r)) (number_between 0 59 s)
      | DSecond \<Rightarrow> map_option (\<lambda>(n, r). (c\<lparr>cv_second := n\<rparr>, r)) (number_between 0 61 s)
      | DLit a \<Rightarrow> (case s of b # r \<Rightarrow> if a = b then Some (c, r) else None | [] \<Rightarrow> None)
      | DSpace \<Rightarrow> (case s of b # r \<Rightarrow> if py_isspace b then Some (c, py_lstrip r) else None | [] \<Rightarrow> None))"

fun read_format :: "directive list \<Rightarrow> civil \<Rightarrow> string \<Rightarrow> civil option" where
  "read_format [] c s =
     (if s = [] \<and> valid_date (cv_year c) (cv_month c) (cv_day c) \<and> cv_second c \<le> 59 then Some c else None)"
| "read_format (d # ds) c s =
     (case read_directive d c s of None \<Rightarrow> None | Some (c', s') \<Rightarrow> read_format ds c' s')"

definition strptime :: "string \<Rightarrow> directive list \<Rightarrow> civil option" where
  "strptime s fmt = read_format fmt \<lparr> cv_year = 1900, cv_month = 1, cv_day = 1, cv_hour = 0, cv_minute = 0, cv_second = 0 \<rparr> s"

definition FMT_TIME :: "directive list" where
  "FMT_TIME = [DHour, DLit CHR '':'', DMinute]"

text \<open>The formats with, for each, whether it names the year.\<close>

definition LSF_TIME_FORMATS :: "(directive list \<times> bool) list" where
  "LSF_TIME_FORMATS =
     [([DYear4, DLit CHR ''-'', DMonthNum, DLit CHR ''-'', DDay, DSpace] @ FMT_TIME @ [DLit CHR '':'', DSecond], True),
      ([DMonthName, DSpace, DDay, DSpace] @ FMT_TIME @ [DLit CHR '':'', DSecond, DSpace, DYear4], True),
      ([DMonthName, DSpace, DDay, DSpace] @ FMT_TIME @ [DSpace, DYear4], True),
      ([DMonthName, DSpace, DDay, DSpace] @ FMT_TIME @ [DLit CHR '':'', DSecond], False),
      ([DMonthName, DSpace, DDay, DSpace] @ FMT_TIME, False)]"

definition LSF_TIME_FUTURE_TOLERANCE :: int where
  "LSF_TIME_FUTURE_TOLERANCE = 86400000000"

text \<open>\<open>re.sub(r"\s+[A-Z]$", "", s)\<close> on a stripped text.\<close>

definition drop_status_suffix :: "string \<Rightarrow> string" where
  "drop_status_suffix s =
     (case rev s of
        c # d # r \<Rightarrow>
          if 65 \<le> (of_char c :: nat) \<and> (of_char c :: nat) \<le> 90 \<and> py_isspace d
          then rev (dropWhile py_isspace r) else s
      | _ \<Rightarrow> s)"

definition try_format :: "string \<Rightarrow> int \<Rightarrow> directive list \<times> bool \<Rightarrow> (civil \<times> bool) option" where
  "try_format s year fmt =
     (case fmt of (ds, with_year) \<Rightarrow>
        (if with_year then map_option (\<lambda>c. (c, False)) (strptime s ds)
         else
           (case strptime (s @ '' '' @ show_int year) (ds @ [DSpace, DYear4]) of
              Some c \<Rightarrow> Some (c, True)
            | None \<Rightarrow> map_option (\<lambda>c. (c, True))
                        (strptime (s @ '' '' @ show_int (year - 1)) (ds @ [DSpace, DYear4])))))"

fun try_formats :: "string \<Rightarrow> int \<Rightarrow> (directive list \<times> bool) list \<Rightarrow> (civil \<times> bool) option" where
  "try_formats s year [] = None"
| "try_formats s year (f # fs) =
     (case try_format s year f of Some r \<Rightarrow> Some r | None \<Rightarrow> try_formats s year fs)"

definition parse_lsf_time_cached :: "string \<Rightarrow> int \<Rightarrow> (civil \<times> bool) option" where
  "parse_lsf_time_cached s year =
     (if take 2 (rev s) = ''E '' then None
      else
        (let t = py_strip (drop_status_suffix s)
         in if t = [] \<or> t = ''-'' then None else try_formats t year LSF_TIME_FORMATS))"

definition parse_lsf_time :: "string \<Rightarrow> datetime \<Rightarrow> datetime option" where
  "parse_lsf_time s now =
     (case parse_lsf_time_cached (py_strip s) (datetime_year now) of
        None \<Rightarrow> None
      | Some (c, yearless) \<Rightarrow>
          (if yearless \<and> civil_datetime c > now + LSF_TIME_FUTURE_TOLERANCE
           then (let c' = c\<lparr>cv_year := cv_year c - 1\<rparr>
                 in if valid_date (cv_year c') (cv_month c') (cv_day c') then Some (civil_datetime c') else None)
           else Some (civil_datetime c)))"

text \<open>\<open>_ARRAY_ID_RE\<close> on a stripped field.\<close>

definition match_array_id :: "string \<Rightarrow> (int \<times> int option) option" where
  "match_array_id s =
     (case match_target s of
        Some (TWhole pid) \<Rightarrow> Some (pid, None)
      | Some (TElem pid i) \<Rightarrow> Some (pid, Some i)
      | _ \<Rightarrow> None)"

definition parse_bjobs_line :: "datetime \<Rightarrow> string \<Rightarrow> JobStatus option" where
  "parse_bjobs_line now line =
     (let parts = map py_strip (py_split (CHR '';'') (py_strip line))
      in if py_strip line = [] \<or> length parts < 3 then None
         else
           (case match_array_id (parts ! 0) of
              None \<Rightarrow> None
            | Some (pid, idx) \<Rightarrow>
                (let state = dget_or LSF_STAT_MAP (parts ! 1) UNKWN;
                     exit_code = (if parts ! 2 \<in> {[], ''-''} then None else py_int_of_string (parts ! 2));
                     ext = (length parts = 6 \<or> length parts = 8);
                     mc = (length parts = 8)
                 in Some \<lparr> st_job_id = pid, st_array_index = idx, st_state = state, st_exit_code = exit_code,
                      st_run_time_s = (if ext then parse_run_time (parts ! 3) else None),
                      st_start_time = (if ext then parse_lsf_time (parts ! 4) now else None),
                      st_finish_time = (if ext \<and> state \<in> {DONE, EXIT} then parse_lsf_time (parts ! 5) now else None),
                      st_source_cluster = (if mc then clean_field (parts ! 6) else None),
                      st_forward_cluster = (if mc then clean_field (parts ! 7) else None) \<rparr>)))"

definition parse_bjobs :: "datetime \<Rightarrow> string \<Rightarrow> JobStatus list" where
  "parse_bjobs now stdout = List.map_filter (parse_bjobs_line now) (py_splitlines stdout)"

section \<open>Splitting argument lists\<close>

fun chunk_go :: "string list \<Rightarrow> int \<Rightarrow> int \<Rightarrow> int \<Rightarrow> string list \<Rightarrow> int \<Rightarrow> py_error + string list list" where
  "chunk_go [] csize argmax base chunk len = Inr (if chunk = [] then [] else [chunk])"
| "chunk_go (item # items) csize argmax base chunk len =
     (let add = int (length item) + 1
      in if base + add > argmax then Inl (ArgMaxExceededError (take 80 item))
         else if chunk \<noteq> [] \<and> (int (length chunk) \<ge> csize \<or> len + add > argmax)
         then ebind (chunk_go items csize argmax base [item] (base + add)) (\<lambda>cs. Inr (chunk # cs))
         else chunk_go items csize argmax base (chunk @ [item]) (len + add))"

definition chunk_args :: "string list \<Rightarrow> int \<Rightarrow> int \<Rightarrow> int \<Rightarrow> py_error + string list list" where
  "chunk_args items csize argmax base = chunk_go items csize argmax base [] base"

definition args_length :: "int \<Rightarrow> string list \<Rightarrow> int" where
  "args_length base chunk = base + sum_list (map (\<lambda>i. int (length i) + 1) chunk)"

definition chunk_ok :: "int \<Rightarrow> int \<Rightarrow> int \<Rightarrow> string list \<Rightarrow> bool" where
  "chunk_ok csize argmax base chunk \<longleftrightarrow>
     chunk \<noteq> [] \<and> int (length chunk) \<le> max 1 csize \<and> args_length base chunk \<le> argmax"

lemma args_length_snoc: "args_length base (c @ [i]) = args_length base c + int (length i) + 1"
  by (simp add: args_length_def)

lemma chunk_go_ok:
  assumes "chunk_go items csize argmax base chunk len = Inr cs"
    and "len = args_length base chunk" and "chunk = [] \<or> chunk_ok csize argmax base chunk"
  shows "concat cs = chunk @ items \<and> list_all (chunk_ok csize argmax base) cs"
  using assms
proof (induction items arbitrary: chunk len cs)
  case Nil
  then show ?case by (auto split: if_splits)
next
  case (Cons item items)
  let ?add = "int (length item) + 1"
  have fits: "base + ?add \<le> argmax" using Cons.prems(1) by (auto simp: Let_def split: if_splits)
  show ?case
  proof (cases "chunk \<noteq> [] \<and> (int (length chunk) \<ge> csize \<or> len + ?add > argmax)")
    case True
    with Cons.prems(1) fits obtain rest where
      rest: "chunk_go items csize argmax base [item] (base + ?add) = Inr rest" "cs = chunk # rest"
      by (auto simp: Let_def ebind_eq_Inr)
    have "chunk_ok csize argmax base [item]" using fits by (simp add: chunk_ok_def args_length_def)
    with Cons.IH [OF rest(1)] rest(2) True Cons.prems(3) show ?thesis by (simp add: args_length_def)
  next
    case False
    then have run: "chunk_go items csize argmax base (chunk @ [item]) (len + ?add) = Inr cs"
      using Cons.prems(1) fits by (auto simp: Let_def)
    have len: "len + ?add = args_length base (chunk @ [item])" using Cons.prems(2) by (simp add: args_length_snoc)
    have "chunk_ok csize argmax base (chunk @ [item])"
      using False fits len Cons.prems(2) by (cases "chunk = []") (auto simp: chunk_ok_def args_length_def)
    with Cons.IH [OF run len] show ?thesis by simp
  qed
qed

lemma chunk_go_total:
  assumes "\<forall>i\<in>set items. base + int (length i) + 1 \<le> argmax"
  shows "\<exists>cs. chunk_go items csize argmax base chunk len = Inr cs"
  using assms
proof (induction items arbitrary: chunk len)
  case Nil
  then show ?case by simp
next
  case (Cons item items)
  then obtain cs1 cs2 where "chunk_go items csize argmax base [item] (base + (int (length item) + 1)) = Inr cs1"
    "chunk_go items csize argmax base (chunk @ [item]) (len + (int (length item) + 1)) = Inr cs2"
    by (metis list.set_intros(2))
  with Cons.prems show ?case by (auto simp: Let_def)
qed

section \<open>The command object\<close>

text \<open>The settings of \<open>LsfConfig\<close> that this class reads, with their types after its checks.\<close>

record command_config =
  cc_bjobs_path :: CmdPath
  cc_bkill_path :: CmdPath
  cc_submit_timeout_s :: seconds
  cc_query_timeout_s :: seconds
  cc_kill_timeout_s :: seconds
  cc_chunk_size :: int
  cc_kill_chunk_size :: int
  cc_arg_max :: int
  cc_wrapper :: "(string \<times> CmdPath) option"
  cc_collect_clusters :: bool

definition prog_len :: "CmdPath \<Rightarrow> int" where
  "prog_len p = sum_list (map (\<lambda>t. int (length t) + 1) (cmd_tokens p))"

subsection \<open>Submitting\<close>

text \<open>\<open>fnmatch.fnmatchcase\<close>: a pattern read into tokens, and matching.\<close>

datatype pat_token = PStar | PAny | PChar char | PSet bool "(char \<times> char) list"

fun set_ranges :: "string \<Rightarrow> (char \<times> char) list" where
  "set_ranges (a # m # b # s) =
     (if m = CHR ''-'' then (a, b) # set_ranges s else (a, a) # set_ranges (m # b # s))"
| "set_ranges [a, b] = [(a, a), (b, b)]"
| "set_ranges [a] = [(a, a)]"
| "set_ranges [] = []"

text \<open>The body of a bracket group: \<open>]\<close> right after the opening (or after \<open>!\<close>) is a member.\<close>

definition group_body :: "string \<Rightarrow> (bool \<times> string \<times> string) option" where
  "group_body s =
     (let neg = starts_with ''!'' s; s1 = (if neg then drop 1 s else s);
          first = (if starts_with '']'' s1 then '']'' else []); s2 = drop (length first) s1;
          body = takeWhile (\<lambda>c. c \<noteq> CHR '']'') s2; rest = drop (length body) s2
      in if rest = [] then None else Some (neg, first @ body, drop 1 rest))"

lemma group_body_length: "group_body s = Some (neg, body, rest) \<Longrightarrow> length rest < Suc (length s)"
  by (auto simp: group_body_def Let_def split: if_splits)

function read_pattern :: "string \<Rightarrow> pat_token list" where
  "read_pattern [] = []"
| "read_pattern (c # s) =
     (if c = CHR ''*'' then PStar # read_pattern s
      else if c = CHR ''?'' then PAny # read_pattern s
      else if c = CHR ''['' then
        (case group_body s of
           None \<Rightarrow> PChar c # read_pattern s
         | Some (neg, body, rest) \<Rightarrow> PSet neg (set_ranges body) # read_pattern rest)
      else PChar c # read_pattern s)"
  by pat_completeness auto

termination by (relation "measure length") (auto dest: group_body_length)

definition char_le :: "char \<Rightarrow> char \<Rightarrow> bool" where
  "char_le a b \<longleftrightarrow> (of_char a :: nat) \<le> of_char b"

fun match_tokens :: "pat_token list \<Rightarrow> string \<Rightarrow> bool" where
  "match_tokens [] s = (s = [])"
| "match_tokens (PStar # ts) [] = match_tokens ts []"
| "match_tokens (PStar # ts) (c # s) = (match_tokens ts (c # s) \<or> match_tokens (PStar # ts) s)"
| "match_tokens (PAny # ts) [] = False"
| "match_tokens (PAny # ts) (c # s) = match_tokens ts s"
| "match_tokens (PChar a # ts) [] = False"
| "match_tokens (PChar a # ts) (c # s) = (a = c \<and> match_tokens ts s)"
| "match_tokens (PSet neg rs # ts) [] = False"
| "match_tokens (PSet neg rs # ts) (c # s) =
     (neg \<noteq> list_ex (\<lambda>(lo, hi). char_le lo c \<and> char_le c hi) rs \<and> match_tokens ts s)"

definition fnmatchcase :: "string \<Rightarrow> string \<Rightarrow> bool" where
  "fnmatchcase name pattern = match_tokens (read_pattern pattern) name"

definition base_name :: "string \<Rightarrow> string" where
  "base_name p = rev (takeWhile (\<lambda>c. c \<noteq> CHR ''/'') (rev p))"

definition apply_wrapper_pattern :: "command_config \<Rightarrow> string list \<Rightarrow> string list" where
  "apply_wrapper_pattern cfg argv =
     (case cc_wrapper cfg of
        None \<Rightarrow> argv
      | Some (pattern, cmd) \<Rightarrow>
          (case argv of
             [] \<Rightarrow> []
           | prog # args \<Rightarrow>
               if fnmatchcase (base_name prog) pattern then cmd_tokens cmd @ args else argv))"

definition submit_failure :: "string \<Rightarrow> int option \<Rightarrow> string \<Rightarrow> string \<Rightarrow> bool \<Rightarrow> string \<Rightarrow> py_error" where
  "submit_failure reason rc err out retryable msg =
     SubmitError \<lparr> se_message = msg, se_fail_reason = reason, se_returncode = rc, se_stderr = err,
       se_stdout = out, se_retryable = retryable \<rparr>"

definition run_submit :: "'w runner \<Rightarrow> command_config \<Rightarrow> string list \<Rightarrow> seconds option \<Rightarrow> string option
    \<Rightarrow> 'w \<Rightarrow> (int, 'w) outcome" where
  "run_submit runner cfg argv timeout_s cwd w =
     (let to = (case timeout_s of Some t \<Rightarrow> t | None \<Rightarrow> cc_submit_timeout_s cfg)
      in case runner (apply_wrapper_pattern cfg argv) to cwd w of
           (Inl TimeoutExpired, w') \<Rightarrow>
             (Inl (submit_failure ''BSUB_TIMEOUT'' None [] [] False ''wrapper timeout''), w')
         | (Inl OSError, w') \<Rightarrow>
             (Inl (submit_failure ''BSUB_OSERROR'' None [] [] False ''wrapper failed to start''), w')
         | (Inl e, w') \<Rightarrow> (Inl e, w')
         | (Inr res, w') \<Rightarrow>
             (if cr_returncode res \<noteq> 0
              then (Inl (submit_failure (''BSUB_EXIT_'' @ show_int (cr_returncode res)) (Some (cr_returncode res))
                      (cr_stderr res) (cr_stdout res) True
                      (''wrapper exit '' @ show_int (cr_returncode res))), w')
              else
                (case find_job_id (cr_stdout res) of
                   None \<Rightarrow> (Inl (submit_failure ''NO_JOBID_PARSED'' None (cr_stderr res) (cr_stdout res) False
                              ''no job id''), w')
                 | Some d \<Rightarrow> (Inr (int_of_digits d), w'))))"

subsection \<open>Querying\<close>

text \<open>
  \<open>stopped\<close> reads the shutdown flag, which another thread may set while the query runs.
\<close>

definition run_query :: "('w \<Rightarrow> bool) \<Rightarrow> 'w runner \<Rightarrow> command_config \<Rightarrow> string list \<Rightarrow> 'w
    \<Rightarrow> (CommandResult, 'w) outcome" where
  "run_query stopped runner cfg argv w =
     (if stopped w then (Inl (LsfCommandError None []), w)
      else
        (case runner argv (cc_query_timeout_s cfg) None w of
           (Inl TimeoutExpired, w') \<Rightarrow> (Inl (LsfCommandError None []), w')
         | (Inl e, w') \<Rightarrow> (Inl e, w')
         | (Inr res, w') \<Rightarrow>
             (if stopped w' then (Inl (LsfCommandError None []), w')
              else if cr_returncode res \<noteq> 0
                \<and> \<not> contains_any NO_JOB_PATTERNS (py_lower (cr_stderr res @ cr_stdout res))
              then (Inl (LsfCommandError (Some (cr_returncode res)) (cr_stderr res)), w')
              else (Inr res, w'))))"

definition BJOBS_DELIM :: string where
  "BJOBS_DELIM = ''delimiter='' @ [CHR 0x27, CHR '';'', CHR 0x27]"

definition BJOBS_CORE_FMT :: string where
  "BJOBS_CORE_FMT = ''jobid stat exit_code '' @ BJOBS_DELIM"

definition BJOBS_FULL_FMT :: string where
  "BJOBS_FULL_FMT = ''jobid stat exit_code run_time start_time finish_time '' @ BJOBS_DELIM"

definition BJOBS_FULL_MC_FMT :: string where
  "BJOBS_FULL_MC_FMT =
     ''jobid stat exit_code run_time start_time finish_time source_cluster forward_cluster '' @ BJOBS_DELIM"

definition bjobs_formats :: "command_config \<Rightarrow> string list" where
  "bjobs_formats cfg =
     (if cc_collect_clusters cfg then [BJOBS_FULL_MC_FMT, BJOBS_FULL_FMT, BJOBS_CORE_FMT]
      else [BJOBS_FULL_FMT, BJOBS_CORE_FMT])"

text \<open>
  The retry loop of \<open>_bjobs\<close>: a field error steps to the next format, which the object then
  keeps. Its state is the format index and the world.
\<close>

function bjobs_loop :: "(string \<Rightarrow> 'w \<Rightarrow> (CommandResult, 'w) outcome) \<Rightarrow> string list \<Rightarrow> nat \<times> 'w
    \<Rightarrow> (CommandResult, nat \<times> 'w) outcome" where
  "bjobs_loop run formats (idx, w) =
     (case run (formats ! idx) w of
        (Inr res, w') \<Rightarrow> (Inr res, (idx, w'))
      | (Inl (LsfCommandError rc err), w') \<Rightarrow>
          (if Suc idx < length formats \<and> looks_like_field_error err
           then bjobs_loop run formats (Suc idx, w')
           else (Inl (LsfCommandError rc err), (idx, w')))
      | (Inl e, w') \<Rightarrow> (Inl e, (idx, w')))"
  by pat_completeness auto

termination by (relation "measure (\<lambda>(run, formats, idx, w). length formats - idx)") auto

declare bjobs_loop.simps [simp del]

definition bjobs :: "('w \<Rightarrow> bool) \<Rightarrow> 'w runner \<Rightarrow> command_config \<Rightarrow> datetime \<Rightarrow> string list \<Rightarrow> nat \<times> 'w
    \<Rightarrow> (JobStatus list, nat \<times> 'w) outcome" where
  "bjobs stopped runner cfg now selector st =
     obind (bjobs_loop
              (\<lambda>fmt. run_query stopped runner cfg
                 (cmd_tokens (cc_bjobs_path cfg) @ [''-noheader'', ''-o'', fmt] @ selector))
              (bjobs_formats cfg) st)
       (\<lambda>res st. (Inr (parse_bjobs now (cr_stdout res)), st))"

definition id_of_string :: "string \<Rightarrow> int" where
  "id_of_string s = the (py_int_of_string s)"

fun query_chunks :: "(string list \<Rightarrow> 's \<Rightarrow> (JobStatus list, 's) outcome) \<Rightarrow> string list list \<Rightarrow> nat
    \<Rightarrow> JobStatus list \<Rightarrow> int list \<Rightarrow> 's \<Rightarrow> (JobStatus list \<times> int list, 's) outcome" where
  "query_chunks q [] consecutive out failed s = (Inr (out, failed), s)"
| "query_chunks q (c # cs) consecutive out failed s =
     (case q c s of
        (Inr sts, s') \<Rightarrow> query_chunks q cs 0 (out @ sts) failed s'
      | (Inl (LsfCommandError rc err), s') \<Rightarrow>
          (let failed' = failed @ map id_of_string c
           in if Suc consecutive \<ge> 2 \<and> cs \<noteq> []
              then (Inr (out, failed' @ map id_of_string (concat cs)), s')
              else query_chunks q cs (Suc consecutive) out failed' s')
      | (Inl e, s') \<Rightarrow> (Inl e, s'))"

definition bjobs_base_len :: "command_config \<Rightarrow> int" where
  "bjobs_base_len cfg = prog_len (cc_bjobs_path cfg) + 40"

definition bjobs_by_ids :: "(string list \<Rightarrow> 's \<Rightarrow> (JobStatus list, 's) outcome) \<Rightarrow> command_config \<Rightarrow> int list
    \<Rightarrow> 's \<Rightarrow> (JobStatus list \<times> int list, 's) outcome" where
  "bjobs_by_ids q cfg ids s =
     (case chunk_args (map show_int ids) (cc_chunk_size cfg) (cc_arg_max cfg) (bjobs_base_len cfg) of
        Inl e \<Rightarrow> (Inl e, s)
      | Inr chunks \<Rightarrow> query_chunks q chunks 0 [] [] s)"

subsection \<open>Killing\<close>

definition bkill_argv :: "command_config \<Rightarrow> string list \<Rightarrow> string list" where
  "bkill_argv cfg chunk = cmd_tokens (cc_bkill_path cfg) @ chunk"

definition bkill_base_len :: "command_config \<Rightarrow> int" where
  "bkill_base_len cfg = prog_len (cc_bkill_path cfg) + 10"

type_synonym chunk_result = "string set \<times> string set \<times> string set"

definition run_bkill_chunk :: "'w runner \<Rightarrow> command_config \<Rightarrow> string list \<Rightarrow> 'w \<Rightarrow> (chunk_result, 'w) outcome" where
  "run_bkill_chunk runner cfg chunk w =
     (case runner (bkill_argv cfg chunk) (cc_kill_timeout_s cfg) None w of
        (Inl TimeoutExpired, w') \<Rightarrow> (Inr ({}, {}, set chunk), w')
      | (Inl e, w') \<Rightarrow> (Inl e, w')
      | (Inr res, w') \<Rightarrow>
          (let (got, acc) = parse_bkill_resolved (cr_stdout res @ [newline] @ cr_stderr res) (set chunk)
           in (Inr (got, acc, {}), w')))"

text \<open>The pool runs every chunk; the results come back in the order the chunks complete.\<close>

fun run_bkill_chunks :: "'w runner \<Rightarrow> command_config \<Rightarrow> string list list \<Rightarrow> 'w
    \<Rightarrow> (nat \<times> (py_error + chunk_result)) list \<times> 'w" where
  "run_bkill_chunks runner cfg [] w = ([], w)"
| "run_bkill_chunks runner cfg (c # cs) w =
     (let (r, w1) = run_bkill_chunk runner cfg c w; (rs, w2) = run_bkill_chunks runner cfg cs w1
      in ((length c, r) # rs, w2))"

fun bkill_collect :: "(nat \<times> (py_error + chunk_result)) list \<Rightarrow> chunk_result \<Rightarrow> nat
    \<Rightarrow> nat list \<times> (py_error + chunk_result)" where
  "bkill_collect [] acc processed = ([], Inr acc)"
| "bkill_collect ((n, Inl e) # rs) acc processed = ([], Inl e)"
| "bkill_collect ((n, Inr (got, ac, late)) # rs) (resolved, accepted, timed_out) processed =
     (let (progress, out) = bkill_collect rs (resolved \<union> got, accepted \<union> ac, timed_out \<union> late) (processed + n)
      in ((processed + n) # progress, out))"

definition bkill_targets_confirm :: "'w runner \<Rightarrow> command_config \<Rightarrow> bool
    \<Rightarrow> ((nat \<times> (py_error + chunk_result)) list \<Rightarrow> (nat \<times> (py_error + chunk_result)) list)
    \<Rightarrow> string list \<Rightarrow> 'w \<Rightarrow> (chunk_result \<times> nat \<times> nat list, 'w) outcome" where
  "bkill_targets_confirm runner cfg pool_open completed targets w =
     (case chunk_args targets (cc_kill_chunk_size cfg) (cc_arg_max cfg) (bkill_base_len cfg) of
        Inl e \<Rightarrow> (Inl e, w)
      | Inr chunks \<Rightarrow>
          (if chunks = [] then (Inr (({}, {}, {}), 0, []), w)
           else if \<not> pool_open then (Inl (LsfCommandError None []), w)
           else
             (let (results, w') = run_bkill_chunks runner cfg chunks w;
                  (progress, out) = bkill_collect (completed results) ({}, {}, {}) 0
              in (case out of
                    Inl e \<Rightarrow> (Inl e, w')
                  | Inr sets \<Rightarrow> (Inr (sets, length chunks, progress), w')))))"

section \<open>The status source contract\<close>

text \<open>
  What the poller and the killer rely on when they ask for statuses: an id is either reported
  as failed, in which case nothing may be concluded about it, or it was asked in a query
  whose whole answer is in the result. Only asked ids are reported as failed.
\<close>

locale status_source =
  fixes query :: "int list \<Rightarrow> 's \<Rightarrow> (JobStatus list \<times> int list, 's) outcome"
    and answered :: "int \<Rightarrow> JobStatus list \<Rightarrow> 's \<Rightarrow> bool"
  assumes failed_subset: "query ids s = (Inr (sts, failed), s') \<Longrightarrow> set failed \<subseteq> set ids"
    and not_failed_answered: "query ids s = (Inr (sts, failed), s') \<Longrightarrow> i \<in> set ids \<Longrightarrow> i \<notin> set failed
      \<Longrightarrow> answered i sts s'"
begin

lemma all_answered:
  "query ids s = (Inr (sts, []), s') \<Longrightarrow> i \<in> set ids \<Longrightarrow> answered i sts s'"
  using not_failed_answered by simp

lemma unanswered_failed:
  "query ids s = (Inr (sts, failed), s') \<Longrightarrow> i \<in> set ids \<Longrightarrow> \<not> answered i sts s' \<Longrightarrow> i \<in> set failed"
  using not_failed_answered by blast

lemma nothing_asked_nothing_failed: "query [] s = (Inr (sts, failed), s') \<Longrightarrow> failed = []"
  using failed_subset [of "[]"] by fastforce

end

text \<open>For bjobs: the id was in a chunk whose query succeeded, and its rows are all kept.\<close>

definition asked_ok :: "(string list \<Rightarrow> 's \<Rightarrow> (JobStatus list, 's) outcome) \<Rightarrow> int \<Rightarrow> JobStatus list \<Rightarrow> bool" where
  "asked_ok q i sts \<longleftrightarrow> (\<exists>c t rows t'. show_int i \<in> set c \<and> q c t = (Inr rows, t') \<and> set rows \<subseteq> set sts)"

lemma asked_ok_mono: "asked_ok q i sts \<Longrightarrow> set sts \<subseteq> set sts' \<Longrightarrow> asked_ok q i sts'"
  unfolding asked_ok_def by (meson order_trans)

lemma strip_show_int: "py_strip (show_int i) = show_int i"
proof -
  have nd: "\<not> py_isspace c" if "is_digit c \<or> c = CHR ''-''" for c
    using that by (auto simp: py_isspace_def is_digit_def)
  have "\<forall>c\<in>set (show_nat n). is_digit c" for n
    using show_nat_digits [of n] by (simp add: list_all_iff)
  then have all: "\<forall>c\<in>set (show_int i). \<not> py_isspace c"
    using nd by (auto simp: show_int_def)
  have "dropWhile py_isspace xs = xs" if "\<forall>c\<in>set xs. \<not> py_isspace c" for xs
    using that by (cases xs) auto
  with all show ?thesis unfolding py_strip_def py_lstrip_def by (metis set_rev rev_rev_ident)
qed

lemma py_int_show_int: "py_int_of_string (show_int i) = Some i"
proof -
  have d: "\<forall>c\<in>set (show_nat n). is_digit c" for n
    using show_nat_digits [of n] by (simp add: list_all_iff)
  have g: "digit_groups (show_nat n) = Some (show_nat n)" for n
  proof -
    have "CHR ''_'' \<notin> set (show_nat n)" using d [of n] by (auto simp: is_digit_def)
    then have "py_split (CHR ''_'') (show_nat n) = [show_nat n]" by (rule py_split_nosep)
    with d [of n] show ?thesis by (simp add: digit_groups_def filter_id_conv)
  qed
  have sgn: "split_sign (show_nat n) = (1, show_nat n)" for n
  proof (cases "show_nat n")
    case (Cons c cs)
    then have "is_digit c" using d [of n] by simp
    with Cons show ?thesis by (auto simp: is_digit_def)
  qed simp
  show ?thesis
  proof (cases "i < 0")
    case True
    then have "show_int i = CHR ''-'' # show_nat (nat (- i))" by (simp add: show_int_def)
    then show ?thesis
      using True strip_show_int [of i] by (simp add: py_int_of_string_def g)
  next
    case False
    then have "show_int i = show_nat (nat i)" by (simp add: show_int_def)
    then show ?thesis
      using False strip_show_int [of i] by (simp add: py_int_of_string_def g sgn)
  qed
qed

lemma id_of_show_int [simp]: "id_of_string (show_int i) = i"
  by (simp add: id_of_string_def py_int_show_int)

lemma query_chunks_ok:
  assumes "query_chunks q chunks n out failed s = (Inr (sts, failed'), s')"
  shows "set out \<subseteq> set sts \<and> set failed \<subseteq> set failed' \<and>
     set failed' \<subseteq> set failed \<union> id_of_string ` set (concat chunks) \<and>
     (\<forall>i. show_int i \<in> set (concat chunks) \<longrightarrow> i \<in> set failed' \<or> asked_ok q i sts)"
  using assms
proof (induction q chunks n out failed s rule: query_chunks.induct)
  case (1 q n out failed s)
  then show ?case by simp
next
  case (2 q c cs n out failed s)
  obtain r s1 where r: "q c s = (r, s1)" by (cases "q c s")
  have mem: "i \<in> id_of_string ` set xs" if "show_int i \<in> set xs" for i xs
    using that by (metis id_of_show_int imageI)
  show ?case
  proof (cases r)
    case (Inr rows)
    with 2 r have run: "query_chunks q cs 0 (out @ rows) failed s1 = (Inr (sts, failed'), s')" by simp
    have IH: "set (out @ rows) \<subseteq> set sts \<and> set failed \<subseteq> set failed' \<and>
       set failed' \<subseteq> set failed \<union> id_of_string ` set (concat cs) \<and>
       (\<forall>i. show_int i \<in> set (concat cs) \<longrightarrow> i \<in> set failed' \<or> asked_ok q i sts)"
      by (rule 2(2) [OF _ _ run]) (use r Inr in simp_all)
    have "asked_ok q i sts" if "show_int i \<in> set c" for i
      unfolding asked_ok_def using that r Inr IH by auto
    moreover have "id_of_string ` set (concat (c # cs)) = id_of_string ` set c \<union> id_of_string ` set (concat cs)"
      by (simp only: concat.simps set_append image_Un)
    ultimately show ?thesis using IH by (simp only: concat.simps set_append Un_iff) blast
  next
    case (Inl e)
    with 2(3) r obtain rc err where e: "e = LsfCommandError rc err"
      by (cases e) auto
    let ?f = "failed @ map id_of_string c"
    show ?thesis
    proof (cases "Suc n \<ge> 2 \<and> cs \<noteq> []")
      case True
      with 2(3) r Inl e have res: "sts = out" "failed' = ?f @ map id_of_string (concat cs)" by (auto simp: Let_def)
      have "i \<in> set failed'" if "show_int i \<in> set (concat (c # cs))" for i
        using mem [OF that] by (auto simp: res)
      then show ?thesis by (auto simp: res)
    next
      case False
      then have run: "query_chunks q cs (Suc n) out ?f s1 = (Inr (sts, failed'), s')"
        using 2(3) r Inl e by (auto simp: Let_def split: if_splits)
      have step: "set out \<subseteq> set sts \<and> set ?f \<subseteq> set failed' \<and>
         set failed' \<subseteq> set ?f \<union> id_of_string ` set (concat cs) \<and>
         (\<forall>i. show_int i \<in> set (concat cs) \<longrightarrow> i \<in> set failed' \<or> asked_ok q i sts)"
        by (rule 2(1) [OF _ _ _ refl False run]) (use r Inl e in simp_all)
      have "i \<in> set failed'" if "show_int i \<in> set c" for i
        using step mem [OF that] by auto
      moreover have "id_of_string ` set (concat (c # cs)) = id_of_string ` set c \<union> id_of_string ` set (concat cs)"
        by (simp only: concat.simps set_append image_Un)
      moreover have "set ?f = set failed \<union> id_of_string ` set c" by simp
      ultimately show ?thesis using step by (simp only: concat.simps set_append Un_iff) blast
    qed
  qed
qed

lemma bjobs_by_ids_ok:
  assumes "bjobs_by_ids q cfg ids s = (Inr (sts, failed), s')"
  shows "set failed \<subseteq> set ids \<and> (\<forall>i\<in>set ids. i \<in> set failed \<or> asked_ok q i sts)"
proof -
  from assms obtain chunks where chunks: "chunk_args (map show_int ids) (cc_chunk_size cfg) (cc_arg_max cfg)
      (bjobs_base_len cfg) = Inr chunks" "query_chunks q chunks 0 [] [] s = (Inr (sts, failed), s')"
    by (auto simp: bjobs_by_ids_def split: sum.splits)
  have "concat chunks = map show_int ids"
    using chunk_go_ok [OF chunks(1) [unfolded chunk_args_def]] by (simp add: args_length_def)
  with query_chunks_ok [OF chunks(2)] show ?thesis by (auto simp: image_iff)
qed

interpretation bjobs_source: status_source "bjobs_by_ids q cfg" "\<lambda>i sts s. asked_ok q i sts" for q cfg
proof unfold_locales
  fix ids s sts failed s'
  assume run: "bjobs_by_ids q cfg ids s = (Inr (sts, failed), s')"
  show "set failed \<subseteq> set ids" using bjobs_by_ids_ok [OF run] by blast
  fix i
  assume "i \<in> set ids" "i \<notin> set failed"
  then show "asked_ok q i sts" using bjobs_by_ids_ok [OF run] by blast
qed

section \<open>Properties of the commands\<close>

fun show_target :: "target_match \<Rightarrow> string" where
  "show_target (TWhole pid) = show_int pid"
| "show_target (TElem pid i) = show_elem pid i"
| "show_target (TRange pid lo hi) = show_range pid lo hi"

fun target_nonneg :: "target_match \<Rightarrow> bool" where
  "target_nonneg (TWhole pid) = (0 \<le> pid)"
| "target_nonneg (TElem pid i) = (0 \<le> pid \<and> 0 \<le> i)"
| "target_nonneg (TRange pid lo hi) = (0 \<le> pid \<and> 0 \<le> lo \<and> 0 \<le> hi)"

lemma match_show_target: "target_nonneg t \<Longrightarrow> match_target (show_target t) = Some t"
  by (cases t) (simp_all add: match_show)

lemma classify_fold:
  assumes "list_all target_nonneg ts"
  shows "foldl classify_step (w, e, r) (map show_target ts) =
    (w \<union> {p. TWhole p \<in> set ts}, e \<union> {(p, i). TElem p i \<in> set ts},
     r @ List.map_filter (\<lambda>t. case t of TRange p lo hi \<Rightarrow> Some (p, lo, hi) | _ \<Rightarrow> None) ts)"
  using assms
proof (induction ts arbitrary: w e r)
  case Nil
  then show ?case by (simp add: List.map_filter_def)
next
  case (Cons t ts)
  then have m: "match_target (show_target t) = Some t" by (simp add: match_show_target)
  show ?case
    using Cons.IH Cons.prems
    by (cases t) (auto simp: classify_step_def m [simplified] List.map_filter_def match_show)
qed

text \<open>
  Kill targets. Writing targets as the killer does ("id", "id[i]", "id[m-n]") and
  classifying the texts gives back exactly the whole jobs, the elements and, in order, the
  ranges.
\<close>

theorem classify_targets_roundtrip:
  assumes "list_all target_nonneg ts"
  shows "classify_targets (map show_target ts) =
    ({p. TWhole p \<in> set ts}, {(p, i). TElem p i \<in> set ts},
     List.map_filter (\<lambda>t. case t of TRange p lo hi \<Rightarrow> Some (p, lo, hi) | _ \<Rightarrow> None) ts)"
  using classify_fold [OF assms, of "{}" "{}" "[]"] by (simp add: classify_targets_def)

theorem classify_targets_roundtrip_witness:
  "classify_targets [''1000[3]'', ''7'', ''12[2-40]''] = ({7}, {(1000, 3)}, [(12, 2, 40)])"
proof -
  have t: "map show_target [TElem 1000 3, TWhole 7, TRange 12 2 40] = [''1000[3]'', ''7'', ''12[2-40]'']"
    by code_simp
  show ?thesis
    using classify_targets_roundtrip [of "[TElem 1000 3, TWhole 7, TRange 12 2 40]"]
    unfolding t by (auto simp: List.map_filter_def)
qed

text \<open>
  Argument lists. When every argument fits on its own, the list is split without loss,
  duplication or reordering into non-empty chunks that each respect the chunk size (at least
  one) and the total length limit.
\<close>

theorem chunk_args_complete:
  assumes "\<forall>i\<in>set items. base + int (length i) + 1 \<le> argmax"
  shows "\<exists>cs. chunk_args items csize argmax base = Inr cs \<and> concat cs = items \<and>
     list_all (chunk_ok csize argmax base) cs"
proof -
  obtain cs where "chunk_go items csize argmax base [] base = Inr cs"
    using chunk_go_total [OF assms] by blast
  with chunk_go_ok [OF this] show ?thesis by (simp add: chunk_args_def args_length_def)
qed

theorem chunk_args_complete_witness:
  "\<exists>cs. chunk_args [''12'', ''345'', ''6''] 2 20 5 = Inr cs \<and> concat cs = [''12'', ''345'', ''6''] \<and>
     list_all (chunk_ok 2 20 5) cs"
  by (rule chunk_args_complete) simp

text \<open>
  Reading bkill. A target counts as resolved exactly when some line accepts it or calls it
  gone and no line leaves it open; it counts as accepted exactly when some line accepts it.
  The order of the lines (stdout against stderr) does not matter, and the two sets only
  grow in the accepted part when lines are added.
\<close>

theorem bkill_output_meaning:
  "parse_bkill_resolved text req =
     ({t. \<exists>l\<in>set (py_splitlines text). t \<in> spoken req Accepted l \<union> spoken req Gone l}
        - {t. \<exists>l\<in>set (py_splitlines text). t \<in> spoken req Unresolved l},
      {t. \<exists>l\<in>set (py_splitlines text). t \<in> spoken req Accepted l}) \<and>
   parse_bkill_lines (ls @ ls') req = parse_bkill_lines (ls' @ ls) req \<and>
   snd (parse_bkill_lines ls req) \<subseteq> snd (parse_bkill_lines (ls @ ls') req)"
  by (auto simp: parse_bkill_resolved_def parse_bkill_lines_eq)

text \<open>
  C9: Partial answers. Of the ids asked, each is either in the failed set or was asked in a
  query that succeeded and whose rows are all returned; nothing else is in the failed set.
  So a job missing from the rows may be called absent exactly when its id is not failed.
\<close>

theorem status_query_isolates_failures:
  assumes "bjobs_by_ids q cfg ids s = (Inr (sts, failed), s')"
  shows "set failed \<subseteq> set ids \<and>
     (\<forall>i\<in>set ids. i \<in> set failed \<or>
        (\<exists>c t rows t'. show_int i \<in> set c \<and> q c t = (Inr rows, t') \<and> set rows \<subseteq> set sts))"
  using bjobs_source.failed_subset [OF assms] bjobs_source.not_failed_answered [OF assms]
  unfolding asked_ok_def by blast

definition demo_command_config :: command_config where
  "demo_command_config = \<lparr> cc_bjobs_path = Program ''bjobs'', cc_bkill_path = Program ''bkill'',
     cc_submit_timeout_s = 60, cc_query_timeout_s = 30, cc_kill_timeout_s = 60, cc_chunk_size = 1,
     cc_kill_chunk_size = 100, cc_arg_max = 200000, cc_wrapper = None, cc_collect_clusters = False \<rparr>"

theorem status_query_isolates_failures_witness:
  "\<exists>sts failed s'. bjobs_by_ids (\<lambda>c n. if n = (0::nat) then (Inl (LsfCommandError None []), 1) else (Inr [], n))
      demo_command_config [11, 12] 0 = (Inr (sts, failed), s') \<and> set failed \<subseteq> {11, 12} \<and> 11 \<in> set failed"
proof -
  let ?q = "\<lambda>c n. if n = (0::nat) then (Inl (LsfCommandError None []), 1) else (Inr [], n)"
  let ?r = "bjobs_by_ids ?q demo_command_config [11, 12] 0"
  have "\<not> isl (fst ?r)" and f: "snd (projr (fst ?r)) = [11]" by code_simp+
  then obtain sts failed s' where r: "?r = (Inr (sts, failed), s')" by (cases ?r; cases "fst ?r") auto
  from status_query_isolates_failures [OF r] r f show ?thesis by auto
qed

text \<open>
  C10: Submit failures. A failed submit is retryable only when the wrapper ran to its end
  with a non-zero exit: never after a timeout, a failed start, or an exit 0 without a job id,
  where the job may already exist. A successful submit means exit 0 and a job id in stdout.
\<close>

theorem submit_retryable_only_on_exit:
  assumes "run_submit runner cfg argv t cwd w = (r, w')"
    and "\<And>e w2. runner (apply_wrapper_pattern cfg argv) (case t of Some x \<Rightarrow> x | None \<Rightarrow> cc_submit_timeout_s cfg)
        cwd w = (Inl e, w2) \<Longrightarrow> e = TimeoutExpired \<or> e = OSError"
  shows "case r of
      Inl (SubmitError e) \<Rightarrow>
        (se_retryable e \<longleftrightarrow> (\<exists>res. runner (apply_wrapper_pattern cfg argv)
            (case t of Some x \<Rightarrow> x | None \<Rightarrow> cc_submit_timeout_s cfg) cwd w = (Inr res, w') \<and> cr_returncode res \<noteq> 0)) \<and>
        (se_retryable e \<longleftrightarrow> se_returncode e \<noteq> None)
    | Inl _ \<Rightarrow> False
    | Inr job_id \<Rightarrow> (\<exists>res d. runner (apply_wrapper_pattern cfg argv)
            (case t of Some x \<Rightarrow> x | None \<Rightarrow> cc_submit_timeout_s cfg) cwd w = (Inr res, w') \<and>
            cr_returncode res = 0 \<and> find_job_id (cr_stdout res) = Some d \<and> job_id = int_of_digits d)"
proof -
  let ?call = "runner (apply_wrapper_pattern cfg argv) (case t of Some x \<Rightarrow> x | None \<Rightarrow> cc_submit_timeout_s cfg) cwd w"
  obtain o' w2 where call: "?call = (o', w2)" by (cases ?call)
  show ?thesis
  proof (cases o')
    case (Inl e)
    with assms(2) [of e w2] call have "e = TimeoutExpired \<or> e = OSError" by simp
    with assms(1) call Inl show ?thesis
      by (auto simp: run_submit_def Let_def submit_failure_def)
  next
    case (Inr res)
    show ?thesis
    proof (cases "cr_returncode res = 0")
      case True
      with assms(1) call Inr show ?thesis
        by (auto simp: run_submit_def Let_def submit_failure_def split: option.splits)
    next
      case False
      with assms(1) call Inr show ?thesis
        by (auto simp: run_submit_def Let_def submit_failure_def)
    qed
  qed
qed

theorem submit_retryable_only_on_exit_witness:
  "case fst (run_submit (\<lambda>_ _ _ w. (Inr \<lparr> cr_returncode = 0, cr_stdout = ''Job <77> is submitted'', cr_stderr = [] \<rparr>, w))
       demo_command_config [''wrap''] None None ()) of Inr i \<Rightarrow> i = 77 | Inl _ \<Rightarrow> False"
proof -
  let ?res = "\<lparr> cr_returncode = 0, cr_stdout = ''Job <77> is submitted'', cr_stderr = [] \<rparr>"
  let ?runner = "\<lambda>_ _ _ w. (Inr ?res, w)"
  let ?r = "run_submit ?runner demo_command_config [''wrap''] None None ()"
  have j: "find_job_id ''Job <77> is submitted'' = Some ''77''" by code_simp
  have i: "int_of_digits ''77'' = 77" by code_simp
  have "\<not> isl (fst ?r)" by code_simp
  then obtain n where n: "?r = (Inr n, ())" by (cases ?r; cases "fst ?r") auto
  from submit_retryable_only_on_exit [OF n] have "n = 77" by (simp add: j i del: find_job_id.simps)
  with n show ?thesis by simp
qed

definition plain_field :: "string \<Rightarrow> bool" where
  "plain_field s \<longleftrightarrow> (\<forall>c\<in>set s. \<not> py_isspace c \<and> c \<noteq> CHR '';'')"

lemma strip_plain: "plain_field s \<Longrightarrow> py_strip s = s"
proof -
  assume s: "plain_field s"
  have "dropWhile py_isspace xs = xs" if "\<forall>c\<in>set xs. \<not> py_isspace c" for xs
    using that by (cases xs) auto
  with s show ?thesis unfolding py_strip_def py_lstrip_def plain_field_def by (metis set_rev rev_rev_ident)
qed

lemma plain_show_int: "plain_field (show_int i)"
proof -
  have "\<forall>c\<in>set (show_nat n). is_digit c" for n
    using show_nat_digits [of n] by (simp add: list_all_iff)
  moreover have "\<not> py_isspace c \<and> c \<noteq> CHR '';''" if "is_digit c \<or> c = CHR ''-''" for c
    using that by (auto simp: py_isspace_def is_digit_def)
  ultimately show ?thesis by (auto simp: show_int_def plain_field_def)
qed

lemma plain_append [simp]: "plain_field (a @ b) \<longleftrightarrow> plain_field a \<and> plain_field b"
  by (auto simp: plain_field_def)

lemma plain_Cons [simp]: "plain_field (c # s) \<longleftrightarrow> \<not> py_isspace c \<and> c \<noteq> CHR '';'' \<and> plain_field s"
  by (auto simp: plain_field_def)

lemma plain_Nil [simp]: "plain_field []"
  by (simp add: plain_field_def)

lemma plain_brackets [simp]: "\<not> py_isspace CHR ''[''" "\<not> py_isspace CHR '']''" "\<not> py_isspace CHR ''-''"
  by (simp_all add: py_isspace_def)

lemma plain_literals: "plain_field ''-''" "plain_field ''[''" "plain_field '']''" "plain_field (state_value st)"
  by (auto simp: plain_field_def py_isspace_def) (cases st; auto)+

definition job_text :: "int \<Rightarrow> int option \<Rightarrow> string" where
  "job_text pid idx = (case idx of None \<Rightarrow> show_int pid | Some i \<Rightarrow> show_elem pid i)"

definition exit_text :: "int option \<Rightarrow> string" where
  "exit_text ec = (case ec of None \<Rightarrow> ''-'' | Some n \<Rightarrow> show_int n)"

lemma exit_text_parse:
  "(if exit_text ec \<in> {[], ''-''} then None else py_int_of_string (exit_text ec)) = ec"
proof (cases ec)
  case (Some n)
  have "show_int n \<noteq> ''-''"
  proof
    assume "show_int n = ''-''"
    then have "py_int_of_string ''-'' = Some n" using py_int_show_int [of n] by simp
    moreover have "py_int_of_string ''-'' = None" by code_simp
    ultimately show False by simp
  qed
  moreover have "py_int_of_string (show_int n) = Some n"
    by (rule py_int_show_int)
  ultimately show ?thesis using Some by (simp add: exit_text_def)
qed (simp add: exit_text_def)

text \<open>
  bjobs rows. A row of the core format for any job or array element, any state that bjobs
  prints and any exit code is read back as exactly that job, state and exit code.
\<close>

theorem bjobs_row_roundtrip:
  assumes "0 \<le> pid" and "\<forall>i. idx = Some i \<longrightarrow> 0 \<le> i" and "is_on_lsf st \<or> st = DONE \<or> st = EXIT"
  shows "parse_bjobs_line now (job_text pid idx @ '';'' @ state_value st @ '';'' @ exit_text ec) =
    Some \<lparr> st_job_id = pid, st_array_index = idx, st_state = st, st_exit_code = ec, st_run_time_s = None,
      st_start_time = None, st_finish_time = None, st_source_cluster = None, st_forward_cluster = None \<rparr>"
proof -
  let ?a = "job_text pid idx" and ?b = "state_value st" and ?c = "exit_text ec"
  let ?row = "?a @ '';'' @ ?b @ '';'' @ ?c"
  have plain: "plain_field ?a" "plain_field ?b" "plain_field ?c"
    by (auto simp: job_text_def exit_text_def show_elem_def plain_show_int plain_literals split: option.splits)
  have nosep: "CHR '';'' \<notin> set ?a" "CHR '';'' \<notin> set ?b" "CHR '';'' \<notin> set ?c"
    using plain by (auto simp: plain_field_def)
  have split: "py_split (CHR '';'') ?row = [?a, ?b, ?c]"
    using nosep by (simp add: py_split_append_sep py_split_nosep)
  have "py_strip ?row = ?row"
  proof -
    have sp: "\<forall>c\<in>set ?row. \<not> py_isspace c"
      using plain by (auto simp: plain_field_def py_isspace_def)
    have "dropWhile py_isspace xs = xs" if "\<forall>c\<in>set xs. \<not> py_isspace c" for xs
      using that by (cases xs) auto
    with sp show ?thesis unfolding py_strip_def py_lstrip_def by (metis set_rev rev_rev_ident)
  qed
  note strip = this
  have parts: "map py_strip (py_split (CHR '';'') (py_strip ?row)) = [?a, ?b, ?c]"
    unfolding strip split using plain by (simp add: strip_plain)
  have "py_strip ?row \<noteq> []" unfolding strip by simp
  moreover have "match_array_id ?a = Some (pid, idx)"
    using assms(1,2) by (cases idx) (simp_all add: job_text_def match_array_id_def match_show)
  moreover have "dget_or LSF_STAT_MAP ?b UNKWN = st"
    using assms(3) by (cases st) (auto simp: LSF_STAT_MAP_def dget_or_def ON_LSF_def)
  ultimately show ?thesis
    unfolding parse_bjobs_line_def parts Let_def
    using exit_text_parse [of ec] by (auto split: if_splits)
qed

theorem bjobs_row_roundtrip_witness:
  "parse_bjobs_line 0 ''1000[3];EXIT;137'' =
    Some \<lparr> st_job_id = 1000, st_array_index = Some 3, st_state = EXIT, st_exit_code = Some 137, st_run_time_s = None,
      st_start_time = None, st_finish_time = None, st_source_cluster = None, st_forward_cluster = None \<rparr>"
proof -
  have t: "job_text 1000 (Some 3) @ '';'' @ state_value EXIT @ '';'' @ exit_text (Some 137) = ''1000[3];EXIT;137''"
    by code_simp
  show ?thesis
    using bjobs_row_roundtrip [of 1000 "Some 3" EXIT 0 "Some 137"] unfolding t by simp
qed

end
