(* ===== verification/Monitor.thy ===== *)
theory Monitor
  imports Store Command
begin

text \<open>
  The poller (\<open>src/lsfmgr/monitor.py\<close>): merging what a status query saw into records, the
  folding of array elements, the judgement of jobs the query did not find, the query of one
  jobset, and the polling worker with its timers. What a status query does is a parameter: it
  returns rows and failed ids, or raises, and may change the whole state meanwhile, since
  other threads run while the command does.
\<close>

section \<open>State\<close>

text \<open>
  \<open>JobsetQuerier\<close>: the missing streaks per jobset and job, the table of query locks (a lock
  object is its position in the list of user counts), and the number of running queries per
  job id.
\<close>

type_synonym streaks = "(job_key, uuid \<times> nat) dict"

record querier =
  q_streaks :: "(jobset_id, streaks) dict"
  q_locks :: "(jobset_id, nat) dict"
  q_lock_users :: "int list"
  q_id_queries :: "(int, nat) dict"

definition new_querier :: querier where
  "new_querier = \<lparr> q_streaks = [], q_locks = [], q_lock_users = [], q_id_queries = [] \<rparr>"

record QueryResult =
  qr_jobset_id :: jobset_id
  qr_summary :: "(string, int) dict"
  qr_changed :: "JobRecord list"
  qr_lost :: "JobRecord list"
  qr_checked :: nat
  qr_query_failed :: "int set"

record 'w mworld =
  m_store :: store
  m_q :: querier
  m_env :: 'w

text \<open>
  The command layer as the querier sees it: whether a status callback is configured, the
  status query of \<open>LsfCommand\<close> (with \<open>fresh\<close>), and the callback source's \<open>forget_status\<close>.
\<close>

record 'w status_command =
  sv_internal :: bool
  sv_ask :: "bool \<Rightarrow> int list \<Rightarrow> 'w mworld \<Rightarrow> (JobStatus list \<times> int list, 'w mworld) outcome"
  sv_forget :: "int list \<Rightarrow> 'w \<Rightarrow> 'w"

record poll_config =
  pc_lost_after_missing_polls :: int
  pc_internal_lost_grace_s :: seconds
  pc_poll_runtime_updates :: bool
  pc_collect_clusters :: bool

section \<open>Merging observations\<close>

definition keep_known :: "'a option \<Rightarrow> 'a option \<Rightarrow> 'a option" where
  "keep_known new old = (if new \<noteq> None then new else old)"

definition merge_fields :: "bool \<Rightarrow> bool \<Rightarrow> JobRecord \<Rightarrow> JobStatus \<Rightarrow> field_update list option" where
  "merge_fields runtime_updates collect_clusters r st =
     (let rt = keep_known (st_run_time_s st) (jr_run_time_s r);
          start = keep_known (st_start_time st) (jr_start_time r);
          fin = keep_known (st_finish_time st) (jr_finish_time r);
          src = keep_known (st_source_cluster st) (jr_source_cluster r);
          fwd = keep_known (st_forward_cluster st) (jr_forward_cluster r);
          changed = (st_state st \<noteq> jr_state r \<or> st_exit_code st \<noteq> jr_exit_code r
            \<or> start \<noteq> jr_start_time r \<or> fin \<noteq> jr_finish_time r
            \<or> collect_clusters \<and> (src \<noteq> jr_source_cluster r \<or> fwd \<noteq> jr_forward_cluster r)
            \<or> runtime_updates \<and> rt \<noteq> jr_run_time_s r)
      in if \<not> changed then None
         else Some ([FExitCode (st_exit_code st), FRunTime rt, FStartTime start, FFinishTime fin]
            @ (if collect_clusters then [FSourceCluster src, FForwardCluster fwd] else [])
            @ [FJobId (if jr_job_id r \<noteq> None then jr_job_id r else Some (st_job_id st))]))"

text \<open>The elements of one array, folded into a status of the whole job.\<close>

definition list_max :: "'a::linorder list \<Rightarrow> 'a option" where
  "list_max xs = (case xs of [] \<Rightarrow> None | x # xs \<Rightarrow> Some (fold max xs x))"

definition list_min :: "'a::linorder list \<Rightarrow> 'a option" where
  "list_min xs = (case xs of [] \<Rightarrow> None | x # xs \<Rightarrow> Some (fold min xs x))"

definition truthy_texts :: "string option list \<Rightarrow> string list" where
  "truthy_texts xs = List.map_filter (\<lambda>x. if x = Some [] then None else x) xs"

definition first_of :: "'a list \<Rightarrow> 'a option" where
  "first_of xs = (case xs of [] \<Rightarrow> None | x # _ \<Rightarrow> Some x)"

definition aggregate_elements :: "int \<Rightarrow> JobStatus list \<Rightarrow> JobStatus" where
  "aggregate_elements job_id elems =
     (let on = filter (\<lambda>e. is_on_lsf (st_state e)) elems;
          bad = filter (\<lambda>e. st_state e = EXIT) elems;
          (state, exit_code) =
            (if on \<noteq> []
             then (st_state (case find (\<lambda>e. st_state e = RUN) on of Some e \<Rightarrow> e | None \<Rightarrow> hd on), None)
             else if bad \<noteq> [] then (EXIT, first_of (List.map_filter st_exit_code bad))
             else (DONE, None))
      in \<lparr> st_job_id = job_id, st_array_index = None, st_state = state, st_exit_code = exit_code,
           st_run_time_s = list_max (List.map_filter st_run_time_s elems),
           st_start_time = list_min (List.map_filter st_start_time elems),
           st_finish_time = (if on = [] then list_max (List.map_filter st_finish_time elems) else None),
           st_source_cluster = first_of (truthy_texts (map st_source_cluster elems)),
           st_forward_cluster = first_of (truthy_texts (map st_forward_cluster elems)) \<rparr>)"

section \<open>Missing jobs\<close>

definition submit_grace_s :: "bool \<Rightarrow> poll_config \<Rightarrow> seconds" where
  "submit_grace_s internal cfg = (if \<not> internal then 0 else max 0 (pc_internal_lost_grace_s cfg))"

definition within_submit_grace :: "JobRecord \<Rightarrow> datetime \<Rightarrow> seconds \<Rightarrow> bool" where
  "within_submit_grace r now grace_s =
     (if grace_s \<le> 0 then False
      else (case keep_known (jr_submit_time r) (jr_updated_at r) of
              None \<Rightarrow> False
            | Some marker \<Rightarrow> real_of_int (now - marker) / 1000000 < grace_s))"

text \<open>Guard of every transition of a query: the record is still the one the query started from.\<close>

definition unchanged :: "JobRecord \<Rightarrow> JobRecord \<Rightarrow> bool" where
  "unchanged r cur \<longleftrightarrow> same_execution cur r \<and> jr_job_id cur = jr_job_id r \<and> jr_state cur = jr_state r"

definition current_streaks :: "store \<Rightarrow> jobset_id \<Rightarrow> streaks \<Rightarrow> streaks" where
  "current_streaks s jsid streaks =
     (let current = get_jobs_by_keys jsid (dkeys streaks) s
      in filter (\<lambda>(k, g, n). case dget current k of
                   None \<Rightarrow> False
                 | Some r \<Rightarrow> jr_generation r = g \<and> is_on_lsf (jr_state r)) streaks)"

definition pop_streaks :: "jobset_id \<Rightarrow> querier \<Rightarrow> streaks \<times> querier" where
  "pop_streaks jsid q = (dget_or (q_streaks q) jsid [], q\<lparr>q_streaks := ddel jsid (q_streaks q)\<rparr>)"

definition set_streaks :: "store \<Rightarrow> jobset_id \<Rightarrow> streaks \<Rightarrow> querier \<Rightarrow> querier" where
  "set_streaks s jsid streaks q =
     (let cur = current_streaks s jsid streaks
      in if cur \<noteq> [] then q\<lparr>q_streaks := dset jsid cur (q_streaks q)\<rparr>
         else q\<lparr>q_streaks := ddel jsid (q_streaks q)\<rparr>)"

definition forget :: "store \<Rightarrow> jobset_id \<Rightarrow> job_key list option \<Rightarrow> querier \<Rightarrow> querier" where
  "forget s jsid keys q =
     (case keys of
        None \<Rightarrow> q\<lparr>q_streaks := ddel jsid (q_streaks q)\<rparr>
      | Some ks \<Rightarrow>
          (case dget (q_streaks q) jsid of
             None \<Rightarrow> q
           | Some streaks \<Rightarrow>
               (let selected = fold (\<lambda>k d. case dget streaks k of None \<Rightarrow> d | Some e \<Rightarrow> dset k e d) ks [];
                    retained = current_streaks s jsid selected;
                    streaks' = fold ddel (filter (\<lambda>k. \<not> dhas retained k) (dkeys selected)) streaks
                in if streaks' = [] then q\<lparr>q_streaks := ddel jsid (q_streaks q)\<rparr>
                   else q\<lparr>q_streaks := dset jsid streaks' (q_streaks q)\<rparr>)))"

text \<open>One iteration of the loop of \<open>_judge_missing\<close>.\<close>

datatype missing_verdict = Deferred | Young | Waiting nat | LostAt nat

definition judge :: "poll_config \<Rightarrow> seconds \<Rightarrow> datetime \<Rightarrow> int set \<Rightarrow> streaks \<Rightarrow> JobRecord \<Rightarrow> missing_verdict" where
  "judge cfg submit_grace now failed prev r =
     (case jr_job_id r of
        None \<Rightarrow> Deferred
      | Some i \<Rightarrow>
          if i \<in> failed then Deferred
          else if within_submit_grace r now submit_grace then Young
          else
            (let n = (case dget prev (jr_job_key r) of
                        None \<Rightarrow> 1
                      | Some (g, count) \<Rightarrow> if g = jr_generation r then count + 1 else 1)
             in if int n < max 1 (pc_lost_after_missing_polls cfg) then Waiting n else LostAt n))"

definition streak_count :: "missing_verdict \<Rightarrow> nat option" where
  "streak_count v = (case v of Waiting n \<Rightarrow> Some n | LostAt n \<Rightarrow> Some n | _ \<Rightarrow> None)"

definition NOT_FOUND_IN_LSF :: string where
  "NOT_FOUND_IN_LSF = ''NOT_FOUND_IN_LSF''"

definition lost_spec :: "JobRecord \<Rightarrow> TransitionSpec" where
  "lost_spec r = (jr_job_key r, Some LOST, Some (unchanged r), [FFailReason (Some NOT_FOUND_IN_LSF)])"

definition judge_missing :: "bool \<Rightarrow> poll_config \<Rightarrow> datetime \<Rightarrow> store \<Rightarrow> jobset_id \<Rightarrow> JobRecord list \<Rightarrow> int set
    \<Rightarrow> querier \<Rightarrow> TransitionSpec list \<times> querier" where
  "judge_missing internal cfg now s jsid missing failed q =
     (let (prev, q1) = pop_streaks jsid q;
          verdict = judge cfg (submit_grace_s internal cfg) now failed prev;
          cur = fold (\<lambda>r c. case streak_count (verdict r) of
                        None \<Rightarrow> c
                      | Some n \<Rightarrow> dset (jr_job_key r) (jr_generation r, n) c) missing [];
          lost = filter (\<lambda>r. case verdict r of LostAt _ \<Rightarrow> True | _ \<Rightarrow> False) missing
      in (map lost_spec lost, set_streaks s jsid cur q1))"

section \<open>The query of one jobset\<close>

text \<open>
  The query lock of a jobset lives in the table only while a query uses it. \<open>query_enter\<close> and
  \<open>query_leave\<close> are the two sections under the streak lock of \<open>_serialized_query\<close>.
\<close>

definition query_enter :: "jobset_id \<Rightarrow> querier \<Rightarrow> nat \<times> querier" where
  "query_enter jsid q =
     (let (e, q1) = (case dget (q_locks q) jsid of
            Some e \<Rightarrow> (e, q)
          | None \<Rightarrow> (length (q_lock_users q),
                     q\<lparr>q_locks := dset jsid (length (q_lock_users q)) (q_locks q),
                       q_lock_users := q_lock_users q @ [0]\<rparr>))
      in (e, q1\<lparr>q_lock_users := (q_lock_users q1)[e := q_lock_users q1 ! e + 1]\<rparr>))"

definition query_leave :: "jobset_id \<Rightarrow> nat \<Rightarrow> querier \<Rightarrow> querier" where
  "query_leave jsid e q =
     (let n = q_lock_users q ! e - 1; q1 = q\<lparr>q_lock_users := (q_lock_users q)[e := n]\<rparr>
      in if n \<le> 0 \<and> dget (q_locks q1) jsid = Some e
         then q1\<lparr>q_locks := ddel jsid (q_locks q1)\<rparr> else q1)"

text \<open>Interest in job ids: counted while their queries run.\<close>

definition ids_begin :: "int list \<Rightarrow> querier \<Rightarrow> querier" where
  "ids_begin ids q = q\<lparr>q_id_queries := fold (\<lambda>i d. dset i (dget_or d i 0 + 1) d) ids (q_id_queries q)\<rparr>"

definition id_done :: "int \<Rightarrow> (int, nat) dict \<Rightarrow> bool \<times> (int, nat) dict" where
  "id_done i d = (let n = dget_or d i 0 - 1 in if n = 0 then (True, ddel i d) else (False, dset i n d))"

fun ids_end :: "int list \<Rightarrow> (int, nat) dict \<Rightarrow> int list \<times> (int, nat) dict" where
  "ids_end [] d = ([], d)"
| "ids_end (i # is) d =
     (let (last, d1) = id_done i d; (finished, d2) = ids_end is d1
      in (if last then i # finished else finished, d2))"

definition interested_records :: "jobset_id \<Rightarrow> job_key list option \<Rightarrow> int list \<Rightarrow> store \<Rightarrow> py_error + JobRecord list" where
  "interested_records jsid keys finished s =
     (if jsid = [] then find_jobs finished s
      else (case keys of
              Some ks \<Rightarrow> Inr (dvalues (get_jobs_by_keys jsid ks s))
            | None \<Rightarrow> (case get_jobs jsid None s of
                        Inl (JobSetNotFoundError _) \<Rightarrow> Inr []
                      | res \<Rightarrow> res)))"

definition query_ids :: "'w status_command \<Rightarrow> bool \<Rightarrow> int list \<Rightarrow> jobset_id \<Rightarrow> job_key list option
    \<Rightarrow> 'w mworld \<Rightarrow> (JobStatus list \<times> int list, 'w mworld) outcome" where
  "query_ids cmd fresh job_ids jsid keys w =
     (if \<not> sv_internal cmd then sv_ask cmd fresh job_ids w
      else
        (let ids = remdups job_ids;
             (r, w1) = sv_ask cmd fresh job_ids (w\<lparr>m_q := ids_begin ids (m_q w)\<rparr>);
             (finished, d) = ids_end ids (q_id_queries (m_q w1));
             w2 = w1\<lparr>m_q := (m_q w1)\<lparr>q_id_queries := d\<rparr>\<rparr>
         in (case interested_records jsid keys finished (m_store w2) of
               Inl e \<Rightarrow> (Inl e, w2)
             | Inr records \<Rightarrow>
                 (let stale = filter (\<lambda>i. Some i \<notin> set (map jr_job_id records)) finished
                  in (r, if stale = [] then w2 else w2\<lparr>m_env := sv_forget cmd (sort stale) (m_env w2)\<rparr>)))))"

text \<open>Rows by job and element, the later row winning, and the status of one record.\<close>

definition rows_by_id :: "JobStatus list \<Rightarrow> (int, (int option, JobStatus) dict) dict" where
  "rows_by_id sts =
     fold (\<lambda>st d. dset (st_job_id st) (dset (st_array_index st) st (dget_or d (st_job_id st) [])) d) sts []"

definition lookup_status :: "JobStatus list \<Rightarrow> JobRecord \<Rightarrow> JobStatus option" where
  "lookup_status sts r =
     (case jr_job_id r of
        None \<Rightarrow> None
      | Some i \<Rightarrow>
          (let elems = dget_or (rows_by_id sts) i []
           in case dget elems (jr_array_index r) of
                Some st \<Rightarrow> Some st
              | None \<Rightarrow> if jr_array_index r = None \<and> elems \<noteq> []
                        then Some (aggregate_elements i (dvalues elems)) else None))"

definition update_spec :: "poll_config \<Rightarrow> JobStatus list \<Rightarrow> JobRecord \<Rightarrow> TransitionSpec option" where
  "update_spec cfg sts r =
     (case lookup_status sts r of
        None \<Rightarrow> None
      | Some st \<Rightarrow>
          map_option (\<lambda>fs. (jr_job_key r, Some (st_state st), Some (unchanged r), fs))
            (merge_fields (pc_poll_runtime_updates cfg) (pc_collect_clusters cfg) r st))"

definition missing_of :: "JobStatus list \<Rightarrow> JobRecord list \<Rightarrow> JobRecord list" where
  "missing_of sts targets = filter (\<lambda>r. lookup_status sts r = None) targets"

text \<open>What a query does with the answer, from the match of rows and records on.\<close>

definition apply_answer :: "'w status_command \<Rightarrow> poll_config \<Rightarrow> datetime \<Rightarrow> jobset_id \<Rightarrow> JobRecord list
    \<Rightarrow> JobStatus list \<Rightarrow> int list \<Rightarrow> 'w mworld \<Rightarrow> (QueryResult, 'w mworld) outcome" where
  "apply_answer cmd cfg now jsid targets sts failed w =
     (let (lost_specs, q) = judge_missing (sv_internal cmd) cfg now (m_store w) jsid (missing_of sts targets)
                              (set failed) (m_q w);
          w1 = w\<lparr>m_q := q\<rparr>
      in (case store_transition_many now jsid (List.map_filter (update_spec cfg sts) targets) (m_store w1) of
            (Inl e, s2) \<Rightarrow> (Inl e, w1\<lparr>m_store := s2\<rparr>)
          | (Inr changed, s2) \<Rightarrow>
         (case store_transition_many now jsid lost_specs s2 of
            (Inl e, s3) \<Rightarrow> (Inl e, w1\<lparr>m_store := s3\<rparr>)
          | (Inr lost, s3) \<Rightarrow>
         (case store_summary jsid s3 of
            Inl e \<Rightarrow> (Inl e, w1\<lparr>m_store := s3\<rparr>)
          | Inr summ \<Rightarrow>
              (Inr \<lparr> qr_jobset_id = jsid, qr_summary = summ, qr_changed = changed @ lost, qr_lost = lost,
                     qr_checked = length targets, qr_query_failed = set failed \<rparr>, w1\<lparr>m_store := s3\<rparr>)))))"

definition query_serialized :: "'w status_command \<Rightarrow> poll_config \<Rightarrow> datetime \<Rightarrow> jobset_id \<Rightarrow> bool
    \<Rightarrow> 'w mworld \<Rightarrow> (QueryResult, 'w mworld) outcome" where
  "query_serialized cmd cfg now jsid fresh w =
     (case get_jobset jsid (m_store w) of
        Inl e \<Rightarrow> (Inl e, w)
      | Inr _ \<Rightarrow>
     (case get_jobs jsid (Some ON_LSF) (m_store w) of
        Inl e \<Rightarrow> (Inl e, w)
      | Inr [] \<Rightarrow>
          (case store_summary jsid (m_store w) of
             Inl e \<Rightarrow> (Inl e, w)
           | Inr summ \<Rightarrow>
               (Inr \<lparr> qr_jobset_id = jsid, qr_summary = summ, qr_changed = [], qr_lost = [], qr_checked = 0,
                      qr_query_failed = {} \<rparr>, w))
      | Inr targets \<Rightarrow>
          (let ids = sorted_set (List.map_filter jr_job_id targets)
           in obind (if ids = [] then (Inr ([], []), w)
                     else query_ids cmd fresh ids jsid (Some (map jr_job_key targets)) w)
                (\<lambda>(sts, failed) w. apply_answer cmd cfg now jsid targets sts failed w))))"

definition query :: "'w status_command \<Rightarrow> poll_config \<Rightarrow> datetime \<Rightarrow> jobset_id \<Rightarrow> bool
    \<Rightarrow> 'w mworld \<Rightarrow> (QueryResult, 'w mworld) outcome" where
  "query cmd cfg now jsid fresh w =
     (let (e, q) = query_enter jsid (m_q w);
          (r, w') = query_serialized cmd cfg now jsid fresh (w\<lparr>m_q := q\<rparr>)
      in (r, w'\<lparr>m_q := query_leave jsid e (m_q w')\<rparr>))"

section \<open>The polling worker\<close>

text \<open>
  \<open>_PollWorker\<close> lives in one thread: its timers with their intervals in milliseconds, the
  jobsets whose poll is on the stack, and the consecutive polls without activity.
\<close>

record poll_worker =
  pw_timers :: "(jobset_id, int) dict"
  pw_in_progress :: "jobset_id set"
  pw_idle :: "(jobset_id, nat) dict"

definition new_poll_worker :: poll_worker where
  "new_poll_worker = \<lparr> pw_timers = [], pw_in_progress = {}, pw_idle = [] \<rparr>"

datatype poll_event =
    PollUpdated jobset_id "(string, int) dict" "JobRecord list"
  | PollLost jobset_id JobRecord
  | PollError jobset_id py_error

definition stop_polling :: "jobset_id \<Rightarrow> poll_worker \<Rightarrow> poll_worker" where
  "stop_polling jsid p = p\<lparr>pw_idle := ddel jsid (pw_idle p), pw_timers := ddel jsid (pw_timers p)\<rparr>"

definition stop_all :: "poll_worker \<Rightarrow> poll_worker" where
  "stop_all p = fold stop_polling (dkeys (pw_timers p)) p"

definition poll_active :: "JobRecord \<Rightarrow> bool" where
  "poll_active r \<longleftrightarrow> is_on_lsf (jr_state r) \<or> jr_state r \<in> {SUBMITTING, RETRY_WAIT}"

definition maybe_auto_stop :: "store \<Rightarrow> jobset_id \<Rightarrow> poll_worker \<Rightarrow> poll_worker" where
  "maybe_auto_stop s jsid p =
     (if \<not> dhas (pw_timers p) jsid then p
      else (case get_jobs jsid None s of
              Inl _ \<Rightarrow> p
            | Inr remaining \<Rightarrow>
                if remaining \<noteq> [] \<and> list_all (\<lambda>r. is_terminal (jr_state r)) remaining then stop_polling jsid p
                else if list_ex poll_active remaining then p\<lparr>pw_idle := ddel jsid (pw_idle p)\<rparr>
                else
                  (let n = dget_or (pw_idle p) jsid 0 + 1;
                       p1 = p\<lparr>pw_idle := dset jsid n (pw_idle p)\<rparr>
                   in if n \<ge> 2 then stop_polling jsid p1 else p1)))"

definition poll :: "'w status_command \<Rightarrow> poll_config \<Rightarrow> datetime \<Rightarrow> bool \<Rightarrow> jobset_id \<Rightarrow> poll_worker \<times> 'w mworld
    \<Rightarrow> poll_event list \<times> poll_worker \<times> 'w mworld" where
  "poll cmd cfg now interrupted jsid pw =
     (case pw of (p, w) \<Rightarrow>
        if interrupted \<or> jsid \<in> pw_in_progress p then ([], p, w)
        else
          (let p1 = p\<lparr>pw_in_progress := insert jsid (pw_in_progress p)\<rparr>;
               finished = (\<lambda>p. p\<lparr>pw_in_progress := pw_in_progress p - {jsid}\<rparr>);
               (r, w') = query cmd cfg now jsid False w
           in case r of
                Inl e \<Rightarrow>
                  (case e of
                     JobSetNotFoundError _ \<Rightarrow> ([], finished (stop_polling jsid p1), w')
                   | _ \<Rightarrow> ([PollError jsid e], finished p1, w'))
              | Inr res \<Rightarrow>
                  (PollUpdated jsid (qr_summary res) (qr_changed res) # map (PollLost jsid) (qr_lost res),
                   maybe_auto_stop (m_store w') jsid (finished p1), w')))"

definition start_polling :: "'w status_command \<Rightarrow> poll_config \<Rightarrow> datetime \<Rightarrow> bool \<Rightarrow> jobset_id \<Rightarrow> seconds
    \<Rightarrow> poll_worker \<times> 'w mworld \<Rightarrow> poll_event list \<times> poll_worker \<times> 'w mworld" where
  "start_polling cmd cfg now interrupted jsid interval_s pw =
     (case pw of (p, w) \<Rightarrow>
        if interrupted then ([], p, w)
        else
          (let ms = timer_ms interval_s
           in if dget (pw_timers p) jsid = Some ms then ([], p, w)
              else
                (let p1 = stop_polling jsid p
                 in poll cmd cfg now interrupted jsid (p1\<lparr>pw_timers := dset jsid ms (pw_timers p1)\<rparr>, w))))"

section \<open>Consecutive misses\<close>

text \<open>
  A history of judgements of one jobset, newest first: of each, the executions that were
  asked for, not found, and old enough to count. Between judgements anything may be
  forgotten, other jobsets may be judged, and the store may change at will.
\<close>

definition countable_miss :: "seconds \<Rightarrow> datetime \<Rightarrow> int set \<Rightarrow> JobRecord \<Rightarrow> bool" where
  "countable_miss sg now failed r \<longleftrightarrow>
     (\<exists>i. jr_job_id r = Some i \<and> i \<notin> failed) \<and> \<not> within_submit_grace r now sg"

definition misses :: "seconds \<Rightarrow> datetime \<Rightarrow> int set \<Rightarrow> JobRecord list \<Rightarrow> (job_key \<times> uuid) set" where
  "misses sg now failed missing =
     {(jr_job_key r, jr_generation r) |r. r \<in> set missing \<and> countable_miss sg now failed r}"

inductive judged :: "jobset_id \<Rightarrow> (job_key \<times> uuid) set list \<Rightarrow> querier \<Rightarrow> bool" for j where
  judged_start: "judged j [] new_querier"
| judged_cycle: "judged j hist q \<Longrightarrow>
    judged j (misses (submit_grace_s internal cfg) now failed missing # hist)
      (snd (judge_missing internal cfg now s j missing failed q))"
| judged_other: "judged j hist q \<Longrightarrow> i \<noteq> j \<Longrightarrow>
    judged j hist (snd (judge_missing internal cfg now s i missing failed q))"
| judged_forget: "judged j hist q \<Longrightarrow> judged j hist (forget s i keys q)"

definition streaks_backed :: "(job_key \<times> uuid) set list \<Rightarrow> streaks \<Rightarrow> bool" where
  "streaks_backed hist streaks \<longleftrightarrow>
     (\<forall>k g n. (k, g, n) \<in> set streaks \<longrightarrow> n \<le> length hist \<and> (\<forall>c\<in>set (take n hist). (k, g) \<in> c))"

definition streaks_of :: "querier \<Rightarrow> jobset_id \<Rightarrow> streaks" where
  "streaks_of q j = dget_or (q_streaks q) j []"

lemma streaks_backed_mono: "streaks_backed hist a \<Longrightarrow> set b \<subseteq> set a \<Longrightarrow> streaks_backed hist b"
  unfolding streaks_backed_def by blast

lemma streaks_backed_Nil [simp]: "streaks_backed hist []"
  by (simp add: streaks_backed_def)

lemma current_streaks_subset: "set (current_streaks s j d) \<subseteq> set d"
  by (auto simp: current_streaks_def Let_def)

lemma streaks_of_set:
  "streaks_of (set_streaks s i d q) j = (if i = j then current_streaks s i d else streaks_of q j)"
  by (simp add: set_streaks_def streaks_of_def Let_def dget_or_def)

lemma fold_ddel_subset: "set (fold ddel ks d) \<subseteq> set d"
proof (induction ks arbitrary: d)
  case (Cons k ks)
  have "set (ddel k d) \<subseteq> set d" by (auto simp: set_ddel)
  with Cons [of "ddel k d"] show ?case by simp
qed simp

lemma streaks_of_forget_subset: "set (streaks_of (forget s i keys q) j) \<subseteq> set (streaks_of q j)"
proof (cases keys)
  case None
  then show ?thesis by (simp add: forget_def streaks_of_def dget_or_def)
next
  case (Some ks)
  show ?thesis
  proof (cases "dget (q_streaks q) i")
    case None
    with Some show ?thesis by (simp add: forget_def)
  next
    case (Some d)
    with \<open>keys = Some ks\<close> show ?thesis
      by (cases "i = j") (simp_all add: forget_def streaks_of_def dget_or_def Let_def fold_ddel_subset)
  qed
qed

lemma judge_missing_specs:
  "set (fst (judge_missing internal cfg now s j missing failed q)) =
     {lost_spec r |r. r \<in> set missing \<and>
        (\<exists>n. judge cfg (submit_grace_s internal cfg) now failed (streaks_of q j) r = LostAt n)}"
proof -
  have v: "(case v of LostAt n \<Rightarrow> True | _ \<Rightarrow> False) \<longleftrightarrow> (\<exists>n. v = LostAt n)" for v
    by (cases v) simp_all
  show ?thesis by (auto simp: judge_missing_def pop_streaks_def streaks_of_def v Let_def)
qed

lemma judge_streak:
  assumes "streak_count (judge cfg sg now failed prev r) = Some n"
  shows "countable_miss sg now failed r \<and>
    (n = 1 \<or> (\<exists>m. dget prev (jr_job_key r) = Some (jr_generation r, m) \<and> n = Suc m))"
  using assms
  by (auto simp: judge_def streak_count_def countable_miss_def Let_def split: option.splits if_splits)

lemma streaks_backed_step:
  assumes prev: "streaks_backed hist prev" and c: "countable_miss sg now failed r" and r: "r \<in> set missing"
    and n: "n = 1 \<or> (\<exists>m. dget prev (jr_job_key r) = Some (jr_generation r, m) \<and> n = Suc m)"
  shows "n \<le> length (misses sg now failed missing # hist) \<and>
    (\<forall>c\<in>set (take n (misses sg now failed missing # hist)). (jr_job_key r, jr_generation r) \<in> c)"
proof -
  have new: "(jr_job_key r, jr_generation r) \<in> misses sg now failed missing"
    using c r unfolding misses_def by blast
  from n show ?thesis
  proof
    assume "\<exists>m. dget prev (jr_job_key r) = Some (jr_generation r, m) \<and> n = Suc m"
    then obtain m where m: "dget prev (jr_job_key r) = Some (jr_generation r, m)" "n = Suc m" by blast
    then have "(jr_job_key r, jr_generation r, m) \<in> set prev" by (blast intro: map_of_SomeD)
    with prev m(2) new show ?thesis unfolding streaks_backed_def by auto
  qed (use new in simp)
qed

lemma cur_streaks_backed:
  assumes "streaks_backed hist prev" and "set rs \<subseteq> set missing"
    and "streaks_backed (misses sg now failed missing # hist) c"
  shows "streaks_backed (misses sg now failed missing # hist)
    (fold (\<lambda>r c. case streak_count (judge cfg sg now failed prev r) of
             None \<Rightarrow> c | Some n \<Rightarrow> dset (jr_job_key r) (jr_generation r, n) c) rs c)"
  using assms(2,3)
proof (induction rs arbitrary: c)
  case (Cons r rs)
  have "streaks_backed (misses sg now failed missing # hist)
     (case streak_count (judge cfg sg now failed prev r) of
        None \<Rightarrow> c | Some n \<Rightarrow> dset (jr_job_key r) (jr_generation r, n) c)"
  proof (cases "streak_count (judge cfg sg now failed prev r)")
    case (Some n)
    note j = judge_streak [OF Some]
    have "n \<le> length (misses sg now failed missing # hist) \<and>
       (\<forall>c\<in>set (take n (misses sg now failed missing # hist)). (jr_job_key r, jr_generation r) \<in> c)"
      by (rule streaks_backed_step [OF assms(1)]) (use j Cons.prems(1) in auto)
    moreover have "set (dset (jr_job_key r) (jr_generation r, n) c)
        \<subseteq> insert (jr_job_key r, jr_generation r, n) (set c)"
      by (induction c) auto
    ultimately show ?thesis
      using Cons.prems(2) Some unfolding streaks_backed_def by auto
  qed (use Cons.prems in simp)
  with Cons show ?case by simp
qed simp

lemma judged_backed: "judged j hist q \<Longrightarrow> streaks_backed hist (streaks_of q j)"
proof (induction rule: judged.induct)
  case judged_start
  then show ?case by (simp add: streaks_of_def new_querier_def dget_or_def)
next
  case (judged_cycle hist q internal cfg now failed missing s)
  from cur_streaks_backed [OF judged_cycle.IH subset_refl streaks_backed_Nil]
  show ?case
    by (auto simp: judge_missing_def pop_streaks_def streaks_of_set Let_def streaks_of_def [symmetric]
        intro: streaks_backed_mono [OF _ current_streaks_subset])
next
  case (judged_other hist q i internal cfg now s missing failed)
  then show ?case
    by (simp add: judge_missing_def pop_streaks_def streaks_of_set Let_def) (simp add: streaks_of_def dget_or_def)
next
  case (judged_forget hist q s i keys)
  from judged_forget.IH show ?case by (rule streaks_backed_mono [OF _ streaks_of_forget_subset])
qed


text \<open>
  C11: LOST needs consecutive misses. In every sequence of judgements, forgets and store
  changes, a job is declared LOST only if the same execution was asked for by id, answered
  without failure, not found and past its submit grace in each of the last N judgements of
  its jobset, N being the configured number (at least one).
\<close>

theorem lost_needs_consecutive_misses:
  assumes "judged j hist q"
    and "judge_missing internal cfg now s j missing failed q = (specs, q')"
    and "(k, st, g, fs) \<in> set specs"
  shows "\<exists>r\<in>set missing. jr_job_key r = k \<and>
    (let hist' = misses (submit_grace_s internal cfg) now failed missing # hist;
         N = nat (max 1 (pc_lost_after_missing_polls cfg))
     in N \<le> length hist' \<and> (\<forall>c\<in>set (take N hist'). (k, jr_generation r) \<in> c))"
proof -
  let ?sg = "submit_grace_s internal cfg" and ?prev = "streaks_of q j"
  from assms(2) have "specs = fst (judge_missing internal cfg now s j missing failed q)" by simp
  with assms(3) obtain r n where r: "r \<in> set missing" "k = jr_job_key r"
    and v: "judge cfg ?sg now failed ?prev r = LostAt n"
    by (auto simp: judge_missing_specs streaks_of_def [symmetric] lost_spec_def)
  then have "streak_count (judge cfg ?sg now failed ?prev r) = Some n"
    and big: "nat (max 1 (pc_lost_after_missing_polls cfg)) \<le> n"
    by (auto simp: streak_count_def judge_def Let_def split: option.splits if_splits)
  from judge_streak [OF this(1)] have c: "countable_miss ?sg now failed r"
    and n: "n = 1 \<or> (\<exists>m. dget ?prev (jr_job_key r) = Some (jr_generation r, m) \<and> n = Suc m)" by auto
  note step = streaks_backed_step [OF judged_backed [OF assms(1)] c r(1) n]
  let ?h = "misses ?sg now failed missing # hist"
  have "set (take (nat (max 1 (pc_lost_after_missing_polls cfg))) ?h) \<subseteq> set (take n ?h)"
    by (rule set_take_subset_set_take) (rule big)
  moreover have "nat (max 1 (pc_lost_after_missing_polls cfg)) \<le> length ?h"
    using step big by linarith
  ultimately show ?thesis
    unfolding Let_def r(2) using step r(1) by blast
qed

definition demo_poll_config :: poll_config where
  "demo_poll_config = \<lparr> pc_lost_after_missing_polls = 2, pc_internal_lost_grace_s = 0,
     pc_poll_runtime_updates = True, pc_collect_clusters = False \<rparr>"

definition demo_job :: "job_key \<Rightarrow> int \<Rightarrow> JobState \<Rightarrow> JobRecord" where
  "demo_job k i st = (demo_rec k st)\<lparr>jr_job_id := Some i\<rparr>"

definition demo_poll_store :: store where
  "demo_poll_store = snd (store_add_jobs 5 [demo_job ''a'' 11 PEND, demo_job ''b'' 12 RUN, demo_rec ''c'' CREATED]
     (snd (store_insert_jobset 1 (demo_jobset 3) empty_store)))"

lemma demo_poll_store_reach: "store_reach demo_poll_store"
  unfolding demo_poll_store_def by (intro store_reach.intros)

theorem lost_needs_consecutive_misses_witness:
  "\<exists>specs q'. judge_missing False demo_poll_config 9 demo_poll_store ''js'' [demo_job ''a'' 11 PEND] {}
      (snd (judge_missing False demo_poll_config 8 demo_poll_store ''js'' [demo_job ''a'' 11 PEND] {12} new_querier))
    = (specs, q') \<and> map fst specs = [''a''] \<and>
   (''a'', ''g1'') \<in> misses 0 8 {12} [demo_job ''a'' 11 PEND]"
proof -
  let ?m = "[demo_job ''a'' 11 PEND]"
  let ?q = "snd (judge_missing False demo_poll_config 8 demo_poll_store ''js'' ?m {12} new_querier)"
  let ?r = "judge_missing False demo_poll_config 9 demo_poll_store ''js'' ?m {} ?q"
  have j: "judged ''js'' [misses (submit_grace_s False demo_poll_config) 8 {12} ?m] ?q"
    by (intro judged.intros)
  have k: "map fst (fst ?r) = [''a'']" by code_simp
  obtain specs q' where r: "?r = (specs, q')" by (cases ?r)
  from k r obtain st g fs where "specs = [(''a'', st, g, fs)]" by (cases specs) auto
  with lost_needs_consecutive_misses [OF j r, of "''a''" st g fs] k r
  show ?thesis
    by (simp add: Let_def demo_poll_config_def submit_grace_s_def numeral_2_eq_2)
      (simp add: demo_job_def demo_rec_def)
qed


section \<open>What a query writes\<close>

text \<open>
  A batch of specs with distinct keys, read off as its effect on one record: it keeps the
  record, or some spec for its key, accepted by its guard, replaced it and returned the result.
\<close>

lemma batch_effect:
  assumes "store_inv s" and "\<not> list_ex (\<lambda>(_, _, _, fs). reject_key_fields fs) specs"
    and "distinct (map fst specs)" and "store_transition_many now j specs s = (Inr out, s')"
  shows "store_inv s' \<and>
    (dget (jobs_of s' i) k = dget (jobs_of s i) k \<or>
     (i = j \<and> (\<exists>st g fs cur. (k, st, g, fs) \<in> set specs \<and> dget (jobs_of s j) k = Some cur \<and> guard_ok g cur \<and>
        dget (jobs_of s' j) k = Some (transitioned cur now st fs) \<and> transitioned cur now st fs \<in> set out)))"
proof -
  have run: "out = fst (transition_many_loop now j specs s)" "s' = snd (transition_many_loop now j specs s)"
    using assms(2,4) by (auto simp: store_transition_many_def transition_many_def split_beta)
  note eff = transition_many_loop_distinct [OF assms(1-3), of now j]
  have inv: "store_inv s'" unfolding run by (rule transition_many_loop_inv [OF assms(1,2)])
  show ?thesis
  proof (cases "find (\<lambda>sp. i = j \<and> fst sp = k) specs")
    case None
    with eff inv show ?thesis by (simp add: run)
  next
    case (Some sp)
    then have sp: "sp \<in> set specs" "i = j" "fst sp = k" unfolding find_Some_iff by (metis nth_mem)+
    then obtain st g fs where q: "sp = (k, st, g, fs)" by (metis prod.collapse)
    show ?thesis
    proof (cases "spec_result now (jobs_of s j) sp")
      case None
      with eff inv Some show ?thesis by (simp add: run)
    next
      case (Some r)
      then obtain cur where cur: "dget (jobs_of s j) k = Some cur" "guard_ok g cur" "r = transitioned cur now st fs"
        by (auto simp: spec_result_def q split: option.splits if_splits)
      have "r \<in> set out"
        using eff sp(1) Some unfolding run by (auto simp: set_map_filter intro!: bexI [of _ sp])
      moreover have "dget (jobs_of s' j) k = Some r"
        using eff Some \<open>find _ specs = Some sp\<close> sp(2) by (simp add: run)
      ultimately show ?thesis using inv sp(1) [unfolded q] sp(2) cur by metis
    qed
  qed
qed

lemma get_jobs_dict:
  "get_jobs j sts s = Inr rs \<Longrightarrow>
     rs = filter (\<lambda>r. sts = None \<or> jr_state r \<in> set (the sts)) (dvalues (jobs_of s j))"
  by (auto simp: get_jobs_def Let_def split: if_splits option.splits)

lemma targets_keys:
  assumes "store_inv s" and "get_jobs j sts s = Inr rs"
  shows "distinct (map jr_job_key rs)"
proof -
  have "map jr_job_key (dvalues (jobs_of s j)) = dkeys (jobs_of s j)"
    using jobs_of_job(2) [OF assms(1)] map_of_is_SomeI [OF store_inv_distinct [OF assms(1), of j]]
    unfolding map_map map_eq_conv comp_def by (metis prod.collapse)
  then have "distinct (map jr_job_key (dvalues (jobs_of s j)))"
    by (simp only: store_inv_distinct [OF assms(1)])
  with get_jobs_dict [OF assms(2)] show ?thesis by (simp add: distinct_map_filter)
qed

lemma update_spec_key: "update_spec cfg sts r = Some p \<Longrightarrow> fst p = jr_job_key r"
  by (auto simp: update_spec_def split: option.splits)

lemma merge_fields_ok: "merge_fields a b r st = Some fs \<Longrightarrow> \<not> reject_key_fields fs"
  by (auto simp: merge_fields_def reject_key_fields_def Let_def split: if_splits)

lemma update_specs_ok:
  assumes "distinct (map jr_job_key targets)"
  shows "distinct (map fst (List.map_filter (update_spec cfg sts) targets)) \<and>
    \<not> list_ex (\<lambda>(_, _, _, fs). reject_key_fields fs) (List.map_filter (update_spec cfg sts) targets)"
proof -
  have "map fst (List.map_filter (update_spec cfg sts) targets)
      = map jr_job_key (filter (\<lambda>r. update_spec cfg sts r \<noteq> None) targets)"
    by (rule map_filter_keys) (rule update_spec_key)
  then show ?thesis
    using assms by (auto simp: distinct_map_filter list_ex_iff set_map_filter update_spec_def
        dest: merge_fields_ok split: option.splits)
qed

lemma lost_specs_ok:
  assumes "distinct (map jr_job_key missing)"
  shows "distinct (map fst (fst (judge_missing internal cfg now s j missing failed q))) \<and>
    \<not> list_ex (\<lambda>(_, _, _, fs). reject_key_fields fs) (fst (judge_missing internal cfg now s j missing failed q))"
proof -
  have m: "map fst (map lost_spec xs) = map jr_job_key xs" for xs by (simp add: lost_spec_def)
  show ?thesis
    using assms
    by (auto simp: judge_missing_def pop_streaks_def Let_def m distinct_map_filter list_ex_iff lost_spec_def
        reject_key_fields_def simp del: map_map)
qed


lemma store_transition_many_ok:
  "\<not> list_ex (\<lambda>(_, _, _, fs). reject_key_fields fs) specs \<Longrightarrow>
     \<exists>out s'. store_transition_many now j specs s = (Inr out, s')"
  by (simp add: store_transition_many_def transition_many_def split_beta)

text \<open>The two batches of an answer: found targets on their own keys, missing ones on theirs.\<close>

lemma update_spec_in:
  assumes "(k, st, g, fs) \<in> set (List.map_filter (update_spec cfg sts) targets)"
  obtains r x where "r \<in> set targets" "jr_job_key r = k" "lookup_status sts r = Some x" "st = Some (st_state x)"
    "g = Some (unchanged r)"
    "merge_fields (pc_poll_runtime_updates cfg) (pc_collect_clusters cfg) r x = Some fs"
  using assms by (fastforce simp: set_map_filter update_spec_def split: option.splits)

lemma lost_spec_in:
  assumes "(k, st, g, fs) \<in> set (fst (judge_missing internal cfg now s j (missing_of sts targets) failed q))"
  obtains r where "r \<in> set targets" "jr_job_key r = k" "lookup_status sts r = None" "st = Some LOST"
    "g = Some (unchanged r)" "\<exists>jid. jr_job_id r = Some jid \<and> jid \<notin> failed"
  using assms unfolding judge_missing_specs
  by (auto simp: lost_spec_def missing_of_def judge_def split: option.splits if_splits)

text \<open>What is written to one key: \<open>observed\<close> describes the new record.\<close>

definition observed :: "poll_config \<Rightarrow> datetime \<Rightarrow> JobStatus list \<Rightarrow> int set \<Rightarrow> QueryResult \<Rightarrow> JobRecord
    \<Rightarrow> JobRecord \<Rightarrow> JobRecord \<Rightarrow> bool" where
  "observed cfg now sts failed res r cur new \<longleftrightarrow> unchanged r cur \<and> new \<in> set (qr_changed res) \<and>
     (case lookup_status sts r of
        Some st \<Rightarrow> (\<exists>fs. merge_fields (pc_poll_runtime_updates cfg) (pc_collect_clusters cfg) r st = Some fs \<and>
            new = transitioned cur now (Some (st_state st)) fs)
      | None \<Rightarrow> new \<in> set (qr_lost res) \<and> jr_state new = LOST \<and>
          (\<exists>jid. jr_job_id r = Some jid \<and> jid \<notin> failed))"

lemma apply_answer_effect:
  assumes inv: "store_inv (m_store w)" and dist: "distinct (map jr_job_key targets)"
    and run: "apply_answer cmd cfg now j targets sts failed w = (Inr res, w')"
    and diff: "dget (jobs_of (m_store w') i) k \<noteq> dget (jobs_of (m_store w) i) k"
  shows "i = j \<and> (\<exists>r\<in>set targets. \<exists>cur new. jr_job_key r = k \<and> dget (jobs_of (m_store w) j) k = Some cur \<and>
       dget (jobs_of (m_store w') j) k = Some new \<and> observed cfg now sts (set failed) res r cur new)"
proof -
  let ?ups = "List.map_filter (update_spec cfg sts) targets" and ?ms = "missing_of sts targets"
  let ?j = "judge_missing (sv_internal cmd) cfg now (m_store w) j ?ms (set failed) (m_q w)"
  obtain ls q where jm: "?j = (ls, q)" by (cases ?j)
  then have ls: "ls = fst ?j" by simp
  have dm: "distinct (map jr_job_key ?ms)" using dist by (simp add: missing_of_def distinct_map_filter)
  note up = update_specs_ok [OF dist, of cfg sts]
  note lo = lost_specs_ok [OF dm, of "sv_internal cmd" cfg now "m_store w" j "set failed" "m_q w", folded ls]
  obtain ch s2 where r2: "store_transition_many now j ?ups (m_store w) = (Inr ch, s2)"
    using store_transition_many_ok up by blast
  obtain lost s3 where r3: "store_transition_many now j ls s2 = (Inr lost, s3)"
    using store_transition_many_ok lo by blast
  from run have res: "m_store w' = s3" "qr_changed res = ch @ lost" "qr_lost res = lost"
    by (auto simp: apply_answer_def jm r2 r3 Let_def split: sum.splits)
  note e2 = batch_effect [OF inv conjunct2 [OF up] conjunct1 [OF up] r2, of i k]
  note e3 = batch_effect [OF conjunct1 [OF e2] conjunct2 [OF lo] conjunct1 [OF lo] r3, of i k]
  show ?thesis
  proof (cases "dget (jobs_of s3 i) k = dget (jobs_of s2 i) k")
    case same: True
    with e2 diff res obtain st g fs cur where *: "i = j" "(k, st, g, fs) \<in> set ?ups"
      "dget (jobs_of (m_store w) j) k = Some cur" "guard_ok g cur"
      "dget (jobs_of s2 j) k = Some (transitioned cur now st fs)" "transitioned cur now st fs \<in> set ch" by metis
    from *(2) show ?thesis
      by (rule update_spec_in) (use * same res in \<open>auto simp: observed_def guard_ok_def\<close>)
  next
    case False
    with e3 obtain st g fs cur where *: "i = j" "(k, st, g, fs) \<in> set ls"
      "dget (jobs_of s2 j) k = Some cur" "guard_ok g cur"
      "dget (jobs_of s3 j) k = Some (transitioned cur now st fs)" "transitioned cur now st fs \<in> set lost" by blast
    from *(2) [unfolded ls] show ?thesis
    proof (rule lost_spec_in)
      fix r
      assume r: "r \<in> set targets" "jr_job_key r = k" "lookup_status sts r = None" "st = Some LOST"
        "g = Some (unchanged r)" "\<exists>jid. jr_job_id r = Some jid \<and> jid \<notin> set failed"
      have "(k, a) \<notin> set ?ups" for a
      proof
        assume "(k, a) \<in> set ?ups"
        then obtain r' x where "r' \<in> set targets" "jr_job_key r' = k" "lookup_status sts r' = Some x"
          by (metis update_spec_in prod.collapse)
        with r(1-3) dist show False by (metis distinct_map inj_onD option.distinct(1))
      qed
      with e2 *(1,3) have "dget (jobs_of (m_store w) j) k = Some cur" by metis
      with * r res show ?thesis by (auto simp: observed_def guard_ok_def)
    qed
  qed
qed


text \<open>
  C12: What a query writes. Whatever other threads did while the status query ran, a query of
  one jobset changes a stored record only if it was on LSF when the query started and is still
  the same execution with the same job id and state; the new record is the merge of its own row
  (or folded elements), or LOST for an answered id without a row. All other records stay.
\<close>

theorem query_writes_only_observed:
  assumes "store_reach (m_store w)" and "store_reach (m_store w1)"
    and "get_jobs j (Some ON_LSF) (m_store w) = Inr targets"
    and "sorted_set (List.map_filter jr_job_id targets) \<noteq> []"
    and "query_ids cmd fresh (sorted_set (List.map_filter jr_job_id targets)) j (Some (map jr_job_key targets)) w
       = (Inr (sts, failed), w1)"
    and "query_serialized cmd cfg now j fresh w = (Inr res, w')"
  shows "get_job i k (m_store w') = get_job i k (m_store w1) \<or>
    (i = j \<and> (\<exists>r\<in>set targets. \<exists>cur new. jr_job_key r = k \<and> get_job j k (m_store w1) = Inr cur \<and>
       is_on_lsf (jr_state cur) \<and> get_job j k (m_store w') = Inr new \<and>
       observed cfg now sts (set failed) res r cur new))"
proof -
  have inv: "store_inv (m_store w)" "store_inv (m_store w1)" using assms(1,2) by (auto intro: store_reach_inv)
  have "targets \<noteq> []" using assms(4) by (auto simp: List.map_filter_def sorted_set_def)
  then obtain t ts where t: "targets = t # ts" by (cases targets) auto
  from assms(4-6) have run: "apply_answer cmd cfg now j targets sts failed w1 = (Inr res, w')"
    by (auto simp: query_serialized_def assms(3) t Let_def obind_def split: sum.splits)
  have on: "is_on_lsf (jr_state r)" if "r \<in> set targets" for r
    using that get_jobs_dict [OF assms(3)] by (auto simp: is_on_lsf_def)
  show ?thesis
  proof (cases "dget (jobs_of (m_store w') i) k = dget (jobs_of (m_store w1) i) k")
    case False
    from apply_answer_effect [OF inv(2) targets_keys [OF inv(1) assms(3)] run False]
    show ?thesis
      using on by (fastforce simp: get_job_iff observed_def unchanged_def)
  qed (simp add: get_job_def)
qed

definition demo_status :: "int \<Rightarrow> JobState \<Rightarrow> int option \<Rightarrow> JobStatus" where
  "demo_status i st ec = \<lparr> st_job_id = i, st_array_index = None, st_state = st, st_exit_code = ec,
     st_run_time_s = None, st_start_time = None, st_finish_time = None, st_source_cluster = None,
     st_forward_cluster = None \<rparr>"

definition demo_status_command :: "unit status_command" where
  "demo_status_command = \<lparr> sv_internal = False,
     sv_ask = (\<lambda>fresh ids w. (Inr ([demo_status 12 EXIT (Some 3)], [11]), w)), sv_forget = (\<lambda>ids u. u) \<rparr>"

definition demo_mworld :: "unit mworld" where
  "demo_mworld = \<lparr> m_store = demo_poll_store, m_q = new_querier, m_env = () \<rparr>"

theorem query_writes_only_observed_witness:
  "\<exists>res w'. query_serialized demo_status_command demo_poll_config 9 ''js'' False demo_mworld = (Inr res, w') \<and>
     map jr_exit_code (qr_changed res) = [Some 3] \<and>
     (\<exists>new. get_job ''js'' ''b'' (m_store w') = Inr new \<and> jr_state new = EXIT) \<and>
     get_job ''js'' ''a'' (m_store w') = get_job ''js'' ''a'' demo_poll_store"
proof -
  let ?r = "query_serialized demo_status_command demo_poll_config 9 ''js'' False demo_mworld"
  let ?ts = "projr (get_jobs ''js'' (Some ON_LSF) demo_poll_store)"
  have "\<not> isl (fst ?r)" and ch: "map jr_exit_code (qr_changed (projr (fst ?r))) = [Some 3]"
    and b: "map_sum (\<lambda>_. ()) jr_state (get_job ''js'' ''b'' (m_store (snd ?r))) = Inr EXIT" by code_simp+
  then obtain res w' where r: "?r = (Inr res, w')" by (cases ?r; cases "fst ?r") auto
  have ts: "get_jobs ''js'' (Some ON_LSF) (m_store demo_mworld) = Inr ?ts" and
    ids: "sorted_set (List.map_filter jr_job_id ?ts) = [11, 12]" and
    keys: "map (\<lambda>r. (jr_job_key r, jr_job_id r)) ?ts = [(''a'', Some 11), (''b'', Some 12)]" by code_simp+
  have q: "query_ids demo_status_command False [11, 12] ''js'' (Some (map jr_job_key ?ts)) demo_mworld
      = (Inr ([demo_status 12 EXIT (Some 3)], [11]), demo_mworld)"
    by (simp add: query_ids_def demo_status_command_def)
  have reach: "store_reach (m_store demo_mworld)" by (simp add: demo_mworld_def demo_poll_store_reach)
  note th = query_writes_only_observed [OF reach reach ts _ _ r, unfolded ids, OF _ q, of "''js''" "''a''", simplified]
  have a: "jr_job_id x = Some 11" if "x \<in> set ?ts" "jr_job_key x = ''a''" for x
    using keys that by (cases ?ts) auto
  have no: "lookup_status [demo_status 12 EXIT (Some 3)] x = None" if "jr_job_id x = Some 11" for x
    using that by (simp add: lookup_status_def rows_by_id_def demo_status_def dget_or_def)
  have "get_job ''js'' ''a'' (m_store w') = get_job ''js'' ''a'' (m_store demo_mworld)"
    using th a no by (fastforce simp: observed_def)
  moreover have "\<exists>new. get_job ''js'' ''b'' (m_store w') = Inr new \<and> jr_state new = EXIT"
    using b r by (cases "get_job ''js'' ''b'' (m_store w')") auto
  ultimately show ?thesis using r ch by (auto simp: demo_mworld_def)
qed

text \<open>
  Merging settles. When nothing is written, record and row already agree; otherwise the
  written record has the row's state and exit code, keeps every value the row does not know and
  its own job id, and merging the same row again writes nothing.
\<close>

theorem merge_fields_settles:
  "case merge_fields ru cc r st of
     None \<Rightarrow> jr_state r = st_state st \<and> jr_exit_code r = st_exit_code st \<and>
       (\<forall>t. st_finish_time st = Some t \<longrightarrow> jr_finish_time r = Some t)
   | Some fs \<Rightarrow>
       (let new = transitioned r now (Some (st_state st)) fs
        in merge_fields ru cc new st = None \<and> jr_state new = st_state st \<and> jr_exit_code new = st_exit_code st \<and>
           jr_finish_time new = keep_known (st_finish_time st) (jr_finish_time r) \<and>
           jr_start_time new = keep_known (st_start_time st) (jr_start_time r) \<and>
           jr_run_time_s new = keep_known (st_run_time_s st) (jr_run_time_s r) \<and>
           (\<forall>i. jr_job_id r = Some i \<longrightarrow> jr_job_id new = Some i) \<and> same_execution new r)"
  by (simp add: merge_fields_def transitioned_def replaced_def apply_fields_def keep_known_def Let_def
      same_execution_def)

theorem merge_fields_settles_witness:
  "merge_fields True False (transitioned (demo_job ''a'' 11 RUN) 9 (Some DONE)
     (the (merge_fields True False (demo_job ''a'' 11 RUN) (demo_status 11 DONE (Some 0))))) (demo_status 11 DONE (Some 0)) = None"
proof -
  have "merge_fields True False (demo_job ''a'' 11 RUN) (demo_status 11 DONE (Some 0)) \<noteq> None" by code_simp
  with merge_fields_settles [where ru = True and cc = False and r = "demo_job ''a'' 11 RUN"
      and st = "demo_status 11 DONE (Some 0)" and now = 9]
  show ?thesis by (auto simp: Let_def demo_status_def)
qed


section \<open>Query locks\<close>

text \<open>
  Reachable lock tables, with the queries that hold or wait for a lock: each with its jobset
  and the lock it was given. Every other operation of the querier leaves the table alone.
\<close>

inductive lock_reach :: "(jobset_id \<times> nat) list \<Rightarrow> querier \<Rightarrow> bool" where
  lock_start: "lock_reach [] new_querier"
| lock_enter: "lock_reach hs q \<Longrightarrow> query_enter j q = (e, q') \<Longrightarrow> lock_reach ((j, e) # hs) q'"
| lock_leave: "lock_reach (hs1 @ (j, e) # hs2) q \<Longrightarrow> lock_reach (hs1 @ hs2) (query_leave j e q)"
| lock_other: "lock_reach hs q \<Longrightarrow> q_locks q' = q_locks q \<Longrightarrow> q_lock_users q' = q_lock_users q \<Longrightarrow>
    lock_reach hs q'"

definition lock_inv :: "(jobset_id \<times> nat) list \<Rightarrow> querier \<Rightarrow> bool" where
  "lock_inv hs q \<longleftrightarrow>
     (\<forall>j e. (j, e) \<in> set hs \<longrightarrow> dget (q_locks q) j = Some e) \<and>
     (\<forall>j e. dget (q_locks q) j = Some e \<longrightarrow> e < length (q_lock_users q) \<and> (j, e) \<in> set hs \<and>
        q_lock_users q ! e = int (count_list hs (j, e)) \<and>
        (\<forall>j'. dget (q_locks q) j' = Some e \<longrightarrow> j' = j))"

lemma lock_invI:
  "(\<And>j e. (j, e) \<in> set hs \<Longrightarrow> dget (q_locks q) j = Some e) \<Longrightarrow>
   (\<And>j e. dget (q_locks q) j = Some e \<Longrightarrow> e < length (q_lock_users q) \<and> (j, e) \<in> set hs \<and>
      q_lock_users q ! e = int (count_list hs (j, e)) \<and> (\<forall>j'. dget (q_locks q) j' = Some e \<longrightarrow> j' = j)) \<Longrightarrow>
   lock_inv hs q"
  unfolding lock_inv_def by blast

lemma lock_invD:
  "lock_inv hs q \<Longrightarrow> (j, e) \<in> set hs \<Longrightarrow> dget (q_locks q) j = Some e"
  "lock_inv hs q \<Longrightarrow> dget (q_locks q) j = Some e \<Longrightarrow> e < length (q_lock_users q)"
  "lock_inv hs q \<Longrightarrow> dget (q_locks q) j = Some e \<Longrightarrow> (j, e) \<in> set hs"
  "lock_inv hs q \<Longrightarrow> dget (q_locks q) j = Some e \<Longrightarrow> q_lock_users q ! e = int (count_list hs (j, e))"
  "lock_inv hs q \<Longrightarrow> dget (q_locks q) j = Some e \<Longrightarrow> dget (q_locks q) j' = Some e \<Longrightarrow> j' = j"
  by (unfold lock_inv_def, blast, blast, blast, blast, blast)

lemma lock_inv_enter:
  assumes inv: "lock_inv hs q" and run: "query_enter j q = (e, q')"
  shows "lock_inv ((j, e) # hs) q'"
proof (cases "dget (q_locks q) j")
  case None
  have e: "e = length (q_lock_users q)" and q': "q_locks q' = dset j e (q_locks q)"
    "q_lock_users q' = q_lock_users q @ [1]"
    using run None by (auto simp: query_enter_def Let_def list_update_append)
  have fresh: "\<And>i. (i, e) \<notin> set hs" and nj: "\<And>x. (j, x) \<notin> set hs"
    using lock_invD(1,2) [OF inv] None e by fastforce+
  show ?thesis
  proof (rule lock_invI, goal_cases)
    case (1 i x)
    then show ?case using lock_invD(1) [OF inv] nj q' by auto
  next
    case (2 i x)
    show ?case
    proof (cases "i = j")
      case True
      then have x: "x = e" using 2 q' by simp
      have "dget (q_locks q) i' \<noteq> Some e" for i' using lock_invD(2) [OF inv] e by fastforce
      then show ?thesis using True x fresh q' e by (auto simp: count_list_0_iff nth_append)
    next
      case False
      then have i: "dget (q_locks q) i = Some x" using 2 q' by simp
      then have "x < length (q_lock_users q)" by (rule lock_invD(2) [OF inv])
      then show ?thesis
        using False lock_invD(3,4) [OF inv i] lock_invD(5) [OF inv i] \<open>e = _\<close> unfolding q'
        by (simp add: nth_append)
    qed
  qed
next
  case (Some e0)
  then have e: "e = e0" and q': "q_locks q' = q_locks q"
    "q_lock_users q' = (q_lock_users q)[e := q_lock_users q ! e + 1]"
    using run by (auto simp: query_enter_def Let_def)
  show ?thesis
  proof (rule lock_invI, goal_cases)
    case (1 i x)
    then show ?case using lock_invD(1) [OF inv] Some e q' by auto
  next
    case (2 i x)
    then have i: "dget (q_locks q) i = Some x" using q' by simp
    note D = lock_invD(2-5) [OF inv i]
    show ?case
    proof (cases "x = e")
      case True
      then have "i = j" using lock_invD(5) [OF inv i, of j] Some e by simp
      then show ?thesis using D(1-3) True q' lock_invD(5) [OF inv i] by simp
    next
      case False
      then show ?thesis using D(1-3) q' lock_invD(5) [OF inv i] by simp
    qed
  qed
qed

lemma lock_inv_leave:
  assumes inv: "lock_inv (hs1 @ (j, e) # hs2) q"
  shows "lock_inv (hs1 @ hs2) (query_leave j e q)"
proof -
  let ?hs = "hs1 @ (j, e) # hs2" and ?q = "query_leave j e q"
  have je: "dget (q_locks q) j = Some e" by (rule lock_invD(1) [OF inv]) simp
  note Dj = lock_invD(2-5) [OF inv je]
  let ?n = "count_list (hs1 @ hs2) (j, e)"
  have users: "q_lock_users ?q = (q_lock_users q)[e := int ?n]"
    using Dj(3) by (simp add: query_leave_def Let_def)
  have locks: "q_locks ?q = (if ?n = 0 then ddel j (q_locks q) else q_locks q)"
    using Dj(3) je by (simp add: query_leave_def Let_def)
  have n0: "(j, e) \<notin> set (hs1 @ hs2) \<longleftrightarrow> ?n = 0" by (simp add: count_list_0_iff)
  show ?thesis
  proof (rule lock_invI, goal_cases)
    case (1 i x)
    then have i: "dget (q_locks q) i = Some x" by (intro lock_invD(1) [OF inv]) auto
    show ?case
    proof (cases "i = j")
      case True
      with i je have "x = e" by simp
      with 1 True n0 have "?n \<noteq> 0" by simp
      with i locks show ?thesis by simp
    qed (use i locks in simp)
  next
    case (2 i x)
    then have i: "dget (q_locks q) i = Some x" and nz: "i = j \<Longrightarrow> ?n \<noteq> 0"
      using locks by (auto split: if_splits)
    note D = lock_invD(2-5) [OF inv i]
    have inj: "\<forall>j'. dget (q_locks ?q) j' = Some x \<longrightarrow> j' = i" using D(4) locks by (auto split: if_splits)
    show ?case
    proof (cases "i = j")
      case True
      with i je have "x = e" by simp
      with True D inj users nz n0 show ?thesis by auto
    next
      case False
      then have "x \<noteq> e" using D(4) [of j] je by auto
      with False D inj users show ?thesis by auto
    qed
  qed
qed

lemma lock_reach_inv: "lock_reach hs q \<Longrightarrow> lock_inv hs q"
proof (induction rule: lock_reach.induct)
  case lock_start
  then show ?case by (simp add: lock_inv_def new_querier_def)
next
  case (lock_enter hs q j e q')
  then show ?case by (blast intro: lock_inv_enter)
next
  case (lock_leave hs1 j e hs2 q)
  then show ?case by (blast intro: lock_inv_leave)
next
  case (lock_other hs q q')
  from lock_other(4) show ?case unfolding lock_inv_def lock_other(2,3) .
qed

text \<open>
  Query locks. At any time two queries of the same jobset have the same lock and queries of
  different jobsets different ones; a jobset is in the lock table exactly while some query uses
  it, so the table is empty when no query runs.
\<close>

theorem query_locks_serialize_and_vanish:
  assumes "lock_reach hs q"
  shows "(\<forall>i a j b. (i, a) \<in> set hs \<longrightarrow> (j, b) \<in> set hs \<longrightarrow> (a = b \<longleftrightarrow> i = j)) \<and>
    (\<forall>j. dhas (q_locks q) j \<longleftrightarrow> j \<in> fst ` set hs) \<and> (hs = [] \<longrightarrow> q_locks q = [])"
proof -
  note inv = lock_reach_inv [OF assms]
  have one: "a = b \<longleftrightarrow> i = j" if "(i, a) \<in> set hs" "(j, b) \<in> set hs" for i a j b
    using lock_invD(1) [OF inv that(1)] lock_invD(1) [OF inv that(2)] lock_invD(5) [OF inv]
    by (metis option.inject)
  have has: "dhas (q_locks q) j \<longleftrightarrow> j \<in> fst ` set hs" for j
  proof
    assume "dhas (q_locks q) j"
    then obtain e where "dget (q_locks q) j = Some e" by (auto simp: dhas_def)
    then show "j \<in> fst ` set hs" using lock_invD(3) [OF inv] by (metis fst_conv image_eqI)
  next
    assume "j \<in> fst ` set hs"
    then obtain e where "(j, e) \<in> set hs" by (metis imageE prod.collapse)
    then show "dhas (q_locks q) j" using lock_invD(1) [OF inv] by (metis dhas_Some)
  qed
  have none: "q_locks q = []" if "hs = []"
  proof (cases "q_locks q")
    case (Cons p ps)
    then have "dhas (q_locks q) (fst p)" by (simp add: dhas_iff_key)
    with has that show ?thesis by simp
  qed
  show ?thesis
    by (intro conjI allI impI) (erule (1) one, rule has, erule none)
qed

theorem query_locks_serialize_and_vanish_witness:
  "let (a, q1) = query_enter ''x'' new_querier; (b, q2) = query_enter ''x'' q1
   in a = b \<and> q_locks (query_leave ''x'' b (query_leave ''x'' a q2)) = []"
proof -
  obtain a q1 where 1: "query_enter ''x'' new_querier = (a, q1)" by (cases "query_enter ''x'' new_querier")
  obtain b q2 where 2: "query_enter ''x'' q1 = (b, q2)" by (cases "query_enter ''x'' q1")
  have r: "lock_reach [(''x'', b), (''x'', a)] q2"
    by (rule lock_enter [OF lock_enter [OF lock_start 1] 2])
  have "lock_reach [(''x'', b)] (query_leave ''x'' a q2)"
    using lock_leave [of "[(''x'', b)]" "''x''" a "[]"] r by simp
  then have "lock_reach [] (query_leave ''x'' b (query_leave ''x'' a q2))"
    using lock_leave [of "[]" "''x''" b "[]"] by simp
  then have "q_locks (query_leave ''x'' b (query_leave ''x'' a q2)) = []"
    using query_locks_serialize_and_vanish by blast
  moreover have "a = b"
    using conjunct1 [OF query_locks_serialize_and_vanish [OF r], rule_format, of "''x''" a "''x''" b] by simp
  ultimately show ?thesis using 1 2 by simp
qed


section \<open>Interest in job ids\<close>

text \<open>Reachable id ledgers, with the id lists of the queries that run.\<close>

inductive id_reach :: "int list list \<Rightarrow> (int, nat) dict \<Rightarrow> bool" where
  id_start: "id_reach [] []"
| id_begin: "id_reach runs (q_id_queries q) \<Longrightarrow> distinct ids \<Longrightarrow>
    id_reach (ids # runs) (q_id_queries (ids_begin ids q))"
| id_end: "id_reach (a @ ids # b) d \<Longrightarrow> id_reach (a @ b) (snd (ids_end ids d))"

definition askers :: "int list list \<Rightarrow> int \<Rightarrow> nat" where
  "askers runs i = length (filter (\<lambda>ids. i \<in> set ids) runs)"

definition id_entry :: "nat \<Rightarrow> nat option" where
  "id_entry n = (if n = 0 then None else Some n)"

lemma askers_simps [simp]:
  "askers [] i = 0" "askers (ids # runs) i = of_bool (i \<in> set ids) + askers runs i"
  "askers (a @ b) i = askers a i + askers b i"
  by (simp_all add: askers_def)

lemma ids_begin_get:
  "distinct ids \<Longrightarrow> dget (fold (\<lambda>i d. dset i (dget_or d i 0 + 1) d) ids d) i
     = (if i \<in> set ids then Some (dget_or d i 0 + 1) else dget d i)"
  by (induction ids arbitrary: d) (auto simp: dget_or_def)

lemma ids_end_get:
  assumes "distinct ids" and "\<forall>i\<in>set ids. dget d i = Some (Suc (m i))"
  shows "fst (ids_end ids d) = filter (\<lambda>i. m i = 0) ids \<and>
    dget (snd (ids_end ids d)) i = (if i \<in> set ids then id_entry (m i) else dget d i)"
  using assms
proof (induction ids arbitrary: d)
  case (Cons x xs)
  define d1 where "d1 = (if m x = 0 then ddel x d else dset x (m x) d)"
  have x: "id_done x d = (m x = 0, d1)" "dget d1 y = (if y = x then id_entry (m x) else dget d y)" for y
    using Cons.prems(2) by (simp_all add: id_done_def dget_or_def id_entry_def Let_def d1_def)
  obtain f d2 where rec: "ids_end xs d1 = (f, d2)" by (cases "ids_end xs d1")
  have "\<forall>i\<in>set xs. dget d1 i = Some (Suc (m i))" using Cons.prems x(2) by auto
  from Cons.IH [OF _ this] Cons.prems(1) rec
  have "f = filter (\<lambda>i. m i = 0) xs" "dget d2 i = (if i \<in> set xs then id_entry (m i) else dget d1 i)" by auto
  then show ?case using Cons.prems(1) by (auto simp: x rec)
qed simp

lemma id_reach_exact: "id_reach runs d \<Longrightarrow> (\<forall>ids\<in>set runs. distinct ids) \<and> (\<forall>i. dget d i = id_entry (askers runs i))"
proof (induction rule: id_reach.induct)
  case id_start
  then show ?case by (simp add: id_entry_def)
next
  case (id_begin runs q ids)
  have "dget (q_id_queries (ids_begin ids q)) i
      = (if i \<in> set ids then Some (dget_or (q_id_queries q) i 0 + 1) else dget (q_id_queries q) i)" for i
    using ids_begin_get [OF id_begin(2), of "q_id_queries q" i] by (simp add: ids_begin_def)
  with id_begin show ?case by (simp add: dget_or_def id_entry_def)
next
  case (id_end a ids b d)
  then have "distinct ids" "\<forall>i\<in>set ids. dget d i = Some (Suc (askers (a @ b) i))"
    by (simp_all add: id_entry_def)
  from ids_end_get [OF this] id_end.IH show ?case by (simp add: id_entry_def)
qed

text \<open>
  Interest in ids. When a query of the callback source ends, the ids it reports as no
  longer asked for are exactly its ids that no other running query includes; the ledger has
  an entry exactly for the ids some query includes, so none when no query runs.
\<close>

theorem id_interest_exact:
  assumes "id_reach (a @ ids # b) d"
  shows "fst (ids_end ids d) = filter (\<lambda>i. \<forall>other\<in>set (a @ b). i \<notin> set other) ids \<and>
    (\<forall>i. dhas (snd (ids_end ids d)) i \<longleftrightarrow> (\<exists>other\<in>set (a @ b). i \<in> set other))"
proof -
  have n: "askers (a @ b) i = 0 \<longleftrightarrow> (\<forall>other\<in>set (a @ b). i \<notin> set other)" for i
    unfolding askers_def length_0_conv filter_empty_conv ..
  from id_reach_exact [OF assms] have "distinct ids" "\<forall>i\<in>set ids. dget d i = Some (Suc (askers (a @ b) i))"
    by (simp_all add: id_entry_def)
  from ids_end_get [OF this] have "fst (ids_end ids d) = filter (\<lambda>i. askers (a @ b) i = 0) ids" by blast
  moreover have "dhas (snd (ids_end ids d)) i \<longleftrightarrow> askers (a @ b) i \<noteq> 0" for i
    using id_reach_exact [OF id_end [OF assms]] by (simp add: dhas_def id_entry_def)
  ultimately show ?thesis unfolding n by auto
qed

theorem id_interest_exact_witness:
  "fst (ids_end [11, 12] (q_id_queries (ids_begin [12, 13] (ids_begin [11, 12] new_querier)))) = [11]"
proof -
  have "id_reach [[11, 12]] (q_id_queries (ids_begin [11, 12] new_querier))"
    by (rule id_begin) (simp_all add: new_querier_def id_start)
  then have "id_reach ([[12, 13]] @ [11, 12] # []) (q_id_queries (ids_begin [12, 13] (ids_begin [11, 12] new_querier)))"
    by (simp add: id_begin)
  from conjunct1 [OF id_interest_exact [OF this]] show ?thesis by simp
qed

section \<open>The worker's timers\<close>

text \<open>Reachable workers, in a world that other threads change at will.\<close>

inductive worker_reach :: "poll_worker \<Rightarrow> 'w mworld \<Rightarrow> bool" where
  worker_new: "worker_reach new_poll_worker w"
| worker_world: "worker_reach p w \<Longrightarrow> worker_reach p w'"
| worker_poll: "worker_reach p w \<Longrightarrow> poll cmd cfg now interrupted j (p, w) = (evs, p', w') \<Longrightarrow> worker_reach p' w'"
| worker_start: "worker_reach p w \<Longrightarrow> start_polling cmd cfg now interrupted j ival (p, w) = (evs, p', w') \<Longrightarrow>
    worker_reach p' w'"
| worker_stop: "worker_reach p w \<Longrightarrow> worker_reach (stop_polling j p) w"
| worker_stop_all: "worker_reach p w \<Longrightarrow> worker_reach (stop_all p) w"

definition worker_inv :: "poll_worker \<Rightarrow> bool" where
  "worker_inv p \<longleftrightarrow> pw_in_progress p = {} \<and>
     (\<forall>k n. dget (pw_idle p) k = Some n \<longrightarrow> n = 1 \<and> dhas (pw_timers p) k)"

lemma worker_inv_stop: "worker_inv p \<Longrightarrow> worker_inv (stop_polling j p)"
  by (auto simp: worker_inv_def stop_polling_def)

lemma worker_inv_stop_all: "worker_inv p \<Longrightarrow> worker_inv (stop_all p)"
proof -
  have "worker_inv p \<Longrightarrow> worker_inv (fold stop_polling ks p)" for ks
    by (induction ks arbitrary: p) (simp_all add: worker_inv_stop)
  then show "worker_inv p \<Longrightarrow> worker_inv (stop_all p)" by (simp add: stop_all_def)
qed

lemma worker_inv_auto_stop: "worker_inv p \<Longrightarrow> worker_inv (maybe_auto_stop s j p)"
  unfolding maybe_auto_stop_def
  by (auto simp: worker_inv_def stop_polling_def dget_or_def Let_def split: sum.splits option.splits)

lemma worker_idle: "worker_inv p \<Longrightarrow> p\<lparr>pw_in_progress := {}\<rparr> = p"
  by (simp add: worker_inv_def)

lemma poll_eq:
  assumes "worker_inv p" and "query cmd cfg now j False w = (r, w1)"
  shows "poll cmd cfg now False j (p, w) =
    (case r of
       Inl (JobSetNotFoundError i) \<Rightarrow> ([], stop_polling j p, w1)
     | Inl e \<Rightarrow> ([PollError j e], p, w1)
     | Inr res \<Rightarrow> (PollUpdated j (qr_summary res) (qr_changed res) # map (PollLost j) (qr_lost res),
         maybe_auto_stop (m_store w1) j p, w1))"
  using assms
  by (auto simp: poll_def worker_inv_def stop_polling_def Let_def worker_idle [OF assms(1)]
      split: sum.splits py_error.splits)

lemma worker_inv_poll:
  assumes "worker_inv p" and "poll cmd cfg now interrupted j (p, w) = (evs, p', w')"
  shows "worker_inv p'"
proof (cases interrupted)
  case False
  obtain r w1 where "query cmd cfg now j False w = (r, w1)" by (cases "query cmd cfg now j False w")
  from poll_eq [OF assms(1) this] assms False show ?thesis
    by (auto simp: worker_inv_stop worker_inv_auto_stop split: sum.splits py_error.splits)
qed (use assms in \<open>simp add: poll_def\<close>)

lemma worker_inv_start:
  assumes "worker_inv p" and "start_polling cmd cfg now interrupted j ival (p, w) = (evs, p', w')"
  shows "worker_inv p'"
proof (cases "interrupted \<or> dget (pw_timers p) j = Some (timer_ms ival)")
  case True
  with assms show ?thesis by (cases interrupted) (auto simp: start_polling_def Let_def split: if_splits)
next
  case False
  let ?p = "(stop_polling j p)\<lparr>pw_timers := dset j (timer_ms ival) (pw_timers (stop_polling j p))\<rparr>"
  have "worker_inv ?p" using worker_inv_stop [OF assms(1), of j] by (simp add: worker_inv_def)
  moreover have "poll cmd cfg now interrupted j (?p, w) = (evs, p', w')"
    using assms(2) False by (simp add: start_polling_def Let_def)
  ultimately show ?thesis by (rule worker_inv_poll)
qed

lemma worker_reach_inv: "worker_reach p w \<Longrightarrow> worker_inv p"
proof (induction rule: worker_reach.induct)
  case (worker_new w)
  then show ?case by (simp add: worker_inv_def new_poll_worker_def)
qed (blast intro: worker_inv_stop worker_inv_stop_all worker_inv_poll worker_inv_start)+

text \<open>
  C13: Polling. A poll by a reachable worker stops the jobset's timer when the jobset is gone,
  when its jobs are all terminal, and when for the second poll in a row nothing is active;
  otherwise the timer stays. A failed query is reported and keeps it. Timers of other jobsets
  are untouched.
\<close>

theorem poll_keeps_timer_exactly_while_needed:
  assumes "worker_reach p w0" and "query cmd cfg now j False w = (r, w1)"
  shows "\<exists>evs p'. poll cmd cfg now False j (p, w) = (evs, p', w1) \<and>
    (\<forall>i. i \<noteq> j \<longrightarrow> dget (pw_timers p') i = dget (pw_timers p) i \<and> dget (pw_idle p') i = dget (pw_idle p) i) \<and>
    (case r of
       Inl e \<Rightarrow> (if \<exists>i. e = JobSetNotFoundError i then evs = [] \<and> \<not> dhas (pw_timers p') j
                else evs = [PollError j e] \<and> p' = p)
     | Inr res \<Rightarrow> length evs = Suc (length (qr_lost res)) \<and>
         (\<forall>rs. get_jobs j None (m_store w1) = Inr rs \<longrightarrow>
           (dhas (pw_timers p') j \<longleftrightarrow> dhas (pw_timers p) j \<and> \<not> (rs \<noteq> [] \<and> list_all (\<lambda>r. is_terminal (jr_state r)) rs)
              \<and> (list_ex poll_active rs \<or> \<not> dhas (pw_idle p) j)) \<and>
           (dhas (pw_idle p') j \<longleftrightarrow> dhas (pw_timers p') j \<and> \<not> list_ex poll_active rs)))"
proof -
  note inv = worker_reach_inv [OF assms(1)]
  note eq = poll_eq [OF inv assms(2)]
  show ?thesis
  proof (cases r)
    case (Inl e)
    with eq show ?thesis by (cases e) (auto simp: stop_polling_def)
  next
    case (Inr res)
    let ?p = "maybe_auto_stop (m_store w1) j p"
    have others: "dget (pw_timers ?p) i = dget (pw_timers p) i \<and> dget (pw_idle ?p) i = dget (pw_idle p) i" if "i \<noteq> j" for i
      using that by (auto simp: maybe_auto_stop_def stop_polling_def Let_def split: sum.splits)
    have idle: "dget (pw_idle p) j = Some n \<Longrightarrow> n = 1 \<and> dhas (pw_timers p) j" for n
      using inv by (auto simp: worker_inv_def)
    have "(dhas (pw_timers ?p) j \<longleftrightarrow> dhas (pw_timers p) j \<and> \<not> (rs \<noteq> [] \<and> list_all (\<lambda>r. is_terminal (jr_state r)) rs)
              \<and> (list_ex poll_active rs \<or> \<not> dhas (pw_idle p) j)) \<and>
           (dhas (pw_idle ?p) j \<longleftrightarrow> dhas (pw_timers ?p) j \<and> \<not> list_ex poll_active rs)"
      if rs: "get_jobs j None (m_store w1) = Inr rs" for rs
    proof (cases "dget (pw_idle p) j")
      case None
      then show ?thesis
        using rs by (auto simp: maybe_auto_stop_def stop_polling_def Let_def dget_or_def dhas_def)
    next
      case (Some n)
      with idle [OF Some] rs show ?thesis
        by (auto simp: maybe_auto_stop_def stop_polling_def Let_def dget_or_def dhas_def)
    qed
    with others Inr eq show ?thesis by (intro exI conjI) auto
  qed
qed


theorem poll_keeps_timer_exactly_while_needed_witness:
  "let (evs, p, w) = start_polling demo_status_command demo_poll_config 9 False ''js'' 2 (new_poll_worker, demo_mworld)
   in pw_timers p = [(''js'', 2000)] \<and>
      (\<exists>p' w'. poll demo_status_command demo_poll_config 9 False ''js'' (p, w\<lparr>m_store := empty_store\<rparr>) = ([], p', w') \<and>
         \<not> dhas (pw_timers p') ''js'')"
proof -
  let ?s = "start_polling demo_status_command demo_poll_config 9 False ''js'' 2 (new_poll_worker, demo_mworld)"
  have "timer_ms 2 = 2000" by (simp add: timer_ms_def MAX_TIMER_MS_def py_int_of_real_def)
  then have s: "?s = poll demo_status_command demo_poll_config 9 False ''js''
      (new_poll_worker\<lparr>pw_timers := [(''js'', 2000)]\<rparr>, demo_mworld)"
    by (simp add: start_polling_def stop_polling_def new_poll_worker_def)
  have t: "pw_timers (fst (snd ?s)) = [(''js'', 2000)]" unfolding s by code_simp
  obtain evs p w where e: "?s = (evs, p, w)" by (cases ?s)
  have "worker_reach p w" by (rule worker_start [OF worker_new e])
  let ?q = "query demo_status_command demo_poll_config 9 ''js'' False (w\<lparr>m_store := empty_store\<rparr>)"
  obtain r w1 where q: "?q = (r, w1)" by (cases ?q)
  have "r = Inl (JobSetNotFoundError ''js'')"
    using q by (auto simp: query_def query_serialized_def get_jobset_def empty_store_def split_beta)
  with poll_keeps_timer_exactly_while_needed [OF \<open>worker_reach p w\<close> q] t e show ?thesis by auto
qed

end
