(* ===== verification/Killer.thy ===== *)
theory Killer
  imports Monitor "HOL-Library.List_Lexorder"
begin

text \<open>
  The killer (\<open>src/lsfmgr/killer.py\<close>): the ledger of kills under way, and the kill task with
  its steps: quiesce, resolve the targets, bkill with retries, verify, mark, report.
\<close>

section \<open>State\<close>

record kill_activity =
  ka_job_ids :: "int set"
  ka_done :: int
  ka_total :: int

text \<open>A task's reference to its activity: the identity, and the ids, which never change.\<close>

type_synonym kill_slot = "nat \<times> int set"

text \<open>The kill scope of a task, as the task uses it: its \<open>acquire\<close> and its \<open>release\<close>.\<close>

record 'w kill_barrier =
  kb_acquire :: "'w mworld \<Rightarrow> bool \<times> 'w mworld"
  kb_release :: "'w mworld \<Rightarrow> 'w mworld"

record 'w kill_task =
  kt_jobset_id :: jobset_id
  kt_job_ids :: "string list option"
  kt_job_keys :: "job_key list option"
  kt_verify :: bool
  kt_scope :: "'w kill_barrier option"
  kt_slot :: "kill_slot option"

record 'w killer =
  kl_active :: "(jobset_id, kill_activity) ledger"
  kl_shutdown :: bool
  kl_pool :: "'w kill_task list"
  kl_next :: nat

datatype kill_event =
    KillProgressed jobset_id int int
  | KillErrored jobset_id py_error
  | KillCompleted jobset_id "kill_slot option" KillReport
  | KillFinished jobset_id KillReport

text \<open>
  What a kill task works on: the store, the querier and the cluster, the killer, its own
  progress throttler, and the signals emitted.
\<close>

record 'w kworld =
  kw_m :: "'w mworld"
  kw_killer :: "'w killer"
  kw_prog :: EmitThrottler
  kw_events :: "kill_event list"

text \<open>
  The command layer, the configuration, the two clocks and the sleep, during which other threads
  run.
\<close>

record 'w kill_env =
  ke_status :: "'w status_command"
  ke_poll :: poll_config
  ke_runner :: "'w mworld runner"
  ke_command :: command_config
  ke_pool_open :: bool
  ke_completed :: "(nat \<times> (py_error + chunk_result)) list \<Rightarrow> (nat \<times> (py_error + chunk_result)) list"
  ke_kill_max_retry :: int
  ke_kill_retry_delay_s :: seconds
  ke_kill_status_policy :: string
  ke_mono :: "'w mworld \<Rightarrow> seconds"
  ke_now :: "'w mworld \<Rightarrow> datetime"
  ke_sleep :: "seconds \<Rightarrow> 'w mworld \<Rightarrow> 'w mworld"

definition on_m :: "('w mworld \<Rightarrow> ('a, 'w mworld) outcome) \<Rightarrow> 'w kworld \<Rightarrow> ('a, 'w kworld) outcome" where
  "on_m f w = (let (r, m) = f (kw_m w) in (r, w\<lparr>kw_m := m\<rparr>))"

definition kill_emit :: "kill_event list \<Rightarrow> 'w kworld \<Rightarrow> 'w kworld" where
  "kill_emit es w = w\<lparr>kw_events := kw_events w @ es\<rparr>"

section \<open>The kills under way\<close>

definition new_killer :: "'w killer" where
  "new_killer = \<lparr> kl_active = [], kl_shutdown = False, kl_pool = [], kl_next = 0 \<rparr>"

definition killer_is_active :: "jobset_id \<Rightarrow> 'w killer \<Rightarrow> bool" where
  "killer_is_active j kl \<longleftrightarrow> ledger_get (kl_active kl) j \<noteq> []"

definition blocks_completion :: "jobset_id \<Rightarrow> JobRecord list \<Rightarrow> 'w killer \<Rightarrow> bool" where
  "blocks_completion j records kl \<longleftrightarrow>
     ledger_get (kl_active kl) j \<noteq> [] \<or>
     list_ex (\<lambda>a. set (List.map_filter jr_job_id records) \<inter> ka_job_ids (snd a) \<noteq> {}) (ledger_get (kl_active kl) [])"

definition kill_snapshot :: "jobset_id \<Rightarrow> 'w killer \<Rightarrow> KillProgress option" where
  "kill_snapshot j kl =
     (let slots = map snd (ledger_get (kl_active kl) j)
      in if slots = [] then None
         else Some \<lparr> kpg_jobset_id = j, kpg_done = sum_list (map ka_done slots), kpg_total = sum_list (map ka_total slots) \<rparr>)"

definition kill_reg :: "jobset_id \<Rightarrow> string list \<Rightarrow> 'w killer \<Rightarrow> kill_slot \<times> 'w killer" where
  "kill_reg j job_ids kl =
     (let ident = kl_next kl; ids = set (List.map_filter target_parent_id job_ids);
          a = \<lparr> ka_job_ids = ids, ka_done = 0, ka_total = 0 \<rparr>
      in ((ident, ids), kl\<lparr>kl_active := ledger_add j (ident, a) (kl_active kl), kl_next := Suc ident\<rparr>))"

definition set_progress_of :: "nat \<Rightarrow> int \<Rightarrow> int \<Rightarrow> kill_activity entry \<Rightarrow> kill_activity entry" where
  "set_progress_of slot d n e = (if fst e = slot then (fst e, (snd e)\<lparr>ka_done := d, ka_total := n\<rparr>) else e)"

definition kill_set_progress :: "kill_slot option \<Rightarrow> int \<Rightarrow> int \<Rightarrow> 'w killer \<Rightarrow> 'w killer" where
  "kill_set_progress slot d n kl =
     (case slot of
        None \<Rightarrow> kl
      | Some sl \<Rightarrow> kl\<lparr>kl_active := map (\<lambda>(j, es). (j, map (set_progress_of (fst sl) d n) es)) (kl_active kl)\<rparr>)"

definition kill_unreg :: "jobset_id \<Rightarrow> kill_slot option \<Rightarrow> 'w killer \<Rightarrow> 'w killer" where
  "kill_unreg j slot kl =
     (case slot of None \<Rightarrow> kl | Some sl \<Rightarrow> kl\<lparr>kl_active := ledger_remove j (fst sl) (kl_active kl)\<rparr>)"

text \<open>\<open>_finish_activity\<close>: the jobsets a kill of raw ids touched, the release, the result.\<close>

definition affected_jobsets :: "jobset_id \<Rightarrow> kill_slot option \<Rightarrow> 'w kworld \<Rightarrow> jobset_id list" where
  "affected_jobsets j slot w =
     (if j \<noteq> [] then [j]
      else (case slot of
              None \<Rightarrow> []
            | Some (_, ids) \<Rightarrow>
                (if ids = {} then []
                 else (case find_jobs (sorted_list_of_set ids) (m_store (kw_m w)) of
                         Inl e \<Rightarrow> []
                       | Inr rs \<Rightarrow> sorted_set (map jr_jobset_id rs)))))"

definition finish_activity :: "jobset_id \<Rightarrow> kill_slot option \<Rightarrow> KillReport \<Rightarrow> 'w kworld \<Rightarrow> 'w kworld" where
  "finish_activity j slot report w =
     kill_emit [KillFinished j (report\<lparr>krp_jobset_ids := affected_jobsets j slot w\<rparr>)]
       (w\<lparr>kw_killer := kill_unreg j slot (kw_killer w)\<rparr>)"

text \<open>The single place that queues a kill.\<close>

definition queue_kill :: "jobset_id \<Rightarrow> string list option \<Rightarrow> job_key list option \<Rightarrow> bool \<Rightarrow> 'w kill_barrier option
    \<Rightarrow> 'w killer \<Rightarrow> bool \<times> 'w killer" where
  "queue_kill j job_ids job_keys verify sc kl =
     (if kl_shutdown kl then (False, kl)
      else
        (let (slot, kl1) = kill_reg j (case job_ids of None \<Rightarrow> [] | Some ids \<Rightarrow> ids) kl
         in (True, kl1\<lparr>kl_pool := kl_pool kl1 @
               [\<lparr> kt_jobset_id = j, kt_job_ids = job_ids, kt_job_keys = job_keys, kt_verify = verify,
                  kt_scope = sc, kt_slot = Some slot \<rparr>]\<rparr>)))"

definition kill_jobset :: "jobset_id \<Rightarrow> bool \<Rightarrow> 'w kill_barrier option \<Rightarrow> 'w killer \<Rightarrow> bool \<times> 'w killer" where
  "kill_jobset j verify sc = queue_kill j None None verify sc"

definition kill_jobs :: "string list option \<Rightarrow> job_key list option \<Rightarrow> bool \<Rightarrow> jobset_id \<Rightarrow> 'w kill_barrier option
    \<Rightarrow> 'w killer \<Rightarrow> bool \<times> 'w killer" where
  "kill_jobs job_ids job_keys verify j sc = queue_kill j job_ids job_keys verify sc"

text \<open>\<open>shutdown\<close> before and after the pool is joined.\<close>

definition killer_shutdown_begin :: "'w killer \<Rightarrow> 'w killer" where
  "killer_shutdown_begin kl = kl\<lparr>kl_shutdown := True\<rparr>"

definition killer_shutdown_end :: "'w killer \<Rightarrow> 'w killer" where
  "killer_shutdown_end kl = kl\<lparr>kl_active := []\<rparr>"


section \<open>The targets of a kill\<close>

text \<open>\<open>rec_target\<close> of a plan: the text of the record's element, or of its parent job.\<close>

datatype target_form = ElementTarget | ParentTarget

definition job_id_text :: "JobRecord \<Rightarrow> string" where
  "job_id_text r = (case jr_job_id r of None \<Rightarrow> ''None'' | Some i \<Rightarrow> show_int i)"

definition id_str :: "JobRecord \<Rightarrow> string" where
  "id_str r = (case jr_array_index r of
     None \<Rightarrow> job_id_text r | Some i \<Rightarrow> job_id_text r @ ''['' @ show_int i @ '']'')"

definition rec_target :: "target_form \<Rightarrow> JobRecord \<Rightarrow> string" where
  "rec_target form r = (case form of ElementTarget \<Rightarrow> id_str r | ParentTarget \<Rightarrow> job_id_text r)"

record kill_plan =
  kp_recs :: "JobRecord list option"
  kp_targets :: "string list"
  kp_requested :: nat
  kp_form :: target_form
  kp_label :: string

definition resolve_keys :: "jobset_id \<Rightarrow> job_key list \<Rightarrow> store \<Rightarrow> py_error + string list" where
  "resolve_keys j keys s =
     (case (if j \<noteq> [] then get_jobs j None s else find_jobs_by_keys keys s) of
        Inl e \<Rightarrow> Inl e
      | Inr pool \<Rightarrow> Inr (map id_str (filter (\<lambda>r. jr_job_key r \<in> set keys \<and> jr_job_id r \<noteq> None) pool)))"

definition record_pool :: "jobset_id \<Rightarrow> string list option \<Rightarrow> store \<Rightarrow> py_error + JobRecord list" where
  "record_pool j job_ids s =
     (if j \<noteq> [] then get_jobs j None s
      else find_jobs (remdups (List.map_filter target_parent_id (case job_ids of None \<Rightarrow> [] | Some ids \<Rightarrow> ids))) s)"

definition make_plan :: "jobset_id \<Rightarrow> string list option \<Rightarrow> store \<Rightarrow> py_error + kill_plan" where
  "make_plan j job_ids s =
     (case job_ids of
        Some ids \<Rightarrow>
          Inr \<lparr> kp_recs = None, kp_targets = ids, kp_requested = length ids, kp_form = ElementTarget, kp_label = ''chunk'' \<rparr>
      | None \<Rightarrow>
          ebind (get_jobset j s) (\<lambda>_. ebind (get_jobs j None s) (\<lambda>jobs.
            (let recs = filter (\<lambda>r. is_on_lsf (jr_state r)) jobs
             in Inr \<lparr> kp_recs = Some recs,
                      kp_targets = sorted_set (map job_id_text (filter (\<lambda>r. jr_job_id r \<noteq> None) recs)),
                      kp_requested = length recs, kp_form = ParentTarget, kp_label = ''chunk'' \<rparr>))))"

text \<open>The target predicate on a record or a status row.\<close>

definition target_hit :: "targets \<Rightarrow> int option \<Rightarrow> int option \<Rightarrow> bool" where
  "target_hit tg job_id idx =
     (case tg of (whole, exact, ranges) \<Rightarrow>
        (case job_id of
           None \<Rightarrow> False
         | Some p \<Rightarrow>
             p \<in> whole \<or>
             (case idx of
                None \<Rightarrow> False
              | Some i \<Rightarrow> (p, i) \<in> exact \<or> list_ex (\<lambda>(q, lo, hi). q = p \<and> lo \<le> i \<and> i \<le> hi) ranges)))"

definition matching_rows :: "targets \<Rightarrow> JobStatus list \<Rightarrow> JobStatus list" where
  "matching_rows tg = filter (\<lambda>st. target_hit tg (Some (st_job_id st)) (st_array_index st))"

definition matching_recs :: "targets \<Rightarrow> JobRecord list \<Rightarrow> JobRecord list" where
  "matching_recs tg = filter (\<lambda>r. target_hit tg (jr_job_id r) (jr_array_index r))"

definition alive_rows :: "targets \<Rightarrow> JobStatus list \<Rightarrow> JobStatus list" where
  "alive_rows tg sts = filter (\<lambda>st. is_on_lsf (st_state st)) (matching_rows tg sts)"

definition alive_recs :: "targets \<Rightarrow> JobRecord list \<Rightarrow> JobRecord list" where
  "alive_recs tg rs = filter (\<lambda>r. is_on_lsf (jr_state r)) (matching_recs tg rs)"

section \<open>bkill with retries\<close>

definition emit_kill_progress :: "'w kill_env \<Rightarrow> 'w kill_task \<Rightarrow> int \<Rightarrow> int \<Rightarrow> 'w kworld \<Rightarrow> 'w kworld" where
  "emit_kill_progress env task d n w =
     (let w1 = w\<lparr>kw_killer := kill_set_progress (kt_slot task) d n (kw_killer w)\<rparr>
      in if n \<le> 0 then w1
         else
           (let (go, th) = should_emit (ke_mono env (kw_m w1)) d n (kw_prog w1);
                w2 = w1\<lparr>kw_prog := th\<rparr>
            in if go then kill_emit [KillProgressed (kt_jobset_id task) d n] w2 else w2))"

text \<open>What the rows of one query say of one target: \<open>Some b\<close> is gone, \<open>b\<close>: by this kill.\<close>

definition target_fate :: "JobStatus list \<Rightarrow> int list \<Rightarrow> string \<Rightarrow> bool option" where
  "target_fate sts failed t =
     (case target_parent_id t of
        None \<Rightarrow> None
      | Some pid \<Rightarrow>
          (if pid \<in> set failed then None
           else
             (let mine = filter (\<lambda>st. st_job_id st = pid) sts; tg = classify_targets [t]
              in if mine = [] then Some True
                 else (case tg of (whole, exact, ranges) \<Rightarrow>
                   (if (exact \<noteq> {} \<or> ranges \<noteq> []) \<and> list_ex (\<lambda>st. st_array_index st = None) mine then None
                    else
                      (let hit = matching_rows tg mine
                       in if list_ex (\<lambda>st. is_on_lsf (st_state st)) hit then None
                          else Some (hit = [] \<or> list_ex (\<lambda>st. st_state st \<noteq> DONE) hit)))))))"

definition confirm_by_query :: "'w kill_env \<Rightarrow> jobset_id \<Rightarrow> string list \<Rightarrow> 'w kworld
    \<Rightarrow> (string list \<times> string list \<times> nat) \<times> 'w kworld" where
  "confirm_by_query env j ts w =
     (let pids = sorted_set (List.map_filter target_parent_id ts)
      in if pids = [] then (([], [], 0), w)
         else
           (case on_m (query_ids (ke_status env) True pids j None) w of
              (Inl e, w1) \<Rightarrow> (([], [], 1), w1)
            | (Inr (sts, failed), w1) \<Rightarrow>
                ((filter (\<lambda>t. target_fate sts failed t \<noteq> None) ts,
                  filter (\<lambda>t. target_fate sts failed t = Some True) ts, 1), w1)))"

record confirm_result =
  cr_calls :: nat
  cr_pending :: "string list"
  cr_attempts :: nat
  cr_accepted :: "string set"
  cr_resolved :: "string set"

text \<open>One round: bkill of the targets pending, then the query for those it timed out on.\<close>

definition kill_round :: "'w kill_env \<Rightarrow> 'w kill_task \<Rightarrow> int \<Rightarrow> confirm_result \<Rightarrow> 'w kworld
    \<Rightarrow> (confirm_result, 'w kworld) outcome" where
  "kill_round env task n c w =
     (case on_m (bkill_targets_confirm (ke_runner env) (ke_command env) (ke_pool_open env) (ke_completed env) (cr_pending c)) w of
        (Inl e, w1) \<Rightarrow> (Inl e, w1)
      | (Inr ((res, acc, late), calls, progress), w1) \<Rightarrow>
          (let base = n - int (length (cr_pending c));
               w2 = fold (\<lambda>d. emit_kill_progress env task (base + int d) n) progress w1;
               c1 = c\<lparr>cr_calls := cr_calls c + calls, cr_resolved := cr_resolved c \<union> res, cr_accepted := cr_accepted c \<union> acc,
                      cr_pending := filter (\<lambda>t. t \<notin> res) (cr_pending c)\<rparr>;
               unknown = filter (\<lambda>t. t \<in> late) (cr_pending c1)
           in if unknown = [] then (Inr c1, w2)
              else
                (let ((gone, by_kill, q), w3) = confirm_by_query env (kt_jobset_id task) unknown w2
                 in (Inr (c1\<lparr>cr_calls := cr_calls c1 + q, cr_resolved := cr_resolved c1 \<union> set gone,
                             cr_accepted := cr_accepted c1 \<union> set by_kill,
                             cr_pending := filter (\<lambda>t. t \<notin> set gone) (cr_pending c1)\<rparr>), w3))))"

function kill_rounds :: "'w kill_env \<Rightarrow> 'w kill_task \<Rightarrow> int \<Rightarrow> confirm_result \<Rightarrow> 'w kworld
    \<Rightarrow> (confirm_result, 'w kworld) outcome" where
  "kill_rounds env task n c w =
     (case kill_round env task n c w of
        (Inl e, w1) \<Rightarrow> (Inl e, w1)
      | (Inr c1, w1) \<Rightarrow>
          (if cr_pending c1 = [] \<or> int (cr_attempts c) \<ge> ke_kill_max_retry env then (Inr c1, w1)
           else kill_rounds env task n (c1\<lparr>cr_attempts := Suc (cr_attempts c)\<rparr>)
                  (w1\<lparr>kw_m := ke_sleep env (ke_kill_retry_delay_s env) (kw_m w1)\<rparr>)))"
  by pat_completeness auto
termination
  by (relation "measure (\<lambda>(env, task, n, c, w). nat (ke_kill_max_retry env - int (cr_attempts c)))") auto

declare kill_rounds.simps [simp del]

definition kill_confirm :: "'w kill_env \<Rightarrow> 'w kill_task \<Rightarrow> string list \<Rightarrow> 'w kworld
    \<Rightarrow> (confirm_result \<times> kill_error_msg list, 'w kworld) outcome" where
  "kill_confirm env task ts w =
     (case kill_rounds env task (int (length ts))
             \<lparr> cr_calls = 0, cr_pending = sorted_set ts, cr_attempts = 0, cr_accepted = {}, cr_resolved = {} \<rparr> w of
        (Inl e, w1) \<Rightarrow> (Inl e, w1)
      | (Inr c, w1) \<Rightarrow>
          (Inr (c\<lparr>cr_accepted := cr_accepted c \<inter> cr_resolved c\<rparr>,
                if cr_pending c = [] then [] else [KillUnconfirmed (length (cr_pending c)) (cr_attempts c)]), w1))"


section \<open>Verifying\<close>

text \<open>What verifying tells: the survivors (\<open>None\<close>: not verified), their keys, and what it wrote.\<close>

type_synonym verdict = "nat option \<times> (jobset_id \<times> job_key) set \<times> JobRecord list"

definition target_parents :: "targets \<Rightarrow> int list" where
  "target_parents tg = (case tg of (whole, exact, ranges) \<Rightarrow>
     sorted_list_of_set (whole \<union> fst ` exact \<union> set (map fst ranges)))"

definition verify_direct :: "'w kill_env \<Rightarrow> targets \<Rightarrow> 'w kworld \<Rightarrow> (JobStatus list option, 'w kworld) outcome" where
  "verify_direct env tg w =
     (let pids = target_parents tg
      in if pids = [] then (Inr (Some []), w)
         else
           (case on_m (query_ids (ke_status env) True pids [] None) w of
              (Inl e, w1) \<Rightarrow> if is_LsfmgrError e then (Inr None, w1) else (Inl e, w1)
            | (Inr (sts, failed), w1) \<Rightarrow> (Inr (if failed \<noteq> [] then None else Some sts), w1)))"

definition verify_in_jobset :: "'w kill_env \<Rightarrow> jobset_id \<Rightarrow> targets \<Rightarrow> 'w kworld \<Rightarrow> (verdict, 'w kworld) outcome" where
  "verify_in_jobset env j tg w =
     (case on_m (query (ke_status env) (ke_poll env) (ke_now env (kw_m w)) j True) w of
        (Inl e, w1) \<Rightarrow> if is_LsfmgrError e then (Inr (None, {}, []), w1) else (Inl e, w1)
      | (Inr qr, w1) \<Rightarrow>
          (case get_jobs j None (m_store (kw_m w1)) of
             Inl e \<Rightarrow> (Inl e, w1)
           | Inr jobs \<Rightarrow>
               (let alive = alive_recs tg jobs;
                    known = filter (\<lambda>r. jr_job_id r \<notin> Some ` qr_query_failed qr) alive
                in (Inr (if length known = length alive then Some (length known) else None,
                         set (map (\<lambda>r. (jr_jobset_id r, jr_job_key r)) known), qr_changed qr), w1))))"

definition verify_global :: "'w kill_env \<Rightarrow> 'w kill_task \<Rightarrow> string list option \<Rightarrow> targets \<Rightarrow> 'w kworld
    \<Rightarrow> (verdict, 'w kworld) outcome" where
  "verify_global env task job_ids tg w =
     obind (verify_direct env tg w) (\<lambda>pool w1.
       (case pool of
          None \<Rightarrow> (Inr (None, {}, []), w1)
        | Some sts \<Rightarrow>
            (let alive = alive_rows tg sts
             in if alive = [] then (Inr (Some 0, {}, []), w1)
                else
                  (let pairs = map (\<lambda>st. (st_job_id st, st_array_index st)) alive;
                       recs = (case record_pool (kt_jobset_id task) job_ids (m_store (kw_m w1)) of
                          Inl e \<Rightarrow> []
                        | Inr rs \<Rightarrow> filter (\<lambda>r. case jr_job_id r of
                              None \<Rightarrow> False
                            | Some i \<Rightarrow> (if jr_array_index r = None then i \<in> set (map fst pairs)
                                         else (i, jr_array_index r) \<in> set pairs)) rs)
                   in if recs = [] then (Inr (Some (length alive), {}, []), w1)
                      else (Inr (Some (length recs), set (map (\<lambda>r. (jr_jobset_id r, jr_job_key r)) recs), []), w1)))))"

definition verify_kill :: "'w kill_env \<Rightarrow> 'w kill_task \<Rightarrow> string list option \<Rightarrow> string list \<Rightarrow> 'w kworld
    \<Rightarrow> (verdict, 'w kworld) outcome" where
  "verify_kill env task job_ids ts w =
     (if ts = [] then (Inr (Some 0, {}, []), w)
      else if kt_jobset_id task \<noteq> [] then verify_in_jobset env (kt_jobset_id task) (classify_targets ts) w
      else verify_global env task job_ids (classify_targets ts) w)"

fun refresh_jobsets :: "'w kill_env \<Rightarrow> jobset_id list \<Rightarrow> 'w kworld \<Rightarrow> (JobRecord list, 'w kworld) outcome" where
  "refresh_jobsets env [] w = (Inr [], w)"
| "refresh_jobsets env (j # js) w =
     (case on_m (query (ke_status env) (ke_poll env) (ke_now env (kw_m w)) j True) w of
        (Inl e, w1) \<Rightarrow> if is_LsfmgrError e then refresh_jobsets env js w1 else (Inl e, w1)
      | (Inr qr, w1) \<Rightarrow> obind (refresh_jobsets env js w1) (\<lambda>out w2. (Inr (qr_changed qr @ out), w2)))"

definition refresh_tracked :: "'w kill_env \<Rightarrow> 'w kill_task \<Rightarrow> string list option \<Rightarrow> 'w kworld
    \<Rightarrow> (JobRecord list, 'w kworld) outcome" where
  "refresh_tracked env task job_ids w =
     (case record_pool (kt_jobset_id task) job_ids (m_store (kw_m w)) of
        Inl e \<Rightarrow> (Inr [], w)
      | Inr rs \<Rightarrow> refresh_jobsets env (sorted_set (map jr_jobset_id rs)) w)"

section \<open>Marking\<close>

definition same_job :: "JobRecord \<Rightarrow> JobRecord \<Rightarrow> bool" where
  "same_job r cur \<longleftrightarrow> same_execution cur r \<and> jr_job_id cur = jr_job_id r \<and> jr_array_index cur = jr_array_index r"

definition mark_one :: "datetime \<Rightarrow> bool \<Rightarrow> JobRecord \<Rightarrow> store \<Rightarrow> (JobRecord option, store) outcome" where
  "mark_one now optimistic r s =
     obind (if optimistic
            then transition now (jr_jobset_id r) (jr_job_key r) (Some EXIT)
                   (Some (\<lambda>cur. same_job r cur \<and> is_on_lsf (jr_state cur))) [FFailReason (Some ''KILLED''), FKilled True] s
            else (Inr None, s))
       (\<lambda>new s1. case new of
          Some x \<Rightarrow> (Inr (Some x), s1)
        | None \<Rightarrow> transition now (jr_jobset_id r) (jr_job_key r) None (Some (same_job r)) [FKilled True] s1)"

fun mark_all :: "datetime \<Rightarrow> bool \<Rightarrow> JobRecord list \<Rightarrow> store \<Rightarrow> (JobRecord list, store) outcome" where
  "mark_all now optimistic [] s = (Inr [], s)"
| "mark_all now optimistic (r # rs) s =
     (case mark_one now optimistic r s of
        (Inl e, s1) \<Rightarrow> if RECORD_GONE e then mark_all now optimistic rs s1 else (Inl e, s1)
      | (Inr new, s1) \<Rightarrow>
          obind (mark_all now optimistic rs s1) (\<lambda>out s2.
            (Inr (case new of
                    None \<Rightarrow> out
                  | Some x \<Rightarrow> if optimistic \<or> is_terminal (jr_state x) then x # out else out), s2)))"

definition killed_recs :: "target_form \<Rightarrow> string set \<Rightarrow> (jobset_id \<times> job_key) set \<Rightarrow> JobRecord list \<Rightarrow> JobRecord list" where
  "killed_recs form accepted alive_keys recs =
     filter (\<lambda>r. jr_job_id r \<noteq> None \<and> rec_target form r \<in> accepted \<and> (jr_jobset_id r, jr_job_key r) \<notin> alive_keys) recs"

definition mark_killed :: "'w kill_env \<Rightarrow> 'w kill_task \<Rightarrow> string list option \<Rightarrow> kill_plan \<Rightarrow> string set
    \<Rightarrow> (jobset_id \<times> job_key) set \<Rightarrow> 'w kworld \<Rightarrow> (JobRecord list, 'w kworld) outcome" where
  "mark_killed env task job_ids plan accepted alive_keys w =
     (if accepted = {} then (Inr [], w)
      else
        (case (case kp_recs plan of Some rs \<Rightarrow> Inr rs | None \<Rightarrow> record_pool (kt_jobset_id task) job_ids (m_store (kw_m w))) of
           Inl e \<Rightarrow> (Inr [], w)
         | Inr recs \<Rightarrow>
             on_m (\<lambda>m. let (r, s) = mark_all (ke_now env m) (ke_kill_status_policy env = ''optimistic'')
                             (killed_recs (kp_form plan) accepted alive_keys recs) (m_store m)
                       in (r, m\<lparr>m_store := s\<rparr>)) w))"

section \<open>The task\<close>

definition quiesce :: "'w kill_task \<Rightarrow> 'w kworld \<Rightarrow> kill_error_msg list \<times> 'w kworld" where
  "quiesce task w =
     (case kt_scope task of
        None \<Rightarrow> ([], w)
      | Some b \<Rightarrow> (let (quiesced, m) = kb_acquire b (kw_m w) in (if quiesced then [] else [QuiesceTimeout], w\<lparr>kw_m := m\<rparr>)))"

definition no_confirm :: confirm_result where
  "no_confirm = \<lparr> cr_calls = 0, cr_pending = [], cr_attempts = 0, cr_accepted = {}, cr_resolved = {} \<rparr>"

definition merge_changed :: "JobRecord list \<Rightarrow> JobRecord list" where
  "merge_changed rs = dvalues (fold (\<lambda>r. dset (jr_jobset_id r, jr_job_key r) r) rs [])"

text \<open>The survivors, if asked for, or needed because a target ended without this kill.\<close>

definition survivors :: "'w kill_env \<Rightarrow> 'w kill_task \<Rightarrow> string list option \<Rightarrow> string list \<Rightarrow> confirm_result
    \<Rightarrow> 'w kworld \<Rightarrow> (verdict, 'w kworld) outcome" where
  "survivors env task job_ids ts c w =
     (if kt_verify task \<or> \<not> cr_resolved c \<subseteq> cr_accepted c
      then obind (verify_kill env task job_ids ts w) (\<lambda>(still, alive_keys, changed) w1.
             if \<not> cr_resolved c \<subseteq> cr_accepted c \<and> kt_jobset_id task = []
             then obind (refresh_tracked env task job_ids w1) (\<lambda>more w2. (Inr (still, alive_keys, changed @ more), w2))
             else (Inr (still, alive_keys, changed), w1))
      else (Inr (None, {}, []), w))"

text \<open>The steps after the targets are resolved.\<close>

definition kill_plan_run :: "'w kill_env \<Rightarrow> 'w kill_task \<Rightarrow> string list option \<Rightarrow> kill_error_msg list \<Rightarrow> kill_plan
    \<Rightarrow> 'w kworld \<Rightarrow> (KillReport, 'w kworld) outcome" where
  "kill_plan_run env task job_ids errors plan w =
     obind (if kp_targets plan = [] then (Inr (no_confirm, []), w) else kill_confirm env task (kp_targets plan) w) (\<lambda>(c, errs) w1.
     obind (survivors env task job_ids (kp_targets plan) c w1) (\<lambda>(still, alive_keys, changed) w2.
     obind (mark_killed env task job_ids plan (cr_accepted c) alive_keys w2) (\<lambda>marked w3.
       (Inr \<lparr> krp_jobset_id = kt_jobset_id task, krp_requested = kp_requested plan,
              krp_strategies = (if kp_targets plan = [] then [] else [kp_label plan]),
              krp_command_calls = cr_calls c, krp_still_alive = still, krp_unconfirmed = length (cr_pending c),
              krp_kill_retries = cr_attempts c, krp_changed = merge_changed (changed @ marked),
              krp_errors = errors @ errs, krp_jobset_ids = [] \<rparr>, w3))))"

definition run_kill :: "'w kill_env \<Rightarrow> 'w kill_task \<Rightarrow> 'w kworld \<Rightarrow> (KillReport, 'w kworld) outcome" where
  "run_kill env task w =
     (let (errors, w1) = quiesce task w; s = m_store (kw_m w1)
      in (case (case kt_job_keys task of
                  None \<Rightarrow> Inr (kt_job_ids task)
                | Some keys \<Rightarrow> map_sum id Some (resolve_keys (kt_jobset_id task) keys s)) of
            Inl e \<Rightarrow> (Inl e, w1)
          | Inr job_ids \<Rightarrow>
              (case make_plan (kt_jobset_id task) job_ids s of
                 Inl e \<Rightarrow> (Inl e, w1)
               | Inr plan \<Rightarrow> kill_plan_run env task job_ids errors plan w1)))"

text \<open>\<open>_run\<close> with its \<open>finally\<close>, and \<open>run\<close>, which reports whatever happens.\<close>

definition run_and_release :: "'w kill_env \<Rightarrow> 'w kill_task \<Rightarrow> 'w kworld \<Rightarrow> (KillReport, 'w kworld) outcome" where
  "run_and_release env task w =
     (let (r, w1) = run_kill env task w
      in (r, case kt_scope task of None \<Rightarrow> w1 | Some b \<Rightarrow> w1\<lparr>kw_m := kb_release b (kw_m w1)\<rparr>))"

definition internal_report :: "jobset_id \<Rightarrow> KillReport" where
  "internal_report j =
     \<lparr> krp_jobset_id = j, krp_requested = 0, krp_strategies = [], krp_command_calls = 0, krp_still_alive = None,
       krp_unconfirmed = 0, krp_kill_retries = 0, krp_changed = [], krp_errors = [InternalError], krp_jobset_ids = [] \<rparr>"

definition run_task :: "'w kill_env \<Rightarrow> 'w kill_task \<Rightarrow> 'w kworld \<Rightarrow> 'w kworld" where
  "run_task env task w =
     (let j = kt_jobset_id task
      in (case run_and_release env task w of
            (Inl e, w1) \<Rightarrow> kill_emit [KillErrored j e, KillCompleted j (kt_slot task) (internal_report j)] w1
          | (Inr report, w1) \<Rightarrow>
              (let n = int (krp_requested report)
               in kill_emit [KillProgressed j n n, KillCompleted j (kt_slot task) report]
                    (w1\<lparr>kw_killer := kill_set_progress (kt_slot task) n n (kw_killer w1)\<rparr>))))"

end
