(* ===== verification/KillLaws.thy ===== *)
theory KillLaws
  imports Killer
begin

text \<open>
  What the killer guarantees: which records a kill may mark, when it stops asking for a target,
  and that every kill that starts reports its end once.
\<close>

section \<open>Marking\<close>

text \<open>What marking may make of a record, for the kill of the records \<open>rs\<close>.\<close>

definition marked_by :: "bool \<Rightarrow> JobRecord list \<Rightarrow> JobRecord \<Rightarrow> JobRecord \<Rightarrow> bool" where
  "marked_by optimistic rs old new \<longleftrightarrow>
     (\<exists>r\<in>set rs. same_job r old) \<and> same_execution new old \<and> jr_killed new \<and>
     jr_job_id new = jr_job_id old \<and> jr_array_index new = jr_array_index old \<and> jr_exit_code new = jr_exit_code old \<and>
     (jr_state new = jr_state old \<and> jr_fail_reason new = jr_fail_reason old \<or>
      optimistic \<and> is_on_lsf (jr_state old) \<and> jr_state new = EXIT \<and> jr_fail_reason new = Some ''KILLED'')"

definition marks_only :: "bool \<Rightarrow> JobRecord list \<Rightarrow> store \<Rightarrow> store \<Rightarrow> bool" where
  "marks_only optimistic rs s s' \<longleftrightarrow>
     (\<forall>j k. get_job j k s' = get_job j k s \<or>
        (\<exists>old new. get_job j k s = Inr old \<and> get_job j k s' = Inr new \<and> marked_by optimistic rs old new))"

lemma marks_only_refl [simp]: "marks_only opt rs s s"
  by (simp add: marks_only_def)

lemma marked_by_trans:
  assumes "marked_by opt rs a b" and "marked_by opt rs' b c"
  shows "marked_by opt (rs @ rs') a c"
  using assms by (auto simp: marked_by_def same_execution_def same_job_def is_on_lsf_def ON_LSF_def)

lemma marked_by_mono: "marked_by opt rs a b \<Longrightarrow> set rs \<subseteq> set rs' \<Longrightarrow> marked_by opt rs' a b"
  by (auto simp: marked_by_def)

lemma marks_only_mono: "marks_only opt rs s s' \<Longrightarrow> set rs \<subseteq> set rs' \<Longrightarrow> marks_only opt rs' s s'"
  unfolding marks_only_def using marked_by_mono by blast

lemma marks_only_trans:
  assumes "marks_only opt rs s s1" and "marks_only opt rs' s1 s2"
  shows "marks_only opt (rs @ rs') s s2"
  unfolding marks_only_def
proof (intro allI)
  fix j k
  consider "get_job j k s1 = get_job j k s" "get_job j k s2 = get_job j k s1"
    | b c where "get_job j k s1 = get_job j k s" "get_job j k s1 = Inr b" "get_job j k s2 = Inr c" "marked_by opt rs' b c"
    | a b where "get_job j k s = Inr a" "get_job j k s1 = Inr b" "marked_by opt rs a b" "get_job j k s2 = get_job j k s1"
    | a b c where "get_job j k s = Inr a" "get_job j k s1 = Inr b" "marked_by opt rs a b" "get_job j k s2 = Inr c" "marked_by opt rs' b c"
    using assms unfolding marks_only_def by (metis sum.inject(2))
  then show "get_job j k s2 = get_job j k s \<or>
      (\<exists>old new. get_job j k s = Inr old \<and> get_job j k s2 = Inr new \<and> marked_by opt (rs @ rs') old new)"
  proof cases
    case 2
    then have "get_job j k s = Inr b" by simp
    with 2(3) marked_by_mono [OF 2(4), of "rs @ rs'"] show ?thesis by auto
  next
    case 4
    from marked_by_trans [OF 4(3,5)] 4 show ?thesis by blast
  qed (auto intro: marked_by_mono)
qed

text \<open>One guarded write.\<close>

lemma marking_transition:
  assumes inv: "store_inv s" and run: "transition now j k st (Some g) fs s = (res, s')" and fs: "\<not> reject_key_fields fs"
    and ok: "\<And>old. g old \<Longrightarrow> marked_by opt rs old (transitioned old now st fs)"
  shows "store_inv s' \<and> marks_only opt rs s s'"
proof (cases "get_job j k s")
  case (Inl e)
  from mem.tr_missing [OF inv fs Inl, of now st "Some g"] run inv show ?thesis by simp
next
  case (Inr old)
  show ?thesis
  proof (cases "g old")
    case False
    then have "\<not> guard_ok (Some g) old" by (simp add: guard_ok_def)
    from mem.tr_refused [OF inv fs Inr this, of now st] run inv show ?thesis by simp
  next
    case True
    then have "guard_ok (Some g) old" by (simp add: guard_ok_def)
    from mem.tr_done [OF inv fs Inr this, of now st] run have "store_inv s'"
      "\<forall>j' k'. get_job j' k' s' = (if j' = j \<and> k' = k then Inr (transitioned old now st fs) else get_job j' k' s)" by auto
    with ok [OF True] Inr show ?thesis by (auto simp: marks_only_def)
  qed
qed

lemma mark_one_only:
  assumes inv: "store_inv s" and run: "mark_one now opt r s = (res, s')"
  shows "store_inv s' \<and> marks_only opt [r] s s'"
proof -
  let ?fs1 = "[FFailReason (Some ''KILLED''), FKilled True]" and ?fs2 = "[FKilled True]"
  have fs: "\<not> reject_key_fields ?fs1" "\<not> reject_key_fields ?fs2" by (simp_all add: reject_key_fields_def)
  have ok1: "marked_by opt [r] old (transitioned old now (Some EXIT) ?fs1)" if "same_job r old \<and> is_on_lsf (jr_state old)" "opt" for old
    using that by (simp add: marked_by_def transitioned_def replaced_def apply_fields_def same_execution_def)
  have ok2: "marked_by opt [r] old (transitioned old now None ?fs2)" if "same_job r old" for old
    using that by (simp add: marked_by_def transitioned_def replaced_def apply_fields_def same_execution_def)
  let ?tr1 = "transition now (jr_jobset_id r) (jr_job_key r) (Some EXIT) (Some (\<lambda>cur. same_job r cur \<and> is_on_lsf (jr_state cur))) ?fs1 s"
  obtain r1 s1 where one: "(if opt then ?tr1 else (Inr None, s)) = (r1, s1)" by (cases "if opt then ?tr1 else (Inr None, s)")
  have s1: "store_inv s1 \<and> marks_only opt [r] s s1"
  proof (cases opt)
    case True
    then show ?thesis using marking_transition [OF inv _ fs(1) ok1] one by simp
  qed (use one inv in simp)
  show ?thesis
  proof (cases "r1 = Inr None")
    case True
    with run one have "transition now (jr_jobset_id r) (jr_job_key r) None (Some (same_job r)) ?fs2 s1 = (res, s')"
      by (simp add: mark_one_def)
    from marking_transition [OF conjunct1 [OF s1] this fs(2) ok2]
    have "store_inv s' \<and> marks_only opt [r] s1 s'" .
    with marks_only_trans [OF conjunct2 [OF s1]] have "store_inv s' \<and> marks_only opt ([r] @ [r]) s s'" by blast
    then show ?thesis using marks_only_mono [of opt "[r] @ [r]" s s' "[r]"] by simp
  next
    case False
    with run one s1 show ?thesis by (auto simp: mark_one_def obind_def split: sum.splits option.splits)
  qed
qed

lemma mark_all_only:
  assumes "store_inv s" and "mark_all now opt rs s = (res, s')"
  shows "store_inv s' \<and> marks_only opt rs s s'"
  using assms
proof (induction rs arbitrary: s res s')
  case (Cons r rs)
  obtain r1 s1 where one: "mark_one now opt r s = (r1, s1)" by (cases "mark_one now opt r s")
  note s1 = mark_one_only [OF Cons.prems(1) one]
  obtain r2 s2 where rest: "mark_all now opt rs s1 = (r2, s2)" by (cases "mark_all now opt rs s1")
  note s2 = Cons.IH [OF conjunct1 [OF s1] rest]
  have "s' = s1 \<or> s' = s2"
    using Cons.prems(2) one rest by (auto simp: obind_def split: sum.splits if_splits)
  moreover have "marks_only opt (r # rs) s s2" using marks_only_trans [OF conjunct2 [OF s1] conjunct2 [OF s2]] by simp
  moreover have "marks_only opt (r # rs) s s1"
    using s1 marks_only_mono [of opt "[r]" s s1 "r # rs"] by simp
  ultimately show ?case using s1 s2 by blast
qed simp


lemma mark_killed_only:
  assumes inv: "store_inv (m_store (kw_m w))" and run: "mark_killed env task job_ids plan accepted alive_keys w = (res, w')"
  shows "m_store (kw_m w') = m_store (kw_m w) \<or> (\<exists>recs. (\<forall>rs. kp_recs plan = Some rs \<longrightarrow> recs = rs) \<and>
    marks_only (ke_kill_status_policy env = ''optimistic'') (killed_recs (kp_form plan) accepted alive_keys recs)
      (m_store (kw_m w)) (m_store (kw_m w')))"
proof (cases "accepted = {}")
  case False
  let ?opt = "ke_kill_status_policy env = ''optimistic''" and ?s = "m_store (kw_m w)"
  show ?thesis
  proof (cases "case kp_recs plan of Some rs \<Rightarrow> Inr rs | None \<Rightarrow> record_pool (kt_jobset_id task) job_ids ?s")
    case (Inr recs)
    let ?rs = "killed_recs (kp_form plan) accepted alive_keys recs"
    obtain r s where m: "mark_all (ke_now env (kw_m w)) ?opt ?rs ?s = (r, s)"
      by (cases "mark_all (ke_now env (kw_m w)) ?opt ?rs ?s")
    have "m_store (kw_m w') = s" using run False Inr m by (auto simp: mark_killed_def on_m_def)
    moreover have "\<forall>rs. kp_recs plan = Some rs \<longrightarrow> recs = rs" using Inr by auto
    ultimately show ?thesis using mark_all_only [OF inv m] by blast
  qed (use run False in \<open>auto simp: mark_killed_def\<close>)
qed (use run in \<open>simp add: mark_killed_def\<close>)

text \<open>
  C21: A kill marks only what it ended. Of all records, only those whose target was accepted by
  bkill, that were not seen alive afterwards, and that are still in the execution and the LSF
  job the kill chose can change; they are flagged as killed, keep their job id, element and exit
  code, and become EXIT only under the optimistic policy and only if they were still on LSF. A
  job submitted anew meanwhile, or one that ended by itself, keeps its state.
\<close>

lemma kill_marks_only_accepted:
  assumes reach: "store_reach (m_store (kw_m w))"
    and run: "mark_killed env task job_ids plan accepted alive_keys w = (res, w')"
  shows "get_job j k (m_store (kw_m w')) = get_job j k (m_store (kw_m w)) \<or>
    (\<exists>old new. get_job j k (m_store (kw_m w)) = Inr old \<and> get_job j k (m_store (kw_m w')) = Inr new \<and>
       rec_target (kp_form plan) old \<in> accepted \<and> (j, k) \<notin> alive_keys \<and>
       (\<forall>rs. kp_recs plan = Some rs \<longrightarrow> (\<exists>r\<in>set rs. same_job r old)) \<and>
       same_execution new old \<and> jr_killed new \<and> jr_job_id new = jr_job_id old \<and> jr_exit_code new = jr_exit_code old \<and>
       (jr_state new = jr_state old \<or>
        ke_kill_status_policy env = ''optimistic'' \<and> is_on_lsf (jr_state old) \<and> jr_state new = EXIT))"
proof -
  let ?opt = "ke_kill_status_policy env = ''optimistic''" and ?s = "m_store (kw_m w)" and ?s' = "m_store (kw_m w')"
  note inv = store_reach_inv [OF reach]
  from mark_killed_only [OF inv run] show ?thesis
  proof (elim disjE exE conjE)
    fix recs
    assume recs: "\<forall>rs. kp_recs plan = Some rs \<longrightarrow> recs = rs"
      and m: "marks_only ?opt (killed_recs (kp_form plan) accepted alive_keys recs) ?s ?s'"
    show ?thesis
    proof (cases "get_job j k ?s' = get_job j k ?s")
      case False
      then obtain old new where g: "get_job j k ?s = Inr old" "get_job j k ?s' = Inr new"
        and mk: "marked_by ?opt (killed_recs (kp_form plan) accepted alive_keys recs) old new"
        using m unfolding marks_only_def by blast
      then obtain r where r: "r \<in> set recs" "rec_target (kp_form plan) r \<in> accepted"
        "(jr_jobset_id r, jr_job_key r) \<notin> alive_keys" "same_job r old" by (auto simp: marked_by_def killed_recs_def)
      have "rec_target (kp_form plan) old = rec_target (kp_form plan) r"
      proof -
        have "job_id_text old = job_id_text r" using r(4) by (simp add: same_job_def job_id_text_def)
        then show ?thesis using r(4) by (cases "kp_form plan") (simp_all add: same_job_def rec_target_def id_str_def split: option.split)
      qed
      moreover have "j = jr_jobset_id r \<and> k = jr_job_key r"
        using mem.get_present [OF inv g(1)] r(4) by (simp add: same_job_def same_execution_def)
      ultimately have "rec_target (kp_form plan) old \<in> accepted" "(j, k) \<notin> alive_keys" using r by simp_all
      moreover have "\<forall>rs. kp_recs plan = Some rs \<longrightarrow> (\<exists>r\<in>set rs. same_job r old)" using recs r by auto
      ultimately show ?thesis using g mk unfolding marked_by_def
        by - (rule disjI2, rule exI [of _ old], rule exI [of _ new], simp, blast?)
    qed simp
  qed simp
qed

section \<open>Giving up on a target\<close>

text \<open>The targets still asked for are those not resolved.\<close>

definition confirm_ok :: "string list \<Rightarrow> confirm_result \<Rightarrow> bool" where
  "confirm_ok ts c \<longleftrightarrow> set (cr_pending c) = set ts - cr_resolved c"

lemma quad: "\<exists>a b c d. p = ((a, b, c), d)"
  by (metis surj_pair)

lemma kill_round_ok:
  assumes run: "kill_round env task n c w = (Inr c', w')" and ok: "confirm_ok ts c"
  shows "confirm_ok ts c' \<and> cr_attempts c' = cr_attempts c"
proof -
  obtain out w1 where b: "on_m (bkill_targets_confirm (ke_runner env) (ke_command env) (ke_pool_open env) (ke_completed env)
      (cr_pending c)) w = (out, w1)" by (rule prod.exhaust)
  obtain x where "out = Inr x"
  proof (cases out)
    case (Inl e)
    with run b show ?thesis by (simp add: kill_round_def)
  qed (rule that)
  moreover obtain res acc late calls progress where "x = ((res, acc, late), calls, progress)"
  proof -
    have "x = ((fst (fst x), fst (snd (fst x)), snd (snd (fst x))), fst (snd x), snd (snd x))" by simp
    then show ?thesis by (rule that)
  qed
  ultimately have o: "out = Inr ((res, acc, late), calls, progress)" by simp
  let ?w2 = "fold (\<lambda>d. emit_kill_progress env task (n - int (length (cr_pending c)) + int d) n) progress w1"
  let ?unknown = "filter (\<lambda>t. t \<notin> res \<and> t \<in> late) (cr_pending c)"
  obtain gone by_kill q w3 where g: "confirm_by_query env (kt_jobset_id task) ?unknown ?w2 = ((gone, by_kill, q), w3)"
    using quad [of "confirm_by_query env (kt_jobset_id task) ?unknown ?w2"] by blast
  show ?thesis
  proof (cases "filter (\<lambda>t. t \<notin> res \<and> t \<in> late) (cr_pending c) = []")
    case True
    with run ok show ?thesis by (auto simp: kill_round_def b o Let_def confirm_ok_def)
  next
    case False
    then have "c' = c\<lparr>cr_calls := cr_calls c + calls + q, cr_resolved := cr_resolved c \<union> res \<union> set gone,
        cr_accepted := cr_accepted c \<union> acc \<union> set by_kill, cr_pending := filter (\<lambda>t. t \<notin> res \<and> t \<notin> set gone) (cr_pending c)\<rparr>"
      using run by (simp add: kill_round_def b o Let_def g)
    with ok show ?thesis by (auto simp: confirm_ok_def)
  qed
qed

lemma kill_rounds_ok:
  assumes "kill_rounds env task n c w = (Inr c', w')" and "confirm_ok ts c"
    and "cr_attempts c \<le> nat (ke_kill_max_retry env)"
  shows "confirm_ok ts c' \<and> cr_attempts c' \<le> nat (ke_kill_max_retry env) \<and>
    (cr_pending c' \<noteq> [] \<longrightarrow> ke_kill_max_retry env \<le> int (cr_attempts c'))"
  using assms
proof (induction env task n c w rule: kill_rounds.induct)
  case (1 env task n c w)
  obtain c1 w1 where one: "kill_round env task n c w = (Inr c1, w1)"
    using 1(2) by (subst (asm) kill_rounds.simps) (auto split: prod.splits sum.splits)
  note ok = kill_round_ok [OF one 1(3)]
  show ?case
  proof (cases "cr_pending c1 = [] \<or> int (cr_attempts c) \<ge> ke_kill_max_retry env")
    case True
    with 1(2) one have "c' = c1" by (subst (asm) kill_rounds.simps) simp
    with ok 1(4) True show ?thesis by auto
  next
    case False
    with 1(2) one have "kill_rounds env task n (c1\<lparr>cr_attempts := Suc (cr_attempts c)\<rparr>)
        (w1\<lparr>kw_m := ke_sleep env (ke_kill_retry_delay_s env) (kw_m w1)\<rparr>) = (Inr c', w')"
      by (subst (asm) kill_rounds.simps) simp
    moreover have "Suc (cr_attempts c) \<le> nat (ke_kill_max_retry env)" using False by linarith
    ultimately show ?thesis using 1(1) [OF one [symmetric] refl False] ok by (simp add: confirm_ok_def)
  qed
qed

text \<open>
  C22: The retry loop ends: it makes at most \<open>kill_max_retry\<close> further rounds, and it stops
  earlier only when every target is resolved. At its end a target is either resolved or counted
  as unconfirmed and reported as an error, never both and never neither, and only resolved
  targets count as accepted.
\<close>

lemma kill_confirm_accounts:
  assumes "kill_confirm env task ts w = (Inr (c, errs), w')"
  shows "set (cr_pending c) = set ts - cr_resolved c \<and> cr_accepted c \<subseteq> cr_resolved c \<and>
    (errs = [] \<longleftrightarrow> set ts \<subseteq> cr_resolved c) \<and> cr_attempts c \<le> nat (ke_kill_max_retry env) \<and>
    (set ts \<subseteq> cr_resolved c \<or> ke_kill_max_retry env \<le> int (cr_attempts c))"
proof -
  let ?c0 = "\<lparr> cr_calls = 0, cr_pending = sorted_set ts, cr_attempts = 0, cr_accepted = {}, cr_resolved = {} \<rparr>"
  from assms obtain c1 where r: "kill_rounds env task (int (length ts)) ?c0 w = (Inr c1, w')"
    and c: "c = c1\<lparr>cr_accepted := cr_accepted c1 \<inter> cr_resolved c1\<rparr>"
    and errs: "errs = (if cr_pending c1 = [] then [] else [KillUnconfirmed (length (cr_pending c1)) (cr_attempts c1)])"
    by (auto simp: kill_confirm_def split: prod.splits sum.splits)
  have ok: "confirm_ok ts c1 \<and> cr_attempts c1 \<le> nat (ke_kill_max_retry env) \<and>
      (cr_pending c1 \<noteq> [] \<longrightarrow> ke_kill_max_retry env \<le> int (cr_attempts c1))"
    by (rule kill_rounds_ok [OF r]) (simp_all add: confirm_ok_def)
  have "cr_pending c1 = [] \<longleftrightarrow> set ts \<subseteq> cr_resolved c1"
    using ok unfolding confirm_ok_def by (metis Diff_eq_empty_iff set_empty)
  with ok show ?thesis unfolding c errs confirm_ok_def by auto
qed


section \<open>The activity of a kill\<close>

text \<open>Who is registered: the ledger without the progress of the entries.\<close>

definition registered :: "'w killer \<Rightarrow> (jobset_id \<times> nat list) list" where
  "registered kl = map (\<lambda>(j, es). (j, map fst es)) (kl_active kl)"

text \<open>A step of a task: it signals progress at most, and registers and releases nobody.\<close>

definition only_progress :: "jobset_id \<Rightarrow> 'w kworld \<Rightarrow> 'w kworld \<Rightarrow> bool" where
  "only_progress jj w w' \<longleftrightarrow>
     (\<exists>es. kw_events w' = kw_events w @ es \<and> (\<forall>e\<in>set es. \<exists>d n. e = KillProgressed jj d n)) \<and>
     registered (kw_killer w') = registered (kw_killer w)"

lemma only_progress_refl [simp]: "only_progress jj w w"
  by (simp add: only_progress_def)

lemma only_progress_trans: "only_progress jj w w1 \<Longrightarrow> only_progress jj w1 w2 \<Longrightarrow> only_progress jj w w2"
  unfolding only_progress_def by (metis Un_iff append.assoc set_append)

lemma only_progress_m [simp]: "only_progress jj w (w\<lparr>kw_m := m\<rparr>)"
  by (simp add: only_progress_def)

lemma registered_progress [simp]: "registered (kill_set_progress slot d n kl) = registered kl"
proof -
  have "map fst (map (set_progress_of i d n) es) = map fst es" for i es
    by (induction es) (simp_all add: set_progress_of_def)
  then show ?thesis by (auto simp: registered_def kill_set_progress_def split: option.split)
qed

lemma progress_on_m: "on_m f w = (r, w') \<Longrightarrow> only_progress jj w w'"
  by (auto simp: on_m_def Let_def split: prod.splits)

lemma progress_emit: "only_progress (kt_jobset_id task) w (emit_kill_progress env task d n w)"
  by (auto simp: emit_kill_progress_def Let_def only_progress_def kill_emit_def split: prod.splits)

lemma progress_fold: "only_progress (kt_jobset_id task) w (fold (\<lambda>d. emit_kill_progress env task (f d) n) ds w)"
proof (induction ds arbitrary: w)
  case (Cons d ds)
  from only_progress_trans [OF progress_emit Cons.IH] show ?case by simp
qed simp

lemma progress_confirm_query: "confirm_by_query env j ts w = (r, w') \<Longrightarrow> only_progress jj w w'"
  using progress_on_m by (fastforce simp: confirm_by_query_def Let_def split: if_splits prod.splits sum.splits)

lemma progress_round:
  assumes run: "kill_round env task n c w = (r, w')"
  shows "only_progress (kt_jobset_id task) w w'"
proof -
  obtain out w1 where b: "on_m (bkill_targets_confirm (ke_runner env) (ke_command env) (ke_pool_open env) (ke_completed env)
      (cr_pending c)) w = (out, w1)" by (rule prod.exhaust)
  note p1 = progress_on_m [OF b]
  show ?thesis
  proof (cases out)
    case (Inl e)
    with run b p1 show ?thesis by (simp add: kill_round_def)
  next
    case (Inr x)
    obtain res acc late cp where "x = ((res, acc, late), cp)" using quad [of x] by blast
    then obtain calls progress where o: "out = Inr ((res, acc, late), calls, progress)" using Inr by (cases cp) simp
    let ?w2 = "fold (\<lambda>d. emit_kill_progress env task (n - int (length (cr_pending c)) + int d) n) progress w1"
    let ?unknown = "filter (\<lambda>t. t \<notin> res \<and> t \<in> late) (cr_pending c)"
    obtain gone by_kill q w3 where g: "confirm_by_query env (kt_jobset_id task) ?unknown ?w2 = ((gone, by_kill, q), w3)"
      using quad [of "confirm_by_query env (kt_jobset_id task) ?unknown ?w2"] by blast
    have p2: "only_progress (kt_jobset_id task) w ?w2" by (rule only_progress_trans [OF p1 progress_fold])
    have "w' = ?w2 \<or> w' = w3"
      using run by (cases "?unknown = []") (simp_all add: kill_round_def b o Let_def g)
    with p2 only_progress_trans [OF p2 progress_confirm_query [OF g]] show ?thesis by blast
  qed
qed

lemma progress_rounds: "kill_rounds env task n c w = (r, w') \<Longrightarrow> only_progress (kt_jobset_id task) w w'"
proof (induction env task n c w rule: kill_rounds.induct)
  case (1 env task n c w)
  obtain out w1 where one: "kill_round env task n c w = (out, w1)" by (rule prod.exhaust)
  note p1 = progress_round [OF one]
  show ?case
  proof (cases out)
    case (Inl e)
    with 1(2) one have "w' = w1" by (subst (asm) kill_rounds.simps) simp
    with p1 show ?thesis by simp
  next
    case (Inr c1)
    show ?thesis
    proof (cases "cr_pending c1 = [] \<or> int (cr_attempts c) \<ge> ke_kill_max_retry env")
      case True
      with 1(2) one Inr have "w' = w1" by (subst (asm) kill_rounds.simps) simp
      with p1 show ?thesis by simp
    next
      case False
      with 1(2) one Inr have "kill_rounds env task n (c1\<lparr>cr_attempts := Suc (cr_attempts c)\<rparr>)
          (w1\<lparr>kw_m := ke_sleep env (ke_kill_retry_delay_s env) (kw_m w1)\<rparr>) = (r, w')"
        by (subst (asm) kill_rounds.simps) simp
      from 1(1) [OF one [symmetric] Inr False this] have "only_progress (kt_jobset_id task) (w1\<lparr>kw_m := ke_sleep env (ke_kill_retry_delay_s env) (kw_m w1)\<rparr>) w'" .
      with p1 show ?thesis using only_progress_trans only_progress_m by blast
    qed
  qed
qed

lemma progress_confirm: "kill_confirm env task ts w = (r, w') \<Longrightarrow> only_progress (kt_jobset_id task) w w'"
  using progress_rounds by (fastforce simp: kill_confirm_def split: prod.splits sum.splits)

lemma progress_obind:
  assumes run: "obind x f = (r, w')" and x: "\<And>a w1. x = (a, w1) \<Longrightarrow> only_progress jj w w1"
    and f: "\<And>a w1 r w2. x = (Inr a, w1) \<Longrightarrow> f a w1 = (r, w2) \<Longrightarrow> only_progress jj w1 w2"
  shows "only_progress jj w w'"
proof (cases x)
  case (Pair out w1)
  note p1 = x [OF Pair]
  show ?thesis
  proof (cases out)
    case (Inl e)
    with run Pair p1 show ?thesis by (simp add: obind_def)
  next
    case (Inr a)
    with run Pair have "f a w1 = (r, w')" by (simp add: obind_def)
    with f Pair Inr only_progress_trans [OF p1] show ?thesis by blast
  qed
qed

lemma progress_verify_direct: "verify_direct env tg w = (r, w') \<Longrightarrow> only_progress jj w w'"
  using progress_on_m by (fastforce simp: verify_direct_def Let_def split: if_splits prod.splits sum.splits)

lemma progress_verify_in_jobset: "verify_in_jobset env j tg w = (r, w') \<Longrightarrow> only_progress jj w w'"
  using progress_on_m by (fastforce simp: verify_in_jobset_def Let_def split: if_splits prod.splits sum.splits)

lemma progress_verify_global: 
  assumes "verify_global env task job_ids tg w = (r, w')"
  shows "only_progress jj w w'"
  using assms unfolding verify_global_def
proof (rule progress_obind)
  show "only_progress jj w w1" if "verify_direct env tg w = (a, w1)" for a w1 by (rule progress_verify_direct [OF that])
qed (auto simp: Let_def split: option.splits if_splits)

lemma progress_verify: "verify_kill env task job_ids ts w = (r, w') \<Longrightarrow> only_progress jj w w'"
  unfolding verify_kill_def by (auto split: if_splits intro: progress_verify_in_jobset progress_verify_global)

lemma progress_refresh: "refresh_jobsets env js w = (r, w') \<Longrightarrow> only_progress jj w w'"
proof (induction js arbitrary: w r w')
  case (Cons j js)
  obtain out w1 where q: "on_m (query (ke_status env) (ke_poll env) (ke_now env (kw_m w)) j True) w = (out, w1)"
    by (rule prod.exhaust)
  obtain r2 w2 where rest: "refresh_jobsets env js w1 = (r2, w2)" by (rule prod.exhaust)
  have "w' = w1 \<or> w' = w2" using Cons.prems q rest by (auto simp: obind_def split: sum.splits if_splits)
  with progress_on_m [OF q] Cons.IH [OF rest] show ?case using only_progress_trans by blast
qed simp

lemma progress_refresh_tracked: "refresh_tracked env task job_ids w = (r, w') \<Longrightarrow> only_progress jj w w'"
  using progress_refresh by (fastforce simp: refresh_tracked_def split: sum.splits)

lemma progress_mark: "mark_killed env task job_ids plan acc keys w = (r, w') \<Longrightarrow> only_progress jj w w'"
  unfolding mark_killed_def by (auto split: if_splits sum.splits option.splits intro: progress_on_m)

lemma progress_survivors:
  assumes "survivors env task job_ids ts c w = (r, w')"
  shows "only_progress jj w w'"
proof (cases "kt_verify task \<or> \<not> cr_resolved c \<subseteq> cr_accepted c")
  case True
  let ?f = "\<lambda>(still, alive_keys, changed) w1. if \<not> cr_resolved c \<subseteq> cr_accepted c \<and> kt_jobset_id task = []
             then obind (refresh_tracked env task job_ids w1) (\<lambda>more w2. (Inr (still, alive_keys, changed @ more), w2))
             else (Inr (still, alive_keys, changed), w1)"
  from assms True have "obind (verify_kill env task job_ids ts w) ?f = (r, w')" by (simp add: survivors_def)
  then show ?thesis
  proof (rule progress_obind)
    show "only_progress jj w w1" if "verify_kill env task job_ids ts w = (a, w1)" for a w1 by (rule progress_verify [OF that])
    show "only_progress jj w1 w2" if "?f a w1 = (r, w2)" for a w1 r w2
      using that by (auto split: if_splits prod.splits intro: progress_obind [OF _ progress_refresh_tracked])
  qed
qed (use assms in \<open>simp add: survivors_def\<close>)

lemma progress_plan_run:
  assumes "kill_plan_run env task job_ids errors plan w = (r, w')"
  shows "only_progress (kt_jobset_id task) w w'"
proof -
  obtain r1 w1 where c: "(if kp_targets plan = [] then (Inr (no_confirm, []), w) else kill_confirm env task (kp_targets plan) w) = (r1, w1)"
    by (rule prod.exhaust)
  have p1: "only_progress (kt_jobset_id task) w w1" using c by (auto split: if_splits intro: progress_confirm)
  show ?thesis
  proof (cases r1)
    case (Inl e)
    with assms c p1 show ?thesis by (simp add: kill_plan_run_def)
  next
    case (Inr p)
    then obtain cr errs where r1: "r1 = Inr (cr, errs)" by (cases p) simp
    obtain r2 w2 where s: "survivors env task job_ids (kp_targets plan) cr w1 = (r2, w2)" by (rule prod.exhaust)
    note p2 = only_progress_trans [OF p1 progress_survivors [OF s]]
    show ?thesis
    proof (cases r2)
      case (Inl e)
      with assms c r1 s p2 show ?thesis by (simp add: kill_plan_run_def)
    next
      case (Inr v)
      obtain still keys changed where "v = (still, keys, changed)" by (cases v)
      with assms c r1 s Inr have "obind (mark_killed env task job_ids plan (cr_accepted cr) keys w2) (\<lambda>marked w3.
       (Inr \<lparr> krp_jobset_id = kt_jobset_id task, krp_requested = kp_requested plan,
              krp_strategies = (if kp_targets plan = [] then [] else [kp_label plan]),
              krp_command_calls = cr_calls cr, krp_still_alive = still, krp_unconfirmed = length (cr_pending cr),
              krp_kill_retries = cr_attempts cr, krp_changed = merge_changed (changed @ marked),
              krp_errors = errors @ errs, krp_jobset_ids = [] \<rparr>, w3)) = (r, w')" by (simp add: kill_plan_run_def)
      then have "only_progress (kt_jobset_id task) w2 w'" by (rule progress_obind) (auto intro: progress_mark)
      with p2 show ?thesis using only_progress_trans by blast
    qed
  qed
qed

lemma progress_run_kill: "run_kill env task w = (r, w') \<Longrightarrow> only_progress (kt_jobset_id task) w w'"
proof -
  assume run: "run_kill env task w = (r, w')"
  obtain errors w1 where q: "quiesce task w = (errors, w1)" by (rule prod.exhaust)
  have p1: "only_progress (kt_jobset_id task) w w1" using q by (auto simp: quiesce_def Let_def split: option.splits prod.splits)
  have "w' = w1 \<or> (\<exists>job_ids plan. kill_plan_run env task job_ids errors plan w1 = (r, w'))"
    using run q by (auto simp: run_kill_def Let_def split: sum.splits)
  with p1 show ?thesis using only_progress_trans progress_plan_run by blast
qed

text \<open>The scope of a task, once released.\<close>

definition scope_released :: "'w kill_task \<Rightarrow> 'w mworld \<Rightarrow> bool" where
  "scope_released task m \<longleftrightarrow> (case kt_scope task of None \<Rightarrow> True | Some b \<Rightarrow> \<exists>m0. m = kb_release b m0)"

lemma run_and_release_only:
  assumes "run_and_release env task w = (r, w')"
  shows "only_progress (kt_jobset_id task) w w' \<and> scope_released task (kw_m w')"
proof -
  obtain r1 w1 where k: "run_kill env task w = (r1, w1)" by (rule prod.exhaust)
  with assms have "w' = (case kt_scope task of None \<Rightarrow> w1 | Some b \<Rightarrow> w1\<lparr>kw_m := kb_release b (kw_m w1)\<rparr>)"
    by (simp add: run_and_release_def)
  with progress_run_kill [OF k] show ?thesis
    by (auto simp: scope_released_def only_progress_def split: option.split)
qed

lemma run_and_release_names:
  assumes "run_and_release env task w = (Inr report, w')"
  shows "krp_jobset_id report = kt_jobset_id task"
proof -
  obtain job_ids errors plan w1 w2 where "kill_plan_run env task job_ids errors plan w1 = (Inr report, w2)"
    using assms by (auto simp: run_and_release_def run_kill_def Let_def split: prod.splits sum.splits)
  then show ?thesis by (auto simp: kill_plan_run_def obind_def split: prod.splits sum.splits)
qed

text \<open>
  C23: Every kill that runs reports its end exactly once, whatever happens to it. Whether the task
  succeeds, meets an unknown jobset, or any command or store call raises, it emits progress, an
  error only right before its report, and one completion, which is its last signal and carries
  its own activity; its scope is released; and the activity stays registered until the main thread
  takes the report, so no completion check concludes in between.
\<close>

lemma kill_reports_once:
  "\<exists>es report. kw_events (run_task env task w) = kw_events w @ es @ [KillCompleted (kt_jobset_id task) (kt_slot task) report] \<and>
     list_all (\<lambda>e. (\<exists>d n. e = KillProgressed (kt_jobset_id task) d n) \<or>
        (\<exists>x. e = KillErrored (kt_jobset_id task) x \<and> last es = e \<and> krp_errors report = [InternalError])) es \<and>
     krp_jobset_id report = kt_jobset_id task \<and>
     scope_released task (kw_m (run_task env task w)) \<and>
     registered (kw_killer (run_task env task w)) = registered (kw_killer w)"
proof -
  obtain r w1 where k: "run_and_release env task w = (r, w1)" by (rule prod.exhaust)
  from run_and_release_only [OF k] obtain es where
    es: "kw_events w1 = kw_events w @ es" "\<forall>e\<in>set es. \<exists>d n. e = KillProgressed (kt_jobset_id task) d n"
    and reg: "registered (kw_killer w1) = registered (kw_killer w)" and rel: "scope_released task (kw_m w1)"
    by (auto simp: only_progress_def)
  show ?thesis
  proof (cases r)
    case (Inl e)
    with k es reg rel show ?thesis
      by (intro exI [of _ "es @ [KillErrored (kt_jobset_id task) e]"] exI [of _ "internal_report (kt_jobset_id task)"])
        (auto simp: run_task_def kill_emit_def internal_report_def Let_def list_all_iff)
  next
    case (Inr report)
    have "krp_jobset_id report = kt_jobset_id task" using run_and_release_names [OF k [unfolded Inr]] .
    with Inr k es reg rel show ?thesis
      by (intro exI [of _ "es @ [KillProgressed (kt_jobset_id task) (int (krp_requested report)) (int (krp_requested report))]"]
            exI [of _ report]) (auto simp: run_task_def kill_emit_def Let_def list_all_iff)
  qed
qed

section \<open>A kill that bkill only half accepts\<close>

definition demo_kill_env :: "unit kill_env" where
  "demo_kill_env = \<lparr> ke_status = demo_status_command, ke_poll = demo_poll_config,
     ke_runner = (\<lambda>args t inp w. (Inr \<lparr> cr_returncode = 255, cr_stdout = ''Job <12> is being terminated'',
        cr_stderr = ''Job <11>: try later'' \<rparr>, w)),
     ke_command = demo_command_config, ke_pool_open = True, ke_completed = (\<lambda>rs. rs), ke_kill_max_retry = 1,
     ke_kill_retry_delay_s = 0, ke_kill_status_policy = ''optimistic'', ke_mono = (\<lambda>_. 0), ke_now = (\<lambda>_. 9),
     ke_sleep = (\<lambda>_ m. m) \<rparr>"

definition demo_kill_task :: "unit kill_task" where
  "demo_kill_task = \<lparr> kt_jobset_id = ''js'', kt_job_ids = Some [''11'', ''12''], kt_job_keys = None, kt_verify = False,
     kt_scope = None, kt_slot = None \<rparr>"

definition demo_kworld :: "unit kworld" where
  "demo_kworld = \<lparr> kw_m = demo_mworld, kw_killer = new_killer, kw_prog = new_EmitThrottler 0 0, kw_events = [] \<rparr>"

definition demo_kill_plan :: kill_plan where
  "demo_kill_plan = projr (make_plan ''js'' (Some [''11'', ''12'']) demo_poll_store)"

theorem kill_marks_only_accepted_witness:
  "let (res, w') = mark_killed demo_kill_env demo_kill_task None demo_kill_plan {''12''} {} demo_kworld
   in map_sum id jr_state (get_job ''js'' ''b'' (m_store (kw_m w'))) = Inr EXIT \<and>
      get_job ''js'' ''a'' (m_store (kw_m w')) = get_job ''js'' ''a'' demo_poll_store"
proof -
  let ?r = "mark_killed demo_kill_env demo_kill_task None demo_kill_plan {''12''} {} demo_kworld"
  obtain res w' where r: "?r = (res, w')" by (cases ?r)
  have b: "map_sum (\<lambda>_. ()) jr_state (get_job ''js'' ''b'' (m_store (kw_m (snd ?r)))) = Inr EXIT" by code_simp
  have a: "case get_job ''js'' ''a'' demo_poll_store of Inr x \<Rightarrow> rec_target (kp_form demo_kill_plan) x = ''11'' | Inl _ \<Rightarrow> False"
    by code_simp
  have s: "m_store (kw_m demo_kworld) = demo_poll_store" by (simp add: demo_kworld_def demo_mworld_def)
  have "get_job ''js'' ''a'' (m_store (kw_m w')) = get_job ''js'' ''a'' demo_poll_store"
    using kill_marks_only_accepted [OF _ r, of "''js''" "''a''", unfolded s, OF demo_poll_store_reach] a by auto
  with b r show ?thesis by (cases "get_job ''js'' ''b'' (m_store (kw_m w'))") auto
qed


lemma demo_bkill: "bkill_targets_confirm (ke_runner demo_kill_env) (ke_command demo_kill_env) (ke_pool_open demo_kill_env)
     (ke_completed demo_kill_env) [''11'', ''12''] m = (Inr (({''12''}, {''12''}, {}), 1, [2]), m)"
  "bkill_targets_confirm (ke_runner demo_kill_env) (ke_command demo_kill_env) (ke_pool_open demo_kill_env)
     (ke_completed demo_kill_env) [''11''] m = (Inr (({''12''}, {''12''}, {}), 1, [1]), m)"
  by code_simp+

lemma demo_rounds:
  "\<exists>w1. kill_round demo_kill_env demo_kill_task 2 \<lparr> cr_calls = 0, cr_pending = [''11'', ''12''], cr_attempts = 0, cr_accepted = {}, cr_resolved = {} \<rparr> w
     = (Inr \<lparr> cr_calls = 1, cr_pending = [''11''], cr_attempts = 0, cr_accepted = {''12''}, cr_resolved = {''12''} \<rparr>, w1)"
  "\<exists>w1. kill_round demo_kill_env demo_kill_task 2 \<lparr> cr_calls = 1, cr_pending = [''11''], cr_attempts = 1, cr_accepted = {''12''}, cr_resolved = {''12''} \<rparr> w
     = (Inr \<lparr> cr_calls = 2, cr_pending = [''11''], cr_attempts = 1, cr_accepted = {''12''}, cr_resolved = {''12''} \<rparr>, w1)"
  by (simp_all add: kill_round_def on_m_def demo_bkill)

theorem kill_confirm_accounts_witness:
  "\<exists>c errs w'. kill_confirm demo_kill_env demo_kill_task [''11'', ''12''] demo_kworld = (Inr (c, errs), w') \<and>
     cr_pending c = [''11''] \<and> ''12'' \<in> cr_resolved c \<and> ''11'' \<notin> cr_resolved c \<and> cr_attempts c = 1 \<and> errs \<noteq> []"
proof -
  let ?c = "\<lparr> cr_calls = 2, cr_pending = [''11''], cr_attempts = 1, cr_accepted = {''12''}, cr_resolved = {''12''} \<rparr>"
  have m: "ke_kill_max_retry demo_kill_env = 1" by (simp add: demo_kill_env_def)
  have srt: "sorted_set [''11'', ''12''] = [''11'', ''12'']" by code_simp
  obtain w' where "kill_rounds demo_kill_env demo_kill_task 2
      \<lparr> cr_calls = 0, cr_pending = [''11'', ''12''], cr_attempts = 0, cr_accepted = {}, cr_resolved = {} \<rparr> demo_kworld = (Inr ?c, w')"
  proof -
    obtain w1 where one: "kill_round demo_kill_env demo_kill_task 2 \<lparr> cr_calls = 0, cr_pending = [''11'', ''12''], cr_attempts = 0,
        cr_accepted = {}, cr_resolved = {} \<rparr> demo_kworld
      = (Inr \<lparr> cr_calls = 1, cr_pending = [''11''], cr_attempts = 0, cr_accepted = {''12''}, cr_resolved = {''12''} \<rparr>, w1)"
      using demo_rounds(1) by blast
    let ?w2 = "w1\<lparr>kw_m := ke_sleep demo_kill_env (ke_kill_retry_delay_s demo_kill_env) (kw_m w1)\<rparr>"
    obtain w3 where two: "kill_round demo_kill_env demo_kill_task 2
        \<lparr> cr_calls = 1, cr_pending = [''11''], cr_attempts = 1, cr_accepted = {''12''}, cr_resolved = {''12''} \<rparr> ?w2 = (Inr ?c, w3)"
      using demo_rounds(2) by blast
    show ?thesis
      proof (rule that [of w3])
      show "kill_rounds demo_kill_env demo_kill_task 2
        \<lparr> cr_calls = 0, cr_pending = [''11'', ''12''], cr_attempts = 0, cr_accepted = {}, cr_resolved = {} \<rparr> demo_kworld = (Inr ?c, w3)"
        using two by (subst kill_rounds.simps, simp add: one m, subst kill_rounds.simps, simp add: m)
    qed
  qed
  then obtain errs where r: "kill_confirm demo_kill_env demo_kill_task [''11'', ''12''] demo_kworld = (Inr (?c\<lparr>cr_accepted := {''12''}\<rparr>, errs), w')"
    by (simp add: kill_confirm_def srt)
  show ?thesis
    using kill_confirm_accounts [OF r] r m by auto
qed


end
