(* ===== verification/Submitter.thy ===== *)
theory Submitter
  imports Options JobsetCore Lifecycle
begin

text \<open>
  The bulk submitter (\<open>src/lsfmgr/submitter.py\<close>): the context of a submit cycle, the
  callbacks of its worker tasks, the retry ledger, cancellation, the pre-submit gate and the
  launch of a cycle. Contexts are objects, addressed by their position in \<open>sb_heap\<close>.
  A callback is one function here, although it takes the context's lock more than once.
\<close>

section \<open>State\<close>

text \<open>A task waiting in the pool or in the retry ledger.\<close>

record submit_task =
  tk_ctx :: nat
  tk_key :: job_key
  tk_argv :: "string list"
  tk_attempt :: nat
  tk_cwd :: "string option"

record pending_retry =
  pr_key :: job_key
  pr_delay_s :: seconds
  pr_task :: submit_task

record submit_ctx =
  sc_jobset_id :: jobset_id
  sc_total :: int
  sc_slots :: WorkerSlots
  sc_options :: Options
  sc_throttler :: EmitThrottler
  sc_log_sampler :: "(nat \<times> string) LogSampler"
  sc_cancel_event :: bool
  sc_done :: int
  sc_succeeded :: int
  sc_failed :: int
  sc_cancelled :: int
  sc_retried_keys :: "job_key set"
  sc_fail_reasons :: "(string, int) dict"
  sc_pending_retries :: "(job_key, pending_retry) dict"
  sc_finished :: bool
  sc_changed_buffer :: "JobRecord list"
  sc_gate_token :: "activity entry option"
  sc_arm_token :: nat
  sc_cancelled_keys :: "job_key set"
  sc_inflight :: "job_key set"

text \<open>
  The signals, in the order they are emitted. The first component is the context that emits;
  it is not part of the signal.
\<close>

datatype submit_event =
    SubStarted nat jobset_id
  | SubProgress nat jobset_id int int
  | SubJobsChanged nat jobset_id "JobRecord list"
  | SubFinished nat jobset_id SubmitReport
  | SubError nat jobset_id string
  | SubRecordsReset nat jobset_id nat "JobRecord list"
  | SubGateRejected nat jobset_id nat
  | SubPreSubmitStarted nat jobset_id
  | SubPreSubmitFinished nat jobset_id bool
  | SubRetryRequested nat job_key

record sub_config =
  sx_progress_min_interval_s :: seconds
  sx_progress_min_step_ratio :: real
  sx_submit_finished_on_gate_reject :: bool
  sx_workers :: int

text \<open>
  The submitter with what it shares: the store, the submit gate, and the ids it asks the
  status source to forget. The pool holds the tasks started and not yet picked up, with
  their priorities; the timers are the single-shot retry timers set and not yet fired.
\<close>

record sub =
  sb_store :: store
  sb_gate :: SubmitGate
  sb_heap :: "submit_ctx list"
  sb_contexts :: "(jobset_id, nat) dict"
  sb_shutdown :: bool
  sb_pool :: "(submit_task \<times> int) list"
  sb_timers :: "(nat \<times> job_key \<times> int) list"
  sb_forgotten :: "int list"
  sb_events :: "submit_event list"
  sb_next :: nat

record clock =
  ck_wall :: datetime
  ck_mono :: seconds

definition MAX_FAIL_MESSAGE_CHARS :: nat where
  "MAX_FAIL_MESSAGE_CHARS = 4000"

abbreviation ctx :: "nat \<Rightarrow> sub \<Rightarrow> submit_ctx" where
  "ctx c w \<equiv> sb_heap w ! c"

abbreviation set_ctx :: "nat \<Rightarrow> submit_ctx \<Rightarrow> sub \<Rightarrow> sub" where
  "set_ctx c x w \<equiv> w\<lparr>sb_heap := (sb_heap w)[c := x]\<rparr>"

definition emit :: "submit_event list \<Rightarrow> sub \<Rightarrow> sub" where
  "emit es w = w\<lparr>sb_events := sb_events w @ es\<rparr>"

section \<open>Counting and completion\<close>

definition make_report :: "submit_ctx \<Rightarrow> SubmitReport" where
  "make_report x =
     \<lparr> srp_jobset_id = sc_jobset_id x, srp_total = sc_total x, srp_succeeded = sc_succeeded x,
       srp_failed = sc_failed x, srp_cancelled = sc_cancelled x, srp_retried = card (sc_retried_keys x),
       srp_fail_reasons = sc_fail_reasons x \<rparr>"

definition drop_ctx :: "nat \<Rightarrow> sub \<Rightarrow> sub" where
  "drop_ctx c w =
     (let x = ctx c w; j = sc_jobset_id x;
          w1 = w\<lparr>sb_gate := gate_unregister j (sc_gate_token x) (sb_gate w)\<rparr>
      in if dget (sb_contexts w1) j = Some c then w1\<lparr>sb_contexts := ddel j (sb_contexts w1)\<rparr> else w1)"

definition emit_progress :: "clock \<Rightarrow> bool \<Rightarrow> nat \<Rightarrow> sub \<Rightarrow> sub" where
  "emit_progress t progress c w =
     (let x = ctx c w; j = sc_jobset_id x
      in if sc_finished x then w
         else
           (let (go, th) = should_emit (ck_mono t) (sc_done x) (sc_total x) (sc_throttler x);
                w1 = set_ctx c (x\<lparr>sc_throttler := th\<rparr>) w
            in if \<not> go then w1
               else emit ((if progress then [SubProgress c j (sc_done x) (sc_total x)] else [])
                          @ (if sc_changed_buffer x \<noteq> [] then [SubJobsChanged c j (sc_changed_buffer x)] else []))
                      (set_ctx c (x\<lparr>sc_throttler := th, sc_changed_buffer := []\<rparr>) w1)))"

definition finish_if_done :: "bool \<Rightarrow> nat \<Rightarrow> sub \<Rightarrow> sub" where
  "finish_if_done force c w =
     (let x = ctx c w; j = sc_jobset_id x
      in if sc_finished x \<or> (sc_done x < sc_total x \<and> \<not> force) then w
         else drop_ctx c
           (emit ((if sc_done x \<ge> sc_total x then [SubProgress c j (sc_total x) (sc_total x)] else [])
                  @ (if sc_changed_buffer x \<noteq> [] then [SubJobsChanged c j (sc_changed_buffer x)] else [])
                  @ [SubFinished c j (make_report x)])
             (set_ctx c (x\<lparr>sc_finished := True, sc_changed_buffer := []\<rparr>) w)))"

text \<open>The kinds of a unit of work done: the keyword arguments of \<open>_count\<close>.\<close>

datatype unit_kind = UnitSucceeded | UnitFailed "string option" | UnitCancelled

definition counted :: "int \<Rightarrow> unit_kind \<Rightarrow> JobRecord list \<Rightarrow> submit_ctx \<Rightarrow> submit_ctx" where
  "counted n kind changed x =
     (let x1 = x\<lparr>sc_done := sc_done x + n, sc_changed_buffer := sc_changed_buffer x @ changed\<rparr>
      in (case kind of
            UnitSucceeded \<Rightarrow> x1\<lparr>sc_succeeded := sc_succeeded x + n\<rparr>
          | UnitCancelled \<Rightarrow> x1\<lparr>sc_cancelled := sc_cancelled x + n\<rparr>
          | UnitFailed reason \<Rightarrow>
              (let x2 = x1\<lparr>sc_failed := sc_failed x + n\<rparr>
               in (case reason of
                     None \<Rightarrow> x2
                   | Some r \<Rightarrow> x2\<lparr>sc_fail_reasons := dset r (dget_or (sc_fail_reasons x) r 0 + n) (sc_fail_reasons x)\<rparr>))))"

definition count_units :: "clock \<Rightarrow> int \<Rightarrow> unit_kind \<Rightarrow> JobRecord list \<Rightarrow> nat \<Rightarrow> sub \<Rightarrow> sub" where
  "count_units t n kind changed c w =
     (if n \<le> 0 then w
      else finish_if_done False c (emit_progress t True c (set_ctx c (counted n kind changed (ctx c w)) w)))"

definition note_transition :: "clock \<Rightarrow> JobRecord option \<Rightarrow> nat \<Rightarrow> sub \<Rightarrow> sub" where
  "note_transition t changed c w =
     (case changed of
        None \<Rightarrow> w
      | Some r \<Rightarrow>
          emit_progress t False c
            (set_ctx c ((ctx c w)\<lparr>sc_changed_buffer := sc_changed_buffer (ctx c w) @ [r]\<rparr>) w))"

text \<open>A store operation on the submitter's store.\<close>

definition on_store :: "(store \<Rightarrow> ('a, store) outcome) \<Rightarrow> sub \<Rightarrow> ('a, sub) outcome" where
  "on_store f w = (let (r, s) = f (sb_store w) in (r, w\<lparr>sb_store := s\<rparr>))"

section \<open>The callbacks of a task\<close>

definition enter_inflight :: "nat \<Rightarrow> job_key \<Rightarrow> sub \<Rightarrow> bool \<times> sub" where
  "enter_inflight c k w =
     (let x = ctx c w
      in if sc_cancel_event x \<or> k \<in> sc_cancelled_keys x then (False, w)
         else (True, set_ctx c (x\<lparr>sc_inflight := insert k (sc_inflight x)\<rparr>) w))"

definition leave_inflight :: "nat \<Rightarrow> job_key \<Rightarrow> sub \<Rightarrow> sub" where
  "leave_inflight c k w = set_ctx c ((ctx c w)\<lparr>sc_inflight := sc_inflight (ctx c w) - {k}\<rparr>) w"

definition job_cancelled :: "nat \<Rightarrow> job_key \<Rightarrow> sub \<Rightarrow> bool" where
  "job_cancelled c k w \<longleftrightarrow> sc_cancel_event (ctx c w) \<or> k \<in> sc_cancelled_keys (ctx c w)"

definition task_vanished :: "clock \<Rightarrow> nat \<Rightarrow> sub \<Rightarrow> sub" where
  "task_vanished t c w = count_units t 1 UnitCancelled [] c w"

definition task_succeeded :: "clock \<Rightarrow> nat \<Rightarrow> job_key \<Rightarrow> int \<Rightarrow> sub \<Rightarrow> (unit, sub) outcome" where
  "task_succeeded t c k job_id w =
     (case on_store (transition (ck_wall t) (sc_jobset_id (ctx c w)) k (Some PEND) None
             [FJobId (Some job_id), FSubmitTime (Some (ck_wall t)), FFailReason None, FFailMessage None]) w of
        (Inl e, w1) \<Rightarrow> if RECORD_GONE e then (Inr (), task_vanished t c w1) else (Inl e, w1)
      | (Inr r, w1) \<Rightarrow> (Inr (), count_units t 1 UnitSucceeded (case r of None \<Rightarrow> [] | Some x \<Rightarrow> [x]) c w1))"

definition submitting_or_waiting :: "JobRecord \<Rightarrow> bool" where
  "submitting_or_waiting r \<longleftrightarrow> jr_state r \<in> {SUBMITTING, RETRY_WAIT}"

definition mark_cancelled :: "clock \<Rightarrow> nat \<Rightarrow> job_key list \<Rightarrow> sub \<Rightarrow> (unit, sub) outcome" where
  "mark_cancelled t c ks w =
     (case on_store (store_transition_many (ck_wall t) (sc_jobset_id (ctx c w))
             (map (\<lambda>k. (k, Some CANCELLED, Some submitting_or_waiting,
                [FFailReason (Some ''CANCELLED''), FFailMessage None, FRetryCount 0, FKilled True])) ks)) w of
        (Inl e, w1) \<Rightarrow> (Inl e, w1)
      | (Inr changed, w1) \<Rightarrow> (Inr (), count_units t 1 UnitCancelled changed c w1))"

definition task_cancelled :: "clock \<Rightarrow> nat \<Rightarrow> job_key \<Rightarrow> sub \<Rightarrow> (unit, sub) outcome" where
  "task_cancelled t c k = mark_cancelled t c [k]"

text \<open>
  \<open>_schedule_retry\<close> enters the retry in the ledger and asks the submitter's thread for a
  timer; \<open>_on_retry_requested\<close> runs there.
\<close>

definition schedule_retry :: "nat \<Rightarrow> job_key \<Rightarrow> seconds \<Rightarrow> submit_task \<Rightarrow> sub \<Rightarrow> sub" where
  "schedule_retry c k delay task w =
     emit [SubRetryRequested c k]
       (set_ctx c ((ctx c w)\<lparr>sc_pending_retries :=
          dset k \<lparr> pr_key = k, pr_delay_s = delay, pr_task = task \<rparr> (sc_pending_retries (ctx c w))\<rparr>) w)"

definition log_failure_ctx :: "nat \<Rightarrow> nat \<Rightarrow> string \<Rightarrow> sub \<Rightarrow> sub" where
  "log_failure_ctx c level reason w =
     set_ctx c ((ctx c w)\<lparr>sc_log_sampler := snd (log_failure (level, reason) (sc_log_sampler (ctx c w)))\<rparr>) w"

definition WARNING :: nat where
  "WARNING = 30"

definition ERROR :: nat where
  "ERROR = 40"

definition task_failed :: "clock \<Rightarrow> submit_task \<Rightarrow> submit_error \<Rightarrow> sub \<Rightarrow> (unit, sub) outcome" where
  "task_failed t task err w0 =
     (let c = tk_ctx task; k = tk_key task; attempt = tk_attempt task;
          w = log_failure_ctx c WARNING (se_fail_reason err) w0;
          j = sc_jobset_id (ctx c w); msg = take MAX_FAIL_MESSAGE_CHARS (diagnostic err)
      in if k \<in> sc_cancelled_keys (ctx c w) then task_cancelled t c k w
         else if se_retryable err \<and> int attempt < opt_max_retry (sc_options (ctx c w))
                 \<and> \<not> sc_cancel_event (ctx c w) \<and> \<not> sb_shutdown w
         then
           (case on_store (transition (ck_wall t) j k (Some RETRY_WAIT) None
                   [FRetryCount (Suc attempt), FFailReason (Some (se_fail_reason err)), FFailMessage (Some msg)]) w of
              (Inl e, w1) \<Rightarrow> if RECORD_GONE e then (Inr (), task_vanished t c w1) else (Inl e, w1)
            | (Inr waiting, w1) \<Rightarrow>
                (let w2 = note_transition t waiting c
                      (set_ctx c ((ctx c w1)\<lparr>sc_retried_keys := insert k (sc_retried_keys (ctx c w1))\<rparr>) w1)
                 in (case retry_delay_s (sc_options (ctx c w2)) attempt of
                       Inl e \<Rightarrow> (Inl e, w2)
                     | Inr delay \<Rightarrow> (Inr (), schedule_retry c k delay (task\<lparr>tk_attempt := Suc attempt\<rparr>) w2))))
         else
           (let w1 = log_failure_ctx c ERROR (se_fail_reason err) w
            in (case on_store (transition (ck_wall t) j k (Some SUBMIT_FAILED) None
                       [FRetryCount attempt, FFailReason (Some (se_fail_reason err)), FFailMessage (Some msg)]) w1 of
                  (Inl e, w2) \<Rightarrow> if RECORD_GONE e then (Inr (), task_vanished t c w2) else (Inl e, w2)
                | (Inr r, w2) \<Rightarrow>
                    (Inr (), count_units t 1 (UnitFailed (Some (se_fail_reason err)))
                       (case r of None \<Rightarrow> [] | Some x \<Rightarrow> [x]) c w2))))"

text \<open>\<open>txt\<close> is \<open>repr(err)\<close>.\<close>

definition task_crashed :: "clock \<Rightarrow> string \<Rightarrow> nat \<Rightarrow> job_key \<Rightarrow> py_error \<Rightarrow> sub \<Rightarrow> sub" where
  "task_crashed t txt c k err w =
     (if RECORD_GONE err then task_vanished t c w
      else
        (let j = sc_jobset_id (ctx c w);
             (r, w1) = on_store (transition (ck_wall t) j k (Some SUBMIT_FAILED)
                (Some (\<lambda>cur. jr_job_id cur = None))
                [FFailReason (Some ''INTERNAL_ERROR''), FFailMessage (Some (take MAX_FAIL_MESSAGE_CHARS txt))]) w;
             changed = (case r of Inr (Some nr) \<Rightarrow> [nr] | _ \<Rightarrow> [])
         in count_units t 1 (UnitFailed (Some ''INTERNAL_ERROR'')) changed c
              (emit [SubError c j (k @ '': '' @ txt)] w1)))"

text \<open>The exception handler around a task, and its \<open>finally\<close>.\<close>

definition guard_task :: "clock \<Rightarrow> string \<Rightarrow> nat \<Rightarrow> job_key \<Rightarrow> (unit, sub) outcome \<Rightarrow> sub" where
  "guard_task t txt c k out = leave_inflight c k
     (case out of (Inr _, w) \<Rightarrow> w | (Inl e, w) \<Rightarrow> task_crashed t txt c k e w)"

section \<open>The phases of a task\<close>

text \<open>
  \<open>_SubmitTask._run\<close> up to the wait for a slot, one round of that wait with the check after
  it, and what follows the wrapper. \<open>None\<close>: the task is over.
\<close>

datatype task_phase = WaitingSlot | Executing

definition task_begin :: "clock \<Rightarrow> string \<Rightarrow> submit_task \<Rightarrow> sub \<Rightarrow> task_phase option \<times> sub" where
  "task_begin t txt task w =
     (let c = tk_ctx task; k = tk_key task; (entered, w1) = enter_inflight c k w
      in if \<not> entered then (None, guard_task t txt c k (task_cancelled t c k w1))
         else
           (case on_store (transition (ck_wall t) (sc_jobset_id (ctx c w1)) k (Some SUBMITTING) None []) w1 of
              (Inl e, w2) \<Rightarrow>
                (None, guard_task t txt c k
                         (if RECORD_GONE e then (Inr (), task_vanished t c w2) else (Inl e, w2)))
            | (Inr starting, w2) \<Rightarrow>
                (Some WaitingSlot, if tk_attempt task \<noteq> 0 then note_transition t starting c w2 else w2)))"

definition release_slot :: "nat \<Rightarrow> sub \<Rightarrow> sub" where
  "release_slot c w = set_ctx c ((ctx c w)\<lparr>sc_slots := slots_release (sc_slots (ctx c w))\<rparr>) w"

definition release_after :: "nat \<Rightarrow> (unit, sub) outcome \<Rightarrow> (unit, sub) outcome" where
  "release_after c out = (fst out, release_slot c (snd out))"

definition task_acquire :: "clock \<Rightarrow> string \<Rightarrow> submit_task \<Rightarrow> sub \<Rightarrow> task_phase option \<times> sub" where
  "task_acquire t txt task w =
     (let c = tk_ctx task; k = tk_key task;
          (got, slots) = slots_acquire_round (job_cancelled c k w) (sc_slots (ctx c w));
          w1 = set_ctx c ((ctx c w)\<lparr>sc_slots := slots\<rparr>) w
      in (case got of
            None \<Rightarrow> (Some WaitingSlot, w1)
          | Some False \<Rightarrow> (None, guard_task t txt c k (task_cancelled t c k w1))
          | Some True \<Rightarrow>
              if job_cancelled c k w1
              then (None, guard_task t txt c k (release_after c (task_cancelled t c k w1)))
              else (Some Executing, w1)))"

text \<open>\<open>r\<close> is what \<open>command.run_submit\<close> returned or raised.\<close>

definition task_finish :: "clock \<Rightarrow> string \<Rightarrow> submit_task \<Rightarrow> py_error + int \<Rightarrow> sub \<Rightarrow> sub" where
  "task_finish t txt task r w =
     (let c = tk_ctx task; k = tk_key task
      in guard_task t txt c k (release_after c
           (case r of
              Inr job_id \<Rightarrow> task_succeeded t c k job_id w
            | Inl (SubmitError err) \<Rightarrow> task_failed t task err w
            | Inl e \<Rightarrow> (Inl e, w))))"

section \<open>Retries and cancellation\<close>

definition finalize_retry :: "clock \<Rightarrow> string \<Rightarrow> nat \<Rightarrow> pending_retry \<Rightarrow> sub \<Rightarrow> sub" where
  "finalize_retry t default_reason c entry w =
     (let j = sc_jobset_id (ctx c w); k = pr_key entry
      in (case get_job j k (sb_store w) of
            Inl e \<Rightarrow> count_units t 1 UnitCancelled [] c w
          | Inr r \<Rightarrow>
              if jr_state r \<noteq> RETRY_WAIT then count_units t 1 UnitCancelled [] c w
              else
                (let reason = (case jr_fail_reason r of None \<Rightarrow> default_reason | Some x \<Rightarrow> if x = [] then default_reason else x);
                     (res, w1) = on_store (transition (ck_wall t) j k (Some CANCELLED) None
                        [FKilled True, FFailReason (Some reason)]) w
                 in count_units t 1 UnitCancelled (case res of Inr (Some new) \<Rightarrow> [new] | _ \<Rightarrow> []) c w1)))"

text \<open>The removal of entries from the ledger is atomic; each removed entry is then finalized.\<close>

definition pop_retries :: "scope \<Rightarrow> nat \<Rightarrow> sub \<Rightarrow> pending_retry list \<times> sub" where
  "pop_retries keys c w =
     (let d = sc_pending_retries (ctx c w)
      in (map snd (filter (\<lambda>(k, _). in_scope keys k) d),
          set_ctx c ((ctx c w)\<lparr>sc_pending_retries := filter (\<lambda>(k, _). \<not> in_scope keys k) d\<rparr>) w))"

definition abort_retries :: "clock \<Rightarrow> string \<Rightarrow> scope \<Rightarrow> nat \<Rightarrow> sub \<Rightarrow> sub" where
  "abort_retries t reason keys c w =
     (let (entries, w1) = pop_retries keys c w in fold (finalize_retry t reason c) entries w1)"

definition retry_fire :: "clock \<Rightarrow> nat \<Rightarrow> job_key \<Rightarrow> sub \<Rightarrow> sub" where
  "retry_fire t c k w =
     (case dget (sc_pending_retries (ctx c w)) k of
        None \<Rightarrow> w
      | Some entry \<Rightarrow>
          (let w1 = set_ctx c ((ctx c w)\<lparr>sc_pending_retries := ddel k (sc_pending_retries (ctx c w))\<rparr>) w
           in if sb_shutdown w1 \<or> sc_cancel_event (ctx c w1) then finalize_retry t ''CANCELLED'' c entry w1
              else w1\<lparr>sb_pool := sb_pool w1 @ [(pr_task entry, 0)]\<rparr>))"

definition on_retry_requested :: "clock \<Rightarrow> nat \<Rightarrow> job_key \<Rightarrow> sub \<Rightarrow> sub" where
  "on_retry_requested t c k w =
     (if sb_shutdown w \<or> sc_cancel_event (ctx c w) then retry_fire t c k w
      else (case dget (sc_pending_retries (ctx c w)) k of
              None \<Rightarrow> w
            | Some entry \<Rightarrow> w\<lparr>sb_timers := sb_timers w @ [(c, k, timer_ms (pr_delay_s entry))]\<rparr>))"

text \<open>The first part of \<open>_cancel_scope\<close> and \<open>cancel_submit\<close>: the mark, before any retry is removed.\<close>

definition mark_scope :: "scope \<Rightarrow> nat \<Rightarrow> sub \<Rightarrow> sub" where
  "mark_scope keys c w =
     (case keys of
        None \<Rightarrow> set_ctx c ((ctx c w)\<lparr>sc_cancel_event := True\<rparr>) w
      | Some ks \<Rightarrow> set_ctx c ((ctx c w)\<lparr>sc_cancelled_keys := sc_cancelled_keys (ctx c w) \<union> ks\<rparr>) w)"

definition cancel_scope :: "clock \<Rightarrow> scope \<Rightarrow> nat \<Rightarrow> sub \<Rightarrow> sub" where
  "cancel_scope t keys c w = abort_retries t ''KILLED'' keys c (mark_scope keys c w)"

text \<open>What \<open>_wait_scope\<close> waits for.\<close>

definition scope_quiet :: "scope \<Rightarrow> nat \<Rightarrow> sub \<Rightarrow> bool" where
  "scope_quiet keys c w \<longleftrightarrow>
     (case keys of None \<Rightarrow> sc_inflight (ctx c w) = {} | Some ks \<Rightarrow> ks \<inter> sc_inflight (ctx c w) = {})"

definition cancel_submit :: "clock \<Rightarrow> jobset_id \<Rightarrow> sub \<Rightarrow> sub" where
  "cancel_submit t j w =
     (case dget (sb_contexts w) j of
        None \<Rightarrow> w
      | Some c \<Rightarrow> abort_retries t ''CANCELLED'' None c (mark_scope None c w))"

definition is_active :: "jobset_id \<Rightarrow> sub \<Rightarrow> bool" where
  "is_active j w \<longleftrightarrow> (case dget (sb_contexts w) j of None \<Rightarrow> False | Some c \<Rightarrow> \<not> sc_finished (ctx c w))"

definition progress_snapshot :: "jobset_id \<Rightarrow> sub \<Rightarrow> SubmitProgress option" where
  "progress_snapshot j w =
     (case dget (sb_contexts w) j of
        None \<Rightarrow> None
      | Some c \<Rightarrow>
          (let x = ctx c w
           in if sc_finished x then None
              else Some \<lparr> spg_jobset_id = j, spg_done = sc_done x, spg_total = sc_total x,
                          spg_succeeded = sc_succeeded x, spg_failed = sc_failed x, spg_cancelled = sc_cancelled x \<rparr>))"

text \<open>
  \<open>shutdown\<close> before and after the pools are joined.
\<close>

definition shutdown_begin :: "sub \<Rightarrow> sub" where
  "shutdown_begin w = fold (mark_scope None) (dvalues (sb_contexts w)) (w\<lparr>sb_shutdown := True\<rparr>)"

definition shutdown_end :: "clock \<Rightarrow> nat list \<Rightarrow> sub \<Rightarrow> sub" where
  "shutdown_end t contexts w = fold (abort_retries t ''SHUTDOWN'' None) contexts w"

section \<open>Starting a cycle\<close>

definition new_ctx :: "sub_config \<Rightarrow> jobset_id \<Rightarrow> nat \<Rightarrow> Options \<Rightarrow> nat \<Rightarrow> submit_ctx" where
  "new_ctx cfg j n opts token =
     \<lparr> sc_jobset_id = j, sc_total = int n, sc_slots = new_WorkerSlots (min (opt_workers opts) (sx_workers cfg)),
       sc_options = opts,
       sc_throttler = new_EmitThrottler (sx_progress_min_interval_s cfg) (sx_progress_min_step_ratio cfg),
       sc_log_sampler = new_LogSampler 20, sc_cancel_event = False, sc_done = 0, sc_succeeded = 0, sc_failed = 0,
       sc_cancelled = 0, sc_retried_keys = {}, sc_fail_reasons = [], sc_pending_retries = [], sc_finished = False,
       sc_changed_buffer = [], sc_gate_token = None, sc_arm_token = token, sc_cancelled_keys = {}, sc_inflight = {} \<rparr>"

definition new_context :: "sub_config \<Rightarrow> jobset_id \<Rightarrow> job_key list \<Rightarrow> Options \<Rightarrow> nat \<Rightarrow> sub \<Rightarrow> nat \<times> sub" where
  "new_context cfg j keys opts token w =
     (let c = length (sb_heap w); x = new_ctx cfg j (length keys) opts token;
          act = (sb_next w, \<lparr> act_cycle = c, act_timeout_s = opt_submit_timeout_s opts + 30 \<rparr>);
          (reg, g) = gate_register j keys act (sb_gate w);
          x1 = x\<lparr>sc_gate_token := rg_activity reg,
                 sc_cancel_event := (rg_activity reg = None),
                 sc_cancelled_keys := (if rg_activity reg = None then {} else rg_refused reg)\<rparr>
      in (c, w\<lparr>sb_heap := sb_heap w @ [x1], sb_contexts := dset j c (sb_contexts w), sb_gate := g,
               sb_next := Suc (sb_next w)\<rparr>))"

definition finish_forced :: "bool \<Rightarrow> bool \<Rightarrow> nat \<Rightarrow> sub \<Rightarrow> sub" where
  "finish_forced failed emit_finished c w =
     (let x = ctx c w
      in if sc_finished x then w
         else
           (let remaining = sc_total x - sc_done x;
                x1 = x\<lparr>sc_finished := True, sc_done := sc_total x\<rparr>;
                x2 = (if failed
                      then (let y = x1\<lparr>sc_failed := sc_failed x + remaining\<rparr>
                            in if remaining \<noteq> 0
                               then y\<lparr>sc_fail_reasons := dset ''PRE_SUBMIT_FAILED'' remaining (sc_fail_reasons x)\<rparr> else y)
                      else x1\<lparr>sc_cancelled := sc_cancelled x + remaining\<rparr>)
            in emit (if emit_finished then [SubFinished c (sc_jobset_id x) (make_report x2)] else []) (set_ctx c x2 w)))"

definition gate_reject :: "bool \<Rightarrow> nat \<Rightarrow> sub \<Rightarrow> sub" where
  "gate_reject finish c w =
     (let x = ctx c w
      in drop_ctx c (finish_forced False finish c
           (emit [SubGateRejected c (sc_jobset_id x) (sc_arm_token x)] w)))"

text \<open>The loop over the reset records of \<open>_gate_fail\<close>.\<close>

fun fail_stuck :: "clock \<Rightarrow> jobset_id \<Rightarrow> string \<Rightarrow> JobRecord list \<Rightarrow> sub \<Rightarrow> JobRecord list \<times> sub" where
  "fail_stuck t j msg [] w = ([], w)"
| "fail_stuck t j msg (r # rs) w =
     (let (res, w1) = on_store (transition (ck_wall t) j (jr_job_key r) (Some SUBMIT_FAILED)
             (Some (\<lambda>cur. same_execution cur r \<and> jr_state cur = SUBMITTING))
             [FFailReason (Some ''LAUNCH_FAILED''), FFailMessage (Some (take MAX_FAIL_MESSAGE_CHARS msg))]) w;
          (out, w2) = fail_stuck t j msg rs w1
      in (case res of Inr (Some new) \<Rightarrow> (new # out, w2) | _ \<Rightarrow> (out, w2)))"

definition gate_fail :: "clock \<Rightarrow> string \<Rightarrow> JobRecord list \<Rightarrow> nat \<Rightarrow> sub \<Rightarrow> sub" where
  "gate_fail t msg reset_recs c w =
     (let x = ctx c w; j = sc_jobset_id x; (stuck, w1) = fail_stuck t j msg reset_recs w
      in drop_ctx c (finish_forced True True c
           (emit ((if stuck \<noteq> [] then [SubJobsChanged c j stuck] else [])
                  @ [SubError c j (''pre_submit: '' @ msg), SubGateRejected c j (sc_arm_token x)]) w1)))"


text \<open>
  The launch: resetting the records, making the tasks, and the signals, in this order.
  \<open>fresh\<close> gives the new execution identifiers; the record of a key that may not be
  submitted is not touched.
\<close>

definition reset_fields :: "uuid \<Rightarrow> string list \<Rightarrow> field_update list" where
  "reset_fields uid item =
     [FJobId None, FExitCode None, FFailReason None, FFailMessage None, FKilled False, FGeneration uid,
      FRetryCount 0, FCommand (shlex_join item), FSubmitTime None, FRunTime None, FStartTime None,
      FFinishTime None, FSourceCluster None, FForwardCluster None]"

record launch_plan =
  lp_launch :: "(job_key \<times> string list \<times> string option) list"
  lp_reset :: "JobRecord list"
  lp_stale :: "int list"
  lp_skipped :: nat

fun reset_loop :: "clock \<Rightarrow> (job_key \<Rightarrow> uuid) \<Rightarrow> nat \<Rightarrow> job_key set \<Rightarrow> (job_key, JobRecord) dict
    \<Rightarrow> (job_key \<times> string list) list \<Rightarrow> launch_plan \<Rightarrow> sub \<Rightarrow> launch_plan \<times> sub" where
  "reset_loop t fresh c blocked previous [] lp w = (lp, w)"
| "reset_loop t fresh c blocked previous ((key, item) # rest) lp w =
     (if key \<in> blocked
      then reset_loop t fresh c blocked previous rest (lp\<lparr>lp_skipped := Suc (lp_skipped lp)\<rparr>) w
      else
        (case on_store (transition (ck_wall t) (sc_jobset_id (ctx c w)) key (Some SUBMITTING) None
                (reset_fields (fresh key) item)) w of
           (Inl e, w1) \<Rightarrow>
             reset_loop t fresh c blocked previous rest lp
               (count_units t 1 UnitCancelled [] c
                  (if RECORD_GONE e then w1 else emit [SubError c (sc_jobset_id (ctx c w)) key] w1))
         | (Inr None, w1) \<Rightarrow>
             reset_loop t fresh c blocked previous rest
               (lp\<lparr>lp_launch := lp_launch lp @ [(key, item, None)]\<rparr>) w1
         | (Inr (Some r), w1) \<Rightarrow>
             reset_loop t fresh c blocked previous rest
               (lp\<lparr>lp_launch := lp_launch lp @ [(key, item, jr_submit_cwd r)], lp_reset := lp_reset lp @ [r],
                   lp_stale := lp_stale lp @
                     (case dget previous key of
                        None \<Rightarrow> []
                      | Some old \<Rightarrow> (case jr_job_id old of None \<Rightarrow> [] | Some i \<Rightarrow> [i]))\<rparr>) w1))"

definition empty_plan :: launch_plan where
  "empty_plan = \<lparr> lp_launch = [], lp_reset = [], lp_stale = [], lp_skipped = 0 \<rparr>"

definition reset_records :: "clock \<Rightarrow> (job_key \<Rightarrow> uuid) \<Rightarrow> nat \<Rightarrow> (job_key \<times> string list) list \<Rightarrow> sub
    \<Rightarrow> launch_plan \<times> sub" where
  "reset_records t fresh c keyed w =
     (let blocked = sc_cancelled_keys (ctx c w);
          previous = get_jobs_by_keys (sc_jobset_id (ctx c w))
                       (filter (\<lambda>k. k \<notin> blocked) (map fst keyed)) (sb_store w);
          (lp, w1) = reset_loop t fresh c blocked previous keyed empty_plan w;
          w2 = (if lp_stale lp = [] then w1 else w1\<lparr>sb_forgotten := sb_forgotten w1 @ lp_stale lp\<rparr>)
      in (lp, count_units t (int (lp_skipped lp)) UnitCancelled [] c w2))"

definition make_resubmit_task :: "nat \<Rightarrow> job_key \<times> string list \<times> string option \<Rightarrow> submit_task" where
  "make_resubmit_task c l =
     (case l of (k, item, cwd) \<Rightarrow>
        \<lparr> tk_ctx = c, tk_key = k, tk_argv = item, tk_attempt = 0, tk_cwd = cwd \<rparr>)"

text \<open>\<open>fault\<close>: the text of an exception while the tasks are made, if there is one.\<close>

definition launch_cycle :: "clock \<Rightarrow> (job_key \<Rightarrow> uuid) \<Rightarrow> string option \<Rightarrow> nat \<Rightarrow> (job_key \<times> string list) list
    \<Rightarrow> sub \<Rightarrow> sub" where
  "launch_cycle t fresh fault c keyed w =
     (let j = sc_jobset_id (ctx c w); token = sc_arm_token (ctx c w);
          (lp, w1) = reset_records t fresh c keyed (emit [SubStarted c j] w);
          tasks = map (make_resubmit_task c) (lp_launch lp)
      in (case fault of
            Some msg \<Rightarrow> gate_fail t msg (lp_reset lp) c w1
          | None \<Rightarrow>
              if sc_finished (ctx c w1) then emit [SubGateRejected c j token] w1
              else
                (let w2 = emit (SubRecordsReset c j token (lp_reset lp)
                        # (if lp_reset lp \<noteq> [] then [SubJobsChanged c j (lp_reset lp)] else [])) w1;
                     w3 = w2\<lparr>sb_pool := sb_pool w2 @ zip tasks (map (\<lambda>i. - int i) [0..<length tasks])\<rparr>
                 in if lp_launch lp = [] then finish_if_done True c w3 else w3)))"

text \<open>
  The pre-submit gate of \<open>_LaunchTask.run\<close>, before the user's callback (\<open>None\<close>: the launch
  ends here) and after it; \<open>r\<close> is what the callback returned or raised, \<open>txt\<close> the text of the
  exception.
\<close>

definition pre_submit_begin :: "nat \<Rightarrow> sub \<Rightarrow> bool \<times> sub" where
  "pre_submit_begin c w =
     (let j = sc_jobset_id (ctx c w); w1 = emit [SubPreSubmitStarted c j] w
      in if sb_shutdown w1 \<or> sc_cancel_event (ctx c w1)
         then (False, gate_reject True c (emit [SubPreSubmitFinished c j False] w1))
         else (True, w1))"

definition pre_submit_end :: "sub_config \<Rightarrow> clock \<Rightarrow> (job_key \<Rightarrow> uuid) \<Rightarrow> string option \<Rightarrow> string \<Rightarrow> nat
    \<Rightarrow> (job_key \<times> string list) list \<Rightarrow> py_error + bool \<Rightarrow> sub \<Rightarrow> sub" where
  "pre_submit_end cfg t fresh fault txt c keyed r w =
     (let j = sc_jobset_id (ctx c w)
      in (case r of
            Inl e \<Rightarrow> gate_fail t txt [] c (emit [SubPreSubmitFinished c j False] w)
          | Inr ok \<Rightarrow>
              if ok \<and> (sc_cancel_event (ctx c w) \<or> sb_shutdown w)
              then gate_reject True c (emit [SubPreSubmitFinished c j False] w)
              else
                (let w1 = emit [SubPreSubmitFinished c j ok] w
                 in if \<not> ok then gate_reject (sx_submit_finished_on_gate_reject cfg) c w1
                    else launch_cycle t fresh fault c keyed w1)))"

definition launch_task :: "sub_config \<Rightarrow> clock \<Rightarrow> (job_key \<Rightarrow> uuid) \<Rightarrow> string option \<Rightarrow> string \<Rightarrow> nat
    \<Rightarrow> (job_key \<times> string list) list \<Rightarrow> (string list \<Rightarrow> sub \<Rightarrow> (bool, sub) outcome) option \<Rightarrow> sub \<Rightarrow> sub" where
  "launch_task cfg t fresh fault txt c keyed pre w =
     (case pre of
        None \<Rightarrow> launch_cycle t fresh fault c keyed w
      | Some f \<Rightarrow>
          (case pre_submit_begin c w of
             (False, w1) \<Rightarrow> w1
           | (True, w1) \<Rightarrow>
               (let (r, w2) = f (map (\<lambda>p. shlex_join (snd p)) keyed) w1
                in pre_submit_end cfg t fresh fault txt c keyed r w2)))"

text \<open>
  \<open>resubmit_existing\<close>: the context to launch, if the coordinator is to launch one.
\<close>

definition resubmit_existing :: "sub_config \<Rightarrow> jobset_id \<Rightarrow> (job_key \<times> string list) list \<Rightarrow> Options \<Rightarrow> nat \<Rightarrow> sub
    \<Rightarrow> nat option \<times> sub" where
  "resubmit_existing cfg j keyed opts token w =
     (if sb_shutdown w then (None, w)
      else
        (let (c, w1) = new_context cfg j (map fst keyed) opts token w
         in if sc_cancel_event (ctx c w1) then (None, gate_reject True c (emit [SubStarted c j] w1))
            else (Some c, w1)))"

end
