(* ===== verification/SubmitSettle.thy ===== *)
theory SubmitSettle
  imports Submitter
begin

text \<open>
  What the callbacks of \<open>Submitter\<close> do to the accounts of a cycle: each settles units of work
  of one context, leaves the others alone, and emits the completion signal exactly when it
  settles the last unit.
\<close>

section \<open>Settling units of work\<close>

text \<open>
  What every callback does to the accounts: it settles \<open>n\<close> units of context \<open>c\<close>, takes the
  keys \<open>K\<close> out of the submission section, and touches no other context, no waiting task and no
  pending retry. The completion signal is emitted exactly when the last unit is settled.
\<close>

definition reports :: "submit_event list \<Rightarrow> (nat \<times> SubmitReport) list" where
  "reports es = List.map_filter (\<lambda>e. case e of SubFinished c _ r \<Rightarrow> Some (c, r) | _ \<Rightarrow> None) es"

definition report_units :: "SubmitReport \<Rightarrow> int" where
  "report_units r = srp_succeeded r + srp_failed r + srp_cancelled r"

definition units_done :: "submit_ctx \<Rightarrow> int" where
  "units_done x = sc_succeeded x + sc_failed x + sc_cancelled x"

text \<open>The part of a context that counting does not touch.\<close>

definition fixed_part :: "submit_ctx \<Rightarrow> jobset_id \<times> int \<times> (job_key, pending_retry) dict \<times> bool \<times> job_key set \<times> Options" where
  "fixed_part x = (sc_jobset_id x, sc_total x, sc_pending_retries x, sc_cancel_event x, sc_cancelled_keys x, sc_options x)"

definition settles :: "nat \<Rightarrow> int \<Rightarrow> job_key set \<Rightarrow> sub \<Rightarrow> sub \<Rightarrow> bool" where
  "settles c n K w w' \<longleftrightarrow>
     length (sb_heap w') = length (sb_heap w) \<and> (\<forall>d. d \<noteq> c \<longrightarrow> ctx d w' = ctx d w) \<and>
     sb_pool w' = sb_pool w \<and> sb_shutdown w' = sb_shutdown w \<and>
     fixed_part (ctx c w') = fixed_part (ctx c w) \<and>
     sc_inflight (ctx c w') = sc_inflight (ctx c w) - K \<and>
     sc_done (ctx c w') = sc_done (ctx c w) + n \<and> units_done (ctx c w') = units_done (ctx c w) + n \<and>
     sc_finished (ctx c w') = (sc_finished (ctx c w) \<or> 0 < n \<and> sc_total (ctx c w) \<le> sc_done (ctx c w')) \<and>
     (\<exists>es. sb_events w' = sb_events w @ es \<and>
        (if sc_finished (ctx c w') \<and> \<not> sc_finished (ctx c w)
         then \<exists>r. reports es = [(c, r)] \<and> srp_total r = sc_total (ctx c w) \<and>
           (sc_done (ctx c w') \<le> sc_total (ctx c w) \<longrightarrow>
              report_units r = units_done (ctx c w) + sc_total (ctx c w) - sc_done (ctx c w))
         else reports es = []))"

lemma reports_simps [simp]:
  "reports [] = []" "reports (a @ b) = reports a @ reports b"
  "reports (SubFinished c j r # es) = (c, r) # reports es"
  "reports (SubProgress c j x y # es) = reports es" "reports (SubJobsChanged c j rs # es) = reports es"
  "reports (SubStarted c j # es) = reports es" "reports (SubError c j k # es) = reports es"
  "reports (SubRecordsReset c j i rs # es) = reports es" "reports (SubGateRejected c j i # es) = reports es"
  "reports (SubPreSubmitStarted c j # es) = reports es" "reports (SubPreSubmitFinished c j ok # es) = reports es"
  "reports (SubRetryRequested c k # es) = reports es"
  by (simp_all add: reports_def List.map_filter_def)

lemma fixed_partD:
  assumes "fixed_part x = fixed_part y"
  shows "sc_jobset_id x = sc_jobset_id y" "sc_total x = sc_total y" "sc_pending_retries x = sc_pending_retries y"
    "sc_cancel_event x = sc_cancel_event y" "sc_cancelled_keys x = sc_cancelled_keys y" "sc_options x = sc_options y"
  using assms by (simp_all add: fixed_part_def)

lemma settlesD:
  assumes "settles c n K w w'"
  shows "length (sb_heap w') = length (sb_heap w)" "d \<noteq> c \<Longrightarrow> ctx d w' = ctx d w" "sb_pool w' = sb_pool w"
    "sb_shutdown w' = sb_shutdown w" "fixed_part (ctx c w') = fixed_part (ctx c w)"
    "sc_inflight (ctx c w') = sc_inflight (ctx c w) - K" "sc_done (ctx c w') = sc_done (ctx c w) + n"
    "units_done (ctx c w') = units_done (ctx c w) + n"
    "sc_finished (ctx c w') = (sc_finished (ctx c w) \<or> 0 < n \<and> sc_total (ctx c w) \<le> sc_done (ctx c w'))"
    "\<exists>es. sb_events w' = sb_events w @ es \<and>
        (if sc_finished (ctx c w') \<and> \<not> sc_finished (ctx c w)
         then \<exists>r. reports es = [(c, r)] \<and> srp_total r = sc_total (ctx c w) \<and>
           (sc_done (ctx c w') \<le> sc_total (ctx c w) \<longrightarrow>
              report_units r = units_done (ctx c w) + sc_total (ctx c w) - sc_done (ctx c w))
         else reports es = [])"
  using assms unfolding settles_def by blast+

lemma settles_refl [simp]: "settles c 0 {} w w"
  by (simp add: settles_def)

lemma settles_trans:
  assumes "settles c m K w w1" and "settles c n L w1 w2" and "0 \<le> m" and "0 \<le> n"
  shows "settles c (m + n) (K \<union> L) w w2"
proof -
  note a = settlesD [OF assms(1)] and b = settlesD [OF assms(2)]
  note fa = fixed_partD [OF a(5)]
  obtain es where es: "sb_events w1 = sb_events w @ es"
    "if sc_finished (ctx c w1) \<and> \<not> sc_finished (ctx c w)
     then \<exists>r. reports es = [(c, r)] \<and> srp_total r = sc_total (ctx c w) \<and>
       (sc_done (ctx c w1) \<le> sc_total (ctx c w) \<longrightarrow>
          report_units r = units_done (ctx c w) + sc_total (ctx c w) - sc_done (ctx c w))
     else reports es = []" using a(10) by blast
  obtain es' where es': "sb_events w2 = sb_events w1 @ es'"
    "if sc_finished (ctx c w2) \<and> \<not> sc_finished (ctx c w1)
     then \<exists>r. reports es' = [(c, r)] \<and> srp_total r = sc_total (ctx c w1) \<and>
       (sc_done (ctx c w2) \<le> sc_total (ctx c w1) \<longrightarrow>
          report_units r = units_done (ctx c w1) + sc_total (ctx c w1) - sc_done (ctx c w1))
     else reports es' = []" using b(10) by blast
  have fin: "sc_finished (ctx c w2) = (sc_finished (ctx c w) \<or> 0 < m + n \<and> sc_total (ctx c w) \<le> sc_done (ctx c w2))"
    using a(7,9) b(7,9) fa(2) assms(3,4) by auto
  show ?thesis
    unfolding settles_def
  proof (intro conjI exI [of _ "es @ es'"] allI impI, goal_cases)
    case (2 d)
    with a(2) b(2) show ?case by simp
  next
    case 11
    then show ?case
      using es(2) es'(2) b(7,9) a(7,8,9) fa(2) assms(4) by (auto split: if_splits)
  qed (use a b es(1) es'(1) fin in auto)
qed


text \<open>The elementary writes.\<close>

lemma settles_same:
  assumes "sb_heap w' = sb_heap w" and "sb_pool w' = sb_pool w" and "sb_shutdown w' = sb_shutdown w"
    and "sb_events w' = sb_events w @ es" and "reports es = []"
  shows "settles c 0 {} w w'"
  unfolding settles_def using assms by simp

lemma settles_set_ctx:
  assumes "c < length (sb_heap w)" and "fixed_part x = fixed_part (ctx c w)" and "sc_inflight x = sc_inflight (ctx c w) - K"
    and "sc_done x = sc_done (ctx c w)" and "units_done x = units_done (ctx c w)" and "sc_finished x = sc_finished (ctx c w)"
  shows "settles c 0 K w (set_ctx c x w)"
  unfolding settles_def using assms by simp

lemma settles_emit: "reports es = [] \<Longrightarrow> settles c 0 {} w (emit es w)"
  by (rule settles_same [of _ _ es]) (simp_all add: emit_def)

lemma settles_on_store: "on_store f w = (r, w') \<Longrightarrow> settles c 0 {} w w'"
  by (rule settles_same [of _ _ "[]"]) (auto simp: on_store_def split: prod.splits)

lemma settles_drop_ctx: "settles c 0 {} w (drop_ctx d w)"
  by (rule settles_same [of _ _ "[]"]) (auto simp: drop_ctx_def Let_def)

lemma settles_0n: "settles c 0 K w w1 \<Longrightarrow> settles c n L w1 w2 \<Longrightarrow> 0 \<le> n \<Longrightarrow> settles c n (K \<union> L) w w2"
  using settles_trans [of c 0 K w w1 n L w2] by simp

lemma settles_n0: "settles c n K w w1 \<Longrightarrow> settles c 0 {} w1 w2 \<Longrightarrow> 0 \<le> n \<Longrightarrow> settles c n K w w2"
  using settles_trans [of c n K w w1 0 "{}" w2] by simp

lemma settles_n0K: "settles c n {} w w1 \<Longrightarrow> settles c 0 K w1 w2 \<Longrightarrow> 0 \<le> n \<Longrightarrow> settles c n K w w2"
  using settles_trans [of c n "{}" w w1 0 K w2] by simp

lemma settles_00: "settles c 0 K w w1 \<Longrightarrow> settles c 0 {} w1 w2 \<Longrightarrow> settles c 0 K w w2"
  by (rule settles_n0) simp_all

lemma settles_01: "settles c 0 {} w w1 \<Longrightarrow> settles c n K w1 w2 \<Longrightarrow> 0 \<le> n \<Longrightarrow> settles c n K w w2"
  using settles_0n [of c "{}" w w1 n K w2] by simp

lemma settles_length: "settles c n K w w' \<Longrightarrow> length (sb_heap w') = length (sb_heap w)"
  by (rule settlesD)

lemma settles_emit_progress:
  assumes "c < length (sb_heap w)"
  shows "settles c 0 {} w (emit_progress t progress c w)"
proof (cases "sc_finished (ctx c w)")
  case False
  let ?x = "ctx c w"
  obtain go th where th: "should_emit (ck_mono t) (sc_done ?x) (sc_total ?x) (sc_throttler ?x) = (go, th)"
    by (cases "should_emit (ck_mono t) (sc_done ?x) (sc_total ?x) (sc_throttler ?x)")
  show ?thesis
  proof (cases go)
    case True
    let ?es = "(if progress then [SubProgress c (sc_jobset_id ?x) (sc_done ?x) (sc_total ?x)] else [])
      @ (if sc_changed_buffer ?x \<noteq> [] then [SubJobsChanged c (sc_jobset_id ?x) (sc_changed_buffer ?x)] else [])"
    have "emit_progress t progress c w
        = emit ?es (set_ctx c (?x\<lparr>sc_throttler := th, sc_changed_buffer := []\<rparr>) w)"
      using False True th by (simp add: emit_progress_def Let_def)
    moreover have "settles c 0 {} w (set_ctx c (?x\<lparr>sc_throttler := th, sc_changed_buffer := []\<rparr>) w)"
      by (rule settles_set_ctx) (use assms in \<open>simp_all add: fixed_part_def units_done_def\<close>)
    moreover have "reports ?es = []" by simp
    ultimately show ?thesis by (metis settles_00 settles_emit)
  next
    case False
    with \<open>\<not> sc_finished ?x\<close> th have "emit_progress t progress c w = set_ctx c (?x\<lparr>sc_throttler := th\<rparr>) w"
      by (simp add: emit_progress_def Let_def)
    moreover have "settles c 0 {} w (set_ctx c (?x\<lparr>sc_throttler := th\<rparr>) w)"
      by (rule settles_set_ctx) (use assms in \<open>simp_all add: fixed_part_def units_done_def\<close>)
    ultimately show ?thesis by simp
  qed
qed (simp add: emit_progress_def)

lemma counted_simps [simp]:
  "fixed_part (counted n kind ch x) = fixed_part x" "sc_inflight (counted n kind ch x) = sc_inflight x"
  "sc_done (counted n kind ch x) = sc_done x + n" "units_done (counted n kind ch x) = units_done x + n"
  "sc_finished (counted n kind ch x) = sc_finished x" "sc_total (counted n kind ch x) = sc_total x"
  by (simp_all add: counted_def fixed_part_def units_done_def Let_def split: unit_kind.splits option.splits)

lemma finish_if_done_settles:
  assumes "c < length (sb_heap w)" and "sc_done (ctx c w) = sc_done (ctx c w0) + n"
    and "units_done (ctx c w) = units_done (ctx c w0) + n" and "0 < n"
    and "length (sb_heap w) = length (sb_heap w0)" and "\<And>d. d \<noteq> c \<Longrightarrow> ctx d w = ctx d w0"
    and "sb_pool w = sb_pool w0" and "sb_shutdown w = sb_shutdown w0"
    and "fixed_part (ctx c w) = fixed_part (ctx c w0)" and "sc_inflight (ctx c w) = sc_inflight (ctx c w0)"
    and "sc_finished (ctx c w) = sc_finished (ctx c w0)" and "sb_events w = sb_events w0 @ es" and "reports es = []"
  shows "settles c n {} w0 (finish_if_done False c w)"
proof (cases "sc_finished (ctx c w) \<or> sc_done (ctx c w) < sc_total (ctx c w)")
  case True
  then have "finish_if_done False c w = w" by (simp add: finish_if_done_def Let_def)
  then show ?thesis
    unfolding settles_def using assms True fixed_partD(2) [OF assms(9)] by auto
next
  case False
  let ?x = "ctx c w"
  let ?es = "(if sc_done ?x \<ge> sc_total ?x then [SubProgress c (sc_jobset_id ?x) (sc_total ?x) (sc_total ?x)] else [])
    @ (if sc_changed_buffer ?x \<noteq> [] then [SubJobsChanged c (sc_jobset_id ?x) (sc_changed_buffer ?x)] else [])
    @ [SubFinished c (sc_jobset_id ?x) (make_report ?x)]"
  let ?w = "emit ?es (set_ctx c (?x\<lparr>sc_finished := True, sc_changed_buffer := []\<rparr>) w)"
  have eq: "finish_if_done False c w = drop_ctx c ?w" using False by (simp add: finish_if_done_def Let_def)
  have c: "ctx c ?w = ?x\<lparr>sc_finished := True, sc_changed_buffer := []\<rparr>" using assms(1) by (simp add: emit_def)
  note tot = fixed_partD(2) [OF assms(9)]
  have nf: "\<not> sc_finished (ctx c w0)" and full: "sc_total (ctx c w0) \<le> sc_done ?x"
    using False assms(11) tot by auto
  have rep: "srp_total (make_report ?x) = sc_total (ctx c w0)" "report_units (make_report ?x) = units_done ?x"
    using tot by (simp_all add: make_report_def report_units_def units_done_def)
  have "settles c n {} w0 ?w"
    unfolding settles_def
  proof (intro conjI exI [of _ "es @ ?es"] allI impI, goal_cases)
    case (2 d)
    then show ?case using assms(6) [of d] by (simp add: emit_def)
  next
    case 11
    show ?case
      unfolding c using nf full rep assms(2,3) by (simp add: assms(13))
  next
    case 10
    show ?case using assms(12) by (simp add: emit_def)
  next
    case 9
    show ?case unfolding c using full assms(4) by simp
  next
    case 5
    show ?case unfolding c using assms(9) by (simp add: fixed_part_def)
  qed (unfold c, use assms(1-3,5,7,8,10) in \<open>simp_all add: emit_def units_done_def\<close>)
  then show ?thesis unfolding eq by (rule settles_n0) (use assms(4) in \<open>simp_all add: settles_drop_ctx\<close>)
qed

lemma settles_count:
  assumes "c < length (sb_heap w)" and "0 < n"
  shows "settles c n {} w (count_units t n kind ch c w)"
proof -
  let ?w1 = "set_ctx c (counted n kind ch (ctx c w)) w"
  note e = settlesD [OF settles_emit_progress [of c ?w1 t True]]
  have l: "c < length (sb_heap ?w1)" using assms by simp
  from e(10) [OF l] obtain es where es: "sb_events (emit_progress t True c ?w1) = sb_events ?w1 @ es" "reports es = []"
    using e(9) [OF l] by (auto split: if_splits)
  let ?w2 = "emit_progress t True c ?w1"
  have fin: "sc_finished (ctx c ?w2) = sc_finished (ctx c w)" using e(9) [OF l] assms(1) by simp
  have "settles c n {} w (finish_if_done False c ?w2)"
  proof (rule finish_if_done_settles [where es = es], goal_cases)
    case (6 d)
    with e(2) [OF l] show ?case by simp
  qed (use assms e(1,3-8) [OF l] es fin in simp_all)
  then show ?thesis using assms(2) by (simp add: count_units_def)
qed


section \<open>The callbacks\<close>

definition callback_ok :: "nat \<Rightarrow> sub \<Rightarrow> (unit, sub) outcome \<Rightarrow> bool" where
  "callback_ok c w out \<longleftrightarrow> settles c (if isl (fst out) then 0 else 1) {} w (snd out)"

lemma callback_ok_simps [simp]:
  "callback_ok c w (Inl e, w') \<longleftrightarrow> settles c 0 {} w w'" "callback_ok c w (Inr u, w') \<longleftrightarrow> settles c 1 {} w w'"
  by (simp_all add: callback_ok_def)

lemma callback_ok_after: "settles c 0 {} w w1 \<Longrightarrow> callback_ok c w1 out \<Longrightarrow> callback_ok c w out"
  unfolding callback_ok_def using settles_01 by force

lemma settles_note_transition:
  "c < length (sb_heap w) \<Longrightarrow> settles c 0 {} w (note_transition t ch c w)"
proof (cases ch)
  case (Some r)
  assume c: "c < length (sb_heap w)"
  let ?w = "set_ctx c ((ctx c w)\<lparr>sc_changed_buffer := sc_changed_buffer (ctx c w) @ [r]\<rparr>) w"
  have "settles c 0 {} w ?w"
    by (rule settles_set_ctx) (use c in \<open>simp_all add: fixed_part_def units_done_def\<close>)
  moreover have "settles c 0 {} ?w (emit_progress t False c ?w)"
    by (rule settles_emit_progress) (use c in simp)
  ultimately show ?thesis using Some settles_00 by (simp add: note_transition_def)
qed (simp add: note_transition_def)

lemma settles_log_failure: "c < length (sb_heap w) \<Longrightarrow> settles c 0 {} w (log_failure_ctx c lv reason w)"
  unfolding log_failure_ctx_def by (rule settles_set_ctx) (simp_all add: fixed_part_def units_done_def)

lemma settles_release_slot: "c < length (sb_heap w) \<Longrightarrow> settles c 0 {} w (release_slot c w)"
  unfolding release_slot_def by (rule settles_set_ctx) (simp_all add: fixed_part_def units_done_def)

lemma settles_leave: "c < length (sb_heap w) \<Longrightarrow> settles c 0 {k} w (leave_inflight c k w)"
  unfolding leave_inflight_def by (rule settles_set_ctx) (simp_all add: fixed_part_def units_done_def)

lemma settles_vanished: "c < length (sb_heap w) \<Longrightarrow> settles c 1 {} w (task_vanished t c w)"
  unfolding task_vanished_def by (rule settles_count) simp_all

text \<open>A store operation, then a count.\<close>

lemma settles_store_count:
  assumes "c < length (sb_heap w)" and "on_store f w = (r, w1)"
  shows "settles c 0 {} w w1" and "settles c 1 {} w (count_units t 1 kind ch c w1)"
proof -
  show s: "settles c 0 {} w w1" by (rule settles_on_store) (rule assms(2))
  show "settles c 1 {} w (count_units t 1 kind ch c w1)"
    by (rule settles_01 [OF s settles_count]) (use settles_length [OF s] assms(1) in simp_all)
qed

lemma ok_succeeded: "c < length (sb_heap w) \<Longrightarrow> callback_ok c w (task_succeeded t c k i w)"
  by (auto simp: task_succeeded_def task_vanished_def intro: settles_store_count split: prod.splits sum.splits)

lemma ok_mark_cancelled: "c < length (sb_heap w) \<Longrightarrow> callback_ok c w (mark_cancelled t c ks w)"
  by (auto simp: mark_cancelled_def intro: settles_store_count split: prod.splits sum.splits)

lemma ok_task_cancelled: "c < length (sb_heap w) \<Longrightarrow> callback_ok c w (task_cancelled t c k w)"
  by (simp add: task_cancelled_def ok_mark_cancelled)

definition rescheduled :: "submit_task \<Rightarrow> sub \<Rightarrow> (unit, sub) outcome \<Rightarrow> bool" where
  "rescheduled task w out \<longleftrightarrow>
     (\<exists>w1 delay. settles (tk_ctx task) 0 {} w w1 \<and>
        out = (Inr (), schedule_retry (tk_ctx task) (tk_key task) delay (task\<lparr>tk_attempt := Suc (tk_attempt task)\<rparr>) w1))"

lemma ok_task_failed:
  assumes "tk_ctx task < length (sb_heap w0)"
  shows "callback_ok (tk_ctx task) w0 (task_failed t task err w0) \<or> rescheduled task w0 (task_failed t task err w0)"
proof -
  let ?c = "tk_ctx task" and ?k = "tk_key task"
  define w where "w = log_failure_ctx ?c WARNING (se_fail_reason err) w0"
  have s: "settles ?c 0 {} w0 w" unfolding w_def by (rule settles_log_failure) (rule assms)
  have c: "?c < length (sb_heap w)" using settles_length [OF s] assms by simp
  let ?j = "sc_jobset_id (ctx ?c w)" and ?msg = "take MAX_FAIL_MESSAGE_CHARS (diagnostic err)"
  show ?thesis
  proof (cases "?k \<in> sc_cancelled_keys (ctx ?c w)")
    case True
    then show ?thesis
      using callback_ok_after [OF s ok_task_cancelled [OF c]] by (simp add: task_failed_def w_def [symmetric])
  next
    case nc: False
    show ?thesis
    proof (cases "se_retryable err \<and> int (tk_attempt task) < opt_max_retry (sc_options (ctx ?c w))
                 \<and> \<not> sc_cancel_event (ctx ?c w) \<and> \<not> sb_shutdown w")
      case True
      obtain r w1 where r: "on_store (transition (ck_wall t) ?j ?k (Some RETRY_WAIT) None
          [FRetryCount (Suc (tk_attempt task)), FFailReason (Some (se_fail_reason err)), FFailMessage (Some ?msg)]) w
        = (r, w1)" by (cases "on_store (transition (ck_wall t) ?j ?k (Some RETRY_WAIT) None
          [FRetryCount (Suc (tk_attempt task)), FFailReason (Some (se_fail_reason err)), FFailMessage (Some ?msg)]) w")
      note st = settles_store_count [OF c r]
      show ?thesis
      proof (cases r)
        case (Inl e)
        have "callback_ok ?c w (task_failed t task err w0)"
          using nc True r Inl st by (simp add: task_failed_def w_def [symmetric] Let_def task_vanished_def)
        with callback_ok_after [OF s] show ?thesis by blast
      next
        case (Inr waiting)
        let ?w1 = "set_ctx ?c ((ctx ?c w1)\<lparr>sc_retried_keys := insert ?k (sc_retried_keys (ctx ?c w1))\<rparr>) w1"
        let ?w2 = "note_transition t waiting ?c ?w1"
        have c1: "?c < length (sb_heap w1)" using settles_length [OF st(1)] c by simp
        have "settles ?c 0 {} w1 ?w1"
          by (rule settles_set_ctx) (use c1 in \<open>simp_all add: fixed_part_def units_done_def\<close>)
        moreover have "settles ?c 0 {} ?w1 ?w2" by (rule settles_note_transition) (use c1 in simp)
        ultimately have s2: "settles ?c 0 {} w0 ?w2" using s st(1) settles_00 by blast
        have eq: "task_failed t task err w0 =
            (case retry_delay_s (sc_options (ctx ?c ?w2)) (tk_attempt task) of
               Inl e \<Rightarrow> (Inl e, ?w2)
             | Inr delay \<Rightarrow> (Inr (), schedule_retry ?c ?k delay (task\<lparr>tk_attempt := Suc (tk_attempt task)\<rparr>) ?w2))"
          using nc True r Inr by (simp add: task_failed_def w_def [symmetric] Let_def)
        show ?thesis
        proof (cases "retry_delay_s (sc_options (ctx ?c ?w2)) (tk_attempt task)")
          case (Inl e)
          with eq s2 show ?thesis by simp
        next
          case (Inr delay)
          with eq s2 show ?thesis unfolding rescheduled_def by (metis sum.case(2))
        qed
      qed
    next
      case False
      let ?w1 = "log_failure_ctx ?c ERROR (se_fail_reason err) w"
      have s1: "settles ?c 0 {} w ?w1" by (rule settles_log_failure) (rule c)
      have c1: "?c < length (sb_heap ?w1)" using settles_length [OF s1] c by simp
      have "callback_ok ?c ?w1 (task_failed t task err w0)"
        using nc False
        by (auto simp: task_failed_def w_def [symmetric] Let_def task_vanished_def
            intro: settles_store_count [OF c1] split: prod.splits sum.splits)
      with callback_ok_after [OF s1] callback_ok_after [OF s] show ?thesis by blast
    qed
  qed
qed

lemma settles_crashed: "c < length (sb_heap w) \<Longrightarrow> settles c 1 {} w (task_crashed t txt c k e w)"
proof -
  assume c: "c < length (sb_heap w)"
  obtain r w1 where r: "on_store (transition (ck_wall t) (sc_jobset_id (ctx c w)) k (Some SUBMIT_FAILED)
      (Some (\<lambda>cur. jr_job_id cur = None))
      [FFailReason (Some ''INTERNAL_ERROR''), FFailMessage (Some (take MAX_FAIL_MESSAGE_CHARS txt))]) w = (r, w1)"
    by (cases "on_store (transition (ck_wall t) (sc_jobset_id (ctx c w)) k (Some SUBMIT_FAILED)
      (Some (\<lambda>cur. jr_job_id cur = None))
      [FFailReason (Some ''INTERNAL_ERROR''), FFailMessage (Some (take MAX_FAIL_MESSAGE_CHARS txt))]) w")
  let ?w2 = "emit [SubError c (sc_jobset_id (ctx c w)) (k @ '': '' @ txt)] w1"
  have s: "settles c 0 {} w ?w2" by (rule settles_00 [OF settles_on_store [OF r] settles_emit]) simp
  show ?thesis
  proof (cases "RECORD_GONE e")
    case False
    have "settles c 1 {} w (count_units t 1 (UnitFailed (Some ''INTERNAL_ERROR''))
        (case r of Inr (Some nr) \<Rightarrow> [nr] | _ \<Rightarrow> []) c ?w2)"
      by (rule settles_01 [OF s settles_count]) (use settles_length [OF s] c in simp_all)
    with False r show ?thesis by (simp add: task_crashed_def Let_def)
  qed (use c settles_vanished in \<open>simp add: task_crashed_def\<close>)
qed

lemma settles_guard_task:
  assumes "c < length (sb_heap w)" and "callback_ok c w out"
  shows "settles c 1 {k} w (guard_task t txt c k out)"
proof -
  obtain r w1 where out: "out = (r, w1)" by (cases out)
  let ?w2 = "case out of (Inr _, w) \<Rightarrow> w | (Inl e, w) \<Rightarrow> task_crashed t txt c k e w"
  have "settles c 1 {} w ?w2"
  proof (cases r)
    case (Inl e)
    with assms(2) out have s: "settles c 0 {} w w1" by simp
    have "settles c 1 {} w1 (task_crashed t txt c k e w1)"
      by (rule settles_crashed) (use settles_length [OF s] assms(1) in simp)
    with s settles_01 out Inl show ?thesis by simp
  qed (use assms(2) out in simp)
  note s = this
  show ?thesis
    unfolding guard_task_def
    by (rule settles_n0K [OF s settles_leave]) (use settles_length [OF s] assms(1) in simp_all)
qed

lemma ok_release_after: "c < length (sb_heap w) \<Longrightarrow> callback_ok c w out \<Longrightarrow> callback_ok c w (release_after c out)"
  unfolding callback_ok_def release_after_def fst_conv snd_conv
  by (rule settles_n0, assumption, rule settles_release_slot) (auto dest: settles_length)

lemma settles_finalize: "c < length (sb_heap w) \<Longrightarrow> settles c 1 {} w (finalize_retry t reason c entry w)"
  by (auto simp: finalize_retry_def Let_def intro: settles_count settles_store_count split: sum.splits prod.splits option.splits)

end
