(* ===== verification/SubmitCycle.thy ===== *)
theory SubmitCycle
  imports SubmitSettle
begin

text \<open>
  The life of submit cycles: they run as interleaved steps of their tasks, timers,
  cancellations and kills; over every interleaving the accounts balance, each cycle reports its
  completion once, and a kill that waited for its scope to be quiet can rely on it.
\<close>

section \<open>Cycles as interleaved steps\<close>

text \<open>
  The submitter with its threads: the tasks a worker has picked up, the retries taken out of a
  ledger and not yet finalized, and the contexts whose launch has not run. Every step is one
  callback, for any task, timer or caller, with any clock, any result of the wrapper and any
  change of the store and the gate by other components in between.
\<close>

record cycle_world =
  cw_sub :: sub
  cw_running :: "(submit_task \<times> task_phase) list"
  cw_popped :: "(nat \<times> pending_retry \<times> string) list"
  cw_launching :: "(nat \<times> (job_key \<times> string list) list) list"

abbreviation now_running :: "submit_task \<Rightarrow> task_phase option \<Rightarrow> (submit_task \<times> task_phase) list" where
  "now_running task ph \<equiv> (case ph of None \<Rightarrow> [] | Some p \<Rightarrow> [(task, p)])"

inductive cycle_step :: "sub_config \<Rightarrow> cycle_world \<Rightarrow> cycle_world \<Rightarrow> bool" for cfg where
  step_submit: "distinct (map fst keyed) \<Longrightarrow> resubmit_existing cfg j keyed opts token (cw_sub m) = (r, w') \<Longrightarrow>
    cycle_step cfg m (m\<lparr>cw_sub := w',
      cw_launching := cw_launching m @ (case r of None \<Rightarrow> [] | Some c \<Rightarrow> [(c, keyed)])\<rparr>)"
| step_gate_begin: "cw_launching m = a @ (c, keyed) # b \<Longrightarrow> pre_submit_begin c (cw_sub m) = (go, w') \<Longrightarrow>
    cycle_step cfg m (m\<lparr>cw_sub := w', cw_launching := (if go then cw_launching m else a @ b)\<rparr>)"
| step_gate_end: "cw_launching m = a @ (c, keyed) # b \<Longrightarrow>
    cycle_step cfg m (m\<lparr>cw_sub := pre_submit_end cfg t fresh fault txt c keyed r (cw_sub m), cw_launching := a @ b\<rparr>)"
| step_launch: "cw_launching m = a @ (c, keyed) # b \<Longrightarrow>
    cycle_step cfg m (m\<lparr>cw_sub := launch_cycle t fresh fault c keyed (cw_sub m), cw_launching := a @ b\<rparr>)"
| step_begin: "sb_pool (cw_sub m) = a @ (task, prio) # b \<Longrightarrow>
    task_begin t txt task ((cw_sub m)\<lparr>sb_pool := a @ b\<rparr>) = (ph, w') \<Longrightarrow>
    cycle_step cfg m (m\<lparr>cw_sub := w', cw_running := cw_running m @ now_running task ph\<rparr>)"
| step_acquire: "cw_running m = a @ (task, WaitingSlot) # b \<Longrightarrow> task_acquire t txt task (cw_sub m) = (ph, w') \<Longrightarrow>
    cycle_step cfg m (m\<lparr>cw_sub := w', cw_running := a @ now_running task ph @ b\<rparr>)"
| step_finish: "cw_running m = a @ (task, Executing) # b \<Longrightarrow>
    cycle_step cfg m (m\<lparr>cw_sub := task_finish t txt task r (cw_sub m), cw_running := a @ b\<rparr>)"
| step_timer: "c < length (sb_heap (cw_sub m)) \<Longrightarrow>
    cycle_step cfg m (m\<lparr>cw_sub := on_retry_requested t c k (cw_sub m)\<rparr>)"
| step_fire: "c < length (sb_heap (cw_sub m)) \<Longrightarrow> cycle_step cfg m (m\<lparr>cw_sub := retry_fire t c k (cw_sub m)\<rparr>)"
| step_mark: "c < length (sb_heap (cw_sub m)) \<Longrightarrow> cycle_step cfg m (m\<lparr>cw_sub := mark_scope keys c (cw_sub m)\<rparr>)"
| step_pop: "c < length (sb_heap (cw_sub m)) \<Longrightarrow> pop_retries keys c (cw_sub m) = (entries, w') \<Longrightarrow>
    cycle_step cfg m (m\<lparr>cw_sub := w', cw_popped := cw_popped m @ map (\<lambda>e. (c, e, reason)) entries\<rparr>)"
| step_finalize: "cw_popped m = a @ (c, e, reason) # b \<Longrightarrow>
    cycle_step cfg m (m\<lparr>cw_sub := finalize_retry t reason c e (cw_sub m), cw_popped := a @ b\<rparr>)"
| step_shutdown: "cycle_step cfg m (m\<lparr>cw_sub := (cw_sub m)\<lparr>sb_shutdown := True\<rparr>\<rparr>)"
| step_world: "cycle_step cfg m (m\<lparr>cw_sub := (cw_sub m)\<lparr>sb_store := s, sb_gate := g\<rparr>\<rparr>)"

definition cycle_start :: cycle_world where
  "cycle_start =
     \<lparr> cw_sub = \<lparr> sb_store = empty_store, sb_gate = new_SubmitGate, sb_heap = [], sb_contexts = [],
                 sb_shutdown = False, sb_pool = [], sb_timers = [], sb_forgotten = [], sb_events = [], sb_next = 0 \<rparr>,
       cw_running = [], cw_popped = [], cw_launching = [] \<rparr>"

abbreviation cycle_reach :: "sub_config \<Rightarrow> cycle_world \<Rightarrow> bool" where
  "cycle_reach cfg \<equiv> (cycle_step cfg)\<^sup>*\<^sup>* cycle_start"

section \<open>The accounts\<close>

text \<open>The keys of the units of a context that are not settled yet, wherever they wait.\<close>

definition task_keys :: "nat \<Rightarrow> submit_task list \<Rightarrow> job_key multiset" where
  "task_keys c ts = image_mset tk_key (filter_mset (\<lambda>t. tk_ctx t = c) (mset ts))"

definition launch_keys :: "nat \<Rightarrow> (nat \<times> (job_key \<times> string list) list) list \<Rightarrow> job_key multiset" where
  "launch_keys c ls = sum_list (map (\<lambda>(d, keyed). if d = c then mset (map fst keyed) else {#}) ls)"

definition popped_keys :: "nat \<Rightarrow> (nat \<times> pending_retry \<times> string) list \<Rightarrow> job_key multiset" where
  "popped_keys c ps = sum_list (map (\<lambda>(d, e, _). if d = c then {#pr_key e#} else {#}) ps)"

definition open_units :: "nat \<Rightarrow> cycle_world \<Rightarrow> job_key multiset" where
  "open_units c m =
     task_keys c (map fst (sb_pool (cw_sub m))) + task_keys c (map fst (cw_running m))
     + mset (dkeys (sc_pending_retries (ctx c (cw_sub m)))) + popped_keys c (cw_popped m) + launch_keys c (cw_launching m)"

lemma keys_simps [simp]:
  "task_keys c [] = {#}" "task_keys c (task # ts) = (if tk_ctx task = c then {#tk_key task#} else {#}) + task_keys c ts"
  "task_keys c (ts @ us) = task_keys c ts + task_keys c us"
  "launch_keys c [] = {#}" "launch_keys c ((d, keyed) # ls) = (if d = c then mset (map fst keyed) else {#}) + launch_keys c ls"
  "launch_keys c (ls @ ks) = launch_keys c ls + launch_keys c ks"
  "popped_keys c [] = {#}" "popped_keys c ((d, e, r) # ps) = (if d = c then {#pr_key e#} else {#}) + popped_keys c ps"
  "popped_keys c (ps @ qs) = popped_keys c ps + popped_keys c qs"
  by (simp_all add: task_keys_def launch_keys_def popped_keys_def)

definition reports_of :: "nat \<Rightarrow> sub \<Rightarrow> SubmitReport list" where
  "reports_of c w = map snd (filter (\<lambda>p. fst p = c) (reports (sb_events w)))"

definition acct_inv :: "bool \<Rightarrow> submit_ctx \<Rightarrow> job_key multiset \<Rightarrow> bool \<Rightarrow> SubmitReport list \<Rightarrow> bool" where
  "acct_inv loud x u launching rs \<longleftrightarrow>
     units_done x = sc_done x \<and> sc_done x + int (size u) = sc_total x \<and> (\<forall>k. count u k \<le> 1) \<and>
     (sc_finished x \<longleftrightarrow> u = {#} \<and> \<not> launching) \<and>
     length rs \<le> 1 \<and> (rs \<noteq> [] \<longrightarrow> sc_finished x) \<and> (loud \<longrightarrow> sc_finished x \<longrightarrow> rs \<noteq> []) \<and>
     (\<forall>r\<in>set rs. srp_total r = sc_total x \<and> report_units r = sc_total x) \<and>
     (\<forall>(k, e)\<in>set (sc_pending_retries x). pr_key e = k \<and> tk_key (pr_task e) = k)"

lemma acct_settle:
  assumes "acct_inv loud (ctx c w) (u + v) False (reports_of c w)" and "settles c n K w w'" and "int (size v) = n"
  shows "acct_inv loud (ctx c w') u False (reports_of c w')"
proof -
  note a = settlesD [OF assms(2)] and f = fixed_partD [OF settlesD(5) [OF assms(2)]]
  note i = assms(1) [unfolded acct_inv_def]
  have tot: "sc_done (ctx c w') + int (size u) = sc_total (ctx c w)" using i a(7) assms(3) by simp
  then have le: "sc_done (ctx c w') \<le> sc_total (ctx c w)" by simp
  have full: "sc_total (ctx c w) \<le> sc_done (ctx c w') \<longleftrightarrow> u = {#}"
  proof -
    have "sc_total (ctx c w) \<le> sc_done (ctx c w') \<longleftrightarrow> size u = 0" using tot by linarith
    then show ?thesis by simp
  qed
  have n0: "n = 0 \<longleftrightarrow> v = {#}" using assms(3) by auto
  have fin: "sc_finished (ctx c w') \<longleftrightarrow> u = {#}" using i a(9) full n0 assms(3) by auto
  obtain es where es: "sb_events w' = sb_events w @ es"
    "if sc_finished (ctx c w') \<and> \<not> sc_finished (ctx c w)
     then \<exists>r. reports es = [(c, r)] \<and> srp_total r = sc_total (ctx c w) \<and>
           (sc_done (ctx c w') \<le> sc_total (ctx c w) \<longrightarrow>
              report_units r = units_done (ctx c w) + sc_total (ctx c w) - sc_done (ctx c w))
     else reports es = []" using a(10) by blast
  have rep: "reports_of c w' = reports_of c w @ map snd (filter (\<lambda>p. fst p = c) (reports es))"
    using es(1) by (simp add: reports_of_def)
  have cnt: "\<forall>k. count u k \<le> 1" using i by (metis count_union le_trans le_add1)
  show ?thesis
  proof (cases "sc_finished (ctx c w') \<and> \<not> sc_finished (ctx c w)")
    case True
    with es(2) le obtain r where r: "reports es = [(c, r)]" "srp_total r = sc_total (ctx c w)"
      "report_units r = units_done (ctx c w) + sc_total (ctx c w) - sc_done (ctx c w)" by auto
    have none: "reports_of c w = []" using i True by auto
    with rep r(1) have rs: "reports_of c w' = [r]" by simp
    have "units_done (ctx c w) = sc_done (ctx c w)" using i by simp
    then show ?thesis
      unfolding acct_inv_def rs using r(2,3) True tot cnt fin f(2,3) a(7,8) i by simp
  next
    case False
    with es(2) rep have rs: "reports_of c w' = reports_of c w" by simp
    have same: "sc_finished (ctx c w') = sc_finished (ctx c w)" using False a(9) by auto
    show ?thesis
      unfolding acct_inv_def rs using tot cnt fin f(2,3) a(7,8) i same by (simp, blast)
  qed
qed


section \<open>The invariant of the steps\<close>

definition in_launch :: "nat \<Rightarrow> cycle_world \<Rightarrow> bool" where
  "in_launch c m \<longleftrightarrow> c \<in> fst ` set (cw_launching m)"

definition tasks_of :: "cycle_world \<Rightarrow> submit_task set" where
  "tasks_of m = fst ` set (sb_pool (cw_sub m)) \<union> fst ` set (cw_running m)"

definition ctx_inv :: "bool \<Rightarrow> cycle_world \<Rightarrow> nat \<Rightarrow> bool" where
  "ctx_inv loud m c \<longleftrightarrow>
     acct_inv loud (ctx c (cw_sub m)) (open_units c m) (in_launch c m) (reports_of c (cw_sub m)) \<and>
     (\<forall>(k, e)\<in>set (sc_pending_retries (ctx c (cw_sub m))). tk_ctx (pr_task e) = c)"

definition cycle_inv :: "bool \<Rightarrow> cycle_world \<Rightarrow> bool" where
  "cycle_inv loud m \<longleftrightarrow>
     (let n = length (sb_heap (cw_sub m))
      in (\<forall>t\<in>tasks_of m. tk_ctx t < n) \<and> (\<forall>p\<in>set (cw_popped m). fst p < n) \<and>
         (\<forall>l\<in>set (cw_launching m). fst l < n \<and> open_units (fst l) m = mset (map fst (snd l))) \<and>
         distinct (map fst (cw_launching m)) \<and>
         (\<forall>p\<in>set (reports (sb_events (cw_sub m))). fst p < n) \<and>
         (\<forall>c<n. ctx_inv loud m c) \<and>
         (\<forall>p\<in>set (cw_running m). tk_key (fst p) \<in> sc_inflight (ctx (tk_ctx (fst p)) (cw_sub m))))"

lemma cycle_invD:
  assumes "cycle_inv loud m"
  shows "t \<in> tasks_of m \<Longrightarrow> tk_ctx t < length (sb_heap (cw_sub m))"
    "p \<in> set (cw_popped m) \<Longrightarrow> fst p < length (sb_heap (cw_sub m))"
    "(c, keyed) \<in> set (cw_launching m) \<Longrightarrow> c < length (sb_heap (cw_sub m)) \<and> open_units c m = mset (map fst keyed)"
    "distinct (map fst (cw_launching m))"
    "q \<in> set (reports (sb_events (cw_sub m))) \<Longrightarrow> fst q < length (sb_heap (cw_sub m))"
    "c < length (sb_heap (cw_sub m)) \<Longrightarrow> ctx_inv loud m c"
    "(t, ph) \<in> set (cw_running m) \<Longrightarrow> tk_key t \<in> sc_inflight (ctx (tk_ctx t) (cw_sub m))"
  using assms unfolding cycle_inv_def Let_def by force+

lemma cycle_inv_ctx:
  assumes inv: "cycle_inv loud m" and c: "c < length (sb_heap (cw_sub m))"
    and len: "length (sb_heap (cw_sub m')) = length (sb_heap (cw_sub m))"
    and others: "\<And>d. d \<noteq> c \<Longrightarrow> ctx d (cw_sub m') = ctx d (cw_sub m) \<and> open_units d m' = open_units d m \<and>
       reports_of d (cw_sub m') = reports_of d (cw_sub m)"
    and here: "ctx_inv loud m' c"
    and rep: "fst ` set (reports (sb_events (cw_sub m'))) \<subseteq> insert c (fst ` set (reports (sb_events (cw_sub m))))"
    and tasks: "\<And>t. t \<in> tasks_of m' \<Longrightarrow> tk_ctx t = c \<or> t \<in> tasks_of m"
    and popped: "\<And>p. p \<in> set (cw_popped m') \<Longrightarrow> fst p = c \<or> p \<in> set (cw_popped m)"
    and launch: "cw_launching m' = filter (\<lambda>l. fst l \<noteq> c \<or> keep) (cw_launching m)"
      "keep \<Longrightarrow> in_launch c m \<Longrightarrow> open_units c m' = open_units c m"
    and run: "\<And>t ph. (t, ph) \<in> set (cw_running m') \<Longrightarrow>
       (if tk_ctx t = c then tk_key t \<in> sc_inflight (ctx c (cw_sub m')) else t \<in> fst ` set (cw_running m))"
  shows "cycle_inv loud m'"
proof -
  note D = cycle_invD [OF inv]
  have lset: "set (cw_launching m') \<subseteq> set (cw_launching m)" using launch(1) by auto
  have inl: "in_launch d m' = in_launch d m" if "d \<noteq> c" for d
    using that unfolding in_launch_def launch(1) by force
  show ?thesis
    unfolding cycle_inv_def Let_def len
  proof (intro conjI ballI allI impI, goal_cases)
    case (1 t)
    then show ?case using tasks [of t] c D(1) by auto
  next
    case (2 p)
    then show ?case using popped [OF 2] c D(2) [of p] by blast
  next
    case (3 l)
    then show ?case using lset D(3) [of "fst l" "snd l"] by auto
  next
    case (4 l)
    then have l: "(fst l, snd l) \<in> set (cw_launching m)" using lset by auto
    show ?case
    proof (cases "fst l = c")
      case True
      with 4 launch(1) have "keep" by auto
      moreover have "in_launch c m" using l True unfolding in_launch_def by force
      ultimately show ?thesis using launch(2) D(3) [OF l] True by simp
    next
      case False
      then show ?thesis using others D(3) [OF l] by simp
    qed
  next
    case 5
    then show ?case unfolding launch(1) using D(4) by (simp add: distinct_map_filter)
  next
    case (6 p)
    then have "fst p \<in> insert c (fst ` set (reports (sb_events (cw_sub m))))" using rep by blast
    then show ?case using c D(5) by auto
  next
    case (7 d)
    show ?case
    proof (cases "d = c")
      case False
      then show ?thesis using D(6) [OF 7] others [OF False] inl [OF False] by (simp add: ctx_inv_def)
    qed (use here in simp)
  next
    case (8 p)
    then have p: "(fst p, snd p) \<in> set (cw_running m')" by simp
    show ?case
    proof (cases "tk_ctx (fst p) = c")
      case False
      then obtain ph where "(fst p, ph) \<in> set (cw_running m)" using run [OF p] by auto
      from D(7) [OF this] show ?thesis using others [OF False] by simp
    qed (use run [OF p] in simp)
  qed
qed


text \<open>
  The common case: starting from \<open>w0\<close>, which differs from the submitter only outside the
  accounts, units of one context are settled and leave the places they waited in.
\<close>

definition same_accounts :: "nat \<Rightarrow> sub \<Rightarrow> sub \<Rightarrow> bool" where
  "same_accounts c w w0 \<longleftrightarrow>
     length (sb_heap w0) = length (sb_heap w) \<and> (\<forall>d. d \<noteq> c \<longrightarrow> ctx d w0 = ctx d w) \<and>
     sb_events w0 = sb_events w \<and>
     sc_done (ctx c w0) = sc_done (ctx c w) \<and> units_done (ctx c w0) = units_done (ctx c w) \<and>
     sc_total (ctx c w0) = sc_total (ctx c w) \<and> sc_finished (ctx c w0) = sc_finished (ctx c w) \<and>
     sc_pending_retries (ctx c w0) = sc_pending_retries (ctx c w)"

lemma same_accounts_refl [simp]: "same_accounts c w w"
  by (simp add: same_accounts_def)

lemma acct_inv_cong:
  assumes "same_accounts c w w0"
  shows "acct_inv loud (ctx c w0) u l (reports_of c w0) = acct_inv loud (ctx c w) u l (reports_of c w)"
  using assms by (simp add: same_accounts_def acct_inv_def reports_of_def)

lemma settles_reports:
  assumes "settles c n K w w'"
  shows "d \<noteq> c \<Longrightarrow> reports_of d w' = reports_of d w"
    and "fst ` set (reports (sb_events w')) \<subseteq> insert c (fst ` set (reports (sb_events w)))"
proof -
  obtain es where es: "sb_events w' = sb_events w @ es" "\<forall>p\<in>set (reports es). fst p = c"
    using settlesD(10) [OF assms] by (auto split: if_splits)
  then show "reports_of d w' = reports_of d w" if "d \<noteq> c"
    using that by (auto simp: reports_of_def filter_empty_conv)
  show "fst ` set (reports (sb_events w')) \<subseteq> insert c (fst ` set (reports (sb_events w)))"
    using es by auto
qed

lemma cycle_inv_settle:
  assumes inv: "cycle_inv loud m" and c: "c < length (sb_heap (cw_sub m))"
    and same: "same_accounts c (cw_sub m) w0" and s: "settles c n K w0 (cw_sub m')"
    and units: "open_units c m = open_units c m' + v" "int (size v) = n" "\<not> in_launch c m"
    and launch: "cw_launching m' = cw_launching m"
    and others: "\<And>d. d \<noteq> c \<Longrightarrow> open_units d m' = open_units d m"
    and tasks: "tasks_of m' \<subseteq> tasks_of m" and popped: "set (cw_popped m') \<subseteq> set (cw_popped m)"
    and run: "\<And>t ph. (t, ph) \<in> set (cw_running m') \<Longrightarrow>
       (if tk_ctx t = c then tk_key t \<in> sc_inflight (ctx c (cw_sub m')) else t \<in> fst ` set (cw_running m))"
  shows "cycle_inv loud m'"
proof -
  note S = settlesD [OF s] and F = fixed_partD [OF settlesD(5) [OF s]] and D = cycle_invD [OF inv]
  have eq: "length (sb_heap w0) = length (sb_heap (cw_sub m))" "sb_events w0 = sb_events (cw_sub m)"
    "sc_pending_retries (ctx c w0) = sc_pending_retries (ctx c (cw_sub m))"
    and eqd: "\<And>d. d \<noteq> c \<Longrightarrow> ctx d w0 = ctx d (cw_sub m)"
    using same by (simp_all add: same_accounts_def)
  have nl: "\<not> in_launch c m'" using units(3) launch by (simp add: in_launch_def)
  have ci: "ctx_inv loud m c" by (rule D(6) [OF c])
  then have "acct_inv loud (ctx c w0) (open_units c m' + v) False (reports_of c w0)"
    using acct_inv_cong [OF same] units by (simp add: ctx_inv_def)
  from acct_settle [OF this s units(2)]
  have "acct_inv loud (ctx c (cw_sub m')) (open_units c m') (in_launch c m') (reports_of c (cw_sub m'))"
    using nl by simp
  moreover have "sc_pending_retries (ctx c (cw_sub m')) = sc_pending_retries (ctx c (cw_sub m))"
    using F(3) eq(3) by simp
  ultimately have here: "ctx_inv loud m' c" using ci by (simp add: ctx_inv_def)
  have rep: "reports_of d w0 = reports_of d (cw_sub m)" for d using eq(2) by (simp add: reports_of_def)
  show ?thesis
  proof (rule cycle_inv_ctx [OF inv c _ _ here, where keep = True], goal_cases)
    case 1
    then show ?case using S(1) eq(1) by simp
  next
    case (2 d)
    then show ?case using S(2) [OF 2] eqd [OF 2] others [OF 2] settles_reports(1) [OF s 2] rep by simp
  next
    case 3
    then show ?case using settles_reports(2) [OF s] eq(2) by simp
  next
    case (4 t)
    then show ?case using tasks by blast
  next
    case (5 p)
    then show ?case using popped by blast
  next
    case 6
    then show ?case using launch by simp
  next
    case 7
    then show ?case using units(3) by simp
  next
    case (8 t ph)
    then show ?case by (rule run)
  qed
qed


section \<open>The steps keep it\<close>

lemma launch_keys_distinct:
  "distinct (map fst ls) \<Longrightarrow> (c, keyed) \<in> set ls \<Longrightarrow> launch_keys c ls = mset (map fst keyed)"
proof (induction ls)
  case (Cons l ls)
  have none: "launch_keys d ls = {#}" if "d \<notin> fst ` set ls" for d ls
    using that by (induction ls) auto
  show ?case using Cons none by (cases l) force
qed simp

lemma launch_keys_none: "c \<notin> fst ` set ls \<Longrightarrow> launch_keys c ls = {#}"
  by (induction ls) auto

lemma launching_units:
  assumes "cycle_inv loud m" and "in_launch c m"
  shows "task_keys c (map fst (sb_pool (cw_sub m))) = {#}" and "task_keys c (map fst (cw_running m)) = {#}"
    and "sc_pending_retries (ctx c (cw_sub m)) = []" and "popped_keys c (cw_popped m) = {#}"
proof -
  obtain keyed where l: "(c, keyed) \<in> set (cw_launching m)" using assms(2) unfolding in_launch_def by force
  have "launch_keys c (cw_launching m) = mset (map fst keyed)"
    by (rule launch_keys_distinct [OF cycle_invD(4) [OF assms(1)] l])
  with cycle_invD(3) [OF assms(1) l]
  show "task_keys c (map fst (sb_pool (cw_sub m))) = {#}" "task_keys c (map fst (cw_running m)) = {#}"
    "sc_pending_retries (ctx c (cw_sub m)) = []" "popped_keys c (cw_popped m) = {#}"
    by (simp_all add: open_units_def)
qed

lemma task_keys_in: "t \<in> set ts \<Longrightarrow> tk_ctx t = c \<Longrightarrow> tk_key t \<in># task_keys c ts"
  by (simp add: task_keys_def)

lemma task_keys_not: "(\<And>t. t \<in> set ts \<Longrightarrow> tk_ctx t \<noteq> c) \<Longrightarrow> task_keys c ts = {#}"
  by (induction ts) auto

lemma popped_keys_none: "c \<notin> fst ` set ps \<Longrightarrow> popped_keys c ps = {#}"
  by (induction ps) auto

lemma unit_once:
  assumes "cycle_inv loud m" and "c < length (sb_heap (cw_sub m))"
  shows "count (open_units c m) k \<le> 1"
  using cycle_invD(6) [OF assms] by (simp add: ctx_inv_def acct_inv_def)

lemma not_launching:
  assumes "cycle_inv loud m" and "t \<in> tasks_of m"
  shows "\<not> in_launch (tk_ctx t) m"
proof
  assume "in_launch (tk_ctx t) m"
  note none = launching_units(1,2) [OF assms(1) this]
  from assms(2) have "t \<in> set (map fst (sb_pool (cw_sub m))) \<or> t \<in> set (map fst (cw_running m))"
    by (auto simp: tasks_of_def)
  then show False using task_keys_in [of t] none by (metis empty_not_add_mset insert_DiffM)
qed

text \<open>A task leaves the running ones, its unit settled.\<close>

lemma inv_task_over:
  assumes inv: "cycle_inv loud m" and r: "cw_running m = a @ (task, ph) # b"
    and same: "same_accounts (tk_ctx task) (cw_sub m) w0" and pool: "sb_pool w0 = sb_pool (cw_sub m)"
    and infl: "sc_inflight (ctx (tk_ctx task) w0) = sc_inflight (ctx (tk_ctx task) (cw_sub m))"
    and s: "settles (tk_ctx task) 1 {tk_key task} w0 w'"
  shows "cycle_inv loud (m\<lparr>cw_sub := w', cw_running := a @ b\<rparr>)"
proof -
  let ?c = "tk_ctx task" and ?k = "tk_key task"
  have t: "task \<in> tasks_of m" using r by (simp add: tasks_of_def)
  have c: "?c < length (sb_heap (cw_sub m))" by (rule cycle_invD(1) [OF inv t])
  have pend: "sc_pending_retries (ctx ?c w') = sc_pending_retries (ctx ?c (cw_sub m))"
    using fixed_partD(3) [OF settlesD(5) [OF s]] same by (simp add: same_accounts_def)
  have pend': "sc_pending_retries (ctx d w') = sc_pending_retries (ctx d (cw_sub m))" if "d \<noteq> ?c" for d
    using settlesD(2) [OF s that] same that by (simp add: same_accounts_def)
  have other: "tk_key x \<noteq> ?k" if "(x, p) \<in> set (a @ b)" "tk_ctx x = ?c" for x p
  proof
    assume "tk_key x = ?k"
    with that have "?k \<in># task_keys ?c (map fst (a @ b))" using task_keys_in [of x "map fst (a @ b)" ?c] by force
    then have "1 \<le> count (task_keys ?c (map fst (a @ b))) ?k" by (simp only: count_greater_eq_one_iff)
    then have "2 \<le> count (open_units ?c m) ?k" using r by (simp add: open_units_def)
    with unit_once [OF inv c, of ?k] show False by simp
  qed
  show ?thesis
  proof (rule cycle_inv_settle [OF inv c same, where v = "{#?k#}" and n = 1 and K = "{?k}"], goal_cases)
    case 2
    then show ?case using r pool pend settlesD(3) [OF s] by (simp add: open_units_def)
  next
    case 4
    then show ?case using not_launching [OF inv t] .
  next
    case (6 d)
    then show ?case using r pool pend' [OF 6] settlesD(3) [OF s] by (auto simp: open_units_def)
  next
    case 7
    then show ?case using r pool settlesD(3) [OF s] by (auto simp: tasks_of_def)
  next
    case (9 x p)
    then have x: "(x, p) \<in> set (a @ b)" by simp
    show ?case
    proof (cases "tk_ctx x = ?c")
      case True
      then have "tk_key x \<in> sc_inflight (ctx ?c (cw_sub m))"
        using cycle_invD(7) [OF inv, of x p] x r by auto
      with True other [OF x True] settlesD(6) [OF s] infl show ?thesis by simp
    next
      case False
      have "(x, p) \<in> set (cw_running m)" using x r by auto
      with False show ?thesis by force
    qed
  qed (use s in simp_all)
qed


text \<open>Accounts after the small writes.\<close>

lemma same_accounts_set_ctx:
  assumes "c < length (sb_heap w)" and "sc_done x = sc_done (ctx c w)" and "units_done x = units_done (ctx c w)"
    and "sc_total x = sc_total (ctx c w)" and "sc_finished x = sc_finished (ctx c w)"
    and "sc_pending_retries x = sc_pending_retries (ctx c w)"
  shows "same_accounts c w (set_ctx c x w)"
  using assms by (simp add: same_accounts_def)

lemma slots_settle: "c < length (sb_heap w) \<Longrightarrow> settles c 0 {} w (set_ctx c ((ctx c w)\<lparr>sc_slots := sl\<rparr>) w)"
  by (rule settles_set_ctx) (simp_all add: fixed_part_def units_done_def)

lemma inv_acquire:
  assumes inv: "cycle_inv loud m" and r: "cw_running m = a @ (task, WaitingSlot) # b"
    and run: "task_acquire t txt task (cw_sub m) = (ph, w')"
  shows "cycle_inv loud (m\<lparr>cw_sub := w', cw_running := a @ now_running task ph @ b\<rparr>)"
proof -
  let ?c = "tk_ctx task" and ?k = "tk_key task" and ?w = "cw_sub m"
  have t: "task \<in> tasks_of m" using r by (simp add: tasks_of_def)
  have c: "?c < length (sb_heap ?w)" by (rule cycle_invD(1) [OF inv t])
  obtain got sl where sl: "slots_acquire_round (job_cancelled ?c ?k ?w) (sc_slots (ctx ?c ?w)) = (got, sl)"
    by (cases "slots_acquire_round (job_cancelled ?c ?k ?w) (sc_slots (ctx ?c ?w))")
  let ?w1 = "set_ctx ?c ((ctx ?c ?w)\<lparr>sc_slots := sl\<rparr>) ?w"
  have s1: "settles ?c 0 {} ?w ?w1" by (rule slots_settle) (rule c)
  have c1: "?c < length (sb_heap ?w1)" using c by simp
  have over: "cycle_inv loud (m\<lparr>cw_sub := w', cw_running := a @ b\<rparr>)" if "w' = guard_task t txt ?c ?k out" "callback_ok ?c ?w1 out" for out
  proof -
    have "settles ?c 1 {?k} ?w w'"
      unfolding that(1) by (rule settles_01 [OF s1 settles_guard_task [OF c1 that(2)]]) simp
    then show ?thesis by (rule inv_task_over [OF inv r same_accounts_refl refl refl])
  qed
  have stay: "cycle_inv loud (m\<lparr>cw_sub := ?w1, cw_running := a @ (task, p) # b\<rparr>)" for p
  proof (rule cycle_inv_settle [OF inv c same_accounts_refl, where v = "{#}" and n = 0 and K = "{}"], goal_cases)
    case 1
    then show ?case using s1 by simp
  next
    case 2
    then show ?case using r c by (simp add: open_units_def)
  next
    case 4
    then show ?case using not_launching [OF inv t] .
  next
    case (6 d)
    then show ?case using r c by (auto simp: open_units_def)
  next
    case 7
    then show ?case using r by (auto simp: tasks_of_def)
  next
    case (9 x p)
    then have "\<exists>p. (x, p) \<in> set (cw_running m)" using r by auto
    then show ?case using cycle_invD(7) [OF inv] c by (force simp: image_iff)
  qed simp_all
  show ?thesis
    using run over [OF _ ok_task_cancelled [OF c1]] over [OF _ ok_release_after [OF c1 ok_task_cancelled [OF c1]]] stay
    by (auto simp: task_acquire_def sl Let_def split: option.splits bool.splits if_splits)
qed

lemma ok_task_finish:
  assumes "tk_ctx task < length (sb_heap w)"
  shows "settles (tk_ctx task) 1 {tk_key task} w (task_finish t txt task r w) \<or>
    (\<exists>w1 delay. settles (tk_ctx task) 0 {} w w1 \<and> task_finish t txt task r w =
       leave_inflight (tk_ctx task) (tk_key task) (release_slot (tk_ctx task)
         (schedule_retry (tk_ctx task) (tk_key task) delay (task\<lparr>tk_attempt := Suc (tk_attempt task)\<rparr>) w1)))"
proof -
  let ?out = "case r of Inr job_id \<Rightarrow> task_succeeded t (tk_ctx task) (tk_key task) job_id w
    | Inl (SubmitError err) \<Rightarrow> task_failed t task err w | Inl e \<Rightarrow> (Inl e, w)"
  have eq: "task_finish t txt task r w
      = guard_task t txt (tk_ctx task) (tk_key task) (release_after (tk_ctx task) ?out)"
    by (simp add: task_finish_def Let_def)
  have "callback_ok (tk_ctx task) w ?out \<or> rescheduled task w ?out"
    using ok_succeeded [OF assms] ok_task_failed [OF assms] by (auto split: sum.splits py_error.splits)
  then show ?thesis
  proof
    assume "callback_ok (tk_ctx task) w ?out"
    from settles_guard_task [OF assms ok_release_after [OF assms this]] show ?thesis unfolding eq by blast
  next
    assume "rescheduled task w ?out"
    then obtain w1 delay where w1: "settles (tk_ctx task) 0 {} w w1"
      "?out = (Inr (), schedule_retry (tk_ctx task) (tk_key task) delay (task\<lparr>tk_attempt := Suc (tk_attempt task)\<rparr>) w1)"
      unfolding rescheduled_def by blast
    then show ?thesis unfolding eq by (auto simp: release_after_def guard_task_def)
  qed
qed


lemma set_dset_subset: "set (dset k v d) \<subseteq> insert (k, v) (set d)"
  by (induction d) auto

lemma inv_settle0:
  assumes inv: "cycle_inv loud m" and c: "c < length (sb_heap (cw_sub m))" and s: "settles c 0 {} (cw_sub m) w'"
    and nl: "\<not> in_launch c m"
  shows "cycle_inv loud (m\<lparr>cw_sub := w'\<rparr>)"
proof (rule cycle_inv_settle [OF inv c same_accounts_refl, where v = "{#}" and n = 0 and K = "{}"], goal_cases)
  case 2
  then show ?case using settlesD(3) [OF s] fixed_partD(3) [OF settlesD(5) [OF s]] by (simp add: open_units_def)
next
  case (6 d)
  then show ?case using settlesD(2) [OF s 6] settlesD(3) [OF s] by (simp add: open_units_def)
next
  case 7
  then show ?case using settlesD(3) [OF s] by (simp add: tasks_of_def)
next
  case (9 x p)
  then show ?case using cycle_invD(7) [OF inv, of x p] settlesD(6) [OF s] by (auto simp: image_iff intro: bexI [of _ "(x, p)"])
qed (use s nl in simp_all)

lemma inv_reschedule:
  assumes inv: "cycle_inv loud m" and r: "cw_running m = a @ (task, ph) # b"
  defines "c \<equiv> tk_ctx task" and "k \<equiv> tk_key task" and "w \<equiv> cw_sub m"
  shows "cycle_inv loud (m\<lparr>cw_sub := leave_inflight c k (release_slot c
      (schedule_retry c k delay (task\<lparr>tk_attempt := n\<rparr>) w)), cw_running := a @ b\<rparr>)"
proof -
  let ?e = "\<lparr> pr_key = k, pr_delay_s = delay, pr_task = task\<lparr>tk_attempt := n\<rparr> \<rparr>" and ?d = "sc_pending_retries (ctx c w)"
  let ?w' = "leave_inflight c k (release_slot c (schedule_retry c k delay (task\<lparr>tk_attempt := n\<rparr>) w))"
  let ?x = "(ctx c w)\<lparr>sc_pending_retries := dset k ?e ?d, sc_slots := slots_release (sc_slots (ctx c w)),
    sc_inflight := sc_inflight (ctx c w) - {k}\<rparr>"
  have t: "task \<in> tasks_of m" using r by (simp add: tasks_of_def)
  have c: "c < length (sb_heap w)" using cycle_invD(1) [OF inv t] by (simp add: c_def w_def)
  have w': "sb_heap ?w' = (sb_heap w)[c := ?x]" "sb_pool ?w' = sb_pool w" "reports (sb_events ?w') = reports (sb_events w)"
    using c by (simp_all add: leave_inflight_def release_slot_def schedule_retry_def emit_def)
  have nl: "\<not> in_launch c m" using not_launching [OF inv t] by (simp add: c_def)
  have "count (open_units c m) k \<le> 1" by (rule unit_once [OF inv]) (use c in \<open>simp add: w_def\<close>)
  then have "count (mset (dkeys ?d)) k = 0" "count (task_keys c (map fst (a @ b))) k = 0"
    using r by (auto simp: open_units_def c_def k_def w_def simp del: count_mset mset_map)
  then have none: "k \<notin># mset (dkeys ?d)" "k \<notin># task_keys c (map fst (a @ b))"
    by (simp_all only: count_eq_zero_iff not_False_eq_True)
  then have "k \<notin> set (dkeys ?d)" by simp
  then have units: "open_units c (m\<lparr>cw_sub := ?w', cw_running := a @ b\<rparr>) = open_units c m"
    using r c w' by (simp add: open_units_def dkeys_dset) (simp add: c_def k_def w_def)
  have ci: "ctx_inv loud m c" by (rule cycle_invD(6) [OF inv]) (use c in \<open>simp add: w_def\<close>)
  have rep: "reports_of e ?w' = reports_of e w" for e using w'(3) by (simp add: reports_of_def)
  show ?thesis
  proof (rule cycle_inv_ctx [OF inv, where c = c and keep = True], goal_cases)
    case 1
    then show ?case using c by (simp add: w_def)
  next
    case 2
    then show ?case using w'(1) by (simp add: w_def)
  next
    case (3 d)
    then show ?case using w' rep r by (auto simp: open_units_def w_def c_def)
  next
    case 4
    have x: "ctx c ?w' = ?x" using w'(1) c by simp
    have il: "in_launch c (m\<lparr>cw_sub := ?w', cw_running := a @ b\<rparr>) = in_launch c m" by (simp add: in_launch_def)
    have "acct_inv loud ?x (open_units c m) (in_launch c m) (reports_of c w) \<and>
        (\<forall>(k, e)\<in>set (sc_pending_retries ?x). tk_ctx (pr_task e) = c)"
      using ci set_dset_subset [of k ?e ?d] unfolding ctx_inv_def w_def [symmetric] acct_inv_def
      by (auto simp: units_done_def c_def k_def)
    then show ?case unfolding ctx_inv_def units il using x rep by simp
  next
    case 5
    then show ?case using w'(3) by (auto simp: w_def)
  next
    case (6 x)
    then show ?case using r w'(2) by (auto simp: tasks_of_def w_def)
  next
    case (10 x p)
    then have x: "(x, p) \<in> set (a @ b)" by simp
    then have m: "(x, p) \<in> set (cw_running m)" using r by auto
    show ?case
    proof (cases "tk_ctx x = c")
      case True
      have "tk_key x \<noteq> k" using none(2) task_keys_in [of x "map fst (a @ b)" c] x True by force
      moreover have "tk_key x \<in> sc_inflight (ctx c w)" using cycle_invD(7) [OF inv m] True by (simp add: w_def)
      ultimately show ?thesis using True w'(1) c by simp
    next
      case False
      then show ?thesis using m by force
    qed
  qed (use nl in simp_all)
qed

lemma inv_finish:
  assumes inv: "cycle_inv loud m" and r: "cw_running m = a @ (task, Executing) # b"
  shows "cycle_inv loud (m\<lparr>cw_sub := task_finish t txt task res (cw_sub m), cw_running := a @ b\<rparr>)"
proof -
  let ?c = "tk_ctx task" and ?k = "tk_key task"
  have t: "task \<in> tasks_of m" using r by (simp add: tasks_of_def)
  have c: "?c < length (sb_heap (cw_sub m))" by (rule cycle_invD(1) [OF inv t])
  from ok_task_finish [OF c, of t "txt" res] show ?thesis
  proof
    assume "settles ?c 1 {?k} (cw_sub m) (task_finish t txt task res (cw_sub m))"
    then show ?thesis by (rule inv_task_over [OF inv r same_accounts_refl refl refl])
  next
    assume "\<exists>w1 delay. settles ?c 0 {} (cw_sub m) w1 \<and> task_finish t txt task res (cw_sub m) =
       leave_inflight ?c ?k (release_slot ?c (schedule_retry ?c ?k delay (task\<lparr>tk_attempt := Suc (tk_attempt task)\<rparr>) w1))"
    then obtain w1 delay where w1: "settles ?c 0 {} (cw_sub m) w1" "task_finish t txt task res (cw_sub m) =
       leave_inflight ?c ?k (release_slot ?c (schedule_retry ?c ?k delay (task\<lparr>tk_attempt := Suc (tk_attempt task)\<rparr>) w1))"
      by blast
    have "cycle_inv loud (m\<lparr>cw_sub := w1\<rparr>)"
      by (rule inv_settle0 [OF inv c w1(1) not_launching [OF inv t]])
    from inv_reschedule [OF this, of a task Executing b delay "Suc (tk_attempt task)"] r w1(2) show ?thesis by simp
  qed
qed


text \<open>A task leaves the pool: its unit is settled, or it runs.\<close>

lemma inv_from_pool:
  assumes inv: "cycle_inv loud m" and p: "sb_pool (cw_sub m) = a @ (task, prio) # b"
    and same: "same_accounts (tk_ctx task) (cw_sub m) w0" and pool: "sb_pool w0 = a @ b"
    and infl: "sc_inflight (ctx (tk_ctx task) (cw_sub m)) \<subseteq> sc_inflight (ctx (tk_ctx task) w0)"
    and s: "settles (tk_ctx task) n K w0 w'"
    and ph: "(case ph of None \<Rightarrow> n = 1 \<and> K = {tk_key task}
      | Some _ \<Rightarrow> n = 0 \<and> K = {} \<and> tk_key task \<in> sc_inflight (ctx (tk_ctx task) w0))"
  shows "cycle_inv loud (m\<lparr>cw_sub := w', cw_running := cw_running m @ now_running task ph\<rparr>)"
proof -
  let ?c = "tk_ctx task" and ?k = "tk_key task"
  let ?m' = "m\<lparr>cw_sub := w', cw_running := cw_running m @ now_running task ph\<rparr>"
  have t: "task \<in> tasks_of m" using p by (simp add: tasks_of_def)
  have c: "?c < length (sb_heap (cw_sub m))" by (rule cycle_invD(1) [OF inv t])
  have pend: "sc_pending_retries (ctx d w') = sc_pending_retries (ctx d (cw_sub m))" for d
    using fixed_partD(3) [OF settlesD(5) [OF s]] settlesD(2) [OF s, of d] same
    by (cases "d = ?c") (simp_all add: same_accounts_def)
  have other: "tk_key x \<noteq> ?k" if "(x, q) \<in> set (cw_running m)" "tk_ctx x = ?c" for x q
  proof
    assume "tk_key x = ?k"
    with that have "?k \<in># task_keys ?c (map fst (cw_running m))"
      using task_keys_in [of x "map fst (cw_running m)" ?c] by force
    then have "1 \<le> count (task_keys ?c (map fst (cw_running m))) ?k" by (simp only: count_greater_eq_one_iff)
    then have "2 \<le> count (open_units ?c m) ?k"
      using p by (simp add: open_units_def del: count_greater_eq_one_iff count_greater_eq_Suc_zero_iff)
    with unit_once [OF inv c, of ?k] show False by simp
  qed
  have pool': "sb_pool w' = a @ b" using settlesD(3) [OF s] pool by simp
  let ?v = "if ph = None then {#?k#} else {#}"
  show ?thesis
  proof (rule cycle_inv_settle [OF inv c same, where v = ?v and n = n and K = K], goal_cases)
    case 1
    then show ?case using s by simp
  next
    case 2
    then show ?case using p pool' pend by (cases ph) (simp_all add: open_units_def)
  next
    case 3
    then show ?case using ph by (cases ph) simp_all
  next
    case 4
    then show ?case using not_launching [OF inv t] .
  next
    case (6 d)
    then show ?case using p pool' pend by (cases ph) (simp_all add: open_units_def)
  next
    case 7
    then show ?case using p pool' by (cases ph) (auto simp: tasks_of_def)
  next
    case (9 x q)
    show ?case
    proof (cases "(x, q) \<in> set (cw_running m)")
      case True
      have "tk_key x \<in> sc_inflight (ctx ?c w')" if "tk_ctx x = ?c"
      proof -
        have "tk_key x \<in> sc_inflight (ctx ?c (cw_sub m))" using cycle_invD(7) [OF inv True] that by simp
        moreover have "K \<subseteq> {?k}" using ph by (cases ph) auto
        ultimately show ?thesis using infl settlesD(6) [OF s] other [OF True that] by blast
      qed
      moreover have "x \<in> fst ` set (cw_running m)" by (rule image_eqI [OF _ True]) simp
      ultimately show ?thesis by (cases "tk_ctx x = ?c") simp_all
    next
      case False
      with 9 have "x = task" "ph \<noteq> None" by (auto split: option.splits)
      moreover from ph \<open>ph \<noteq> None\<close> have "K = {}" "tk_key task \<in> sc_inflight (ctx ?c w0)" by auto
      then have "tk_key task \<in> sc_inflight (ctx ?c w')" by (simp add: settlesD(6) [OF s])
      ultimately show ?thesis by simp
    qed
  qed simp_all
qed

lemma inv_begin:
  assumes inv: "cycle_inv loud m" and p: "sb_pool (cw_sub m) = a @ (task, prio) # b"
    and run: "task_begin t txt task ((cw_sub m)\<lparr>sb_pool := a @ b\<rparr>) = (ph, w')"
  shows "cycle_inv loud (m\<lparr>cw_sub := w', cw_running := cw_running m @ now_running task ph\<rparr>)"
proof -
  let ?c = "tk_ctx task" and ?k = "tk_key task" and ?w = "(cw_sub m)\<lparr>sb_pool := a @ b\<rparr>"
  have "task \<in> tasks_of m" using p by (simp add: tasks_of_def)
  then have c: "?c < length (sb_heap (cw_sub m))" by (rule cycle_invD(1) [OF inv])
  obtain entered w1 where e: "enter_inflight ?c ?k ?w = (entered, w1)" by (cases "enter_inflight ?c ?k ?w")
  have w1: "same_accounts ?c (cw_sub m) w1" "sb_pool w1 = a @ b" "?c < length (sb_heap w1)"
    "sc_inflight (ctx ?c (cw_sub m)) \<subseteq> sc_inflight (ctx ?c w1)" "entered \<Longrightarrow> ?k \<in> sc_inflight (ctx ?c w1)"
    using e c by (auto simp: enter_inflight_def Let_def same_accounts_def units_done_def split: if_splits)
  note leave = inv_from_pool [OF inv p w1(1,2,4)]
  have over: "cycle_inv loud (m\<lparr>cw_sub := guard_task t txt ?c ?k out, cw_running := cw_running m @ now_running task None\<rparr>)"
    if "callback_ok ?c w1 out" for out
    by (rule leave [OF settles_guard_task [OF w1(3) that]]) simp
  show ?thesis
  proof (cases entered)
    case False
    with run e have "ph = None" "w' = guard_task t txt ?c ?k (task_cancelled t ?c ?k w1)"
      by (simp_all add: task_begin_def Let_def)
    with over [OF ok_task_cancelled [OF w1(3)]] show ?thesis by simp
  next
    case True
    obtain r w2 where r: "on_store (transition (ck_wall t) (sc_jobset_id (ctx ?c w1)) ?k (Some SUBMITTING) None []) w1 = (r, w2)"
      by (cases "on_store (transition (ck_wall t) (sc_jobset_id (ctx ?c w1)) ?k (Some SUBMITTING) None []) w1")
    note st = settles_store_count [OF w1(3) r]
    show ?thesis
    proof (cases r)
      case (Inl e')
      let ?out = "if RECORD_GONE e' then (Inr (), task_vanished t ?c w2) else (Inl e', w2)"
      have "callback_ok ?c w1 ?out" using st by (simp add: task_vanished_def)
      moreover have "ph = None" "w' = guard_task t txt ?c ?k ?out"
        using run True e r Inl by (simp_all add: task_begin_def Let_def)
      ultimately show ?thesis using over [of ?out] by simp
    next
      case (Inr starting)
      then have ph: "ph = Some WaitingSlot"
        and w': "w' = (if tk_attempt task \<noteq> 0 then note_transition t starting ?c w2 else w2)"
        using run True e r by (simp_all add: task_begin_def Let_def)
      have "settles ?c 0 {} w2 w'"
        unfolding w' using settles_note_transition [of ?c w2] settles_length [OF st(1)] w1(3) by simp
      with st(1) have "settles ?c 0 {} w1 w'" by (rule settles_00)
      then show ?thesis by (rule leave) (use ph True w1(5) in simp)
    qed
  qed
qed


text \<open>Writes outside the accounts, and what happens to the retry ledger.\<close>

lemma cycle_inv_same:
  assumes "cycle_inv loud m" and "sb_heap w' = sb_heap (cw_sub m)" and "sb_pool w' = sb_pool (cw_sub m)"
    and "reports (sb_events w') = reports (sb_events (cw_sub m))"
  shows "cycle_inv loud (m\<lparr>cw_sub := w'\<rparr>)"
  using assms
  by (simp add: cycle_inv_def Let_def ctx_inv_def tasks_of_def open_units_def in_launch_def reports_of_def)

lemma dkeys_distinct:
  assumes "cycle_inv loud m" and "c < length (sb_heap (cw_sub m))"
  shows "distinct (dkeys (sc_pending_retries (ctx c (cw_sub m))))"
proof -
  have "count (mset (dkeys (sc_pending_retries (ctx c (cw_sub m))))) k \<le> 1" for k
    using unit_once [OF assms, of k] by (simp add: open_units_def del: count_mset mset_map)
  then show ?thesis
    by (auto simp: distinct_count_atmost_1 le_Suc_eq count_eq_zero_iff)
qed

lemma inv_ledger:
  assumes inv: "cycle_inv loud m" and c: "c < length (sb_heap (cw_sub m))"
    and w': "sb_heap w' = (sb_heap (cw_sub m))[c := x]" "reports (sb_events w') = reports (sb_events (cw_sub m))"
    and x: "sc_done x = sc_done (ctx c (cw_sub m))" "units_done x = units_done (ctx c (cw_sub m))"
      "sc_total x = sc_total (ctx c (cw_sub m))" "sc_finished x = sc_finished (ctx c (cw_sub m))"
      "sc_inflight x = sc_inflight (ctx c (cw_sub m))"
    and sub: "set (sc_pending_retries x) \<subseteq> set (sc_pending_retries (ctx c (cw_sub m)))"
    and pool: "sb_pool w' = sb_pool (cw_sub m) @ new" "\<And>t. t \<in> fst ` set new \<Longrightarrow> tk_ctx t = c"
    and pop: "ps = cw_popped m @ new'" "\<And>p. p \<in> set new' \<Longrightarrow> fst p = c"
    and units: "mset (dkeys (sc_pending_retries (ctx c (cw_sub m)))) =
      mset (dkeys (sc_pending_retries x)) + task_keys c (map fst new) + popped_keys c new'"
  shows "cycle_inv loud (m\<lparr>cw_sub := w', cw_popped := ps\<rparr>)"
proof -
  let ?m' = "m\<lparr>cw_sub := w', cw_popped := ps\<rparr>"
  have x': "ctx c w' = x" using w'(1) c by simp
  have o: "open_units c ?m' = open_units c m" using units pool(1) pop(1) x' by (simp add: open_units_def)
  have il: "in_launch d ?m' = in_launch d m" for d by (simp add: in_launch_def)
  have rep: "reports_of d w' = reports_of d (cw_sub m)" for d using w'(2) by (simp add: reports_of_def)
  have other: "popped_keys d new' = {#}" "task_keys d (map fst new) = {#}" if "d \<noteq> c" for d
  proof -
    have "d \<notin> fst ` set new'"
    proof
      assume "d \<in> fst ` set new'"
      then obtain p where "p \<in> set new'" "d = fst p" by blast
      with pop(2) that show False by blast
    qed
    then show "popped_keys d new' = {#}" by (rule popped_keys_none)
    show "task_keys d (map fst new) = {#}"
      by (rule task_keys_not) (use pool(2) that in \<open>metis set_map\<close>)
  qed
  show ?thesis
  proof (rule cycle_inv_ctx [OF inv c, where keep = True], goal_cases)
    case 1
    then show ?case using w'(1) by simp
  next
    case (2 d)
    then show ?case using w'(1) pool(1) pop(1) rep other [OF 2] by (simp add: open_units_def)
  next
    case 3
    have "acct_inv loud x (open_units c m) (in_launch c m) (reports_of c (cw_sub m))"
      using cycle_invD(6) [OF inv c] sub unfolding ctx_inv_def acct_inv_def x by blast
    moreover have "\<forall>(k, e)\<in>set (sc_pending_retries x). tk_ctx (pr_task e) = c"
      using cycle_invD(6) [OF inv c] sub unfolding ctx_inv_def by blast
    ultimately show ?case unfolding ctx_inv_def o il by (simp add: x' rep)
  next
    case 4
    then show ?case using w'(2) by auto
  next
    case (5 t)
    then have "t \<in> tasks_of m \<or> t \<in> fst ` set new" using pool(1) by (auto simp: tasks_of_def)
    with pool(2) show ?case by blast
  next
    case (6 p)
    then have "p \<in> set (cw_popped m) \<or> p \<in> set new'" using pop(1) by simp
    with pop(2) show ?case by blast
  next
    case 8
    then show ?case using o by simp
  next
    case (9 t ph)
    then have t: "(t, ph) \<in> set (cw_running m)" by simp
    then have "t \<in> fst ` set (cw_running m)" by (rule image_eqI [rotated]) simp
    moreover have "tk_key t \<in> sc_inflight x" if "tk_ctx t = c"
      using cycle_invD(7) [OF inv t] that x(5) by simp
    ultimately show ?case using x' by simp
  qed simp_all
qed

lemma inv_mark: "cycle_inv loud m \<Longrightarrow> c < length (sb_heap (cw_sub m)) \<Longrightarrow> cycle_inv loud (m\<lparr>cw_sub := mark_scope keys c (cw_sub m)\<rparr>)"
proof -
  assume inv: "cycle_inv loud m" and c: "c < length (sb_heap (cw_sub m))"
  let ?x = "case keys of None \<Rightarrow> (ctx c (cw_sub m))\<lparr>sc_cancel_event := True\<rparr>
    | Some ks \<Rightarrow> (ctx c (cw_sub m))\<lparr>sc_cancelled_keys := sc_cancelled_keys (ctx c (cw_sub m)) \<union> ks\<rparr>"
  have "cycle_inv loud (m\<lparr>cw_sub := mark_scope keys c (cw_sub m), cw_popped := cw_popped m\<rparr>)"
    by (rule inv_ledger [OF inv c, where x = ?x and new = "[]" and new' = "[]"])
      (simp_all add: mark_scope_def units_done_def split: option.splits)
  then show ?thesis by simp
qed

lemma filter_keys_mset: "mset (dkeys d) = mset (dkeys (filter (\<lambda>(k, _). \<not> P k) d)) + mset (map fst (filter (\<lambda>(k, _). P k) d))"
  by (induction d) auto

lemma popped_keys_map: "popped_keys c (map (\<lambda>e. (c, e, reason)) es) = mset (map pr_key es)"
  by (induction es) auto

lemma inv_pop:
  assumes inv: "cycle_inv loud m" and c: "c < length (sb_heap (cw_sub m))"
    and run: "pop_retries keys c (cw_sub m) = (es, w')"
  shows "cycle_inv loud (m\<lparr>cw_sub := w', cw_popped := cw_popped m @ map (\<lambda>e. (c, e, reason)) es\<rparr>)"
proof -
  let ?d = "sc_pending_retries (ctx c (cw_sub m))"
  let ?x = "(ctx c (cw_sub m))\<lparr>sc_pending_retries := filter (\<lambda>(k, _). \<not> in_scope keys k) ?d\<rparr>"
  from run have es: "es = map snd (filter (\<lambda>(k, _). in_scope keys k) ?d)" and w': "w' = set_ctx c ?x (cw_sub m)"
    by (simp_all add: pop_retries_def Let_def)
  have "\<forall>(k, e)\<in>set ?d. pr_key e = k" using cycle_invD(6) [OF inv c] unfolding ctx_inv_def acct_inv_def by blast
  then have "map pr_key es = map fst (filter (\<lambda>(k, _). in_scope keys k) ?d)" unfolding es by auto
  then show ?thesis
    using filter_keys_mset [of ?d "in_scope keys"]
    by (intro inv_ledger [OF inv c, where x = ?x and new = "[]"])
      (auto simp: w' units_done_def popped_keys_map)
qed

lemma inv_finalize:
  assumes inv: "cycle_inv loud m" and p: "cw_popped m = a @ (c, e, reason) # b"
  shows "cycle_inv loud (m\<lparr>cw_sub := finalize_retry t reason' c e (cw_sub m), cw_popped := a @ b\<rparr>)"
proof -
  have c: "c < length (sb_heap (cw_sub m))" using cycle_invD(2) [OF inv, of "(c, e, reason)"] p by simp
  have nl: "\<not> in_launch c m"
  proof
    assume "in_launch c m"
    from launching_units(4) [OF inv this] p show False by simp
  qed
  let ?w' = "finalize_retry t reason' c e (cw_sub m)"
  note s = settles_finalize [OF c, of t reason' e]
  have pend: "sc_pending_retries (ctx d ?w') = sc_pending_retries (ctx d (cw_sub m))" for d
    using fixed_partD(3) [OF settlesD(5) [OF s]] settlesD(2) [OF s, of d] by (cases "d = c") simp_all
  show ?thesis
  proof (rule cycle_inv_settle [OF inv c same_accounts_refl, where v = "{#pr_key e#}" and n = 1 and K = "{}"], goal_cases)
    case (9 x ph)
    then have x: "(x, ph) \<in> set (cw_running m)" by simp
    then have "x \<in> fst ` set (cw_running m)" by (rule image_eqI [rotated]) simp
    moreover have "tk_key x \<in> sc_inflight (ctx c ?w')" if "tk_ctx x = c"
      using cycle_invD(7) [OF inv x] settlesD(6) [OF s] that by simp
    ultimately show ?case by simp
  qed (use p s pend settlesD(3) [OF s] nl in \<open>auto simp: open_units_def tasks_of_def\<close>)
qed


lemma mset_filter_neq:
  "distinct ks \<Longrightarrow> k \<in> set ks \<Longrightarrow> mset ks = add_mset k (mset (filter (\<lambda>j. j \<noteq> k) ks))"
proof (induction ks)
  case (Cons x ks)
  show ?case
  proof (cases "k = x")
    case True
    then have "filter (\<lambda>j. j \<noteq> k) ks = ks" using Cons.prems(1) by (auto simp: filter_id_conv)
    with True show ?thesis by (simp del: mset_filter)
  qed (use Cons in simp)
qed simp

lemma inv_fire:
  assumes inv: "cycle_inv loud m" and c: "c < length (sb_heap (cw_sub m))"
  shows "cycle_inv loud (m\<lparr>cw_sub := retry_fire t c k (cw_sub m)\<rparr>)"
proof (cases "dget (sc_pending_retries (ctx c (cw_sub m))) k")
  case None
  then have "retry_fire t c k (cw_sub m) = cw_sub m" by (simp add: retry_fire_def)
  with inv show ?thesis by simp
next
  case (Some e)
  let ?w = "cw_sub m" and ?d = "sc_pending_retries (ctx c (cw_sub m))"
  let ?x = "(ctx c ?w)\<lparr>sc_pending_retries := ddel k ?d\<rparr>"
  let ?w1 = "set_ctx c ?x ?w"
  have ke: "(k, e) \<in> set ?d" using Some by (rule map_of_SomeD)
  then have e: "pr_key e = k" "tk_key (pr_task e) = k" "tk_ctx (pr_task e) = c"
    using cycle_invD(6) [OF inv c] unfolding ctx_inv_def acct_inv_def by blast+
  have "distinct (dkeys ?d)" by (rule dkeys_distinct [OF inv c])
  then have keys: "mset (dkeys ?d) = mset (dkeys (ddel k ?d)) + {#k#}"
    using mset_filter_neq [of "dkeys ?d" k] ke by (force simp: dkeys_ddel)
  have sub: "set (ddel k ?d) \<subseteq> set ?d" by (auto simp: AList.delete_eq)
  show ?thesis
  proof (cases "sb_shutdown ?w \<or> sc_cancel_event (ctx c ?w)")
    case True
    have eq: "retry_fire t c k ?w = finalize_retry t ''CANCELLED'' c e ?w1"
      using Some True c by (simp add: retry_fire_def Let_def)
    have "cycle_inv loud (m\<lparr>cw_sub := ?w1, cw_popped := cw_popped m @ [(c, e, ''CANCELLED'')]\<rparr>)"
      by (rule inv_ledger [OF inv c, where x = ?x and new = "[]" and new' = "[(c, e, ''CANCELLED'')]"])
        (use keys sub e in \<open>simp_all add: units_done_def\<close>)
    from inv_finalize [OF this, of "cw_popped m" c e "''CANCELLED''" "[]"] show ?thesis
      by (simp add: eq)
  next
    case False
    then have eq: "retry_fire t c k ?w = ?w1\<lparr>sb_pool := sb_pool ?w1 @ [(pr_task e, 0)]\<rparr>"
      using Some c by (simp add: retry_fire_def Let_def)
    have "cycle_inv loud (m\<lparr>cw_sub := retry_fire t c k ?w, cw_popped := cw_popped m\<rparr>)"
      by (rule inv_ledger [OF inv c, where x = ?x and new = "[(pr_task e, 0)]" and new' = "[]"])
        (use keys sub e eq in \<open>simp_all add: units_done_def\<close>)
    then show ?thesis by simp
  qed
qed

lemma inv_timer:
  assumes inv: "cycle_inv loud m" and c: "c < length (sb_heap (cw_sub m))"
  shows "cycle_inv loud (m\<lparr>cw_sub := on_retry_requested t c k (cw_sub m)\<rparr>)"
  using inv_fire [OF inv c, of t k] inv
  by (auto simp: on_retry_requested_def split: option.splits intro: cycle_inv_same)

section \<open>Starting a cycle\<close>

lemma new_context_eq:
  assumes "new_context cfg j keys opts token w = (c, w')"
  obtains x where "c = length (sb_heap w)" "sb_heap w' = sb_heap w @ [x]" "sb_pool w' = sb_pool w"
    "sb_events w' = sb_events w" "sb_shutdown w' = sb_shutdown w" "sb_store w' = sb_store w"
    "sc_total x = int (length keys)" "sc_done x = 0" "units_done x = 0" "\<not> sc_finished x" "sc_pending_retries x = []"
  using assms by (auto simp: new_context_def new_ctx_def units_done_def Let_def split: prod.splits)

text \<open>A forced end: everything that is left is settled at once.\<close>

definition forces :: "bool \<Rightarrow> nat \<Rightarrow> sub \<Rightarrow> sub \<Rightarrow> bool" where
  "forces emitted c w w' \<longleftrightarrow>
     (\<exists>x es. sb_heap w' = (sb_heap w)[c := x] \<and> sb_pool w' = sb_pool w \<and> sb_events w' = sb_events w @ es \<and>
        sc_total x = sc_total (ctx c w) \<and> sc_pending_retries x = sc_pending_retries (ctx c w) \<and>
        sc_inflight x = sc_inflight (ctx c w) \<and> sc_finished x \<and>
        (if sc_finished (ctx c w) then reports es = [] \<and> sc_done x = sc_done (ctx c w) \<and> units_done x = units_done (ctx c w)
         else sc_done x = sc_total x \<and> units_done x = units_done (ctx c w) + (sc_total (ctx c w) - sc_done (ctx c w)) \<and>
           (if emitted then \<exists>r. reports es = [(c, r)] \<and> srp_total r = sc_total x \<and> report_units r = units_done x
            else reports es = [])))"

lemma drop_ctx_simps [simp]:
  "sb_heap (drop_ctx c w) = sb_heap w" "sb_pool (drop_ctx c w) = sb_pool w" "sb_events (drop_ctx c w) = sb_events w"
  "sb_shutdown (drop_ctx c w) = sb_shutdown w" "sb_store (drop_ctx c w) = sb_store w"
  by (simp_all add: drop_ctx_def Let_def)

lemma emit_simps [simp]:
  "sb_heap (emit es w) = sb_heap w" "sb_pool (emit es w) = sb_pool w" "sb_events (emit es w) = sb_events w @ es"
  "sb_shutdown (emit es w) = sb_shutdown w" "sb_store (emit es w) = sb_store w"
  by (simp_all add: emit_def)

lemma forces_finish_forced:
  assumes "c < length (sb_heap w)"
  shows "forces emitted c w (finish_forced failed emitted c w)"
proof (cases "sc_finished (ctx c w)")
  case True
  then have "finish_forced failed emitted c w = w" by (simp add: finish_forced_def Let_def)
  then show ?thesis unfolding forces_def using True by (intro exI [of _ "ctx c w"] exI [of _ "[]"]) simp
next
  case False
  let ?x = "ctx c w"
  obtain y where y: "finish_forced failed emitted c w =
      emit (if emitted then [SubFinished c (sc_jobset_id ?x) (make_report y)] else []) (set_ctx c y w)"
    "sc_total y = sc_total ?x" "sc_pending_retries y = sc_pending_retries ?x" "sc_inflight y = sc_inflight ?x"
    "sc_finished y" "sc_done y = sc_total ?x" "units_done y = units_done ?x + (sc_total ?x - sc_done ?x)"
  proof -
    define y where "y = (let remaining = sc_total ?x - sc_done ?x; x1 = ?x\<lparr>sc_finished := True, sc_done := sc_total ?x\<rparr>
      in if failed then (let y = x1\<lparr>sc_failed := sc_failed ?x + remaining\<rparr>
                   in if remaining \<noteq> 0
                      then y\<lparr>sc_fail_reasons := dset ''PRE_SUBMIT_FAILED'' remaining (sc_fail_reasons ?x)\<rparr> else y)
         else x1\<lparr>sc_cancelled := sc_cancelled ?x + remaining\<rparr>)"
    have "finish_forced failed emitted c w =
        emit (if emitted then [SubFinished c (sc_jobset_id ?x) (make_report y)] else []) (set_ctx c y w)"
      using False by (simp add: finish_forced_def y_def Let_def)
    then show ?thesis
      by (rule that) (simp_all add: y_def units_done_def Let_def)
  qed
  show ?thesis
    unfolding forces_def y(1) using False y(2-)
    by (intro exI [of _ y] exI [of _ "if emitted then [SubFinished c (sc_jobset_id ?x) (make_report y)] else []"])
      (simp add: make_report_def report_units_def units_done_def)
qed

lemma forces_more:
  assumes "forces emitted c w1 w2" and "sb_heap w1 = sb_heap w" and "sb_pool w1 = sb_pool w"
    and "sb_events w1 = sb_events w @ es" and "reports es = []"
  shows "forces emitted c w (drop_ctx d w2)"
proof -
  from assms(1) obtain x es' where "sb_heap w2 = (sb_heap w1)[c := x]" "sb_pool w2 = sb_pool w1"
    "sb_events w2 = sb_events w1 @ es'" and rest: "sc_total x = sc_total (ctx c w1)"
    "sc_pending_retries x = sc_pending_retries (ctx c w1)" "sc_inflight x = sc_inflight (ctx c w1)" "sc_finished x"
    "(if sc_finished (ctx c w1) then reports es' = [] \<and> sc_done x = sc_done (ctx c w1) \<and> units_done x = units_done (ctx c w1)
         else sc_done x = sc_total x \<and> units_done x = units_done (ctx c w1) + (sc_total (ctx c w1) - sc_done (ctx c w1)) \<and>
           (if emitted then \<exists>r. reports es' = [(c, r)] \<and> srp_total r = sc_total x \<and> report_units r = units_done x
            else reports es' = []))"
    unfolding forces_def by blast
  then show ?thesis
    unfolding forces_def using assms(2-)
    by (intro exI [of _ x] exI [of _ "es @ es'"]) (cases emitted; cases "sc_finished (ctx c w)"; auto)
qed

lemma forces_gate_reject:
  assumes "c < length (sb_heap w)"
  shows "forces f c w (gate_reject f c w)"
  unfolding gate_reject_def Let_def
  by (rule forces_more [OF forces_finish_forced, where es = "[SubGateRejected c (sc_jobset_id (ctx c w)) (sc_arm_token (ctx c w))]"])
    (use assms in simp_all)


lemma on_store_simps:
  "on_store f w = (r, w') \<Longrightarrow> sb_heap w' = sb_heap w \<and> sb_pool w' = sb_pool w \<and> sb_events w' = sb_events w \<and>
     sb_shutdown w' = sb_shutdown w"
  by (auto simp: on_store_def split: prod.splits)

lemma fail_stuck_simps:
  "fail_stuck t j msg rs w = (out, w') \<Longrightarrow> sb_heap w' = sb_heap w \<and> sb_pool w' = sb_pool w \<and> sb_events w' = sb_events w"
proof (induction rs arbitrary: out w w')
  case (Cons r rs)
  obtain res w1 where 1: "on_store (transition (ck_wall t) j (jr_job_key r) (Some SUBMIT_FAILED)
      (Some (\<lambda>cur. same_execution cur r \<and> jr_state cur = SUBMITTING))
      [FFailReason (Some ''LAUNCH_FAILED''), FFailMessage (Some (take MAX_FAIL_MESSAGE_CHARS msg))]) w = (res, w1)"
    by (cases "on_store (transition (ck_wall t) j (jr_job_key r) (Some SUBMIT_FAILED)
      (Some (\<lambda>cur. same_execution cur r \<and> jr_state cur = SUBMITTING))
      [FFailReason (Some ''LAUNCH_FAILED''), FFailMessage (Some (take MAX_FAIL_MESSAGE_CHARS msg))]) w")
  obtain out2 w2 where 2: "fail_stuck t j msg rs w1 = (out2, w2)" by (cases "fail_stuck t j msg rs w1")
  from Cons.prems 1 2 have "w' = w2" by (auto split: sum.splits option.splits)
  with Cons.IH [OF 2] on_store_simps [OF 1] show ?case by simp
qed simp

lemma forces_gate_fail:
  assumes "c < length (sb_heap w)"
  shows "forces True c w (gate_fail t msg rs c w)"
proof -
  obtain stuck w1 where st: "fail_stuck t (sc_jobset_id (ctx c w)) msg rs w = (stuck, w1)"
    by (cases "fail_stuck t (sc_jobset_id (ctx c w)) msg rs w")
  let ?es = "(if stuck \<noteq> [] then [SubJobsChanged c (sc_jobset_id (ctx c w)) stuck] else [])
    @ [SubError c (sc_jobset_id (ctx c w)) (''pre_submit: '' @ msg),
       SubGateRejected c (sc_jobset_id (ctx c w)) (sc_arm_token (ctx c w))]"
  have eq: "gate_fail t msg rs c w = drop_ctx c (finish_forced True True c (emit ?es w1))"
    by (simp add: gate_fail_def st Let_def)
  show ?thesis
    unfolding eq
    by (rule forces_more [OF forces_finish_forced, where es = ?es]) (use assms fail_stuck_simps [OF st] in simp_all)
qed

lemma acct_force:
  assumes i: "acct_inv loud (ctx c w) u l (reports_of c w)" and f: "forces emitted c w w'" and c: "c < length (sb_heap w)"
    and loud: "loud \<Longrightarrow> emitted" and pend: "sc_pending_retries (ctx c w) = []"
  shows "acct_inv loud (ctx c w') {#} False (reports_of c w')"
proof -
  note i = i [unfolded acct_inv_def]
  obtain x es where x: "sb_heap w' = (sb_heap w)[c := x]" "sb_events w' = sb_events w @ es" "sc_total x = sc_total (ctx c w)"
    "sc_pending_retries x = sc_pending_retries (ctx c w)" "sc_finished x"
    and e: "(if sc_finished (ctx c w) then reports es = [] \<and> sc_done x = sc_done (ctx c w) \<and> units_done x = units_done (ctx c w)
         else sc_done x = sc_total x \<and> units_done x = units_done (ctx c w) + (sc_total (ctx c w) - sc_done (ctx c w)) \<and>
           (if emitted then \<exists>r. reports es = [(c, r)] \<and> srp_total r = sc_total x \<and> report_units r = units_done x
            else reports es = []))"
    using f unfolding forces_def by blast
  have x': "ctx c w' = x" using x(1) c by simp
  have rep: "reports_of c w' = reports_of c w @ map snd (filter (\<lambda>p. fst p = c) (reports es))"
    using x(2) by (simp add: reports_of_def)
  show ?thesis
  proof (cases "sc_finished (ctx c w)")
    case True
    with e rep have "reports_of c w' = reports_of c w" by simp
    then show ?thesis unfolding x' acct_inv_def using True e i x pend by simp
  next
    case False
    then have none: "reports_of c w = []" using i by blast
    have full: "sc_done x = sc_total x" "units_done x = sc_total x" using e False i x(3) by auto
    show ?thesis
    proof (cases emitted)
      case True
      with e False obtain r where "reports es = [(c, r)]" "srp_total r = sc_total x" "report_units r = units_done x" by auto
      with rep none have rs: "reports_of c w' = [r]" by simp
      show ?thesis
        unfolding x' acct_inv_def rs using full x(4,5) pend \<open>srp_total r = _\<close> \<open>report_units r = _\<close> by simp
    next
      case False
      with e \<open>\<not> sc_finished _\<close> rep none have rs: "reports_of c w' = []" by simp
      show ?thesis unfolding x' acct_inv_def rs using full x(4,5) pend loud False by auto
    qed
  qed
qed

lemma forces_frame:
  assumes "forces emitted c w w'"
  shows "length (sb_heap w') = length (sb_heap w)" "d \<noteq> c \<Longrightarrow> ctx d w' = ctx d w" "sb_pool w' = sb_pool w"
    "d \<noteq> c \<Longrightarrow> reports_of d w' = reports_of d w"
    "fst ` set (reports (sb_events w')) \<subseteq> insert c (fst ` set (reports (sb_events w)))"
    "c < length (sb_heap w) \<Longrightarrow> sc_pending_retries (ctx c w') = sc_pending_retries (ctx c w)"
proof -
  obtain x es where x: "sb_heap w' = (sb_heap w)[c := x]" "sb_pool w' = sb_pool w" "sb_events w' = sb_events w @ es"
    "sc_pending_retries x = sc_pending_retries (ctx c w)" and es: "\<forall>p\<in>set (reports es). fst p = c"
    using assms unfolding forces_def by (auto split: if_splits)
  then show "length (sb_heap w') = length (sb_heap w)" "d \<noteq> c \<Longrightarrow> ctx d w' = ctx d w" "sb_pool w' = sb_pool w"
    "c < length (sb_heap w) \<Longrightarrow> sc_pending_retries (ctx c w') = sc_pending_retries (ctx c w)" by simp_all
  show "reports_of d w' = reports_of d w" if "d \<noteq> c"
    using that es x(3) by (auto simp: reports_of_def filter_empty_conv)
  show "fst ` set (reports (sb_events w')) \<subseteq> insert c (fst ` set (reports (sb_events w)))"
    using es x(3) by auto
qed

text \<open>The launch of a context ends: what it started waits in the pool.\<close>

lemma inv_launch_done:
  assumes inv: "cycle_inv loud m" and l: "cw_launching m = a @ (c, keyed) # b"
    and len: "length (sb_heap w') = length (sb_heap (cw_sub m))"
    and others: "\<And>d. d \<noteq> c \<Longrightarrow> ctx d w' = ctx d (cw_sub m)" "\<And>d. d \<noteq> c \<Longrightarrow> reports_of d w' = reports_of d (cw_sub m)"
    and rep: "fst ` set (reports (sb_events w')) \<subseteq> insert c (fst ` set (reports (sb_events (cw_sub m))))"
    and pend: "sc_pending_retries (ctx c w') = []"
    and pool: "sb_pool w' = sb_pool (cw_sub m) @ new" "\<forall>t\<in>fst ` set new. tk_ctx t = c"
    and acct: "acct_inv loud (ctx c w') (task_keys c (map fst new)) False (reports_of c w')"
  shows "cycle_inv loud (m\<lparr>cw_sub := w', cw_launching := a @ b\<rparr>)"
proof -
  let ?m' = "m\<lparr>cw_sub := w', cw_launching := a @ b\<rparr>"
  have il: "in_launch c m" using l by (simp add: in_launch_def)
  have dist: "c \<notin> fst ` set (a @ b)" using cycle_invD(4) [OF inv] l by auto
  then have fil: "a @ b = filter (\<lambda>l. fst l \<noteq> c \<or> False) (cw_launching m)"
  proof -
    have "filter (\<lambda>l. fst l \<noteq> c) xs = xs" if "c \<notin> fst ` set xs" for xs :: "(nat \<times> (job_key \<times> string list) list) list"
      using that by (induction xs) auto
    from this [OF dist] show ?thesis unfolding l by simp
  qed
  note none = launching_units [OF inv il]
  have o: "open_units c ?m' = task_keys c (map fst new)"
    using none pend pool(1) launch_keys_none [OF dist] by (simp add: open_units_def)
  have nl: "\<not> in_launch c ?m'" using dist by (simp add: in_launch_def)
  show ?thesis
  proof (rule cycle_inv_ctx [OF inv, where c = c and keep = False], goal_cases)
    case 1
    then show ?case using cycle_invD(3) [OF inv, of c keyed] l by simp
  next
    case 2
    then show ?case using len by simp
  next
    case (3 d)
    have "task_keys d (map fst new) = {#}" by (rule task_keys_not) (use pool(2) 3 in \<open>metis set_map\<close>)
    moreover have "launch_keys d (cw_launching m) = launch_keys d (a @ b)" using 3 l by simp
    ultimately show ?case using others [OF 3] pool(1) by (simp add: open_units_def)
  next
    case 4
    show ?case unfolding ctx_inv_def o using acct nl pend by simp
  next
    case 5
    then show ?case using rep by simp
  next
    case (6 t)
    then have "t \<in> tasks_of m \<or> t \<in> fst ` set new" using pool(1) by (auto simp: tasks_of_def)
    with pool(2) show ?case by blast
  next
    case 8
    then show ?case using fil by simp
  next
    case (10 t ph)
    then have t: "(t, ph) \<in> set (cw_running m)" by simp
    then have "t \<in> fst ` set (cw_running m)" by (rule image_eqI [rotated]) simp
    moreover have "tk_ctx t \<noteq> c"
    proof
      assume "tk_ctx t = c"
      with calculation have "tk_key t \<in># task_keys c (map fst (cw_running m))" by (intro task_keys_in) simp_all
      with none(2) show False by simp
    qed
    ultimately show ?case by simp
  qed simp_all
qed

lemma inv_launch_forced:
  assumes inv: "cycle_inv loud m" and l: "cw_launching m = a @ (c, keyed) # b"
    and f: "forces emitted c (cw_sub m) w'" and loud: "loud \<Longrightarrow> emitted"
  shows "cycle_inv loud (m\<lparr>cw_sub := w', cw_launching := a @ b\<rparr>)"
proof -
  have il: "in_launch c m" using l by (simp add: in_launch_def)
  have c: "c < length (sb_heap (cw_sub m))" using cycle_invD(3) [OF inv, of c keyed] l by simp
  note pend = launching_units(3) [OF inv il]
  have "acct_inv loud (ctx c (cw_sub m)) (open_units c m) True (reports_of c (cw_sub m))"
    using cycle_invD(6) [OF inv c] il by (simp add: ctx_inv_def)
  from acct_force [OF this f c loud pend]
  have acct: "acct_inv loud (ctx c w') {#} False (reports_of c w')" .
  show ?thesis
    by (rule inv_launch_done [OF inv l, where new = "[]"]) (use forces_frame [OF f] acct pend c in simp_all)
qed


text \<open>The reset loop: each key is skipped, settled at once, or launched.\<close>

lemma reset_loop_settles:
  assumes "c < length (sb_heap w)" and "reset_loop t fresh c blocked previous keyed lp w = (lp', w')"
  shows "\<exists>n L sk. settles c (int n) {} w w' \<and> lp_launch lp' = lp_launch lp @ L \<and> lp_skipped lp' = lp_skipped lp + sk \<and>
    n + sk + length L = length keyed \<and> mset (map fst L) \<subseteq># mset (map fst keyed)"
  using assms
proof (induction keyed arbitrary: lp w)
  case Nil
  then have "settles c (int 0) {} w w'" "lp' = lp" by simp_all
  then show ?case by (intro exI [of _ 0] exI [of _ "[]"]) simp
next
  case (Cons p keyed)
  obtain key item where p: "p = (key, item)" by (cases p)
  have wrap: ?case
    if s: "settles c (int i) {} w wx" and run: "reset_loop t fresh c blocked previous keyed lpx wx = (lp', w')"
      and lpx: "lp_launch lpx = lp_launch lp @ Lx" "lp_skipped lpx = lp_skipped lp + sx"
      and one: "i + sx + length Lx = 1" "mset (map fst Lx) \<subseteq># {#key#}" for i wx lpx Lx sx
  proof -
    have "c < length (sb_heap wx)" using settles_length [OF s] Cons.prems(1) by simp
    from Cons.IH [OF this run] obtain n L sk where IH: "settles c (int n) {} wx w'" "lp_launch lp' = lp_launch lpx @ L"
      "lp_skipped lp' = lp_skipped lpx + sk" "n + sk + length L = length keyed" "mset (map fst L) \<subseteq># mset (map fst keyed)"
      by blast
    have "settles c (int (i + n)) {} w w'" using settles_trans [OF s IH(1)] by simp
    moreover have "mset (map fst (Lx @ L)) \<subseteq># mset (map fst (p # keyed))"
      using subset_mset.add_mono [OF one(2) IH(5)] p by simp
    ultimately show ?thesis using IH(2-4) lpx one(1)
      by (intro exI [of _ "i + n"] exI [of _ "Lx @ L"] exI [of _ "sx + sk"]) simp
  qed
  show ?case
  proof (cases "key \<in> blocked")
    case True
    have "settles c (int 0) {} w w" by simp
    then show ?thesis
      by (rule wrap [where lpx = "lp\<lparr>lp_skipped := Suc (lp_skipped lp)\<rparr>" and Lx = "[]" and sx = 1])
        (use Cons.prems(2) p True in simp_all)
  next
    case nb: False
    obtain r w1 where r: "on_store (transition (ck_wall t) (sc_jobset_id (ctx c w)) key (Some SUBMITTING) None
        (reset_fields (fresh key) item)) w = (r, w1)"
      by (cases "on_store (transition (ck_wall t) (sc_jobset_id (ctx c w)) key (Some SUBMITTING) None
        (reset_fields (fresh key) item)) w")
    note s1 = settles_on_store [OF r, of c]
    show ?thesis
    proof (cases r)
      case (Inl e)
      let ?w2 = "if RECORD_GONE e then w1 else emit [SubError c (sc_jobset_id (ctx c w)) key] w1"
      have "settles c 0 {} w ?w2" using s1 settles_00 [OF s1 settles_emit] by simp
      moreover have "c < length (sb_heap ?w2)" using on_store_simps [OF r] Cons.prems(1) by simp
      ultimately have "settles c (int 1) {} w (count_units t 1 UnitCancelled [] c ?w2)"
        using settles_01 [OF _ settles_count] by simp
      then show ?thesis
        by (rule wrap [where lpx = lp and Lx = "[]" and sx = 0]) (use Cons.prems(2) p nb r Inl in simp_all)
    next
      case (Inr o')
      have s0: "settles c (int 0) {} w w1" using s1 by simp
      obtain cwd where "\<exists>lp1. reset_loop t fresh c blocked previous keyed lp1 w1 = (lp', w') \<and>
          lp_launch lp1 = lp_launch lp @ [(key, item, cwd)] \<and> lp_skipped lp1 = lp_skipped lp"
        using Cons.prems(2) p nb r Inr by (cases o') fastforce+
      then obtain lp1 where "reset_loop t fresh c blocked previous keyed lp1 w1 = (lp', w')"
        "lp_launch lp1 = lp_launch lp @ [(key, item, cwd)]" "lp_skipped lp1 = lp_skipped lp + 0" by auto
      from wrap [OF s0 this] show ?thesis by simp
    qed
  qed
qed

lemma reset_records_settles:
  assumes c: "c < length (sb_heap w)" and run: "reset_records t fresh c keyed w = (lp, w')"
  shows "\<exists>n. settles c (int n) {} w w' \<and> n + length (lp_launch lp) = length keyed \<and>
    mset (map fst (lp_launch lp)) \<subseteq># mset (map fst keyed)"
proof -
  let ?prev = "get_jobs_by_keys (sc_jobset_id (ctx c w))
    (filter (\<lambda>k. k \<notin> sc_cancelled_keys (ctx c w)) (map fst keyed)) (sb_store w)"
  obtain lp' w1 where loop: "reset_loop t fresh c (sc_cancelled_keys (ctx c w)) ?prev keyed empty_plan w = (lp', w1)"
    by (cases "reset_loop t fresh c (sc_cancelled_keys (ctx c w)) ?prev keyed empty_plan w")
  let ?w2 = "if lp_stale lp = [] then w1 else w1\<lparr>sb_forgotten := sb_forgotten w1 @ lp_stale lp\<rparr>"
  have lp: "lp = lp'" and w': "w' = count_units t (int (lp_skipped lp)) UnitCancelled [] c ?w2"
    using run loop by (auto simp: reset_records_def Let_def)
  obtain n L sk where L: "settles c (int n) {} w w1" "lp_launch lp = L" "lp_skipped lp = sk"
    "n + sk + length L = length keyed" "mset (map fst L) \<subseteq># mset (map fst keyed)"
    using reset_loop_settles [OF c loop] lp by (auto simp: empty_plan_def)
  have s2: "settles c (int n) {} w ?w2"
    by (rule settles_n0 [OF L(1)]) (auto intro: settles_same [of _ _ "[]"])
  have c2: "c < length (sb_heap ?w2)" using settles_length [OF s2] c by simp
  have "settles c (int (n + sk)) {} w w'"
  proof (cases "sk = 0")
    case True
    with s2 w' L(3) show ?thesis by (simp add: count_units_def)
  next
    case False
    then show ?thesis
      using settles_trans [OF s2 settles_count [OF c2, of "int sk"]] w' L(3) by simp
  qed
  with L show ?thesis by (intro exI [of _ "n + sk"]) simp
qed


lemma acct_not_launching: "acct_inv loud x u True rs \<Longrightarrow> u \<noteq> {#} \<Longrightarrow> acct_inv loud x u False rs"
  unfolding acct_inv_def by blast

lemma launch_tasks:
  "task_keys c (map fst (zip (map (make_resubmit_task c) L) (map (\<lambda>i. - int i) [0..<length L]))) = mset (map fst L)"
proof -
  have "map fst (zip (map (make_resubmit_task c) L) (map (\<lambda>i. - int i) [0..<length L])) = map (make_resubmit_task c) L"
    by simp
  moreover have "task_keys c (map (make_resubmit_task c) L) = mset (map fst L)"
    by (induction L) (auto simp: make_resubmit_task_def)
  ultimately show ?thesis by simp
qed

text \<open>A cycle without jobs ends in the launch itself.\<close>

lemma finish_empty:
  assumes c: "c < length (sb_heap w)" and i: "acct_inv loud (ctx c w) {#} True (reports_of c w)"
  shows "acct_inv loud (ctx c (finish_if_done True c w)) {#} False (reports_of c (finish_if_done True c w)) \<and>
    (\<exists>x es. sb_heap (finish_if_done True c w) = (sb_heap w)[c := x] \<and> sb_pool (finish_if_done True c w) = sb_pool w \<and>
       sb_events (finish_if_done True c w) = sb_events w @ es \<and> (\<forall>p\<in>set (reports es). fst p = c) \<and>
       sc_pending_retries x = sc_pending_retries (ctx c w))"
proof -
  let ?x = "ctx c w"
  note i = i [unfolded acct_inv_def]
  let ?es = "(if sc_done ?x \<ge> sc_total ?x then [SubProgress c (sc_jobset_id ?x) (sc_total ?x) (sc_total ?x)] else [])
    @ (if sc_changed_buffer ?x \<noteq> [] then [SubJobsChanged c (sc_jobset_id ?x) (sc_changed_buffer ?x)] else [])
    @ [SubFinished c (sc_jobset_id ?x) (make_report ?x)]"
  let ?y = "?x\<lparr>sc_finished := True, sc_changed_buffer := []\<rparr>"
  have nf: "\<not> sc_finished ?x" and none: "reports_of c w = []" using i by auto
  have eq: "finish_if_done True c w = drop_ctx c (emit ?es (set_ctx c ?y w))"
    using nf by (simp add: finish_if_done_def Let_def)
  have rs: "reports_of c (drop_ctx c (emit ?es (set_ctx c ?y w))) = [make_report ?x]"
    using none by (simp add: reports_of_def)
  have "acct_inv loud ?y {#} False [make_report ?x]"
    using i by (auto simp: acct_inv_def make_report_def report_units_def units_done_def)
  then show ?thesis
    unfolding eq rs using c by (intro conjI exI [of _ ?y] exI [of _ ?es]) simp_all
qed

lemma inv_launch:
  assumes inv: "cycle_inv loud m" and l: "cw_launching m = a @ (c, keyed) # b"
    and w: "sb_heap w = sb_heap (cw_sub m)" "sb_pool w = sb_pool (cw_sub m)"
      "reports (sb_events w) = reports (sb_events (cw_sub m))"
  shows "cycle_inv loud (m\<lparr>cw_sub := launch_cycle t fresh fault c keyed w, cw_launching := a @ b\<rparr>)"
proof -
  have il: "in_launch c m" using l by (simp add: in_launch_def)
  have c: "c < length (sb_heap (cw_sub m))" and u: "open_units c m = mset (map fst keyed)"
    using cycle_invD(3) [OF inv, of c keyed] l by simp_all
  note pend = launching_units(3) [OF inv il]
  let ?j = "sc_jobset_id (ctx c w)" and ?tok = "sc_arm_token (ctx c w)"
  let ?w0 = "emit [SubStarted c ?j] w"
  obtain lp w1 where r: "reset_records t fresh c keyed ?w0 = (lp, w1)" by (cases "reset_records t fresh c keyed ?w0")
  have c0: "c < length (sb_heap ?w0)" using c w(1) by simp
  obtain n where n: "settles c (int n) {} ?w0 w1" "n + length (lp_launch lp) = length keyed"
    "mset (map fst (lp_launch lp)) \<subseteq># mset (map fst keyed)" using reset_records_settles [OF c0 r] by blast
  have i0: "acct_inv loud (ctx c ?w0) (mset (map fst keyed)) True (reports_of c ?w0)"
    using cycle_invD(6) [OF inv c] il u w by (simp add: ctx_inv_def reports_of_def)
  note S = settlesD [OF n(1)] and F = fixed_partD [OF settlesD(5) [OF n(1)]]
  have pend1: "sc_pending_retries (ctx c w1) = []" using F(3) pend w(1) by simp
  have c1: "c < length (sb_heap w1)" using S(1) c0 by simp
  have acct1: "acct_inv loud (ctx c w1) (mset (map fst (lp_launch lp))) (keyed = []) (reports_of c w1)"
  proof (cases "keyed = []")
    case True
    with n have "n = 0" "lp_launch lp = []" by simp_all
    have "sc_finished (ctx c w1) = sc_finished (ctx c ?w0)" using S(9) \<open>n = 0\<close> by simp
    moreover obtain es where "sb_events w1 = sb_events ?w0 @ es" "reports es = []"
      using S(10) calculation by auto
    ultimately show ?thesis
      using i0 True \<open>lp_launch lp = []\<close> \<open>n = 0\<close> S(7,8) F(2,3)
      by (simp add: acct_inv_def reports_of_def) blast
  next
    case False
    then have i1: "acct_inv loud (ctx c ?w0) (mset (map fst keyed)) False (reports_of c ?w0)"
      using acct_not_launching [OF i0] by simp
    let ?v = "mset (map fst keyed) - mset (map fst (lp_launch lp))"
    have split: "mset (map fst (lp_launch lp)) + ?v = mset (map fst keyed)"
      using n(3) by (simp only: subset_mset.add_diff_inverse)
    have "size ?v = length keyed - length (lp_launch lp)" using n(3) by (simp add: size_Diff_submset)
    then have "int (size ?v) = int n" using n(2) by simp
    from acct_settle [OF _ n(1) this] i1 split False show ?thesis by simp
  qed
  have frame: "length (sb_heap w1) = length (sb_heap (cw_sub m))" "\<And>d. d \<noteq> c \<Longrightarrow> ctx d w1 = ctx d (cw_sub m)"
    "sb_pool w1 = sb_pool (cw_sub m)" "\<And>d. d \<noteq> c \<Longrightarrow> reports_of d w1 = reports_of d (cw_sub m)"
    "fst ` set (reports (sb_events w1)) \<subseteq> insert c (fst ` set (reports (sb_events (cw_sub m))))"
    using S(1-3) w settles_reports [OF n(1)] by (simp_all add: reports_of_def)
  show ?thesis
  proof (cases fault)
    case (Some msg)
    let ?w' = "gate_fail t msg (lp_reset lp) c w1"
    have eq: "launch_cycle t fresh fault c keyed w = ?w'" using Some r by (simp add: launch_cycle_def Let_def)
    note f = forces_gate_fail [OF c1, of t msg "lp_reset lp"]
    note fr = forces_frame [OF f]
    have fs: "fst ` set (reports (sb_events ?w')) \<subseteq> insert c (fst ` set (reports (sb_events (cw_sub m))))"
      using fr(5) frame(5) by blast
    have "acct_inv loud (ctx c ?w') {#} False (reports_of c ?w')" by (rule acct_force [OF acct1 f c1 _ pend1]) simp
    then show ?thesis
      unfolding eq by (intro inv_launch_done [OF inv l, where new = "[]"])
        (use fr(1-4,6) frame(1-4) pend1 c1 fs in simp_all)
  next
    case None
    show ?thesis
    proof (cases "sc_finished (ctx c w1)")
      case True
      let ?w' = "emit [SubGateRejected c ?j ?tok] w1"
      have eq: "launch_cycle t fresh fault c keyed w = ?w'" using None True r by (simp add: launch_cycle_def Let_def)
      have rep: "reports_of d ?w' = reports_of d w1" for d by (simp add: reports_of_def)
      from acct1 True have "acct_inv loud (ctx c w1) {#} False (reports_of c w1)" by (auto simp: acct_inv_def)
      then show ?thesis
        unfolding eq by (intro inv_launch_done [OF inv l, where new = "[]"]) (use frame pend1 rep in auto)
    next
      case False
      let ?es = "SubRecordsReset c ?j ?tok (lp_reset lp)
        # (if lp_reset lp \<noteq> [] then [SubJobsChanged c ?j (lp_reset lp)] else [])"
      let ?new = "zip (map (make_resubmit_task c) (lp_launch lp)) (map (\<lambda>i. - int i) [0..<length (lp_launch lp)])"
      let ?w3 = "(emit ?es w1)\<lparr>sb_pool := sb_pool w1 @ ?new\<rparr>"
      have eq: "launch_cycle t fresh fault c keyed w = (if lp_launch lp = [] then finish_if_done True c ?w3 else ?w3)"
        using None False r by (simp add: launch_cycle_def Let_def)
      have rep: "reports_of d ?w3 = reports_of d w1" for d by (simp add: reports_of_def)
      show ?thesis
      proof (cases "lp_launch lp = []")
        case True
        with acct1 False have k: "keyed = []" by (auto simp: acct_inv_def)
        have i3: "acct_inv loud (ctx c ?w3) {#} True (reports_of c ?w3)" using acct1 True k rep by simp
        have c3: "c < length (sb_heap ?w3)" using c1 by simp
        obtain x es where x: "sb_heap (finish_if_done True c ?w3) = (sb_heap w1)[c := x]"
          "sb_pool (finish_if_done True c ?w3) = sb_pool w1" "sb_events (finish_if_done True c ?w3) = sb_events ?w3 @ es"
          "\<forall>p\<in>set (reports es). fst p = c" "sc_pending_retries x = []"
          using conjunct2 [OF finish_empty [OF c3 i3]] True pend1 by auto
        have rep': "reports_of d (finish_if_done True c ?w3) = reports_of d w1" if "d \<noteq> c" for d
          using x(3,4) that by (auto simp: reports_of_def filter_empty_conv)
        have fs: "fst ` set (reports (sb_events (finish_if_done True c ?w3)))
            \<subseteq> insert c (fst ` set (reports (sb_events (cw_sub m))))" using x(3,4) frame(5) by auto
        show ?thesis
          unfolding eq if_P [OF True]
          by (intro inv_launch_done [OF inv l, where new = "[]"])
            (use conjunct1 [OF finish_empty [OF c3 i3]] frame(1-4) x(1,2,5) c1 rep' fs in simp_all)
      next
        case ne: False
        then have "keyed \<noteq> []" using n(2) by auto
        with acct1 have a3: "acct_inv loud (ctx c w1) (mset (map fst (lp_launch lp))) False (reports_of c w1)" by simp
        have new: "\<forall>t\<in>fst ` set ?new. tk_ctx t = c"
          by (auto simp: make_resubmit_task_def dest!: set_zip_leftD)
        show ?thesis
          unfolding eq if_not_P [OF ne]
        proof (rule inv_launch_done [OF inv l, where new = ?new], goal_cases)
          case 8
          show ?case unfolding launch_tasks rep using a3 by simp
        qed (use frame pend1 rep new in auto)
      qed
    qed
  qed
qed


lemma forces_from:
  assumes "forces emitted c w1 w2" and "sb_heap w1 = sb_heap w" and "sb_pool w1 = sb_pool w"
    and "reports es = []" and "sb_events w1 = sb_events w @ es"
  shows "forces emitted c w w2"
  using forces_more [OF assms(1-3,5,4)] by (simp add: forces_def)

lemma inv_gate_begin:
  assumes inv: "cycle_inv loud m" and l: "cw_launching m = a @ (c, keyed) # b"
    and run: "pre_submit_begin c (cw_sub m) = (go, w')"
  shows "cycle_inv loud (m\<lparr>cw_sub := w', cw_launching := (if go then cw_launching m else a @ b)\<rparr>)"
proof -
  let ?w = "cw_sub m"
  have c: "c < length (sb_heap ?w)" using cycle_invD(3) [OF inv, of c keyed] l by simp
  let ?w1 = "emit [SubPreSubmitStarted c (sc_jobset_id (ctx c ?w))] ?w"
  let ?w2 = "emit [SubPreSubmitFinished c (sc_jobset_id (ctx c ?w)) False] ?w1"
  show ?thesis
  proof (cases "sb_shutdown ?w1 \<or> sc_cancel_event (ctx c ?w1)")
    case True
    then have eq: "go = False" "w' = gate_reject True c ?w2"
      using run by (auto simp: pre_submit_begin_def Let_def)
    have "forces True c ?w w'"
      unfolding eq(2) by (rule forces_from [OF forces_gate_reject]) (use c in simp_all)
    from inv_launch_forced [OF inv l this] eq(1) show ?thesis by simp
  next
    case False
    then have "go = True" "w' = ?w1" using run by (auto simp: pre_submit_begin_def Let_def)
    with cycle_inv_same [OF inv, of ?w1] show ?thesis by simp
  qed
qed

lemma inv_gate_end:
  assumes inv: "cycle_inv (sx_submit_finished_on_gate_reject cfg) m" and l: "cw_launching m = a @ (c, keyed) # b"
  shows "cycle_inv (sx_submit_finished_on_gate_reject cfg)
    (m\<lparr>cw_sub := pre_submit_end cfg t fresh fault txt c keyed r (cw_sub m), cw_launching := a @ b\<rparr>)"
proof -
  let ?w = "cw_sub m" and ?w' = "pre_submit_end cfg t fresh fault txt c keyed r (cw_sub m)"
  have c: "c < length (sb_heap ?w)" using cycle_invD(3) [OF inv, of c keyed] l by simp
  let ?e = "\<lambda>ok. emit [SubPreSubmitFinished c (sc_jobset_id (ctx c ?w)) ok] ?w"
  have forced: ?thesis if "?w' = w2" "forces emitted c (?e ok) w2" "sx_submit_finished_on_gate_reject cfg \<Longrightarrow> emitted"
    for w2 emitted ok
  proof -
    have "forces emitted c ?w w2" by (rule forces_from [OF that(2)]) simp_all
    with that show ?thesis by (simp add: inv_launch_forced [OF inv l])
  qed
  have c': "c < length (sb_heap (?e ok))" for ok using c by simp
  show ?thesis
  proof (cases r)
    case (Inl e)
    then have "?w' = gate_fail t txt [] c (?e False)" by (simp add: pre_submit_end_def Let_def)
    from forced [OF this forces_gate_fail [OF c']] show ?thesis by simp
  next
    case (Inr ok)
    show ?thesis
    proof (cases "ok \<and> (sc_cancel_event (ctx c ?w) \<or> sb_shutdown ?w)")
      case True
      then have "?w' = gate_reject True c (?e False)" using Inr by (simp add: pre_submit_end_def Let_def)
      from forced [OF this forces_gate_reject [OF c']] show ?thesis by simp
    next
      case False
      show ?thesis
      proof (cases ok)
        case True
        have "?w' = launch_cycle t fresh fault c keyed (?e True)"
          using Inr False True by (simp add: pre_submit_end_def Let_def)
        then show ?thesis using inv_launch [OF inv l, of "?e True"] by simp
      next
        case False
        then have "?w' = gate_reject (sx_submit_finished_on_gate_reject cfg) c (?e False)"
          using Inr by (simp add: pre_submit_end_def Let_def)
        from forced [OF this forces_gate_reject [OF c']] show ?thesis by simp
      qed
    qed
  qed
qed

lemma inv_new:
  assumes inv: "cycle_inv loud m" and heap: "sb_heap w' = sb_heap (cw_sub m) @ [x]" and pool: "sb_pool w' = sb_pool (cw_sub m)"
    and events: "sb_events w' = sb_events (cw_sub m)"
    and x: "sc_total x = int (length keyed)" "sc_done x = 0" "units_done x = 0" "\<not> sc_finished x" "sc_pending_retries x = []"
    and dist: "distinct (map fst keyed)"
  defines "c \<equiv> length (sb_heap (cw_sub m))"
  shows "cycle_inv loud (m\<lparr>cw_sub := w', cw_launching := cw_launching m @ [(c, keyed)]\<rparr>)"
proof -
  let ?m' = "m\<lparr>cw_sub := w', cw_launching := cw_launching m @ [(c, keyed)]\<rparr>"
  note D = cycle_invD [OF inv, folded c_def]
  have old: "ctx d w' = ctx d (cw_sub m)" if "d < c" for d using that heap by (simp add: nth_append c_def)
  have new: "ctx c w' = x" using heap by (simp add: c_def)
  have units: "open_units d ?m' = open_units d m" if "d < c" for d
    using that old pool by (simp add: open_units_def)
  have t1: "task_keys c (map fst (sb_pool (cw_sub m))) = {#}"
    by (rule task_keys_not) (use D(1) in \<open>force simp: tasks_of_def\<close>)
  have t2: "task_keys c (map fst (cw_running m)) = {#}"
    by (rule task_keys_not) (use D(1) in \<open>force simp: tasks_of_def\<close>)
  have "c \<notin> fst ` set (cw_popped m)" using D(2) by force
  then have t3: "popped_keys c (cw_popped m) = {#}" by (rule popped_keys_none)
  have cl: "c \<notin> fst ` set (cw_launching m)" using D(3) by force
  then have t4: "launch_keys c (cw_launching m) = {#}" by (rule launch_keys_none)
  have unew: "open_units c ?m' = mset (map fst keyed)"
    using t1 t2 t3 t4 new x(5) pool by (simp add: open_units_def)
  have rep: "reports_of d w' = reports_of d (cw_sub m)" for d using events by (simp add: reports_of_def)
  have rnew: "reports_of c (cw_sub m) = []" using D(5) by (force simp: reports_of_def filter_empty_conv)
  have il: "in_launch d ?m' \<longleftrightarrow> in_launch d m" if "d < c" for d using that by (auto simp: in_launch_def)
  have len: "length (sb_heap w') = Suc c" using heap by (simp add: c_def)
  show ?thesis
    unfolding cycle_inv_def Let_def
  proof (intro conjI ballI allI impI, goal_cases)
    case (1 t)
    then show ?case using D(1) [of t] pool len by (auto simp: tasks_of_def)
  next
    case (2 p)
    then have "p \<in> set (cw_popped m)" by simp
    from D(2) [OF this] show ?case using len by simp
  next
    case (3 l)
    then show ?case using D(3) [of "fst l" "snd l"] len by auto
  next
    case (4 l)
    then have "l \<in> set (cw_launching m) \<or> l = (c, keyed)" by auto
    then show ?case
    proof
      assume "l \<in> set (cw_launching m)"
      then show ?thesis using D(3) [of "fst l" "snd l"] units by simp
    qed (simp add: unew)
  next
    case 5
    then show ?case using D(4) cl by simp
  next
    case (6 p)
    then have "p \<in> set (reports (sb_events (cw_sub m)))" using events by simp
    from D(5) [OF this] show ?case using len by simp
  next
    case (7 d)
    show ?case
    proof (cases "d < c")
      case True
      from D(6) [OF True] show ?thesis
        using old [OF True] units [OF True] rep il [OF True] by (simp add: ctx_inv_def)
    next
      case False
      with 7 len have d: "d = c" by simp
      have "acct_inv loud x (mset (map fst keyed)) True []"
        using x dist by (simp add: acct_inv_def distinct_count_atmost_1 count_mset_0_iff del: mset_map)
      then show ?thesis unfolding ctx_inv_def d unew using new rep rnew x(5) by (simp add: in_launch_def)
    qed
  next
    case (8 p)
    then have p: "(fst p, snd p) \<in> set (cw_running m)" by simp
    then have "fst p \<in> tasks_of m" unfolding tasks_of_def by force
    from D(1) [OF this] D(7) [OF p] old show ?case by simp
  qed
qed

lemma inv_submit:
  assumes inv: "cycle_inv loud m" and dist: "distinct (map fst keyed)"
    and run: "resubmit_existing cfg j keyed opts token (cw_sub m) = (r, w')"
  shows "cycle_inv loud (m\<lparr>cw_sub := w',
    cw_launching := cw_launching m @ (case r of None \<Rightarrow> [] | Some c \<Rightarrow> [(c, keyed)])\<rparr>)"
proof (cases "sb_shutdown (cw_sub m)")
  case True
  with run inv show ?thesis by (auto simp: resubmit_existing_def)
next
  case False
  obtain c w1 where n: "new_context cfg j (map fst keyed) opts token (cw_sub m) = (c, w1)"
    by (cases "new_context cfg j (map fst keyed) opts token (cw_sub m)")
  then obtain x where x: "c = length (sb_heap (cw_sub m))" "sb_heap w1 = sb_heap (cw_sub m) @ [x]"
    "sb_pool w1 = sb_pool (cw_sub m)" "sb_events w1 = sb_events (cw_sub m)" "sc_total x = int (length keyed)"
    "sc_done x = 0" "units_done x = 0" "\<not> sc_finished x" "sc_pending_retries x = []"
    by (rule new_context_eq) simp
  let ?m1 = "m\<lparr>cw_sub := w1, cw_launching := cw_launching m @ [(c, keyed)]\<rparr>"
  have i1: "cycle_inv loud ?m1" unfolding x(1) by (rule inv_new [OF inv x(2-9) dist])
  show ?thesis
  proof (cases "sc_cancel_event (ctx c w1)")
    case True
    then have eq: "r = None" "w' = gate_reject True c (emit [SubStarted c j] w1)"
      using run False n by (simp_all add: resubmit_existing_def)
    have "forces True c w1 w'"
      unfolding eq(2) by (rule forces_from [OF forces_gate_reject]) (use x in simp_all)
    from inv_launch_forced [OF i1, of "cw_launching m" c keyed "[]" True w'] this eq(1) show ?thesis by simp
  next
    case nc: False
    with run False n have "r = Some c" "w' = w1" by (simp_all add: resubmit_existing_def)
    with i1 show ?thesis by simp
  qed
qed

lemma cycle_step_inv:
  "cycle_step cfg m m' \<Longrightarrow> cycle_inv (sx_submit_finished_on_gate_reject cfg) m \<Longrightarrow>
     cycle_inv (sx_submit_finished_on_gate_reject cfg) m'"
proof (induction rule: cycle_step.induct)
  case (step_shutdown m)
  then show ?case by (rule cycle_inv_same) simp_all
next
  case (step_world m s g)
  then show ?case by (rule cycle_inv_same) simp_all
next
  case (step_gate_begin m a c keyed b go w')
  show ?case by (rule inv_gate_begin [OF step_gate_begin(3,1,2)])
qed (simp_all only: inv_submit inv_gate_end inv_launch inv_begin inv_acquire inv_finish inv_timer
      inv_fire inv_mark inv_pop inv_finalize)

lemma cycle_reach_inv: "cycle_reach cfg m \<Longrightarrow> cycle_inv (sx_submit_finished_on_gate_reject cfg) m"
proof (induction rule: rtranclp_induct)
  case base
  then show ?case by (simp add: cycle_inv_def cycle_start_def tasks_of_def)
next
  case (step m m')
  then show ?case by (blast intro: cycle_step_inv)
qed

end
