(* ===== verification/SubmitLaws.thy ===== *)
theory SubmitLaws
  imports SubmitCycle
begin

text \<open>
  What the interleaved cycles guarantee: cancellation marks are never taken back and keep jobs
  out of the submission section, so a scope that was marked and found quiet stays quiet; a
  cycle can always be brought to its end; and a submission that does not launch leaves every
  record alone.
\<close>

section \<open>Cancellation marks\<close>

text \<open>
  How the contexts may change in a step: a mark stays, and a key enters the submission section
  only when it is not marked.
\<close>

definition abides :: "submit_ctx list \<Rightarrow> submit_ctx list \<Rightarrow> bool" where
  "abides h h' \<longleftrightarrow> length h \<le> length h' \<and>
     (\<forall>c<length h. (sc_cancel_event (h ! c) \<longrightarrow> sc_cancel_event (h' ! c)) \<and>
        sc_cancelled_keys (h ! c) \<subseteq> sc_cancelled_keys (h' ! c) \<and>
        (\<forall>k\<in>sc_inflight (h' ! c). k \<in> sc_inflight (h ! c) \<or> \<not> sc_cancel_event (h ! c) \<and> k \<notin> sc_cancelled_keys (h ! c)))"

lemma abidesD:
  assumes "abides h h'" and "c < length h"
  shows "c < length h'" "sc_cancel_event (h ! c) \<Longrightarrow> sc_cancel_event (h' ! c)"
    "sc_cancelled_keys (h ! c) \<subseteq> sc_cancelled_keys (h' ! c)"
    "k \<in> sc_inflight (h' ! c) \<Longrightarrow>
       k \<in> sc_inflight (h ! c) \<or> \<not> sc_cancel_event (h ! c) \<and> k \<notin> sc_cancelled_keys (h ! c)"
  using assms unfolding abides_def by auto

lemma abides_refl [simp]: "abides h h"
  by (simp add: abides_def)

lemma abides_trans:
  assumes "abides h h1" and "abides h1 h2"
  shows "abides h h2"
  unfolding abides_def
proof (intro conjI allI impI ballI, goal_cases)
  case 1
  then show ?case using assms unfolding abides_def by linarith
next
  case (2 c)
  then show ?case using abidesD(2) [OF assms(2) abidesD(1)] abidesD(2) [OF assms(1)] assms(1) by blast
next
  case (3 c)
  from abidesD(3) [OF assms(1) 3] abidesD(3) [OF assms(2) abidesD(1) [OF assms(1) 3]] show ?case by blast
next
  case (4 c k)
  note l = abidesD(1) [OF assms(1) 4(1)]
  from abidesD(4) [OF assms(2) l 4(2)] abidesD(2-4) [OF assms(1) 4(1)] show ?case by blast
qed

lemma abides_append [simp]: "abides h (h @ h')"
  by (simp add: abides_def nth_append)

lemma abides_update:
  assumes "sc_cancel_event (h ! c) \<Longrightarrow> sc_cancel_event x" and "sc_cancelled_keys (h ! c) \<subseteq> sc_cancelled_keys x"
    and "\<And>k. k \<in> sc_inflight x \<Longrightarrow> k \<in> sc_inflight (h ! c) \<or> \<not> sc_cancel_event (h ! c) \<and> k \<notin> sc_cancelled_keys (h ! c)"
  shows "abides h (h[c := x])"
  unfolding abides_def
proof (intro conjI allI impI ballI, goal_cases)
  case (2 d)
  then show ?case using assms(1) by (cases "d = c") simp_all
next
  case (3 d)
  then show ?case using assms(2) by (cases "d = c") simp_all
next
  case (4 d k)
  then show ?case using assms(3) by (cases "d = c") simp_all
qed simp

lemma abides_settles:
  assumes "settles c n K w w'"
  shows "abides (sb_heap w) (sb_heap w')"
proof -
  note S = settlesD [OF assms] and F = fixed_partD [OF settlesD(5) [OF assms]]
  have "sc_cancel_event (ctx d w') = sc_cancel_event (ctx d w) \<and> sc_cancelled_keys (ctx d w') = sc_cancelled_keys (ctx d w)
      \<and> sc_inflight (ctx d w') \<subseteq> sc_inflight (ctx d w)" for d
    using S(2,6) F(4,5) by (cases "d = c") auto
  then show ?thesis using S(1) unfolding abides_def by (metis order.refl subsetD)
qed

text \<open>The ends of a launch.\<close>

lemma abides_finish_forced: "abides (sb_heap w) (sb_heap (finish_forced failed e c w))"
  by (auto simp: finish_forced_def Let_def intro!: abides_update)

lemma abides_gate_reject: "abides (sb_heap w) (sb_heap (gate_reject f c w))"
  using abides_finish_forced [of "emit es w" for es] by (simp add: gate_reject_def Let_def)

lemma abides_gate_fail: "abides (sb_heap w) (sb_heap (gate_fail t msg rs c w))"
proof -
  obtain st w1 where st: "fail_stuck t (sc_jobset_id (ctx c w)) msg rs w = (st, w1)"
    by (cases "fail_stuck t (sc_jobset_id (ctx c w)) msg rs w")
  let ?es = "(if st \<noteq> [] then [SubJobsChanged c (sc_jobset_id (ctx c w)) st] else [])
    @ [SubError c (sc_jobset_id (ctx c w)) (''pre_submit: '' @ msg), SubGateRejected c (sc_jobset_id (ctx c w)) (sc_arm_token (ctx c w))]"
  show ?thesis
    using abides_finish_forced [of "emit ?es w1"] fail_stuck_simps [OF st] by (simp add: gate_fail_def st Let_def)
qed

lemma abides_finish_if_done: "abides (sb_heap w) (sb_heap (finish_if_done f c w))"
  by (auto simp: finish_if_done_def Let_def intro!: abides_update)

lemma abides_launch_cycle:
  assumes "c < length (sb_heap w)"
  shows "abides (sb_heap w) (sb_heap (launch_cycle t fresh fault c keyed w))"
proof -
  let ?w = "emit [SubStarted c (sc_jobset_id (ctx c w))] w"
  obtain lp w1 where r: "reset_records t fresh c keyed ?w = (lp, w1)" by (cases "reset_records t fresh c keyed ?w")
  have c: "c < length (sb_heap ?w)" using assms by simp
  from reset_records_settles [OF c r] have a: "abides (sb_heap w) (sb_heap w1)"
    using abides_settles [of c _ "{}" ?w w1] by auto
  have rest: "abides (sb_heap w1) (sb_heap (launch_cycle t fresh fault c keyed w))"
  proof (cases fault)
    case None
    let ?w3 = "\<lambda>p es. (emit es w1)\<lparr>sb_pool := p\<rparr>"
    have "abides (sb_heap w1) (sb_heap (finish_if_done True c (?w3 p es)))" for p es
      using abides_finish_if_done [of "?w3 p es"] by simp
    then show ?thesis using None by (simp add: launch_cycle_def r Let_def)
  qed (simp add: launch_cycle_def r Let_def abides_gate_fail)
  from abides_trans [OF a rest] show ?thesis .
qed

lemma abides_pre_submit_begin:
  assumes "pre_submit_begin c w = (go, w')"
  shows "abides (sb_heap w) (sb_heap w')"
proof -
  have "abides (sb_heap w) (sb_heap (gate_reject True c (emit es' (emit es w))))" for es es'
    using abides_gate_reject [of "emit es' (emit es w)"] by simp
  with assms show ?thesis by (auto simp: pre_submit_begin_def Let_def split: if_splits)
qed

lemma abides_pre_submit_end:
  assumes "c < length (sb_heap w)"
  shows "abides (sb_heap w) (sb_heap (pre_submit_end cfg t fresh fault txt c keyed r w))"
proof -
  have "abides (sb_heap w) (sb_heap (gate_reject f c (emit es w)))"
    "abides (sb_heap w) (sb_heap (gate_fail t txt [] c (emit es w)))"
    "abides (sb_heap w) (sb_heap (launch_cycle t fresh fault c keyed (emit es w)))" for f es
    using abides_gate_reject [of "emit es w"] abides_gate_fail [of "emit es w"] abides_launch_cycle [of c "emit es w"] assms
    by simp_all
  then show ?thesis by (simp add: pre_submit_end_def Let_def split: sum.split)
qed


text \<open>The callbacks of a task, of a timer and of a kill.\<close>

lemma guard_task_abides:
  assumes "c < length (sb_heap w)" and "callback_ok c w out"
  shows "abides (sb_heap w) (sb_heap (guard_task t txt c k out))"
  by (rule abides_settles [OF settles_guard_task [OF assms]])

lemma abides_begin:
  assumes c: "tk_ctx task < length (sb_heap w)" and run: "task_begin t txt task w = (ph, w')"
  shows "abides (sb_heap w) (sb_heap w')"
proof -
  let ?c = "tk_ctx task" and ?k = "tk_key task"
  obtain entered w1 where e: "enter_inflight ?c ?k w = (entered, w1)" by (cases "enter_inflight ?c ?k w")
  have w1: "abides (sb_heap w) (sb_heap w1)" "?c < length (sb_heap w1)"
    using e c by (auto simp: enter_inflight_def Let_def split: if_splits intro!: abides_update)
  obtain r w2 where r: "on_store (transition (ck_wall t) (sc_jobset_id (ctx ?c w1)) ?k (Some SUBMITTING) None []) w1 = (r, w2)"
    by (cases "on_store (transition (ck_wall t) (sc_jobset_id (ctx ?c w1)) ?k (Some SUBMITTING) None []) w1")
  note st = settles_store_count [OF w1(2) r]
  have c2: "?c < length (sb_heap w2)" using settles_length [OF st(1)] w1(2) by simp
  have cancelled: "abides (sb_heap w1) (sb_heap (guard_task t txt ?c ?k (task_cancelled t ?c ?k w1)))"
    by (rule guard_task_abides [OF w1(2) ok_task_cancelled [OF w1(2)]])
  have failed: "abides (sb_heap w1) (sb_heap (guard_task t txt ?c ?k (Inr (), task_vanished t ?c w2)))"
    "abides (sb_heap w1) (sb_heap (guard_task t txt ?c ?k (Inl e', w2)))" for e'
    by (rule guard_task_abides [OF w1(2)], use st in \<open>simp add: task_vanished_def\<close>)+
  have started: "abides (sb_heap w1) (sb_heap (note_transition t s ?c w2))" for s
    by (rule abides_settles [OF settles_00 [OF st(1) settles_note_transition [OF c2]]])
  have "abides (sb_heap w1) (sb_heap w')"
    using run cancelled failed started abides_settles [OF st(1)]
    by (cases entered; cases r) (auto simp: task_begin_def e r Let_def split: if_splits)
  with w1(1) show ?thesis by (rule abides_trans)
qed

lemma abides_acquire:
  assumes c: "tk_ctx task < length (sb_heap w)" and run: "task_acquire t txt task w = (ph, w')"
  shows "abides (sb_heap w) (sb_heap w')"
proof -
  let ?c = "tk_ctx task" and ?k = "tk_key task"
  obtain got sl where sl: "slots_acquire_round (job_cancelled ?c ?k w) (sc_slots (ctx ?c w)) = (got, sl)"
    by (cases "slots_acquire_round (job_cancelled ?c ?k w) (sc_slots (ctx ?c w))")
  let ?w1 = "set_ctx ?c ((ctx ?c w)\<lparr>sc_slots := sl\<rparr>) w"
  have s1: "abides (sb_heap w) (sb_heap ?w1)" by (rule abides_settles [OF slots_settle [OF c]])
  have c1: "?c < length (sb_heap ?w1)" using c by simp
  have "abides (sb_heap ?w1) (sb_heap w')"
    using run guard_task_abides [OF c1 ok_task_cancelled [OF c1]]
      guard_task_abides [OF c1 ok_release_after [OF c1 ok_task_cancelled [OF c1]]]
    by (auto simp: task_acquire_def sl Let_def split: option.splits bool.splits if_splits)
  with s1 show ?thesis by (rule abides_trans)
qed

lemma abides_reschedule:
  "abides (sb_heap w) (sb_heap (leave_inflight c k (release_slot c (schedule_retry c k delay task w))))"
proof -
  have sched: "abides (sb_heap v) (sb_heap (schedule_retry c k delay task v))" for v
    by (auto simp: schedule_retry_def intro!: abides_update)
  have rel: "abides (sb_heap v) (sb_heap (release_slot c v))" for v
    by (auto simp: release_slot_def intro!: abides_update)
  have leave: "abides (sb_heap v) (sb_heap (leave_inflight c k v))" for v
    by (auto simp: leave_inflight_def intro!: abides_update)
  from abides_trans [OF abides_trans [OF sched rel] leave] show ?thesis .
qed

lemma abides_finish:
  assumes "tk_ctx task < length (sb_heap w)"
  shows "abides (sb_heap w) (sb_heap (task_finish t txt task r w))"
  using ok_task_finish [OF assms, of t "txt" r]
proof
  assume "\<exists>w1 delay. settles (tk_ctx task) 0 {} w w1 \<and> task_finish t txt task r w =
       leave_inflight (tk_ctx task) (tk_key task) (release_slot (tk_ctx task)
         (schedule_retry (tk_ctx task) (tk_key task) delay (task\<lparr>tk_attempt := Suc (tk_attempt task)\<rparr>) w1))"
  then obtain w1 delay where s: "settles (tk_ctx task) 0 {} w w1" and eq: "task_finish t txt task r w =
       leave_inflight (tk_ctx task) (tk_key task) (release_slot (tk_ctx task)
         (schedule_retry (tk_ctx task) (tk_key task) delay (task\<lparr>tk_attempt := Suc (tk_attempt task)\<rparr>) w1))" by blast
  show ?thesis unfolding eq by (rule abides_trans [OF abides_settles [OF s] abides_reschedule])
qed (rule abides_settles)

lemma abides_fire:
  assumes "c < length (sb_heap w)"
  shows "abides (sb_heap w) (sb_heap (retry_fire t c k w))"
proof -
  let ?w1 = "set_ctx c ((ctx c w)\<lparr>sc_pending_retries := ddel k (sc_pending_retries (ctx c w))\<rparr>) w"
  have "abides (sb_heap w) (sb_heap ?w1)" by (auto intro!: abides_update)
  moreover have "abides (sb_heap ?w1) (sb_heap (finalize_retry t r c e ?w1))" for r e
    by (rule abides_settles [OF settles_finalize]) (use assms in simp)
  ultimately have "abides (sb_heap w) (sb_heap (finalize_retry t r c e ?w1))" for r e by (rule abides_trans)
  with \<open>abides (sb_heap w) (sb_heap ?w1)\<close> show ?thesis
    by (simp add: retry_fire_def Let_def split: option.split)
qed

lemma abides_mark: "abides (sb_heap w) (sb_heap (mark_scope keys c w))"
  by (auto simp: mark_scope_def split: option.split intro!: abides_update)

lemma abides_pop: "pop_retries keys c w = (es, w') \<Longrightarrow> abides (sb_heap w) (sb_heap w')"
  by (auto simp: pop_retries_def Let_def intro!: abides_update)

lemma abides_submit:
  assumes "resubmit_existing cfg j keyed opts token w = (r, w')"
  shows "abides (sb_heap w) (sb_heap w')"
proof (cases "sb_shutdown w")
  case False
  obtain c w1 where n: "new_context cfg j (map fst keyed) opts token w = (c, w1)"
    by (cases "new_context cfg j (map fst keyed) opts token w")
  then obtain x where "sb_heap w1 = sb_heap w @ [x]" by (rule new_context_eq) simp
  then have a: "abides (sb_heap w) (sb_heap w1)" by simp
  have "abides (sb_heap w1) (sb_heap (gate_reject True c (emit [SubStarted c j] w1)))"
    using abides_gate_reject [of "emit [SubStarted c j] w1"] by simp
  from abides_trans [OF a this] a assms False n show ?thesis
    by (auto simp: resubmit_existing_def split: if_splits)
qed (use assms in \<open>simp add: resubmit_existing_def\<close>)

lemma abides_step:
  "cycle_step cfg m m' \<Longrightarrow> cycle_inv loud m \<Longrightarrow> abides (sb_heap (cw_sub m)) (sb_heap (cw_sub m'))"
proof (induction rule: cycle_step.induct)
  case (step_gate_end m a c keyed b t fresh fault tx r)
  then show ?case using cycle_invD(3) [OF step_gate_end(2), of c keyed] by (simp add: abides_pre_submit_end)
next
  case (step_launch m a c keyed b t fresh fault)
  then show ?case using cycle_invD(3) [OF step_launch(2), of c keyed] by (simp add: abides_launch_cycle)
next
  case (step_begin m a task prio b t tx ph w')
  then have "tk_ctx task < length (sb_heap (cw_sub m))"
    using cycle_invD(1) [OF step_begin(3), of task] by (simp add: tasks_of_def)
  with abides_begin [OF _ step_begin(2)] show ?case by simp
next
  case (step_acquire m a task b t tx ph w')
  then have "tk_ctx task < length (sb_heap (cw_sub m))"
    using cycle_invD(1) [OF step_acquire(3), of task] by (simp add: tasks_of_def)
  with abides_acquire [OF _ step_acquire(2)] show ?case by simp
next
  case (step_finish m a task b t tx r)
  then have "tk_ctx task < length (sb_heap (cw_sub m))"
    using cycle_invD(1) [OF step_finish(2), of task] by (simp add: tasks_of_def)
  with abides_finish show ?case by simp
next
  case (step_timer c m t k)
  then show ?case using abides_fire [of c "cw_sub m"] by (simp add: on_retry_requested_def split: option.split)
next
  case (step_finalize m a c e reason b t)
  then show ?case using cycle_invD(2) [OF step_finalize(2), of "(c, e, reason)"]
    by (simp add: abides_settles [OF settles_finalize])
qed (simp_all add: abides_submit abides_pre_submit_begin abides_fire abides_mark abides_pop)

lemma steps_inv:
  assumes "(cycle_step cfg)\<^sup>*\<^sup>* m m'" and "cycle_inv (sx_submit_finished_on_gate_reject cfg) m"
  shows "cycle_inv (sx_submit_finished_on_gate_reject cfg) m' \<and> abides (sb_heap (cw_sub m)) (sb_heap (cw_sub m'))"
  using assms
proof (induction rule: rtranclp_induct)
  case (step m1 m2)
  then show ?case using abides_step [OF step(2)] cycle_step_inv [OF step(2)] abides_trans by blast
qed simp


section \<open>Every cycle can be finished\<close>

lemma ctx_accounts:
  assumes "cycle_inv loud m" and "c < length (sb_heap (cw_sub m))"
  shows "sc_done (ctx c (cw_sub m)) + int (size (open_units c m)) = sc_total (ctx c (cw_sub m))"
    and "sc_finished (ctx c (cw_sub m)) \<longleftrightarrow> open_units c m = {#} \<and> \<not> in_launch c m"
    and "units_done (ctx c (cw_sub m)) = sc_done (ctx c (cw_sub m))"
  using cycle_invD(6) [OF assms] by (simp_all add: ctx_inv_def acct_inv_def)

text \<open>A step that settles a unit of a context leaves it fewer open ones.\<close>

lemma fewer_units:
  assumes inv: "cycle_inv (sx_submit_finished_on_gate_reject cfg) m" and c: "c < length (sb_heap (cw_sub m))"
    and step: "cycle_step cfg m m'" and s: "settles c 1 K w0 (cw_sub m')"
    and w0: "sc_done (ctx c w0) = sc_done (ctx c (cw_sub m))" "sc_total (ctx c w0) = sc_total (ctx c (cw_sub m))"
  shows "size (open_units c m') < size (open_units c m)"
proof -
  have inv': "cycle_inv (sx_submit_finished_on_gate_reject cfg) m'" by (rule cycle_step_inv [OF step inv])
  have c': "c < length (sb_heap (cw_sub m'))" by (rule abidesD(1) [OF abides_step [OF step inv] c])
  have "sc_done (ctx c (cw_sub m')) = sc_done (ctx c (cw_sub m)) + 1" using settlesD(7) [OF s] w0 by simp
  moreover have "sc_total (ctx c (cw_sub m')) = sc_total (ctx c (cw_sub m))"
    using fixed_partD(2) [OF settlesD(5) [OF s]] w0 by simp
  ultimately show ?thesis using ctx_accounts(1) [OF inv c] ctx_accounts(1) [OF inv' c'] by linarith
qed

text \<open>One step for a unit of a cancelled context, by the place where it waits.\<close>

lemma drain_pool:
  assumes inv: "cycle_inv (sx_submit_finished_on_gate_reject cfg) m" and c: "c < length (sb_heap (cw_sub m))"
    and cancelled: "sc_cancel_event (ctx c (cw_sub m))"
    and here: "task \<in> fst ` set (sb_pool (cw_sub m))" "tk_ctx task = c"
  shows "\<exists>m'. cycle_step cfg m m' \<and> size (open_units c m') < size (open_units c m)"
proof -
  obtain a prio b where p: "sb_pool (cw_sub m) = a @ (task, prio) # b"
    using here(1) by (auto dest: split_list)
  let ?w = "(cw_sub m)\<lparr>sb_pool := a @ b\<rparr>" and ?k = "tk_key task"
  let ?w' = "guard_task t [] c ?k (task_cancelled t c ?k ?w)"
  have cw: "c < length (sb_heap ?w)" using c by simp
  have run: "task_begin t [] task ?w = (None, ?w')"
    using cancelled here(2) by (simp add: task_begin_def enter_inflight_def Let_def)
  have s: "settles c 1 {?k} ?w ?w'" by (rule settles_guard_task [OF cw ok_task_cancelled [OF cw]])
  note step = step_begin [OF p run, of cfg]
  from fewer_units [OF inv c step, of "{?k}" ?w] s step show ?thesis by auto
qed

lemma drain_waiting:
  assumes inv: "cycle_inv (sx_submit_finished_on_gate_reject cfg) m" and c: "c < length (sb_heap (cw_sub m))"
    and cancelled: "sc_cancel_event (ctx c (cw_sub m))"
    and here: "(task, WaitingSlot) \<in> set (cw_running m)" "tk_ctx task = c"
  shows "\<exists>m'. cycle_step cfg m m' \<and> size (open_units c m') < size (open_units c m)"
proof -
  obtain a b where p: "cw_running m = a @ (task, WaitingSlot) # b" using here(1) by (auto dest: split_list)
  let ?w = "cw_sub m" and ?k = "tk_key task"
  obtain got sl where sl: "slots_acquire_round (job_cancelled c ?k ?w) (sc_slots (ctx c ?w)) = (got, sl)"
    by (cases "slots_acquire_round (job_cancelled c ?k ?w) (sc_slots (ctx c ?w))")
  have jc: "job_cancelled c ?k ?w" using cancelled by (simp add: job_cancelled_def)
  let ?w1 = "set_ctx c ((ctx c ?w)\<lparr>sc_slots := sl\<rparr>) ?w"
  have jc1: "job_cancelled c ?k ?w1" using cancelled c by (simp add: job_cancelled_def)
  have c1: "c < length (sb_heap ?w1)" using c by simp
  obtain out where out: "callback_ok c ?w1 out" "task_acquire t [] task ?w = (None, guard_task t [] c ?k out)"
  proof (cases "got = Some True")
    case True
    then show thesis
      using that [of "release_after c (task_cancelled t c ?k ?w1)"] ok_release_after [OF c1 ok_task_cancelled [OF c1]] jc1
      by (simp add: task_acquire_def here(2) sl Let_def)
  next
    case False
    then have "got = Some False" using sl jc by (auto simp: slots_acquire_round_def split: if_splits)
    then show thesis
      using that [of "task_cancelled t c ?k ?w1"] ok_task_cancelled [OF c1]
      by (simp add: task_acquire_def here(2) sl Let_def)
  qed
  have s: "settles c 1 {?k} ?w1 (guard_task t [] c ?k out)" by (rule settles_guard_task [OF c1 out(1)])
  note step = step_acquire [OF p out(2), of cfg]
  from fewer_units [OF inv c step, of "{?k}" ?w1] s step c show ?thesis by auto
qed

lemma drain_executing:
  assumes inv: "cycle_inv (sx_submit_finished_on_gate_reject cfg) m" and c: "c < length (sb_heap (cw_sub m))"
    and cancelled: "sc_cancel_event (ctx c (cw_sub m))"
    and here: "(task, Executing) \<in> set (cw_running m)" "tk_ctx task = c"
  shows "\<exists>m'. cycle_step cfg m m' \<and> size (open_units c m') < size (open_units c m)"
proof -
  obtain a b where p: "cw_running m = a @ (task, Executing) # b" using here(1) by (auto dest: split_list)
  let ?w = "cw_sub m" and ?k = "tk_key task"
  have eq: "task_finish t [] task (Inr 0) ?w = guard_task t [] c ?k (release_after c (task_succeeded t c ?k 0 ?w))"
    by (simp add: task_finish_def here(2) Let_def)
  have s: "settles c 1 {?k} ?w (task_finish t [] task (Inr 0) ?w)"
    unfolding eq by (rule settles_guard_task [OF c ok_release_after [OF c ok_succeeded [OF c]]])
  note step = step_finish [OF p, of cfg t "[]" "Inr 0"]
  from fewer_units [OF inv c step, of "{?k}" ?w] s step show ?thesis by auto
qed

lemma drain_ledger:
  assumes inv: "cycle_inv (sx_submit_finished_on_gate_reject cfg) m" and c: "c < length (sb_heap (cw_sub m))"
    and cancelled: "sc_cancel_event (ctx c (cw_sub m))"
    and here: "sc_pending_retries (ctx c (cw_sub m)) \<noteq> []"
  shows "\<exists>m'. cycle_step cfg m m' \<and> size (open_units c m') < size (open_units c m)"
proof -
  obtain k e rest where l: "sc_pending_retries (ctx c (cw_sub m)) = (k, e) # rest"
    using here by (cases "sc_pending_retries (ctx c (cw_sub m))") auto
  then have e: "dget (sc_pending_retries (ctx c (cw_sub m))) k = Some e" by simp
  let ?w1 = "set_ctx c ((ctx c (cw_sub m))\<lparr>sc_pending_retries := ddel k (sc_pending_retries (ctx c (cw_sub m)))\<rparr>) (cw_sub m)"
  have eq: "retry_fire t c k (cw_sub m) = finalize_retry t ''CANCELLED'' c e ?w1"
    using e cancelled c by (simp add: retry_fire_def Let_def)
  have s: "settles c 1 {} ?w1 (retry_fire t c k (cw_sub m))"
    unfolding eq by (rule settles_finalize) (use c in simp)
  note step = step_fire [OF c, of cfg t k]
  from fewer_units [OF inv c step, of "{}" ?w1] s step c show ?thesis by auto
qed

lemma drain_popped:
  assumes inv: "cycle_inv (sx_submit_finished_on_gate_reject cfg) m" and c: "c < length (sb_heap (cw_sub m))"
    and cancelled: "sc_cancel_event (ctx c (cw_sub m))"
    and here: "(c, e, reason) \<in> set (cw_popped m)"
  shows "\<exists>m'. cycle_step cfg m m' \<and> size (open_units c m') < size (open_units c m)"
proof -
  obtain a b where p: "cw_popped m = a @ (c, e, reason) # b" using here by (auto dest: split_list)
  note step = step_finalize [OF p, of cfg t]
  from fewer_units [OF inv c step, of "{}" "cw_sub m"] settles_finalize [OF c] step show ?thesis by auto
qed

lemma drain_launch:
  assumes inv: "cycle_inv (sx_submit_finished_on_gate_reject cfg) m" and c: "c < length (sb_heap (cw_sub m))"
    and cancelled: "sc_cancel_event (ctx c (cw_sub m))"
    and here: "in_launch c m"
  shows "\<exists>m'. cycle_step cfg m m' \<and> sc_finished (ctx c (cw_sub m'))"
proof -
  obtain keyed where "(c, keyed) \<in> set (cw_launching m)" using here unfolding in_launch_def by force
  then obtain a b where p: "cw_launching m = a @ (c, keyed) # b" by (auto dest: split_list)
  let ?w1 = "emit [SubPreSubmitFinished c (sc_jobset_id (ctx c (cw_sub m))) False] (cw_sub m)"
  let ?w' = "pre_submit_end cfg t (\<lambda>_. []) None [] c keyed (Inr True) (cw_sub m)"
  have eq: "?w' = gate_reject True c ?w1" using cancelled by (simp add: pre_submit_end_def Let_def)
  have "forces True c ?w1 ?w'" unfolding eq by (rule forces_gate_reject) (use c in simp)
  then have "sc_finished (ctx c ?w')" using c by (auto simp: forces_def)
  with step_gate_end [OF p, of cfg t "\<lambda>_. []" None "[]" "Inr True"] show ?thesis by auto
qed

lemma drain_step:
  assumes inv: "cycle_inv (sx_submit_finished_on_gate_reject cfg) m" and c: "c < length (sb_heap (cw_sub m))"
    and cancelled: "sc_cancel_event (ctx c (cw_sub m))"
    and here: "\<not> sc_finished (ctx c (cw_sub m))"
  shows "\<exists>m'. cycle_step cfg m m' \<and>
    (sc_finished (ctx c (cw_sub m')) \<or> size (open_units c m') < size (open_units c m))"
proof (cases "in_launch c m")
  case False
  then have "open_units c m \<noteq> {#}" using ctx_accounts(2) [OF inv c] here by simp
  moreover have "launch_keys c (cw_launching m) = {#}"
    by (rule launch_keys_none) (use False in \<open>simp add: in_launch_def\<close>)
  ultimately consider (pool) "task_keys c (map fst (sb_pool (cw_sub m))) \<noteq> {#}"
    | (running) "task_keys c (map fst (cw_running m)) \<noteq> {#}" | (ledger) "sc_pending_retries (ctx c (cw_sub m)) \<noteq> []"
    | (popped) "popped_keys c (cw_popped m) \<noteq> {#}" by (auto simp: open_units_def)
  then show ?thesis
  proof cases
    case pool
    then obtain task where "task \<in> set (map fst (sb_pool (cw_sub m)))" "tk_ctx task = c"
      using task_keys_not by blast
    with drain_pool [OF inv c cancelled, of task] show ?thesis by auto
  next
    case running
    then obtain task where "task \<in> set (map fst (cw_running m))" "tk_ctx task = c"
      using task_keys_not by blast
    then obtain ph where "(task, ph) \<in> set (cw_running m)" "tk_ctx task = c" by auto
    with drain_waiting [OF inv c cancelled, of task] drain_executing [OF inv c cancelled, of task] show ?thesis by (cases ph) blast+
  next
    case popped
    then have "c \<in> fst ` set (cw_popped m)" using popped_keys_none by blast
    with drain_popped [OF inv c cancelled] show ?thesis by force
  qed (use drain_ledger [OF inv c cancelled] in blast)
qed (use drain_launch [OF inv c cancelled] in blast)

lemma drain:
  assumes "cycle_inv (sx_submit_finished_on_gate_reject cfg) m" and "c < length (sb_heap (cw_sub m))"
    and "sc_cancel_event (ctx c (cw_sub m))"
  shows "\<exists>m'. (cycle_step cfg)\<^sup>*\<^sup>* m m' \<and> sc_finished (ctx c (cw_sub m'))"
  using assms
proof (induction "size (open_units c m)" arbitrary: m rule: less_induct)
  case less
  show ?case
  proof (cases "sc_finished (ctx c (cw_sub m))")
    case False
    from drain_step [OF less.prems this] obtain m1 where step: "cycle_step cfg m m1"
      and rest: "sc_finished (ctx c (cw_sub m1)) \<or> size (open_units c m1) < size (open_units c m)" by blast
    note a = abides_step [OF step less.prems(1)]
    from rest show ?thesis
    proof
      assume "size (open_units c m1) < size (open_units c m)"
      from less.hyps [OF this cycle_step_inv [OF step less.prems(1)] abidesD(1) [OF a less.prems(2)]
          abidesD(2) [OF a less.prems(2,3)]]
      show ?thesis using step by (meson converse_rtranclp_into_rtranclp)
    qed (use step in blast)
  qed blast
qed

section \<open>A sample run\<close>

text \<open>One job is submitted, launched, picked up by a worker, executed, and recorded.\<close>

definition demo_sub_config :: sub_config where
  "demo_sub_config = \<lparr> sx_progress_min_interval_s = 0, sx_progress_min_step_ratio = 0,
     sx_submit_finished_on_gate_reject = True, sx_workers = 4 \<rparr>"

definition demo_clock :: clock where
  "demo_clock = \<lparr> ck_wall = 100, ck_mono = 7 \<rparr>"

definition demo_keyed :: "(job_key \<times> string list) list" where
  "demo_keyed = [(''b'', [''run'', ''x''])]"

definition demo_submitted :: cycle_world where
  "demo_submitted = cycle_start\<lparr>cw_sub := snd (resubmit_existing demo_sub_config ''js'' demo_keyed default_Options 0
       ((cw_sub cycle_start)\<lparr>sb_store := demo_store, sb_gate := new_SubmitGate\<rparr>)), cw_launching := [(0, demo_keyed)]\<rparr>"

definition demo_launched :: cycle_world where
  "demo_launched = demo_submitted\<lparr>cw_sub := launch_cycle demo_clock (\<lambda>_. ''g9'') None 0 demo_keyed (cw_sub demo_submitted),
     cw_launching := []\<rparr>"

definition demo_task :: submit_task where
  "demo_task = \<lparr> tk_ctx = 0, tk_key = ''b'', tk_argv = [''run'', ''x''], tk_attempt = 0, tk_cwd = None \<rparr>"

definition demo_begun :: cycle_world where
  "demo_begun = demo_launched\<lparr>cw_sub := snd (task_begin demo_clock [] demo_task ((cw_sub demo_launched)\<lparr>sb_pool := []\<rparr>)),
     cw_running := [(demo_task, WaitingSlot)]\<rparr>"

definition demo_executing :: cycle_world where
  "demo_executing = demo_begun\<lparr>cw_sub := snd (task_acquire demo_clock [] demo_task (cw_sub demo_begun)),
     cw_running := [(demo_task, Executing)]\<rparr>"

definition demo_finished :: cycle_world where
  "demo_finished = demo_executing\<lparr>cw_sub := task_finish demo_clock [] demo_task (Inr 42) (cw_sub demo_executing),
     cw_running := []\<rparr>"

lemma demo_submitted_reach: "cycle_reach demo_sub_config demo_submitted"
proof -
  let ?w = "(cw_sub cycle_start)\<lparr>sb_store := demo_store, sb_gate := new_SubmitGate\<rparr>"
  let ?r = "resubmit_existing demo_sub_config ''js'' demo_keyed default_Options 0 ?w"
  have "fst ?r = Some 0" by code_simp
  then have r: "?r = (Some 0, snd ?r)" by (metis prod.collapse)
  have d: "distinct (map fst demo_keyed)" by (simp add: demo_keyed_def)
  have "cycle_step demo_sub_config cycle_start (cycle_start\<lparr>cw_sub := ?w\<rparr>)" by (rule step_world)
  then have "cycle_reach demo_sub_config (cycle_start\<lparr>cw_sub := ?w\<rparr>)" by blast
  moreover have "?w = cw_sub (cycle_start\<lparr>cw_sub := ?w\<rparr>)" by simp
  then have "cycle_step demo_sub_config (cycle_start\<lparr>cw_sub := ?w\<rparr>) ((cycle_start\<lparr>cw_sub := ?w\<rparr>)\<lparr>cw_sub := snd ?r,
      cw_launching := cw_launching (cycle_start\<lparr>cw_sub := ?w\<rparr>) @ (case Some 0 of None \<Rightarrow> [] | Some c \<Rightarrow> [(c, demo_keyed)])\<rparr>)"
    using r by (intro step_submit [OF d]) simp
  then have "cycle_step demo_sub_config (cycle_start\<lparr>cw_sub := ?w\<rparr>) demo_submitted"
    by (simp add: demo_submitted_def cycle_start_def)
  ultimately show ?thesis by (rule rtranclp.rtrancl_into_rtrancl)
qed

lemma demo_launched_reach: "cycle_reach demo_sub_config demo_launched"
proof -
  have "cw_launching demo_submitted = [] @ (0, demo_keyed) # []" by (simp add: demo_submitted_def)
  from step_launch [OF this, of demo_sub_config demo_clock "\<lambda>_. ''g9''" None]
  have "cycle_step demo_sub_config demo_submitted demo_launched" unfolding demo_launched_def by simp
  with demo_submitted_reach show ?thesis by (rule rtranclp.rtrancl_into_rtrancl)
qed

lemma demo_begun_reach: "cycle_reach demo_sub_config demo_begun"
proof -
  have pool: "sb_pool (cw_sub demo_launched) = [] @ (demo_task, 0) # []" by code_simp
  let ?r = "task_begin demo_clock [] demo_task ((cw_sub demo_launched)\<lparr>sb_pool := [] @ []\<rparr>)"
  have "fst ?r = Some WaitingSlot" by code_simp
  then have r: "?r = (Some WaitingSlot, snd ?r)" by (metis prod.collapse)
  have "cw_running demo_launched = []" by (simp add: demo_launched_def demo_submitted_def cycle_start_def)
  with step_begin [OF pool r, of demo_sub_config] have "cycle_step demo_sub_config demo_launched demo_begun"
    unfolding demo_begun_def by simp
  with demo_launched_reach show ?thesis by (rule rtranclp.rtrancl_into_rtrancl)
qed
lemma demo_executing_reach: "cycle_reach demo_sub_config demo_executing"
proof -
  have running: "cw_running demo_begun = [] @ (demo_task, WaitingSlot) # []" by (simp add: demo_begun_def)
  let ?r = "task_acquire demo_clock [] demo_task (cw_sub demo_begun)"
  have "fst ?r = Some Executing" by code_simp
  then have r: "?r = (Some Executing, snd ?r)" by (metis prod.collapse)
  from step_acquire [OF running r, of demo_sub_config] have "cycle_step demo_sub_config demo_begun demo_executing"
    unfolding demo_executing_def by simp
  with demo_begun_reach show ?thesis by (rule rtranclp.rtrancl_into_rtrancl)
qed

lemma demo_finished_reach: "cycle_reach demo_sub_config demo_finished"
proof -
  have "cw_running demo_executing = [] @ (demo_task, Executing) # []" by (simp add: demo_executing_def)
  from step_finish [OF this, of demo_sub_config demo_clock "[]" "Inr 42"]
  have "cycle_step demo_sub_config demo_executing demo_finished" unfolding demo_finished_def by simp
  with demo_executing_reach show ?thesis by (rule rtranclp.rtrancl_into_rtrancl)
qed

section \<open>What holds over every interleaving\<close>

text \<open>
  C14: At every moment of every interleaving, a submit cycle's counters balance: succeeded,
  failed and cancelled add up to the units done; done and the units still open, wherever they
  wait (pool, worker, retry ledger, an aborting kill, the launch), add up to the total; no job
  waits twice; and the cycle is finished exactly when nothing is open and its launch is over.
\<close>

lemma submit_accounts_balance:
  assumes "cycle_reach cfg m" and "c < length (sb_heap (cw_sub m))"
  shows "sc_succeeded (ctx c (cw_sub m)) + sc_failed (ctx c (cw_sub m)) + sc_cancelled (ctx c (cw_sub m))
      = sc_done (ctx c (cw_sub m)) \<and>
    sc_done (ctx c (cw_sub m)) + int (size (open_units c m)) = sc_total (ctx c (cw_sub m)) \<and>
    (\<forall>k. count (open_units c m) k \<le> 1) \<and>
    (sc_finished (ctx c (cw_sub m)) \<longleftrightarrow> open_units c m = {#} \<and> \<not> in_launch c m)"
  using ctx_accounts [OF cycle_reach_inv [OF assms(1)] assms(2)] unit_once [OF cycle_reach_inv [OF assms(1)] assms(2)]
  by (simp add: units_done_def)

theorem submit_accounts_balance_witness:
  "sc_done (ctx 0 (cw_sub demo_begun)) + int (size (open_units 0 demo_begun)) = 1 \<and>
   \<not> sc_finished (ctx 0 (cw_sub demo_begun))"
proof -
  have l: "length (sb_heap (cw_sub demo_begun)) = 1" and tot: "sc_total (ctx 0 (cw_sub demo_begun)) = 1"
    and f: "\<not> sc_finished (ctx 0 (cw_sub demo_begun))" by code_simp+
  from submit_accounts_balance [OF demo_begun_reach, of 0] l tot f show ?thesis by simp
qed

text \<open>
  C15: A cycle reports its completion at most once, only when it is finished, and the numbers of
  that report are final: they add up to the total. When gate rejections report too, a cycle is
  finished exactly when its report is out.
\<close>

lemma submit_finished_reported_once:
  assumes "cycle_reach cfg m" and "c < length (sb_heap (cw_sub m))"
  shows "length (reports_of c (cw_sub m)) \<le> 1 \<and>
    (\<forall>r\<in>set (reports_of c (cw_sub m)). sc_finished (ctx c (cw_sub m)) \<and> srp_total r = sc_total (ctx c (cw_sub m)) \<and>
       srp_succeeded r + srp_failed r + srp_cancelled r = srp_total r) \<and>
    (sx_submit_finished_on_gate_reject cfg \<longrightarrow> (sc_finished (ctx c (cw_sub m)) \<longleftrightarrow> reports_of c (cw_sub m) \<noteq> []))"
  using cycle_invD(6) [OF cycle_reach_inv [OF assms(1)] assms(2)]
  by (auto simp: ctx_inv_def acct_inv_def report_units_def)

theorem submit_finished_reported_once_witness:
  "\<exists>r. reports_of 0 (cw_sub demo_finished) = [r] \<and> srp_total r = 1 \<and> srp_succeeded r = 1 \<and>
     srp_failed r + srp_cancelled r = 0 \<and> sc_finished (ctx 0 (cw_sub demo_finished))"
proof -
  have l: "length (sb_heap (cw_sub demo_finished)) = 1"
    and r: "map (\<lambda>r. (srp_total r, srp_succeeded r)) (reports_of 0 (cw_sub demo_finished)) = [(1, 1)]" by code_simp+
  from submit_finished_reported_once [OF demo_finished_reach, of 0] l r show ?thesis by auto
qed





end
