(* ===== verification/SubmitSlots.thy ===== *)
theory SubmitSlots
  imports SubmitLaws
begin

text \<open>
  The limit of concurrent submissions: the slots a cycle holds and the wrappers that run for it
  always add up to its limit.
\<close>

section \<open>Worker slots\<close>

text \<open>What the contexts hold of slots: only taking and releasing one changes it.\<close>

definition slot_view :: "sub \<Rightarrow> (WorkerSlots \<times> Options) list" where
  "slot_view w = map (\<lambda>x. (sc_slots x, sc_options x)) (sb_heap w)"

lemma slot_view_heap: "sb_heap w' = sb_heap w \<Longrightarrow> slot_view w' = slot_view w"
  by (simp add: slot_view_def)

lemma slot_view_set_ctx: "slot_view (set_ctx c x w) = (slot_view w)[c := (sc_slots x, sc_options x)]"
  by (simp add: slot_view_def map_update)

lemma slot_view_set [simp]:
  assumes "sc_slots x = sc_slots (ctx c w)" and "sc_options x = sc_options (ctx c w)"
  shows "slot_view (set_ctx c x w) = slot_view w"
proof (cases "c < length (sb_heap w)")
  case True
  then have "slot_view w ! c = (sc_slots x, sc_options x)" using assms by (simp add: slot_view_def)
  then show ?thesis unfolding slot_view_set_ctx by (metis list_update_id)
qed (simp add: slot_view_def list_update_beyond)

lemma slot_view_simps [simp]:
  "slot_view (emit es w) = slot_view w" "slot_view (drop_ctx c w) = slot_view w"
  "slot_view (w\<lparr>sb_pool := p\<rparr>) = slot_view w" "slot_view (w\<lparr>sb_forgotten := f\<rparr>) = slot_view w"
  "slot_view (w\<lparr>sb_timers := ts\<rparr>) = slot_view w"
  by (simp_all add: slot_view_def)

lemma slot_view_on_store [simp]: "slot_view (snd (on_store f w)) = slot_view w"
  by (auto simp: on_store_def slot_view_def split: prod.split)

lemma slot_view_emit_progress [simp]: "slot_view (emit_progress t p c w) = slot_view w"
  by (simp add: emit_progress_def Let_def split: prod.split)

lemma slot_view_finish_if_done [simp]: "slot_view (finish_if_done f c w) = slot_view w"
  by (simp add: finish_if_done_def Let_def)

lemma counted_slots [simp]: "sc_slots (counted n kind ch x) = sc_slots x" "sc_options (counted n kind ch x) = sc_options x"
  by (simp_all add: counted_def Let_def split: unit_kind.split option.split)

lemma slot_view_count [simp]: "slot_view (count_units t n kind ch c w) = slot_view w"
  by (simp add: count_units_def)

lemma slot_view_note [simp]: "slot_view (note_transition t ch c w) = slot_view w"
  by (simp add: note_transition_def split: option.split)

lemma slot_view_store:
  assumes "on_store f w = (r, w')"
  shows "slot_view w' = slot_view w"
  using slot_view_on_store [of f w] assms by simp

lemma slot_view_vanished [simp]: "slot_view (task_vanished t c w) = slot_view w"
  by (simp add: task_vanished_def)

lemma slot_view_crashed [simp]: "slot_view (task_crashed t tx c k e w) = slot_view w"
  by (auto simp: task_crashed_def Let_def slot_view_store split: prod.split)

lemma slot_view_leave [simp]: "slot_view (leave_inflight c k w) = slot_view w"
  by (simp add: leave_inflight_def)

lemma slot_view_guard [simp]: "slot_view (guard_task t tx c k out) = slot_view (snd out)"
  by (cases out; cases "fst out") (auto simp: guard_task_def)

lemma slot_view_succeeded [simp]: "slot_view (snd (task_succeeded t c k i w)) = slot_view w"
  by (auto simp: task_succeeded_def slot_view_store split: prod.split sum.split)

lemma slot_view_cancelled [simp]: "slot_view (snd (task_cancelled t c k w)) = slot_view w"
  by (auto simp: task_cancelled_def mark_cancelled_def slot_view_store split: prod.split sum.split)

lemma slot_view_log [simp]: "slot_view (log_failure_ctx c l r w) = slot_view w"
  by (simp add: log_failure_ctx_def)

lemma slot_view_schedule [simp]: "slot_view (schedule_retry c k d task w) = slot_view w"
  by (simp add: schedule_retry_def)

lemma slot_view_failed [simp]: "slot_view (snd (task_failed t task err w)) = slot_view w"
  by (auto simp: task_failed_def Let_def slot_view_store split: prod.split sum.split)

lemma slot_view_finalize [simp]: "slot_view (finalize_retry t r c e w) = slot_view w"
  by (auto simp: finalize_retry_def Let_def slot_view_store split: prod.split sum.split)

lemma slot_view_fire [simp]: "slot_view (retry_fire t c k w) = slot_view w"
  by (auto simp: retry_fire_def Let_def split: option.split)

lemma slot_view_mark [simp]: "slot_view (mark_scope keys c w) = slot_view w"
  by (simp add: mark_scope_def split: option.split)

lemma slot_view_finish_forced [simp]: "slot_view (finish_forced f e c w) = slot_view w"
  by (simp add: finish_forced_def Let_def)

lemma slot_view_gate_reject [simp]: "slot_view (gate_reject f c w) = slot_view w"
  by (simp add: gate_reject_def Let_def)

lemma slot_view_fail_stuck: "fail_stuck t j msg rs w = (out, w') \<Longrightarrow> slot_view w' = slot_view w"
  by (rule slot_view_heap) (simp add: fail_stuck_simps)

lemma slot_view_gate_fail [simp]: "slot_view (gate_fail t msg rs c w) = slot_view w"
  by (auto simp: gate_fail_def Let_def slot_view_fail_stuck split: prod.split)

lemma slot_view_reset_loop: "reset_loop t fresh c blocked previous keyed lp w = (lp', w') \<Longrightarrow> slot_view w' = slot_view w"
  by (induction t fresh c blocked previous keyed lp w rule: reset_loop.induct)
    (auto simp: slot_view_store split: if_splits prod.splits sum.splits option.splits)

lemma slot_view_reset: "reset_records t fresh c keyed w = (lp, w') \<Longrightarrow> slot_view w' = slot_view w"
  by (auto simp: reset_records_def Let_def slot_view_reset_loop split: prod.splits if_splits)

lemma slot_view_launch [simp]: "slot_view (launch_cycle t fresh fault c keyed w) = slot_view w"
  by (auto simp: launch_cycle_def Let_def slot_view_reset split: prod.split option.split)


lemma slot_view_gate_begin: "pre_submit_begin c w = (go, w') \<Longrightarrow> slot_view w' = slot_view w"
  by (auto simp: pre_submit_begin_def Let_def split: if_splits)

lemma slot_view_gate_end [simp]: "slot_view (pre_submit_end cfg t fresh fault tx c keyed r w) = slot_view w"
  by (auto simp: pre_submit_end_def Let_def split: sum.split)

lemma slot_view_enter: "enter_inflight c k w = (b, w') \<Longrightarrow> slot_view w' = slot_view w"
  by (auto simp: enter_inflight_def Let_def split: if_splits)

lemma slot_view_begin: "task_begin t tx task w = (ph, w') \<Longrightarrow> slot_view w' = slot_view w"
  by (auto simp: task_begin_def Let_def slot_view_store slot_view_enter split: prod.splits if_splits sum.splits)

lemma slot_view_pop: "pop_retries keys c w = (es, w') \<Longrightarrow> slot_view w' = slot_view w"
  by (auto simp: pop_retries_def Let_def)

lemma slot_view_timer [simp]: "slot_view (on_retry_requested t c k w) = slot_view w"
  by (simp add: on_retry_requested_def split: option.split)

text \<open>The three that do.\<close>

lemma slot_view_release:
  "slot_view (release_slot c w) = (slot_view w)[c := map_prod slots_release id (slot_view w ! c)]"
  by (cases "c < length (sb_heap w)") (simp_all add: slot_view_def release_slot_def map_update list_update_beyond)

lemma slot_view_finish:
  "slot_view (task_finish t tx task r w) =
     (slot_view w)[tk_ctx task := map_prod slots_release id (slot_view w ! tk_ctx task)]"
  by (auto simp: task_finish_def Let_def release_after_def slot_view_release split: sum.split py_error.split)

lemma slot_view_submit:
  assumes "resubmit_existing cfg j keyed opts token w = (r, w')"
  shows "slot_view w' = slot_view w \<or>
    slot_view w' = slot_view w @ [(new_WorkerSlots (min (opt_workers opts) (sx_workers cfg)), opts)]"
proof (cases "sb_shutdown w")
  case False
  obtain c w1 where n: "new_context cfg j (map fst keyed) opts token w = (c, w1)"
    by (cases "new_context cfg j (map fst keyed) opts token w")
  have "slot_view w1 = slot_view w @ [(new_WorkerSlots (min (opt_workers opts) (sx_workers cfg)), opts)]"
    using n by (auto simp: new_context_def Let_def slot_view_def new_ctx_def split: prod.splits)
  with assms n False show ?thesis by (auto simp: resubmit_existing_def split: if_splits)
qed (use assms in \<open>simp add: resubmit_existing_def\<close>)

definition executing :: "nat \<Rightarrow> cycle_world \<Rightarrow> nat" where
  "executing c m = length (filter (\<lambda>(t, ph). ph = Executing \<and> tk_ctx t = c) (cw_running m))"

definition slot_ok :: "sub_config \<Rightarrow> WorkerSlots \<times> Options \<Rightarrow> nat \<Rightarrow> bool" where
  "slot_ok cfg v n \<longleftrightarrow> 0 \<le> ws_free (fst v) \<and> ws_free (fst v) + int n = max 1 (min (opt_workers (snd v)) (sx_workers cfg))"

definition slot_inv :: "sub_config \<Rightarrow> cycle_world \<Rightarrow> bool" where
  "slot_inv cfg m \<longleftrightarrow> (\<forall>c<length (slot_view (cw_sub m)). slot_ok cfg (slot_view (cw_sub m) ! c) (executing c m))"

lemma slot_inv_same:
  assumes "slot_inv cfg m" and "slot_view (cw_sub m') = slot_view (cw_sub m)" and "\<And>c. executing c m' = executing c m"
  shows "slot_inv cfg m'"
  using assms by (simp add: slot_inv_def)

lemma slot_inv_at:
  assumes inv: "slot_inv cfg m" and c: "c < length (slot_view (cw_sub m))"
    and v: "slot_view (cw_sub m') = (slot_view (cw_sub m))[c := v]" "slot_ok cfg v (executing c m')"
    and others: "\<And>d. d \<noteq> c \<Longrightarrow> executing d m' = executing d m"
  shows "slot_inv cfg m'"
  unfolding slot_inv_def
proof (intro allI impI)
  fix d assume d: "d < length (slot_view (cw_sub m'))"
  show "slot_ok cfg (slot_view (cw_sub m') ! d) (executing d m')"
    using inv v d others [of d] by (cases "d = c") (auto simp: slot_inv_def)
qed

lemma slot_view_length: "length (slot_view w) = length (sb_heap w)"
  by (simp add: slot_view_def)

lemma slot_acquire:
  assumes inv: "slot_inv cfg m" and c: "tk_ctx task < length (sb_heap (cw_sub m))"
    and r: "cw_running m = a @ (task, WaitingSlot) # b" and run: "task_acquire t tx task (cw_sub m) = (ph, w')"
  shows "slot_inv cfg (m\<lparr>cw_sub := w', cw_running := a @ now_running task ph @ b\<rparr>)"
proof -
  let ?c = "tk_ctx task" and ?k = "tk_key task" and ?w = "cw_sub m" and ?v = "slot_view (cw_sub m) ! tk_ctx task"
  let ?m' = "m\<lparr>cw_sub := w', cw_running := a @ now_running task ph @ b\<rparr>"
  obtain got sl where sl: "slots_acquire_round (job_cancelled ?c ?k ?w) (sc_slots (ctx ?c ?w)) = (got, sl)"
    by (cases "slots_acquire_round (job_cancelled ?c ?k ?w) (sc_slots (ctx ?c ?w))")
  have vc: "fst ?v = sc_slots (ctx ?c ?w)" "snd ?v = sc_options (ctx ?c ?w)" using c by (simp_all add: slot_view_def)
  have free: "ws_free sl = (if got = Some True then ws_free (fst ?v) - 1 else ws_free (fst ?v))"
    "got = Some True \<Longrightarrow> 0 < ws_free (fst ?v)" "got \<noteq> Some True \<Longrightarrow> sl = fst ?v"
    using sl vc by (auto simp: slots_acquire_round_def split: if_splits)
  let ?w1 = "set_ctx ?c ((ctx ?c ?w)\<lparr>sc_slots := sl\<rparr>) ?w"
  have w1: "slot_view ?w1 = (slot_view ?w)[?c := (sl, snd ?v)]"
    unfolding slot_view_set_ctx using vc by simp
  have c': "?c < length (slot_view ?w)" using c by (simp add: slot_view_length)
  have ok: "slot_ok cfg ?v (executing ?c m)" using inv c' by (simp add: slot_inv_def)
  have ex: "executing d ?m' = (if ph = Some Executing \<and> d = ?c then Suc (executing d m) else executing d m)" for d
    using r by (cases ph) (auto simp: executing_def split: task_phase.splits)
  have eff: "slot_view w' = (if got = Some True \<and> ph = None then (slot_view ?w)[?c := (slots_release sl, snd ?v)]
        else (slot_view ?w)[?c := (sl, snd ?v)]) \<and> (ph = Some Executing \<longrightarrow> got = Some True) \<and> (got = Some True \<longrightarrow> ph = Some Executing \<or> ph = None)"
    using run w1 c' by (auto simp: task_acquire_def sl Let_def release_after_def slot_view_release split: option.splits bool.splits if_splits)
  show ?thesis
  proof (cases "got = Some True \<and> ph \<noteq> None")
    case True
    then have "ph = Some Executing" using eff by auto
    then show ?thesis
      by (intro slot_inv_at [OF inv c', where v = "(sl, snd ?v)"])
        (use True eff ex free ok in \<open>auto simp: slot_ok_def\<close>)
  next
    case False
    then have np: "ph \<noteq> Some Executing" using eff by auto
    show ?thesis
      by (intro slot_inv_at [OF inv c', where v = "if got = Some True then (slots_release sl, snd ?v) else (sl, snd ?v)"])
        (use False np eff ex free ok in \<open>auto simp: slot_ok_def slots_release_def\<close>)
  qed
qed


lemma slot_finish:
  assumes inv: "slot_inv cfg m" and c: "tk_ctx task < length (sb_heap (cw_sub m))"
    and r: "cw_running m = a @ (task, Executing) # b"
  shows "slot_inv cfg (m\<lparr>cw_sub := task_finish t tx task res (cw_sub m), cw_running := a @ b\<rparr>)"
proof -
  let ?m' = "m\<lparr>cw_sub := task_finish t tx task res (cw_sub m), cw_running := a @ b\<rparr>"
  let ?v = "slot_view (cw_sub m) ! tk_ctx task"
  have c': "tk_ctx task < length (slot_view (cw_sub m))" using c by (simp add: slot_view_length)
  have ok: "slot_ok cfg ?v (executing (tk_ctx task) m)" using inv c' by (simp add: slot_inv_def)
  have ex: "executing d m = (if d = tk_ctx task then Suc (executing d ?m') else executing d ?m')" for d
    using r by (auto simp: executing_def)
  show ?thesis
    by (rule slot_inv_at [OF inv c', where v = "map_prod slots_release id ?v"])
      (use ok ex in \<open>auto simp: slot_view_finish slot_ok_def slots_release_def\<close>)
qed

lemma slot_submit:
  assumes slots: "slot_inv cfg m" and inv: "cycle_inv loud m"
    and run: "resubmit_existing cfg j keyed opts token (cw_sub m) = (r, w')"
  shows "slot_inv cfg (m\<lparr>cw_sub := w', cw_launching := ls\<rparr>)"
proof -
  let ?n = "length (sb_heap (cw_sub m))" and ?m' = "m\<lparr>cw_sub := w', cw_launching := ls\<rparr>"
  have ex: "executing d ?m' = executing d m" for d by (simp add: executing_def)
  have "tk_ctx task < ?n" if "(task, ph) \<in> set (cw_running m)" for task ph
    using cycle_invD(1) [OF inv, of task] that unfolding tasks_of_def by force
  then have new: "executing ?n m = 0" by (fastforce simp: executing_def filter_empty_conv)
  from slot_view_submit [OF run] show ?thesis
  proof
    assume v: "slot_view w' = slot_view (cw_sub m) @ [(new_WorkerSlots (min (opt_workers opts) (sx_workers cfg)), opts)]"
    show ?thesis
      unfolding slot_inv_def
    proof (intro allI impI)
      fix d assume d: "d < length (slot_view (cw_sub ?m'))"
      show "slot_ok cfg (slot_view (cw_sub ?m') ! d) (executing d ?m')"
      proof (cases "d < ?n")
        case False
        with d v have "d = ?n" by (simp add: slot_view_length)
        then show ?thesis using v new ex by (simp add: nth_append slot_view_length slot_ok_def new_WorkerSlots_def)
      qed (use v slots ex in \<open>simp add: slot_inv_def nth_append slot_view_length\<close>)
    qed
  qed (use slots ex in \<open>auto intro: slot_inv_same\<close>)
qed

lemma slot_step:
  "cycle_step cfg m m' \<Longrightarrow> cycle_inv loud m \<Longrightarrow> slot_inv cfg m \<Longrightarrow> slot_inv cfg m'"
proof (induction rule: cycle_step.induct)
  case (step_submit keyed j opts token m r w')
  from slot_submit [OF step_submit(4,3,2)] show ?case .
next
  case (step_gate_begin m a c keyed b go w')
  then show ?case by (intro slot_inv_same [OF step_gate_begin(4)]) (simp_all add: slot_view_gate_begin executing_def)
next
  case (step_begin m a task prio b t tx ph w')
  have "ph \<noteq> Some Executing" using step_begin(2) by (auto simp: task_begin_def Let_def split: prod.splits if_splits sum.splits)
  then have "executing d (m\<lparr>cw_sub := w', cw_running := cw_running m @ now_running task ph\<rparr>) = executing d m" for d
    by (auto simp: executing_def split: option.split)
  then show ?case using slot_view_begin [OF step_begin(2)] by (intro slot_inv_same [OF step_begin(4)]) simp_all
next
  case (step_acquire m a task b t tx ph w')
  then have "tk_ctx task < length (sb_heap (cw_sub m))"
    using cycle_invD(1) [OF step_acquire(3), of task] by (simp add: tasks_of_def)
  from slot_acquire [OF step_acquire(4) this step_acquire(1,2)] show ?case .
next
  case (step_finish m a task b t tx r)
  then have "tk_ctx task < length (sb_heap (cw_sub m))"
    using cycle_invD(1) [OF step_finish(2), of task] by (simp add: tasks_of_def)
  from slot_finish [OF step_finish(3) this step_finish(1)] show ?case .
next
  case (step_pop c m keys entries w' reason)
  then show ?case by (intro slot_inv_same [OF step_pop(4)]) (auto simp: slot_view_pop executing_def)
next
  case (step_shutdown m)
  then show ?case by (intro slot_inv_same [OF step_shutdown(2)]) (auto simp: slot_view_def executing_def)
next
  case (step_world m s g)
  then show ?case by (intro slot_inv_same [OF step_world(2)]) (auto simp: slot_view_def executing_def)
qed (auto intro: slot_inv_same simp: executing_def)

lemma slot_reach: "cycle_reach cfg m \<Longrightarrow> slot_inv cfg m"
proof (induction rule: rtranclp_induct)
  case base
  then show ?case by (simp add: slot_inv_def slot_view_def cycle_start_def)
next
  case (step m m')
  then show ?case using slot_step [OF step(2) cycle_reach_inv [OF step(1)]] by blast
qed

text \<open>
  C18: A cycle never runs more wrappers at once than its limit, the smaller of the call's workers
  and the pool's (at least one); whatever ends a task, its slot is free again: the free slots and
  the running wrappers always add up to that limit.
\<close>

lemma submit_concurrency_bounded:
  assumes "cycle_reach cfg m" and "c < length (sb_heap (cw_sub m))"
  shows "ws_free (sc_slots (ctx c (cw_sub m))) + int (executing c m)
      = max 1 (min (opt_workers (sc_options (ctx c (cw_sub m)))) (sx_workers cfg)) \<and>
    int (executing c m) \<le> max 1 (min (opt_workers (sc_options (ctx c (cw_sub m)))) (sx_workers cfg))"
  using slot_reach [OF assms(1)] assms(2) by (auto simp: slot_inv_def slot_ok_def slot_view_def)

theorem submit_concurrency_bounded_witness:
  "ws_free (sc_slots (ctx 0 (cw_sub demo_executing))) = 3 \<and> int (executing 0 demo_executing) = 1"
proof -
  have l: "length (sb_heap (cw_sub demo_executing)) = 1" and e: "executing 0 demo_executing = 1"
    and o: "opt_workers (sc_options (ctx 0 (cw_sub demo_executing))) = 8" by code_simp+
  from submit_concurrency_bounded [OF demo_executing_reach, of 0] l e o
  show ?thesis by (simp add: demo_sub_config_def)
qed

end
