(* ===== verification/SubmitRecords.thy ===== *)
theory SubmitRecords
  imports SubmitSlots
begin

text \<open>
  What the submitter writes: a submission that is rejected before its launch writes nothing, and
  the end of a task writes the outcome of its wrapper to the record of its job and to no other.
\<close>

section \<open>The records\<close>

definition recs :: "sub \<Rightarrow> jobset_id \<Rightarrow> job_key \<Rightarrow> py_error + JobRecord" where
  "recs w j k = get_job j k (sb_store w)"

lemma recs_same: "sb_store w' = sb_store w \<Longrightarrow> recs w' = recs w"
  by (intro ext) (simp add: recs_def)

text \<open>The callbacks that only count and signal.\<close>

lemma store_progress [simp]: "sb_store (emit_progress t p c w) = sb_store w"
  by (simp add: emit_progress_def Let_def split: prod.split)

lemma store_finish_if_done [simp]: "sb_store (finish_if_done f c w) = sb_store w"
  by (simp add: finish_if_done_def Let_def)

lemma store_count [simp]: "sb_store (count_units t n kind ch c w) = sb_store w"
  by (simp add: count_units_def)

lemma store_note [simp]: "sb_store (note_transition t ch c w) = sb_store w"
  by (simp add: note_transition_def split: option.split)

lemma store_vanished [simp]: "sb_store (task_vanished t c w) = sb_store w"
  by (simp add: task_vanished_def)

lemma store_small [simp]:
  "sb_store (leave_inflight c k w) = sb_store w" "sb_store (release_slot c w) = sb_store w"
  "sb_store (log_failure_ctx c l r w) = sb_store w" "sb_store (schedule_retry c k d task w) = sb_store w"
  by (simp_all add: leave_inflight_def release_slot_def log_failure_ctx_def schedule_retry_def)

lemma store_finish_forced [simp]: "sb_store (finish_forced f e c w) = sb_store w"
  by (simp add: finish_forced_def Let_def)

lemma store_gate_reject [simp]: "sb_store (gate_reject f c w) = sb_store w"
  by (simp add: gate_reject_def Let_def)

lemma pool_finish_forced [simp]: "sb_pool (finish_forced f e c w) = sb_pool w"
  by (simp add: finish_forced_def Let_def)

lemma pool_gate_reject [simp]: "sb_pool (gate_reject f c w) = sb_pool w"
  by (simp add: gate_reject_def Let_def)

text \<open>
  C19: A submission that does not launch writes nothing and starts nothing: when the submitter is
  shut down or a kill covers all its jobs, when it is cancelled before or during the pre-submit
  check, and when that check says no or fails, every record and the pool stay as they were.
\<close>

lemma rejected_submit_writes_nothing:
  "(fst (resubmit_existing cfg j keyed opts token w) = None \<longrightarrow>
      sb_store (snd (resubmit_existing cfg j keyed opts token w)) = sb_store w \<and>
      sb_pool (snd (resubmit_existing cfg j keyed opts token w)) = sb_pool w) \<and>
   (\<not> fst (pre_submit_begin c w) \<longrightarrow>
      sb_store (snd (pre_submit_begin c w)) = sb_store w \<and> sb_pool (snd (pre_submit_begin c w)) = sb_pool w) \<and>
   (r \<noteq> Inr True \<or> sc_cancel_event (ctx c w) \<or> sb_shutdown w \<longrightarrow>
      sb_store (pre_submit_end cfg t fresh fault msg c keyed r w) = sb_store w \<and>
      sb_pool (pre_submit_end cfg t fresh fault msg c keyed r w) = sb_pool w)"
proof (intro conjI impI)
  obtain d w1 where n: "new_context cfg j (map fst keyed) opts token w = (d, w1)"
    by (cases "new_context cfg j (map fst keyed) opts token w")
  have w1: "sb_store w1 = sb_store w" "sb_pool w1 = sb_pool w"
    using n by (auto simp: new_context_def Let_def split: prod.splits)
  assume "fst (resubmit_existing cfg j keyed opts token w) = None"
  with n w1 show "sb_store (snd (resubmit_existing cfg j keyed opts token w)) = sb_store w"
    "sb_pool (snd (resubmit_existing cfg j keyed opts token w)) = sb_pool w"
    by (auto simp: resubmit_existing_def split: if_splits)
next
  assume "\<not> fst (pre_submit_begin c w)"
  then show "sb_store (snd (pre_submit_begin c w)) = sb_store w" "sb_pool (snd (pre_submit_begin c w)) = sb_pool w"
    by (auto simp: pre_submit_begin_def Let_def split: if_splits)
next
  assume "r \<noteq> Inr True \<or> sc_cancel_event (ctx c w) \<or> sb_shutdown w"
  then show "sb_store (pre_submit_end cfg t fresh fault msg c keyed r w) = sb_store w"
    "sb_pool (pre_submit_end cfg t fresh fault msg c keyed r w) = sb_pool w"
    by (auto simp: pre_submit_end_def gate_fail_def Let_def split: sum.splits)
qed

theorem rejected_submit_writes_nothing_witness:
  "sb_store (snd (resubmit_existing demo_sub_config ''js'' demo_keyed default_Options 0
     ((cw_sub cycle_start)\<lparr>sb_store := demo_store, sb_shutdown := True\<rparr>))) = demo_store"
  using rejected_submit_writes_nothing [of demo_sub_config "''js''" demo_keyed default_Options 0
    "(cw_sub cycle_start)\<lparr>sb_store := demo_store, sb_shutdown := True\<rparr>"]
  by (simp add: resubmit_existing_def)

section \<open>The outcome of a task\<close>

lemma on_store_transition:
  assumes "store_inv (sb_store w)" and "recs w j k = Inr old" and "\<not> reject_key_fields fs"
  shows "guard_ok g old \<Longrightarrow> \<exists>w'. on_store (transition now j k st g fs) w = (Inr (Some (transitioned old now st fs)), w') \<and>
      sb_heap w' = sb_heap w \<and> sb_shutdown w' = sb_shutdown w \<and> store_inv (sb_store w') \<and>
      recs w' = (\<lambda>i l. if i = j \<and> l = k then Inr (transitioned old now st fs) else recs w i l)"
    and "\<not> guard_ok g old \<Longrightarrow> on_store (transition now j k st g fs) w = (Inr None, w)"
proof -
  have get: "get_job j k (sb_store w) = Inr old" using assms(2) by (simp add: recs_def)
  show "\<exists>w'. on_store (transition now j k st g fs) w = (Inr (Some (transitioned old now st fs)), w') \<and>
      sb_heap w' = sb_heap w \<and> sb_shutdown w' = sb_shutdown w \<and> store_inv (sb_store w') \<and>
      recs w' = (\<lambda>i l. if i = j \<and> l = k then Inr (transitioned old now st fs) else recs w i l)" if "guard_ok g old"
  proof -
    from mem.tr_done [OF assms(1,3) get that, of now st] obtain s' where s':
      "transition now j k st g fs (sb_store w) = (Inr (Some (transitioned old now st fs)), s')" "store_inv s'"
      "\<forall>j' k'. get_job j' k' s' = (if j' = j \<and> k' = k then Inr (transitioned old now st fs) else get_job j' k' (sb_store w))"
      by blast
    then have "recs (w\<lparr>sb_store := s'\<rparr>) = (\<lambda>i l. if i = j \<and> l = k then Inr (transitioned old now st fs) else recs w i l)"
      by (intro ext) (simp add: recs_def)
    with s' show ?thesis by (intro exI [of _ "w\<lparr>sb_store := s'\<rparr>"]) (simp add: on_store_def)
  qed
  show "on_store (transition now j k st g fs) w = (Inr None, w)" if "\<not> guard_ok g old"
    using mem.tr_refused [OF assms(1,3) get that, of now st] by (simp add: on_store_def)
qed


lemma transition_many_single:
  assumes "\<not> reject_key_fields fs" and "transition now j k st g fs s = (Inr x, s')"
  shows "store_transition_many now j [(k, st, g, fs)] s = (Inr (case x of None \<Rightarrow> [] | Some r \<Rightarrow> [r]), s')"
  using assms
  by (auto simp: store_transition_many_def transition_many_def transition_def get_job_iff get_job_Inl Let_def
      transition_many_loop.simps
      split: sum.splits option.splits if_splits prod.splits)

lemma on_store_Inr:
  assumes "on_store f w = (Inr x, w')"
  shows "f (sb_store w) = (Inr x, sb_store w')"
  using assms by (auto simp: on_store_def split: prod.splits)

lemma mark_cancelled_single:
  assumes "on_store (transition (ck_wall t) (sc_jobset_id (ctx c w)) k (Some CANCELLED) (Some submitting_or_waiting)
      [FFailReason (Some ''CANCELLED''), FFailMessage None, FRetryCount 0, FKilled True]) w = (Inr x, w')"
  shows "task_cancelled t c k w = (Inr (), count_units t 1 UnitCancelled (case x of None \<Rightarrow> [] | Some r \<Rightarrow> [r]) c w')"
proof -
  let ?fs = "[FFailReason (Some ''CANCELLED''), FFailMessage None, FRetryCount 0, FKilled True]"
  let ?sp = "[(k, Some CANCELLED, Some submitting_or_waiting, ?fs)]"
  have r: "\<not> reject_key_fields ?fs" by (simp add: reject_key_fields_def)
  note m = transition_many_single [OF r on_store_Inr [OF assms]]
  have "w' = w\<lparr>sb_store := sb_store w'\<rparr>" using assms by (auto simp: on_store_def split: prod.splits)
  then have "on_store (store_transition_many (ck_wall t) (sc_jobset_id (ctx c w)) ?sp) w
      = (Inr (case x of None \<Rightarrow> [] | Some r \<Rightarrow> [r]), w')"
    using m by (simp add: on_store_def)
  then show ?thesis by (simp add: task_cancelled_def mark_cancelled_def)
qed

text \<open>Whether a failed attempt is tried again.\<close>

definition tries_again :: "submit_task \<Rightarrow> submit_error \<Rightarrow> sub \<Rightarrow> bool" where
  "tries_again task err w \<longleftrightarrow> se_retryable err \<and> int (tk_attempt task) < opt_max_retry (sc_options (ctx (tk_ctx task) w))
     \<and> \<not> sc_cancel_event (ctx (tk_ctx task) w) \<and> \<not> sb_shutdown w"

text \<open>What the end of a wrapper makes of the record of its job.\<close>

definition outcome_of :: "submit_task \<Rightarrow> py_error + int \<Rightarrow> sub \<Rightarrow> JobRecord \<Rightarrow> JobRecord \<Rightarrow> bool" where
  "outcome_of task r w old new \<longleftrightarrow>
     (case r of
        Inr i \<Rightarrow> jr_state new = PEND \<and> jr_job_id new = Some i \<and> jr_fail_reason new = None
      | Inl (SubmitError err) \<Rightarrow>
          (if tk_key task \<in> sc_cancelled_keys (ctx (tk_ctx task) w)
           then (if submitting_or_waiting old then jr_state new = CANCELLED \<and> jr_killed new else new = old)
           else jr_fail_reason new = Some (se_fail_reason err) \<and> jr_job_id new = jr_job_id old \<and>
             (if tries_again task err w then jr_state new = RETRY_WAIT \<and> jr_retry_count new = Suc (tk_attempt task)
              else jr_state new = SUBMIT_FAILED \<and> jr_retry_count new = tk_attempt task))
      | Inl e \<Rightarrow>
          (if RECORD_GONE e \<or> jr_job_id old \<noteq> None then new = old
           else jr_state new = SUBMIT_FAILED \<and> jr_fail_reason new = Some ''INTERNAL_ERROR''))"

definition writes_one :: "jobset_id \<Rightarrow> job_key \<Rightarrow> JobRecord \<Rightarrow> sub \<Rightarrow> sub \<Rightarrow> bool" where
  "writes_one j k new w w' \<longleftrightarrow> recs w' = (\<lambda>i l. if i = j \<and> l = k then Inr new else recs w i l)"

lemma writes_one_trans:
  "writes_one j k new w w1 \<Longrightarrow> sb_store w2 = sb_store w1 \<Longrightarrow> writes_one j k new w w2"
  by (simp add: writes_one_def recs_same [of w2 w1])

lemma writes_none: "recs w j k = Inr old \<Longrightarrow> sb_store w' = sb_store w \<Longrightarrow> writes_one j k old w w'"
  unfolding writes_one_def by (intro ext) (auto simp: recs_same [of w' w])

lemma succeeded_writes:
  assumes inv: "store_inv (sb_store w)" and old: "recs w (sc_jobset_id (ctx c w)) k = Inr old"
  shows "\<exists>new w'. task_succeeded t c k i w = (Inr (), w') \<and> writes_one (sc_jobset_id (ctx c w)) k new w w' \<and>
    jr_generation new = jr_generation old \<and> jr_state new = PEND \<and> jr_job_id new = Some i \<and> jr_fail_reason new = None"
proof -
  let ?fs = "[FJobId (Some i), FSubmitTime (Some (ck_wall t)), FFailReason None, FFailMessage None]"
  have fs: "\<not> reject_key_fields ?fs" by (simp add: reject_key_fields_def)
  from on_store_transition(1) [OF inv old fs, of None "ck_wall t" "Some PEND"] obtain w1 where
    r: "on_store (transition (ck_wall t) (sc_jobset_id (ctx c w)) k (Some PEND) None ?fs) w =
      (Inr (Some (transitioned old (ck_wall t) (Some PEND) ?fs)), w1)"
    "recs w1 = (\<lambda>i' l. if i' = sc_jobset_id (ctx c w) \<and> l = k then Inr (transitioned old (ck_wall t) (Some PEND) ?fs) else recs w i' l)"
    by (auto simp: guard_ok_def)
  let ?new = "transitioned old (ck_wall t) (Some PEND) ?fs"
  have new: "jr_generation ?new = jr_generation old" "jr_job_id ?new = Some i" "jr_fail_reason ?new = None"
    by (simp_all add: transitioned_generation) (simp_all add: transitioned_def replaced_def apply_fields_def)
  have w1: "writes_one (sc_jobset_id (ctx c w)) k ?new w w1" using r(2) by (simp add: writes_one_def)
  show ?thesis
    by (intro exI conjI, simp add: task_succeeded_def r(1), rule writes_one_trans [OF w1])
      (use new in \<open>simp_all\<close>)
qed


lemma transition_writes:
  assumes "store_inv (sb_store w)" and "recs w j k = Inr old" and "\<not> reject_key_fields fs" and "guard_ok g old"
  obtains w' where "on_store (transition now j k (Some st) g fs) w = (Inr (Some (transitioned old now (Some st) fs)), w')"
    and "writes_one j k (transitioned old now (Some st) fs) w w'" and "sb_heap w' = sb_heap w" and "sb_shutdown w' = sb_shutdown w"
  using on_store_transition(1) [OF assms, of now "Some st"] by (auto simp: writes_one_def)

lemma cancelled_writes:
  assumes inv: "store_inv (sb_store w)" and old: "recs w (sc_jobset_id (ctx c w)) k = Inr old"
  shows "\<exists>new w'. task_cancelled t c k w = (Inr (), w') \<and> writes_one (sc_jobset_id (ctx c w)) k new w w' \<and>
    jr_generation new = jr_generation old \<and>
    (if submitting_or_waiting old then jr_state new = CANCELLED \<and> jr_killed new else new = old)"
proof -
  let ?fs = "[FFailReason (Some ''CANCELLED''), FFailMessage None, FRetryCount 0, FKilled True]"
  let ?new = "transitioned old (ck_wall t) (Some CANCELLED) ?fs"
  have fs: "\<not> reject_key_fields ?fs" by (simp add: reject_key_fields_def)
  have new: "jr_generation ?new = jr_generation old" "jr_killed ?new"
    by (simp add: transitioned_generation) (simp add: transitioned_def replaced_def apply_fields_def)
  show ?thesis
  proof (cases "submitting_or_waiting old")
    case True
    then have "guard_ok (Some submitting_or_waiting) old" by (simp add: guard_ok_def)
    from transition_writes [OF inv old fs this, of "ck_wall t" CANCELLED] obtain w1 where
      r: "on_store (transition (ck_wall t) (sc_jobset_id (ctx c w)) k (Some CANCELLED) (Some submitting_or_waiting) ?fs) w
        = (Inr (Some ?new), w1)" and w1: "writes_one (sc_jobset_id (ctx c w)) k ?new w w1" .
    show ?thesis
      by (intro exI conjI, rule mark_cancelled_single [OF r], rule writes_one_trans [OF w1])
        (use new True in simp_all)
  next
    case False
    then have "\<not> guard_ok (Some submitting_or_waiting) old" by (simp add: guard_ok_def)
    note r = on_store_transition(2) [OF inv old fs this, of "ck_wall t" "Some CANCELLED"]
    show ?thesis
      by (intro exI conjI, rule mark_cancelled_single [OF r], rule writes_none [OF old]) (use False in simp_all)
  qed
qed

lemma crashed_writes:
  assumes inv: "store_inv (sb_store w)" and old: "recs w (sc_jobset_id (ctx c w)) k = Inr old"
  shows "\<exists>new. writes_one (sc_jobset_id (ctx c w)) k new w (task_crashed t tx c k e w) \<and> jr_generation new = jr_generation old \<and>
    (if RECORD_GONE e \<or> jr_job_id old \<noteq> None then new = old
     else jr_state new = SUBMIT_FAILED \<and> jr_fail_reason new = Some ''INTERNAL_ERROR'')"
proof (cases "RECORD_GONE e")
  case False
  let ?fs = "[FFailReason (Some ''INTERNAL_ERROR''), FFailMessage (Some (take MAX_FAIL_MESSAGE_CHARS tx))]"
  let ?g = "Some (\<lambda>cur. jr_job_id cur = None)" and ?new = "transitioned old (ck_wall t) (Some SUBMIT_FAILED) ?fs"
  have fs: "\<not> reject_key_fields ?fs" by (simp add: reject_key_fields_def)
  have new: "jr_generation ?new = jr_generation old" "jr_fail_reason ?new = Some ''INTERNAL_ERROR''"
    by (simp add: transitioned_generation) (simp add: transitioned_def replaced_def apply_fields_def)
  show ?thesis
  proof (cases "jr_job_id old = None")
    case True
    then have "guard_ok ?g old" by (simp add: guard_ok_def)
    from transition_writes [OF inv old fs this, of "ck_wall t" SUBMIT_FAILED] obtain w1 where
      r: "on_store (transition (ck_wall t) (sc_jobset_id (ctx c w)) k (Some SUBMIT_FAILED) ?g ?fs) w = (Inr (Some ?new), w1)"
      and w1: "writes_one (sc_jobset_id (ctx c w)) k ?new w w1" .
    show ?thesis
      by (intro exI [of _ ?new] conjI, rule writes_one_trans [OF w1])
        (use new True False r in \<open>simp_all add: task_crashed_def Let_def\<close>)
  next
    case other: False
    then have "\<not> guard_ok ?g old" by (simp add: guard_ok_def)
    note r = on_store_transition(2) [OF inv old fs this, of "ck_wall t" "Some SUBMIT_FAILED"]
    show ?thesis
      by (intro exI [of _ old] conjI, rule writes_none [OF old])
        (use other False r in \<open>simp_all add: task_crashed_def Let_def\<close>)
  qed
qed (intro exI [of _ old] conjI writes_none [OF old], simp_all add: task_crashed_def)

lemma log_failure_ctx_simps [simp]:
  "sb_shutdown (log_failure_ctx c l r w) = sb_shutdown w" "length (sb_heap (log_failure_ctx c l r w)) = length (sb_heap w)"
  "c < length (sb_heap w) \<Longrightarrow> ctx c (log_failure_ctx c l r w) =
     (ctx c w)\<lparr>sc_log_sampler := snd (log_failure (l, r) (sc_log_sampler (ctx c w)))\<rparr>"
  by (simp_all add: log_failure_ctx_def)

text \<open>A transition on a submitter whose store is that of \<open>w\<close>, and which leaves the generation alone.\<close>

lemma outcome_transition:
  assumes inv: "store_inv (sb_store w)" and old: "recs w j k = Inr old" and st: "sb_store v = sb_store w"
    and fs: "\<not> reject_key_fields fs" and gen: "\<not> list_ex is_generation_field fs"
  obtains w' where "on_store (transition now j k (Some st) None fs) v = (Inr (Some (transitioned old now (Some st) fs)), w')"
    and "writes_one j k (transitioned old now (Some st) fs) w w'" and "sb_heap w' = sb_heap v"
    and "jr_generation (transitioned old now (Some st) fs) = jr_generation old"
proof -
  have "store_inv (sb_store v)" "recs v j k = Inr old" using inv old recs_same [OF st] st by simp_all
  moreover have "guard_ok None old" by (simp add: guard_ok_def)
  ultimately obtain w' where r:
    "on_store (transition now j k (Some st) None fs) v = (Inr (Some (transitioned old now (Some st) fs)), w')"
    and w: "writes_one j k (transitioned old now (Some st) fs) v w'" and h: "sb_heap w' = sb_heap v"
    using transition_writes [OF _ _ fs] by blast
  have "writes_one j k (transitioned old now (Some st) fs) w w'" using w unfolding writes_one_def recs_same [OF st] .
  from that [OF r this h transitioned_generation [OF gen]] show thesis .
qed

lemma retried_writes:
  assumes inv: "store_inv (sb_store w)" and old: "recs w (sc_jobset_id (ctx (tk_ctx task) w)) (tk_key task) = Inr old"
    and c: "tk_ctx task < length (sb_heap w)" and delay: "retry_delay_s (sc_options (ctx (tk_ctx task) w)) (tk_attempt task) = Inr d"
    and nc: "tk_key task \<notin> sc_cancelled_keys (ctx (tk_ctx task) w)" and again: "tries_again task err w"
  shows "\<exists>new w'. task_failed t task err w = (Inr (), w') \<and>
    writes_one (sc_jobset_id (ctx (tk_ctx task) w)) (tk_key task) new w w' \<and> jr_generation new = jr_generation old \<and>
    jr_fail_reason new = Some (se_fail_reason err) \<and> jr_job_id new = jr_job_id old \<and>
    jr_state new = RETRY_WAIT \<and> jr_retry_count new = Suc (tk_attempt task)"
proof -
  let ?c = "tk_ctx task" and ?k = "tk_key task" and ?j = "sc_jobset_id (ctx (tk_ctx task) w)"
  let ?w = "log_failure_ctx ?c WARNING (se_fail_reason err) w"
  let ?fs = "[FRetryCount (Suc (tk_attempt task)), FFailReason (Some (se_fail_reason err)),
    FFailMessage (Some (take MAX_FAIL_MESSAGE_CHARS (diagnostic err)))]"
  let ?new = "transitioned old (ck_wall t) (Some RETRY_WAIT) ?fs"
  from outcome_transition [OF inv old, of ?w ?fs "ck_wall t" RETRY_WAIT] obtain w1 where
    r: "on_store (transition (ck_wall t) ?j ?k (Some RETRY_WAIT) None ?fs) ?w = (Inr (Some ?new), w1)"
    and w1: "writes_one ?j ?k ?new w w1" and h: "sb_heap w1 = sb_heap ?w" and g: "jr_generation ?new = jr_generation old"
    by (auto simp: reject_key_fields_def)
  let ?w3 = "set_ctx ?c ((ctx ?c w1)\<lparr>sc_retried_keys := insert ?k (sc_retried_keys (ctx ?c w1))\<rparr>) w1"
  let ?w2 = "note_transition t (Some ?new) ?c ?w3"
  have "sc_options (ctx ?c ?w2) = sc_options (ctx ?c ?w3)"
    by (rule fixed_partD(6) [OF settlesD(5) [OF settles_note_transition]]) (use c h in simp)
  then have d: "retry_delay_s (sc_options (ctx ?c ?w2)) (tk_attempt task) = Inr d" using delay c h by simp
  let ?out = "schedule_retry ?c ?k d (task\<lparr>tk_attempt := Suc (tk_attempt task)\<rparr>) ?w2"
  have "task_failed t task err w = (Inr (), ?out)"
    using r d nc c again by (simp add: task_failed_def Let_def tries_again_def)
  moreover have "writes_one ?j ?k ?new w ?out" by (rule writes_one_trans [OF w1]) simp
  moreover have "jr_fail_reason ?new = Some (se_fail_reason err)" "jr_job_id ?new = jr_job_id old"
    "jr_retry_count ?new = Suc (tk_attempt task)" "jr_state ?new = RETRY_WAIT"
    by (simp_all add: transitioned_def replaced_def apply_fields_def)
  ultimately show ?thesis using g by blast
qed

lemma given_up_writes:
  assumes inv: "store_inv (sb_store w)" and old: "recs w (sc_jobset_id (ctx (tk_ctx task) w)) (tk_key task) = Inr old"
    and c: "tk_ctx task < length (sb_heap w)"
    and nc: "tk_key task \<notin> sc_cancelled_keys (ctx (tk_ctx task) w)" and over: "\<not> tries_again task err w"
  shows "\<exists>new w'. task_failed t task err w = (Inr (), w') \<and>
    writes_one (sc_jobset_id (ctx (tk_ctx task) w)) (tk_key task) new w w' \<and> jr_generation new = jr_generation old \<and>
    jr_fail_reason new = Some (se_fail_reason err) \<and> jr_job_id new = jr_job_id old \<and>
    jr_state new = SUBMIT_FAILED \<and> jr_retry_count new = tk_attempt task"
proof -
  let ?c = "tk_ctx task" and ?k = "tk_key task" and ?j = "sc_jobset_id (ctx (tk_ctx task) w)"
  let ?w = "log_failure_ctx ?c ERROR (se_fail_reason err) (log_failure_ctx ?c WARNING (se_fail_reason err) w)"
  let ?fs = "[FRetryCount (tk_attempt task), FFailReason (Some (se_fail_reason err)),
    FFailMessage (Some (take MAX_FAIL_MESSAGE_CHARS (diagnostic err)))]"
  let ?new = "transitioned old (ck_wall t) (Some SUBMIT_FAILED) ?fs"
  from outcome_transition [OF inv old, of ?w ?fs "ck_wall t" SUBMIT_FAILED] obtain w1 where
    r: "on_store (transition (ck_wall t) ?j ?k (Some SUBMIT_FAILED) None ?fs) ?w = (Inr (Some ?new), w1)"
    and w1: "writes_one ?j ?k ?new w w1" and g: "jr_generation ?new = jr_generation old"
    by (auto simp: reject_key_fields_def)
  let ?out = "count_units t 1 (UnitFailed (Some (se_fail_reason err))) [?new] ?c w1"
  have "task_failed t task err w = (Inr (), ?out)"
    using r nc c over by (auto simp: task_failed_def Let_def tries_again_def)
  moreover have "writes_one ?j ?k ?new w ?out" by (rule writes_one_trans [OF w1]) simp
  moreover have "jr_fail_reason ?new = Some (se_fail_reason err)" "jr_job_id ?new = jr_job_id old"
    "jr_retry_count ?new = tk_attempt task" "jr_state ?new = SUBMIT_FAILED"
    by (simp_all add: transitioned_def replaced_def apply_fields_def)
  ultimately show ?thesis using g by blast
qed


lemma finish_guarded:
  assumes "out = (Inr (), w')" and "writes_one j k new w w'"
  shows "writes_one j k new w (guard_task t tx c l (release_after c out))"
  by (rule writes_one_trans [OF assms(2)]) (simp add: guard_task_def release_after_def assms(1))

text \<open>A task's end with its outcome, by what the wrapper returned or raised.\<close>

definition finishes :: "clock \<Rightarrow> string \<Rightarrow> submit_task \<Rightarrow> py_error + int \<Rightarrow> sub \<Rightarrow> JobRecord \<Rightarrow> bool" where
  "finishes t msg task r w old \<longleftrightarrow>
     (\<exists>new. outcome_of task r w old new \<and> jr_generation new = jr_generation old \<and>
        writes_one (sc_jobset_id (ctx (tk_ctx task) w)) (tk_key task) new w (task_finish t msg task r w))"

lemma finishes_succeeded:
  assumes "store_inv (sb_store w)" and "recs w (sc_jobset_id (ctx (tk_ctx task) w)) (tk_key task) = Inr old"
  shows "finishes t msg task (Inr i) w old"
proof -
  from succeeded_writes [OF assms, of t i] obtain new w' where r: "task_succeeded t (tk_ctx task) (tk_key task) i w = (Inr (), w')"
    and w: "writes_one (sc_jobset_id (ctx (tk_ctx task) w)) (tk_key task) new w w'"
    and new: "jr_generation new = jr_generation old" "jr_state new = PEND" "jr_job_id new = Some i" "jr_fail_reason new = None" by blast
  from finish_guarded [OF r w] new show ?thesis
    unfolding finishes_def by (intro exI [of _ new]) (simp add: task_finish_def Let_def outcome_of_def)
qed

lemma finishes_cancelled:
  assumes inv: "store_inv (sb_store w)" and old: "recs w (sc_jobset_id (ctx (tk_ctx task) w)) (tk_key task) = Inr old"
    and c: "tk_ctx task < length (sb_heap w)" and k: "tk_key task \<in> sc_cancelled_keys (ctx (tk_ctx task) w)"
  shows "finishes t msg task (Inl (SubmitError err)) w old"
proof -
  let ?c = "tk_ctx task" and ?k = "tk_key task" and ?w0 = "log_failure_ctx (tk_ctx task) WARNING (se_fail_reason err) w"
  let ?j = "sc_jobset_id (ctx ?c w)"
  have st: "sb_store ?w0 = sb_store w" and j: "sc_jobset_id (ctx ?c ?w0) = ?j" using c by simp_all
  then have "store_inv (sb_store ?w0)" "recs ?w0 (sc_jobset_id (ctx ?c ?w0)) ?k = Inr old"
    using inv old recs_same [OF st] by simp_all
  from cancelled_writes [OF this, of t] obtain new w2 where r2: "task_cancelled t ?c ?k ?w0 = (Inr (), w2)"
    "writes_one ?j ?k new ?w0 w2" "jr_generation new = jr_generation old"
    "if submitting_or_waiting old then jr_state new = CANCELLED \<and> jr_killed new else new = old" unfolding j by blast
  have f: "task_failed t task err w = (Inr (), w2)" using k c r2(1) by (simp add: task_failed_def Let_def)
  have "writes_one ?j ?k new w w2" using r2(2) unfolding writes_one_def recs_same [OF st] .
  from finish_guarded [OF f this] r2(3,4) k show ?thesis
    unfolding finishes_def by (intro exI [of _ new]) (simp add: task_finish_def Let_def outcome_of_def)
qed

lemma finishes_failed:
  assumes inv: "store_inv (sb_store w)" and old: "recs w (sc_jobset_id (ctx (tk_ctx task) w)) (tk_key task) = Inr old"
    and c: "tk_ctx task < length (sb_heap w)" and delay: "retry_delay_s (sc_options (ctx (tk_ctx task) w)) (tk_attempt task) = Inr d"
    and k: "tk_key task \<notin> sc_cancelled_keys (ctx (tk_ctx task) w)"
  shows "finishes t msg task (Inl (SubmitError err)) w old"
proof -
  let ?j = "sc_jobset_id (ctx (tk_ctx task) w)"
  have "\<exists>new w'. task_failed t task err w = (Inr (), w') \<and> writes_one ?j (tk_key task) new w w' \<and>
    jr_generation new = jr_generation old \<and> outcome_of task (Inl (SubmitError err)) w old new"
    using retried_writes [OF inv old c delay k, of err t] given_up_writes [OF inv old c k, of err t] k
    by (cases "tries_again task err w") (simp_all add: outcome_of_def)
  then obtain new w' where r: "task_failed t task err w = (Inr (), w')" and w: "writes_one ?j (tk_key task) new w w'"
    and new: "jr_generation new = jr_generation old" "outcome_of task (Inl (SubmitError err)) w old new" by blast
  from finish_guarded [OF r w] new show ?thesis
    unfolding finishes_def by (intro exI [of _ new]) (simp add: task_finish_def Let_def)
qed

lemma finishes_crashed:
  assumes inv: "store_inv (sb_store w)" and old: "recs w (sc_jobset_id (ctx (tk_ctx task) w)) (tk_key task) = Inr old"
    and c: "tk_ctx task < length (sb_heap w)" and e: "\<And>err. e \<noteq> SubmitError err"
  shows "finishes t msg task (Inl e) w old"
proof -
  let ?c = "tk_ctx task" and ?k = "tk_key task" and ?w0 = "release_slot (tk_ctx task) w"
  let ?j = "sc_jobset_id (ctx ?c w)"
  have eq: "task_finish t msg task (Inl e) w = leave_inflight ?c ?k (task_crashed t msg ?c ?k e ?w0)"
  proof (cases e)
    case (SubmitError err)
    with e show ?thesis by blast
  qed (simp_all add: task_finish_def guard_task_def release_after_def Let_def)
  have st: "sb_store ?w0 = sb_store w" and j: "sc_jobset_id (ctx ?c ?w0) = ?j" using c by (simp_all add: release_slot_def)
  then have "store_inv (sb_store ?w0)" "recs ?w0 (sc_jobset_id (ctx ?c ?w0)) ?k = Inr old"
    using inv old recs_same [OF st] by simp_all
  from crashed_writes [OF this, of t msg e] obtain new where
    n: "writes_one ?j ?k new ?w0 (task_crashed t msg ?c ?k e ?w0)" "jr_generation new = jr_generation old"
    "if RECORD_GONE e \<or> jr_job_id old \<noteq> None then new = old
     else jr_state new = SUBMIT_FAILED \<and> jr_fail_reason new = Some ''INTERNAL_ERROR''" unfolding j by blast
  have "writes_one ?j ?k new w (task_crashed t msg ?c ?k e ?w0)" using n(1) unfolding writes_one_def recs_same [OF st] .
  then have "writes_one ?j ?k new w (task_finish t msg task (Inl e) w)" unfolding eq by (rule writes_one_trans) simp
  moreover have "outcome_of task (Inl e) w old new"
  proof (cases e)
    case (SubmitError err)
    with e show ?thesis by blast
  qed (use n(3) in \<open>simp_all add: outcome_of_def\<close>)
  ultimately show ?thesis using n(2) unfolding finishes_def by blast
qed



definition demo_failure :: submit_error where
  "demo_failure = \<lparr> se_message = [], se_fail_reason = ''BSUB_EXIT_255'', se_returncode = Some 255, se_stderr = ''busy'',
     se_stdout = [], se_retryable = True \<rparr>"


end
