(* ===== verification/StatusPayload.thy ===== *)
theory StatusPayload
  imports Options Command
begin

text \<open>
  The parser of the status callback's answers (\<open>src/lsfmgr/internal_status.py\<close>, the functions up
  to \<open>parse_internal_jobs\<close>): field lookup, times, states, one job, the whole payload.
\<close>

section \<open>The payload\<close>

text \<open>
  What the code observes of an answer. A field of a job is \<open>None\<close> or the text \<open>str(value)\<close>;
  an item of the job list is a dict or something else; the jobs are null, a list or tuple, or
  something else; the answer is nothing, a dict with or without the key \<open>jobs\<close>, or the jobs
  themselves.
\<close>

type_synonym job_row = "(string, string option) dict"

datatype payload_item = RowDict job_row | RowOther
datatype payload_jobs = JobsNone | JobsList "payload_item list" | JobsOther
datatype payload = NoPayload | Envelope "payload_jobs option" | Bare payload_jobs

text \<open>
  The local clock: the local time of an instant, both in microseconds since 1970, or no result
  where \<open>datetime\<close> raises \<open>OverflowError\<close>.
\<close>

type_synonym local_clock = "int \<Rightarrow> datetime option"

section \<open>Fields\<close>

definition EMPTY_TEXTS :: "string list" where
  "EMPTY_TEXTS = ['''', ''-'', ''null'', ''none'', ''nil'', ''n/a'']"

definition STAT_ALIASES :: "(string, JobState) dict" where
  "STAT_ALIASES = [(''RUNNING'', RUN), (''PENDING'', PEND), (''EXITED'', EXIT), (''UNKNOWN'', UNKWN)]"

definition KEYS_ID :: "string list" where
  "KEYS_ID = [''dataId'', ''dataid'', ''jobId'', ''jobid'', ''id'']"
definition KEYS_STAT :: "string list" where
  "KEYS_STAT = [''stat'', ''status'', ''state'']"
definition KEYS_START :: "string list" where
  "KEYS_START = [''startTime'', ''start_time'']"
definition KEYS_FINISH :: "string list" where
  "KEYS_FINISH = [''finishTime'', ''finish_time'', ''endTime'', ''end_time'']"
definition KEYS_EXIT :: "string list" where
  "KEYS_EXIT = [''exitStatus'', ''exitCode'', ''exit_code'', ''exit_status'']"
definition KEYS_CLUSTER :: "string list" where
  "KEYS_CLUSTER = [''cluster'', ''clusterName'', ''cluster_name'']"

fun pick :: "job_row \<Rightarrow> string list \<Rightarrow> string option" where
  "pick job [] = None"
| "pick job (k # ks) = (case dget job k of Some (Some v) \<Rightarrow> Some v | _ \<Rightarrow> pick job ks)"

definition clean :: "string option \<Rightarrow> string option" where
  "clean v =
     (case v of
        None \<Rightarrow> None
      | Some t \<Rightarrow> (let s = py_strip t in if py_lower s \<in> set EMPTY_TEXTS then None else Some s))"

section \<open>Times\<close>

text \<open>
  \<open>_TZ_RE.search\<close>: the sign, hours and minutes of an offset at the end of the text, or \<open>Z\<close>, and
  the text before. The three forms exclude each other by their last characters.
\<close>

datatype tz_tail = TzUtc | TzOffset bool int int

definition offset_tail :: "string \<Rightarrow> tz_tail option" where
  "offset_tail t =
     (case t of
        sg # ds \<Rightarrow>
          (if sg \<in> {CHR ''+'', CHR ''-''} \<and> py_isdigit ds \<and> length ds = 4
           then Some (TzOffset (sg = CHR ''-'') (int_of_digits (take 2 ds)) (int_of_digits (drop 2 ds))) else None)
      | [] \<Rightarrow> None)"

definition tz_search :: "string \<Rightarrow> (string \<times> tz_tail) option" where
  "tz_search s =
     (let n = length s; s5 = drop (n - 5) s; s6 = drop (n - 6) s
      in if s \<noteq> [] \<and> last s = CHR ''Z'' then Some (butlast s, TzUtc)
         else if n \<ge> 6 \<and> s6 ! 3 = CHR '':'' \<and> offset_tail (take 3 s6 @ drop 4 s6) \<noteq> None
         then map_option (\<lambda>z. (take (n - 6) s, z)) (offset_tail (take 3 s6 @ drop 4 s6))
         else if n \<ge> 5 then map_option (\<lambda>z. (take (n - 5) s, z)) (offset_tail s5)
         else None)"

text \<open>\<open>_split_tz\<close>: the body and the offset from UTC in microseconds.\<close>

definition split_tz :: "string \<Rightarrow> py_error + string \<times> int option" where
  "split_tz s =
     (case tz_search s of
        None \<Rightarrow> Inr (s, None)
      | Some (body, TzUtc) \<Rightarrow> Inr (py_strip body, Some 0)
      | Some (body, TzOffset neg h m) \<Rightarrow>
          (if h \<ge> 24 \<or> m \<ge> 60 then Inl ValueError
           else (let d = 60000000 * (60 * h + m) in Inr (py_strip body, Some (if neg then - d else d)))))"

text \<open>\<open>body.partition(c)\<close>: the text before and after the first \<open>c\<close>, if there is one.\<close>

definition py_partition :: "char \<Rightarrow> string \<Rightarrow> string \<times> string option" where
  "py_partition c s =
     (let a = takeWhile (\<lambda>x. x \<noteq> c) s; r = drop (length a) s
      in (a, if r = [] then None else Some (tl r)))"

definition TIME_FORMATS :: "directive list list" where
  "TIME_FORMATS =
     (let ymd = [DYear4, DLit CHR ''-'', DMonthNum, DLit CHR ''-'', DDay]
      in [ymd @ [DSpace] @ FMT_TIME @ [DLit CHR '':'', DSecond], ymd @ [DSpace] @ FMT_TIME, ymd])"

fun first_format :: "string \<Rightarrow> directive list list \<Rightarrow> civil option" where
  "first_format s [] = None"
| "first_format s (f # fs) = (case strptime s f of Some c \<Rightarrow> Some c | None \<Rightarrow> first_format s fs)"

definition normal_time :: "string \<Rightarrow> string" where
  "normal_time body =
     (let (d, t) = (case py_partition (CHR ''T'') body of
                      (d, Some t) \<Rightarrow> (d, t)
                    | (_, None) \<Rightarrow> (case py_partition (CHR '' '') body of (d, t) \<Rightarrow> (d, case t of None \<Rightarrow> [] | Some x \<Rightarrow> x)));
          d' = map (\<lambda>c. if c \<in> {CHR '':'', CHR ''/''} then CHR ''-'' else c) d;
          t' = takeWhile (\<lambda>c. c \<noteq> CHR ''+'') (takeWhile (\<lambda>c. c \<noteq> CHR ''.'') t)
      in py_strip (d' @ '' '' @ t'))"

definition parse_time :: "local_clock \<Rightarrow> string option \<Rightarrow> py_error + datetime option" where
  "parse_time local v =
     (case clean v of
        None \<Rightarrow> Inr None
      | Some s \<Rightarrow>
          (if py_isdigit s \<and> length s \<in> {10, 13}
           then Inr (local (int_of_digits s * (if length s = 13 then 1000 else 1000000)))
           else
             (case split_tz s of
                Inl e \<Rightarrow> Inr None
              | Inr (body, tz) \<Rightarrow>
                  (case first_format (normal_time body) TIME_FORMATS of
                     None \<Rightarrow> Inr None
                   | Some c \<Rightarrow>
                       (case tz of
                          None \<Rightarrow> Inr (Some (civil_datetime c))
                        | Some off \<Rightarrow>
                            (case local (civil_datetime c - off) of
                               None \<Rightarrow> Inl OverflowError
                             | Some t \<Rightarrow> Inr (Some t)))))))"

section \<open>One job\<close>

definition py_upper_char :: "char \<Rightarrow> char" where
  "py_upper_char c = (if 97 \<le> (of_char c :: nat) \<and> (of_char c :: nat) \<le> 122
                      then char_of ((of_char c :: nat) - 32) else c)"

definition job_state_of :: "string option \<Rightarrow> JobState" where
  "job_state_of raw =
     (case raw of
        None \<Rightarrow> UNKWN
      | Some s \<Rightarrow>
          (let key = map py_upper_char (py_strip s)
           in case dget LSF_STAT_MAP key of
                Some st \<Rightarrow> st
              | None \<Rightarrow> (case dget STAT_ALIASES key of Some st \<Rightarrow> st | None \<Rightarrow> UNKWN)))"

definition exit_code_of :: "job_row \<Rightarrow> int option" where
  "exit_code_of job = (case clean (pick job KEYS_EXIT) of None \<Rightarrow> None | Some s \<Rightarrow> py_int_of_string s)"

text \<open>\<open>_DATA_ID_RE.match\<close> on a stripped text: id, element, cluster.\<close>

definition cluster_suffix :: "string \<Rightarrow> string option option" where
  "cluster_suffix s =
     (case s of
        [] \<Rightarrow> Some None
      | c # r \<Rightarrow> if c = CHR ''.'' \<and> r \<noteq> [] \<and> newline \<notin> set r then Some (Some r) else None)"

definition data_id_match :: "string \<Rightarrow> (int \<times> int option \<times> string option) option" where
  "data_id_match s =
     (let d = digits_of s; rest = after_digits s; ix = digits_of (tl rest); rest2 = after_digits (tl rest)
      in if d = [] then None
         else if rest \<noteq> [] \<and> hd rest = CHR ''[''
         then (if ix \<noteq> [] \<and> rest2 \<noteq> [] \<and> hd rest2 = CHR '']''
               then map_option (\<lambda>cl. (int_of_digits d, Some (int_of_digits ix), cl)) (cluster_suffix (tl rest2)) else None)
         else map_option (\<lambda>cl. (int_of_digits d, None, cl)) (cluster_suffix rest))"

definition run_time_between :: "datetime option \<Rightarrow> datetime option \<Rightarrow> datetime \<Rightarrow> int option" where
  "run_time_between start finish now =
     (case start of
        None \<Rightarrow> None
      | Some t \<Rightarrow>
          (let e = (case finish of Some f \<Rightarrow> f | None \<Rightarrow> now)
           in if e \<ge> t then Some ((e - t) div 1000000) else None))"

definition job_status_from_dict :: "local_clock \<Rightarrow> job_row \<Rightarrow> datetime \<Rightarrow> py_error + JobStatus option" where
  "job_status_from_dict local job now =
     (case clean (pick job KEYS_ID) of
        None \<Rightarrow> Inr None
      | Some raw \<Rightarrow>
          (case data_id_match raw of
             None \<Rightarrow> Inr None
           | Some (pid, idx, suffix) \<Rightarrow>
               (let state = job_state_of (clean (pick job KEYS_STAT))
                in ebind (parse_time local (pick job KEYS_START)) (\<lambda>start.
                   ebind (if state \<in> {DONE, EXIT} then parse_time local (pick job KEYS_FINISH) else Inr None) (\<lambda>finish.
                     Inr (Some
                       \<lparr> st_job_id = pid, st_array_index = idx, st_state = state, st_exit_code = exit_code_of job,
                         st_run_time_s = run_time_between start finish now, st_start_time = start,
                         st_finish_time = finish,
                         st_source_cluster = (case clean (pick job KEYS_CLUSTER) of Some cl \<Rightarrow> Some cl | None \<Rightarrow> clean suffix),
                         st_forward_cluster = None \<rparr>))))))"

section \<open>The whole answer\<close>

fun parse_rows :: "local_clock \<Rightarrow> datetime \<Rightarrow> int set option \<Rightarrow> payload_item list \<Rightarrow> py_error + nat \<times> JobStatus list" where
  "parse_rows local now keep [] = Inr (0, [])"
| "parse_rows local now keep (RowOther # js) = parse_rows local now keep js"
| "parse_rows local now keep (RowDict job # js) =
     ebind (job_status_from_dict local job now) (\<lambda>st.
     ebind (parse_rows local now keep js) (\<lambda>(n, out).
       Inr (case st of
              None \<Rightarrow> (n, out)
            | Some x \<Rightarrow> (Suc n, if (case keep of None \<Rightarrow> True | Some ids \<Rightarrow> st_job_id x \<in> ids) then x # out else out))))"

definition payload_rows :: "payload \<Rightarrow> py_error + payload_item list" where
  "payload_rows p =
     (case (case p of
              NoPayload \<Rightarrow> Inl ValueError
            | Envelope None \<Rightarrow> Inl ValueError
            | Envelope (Some jobs) \<Rightarrow> Inr jobs
            | Bare jobs \<Rightarrow> Inr jobs) of
        Inl e \<Rightarrow> Inl e
      | Inr JobsNone \<Rightarrow> Inr []
      | Inr (JobsList js) \<Rightarrow> Inr js
      | Inr JobsOther \<Rightarrow> Inl ValueError)"

definition parse_internal_jobs :: "local_clock \<Rightarrow> payload \<Rightarrow> datetime \<Rightarrow> int set option \<Rightarrow> py_error + JobStatus list" where
  "parse_internal_jobs local p now keep =
     ebind (payload_rows p) (\<lambda>jobs.
     ebind (parse_rows local now keep jobs) (\<lambda>(parsed, out).
       if jobs \<noteq> [] \<and> parsed = 0 then Inl ValueError else Inr out))"

section \<open>What the parser guarantees\<close>

text \<open>The states the LSF map and the aliases lead to.\<close>

lemma job_state_lsf: "is_on_lsf (job_state_of raw) \<or> job_state_of raw = DONE \<or> job_state_of raw = EXIT"
proof -
  have "is_on_lsf st \<or> st = DONE \<or> st = EXIT" if "dget LSF_STAT_MAP k = Some st" for k st
    using that by (auto simp: LSF_STAT_MAP_def ON_LSF_def is_on_lsf_def split: if_splits)
  moreover have "is_on_lsf st \<or> st = DONE \<or> st = EXIT" if "dget STAT_ALIASES k = Some st" for k st
    using that by (auto simp: STAT_ALIASES_def ON_LSF_def is_on_lsf_def split: if_splits)
  ultimately show ?thesis
    by (auto simp: job_state_of_def Let_def is_on_lsf_def ON_LSF_def split: option.split)
qed

lemma int_of_digits_nonneg: "0 \<le> int_of_digits s"
  by (simp add: int_of_digits_def)

lemma data_id_nonneg: "data_id_match s = Some (pid, idx, cl) \<Longrightarrow> 0 \<le> pid \<and> (\<forall>i. idx = Some i \<longrightarrow> 0 \<le> i)"
  by (auto simp: data_id_match_def Let_def int_of_digits_nonneg split: if_splits)

lemma clean_nonempty: "clean v = Some s \<Longrightarrow> s \<noteq> []"
  by (auto simp: clean_def Let_def EMPTY_TEXTS_def py_lower_def split: option.splits if_splits)

text \<open>
  C24: Whatever the callback sends, a row that is accepted is a well-formed status. Its ids are
  natural numbers, its state is one that LSF reports (never a state of the manager's own, such as
  submitting or lost), the running time is not negative and needs a start, a finish time is there
  only for an ended job, and an empty text never becomes a cluster.
\<close>

theorem accepted_row_well_formed:
  assumes "job_status_from_dict local job now = Inr (Some st)"
  shows "0 \<le> st_job_id st \<and> (\<forall>i. st_array_index st = Some i \<longrightarrow> 0 \<le> i) \<and>
    (is_on_lsf (st_state st) \<or> st_state st = DONE \<or> st_state st = EXIT) \<and>
    (\<forall>r. st_run_time_s st = Some r \<longrightarrow> 0 \<le> r \<and> st_start_time st \<noteq> None) \<and>
    (st_finish_time st \<noteq> None \<longrightarrow> st_state st \<in> {DONE, EXIT}) \<and>
    st_source_cluster st \<noteq> Some [] \<and> st_forward_cluster st = None"
proof -
  from assms obtain raw pid idx suffix start finish where
    id: "data_id_match raw = Some (pid, idx, suffix)"
    and st: "st = \<lparr> st_job_id = pid, st_array_index = idx, st_state = job_state_of (clean (pick job KEYS_STAT)),
       st_exit_code = exit_code_of job, st_run_time_s = run_time_between start finish now, st_start_time = start,
       st_finish_time = finish,
       st_source_cluster = (case clean (pick job KEYS_CLUSTER) of Some cl \<Rightarrow> Some cl | None \<Rightarrow> clean suffix), st_forward_cluster = None \<rparr>"
    and fin: "finish \<noteq> None \<longrightarrow> job_state_of (clean (pick job KEYS_STAT)) \<in> {DONE, EXIT}"
    by (auto simp: job_status_from_dict_def ebind_def Let_def split: option.splits sum.splits if_splits)
  have "\<forall>r. run_time_between start finish now = Some r \<longrightarrow> 0 \<le> r \<and> start \<noteq> None"
    by (auto simp: run_time_between_def Let_def split: option.splits if_splits)
  moreover have "(case clean (pick job KEYS_CLUSTER) of Some cl \<Rightarrow> Some cl | None \<Rightarrow> clean suffix) \<noteq> Some []"
    using clean_nonempty by (auto split: option.splits)
  ultimately show ?thesis
    using data_id_nonneg [OF id] job_state_lsf [of "clean (pick job KEYS_STAT)"] fin by (simp add: st)
qed

theorem accepted_row_well_formed_witness:
  "case job_status_from_dict (\<lambda>_. None) [(''id'', Some ''12[3].siteA''), (''state'', Some ''Running'')] 0 of
     Inr (Some st) \<Rightarrow> st_job_id st = 12 \<and> is_on_lsf (st_state st) \<and> st_forward_cluster st = None | _ \<Rightarrow> False"
proof -
  have "\<exists>st. job_status_from_dict (\<lambda>_. None) [(''id'', Some ''12[3].siteA''), (''state'', Some ''Running'')] 0 = Inr (Some st) \<and>
      st_job_id st = 12 \<and> st_state st = RUN"
  proof -
    have "case job_status_from_dict (\<lambda>_. None) [(''id'', Some ''12[3].siteA''), (''state'', Some ''Running'')] 0 of
      Inr (Some st) \<Rightarrow> st_job_id st = 12 \<and> st_state st = RUN | _ \<Rightarrow> False" by code_simp
    then show ?thesis by (auto split: sum.splits option.splits)
  qed
  with accepted_row_well_formed show ?thesis by fastforce
qed

text \<open>
  Filtering while parsing is filtering afterwards. An answer parsed for the ids of interest
  gives exactly the rows of interest of the whole answer, in the same order, and is refused in
  exactly the same cases: that all rows belong to other jobs is never taken for a broken format.
\<close>

theorem parse_keep_is_filter:
  "parse_internal_jobs local p now (Some ids) =
    map_sum id (filter (\<lambda>st. st_job_id st \<in> ids)) (parse_internal_jobs local p now None)"
proof -
  have "parse_rows local now (Some ids) jobs = map_sum id (\<lambda>(n, out). (n, filter (\<lambda>st. st_job_id st \<in> ids) out))
      (parse_rows local now None jobs)" for jobs
    by (induction local now "Some ids" jobs rule: parse_rows.induct)
      (auto simp: ebind_def split: sum.splits option.splits prod.splits)
  then show ?thesis
    by (auto simp: parse_internal_jobs_def ebind_def split: sum.splits prod.splits)
qed

text \<open>A row as the services of the sites write it.\<close>

definition cluster_text :: "string option \<Rightarrow> string" where
  "cluster_text cl = (case cl of None \<Rightarrow> [] | Some c \<Rightarrow> ''.'' @ c)"

definition callback_row :: "int \<Rightarrow> int option \<Rightarrow> string option \<Rightarrow> string \<Rightarrow> int option \<Rightarrow> job_row" where
  "callback_row pid idx cl stat ec =
     [(''dataId'', Some (job_text pid idx @ cluster_text cl)), (''stat'', Some stat), (''exitCode'', Some (exit_text ec))]"

lemma lower_digit: "is_digit c \<or> c = CHR ''-'' \<Longrightarrow> py_lower_char c = c"
  by (auto simp: is_digit_def py_lower_char_def)

lemma clean_exit: "(case clean (Some (exit_text ec)) of None \<Rightarrow> None | Some s \<Rightarrow> py_int_of_string s) = ec"
proof (cases ec)
  case None
  have "clean (Some ''-'') = None" by code_simp
  with None show ?thesis by (simp add: exit_text_def)
next
  case (Some n)
  have "\<forall>c\<in>set (show_nat k). is_digit c" for k using show_nat_digits [of k] by (simp add: list_all_iff)
  then have "\<forall>c\<in>set (show_int n). is_digit c \<or> c = CHR ''-''" by (auto simp: show_int_def)
  then have low: "py_lower (show_int n) = show_int n" unfolding py_lower_def using lower_digit by (metis map_idI)
  have "list_all (\<lambda>e. py_int_of_string e = None) EMPTY_TEXTS" by code_simp
  then have "show_int n \<notin> set EMPTY_TEXTS" using py_int_show_int [of n] by (auto simp: list_all_iff)
  with low Some show ?thesis by (simp add: clean_def exit_text_def strip_show_int Let_def py_int_show_int)
qed

lemma clean_id:
  assumes pid: "0 \<le> pid" and p: "plain_field (job_text pid idx @ cluster_text cl)"
  shows "clean (Some (job_text pid idx @ cluster_text cl)) = Some (job_text pid idx @ cluster_text cl)"
proof -
  let ?t = "job_text pid idx @ cluster_text cl"
  obtain s where t: "?t = show_int pid @ s" by (cases idx) (auto simp: job_text_def show_elem_def)
  have "is_digit (hd (show_int pid))"
    using pid show_nat_digits [of "nat pid"] by (cases "show_nat (nat pid)") (auto simp: show_int_nonneg)
  then obtain c r where c: "?t = c # r" "is_digit c" unfolding t by (cases "show_int pid") auto
  have "list_all (\<lambda>e. e = [] \<or> \<not> is_digit (hd e)) EMPTY_TEXTS" by code_simp
  then have "py_lower ?t \<notin> set EMPTY_TEXTS" using c lower_digit [of c] by (auto simp: py_lower_def list_all_iff)
  then show ?thesis by (simp add: clean_def strip_plain [OF p] Let_def)
qed

lemma data_id_text:
  assumes "0 \<le> pid" and "\<forall>i. idx = Some i \<longrightarrow> 0 \<le> i" and "\<forall>c. cl = Some c \<longrightarrow> c \<noteq> [] \<and> newline \<notin> set c"
  shows "data_id_match (job_text pid idx @ cluster_text cl) = Some (pid, idx, cl)"
proof -
  have nd: "\<not> is_digit CHR ''.''" "\<not> is_digit CHR ''[''" "\<not> is_digit CHR '']''" by (simp_all add: is_digit_def)
  have suf: "cluster_suffix (cluster_text cl) = Some cl"
    using assms(3) by (cases cl) (auto simp: cluster_suffix_def cluster_text_def)
  have head: "case cluster_text cl of [] \<Rightarrow> True | c # _ \<Rightarrow> \<not> is_digit c"
    by (cases cl) (simp_all add: cluster_text_def nd)
  show ?thesis
  proof (cases idx)
    case None
    have "cluster_text cl = [] \<or> hd (cluster_text cl) \<noteq> CHR ''[''" by (cases cl) (simp_all add: cluster_text_def)
    with None suf digits_of_show [OF assms(1) head] assms(1) show ?thesis
      by (auto simp: data_id_match_def job_text_def Let_def)
  next
    case (Some i)
    then have i: "0 \<le> i" using assms(2) by simp
    have d1: "digits_of (show_int pid @ CHR ''['' # s) = show_int pid" "after_digits (show_int pid @ CHR ''['' # s) = CHR ''['' # s" for s
      using digits_of_show [OF assms(1), of "CHR ''['' # s"] nd by simp_all
    have d2: "digits_of (show_int i @ CHR '']'' # s) = show_int i" "after_digits (show_int i @ CHR '']'' # s) = CHR '']'' # s" for s
      using digits_of_show [OF i, of "CHR '']'' # s"] nd by simp_all
    from Some suf i assms(1) show ?thesis
      by (simp add: data_id_match_def job_text_def show_elem_def Let_def d1 d2)
  qed
qed

text \<open>
  C25: Callback rows. A row for any job or array element, with or without a cluster suffix, with
  any state of LSF written in any letter case and any exit code, is read back as exactly that
  job, state, exit code and cluster.
\<close>

theorem callback_row_roundtrip:
  assumes pid: "0 \<le> pid" and idx: "\<forall>i. idx = Some i \<longrightarrow> 0 \<le> i"
    and st: "is_on_lsf st \<or> st = DONE \<or> st = EXIT" and stat: "map py_upper_char stat = state_value st" "plain_field stat"
    and cl: "\<forall>c. cl = Some c \<longrightarrow> plain_field c \<and> clean (Some c) = Some c"
  shows "job_status_from_dict local (callback_row pid idx cl stat ec) now = Inr (Some
    \<lparr> st_job_id = pid, st_array_index = idx, st_state = st, st_exit_code = ec, st_run_time_s = None,
      st_start_time = None, st_finish_time = None, st_source_cluster = cl, st_forward_cluster = None \<rparr>)"
proof -
  let ?row = "callback_row pid idx cl stat ec"
  have picks: "pick ?row KEYS_ID = Some (job_text pid idx @ cluster_text cl)" "pick ?row KEYS_STAT = Some stat"
    "pick ?row KEYS_START = None" "pick ?row KEYS_FINISH = None" "pick ?row KEYS_EXIT = Some (exit_text ec)"
    "pick ?row KEYS_CLUSTER = None"
    by (simp_all add: callback_row_def KEYS_ID_def KEYS_STAT_def KEYS_START_def KEYS_FINISH_def KEYS_EXIT_def KEYS_CLUSTER_def)
  have clnl: "\<forall>c. cl = Some c \<longrightarrow> c \<noteq> [] \<and> newline \<notin> set c"
    using cl clean_nonempty by (fastforce simp: plain_field_def py_isspace_def newline_def)
  have "plain_field (job_text pid idx)"
    by (auto simp: job_text_def show_elem_def plain_show_int plain_literals split: option.splits)
  moreover have "plain_field (cluster_text cl)"
    using cl by (auto simp: cluster_text_def py_isspace_def split: option.split)
  ultimately have id: "clean (pick ?row KEYS_ID) = Some (job_text pid idx @ cluster_text cl)"
    using clean_id [OF pid] picks by simp
  have key: "map py_upper_char (py_strip stat) = state_value st" using stat by (simp add: strip_plain)
  have ne: "py_lower stat \<notin> set EMPTY_TEXTS"
  proof
    assume "py_lower stat \<in> set EMPTY_TEXTS"
    moreover have "map py_upper_char (py_lower stat) = map py_upper_char stat"
      by (simp add: py_lower_def py_upper_char_def py_lower_char_def o_def)
    ultimately have "state_value st \<in> set (map (map py_upper_char) EMPTY_TEXTS)" using stat by (metis image_eqI set_map)
    moreover have "set (map (map py_upper_char) EMPTY_TEXTS) \<inter> set (map state_value all_states) = {}" by code_simp
    ultimately show False using all_states_complete [of st] by (metis IntI emptyE image_eqI set_map)
  qed
  have state: "job_state_of (clean (pick ?row KEYS_STAT)) = st"
    using st picks ne stat by (cases st) (auto simp: clean_def job_state_of_def Let_def strip_plain LSF_STAT_MAP_def is_on_lsf_def ON_LSF_def)
  have ex: "exit_code_of ?row = ec" using clean_exit [of ec] picks by (simp add: exit_code_of_def)
  have "clean cl = cl" using cl by (cases cl) (simp_all add: clean_def)
  then show ?thesis
    unfolding job_status_from_dict_def id using data_id_text [OF pid idx clnl]
    by (simp add: picks state [unfolded picks] ex ebind_def Let_def parse_time_def clean_def [of None] run_time_between_def)
qed

theorem callback_row_roundtrip_witness:
  "job_status_from_dict (\<lambda>_. None) (callback_row 1000 (Some 3) (Some ''siteA'') ''Exit'' (Some 137)) 0 = Inr (Some
    \<lparr> st_job_id = 1000, st_array_index = Some 3, st_state = EXIT, st_exit_code = Some 137, st_run_time_s = None,
      st_start_time = None, st_finish_time = None, st_source_cluster = Some ''siteA'', st_forward_cluster = None \<rparr>)"
proof (rule callback_row_roundtrip)
  show "map py_upper_char ''Exit'' = state_value EXIT" by code_simp
  have "plain_field ''siteA''" "clean (Some ''siteA'') = Some ''siteA''" by (simp_all add: py_isspace_def) code_simp
  then show "\<forall>c. Some ''siteA'' = Some c \<longrightarrow> plain_field c \<and> clean (Some c) = Some c" by simp
qed (simp_all add: py_isspace_def)

text \<open>
  A time with an offset that cannot be converted (a zero date in a zone west of Greenwich) does
  not only lose its field: the exception leaves \<open>parse_time\<close>, and the whole answer is refused.
\<close>

lemma unconvertible_time_refuses_answer:
  "parse_internal_jobs (\<lambda>_. None) (Envelope (Some (JobsList
     [RowDict [(''dataId'', Some ''7''), (''stat'', Some ''RUN''), (''startTime'', Some ''0001-01-01T00:00:00Z'')],
      RowDict [(''dataId'', Some ''8''), (''stat'', Some ''DONE'')]]))) 0 None = Inl OverflowError"
  by code_simp

end
