(* ===== verification/StatusSource.thy ===== *)
theory StatusSource
  imports StatusPayload
begin

text \<open>
  The in-house status source (\<open>src/lsfmgr/internal_status.py\<close>, \<open>InternalStatusSource\<close>): the
  ledger of statuses merged from the callback's answers, and the single-flight fetch that any
  number of callers wait for, take over, or give up on.
\<close>

section \<open>State\<close>

datatype FetcherState = IDLE | PRIMARY | FAILOVER | DOWN

record ledger_row =
  lr_status :: JobStatus
  lr_seen_at :: datetime
  lr_fetched_at :: seconds

type_synonym status_ledger = "(int, (int option, ledger_row) dict) dict"

text \<open>
  Readings of the monotonic clock are \<open>seconds\<close>; \<open>None\<close> is \<open>float("-inf")\<close> for the times past
  and \<open>float("inf")\<close> for the deadline of a fetch. The ownership mark \<open>object()\<close> is a number that
  is drawn once.
\<close>

record isrc =
  is_failover :: bool
  is_primary_unreturned :: int
  is_health :: FetcherState
  is_health_at :: "seconds option"
  is_explicit :: bool
  is_refresh_min_s :: seconds
  is_min_poll_interval_s :: "seconds option"
  is_wait_timeout_s :: seconds
  is_retention :: datetime
  is_track_runtime :: bool
  is_ledger :: status_ledger
  is_interest :: "int set"
  is_last_fetch_at :: "seconds option"
  is_last_prune_at :: "seconds option"
  is_fetching :: bool
  is_fetch_deadline :: "seconds option"
  is_fetch_token :: nat
  is_inflight :: int
  is_gen :: nat
  is_closed :: bool
  is_next_token :: nat

definition MAX_INFLIGHT :: int where
  "MAX_INFLIGHT = 3"

definition PRUNE_MIN_INTERVAL_S :: seconds where
  "PRUNE_MIN_INTERVAL_S = 60"

text \<open>\<open>past t x\<close> is \<open>t <= x\<close> for a reading \<open>t\<close> that may be \<open>-inf\<close>.\<close>

definition past :: "seconds option \<Rightarrow> seconds \<Rightarrow> bool" where
  "past t x \<longleftrightarrow> (case t of None \<Rightarrow> True | Some y \<Rightarrow> y \<le> x)"

text \<open>\<open>t > u\<close> for two readings that may be \<open>-inf\<close>.\<close>

definition later_than :: "seconds option \<Rightarrow> seconds option \<Rightarrow> bool" where
  "later_than t u \<longleftrightarrow> (case t of None \<Rightarrow> False | Some x \<Rightarrow> (case u of None \<Rightarrow> True | Some y \<Rightarrow> y < x))"

definition reaches :: "seconds option \<Rightarrow> seconds \<Rightarrow> bool" where
  "reaches t x \<longleftrightarrow> (case t of None \<Rightarrow> False | Some y \<Rightarrow> x \<le> y)"

text \<open>
  The constructor. Whether the two callbacks are callable is an argument (\<open>None\<close>: no failover);
  \<open>timedelta(days=d)\<close> is a number of microseconds.
\<close>

definition new_isrc :: "bool \<Rightarrow> bool option \<Rightarrow> seconds option \<Rightarrow> seconds \<Rightarrow> seconds \<Rightarrow> real \<Rightarrow> bool \<Rightarrow> py_error + isrc" where
  "new_isrc fetcher_callable failover refresh_min_s poll_interval_s wait_timeout_s retention_days track_runtime =
     (if \<not> fetcher_callable \<or> failover = Some False then Inl ValueError
      else Inr
        \<lparr> is_failover = (failover \<noteq> None), is_primary_unreturned = 0, is_health = IDLE, is_health_at = None,
          is_explicit = (refresh_min_s \<noteq> None),
          is_refresh_min_s = (case refresh_min_s of Some x \<Rightarrow> x | None \<Rightarrow> max 0 poll_interval_s / 2),
          is_min_poll_interval_s = None, is_wait_timeout_s = max 1 wait_timeout_s,
          is_retention = round (max 0 retention_days * 86400000000), is_track_runtime = track_runtime,
          is_ledger = [], is_interest = {}, is_last_fetch_at = None, is_last_prune_at = None,
          is_fetching = False, is_fetch_deadline = None, is_fetch_token = 0, is_inflight = 0, is_gen = 0,
          is_closed = False, is_next_token = 1 \<rparr>)"

section \<open>Simple operations\<close>

definition ledger_rows :: "status_ledger \<Rightarrow> int \<Rightarrow> (int option, ledger_row) dict" where
  "ledger_rows l i = dget_or l i []"

definition read_ledger :: "status_ledger \<Rightarrow> int list \<Rightarrow> JobStatus list" where
  "read_ledger l ids = concat (map (\<lambda>i. map lr_status (dvalues (ledger_rows l i))) ids)"

definition invalidate :: "isrc \<Rightarrow> isrc" where
  "invalidate s = s\<lparr>is_last_fetch_at := None\<rparr>"

definition src_forget :: "int list \<Rightarrow> isrc \<Rightarrow> isrc" where
  "src_forget ids s =
     (if ids = [] then s
      else s\<lparr>is_interest := is_interest s - set ids, is_ledger := filter (\<lambda>(i, es). i \<notin> set ids) (is_ledger s)\<rparr>)"

definition note_poll_interval :: "seconds \<Rightarrow> isrc \<Rightarrow> isrc" where
  "note_poll_interval interval_s s =
     (let interval = max 0 interval_s
      in if is_explicit s \<or> (case is_min_poll_interval_s s of None \<Rightarrow> False | Some m \<Rightarrow> interval \<ge> m) then s
         else s\<lparr>is_min_poll_interval_s := Some interval, is_refresh_min_s := interval / 2\<rparr>)"

definition src_shutdown :: "isrc \<Rightarrow> isrc" where
  "src_shutdown s = s\<lparr>is_closed := True\<rparr>"

definition fetcher_state :: "isrc \<Rightarrow> FetcherState" where
  "fetcher_state s = is_health s"

record src_stats =
  ss_job_ids :: nat
  ss_entries :: nat
  ss_tracked_ids :: nat
  ss_inflight :: int
  ss_fetcher_state :: FetcherState
  ss_served_by_failover :: bool
  ss_primary_unreturned :: int
  ss_refresh_min_s :: seconds

definition stats_of :: "isrc \<Rightarrow> src_stats" where
  "stats_of s =
     \<lparr> ss_job_ids = length (is_ledger s), ss_entries = sum_list (map length (dvalues (is_ledger s))),
       ss_tracked_ids = card (is_interest s), ss_inflight = is_inflight s, ss_fetcher_state = is_health s,
       ss_served_by_failover = (is_health s = FAILOVER), ss_primary_unreturned = is_primary_unreturned s,
       ss_refresh_min_s = is_refresh_min_s s \<rparr>"

definition register_interest :: "int list \<Rightarrow> isrc \<Rightarrow> bool \<times> isrc" where
  "register_interest ids s = (\<not> set ids \<subseteq> is_interest s, s\<lparr>is_interest := is_interest s \<union> set ids\<rparr>)"

definition note_outcome :: "seconds \<Rightarrow> bool \<Rightarrow> bool \<Rightarrow> isrc \<Rightarrow> isrc" where
  "note_outcome clk ok served_by_failover s =
     (if reaches (is_health_at s) clk then s
      else s\<lparr>is_health_at := Some clk,
             is_health := (if \<not> ok then DOWN else if served_by_failover then FAILOVER else PRIMARY)\<rparr>)"

section \<open>Merging and expiry\<close>

text \<open>The loop of \<open>_merge_locked\<close>: the keys it wrote.\<close>

definition merge_row :: "int set \<Rightarrow> datetime \<Rightarrow> seconds \<Rightarrow> JobStatus \<Rightarrow> (int \<times> int option) set \<times> status_ledger
    \<Rightarrow> (int \<times> int option) set \<times> status_ledger" where
  "merge_row interest now clk st acc =
     (case acc of (keys, l) \<Rightarrow>
        (if st_job_id st \<notin> interest then (keys, l)
         else
           (let elems = ledger_rows l (st_job_id st)
            in case dget elems (st_array_index st) of
                 Some old \<Rightarrow>
                   (if lr_fetched_at old > clk then (keys, dset (st_job_id st) elems l)
                    else (insert (st_job_id st, st_array_index st) keys,
                          dset (st_job_id st) (dset (st_array_index st)
                            \<lparr> lr_status = st, lr_seen_at = now, lr_fetched_at = clk \<rparr> elems) l))
               | None \<Rightarrow>
                   (insert (st_job_id st, st_array_index st) keys,
                    dset (st_job_id st) (dset (st_array_index st)
                      \<lparr> lr_status = st, lr_seen_at = now, lr_fetched_at = clk \<rparr> elems) l))))"

text \<open>\<open>int((b - a).total_seconds())\<close> truncates towards zero.\<close>

definition whole_seconds :: "datetime \<Rightarrow> datetime \<Rightarrow> int" where
  "whole_seconds a b = (if a \<le> b then (b - a) div 1000000 else - ((a - b) div 1000000))"

definition refresh_row :: "datetime \<Rightarrow> ledger_row \<Rightarrow> ledger_row" where
  "refresh_row now e =
     (let st = lr_status e
      in case st_start_time st of
           None \<Rightarrow> e
         | Some t \<Rightarrow>
             (if \<not> is_on_lsf (st_state st) \<or> whole_seconds t now < 0 then e
              else e\<lparr>lr_status := st\<lparr>st_run_time_s := Some (whole_seconds t now)\<rparr>\<rparr>))"

definition refresh_runtimes :: "datetime \<Rightarrow> (int \<times> int option) set \<Rightarrow> status_ledger \<Rightarrow> status_ledger" where
  "refresh_runtimes now fresh l =
     map (\<lambda>(i, es). (i, map (\<lambda>(x, e). (x, if (i, x) \<in> fresh then e else refresh_row now e)) es)) l"

definition merge_statuses :: "JobStatus list \<Rightarrow> datetime \<Rightarrow> seconds \<Rightarrow> isrc \<Rightarrow> isrc" where
  "merge_statuses sts now clk s =
     (let (fresh, l) = fold (merge_row (is_interest s) now clk) sts ({}, is_ledger s)
      in s\<lparr>is_ledger := (if is_track_runtime s \<and> past (is_last_fetch_at s) clk then refresh_runtimes now fresh l else l)\<rparr>)"

definition expired :: "datetime \<Rightarrow> datetime \<Rightarrow> ledger_row \<Rightarrow> bool" where
  "expired retention now e \<longleftrightarrow>
     st_state (lr_status e) \<in> {DONE, EXIT} \<and>
     now - (case st_finish_time (lr_status e) of Some t \<Rightarrow> t | None \<Rightarrow> lr_seen_at e) > retention"

definition prune :: "seconds \<Rightarrow> datetime \<Rightarrow> isrc \<Rightarrow> isrc" where
  "prune clk now s =
     (if is_retention s \<le> 0 \<or> (case is_last_prune_at s of None \<Rightarrow> False | Some p \<Rightarrow> clk - p < PRUNE_MIN_INTERVAL_S) then s
      else
        (let l = map (\<lambda>(i, es). (i, filter (\<lambda>(x, e). \<not> expired (is_retention s) now e) es)) (is_ledger s)
         in s\<lparr>is_last_prune_at := Some clk, is_ledger := filter (\<lambda>(i, es). es \<noteq> []) l,
              is_interest := is_interest s - set (map fst (filter (\<lambda>(i, es). es = []) l))\<rparr>))"

section \<open>Waiting for a fetch\<close>

text \<open>\<open>_start_fetch_locked\<close>: the new token and whether the thread starts at the failover callback.\<close>

definition start_fetch :: "seconds \<Rightarrow> isrc \<Rightarrow> (nat \<times> bool) \<times> isrc" where
  "start_fetch tick s =
     ((is_next_token s, is_failover s \<and> is_primary_unreturned s > 0),
      s\<lparr>is_fetching := True, is_fetch_token := is_next_token s, is_next_token := Suc (is_next_token s),
        is_fetch_deadline := Some (tick + is_wait_timeout_s s), is_inflight := is_inflight s + 1\<rparr>)"

definition start_or_takeover :: "seconds \<Rightarrow> isrc \<Rightarrow> bool \<times> (nat \<times> bool) option \<times> isrc" where
  "start_or_takeover tick s =
     (if \<not> is_fetching s then (let (th, s') = start_fetch tick s in (True, Some th, s'))
      else if (case is_fetch_deadline s of None \<Rightarrow> True | Some d \<Rightarrow> tick < d) then (True, None, s)
      else if is_inflight s \<ge> MAX_INFLIGHT then (False, None, note_outcome tick False False s)
      else (let (th, s') = start_fetch tick s in (True, Some th, s')))"

text \<open>
  A caller inside \<open>_ensure_fetched\<close>. The loop is cut where the lock is released: a turn ends
  with an answer, or waits for a notification with what it saw before waiting.
\<close>

record fetch_call =
  fc_fresh :: bool
  fc_min_at :: seconds
  fc_deadline :: seconds

datatype turn = Answer bool | WaitFor "seconds option" nat

definition ensure_begin :: "seconds \<Rightarrow> bool \<Rightarrow> isrc \<Rightarrow> fetch_call" where
  "ensure_begin started fresh s =
     \<lparr> fc_fresh = fresh, fc_min_at = (if fresh then started else started - is_refresh_min_s s),
       fc_deadline = started + is_wait_timeout_s s \<rparr>"

definition ensure_turn :: "seconds \<Rightarrow> fetch_call \<Rightarrow> isrc \<Rightarrow> turn \<times> (nat \<times> bool) option \<times> isrc" where
  "ensure_turn tick c s =
     (if is_closed s then (Answer False, None, s)
      else if reaches (is_last_fetch_at s) (fc_min_at c) then (Answer True, None, s)
      else (case start_or_takeover tick s of
              (False, th, s') \<Rightarrow> (Answer False, th, s')
            | (True, th, s') \<Rightarrow>
                (if fc_deadline c - tick \<le> 0 then (Answer False, th, note_outcome tick False False s')
                 else (WaitFor (is_last_fetch_at s') (is_gen s'), th, s'))))"

text \<open>Waking up, notified or timed out: \<open>None\<close> goes round the loop again.\<close>

definition ensure_wake :: "seconds \<Rightarrow> bool \<Rightarrow> fetch_call \<Rightarrow> seconds option \<Rightarrow> nat \<Rightarrow> isrc \<Rightarrow> bool option \<times> isrc" where
  "ensure_wake tick notified c before gen s =
     (if \<not> notified then (Some False, note_outcome tick False False s)
      else if is_closed s then (Some False, s)
      else if is_gen s = gen then (None, s)
      else if \<not> later_than (is_last_fetch_at s) before then (Some False, s)
      else if reaches (is_last_fetch_at s) (fc_min_at c) \<or> \<not> fc_fresh c then (Some True, s)
      else (None, s))"

section \<open>The fetch thread\<close>

text \<open>
  What a callback does: it returns, it raises an \<open>Exception\<close>, or the thread ends by some other
  \<open>BaseException\<close>. The last one is not given to the failover callback.
\<close>

datatype callback_result = CbReturns payload | CbRaises py_error | CbAborts

datatype attempt = Parsed "JobStatus list" | Failed | Aborted

text \<open>\<open>_attempt\<close> after the callback: the ids to keep are those of interest when it returned.\<close>

definition attempt_result :: "local_clock \<Rightarrow> callback_result \<Rightarrow> datetime \<Rightarrow> isrc \<Rightarrow> attempt" where
  "attempt_result local cb now s =
     (case cb of
        CbRaises e \<Rightarrow> Failed
      | CbAborts \<Rightarrow> Aborted
      | CbReturns p \<Rightarrow>
          (case parse_internal_jobs local p now (Some (is_interest s)) of Inl e \<Rightarrow> Failed | Inr sts \<Rightarrow> Parsed sts))"

text \<open>
  Where a fetch thread is. It runs the primary callback (between the two bookkeeping sections of
  \<open>_attempt_primary\<close>), holds its result, runs the failover callback, or is at its end with the
  statuses (if any) and who served them.
\<close>

datatype fetch_phase =
    AtStart | InPrimary | PrimaryHas attempt | InFailover | AtEnd "JobStatus list option" bool

record fetch =
  ft_token :: nat
  ft_use_failover :: bool
  ft_at :: seconds
  ft_now :: datetime
  ft_phase :: fetch_phase

definition fetch_begin :: "seconds \<Rightarrow> datetime \<Rightarrow> fetch \<Rightarrow> isrc \<Rightarrow> fetch \<times> isrc" where
  "fetch_begin tick now f s =
     (let f' = f\<lparr>ft_at := tick, ft_now := now\<rparr>
      in if ft_use_failover f then (f'\<lparr>ft_phase := InFailover\<rparr>, s)
         else (f'\<lparr>ft_phase := InPrimary\<rparr>, s\<lparr>is_primary_unreturned := is_primary_unreturned s + 1\<rparr>))"

definition primary_returns :: "local_clock \<Rightarrow> callback_result \<Rightarrow> fetch \<Rightarrow> isrc \<Rightarrow> fetch" where
  "primary_returns local cb f s = f\<lparr>ft_phase := PrimaryHas (attempt_result local cb (ft_now f) s)\<rparr>"

definition primary_leave :: "attempt \<Rightarrow> fetch \<Rightarrow> isrc \<Rightarrow> fetch \<times> isrc" where
  "primary_leave a f s =
     (f\<lparr>ft_phase := (case a of
                       Parsed sts \<Rightarrow> AtEnd (Some sts) False
                     | Failed \<Rightarrow> if is_failover s then InFailover else AtEnd None False
                     | Aborted \<Rightarrow> AtEnd None False)\<rparr>,
      s\<lparr>is_primary_unreturned := is_primary_unreturned s - 1\<rparr>)"

definition failover_returns :: "local_clock \<Rightarrow> callback_result \<Rightarrow> fetch \<Rightarrow> isrc \<Rightarrow> fetch" where
  "failover_returns local cb f s =
     f\<lparr>ft_phase := (case attempt_result local cb (ft_now f) s of
                      Parsed sts \<Rightarrow> AtEnd (Some sts) True
                    | _ \<Rightarrow> AtEnd None (ft_use_failover f))\<rparr>"

text \<open>The \<open>finally\<close> block of \<open>_fetch_worker\<close>.\<close>

definition fetch_end :: "JobStatus list option \<Rightarrow> bool \<Rightarrow> fetch \<Rightarrow> isrc \<Rightarrow> isrc" where
  "fetch_end sts served_by_failover f s =
     (let s1 = s\<lparr>is_inflight := is_inflight s - 1\<rparr>;
          s2 = (case sts of
                  None \<Rightarrow> s1
                | Some rows \<Rightarrow>
                    (let m = merge_statuses rows (ft_now f) (ft_at f) s1;
                         m' = (if later_than (Some (ft_at f)) (is_last_fetch_at m) then m\<lparr>is_last_fetch_at := Some (ft_at f)\<rparr> else m)
                     in prune (ft_at f) (ft_now f) m'));
          s3 = (if is_fetch_token s2 = ft_token f
                then s2\<lparr>is_fetching := False, is_fetch_deadline := None, is_gen := Suc (is_gen s2)\<rparr> else s2)
      in note_outcome (ft_at f) (sts \<noteq> None) served_by_failover s3)"

section \<open>The query\<close>

text \<open>\<open>statuses_by_ids\<close>, with the answer of \<open>_ensure_fetched\<close> and the state it left.\<close>

definition statuses_by_ids :: "(bool \<Rightarrow> isrc \<Rightarrow> bool \<times> isrc) \<Rightarrow> bool \<Rightarrow> int list \<Rightarrow> isrc
    \<Rightarrow> (JobStatus list \<times> int list, isrc) outcome" where
  "statuses_by_ids ensure fresh ids s =
     (if ids = [] then (Inr ([], []), s)
      else
        (let (added, s1) = register_interest ids s; (ok, s2) = ensure (fresh \<or> added) s1
         in if \<not> ok then (Inr ([], ids), s2) else (Inr (read_ledger (is_ledger s2) ids, []), s2)))"

end
