(* ===== verification/StatusLaws.thy ===== *)
theory StatusLaws
  imports StatusSource
begin

text \<open>
  What the status source guarantees under any interleaving of its callers, its fetch threads and
  its other operations.
\<close>

section \<open>Interleavings\<close>

text \<open>The live fetch threads, and the begin of every fetch whose answer was merged.\<close>

record src_world =
  sw_src :: isrc
  sw_fetches :: "fetch list"
  sw_served :: "seconds list"

definition spawned :: "(nat \<times> bool) option \<Rightarrow> fetch list" where
  "spawned th =
     (case th of
        None \<Rightarrow> []
      | Some (token, fo) \<Rightarrow>
          [\<lparr> ft_token = token, ft_use_failover = fo, ft_at = 0, ft_now = 0, ft_phase = AtStart \<rparr>])"

text \<open>One section under the lock, or one return of a callback, by any thread.\<close>

inductive src_step :: "local_clock \<Rightarrow> src_world \<Rightarrow> src_world \<Rightarrow> bool" for lc where
  turn: "ensure_turn tick c (sw_src w) = (a, th, s') \<Longrightarrow>
    src_step lc w (w\<lparr>sw_src := s', sw_fetches := sw_fetches w @ spawned th\<rparr>)"
| wake: "ensure_wake tick notified c before gen (sw_src w) = (a, s') \<Longrightarrow> src_step lc w (w\<lparr>sw_src := s'\<rparr>)"
| interest: "src_step lc w (w\<lparr>sw_src := snd (register_interest ids (sw_src w))\<rparr>)"
| invalidated: "src_step lc w (w\<lparr>sw_src := invalidate (sw_src w)\<rparr>)"
| forgotten: "src_step lc w (w\<lparr>sw_src := src_forget ids (sw_src w)\<rparr>)"
| interval: "src_step lc w (w\<lparr>sw_src := note_poll_interval t (sw_src w)\<rparr>)"
| closed: "src_step lc w (w\<lparr>sw_src := src_shutdown (sw_src w)\<rparr>)"
| begins: "sw_fetches w = xs @ f # ys \<Longrightarrow> ft_phase f = AtStart \<Longrightarrow> fetch_begin tick now f (sw_src w) = (f', s') \<Longrightarrow>
    src_step lc w (w\<lparr>sw_src := s', sw_fetches := xs @ f' # ys\<rparr>)"
| primary: "sw_fetches w = xs @ f # ys \<Longrightarrow> ft_phase f = InPrimary \<Longrightarrow>
    src_step lc w (w\<lparr>sw_fetches := xs @ primary_returns lc cb f (sw_src w) # ys\<rparr>)"
| leaves: "sw_fetches w = xs @ f # ys \<Longrightarrow> ft_phase f = PrimaryHas a \<Longrightarrow> primary_leave a f (sw_src w) = (f', s') \<Longrightarrow>
    src_step lc w (w\<lparr>sw_src := s', sw_fetches := xs @ f' # ys\<rparr>)"
| failover: "sw_fetches w = xs @ f # ys \<Longrightarrow> ft_phase f = InFailover \<Longrightarrow>
    src_step lc w (w\<lparr>sw_fetches := xs @ failover_returns lc cb f (sw_src w) # ys\<rparr>)"
| ends: "sw_fetches w = xs @ f # ys \<Longrightarrow> ft_phase f = AtEnd sts fo \<Longrightarrow>
    src_step lc w (w\<lparr>sw_src := fetch_end sts fo f (sw_src w), sw_fetches := xs @ ys,
      sw_served := (if sts = None then sw_served w else sw_served w @ [ft_at f])\<rparr>)"

inductive src_reach :: "local_clock \<Rightarrow> src_world \<Rightarrow> bool" for lc where
  created: "new_isrc True failover refresh_min_s poll_interval_s wait_timeout_s retention_days track_runtime = Inr s
    \<Longrightarrow> src_reach lc \<lparr> sw_src = s, sw_fetches = [], sw_served = [] \<rparr>"
| stepped: "src_reach lc w \<Longrightarrow> src_step lc w w' \<Longrightarrow> src_reach lc w'"

section \<open>The threads in flight\<close>

definition in_primary :: "fetch \<Rightarrow> bool" where
  "in_primary f \<longleftrightarrow> (case ft_phase f of InPrimary \<Rightarrow> True | PrimaryHas _ \<Rightarrow> True | _ \<Rightarrow> False)"

definition flight_inv :: "isrc \<Rightarrow> fetch list \<Rightarrow> bool" where
  "flight_inv s fs \<longleftrightarrow>
     is_inflight s = int (length fs) \<and> is_primary_unreturned s = int (length (filter in_primary fs)) \<and>
     length fs \<le> (if is_fetching s then 3 else 2) \<and>
     distinct (map ft_token fs) \<and> (\<forall>f\<in>set fs. ft_token f < is_next_token s) \<and>
     (is_fetching s \<longrightarrow> is_fetch_token s \<in> ft_token ` set fs \<and> is_fetch_deadline s \<noteq> None)"

text \<open>What the bookkeeping of the threads reads of the source.\<close>

definition flight :: "isrc \<Rightarrow> int \<times> int \<times> bool \<times> nat \<times> nat \<times> seconds option \<times> bool" where
  "flight s = (is_inflight s, is_primary_unreturned s, is_fetching s, is_fetch_token s, is_next_token s, is_fetch_deadline s,
     is_failover s)"

lemma flight_inv_cong: "flight s = flight s' \<Longrightarrow> flight_inv s fs = flight_inv s' fs"
  by (simp add: flight_def flight_inv_def)

lemma flight_note [simp]: "flight (note_outcome t ok fo s) = flight s"
  by (simp add: note_outcome_def flight_def)

lemma flight_merge [simp]: "flight (merge_statuses sts now t s) = flight s"
  by (simp add: merge_statuses_def flight_def split: prod.split)

lemma flight_prune [simp]: "flight (prune t now s) = flight s"
  by (simp add: prune_def flight_def Let_def)

lemma flight_wake: "ensure_wake tick notified c before gen s = (a, s') \<Longrightarrow> flight s' = flight s"
  by (auto simp: ensure_wake_def split: if_splits)

lemma flight_ops [simp]:
  "flight (snd (register_interest ids s)) = flight s" "flight (invalidate s) = flight s" "flight (src_forget ids s) = flight s"
  "flight (note_poll_interval t s) = flight s" "flight (src_shutdown s) = flight s"
  by (simp_all add: register_interest_def invalidate_def src_forget_def note_poll_interval_def src_shutdown_def flight_def Let_def)

text \<open>Starting a thread.\<close>

lemma flight_start:
  assumes inv: "flight_inv s fs" and room: "length fs \<le> 2" and start: "start_fetch tick s = (th, s')"
  shows "flight_inv s' (fs @ spawned (Some th))"
proof -
  have "ft_token f \<noteq> is_next_token s" if "f \<in> set fs" for f using inv that by (auto simp: flight_inv_def)
  with assms show ?thesis
    by (auto simp: start_fetch_def flight_inv_def spawned_def in_primary_def less_Suc_eq)
qed

lemma flight_takeover:
  assumes inv: "flight_inv s fs" and run: "start_or_takeover tick s = (ok, th, s')"
  shows "flight_inv s' (fs @ spawned th)"
proof -
  consider th1 where "start_fetch tick s = (th1, s')" "th = Some th1" "length fs \<le> 2"
    | "th = None" "flight s' = flight s"
    using run inv
    by (auto simp: start_or_takeover_def flight_inv_def MAX_INFLIGHT_def split: if_splits prod.splits option.splits)
  then show ?thesis
  proof cases
    case 1
    with flight_start [OF inv] show ?thesis by simp
  next
    case 2
    with inv flight_inv_cong [OF 2(2)] show ?thesis by (simp add: spawned_def)
  qed
qed

lemma flight_turn:
  assumes inv: "flight_inv s fs" and run: "ensure_turn tick c s = (a, th, s')"
  shows "flight_inv s' (fs @ spawned th)"
proof (cases "is_closed s \<or> reaches (is_last_fetch_at s) (fc_min_at c)")
  case True
  with run have "th = None \<and> s' = s" by (cases "is_closed s") (simp_all add: ensure_turn_def)
  with inv show ?thesis by (simp add: spawned_def)
next
  case False
  obtain ok th1 s1 where t: "start_or_takeover tick s = (ok, th1, s1)" by (cases "start_or_takeover tick s")
  with run False have "th = th1" "flight s' = flight s1"
    by (auto simp: ensure_turn_def split: bool.splits if_splits)
  with flight_takeover [OF inv t] flight_inv_cong show ?thesis by blast
qed

text \<open>The phases of one thread.\<close>

lemma flight_phase:
  assumes inv: "flight_inv s (xs @ f # ys)" and tok: "ft_token f' = ft_token f"
    and s': "flight s' = flight (s\<lparr>is_primary_unreturned := is_primary_unreturned s + (if in_primary f' then 1 else 0) - (if in_primary f then 1 else 0)\<rparr>)"
  shows "flight_inv s' (xs @ f' # ys)"
proof -
  let ?s = "s\<lparr>is_primary_unreturned := is_primary_unreturned s + (if in_primary f' then 1 else 0) - (if in_primary f then 1 else 0)\<rparr>"
  have "flight_inv ?s (xs @ f' # ys)" using inv tok by (auto simp: flight_inv_def)
  with flight_inv_cong [OF s'] show ?thesis by simp
qed

lemma flight_end:
  assumes inv: "flight_inv s (xs @ f # ys)" and phase: "ft_phase f = AtEnd sts fo"
  shows "flight_inv (fetch_end sts fo f s) (xs @ ys)"
proof -
  let ?d = "s\<lparr>is_inflight := is_inflight s - 1\<rparr>"
  let ?t = "if is_fetch_token s = ft_token f
            then ?d\<lparr>is_fetching := False, is_fetch_deadline := None, is_gen := Suc (is_gen s)\<rparr> else ?d"
  have "flight (fetch_end sts fo f s) = flight ?t"
    unfolding fetch_end_def Let_def flight_note
  proof -
    define s2 where "s2 = (case sts of None \<Rightarrow> ?d | Some rows \<Rightarrow>
        prune (ft_at f) (ft_now f)
         (if later_than (Some (ft_at f)) (is_last_fetch_at (merge_statuses rows (ft_now f) (ft_at f) ?d))
          then merge_statuses rows (ft_now f) (ft_at f) ?d\<lparr>is_last_fetch_at := Some (ft_at f)\<rparr>
          else merge_statuses rows (ft_now f) (ft_at f) ?d))"
    have keep: "flight (z\<lparr>is_last_fetch_at := v\<rparr>) = flight z" for z v by (simp add: flight_def)
    have "flight s2 = flight ?d" by (simp add: s2_def keep split: option.split)
    then show "flight (if is_fetch_token s2 = ft_token f then s2\<lparr>is_fetching := False, is_fetch_deadline := None, is_gen := Suc (is_gen s2)\<rparr> else s2)
        = flight ?t" by (simp add: flight_def)
  qed
  moreover have "flight_inv ?t (xs @ ys)"
    using inv phase by (auto simp: flight_inv_def in_primary_def split: if_splits)
  ultimately show ?thesis using flight_inv_cong by blast
qed

lemma flight_step:
  assumes "src_step lc w w'" and "flight_inv (sw_src w) (sw_fetches w)"
  shows "flight_inv (sw_src w') (sw_fetches w')"
  using assms
proof cases
  case (turn tick c a th s')
  with flight_turn assms(2) show ?thesis by simp
next
  case (wake tick notified c before gen a s')
  with flight_inv_cong [OF flight_wake] assms(2) show ?thesis by simp
next
  case (begins xs f ys tick now f' s')
  with assms(2) show ?thesis
    by (auto intro!: flight_phase [of "sw_src w" xs f] simp: fetch_begin_def Let_def in_primary_def flight_def split: if_splits)
next
  case (primary xs f ys cb)
  with assms(2) show ?thesis
    by (auto intro!: flight_phase [of "sw_src w" xs f] simp: primary_returns_def in_primary_def flight_def)
next
  case (leaves xs f ys a f' s')
  with assms(2) show ?thesis
    by (auto intro!: flight_phase [of "sw_src w" xs f] simp: primary_leave_def in_primary_def flight_def split: attempt.splits)
next
  case (failover xs f ys cb)
  with assms(2) show ?thesis
    by (auto intro!: flight_phase [of "sw_src w" xs f] simp: failover_returns_def in_primary_def flight_def split: attempt.splits)
next
  case (ends xs f ys sts fo)
  with flight_end assms(2) show ?thesis by simp
qed (simp_all add: flight_inv_cong [OF flight_ops(1)] flight_inv_cong [OF flight_ops(2)] flight_inv_cong [OF flight_ops(3)]
    flight_inv_cong [OF flight_ops(4)] flight_inv_cong [OF flight_ops(5)])

text \<open>
  C26: Fetches in flight are bounded and counted. In every interleaving at most three callback
  threads are alive, however many callers come and however long a callback hangs; the counters
  of unfinished fetches and of primary callbacks that have not returned are exact, so the next
  fetch goes to the failover callback exactly while a primary callback is stuck; and a fetch
  that is marked as running really has a live thread that will end it.
\<close>

theorem fetches_bounded:
  assumes "src_reach lc w"
  shows "is_inflight (sw_src w) = int (length (sw_fetches w)) \<and> is_inflight (sw_src w) \<le> MAX_INFLIGHT \<and>
    is_primary_unreturned (sw_src w) = int (length (filter in_primary (sw_fetches w))) \<and>
    (is_fetching (sw_src w) \<longrightarrow> (\<exists>f\<in>set (sw_fetches w). ft_token f = is_fetch_token (sw_src w))) \<and>
    (\<forall>tick. snd (fst (start_fetch tick (sw_src w))) \<longleftrightarrow>
       is_failover (sw_src w) \<and> (\<exists>f\<in>set (sw_fetches w). in_primary f))"
proof -
  from assms have "flight_inv (sw_src w) (sw_fetches w)"
  proof induction
    case (created failover refresh_min_s poll_interval_s wait_timeout_s retention_days track_runtime s)
    then show ?case by (auto simp: new_isrc_def flight_inv_def split: if_splits)
  next
    case (stepped w w')
    then show ?case using flight_step by blast
  qed
  then show ?thesis
    by (auto simp: flight_inv_def MAX_INFLIGHT_def start_fetch_def filter_empty_conv split: if_splits)
qed


section \<open>The rows of the ledger\<close>

definition row_of :: "status_ledger \<Rightarrow> int \<Rightarrow> int option \<Rightarrow> ledger_row option" where
  "row_of l i x = dget (ledger_rows l i) x"

definition ledger_wf :: "status_ledger \<Rightarrow> bool" where
  "ledger_wf l \<longleftrightarrow> distinct (dkeys l) \<and> (\<forall>es\<in>set (dvalues l). distinct (dkeys es))"

text \<open>The row of an answer for a key: the last one that has it.\<close>

definition row_in :: "JobStatus list \<Rightarrow> int \<Rightarrow> int option \<Rightarrow> JobStatus option" where
  "row_in sts i x = find (\<lambda>st. st_job_id st = i \<and> st_array_index st = x) (rev sts)"

definition same_row :: "ledger_row \<Rightarrow> ledger_row \<Rightarrow> bool" where
  "same_row e e' \<longleftrightarrow> lr_seen_at e' = lr_seen_at e \<and> lr_fetched_at e' = lr_fetched_at e \<and>
     (lr_status e')\<lparr>st_run_time_s := None\<rparr> = (lr_status e)\<lparr>st_run_time_s := None\<rparr>"

text \<open>The answer \<open>sts\<close> of a fetch begun at \<open>t\<close> has a row for the key, wanted and not outdated.\<close>

definition supersedes :: "int set \<Rightarrow> status_ledger \<Rightarrow> seconds \<Rightarrow> JobStatus list \<Rightarrow> int \<Rightarrow> int option \<Rightarrow> bool" where
  "supersedes I l t sts i x \<longleftrightarrow>
     row_in sts i x \<noteq> None \<and> i \<in> I \<and> (\<forall>e. row_of l i x = Some e \<longrightarrow> lr_fetched_at e \<le> t)"

lemma same_row_refl [simp]: "same_row e e"
  by (simp add: same_row_def)

lemma same_row_refresh [simp]: "same_row e (refresh_row now e)"
  by (simp add: refresh_row_def same_row_def Let_def split: option.split)

lemma expired_same_row: "same_row e e' \<Longrightarrow> expired r now e' = expired r now e"
proof -
  assume "same_row e e'"
  then have st: "(lr_status e')\<lparr>st_run_time_s := None\<rparr> = (lr_status e)\<lparr>st_run_time_s := None\<rparr>"
    and seen: "lr_seen_at e' = lr_seen_at e" by (simp_all add: same_row_def)
  have "st_state (lr_status e') = st_state (lr_status e)" "st_finish_time (lr_status e') = st_finish_time (lr_status e)"
    using arg_cong [OF st, of st_state] arg_cong [OF st, of st_finish_time] by simp_all
  with seen show ?thesis by (simp add: expired_def split: option.split)
qed

lemma ledger_rows_dset [simp]: "ledger_rows (dset i es l) j = (if j = i then es else ledger_rows l j)"
  by (simp add: ledger_rows_def dget_or_def update_conv')

lemma dget_map_value: "dget (map (\<lambda>(i, es). (i, g i es)) l) j = map_option (g j) (dget l j)"
  by (induction l) auto

lemma ledger_wf_dset: "ledger_wf l \<Longrightarrow> distinct (dkeys es) \<Longrightarrow> ledger_wf (dset i es l)"
proof -
  assume wf: "ledger_wf l" and es: "distinct (dkeys es)"
  have "set (dvalues (dset i es l)) \<subseteq> insert es (set (dvalues l))" by (induction l) auto
  then have "distinct (dkeys e)" if "e \<in> set (dvalues (dset i es l))" for e
    using that wf es unfolding ledger_wf_def by blast
  with wf show ?thesis by (simp add: ledger_wf_def distinct_update)
qed

lemma ledger_wf_rows: "ledger_wf l \<Longrightarrow> distinct (dkeys (ledger_rows l i))"
  by (auto simp: ledger_wf_def ledger_rows_def dget_or_def split: option.split dest!: map_of_SomeD)

subsection \<open>Merging\<close>

lemma merge_row_key:
  assumes "merge_row I now t st (K, l) = (K', l')" and "ledger_wf l"
  shows "ledger_wf l'"
    and "row_of l' i x = (if st_job_id st = i \<and> st_array_index st = x \<and> i \<in> I \<and> (\<forall>e. row_of l i x = Some e \<longrightarrow> lr_fetched_at e \<le> t)
           then Some \<lparr> lr_status = st, lr_seen_at = now, lr_fetched_at = t \<rparr> else row_of l i x)"
    and "(i, x) \<in> K' \<longleftrightarrow> (i, x) \<in> K \<or>
           st_job_id st = i \<and> st_array_index st = x \<and> i \<in> I \<and> (\<forall>e. row_of l i x = Some e \<longrightarrow> lr_fetched_at e \<le> t)"
  using assms
  by (auto simp: merge_row_def row_of_def Let_def update_conv' intro!: ledger_wf_dset distinct_update ledger_wf_rows
      split: if_splits option.splits)

lemma merge_rows:
  assumes "fold (merge_row I now t) sts ({}, l) = (K, l')" and "ledger_wf l"
  shows "ledger_wf l' \<and> (\<forall>i x. row_of l' i x = (if supersedes I l t sts i x
           then Some \<lparr> lr_status = the (row_in sts i x), lr_seen_at = now, lr_fetched_at = t \<rparr> else row_of l i x) \<and>
         ((i, x) \<in> K \<longleftrightarrow> supersedes I l t sts i x))"
  using assms(1)
proof (induction sts arbitrary: K l' rule: rev_induct)
  case Nil
  with assms(2) show ?case by (simp add: row_in_def supersedes_def)
next
  case (snoc st sts)
  obtain K1 l1 where one: "fold (merge_row I now t) sts ({}, l) = (K1, l1)" by (rule prod.exhaust)
  note ih = snoc.IH [OF one]
  have last: "merge_row I now t st (K1, l1) = (K, l')" using snoc.prems one by simp
  have ri: "row_in (sts @ [st]) i x = (if st_job_id st = i \<and> st_array_index st = x then Some st else row_in sts i x)" for i x
    by (simp add: row_in_def)
  note step = merge_row_key [OF last conjunct1 [OF ih]]
  have newer: "(\<forall>e. row_of l1 i x = Some e \<longrightarrow> lr_fetched_at e \<le> t) \<longleftrightarrow> (\<forall>e. row_of l i x = Some e \<longrightarrow> lr_fetched_at e \<le> t)" for i x
    using ih by (cases "supersedes I l t sts i x") (auto simp: supersedes_def)
  have up: "supersedes I l t (sts @ [st]) i x \<longleftrightarrow> supersedes I l t sts i x \<or>
      st_job_id st = i \<and> st_array_index st = x \<and> i \<in> I \<and> (\<forall>e. row_of l i x = Some e \<longrightarrow> lr_fetched_at e \<le> t)" for i x
    by (auto simp: supersedes_def ri)
  show ?case
  proof (intro conjI allI)
    fix i x
    show "row_of l' i x = (if supersedes I l t (sts @ [st]) i x
        then Some \<lparr> lr_status = the (row_in (sts @ [st]) i x), lr_seen_at = now, lr_fetched_at = t \<rparr> else row_of l i x)"
      using ih unfolding step(2) newer up ri by (auto simp: supersedes_def)
    show "((i, x) \<in> K) = supersedes I l t (sts @ [st]) i x"
      using ih unfolding step(3) newer up by blast
  qed (rule step(1))
qed

lemma refresh_wf: "ledger_wf (refresh_runtimes now K l) = ledger_wf l"
  by (auto simp: ledger_wf_def refresh_runtimes_def o_def case_prod_unfold)

lemma row_of_refresh:
  "row_of (refresh_runtimes now K l) i x = map_option (\<lambda>e. if (i, x) \<in> K then e else refresh_row now e) (row_of l i x)"
proof -
  have "dget (map (\<lambda>(x, e). (x, if (i, x) \<in> K then e else refresh_row now e)) es) x
      = map_option (\<lambda>e. if (i, x) \<in> K then e else refresh_row now e) (dget es x)" for es
    by (rule dget_map_value)
  then show ?thesis
    by (auto simp: row_of_def ledger_rows_def dget_or_def refresh_runtimes_def dget_map_value split: option.split)
qed

lemma merge_statuses_rows:
  assumes wf: "ledger_wf (is_ledger s)"
  shows "ledger_wf (is_ledger (merge_statuses sts now t s))"
    and "supersedes (is_interest s) (is_ledger s) t sts i x \<Longrightarrow> row_of (is_ledger (merge_statuses sts now t s)) i x
           = Some \<lparr> lr_status = the (row_in sts i x), lr_seen_at = now, lr_fetched_at = t \<rparr>"
    and "\<not> supersedes (is_interest s) (is_ledger s) t sts i x \<Longrightarrow> rel_option same_row (row_of (is_ledger s) i x) (row_of (is_ledger (merge_statuses sts now t s)) i x)"
proof -
  obtain K l where f: "fold (merge_row (is_interest s) now t) sts ({}, is_ledger s) = (K, l)" by (rule prod.exhaust)
  note m = merge_rows [OF f wf]
  have l: "is_ledger (merge_statuses sts now t s)
      = (if is_track_runtime s \<and> past (is_last_fetch_at s) t then refresh_runtimes now K l else l)"
    by (simp add: merge_statuses_def f)
  show "ledger_wf (is_ledger (merge_statuses sts now t s))" using m by (simp add: l refresh_wf)
  show "row_of (is_ledger (merge_statuses sts now t s)) i x
      = Some \<lparr> lr_status = the (row_in sts i x), lr_seen_at = now, lr_fetched_at = t \<rparr>" if "supersedes (is_interest s) (is_ledger s) t sts i x"
    using m that by (simp add: l row_of_refresh)
  show "rel_option same_row (row_of (is_ledger s) i x) (row_of (is_ledger (merge_statuses sts now t s)) i x)" if "\<not> supersedes (is_interest s) (is_ledger s) t sts i x"
    using m that by (cases "row_of (is_ledger s) i x") (simp_all add: l row_of_refresh)
qed

lemma prune_rows:
  assumes wf: "ledger_wf (is_ledger s)"
  shows "ledger_wf (is_ledger (prune t now s))"
    and "row_of (is_ledger (prune t now s)) i x = row_of (is_ledger s) i x \<or>
      row_of (is_ledger (prune t now s)) i x = None \<and> (\<exists>e. row_of (is_ledger s) i x = Some e \<and> expired (is_retention s) now e)"
proof -
  let ?due = "\<not> (is_retention s \<le> 0 \<or> (case is_last_prune_at s of None \<Rightarrow> False | Some p \<Rightarrow> t - p < PRUNE_MIN_INTERVAL_S))"
  let ?keep = "\<lambda>es. filter (\<lambda>(x, e). \<not> expired (is_retention s) now e) es"
  let ?l = "filter (\<lambda>(i, es). es \<noteq> []) (map (\<lambda>(i, es). (i, ?keep es)) (is_ledger s))"
  have l: "is_ledger (prune t now s) = (if ?due then ?l else is_ledger s)" by (simp add: prune_def Let_def)
  have wf': "ledger_wf ?l"
    using wf by (auto simp: ledger_wf_def o_def case_prod_unfold intro!: distinct_keys_filter)
  then show "ledger_wf (is_ledger (prune t now s))" using wf by (simp add: l)
  have "distinct (dkeys (map (\<lambda>(i, es). (i, ?keep es)) (is_ledger s)))"
    using wf by (simp add: ledger_wf_def o_def case_prod_unfold)
  note rows = dget_filter [OF this, of "\<lambda>i es. es \<noteq> []" i]
  have "ledger_rows ?l i = ?keep (ledger_rows (is_ledger s) i)"
    unfolding ledger_rows_def dget_or_def rows dget_map_value by (simp split: option.split)
  then have "row_of ?l i x = (case row_of (is_ledger s) i x of Some e \<Rightarrow> if \<not> expired (is_retention s) now e then Some e else None | None \<Rightarrow> None)"
    using dget_filter [OF ledger_wf_rows [OF wf], of "\<lambda>x e. \<not> expired (is_retention s) now e"] by (simp add: row_of_def)
  then show "row_of (is_ledger (prune t now s)) i x = row_of (is_ledger s) i x \<or>
      row_of (is_ledger (prune t now s)) i x = None \<and> (\<exists>e. row_of (is_ledger s) i x = Some e \<and> expired (is_retention s) now e)"
    by (auto simp: l split: option.splits)
qed


subsection \<open>The end of a fetch\<close>

definition merged :: "JobStatus list \<Rightarrow> fetch \<Rightarrow> isrc \<Rightarrow> isrc" where
  "merged rows f s =
     (let m = merge_statuses rows (ft_now f) (ft_at f) (s\<lparr>is_inflight := is_inflight s - 1\<rparr>)
      in if later_than (Some (ft_at f)) (is_last_fetch_at m) then m\<lparr>is_last_fetch_at := Some (ft_at f)\<rparr> else m)"

lemma ledger_note [simp]: "is_ledger (note_outcome t ok fo s) = is_ledger s"
  by (simp add: note_outcome_def)

lemma ledger_end:
  "is_ledger (fetch_end sts fo f s) = (case sts of None \<Rightarrow> is_ledger s | Some rows \<Rightarrow> is_ledger (prune (ft_at f) (ft_now f) (merged rows f s)))"
  by (simp add: fetch_end_def merged_def Let_def split: option.split)

lemma merged_src [simp]: "is_ledger (merged rows f s) = is_ledger (merge_statuses rows (ft_now f) (ft_at f) s)"
  "is_retention (merged rows f s) = is_retention s"
  by (simp_all add: merged_def merge_statuses_def Let_def split: prod.split)

lemma wf_ops:
  "is_ledger (snd (register_interest ids s)) = is_ledger s" "is_ledger (invalidate s) = is_ledger s"
  "is_ledger (note_poll_interval t s) = is_ledger s" "is_ledger (src_shutdown s) = is_ledger s"
  by (simp_all add: register_interest_def invalidate_def note_poll_interval_def src_shutdown_def Let_def)

lemma wf_forget: "ledger_wf (is_ledger s) \<Longrightarrow> ledger_wf (is_ledger (src_forget ids s))"
  by (auto simp: src_forget_def ledger_wf_def distinct_map_filter)

lemma ledger_turn: "ensure_turn tick c s = (a, th, s') \<Longrightarrow> is_ledger s' = is_ledger s"
  by (auto simp: ensure_turn_def start_or_takeover_def start_fetch_def split: if_splits bool.splits option.splits)

lemma ledger_wake: "ensure_wake tick notified c before gen s = (a, s') \<Longrightarrow> is_ledger s' = is_ledger s"
  by (auto simp: ensure_wake_def split: if_splits)

lemma ledger_phases:
  "fetch_begin tick now f s = (f', s') \<Longrightarrow> is_ledger s' = is_ledger s"
  "primary_leave a f s = (f', s') \<Longrightarrow> is_ledger s' = is_ledger s"
  by (auto simp: fetch_begin_def primary_leave_def Let_def split: if_splits)

lemma reach_wf:
  assumes "src_reach lc w"
  shows "ledger_wf (is_ledger (sw_src w))"
  using assms
proof induction
  case (created failover refresh_min_s poll_interval_s wait_timeout_s retention_days track_runtime s)
  then show ?case by (auto simp: new_isrc_def ledger_wf_def split: if_splits)
next
  case (stepped w w')
  from stepped(2,3) show ?case
  proof cases
    case (ends xs f ys sts fo)
    then show ?thesis
      using merge_statuses_rows(1) [OF stepped(3)] by (simp add: ledger_end prune_rows(1) stepped(3) split: option.split)
  qed (simp_all add: wf_ops wf_forget ledger_turn ledger_wake ledger_phases)
qed

text \<open>
  C27: The newest answer wins, whatever the order in which the answers come back. When a fetch
  ends, a row it brings for a job of interest replaces the ledger's row unless that came from a
  fetch begun later; every other row stays as it is, but for the running time; and the only rows
  that disappear are those of ended jobs beyond the retention. In particular an answer without a
  row for a job never removes or changes that job.
\<close>

theorem newest_answer_wins:
  assumes reach: "src_reach lc w" and live: "f \<in> set (sw_fetches w)" and phase: "ft_phase f = AtEnd (Some rows) fo"
    and s': "s' = fetch_end (Some rows) fo f (sw_src w)"
  shows "if supersedes (is_interest (sw_src w)) (is_ledger (sw_src w)) (ft_at f) rows i x
    then (let e = \<lparr> lr_status = the (row_in rows i x), lr_seen_at = ft_now f, lr_fetched_at = ft_at f \<rparr>
          in row_of (is_ledger s') i x = Some e \<or> row_of (is_ledger s') i x = None \<and> expired (is_retention s') (ft_now f) e)
    else (case row_of (is_ledger (sw_src w)) i x of
            None \<Rightarrow> row_of (is_ledger s') i x = None
          | Some e \<Rightarrow> (\<exists>e'. row_of (is_ledger s') i x = Some e' \<and> same_row e e') \<or>
              row_of (is_ledger s') i x = None \<and> expired (is_retention s') (ft_now f) e)"
proof -
  let ?s = "sw_src w" and ?m = "merged rows f (sw_src w)"
  note wf = reach_wf [OF reach]
  note m = merge_statuses_rows [OF wf, where sts = rows and now = "ft_now f" and t = "ft_at f"]
  have wfm: "ledger_wf (is_ledger ?m)" using m(1) by simp
  have l: "is_ledger s' = is_ledger (prune (ft_at f) (ft_now f) ?m)" by (simp add: s' ledger_end)
  have r: "is_retention s' = is_retention ?s"
    by (simp add: s' fetch_end_def note_outcome_def prune_def merge_statuses_def Let_def split: prod.split)
  note p = prune_rows(2) [OF wfm, of "ft_at f" "ft_now f" i x, folded l]
  show ?thesis
  proof (cases "supersedes (is_interest ?s) (is_ledger ?s) (ft_at f) rows i x")
    case True
    then show ?thesis using p m(2) [OF True] by (simp add: Let_def r)
  next
    case False
    note same = m(3) [OF False]
    show ?thesis
    proof (cases "row_of (is_ledger ?s) i x")
      case None
      with same p False show ?thesis by simp
    next
      case (Some e)
      with same obtain e' where e': "row_of (is_ledger ?m) i x = Some e'" "same_row e e'" by (auto simp: option_rel_Some1)
      with p expired_same_row [OF e'(2)] Some False show ?thesis by (auto simp: r)
    qed
  qed
qed

section \<open>What an answer is worth\<close>

text \<open>The last fetch time, and the time of every row, are begins of fetches that were merged.\<close>

lemma last_fetch_note [simp]: "is_last_fetch_at (note_outcome t ok fo s) = is_last_fetch_at s"
  by (simp add: note_outcome_def)

lemma last_fetch_merge [simp]: "is_last_fetch_at (merge_statuses sts now t s) = is_last_fetch_at s"
  by (simp add: merge_statuses_def split: prod.split)

lemma last_fetch_prune [simp]: "is_last_fetch_at (prune t now s) = is_last_fetch_at s"
  by (simp add: prune_def Let_def)

lemma last_fetch_end: "is_last_fetch_at (fetch_end sts fo f s)
    = (if sts \<noteq> None \<and> later_than (Some (ft_at f)) (is_last_fetch_at s) then Some (ft_at f) else is_last_fetch_at s)"
  by (simp add: fetch_end_def Let_def split: option.split)

lemma last_fetch_turn: "ensure_turn tick c s = (a, th, s') \<Longrightarrow> is_last_fetch_at s' = is_last_fetch_at s"
  by (auto simp: ensure_turn_def start_or_takeover_def start_fetch_def split: if_splits bool.splits option.splits)

lemma last_fetch_wake: "ensure_wake tick notified c before gen s = (a, s') \<Longrightarrow> is_last_fetch_at s' = is_last_fetch_at s"
  by (auto simp: ensure_wake_def split: if_splits)

lemma last_fetch_phases:
  "fetch_begin tick now f s = (f', s') \<Longrightarrow> is_last_fetch_at s' = is_last_fetch_at s"
  "primary_leave a f s = (f', s') \<Longrightarrow> is_last_fetch_at s' = is_last_fetch_at s"
  by (auto simp: fetch_begin_def primary_leave_def Let_def split: if_splits)

lemma last_fetch_ops:
  "is_last_fetch_at (snd (register_interest ids s)) = is_last_fetch_at s" "is_last_fetch_at (src_forget ids s) = is_last_fetch_at s"
  "is_last_fetch_at (note_poll_interval t s) = is_last_fetch_at s" "is_last_fetch_at (src_shutdown s) = is_last_fetch_at s"
  by (simp_all add: register_interest_def src_forget_def note_poll_interval_def src_shutdown_def Let_def)

text \<open>Between two worlds: the fetches merged meanwhile explain every change of the last fetch time.\<close>

definition explained :: "src_world \<Rightarrow> src_world \<Rightarrow> bool" where
  "explained w w' \<longleftrightarrow> (\<exists>ts. sw_served w' = sw_served w @ ts \<and>
     (is_last_fetch_at (sw_src w') = is_last_fetch_at (sw_src w) \<or> is_last_fetch_at (sw_src w') = None \<or>
      (\<exists>t\<in>set ts. is_last_fetch_at (sw_src w') = Some t)))"

lemma explained_refl: "explained w w"
  by (simp add: explained_def)

lemma explained_trans: "explained w w1 \<Longrightarrow> explained w1 w2 \<Longrightarrow> explained w w2"
  unfolding explained_def by (metis Un_iff append.assoc set_append)

lemma explained_step: "src_step lc w w' \<Longrightarrow> explained w w'"
proof (induction rule: src_step.induct)
  case (ends w xs f ys sts fo)
  then show ?case by (auto simp: explained_def last_fetch_end)
qed (auto simp: explained_def last_fetch_turn last_fetch_wake last_fetch_phases last_fetch_ops invalidate_def)

lemma explained_steps: "(src_step lc)\<^sup>*\<^sup>* w w' \<Longrightarrow> explained w w'"
  by (induction rule: rtranclp_induct) (auto intro: explained_refl explained_trans explained_step)

lemma reach_served:
  assumes "src_reach lc w" and "is_last_fetch_at (sw_src w) = Some t"
  shows "t \<in> set (sw_served w)"
  using assms
proof (induction arbitrary: t)
  case (created failover refresh_min_s poll_interval_s wait_timeout_s retention_days track_runtime s)
  then show ?case by (auto simp: new_isrc_def split: if_splits)
next
  case (stepped w w')
  from explained_step [OF stepped(2)] stepped(3,4) show ?case
    by (auto simp: explained_def)
qed

lemma reach_steps:
  assumes "(src_step lc)\<^sup>*\<^sup>* w w'" and "src_reach lc w"
  shows "src_reach lc w'"
  using assms by (induction rule: rtranclp_induct) (auto intro: src_reach.stepped)

text \<open>A whole call of \<open>_ensure_fetched\<close>, with whatever the other threads do while it waits.\<close>

inductive ensured :: "local_clock \<Rightarrow> fetch_call \<Rightarrow> src_world \<Rightarrow> bool \<Rightarrow> src_world \<Rightarrow> bool" for lc c where
  answered: "ensure_turn tick c (sw_src w) = (Answer b, th, s') \<Longrightarrow>
    ensured lc c w b (w\<lparr>sw_src := s', sw_fetches := sw_fetches w @ spawned th\<rparr>)"
| woken: "ensure_turn tick c (sw_src w) = (WaitFor before gen, th, s') \<Longrightarrow>
    (src_step lc)\<^sup>*\<^sup>* (w\<lparr>sw_src := s', sw_fetches := sw_fetches w @ spawned th\<rparr>) w2 \<Longrightarrow>
    ensure_wake tick2 notified c before gen (sw_src w2) = (Some b, s3) \<Longrightarrow>
    ensured lc c w b (w2\<lparr>sw_src := s3\<rparr>)"
| again: "ensure_turn tick c (sw_src w) = (WaitFor before gen, th, s') \<Longrightarrow>
    (src_step lc)\<^sup>*\<^sup>* (w\<lparr>sw_src := s', sw_fetches := sw_fetches w @ spawned th\<rparr>) w2 \<Longrightarrow>
    ensure_wake tick2 notified c before gen (sw_src w2) = (None, s3) \<Longrightarrow>
    ensured lc c (w2\<lparr>sw_src := s3\<rparr>) b w' \<Longrightarrow> ensured lc c w b w'"

lemma turn_answer: "ensure_turn tick c s = (Answer True, th, s') \<Longrightarrow> reaches (is_last_fetch_at s) (fc_min_at c) \<and> s' = s"
  by (auto simp: ensure_turn_def split: if_splits prod.splits bool.splits)

lemma turn_wait: "ensure_turn tick c s = (WaitFor before gen, th, s') \<Longrightarrow> before = is_last_fetch_at s"
  by (auto simp: ensure_turn_def start_or_takeover_def start_fetch_def split: if_splits bool.splits option.splits)

lemma wake_answer: "ensure_wake tick notified c before gen s = (Some True, s') \<Longrightarrow>
    s' = s \<and> later_than (is_last_fetch_at s) before \<and> (fc_fresh c \<longrightarrow> reaches (is_last_fetch_at s) (fc_min_at c))"
  by (auto simp: ensure_wake_def split: if_splits)

text \<open>What a call that is told \<open>True\<close> may rely on.\<close>

definition trusted :: "fetch_call \<Rightarrow> src_world \<Rightarrow> src_world \<Rightarrow> bool" where
  "trusted c w w' \<longleftrightarrow> (\<exists>ts t. sw_served w' = sw_served w @ ts \<and> t \<in> set (sw_served w') \<and>
     (fc_min_at c \<le> t \<or> \<not> fc_fresh c \<and> t \<in> set ts))"

lemma trusted_later: "explained w w1 \<Longrightarrow> trusted c w1 w' \<Longrightarrow> trusted c w w'"
  unfolding explained_def trusted_def by (metis Un_iff append.assoc set_append)

lemma ensured_trusted:
  assumes "ensured lc c w b w'" and "b" and "src_reach lc w"
  shows "trusted c w w' \<and> src_reach lc w'"
  using assms
proof induction
  case (answered tick w b th s')
  then have a: "reaches (is_last_fetch_at (sw_src w)) (fc_min_at c)" "s' = sw_src w" using turn_answer by auto
  then obtain t where "is_last_fetch_at (sw_src w) = Some t" "fc_min_at c \<le> t" by (auto simp: reaches_def split: option.splits)
  with reach_served [OF answered(3)] have "trusted c w (w\<lparr>sw_src := s', sw_fetches := sw_fetches w @ spawned th\<rparr>)"
    by (auto simp: trusted_def)
  then show ?case using src_reach.stepped [OF answered(3) src_step.turn [OF answered(1)]] by simp
next
  case (woken tick w before gen th s' w2 tick2 notified b s3)
  let ?w1 = "w\<lparr>sw_src := s', sw_fetches := sw_fetches w @ spawned th\<rparr>"
  have step: "src_step lc w ?w1" by (rule src_step.turn [OF woken(1)])
  have r2: "src_reach lc w2" by (rule reach_steps [OF woken(2) src_reach.stepped [OF woken(5) step]])
  from woken(3,4) have a: "s3 = sw_src w2" "later_than (is_last_fetch_at (sw_src w2)) before"
    "fc_fresh c \<longrightarrow> reaches (is_last_fetch_at (sw_src w2)) (fc_min_at c)" using wake_answer by auto
  then obtain t where t: "is_last_fetch_at (sw_src w2) = Some t" by (auto simp: later_than_def split: option.splits)
  have "explained w w2" using explained_trans [OF explained_step [OF step] explained_steps [OF woken(2)]] .
  moreover have "is_last_fetch_at (sw_src w2) \<noteq> is_last_fetch_at (sw_src w)"
    using a(2) turn_wait [OF woken(1)] by (auto simp: later_than_def split: option.splits)
  ultimately obtain ts where ts: "sw_served w2 = sw_served w @ ts" "t \<in> set ts" using t by (auto simp: explained_def)
  then have "trusted c w (w2\<lparr>sw_src := s3\<rparr>)"
    using a(3) t by (auto simp: trusted_def reaches_def)
  with r2 a(1) show ?case by simp
next
  case (again tick w before gen th s' w2 tick2 notified s3 b w')
  let ?w1 = "w\<lparr>sw_src := s', sw_fetches := sw_fetches w @ spawned th\<rparr>" and ?w3 = "w2\<lparr>sw_src := s3\<rparr>"
  have steps: "(src_step lc)\<^sup>*\<^sup>* w ?w3"
    using src_step.turn [OF again(1)] again(2) src_step.wake [OF again(3)]
    by (meson converse_rtranclp_into_rtranclp rtranclp.rtrancl_into_rtrancl)
  have "src_reach lc ?w3" by (rule reach_steps [OF steps again(7)])
  with again trusted_later [OF explained_steps [OF steps]] show ?case by blast
qed

text \<open>
  C28: A positive answer is worth what the caller asked for. When \<open>_ensure_fetched\<close> says that the
  ledger may be read, a fetch has been merged that began after the call, if the call asked for
  fresh statuses (the verification of a kill), and otherwise one that began within the refresh
  interval or that was merged while the call waited. A fetch that was already under way never
  counts as fresh, and a failed fetch never counts.
\<close>

theorem fetched_is_fresh:
  assumes reach: "src_reach lc w" and run: "ensured lc (ensure_begin started fresh (sw_src w)) w True w'"
  shows "\<exists>ts t. sw_served w' = sw_served w @ ts \<and> t \<in> set (sw_served w') \<and>
    (if fresh then started \<le> t else started - is_refresh_min_s (sw_src w) \<le> t \<or> t \<in> set ts)"
  using ensured_trusted [OF run TrueI reach] by (cases fresh) (auto simp: trusted_def ensure_begin_def)

section \<open>A run with a stuck callback\<close>

text \<open>
  A fetch hangs in the primary callback; a caller that needs fresh statuses takes over after the
  timeout; the failover callback answers; then the first answer comes back late.
\<close>

definition demo_clock_of :: local_clock where
  "demo_clock_of t = None"

definition demo_src :: isrc where
  "demo_src =
     \<lparr> is_failover = True, is_primary_unreturned = 0, is_health = IDLE, is_health_at = None,
       is_explicit = False, is_refresh_min_s = 5, is_min_poll_interval_s = None, is_wait_timeout_s = 120,
       is_retention = 1209600000000, is_track_runtime = True, is_ledger = [], is_interest = {},
       is_last_fetch_at = None, is_last_prune_at = None, is_fetching = False, is_fetch_deadline = None,
       is_fetch_token = 0, is_inflight = 0, is_gen = 0, is_closed = False, is_next_token = 1 \<rparr>"

definition demo_answer :: "string \<Rightarrow> callback_result" where
  "demo_answer stat = CbReturns (Envelope (Some (JobsList [RowDict [(''dataId'', Some ''7''), (''stat'', Some stat)]])))"

definition demo_row :: "JobState \<Rightarrow> JobStatus" where
  "demo_row st = \<lparr> st_job_id = 7, st_array_index = None, st_state = st, st_exit_code = None, st_run_time_s = None,
     st_start_time = None, st_finish_time = None, st_source_cluster = None, st_forward_cluster = None \<rparr>"

definition demo_fetch :: "nat \<Rightarrow> bool \<Rightarrow> int \<Rightarrow> fetch_phase \<Rightarrow> fetch" where
  "demo_fetch token fo t ph = \<lparr> ft_token = token, ft_use_failover = fo, ft_at = of_int t, ft_now = t, ft_phase = ph \<rparr>"

definition demo_stuck :: src_world where
  "demo_stuck =
     \<lparr> sw_src = demo_src\<lparr>is_interest := {7}, is_fetching := True, is_fetch_token := 1, is_next_token := 2,
         is_fetch_deadline := Some 120, is_inflight := 1, is_primary_unreturned := 1\<rparr>,
       sw_fetches = [demo_fetch 1 False 0 InPrimary], sw_served = [] \<rparr>"

definition demo_taken :: "fetch_phase \<Rightarrow> fetch_phase \<Rightarrow> src_world" where
  "demo_taken p1 p2 =
     \<lparr> sw_src = demo_src\<lparr>is_interest := {7}, is_fetching := True, is_fetch_token := 2, is_next_token := 3,
         is_fetch_deadline := Some 320, is_inflight := 2, is_primary_unreturned := (if in_primary (demo_fetch 1 False 0 p1) then 1 else 0)\<rparr>,
       sw_fetches = [demo_fetch 1 False 0 p1, demo_fetch 2 True (if p2 = AtStart then 0 else 200) p2], sw_served = [] \<rparr>"

lemma demo_stuck_reach: "src_reach demo_clock_of demo_stuck"
proof -
  let ?c = "ensure_begin 0 False demo_src"
  let ?w0 = "\<lparr> sw_src = demo_src, sw_fetches = [], sw_served = [] \<rparr>"
  let ?w1 = "?w0\<lparr>sw_src := demo_src\<lparr>is_interest := {7}\<rparr>\<rparr>"
  let ?w2 = "?w1\<lparr>sw_src := demo_src\<lparr>is_interest := {7}, is_fetching := True, is_fetch_token := 1, is_next_token := 2,
         is_fetch_deadline := Some 120, is_inflight := 1\<rparr>, sw_fetches := [demo_fetch 1 False 0 AtStart]\<rparr>"
  have "new_isrc True (Some True) None 10 120 14 True = Inr demo_src" by (simp add: new_isrc_def demo_src_def)
  then have "src_reach demo_clock_of ?w0" by (rule src_reach.created)
  moreover have "src_step demo_clock_of ?w0 ?w1"
    using src_step.interest [of demo_clock_of ?w0 "[7]"] by (simp add: register_interest_def demo_src_def)
  moreover have "src_step demo_clock_of ?w1 ?w2"
    using src_step.turn [of 0 ?c ?w1 "WaitFor None 0" "Some (1, False)" "sw_src ?w2" demo_clock_of]
    by (simp add: ensure_turn_def ensure_begin_def start_or_takeover_def start_fetch_def reaches_def demo_src_def
        spawned_def demo_fetch_def)
  moreover have "src_step demo_clock_of ?w2 demo_stuck"
    using src_step.begins [of ?w2 "[]" "demo_fetch 1 False 0 AtStart" "[]" 0 0 "demo_fetch 1 False 0 InPrimary" "sw_src demo_stuck" demo_clock_of]
    by (simp add: fetch_begin_def demo_fetch_def demo_stuck_def demo_src_def)
  ultimately show ?thesis by (meson src_reach.stepped)
qed

definition demo_call :: fetch_call where
  "demo_call = ensure_begin 150 True (sw_src demo_stuck)"

lemma demo_turn: "ensure_turn 200 demo_call (sw_src demo_stuck) = (WaitFor None 0, Some (2, True), sw_src (demo_taken InPrimary AtStart))"
  by (simp add: ensure_turn_def demo_call_def ensure_begin_def start_or_takeover_def start_fetch_def reaches_def demo_src_def
      demo_stuck_def demo_taken_def MAX_INFLIGHT_def in_primary_def demo_fetch_def)

lemma demo_taken_spawned: "demo_stuck\<lparr>sw_src := sw_src (demo_taken InPrimary AtStart), sw_fetches := sw_fetches demo_stuck @ spawned (Some (2, True))\<rparr>
    = demo_taken InPrimary AtStart"
  by (simp add: demo_stuck_def demo_taken_def spawned_def demo_fetch_def)

lemma demo_taken_reach: "src_reach demo_clock_of (demo_taken InPrimary AtStart)"
  using src_reach.stepped [OF demo_stuck_reach src_step.turn [OF demo_turn]] by (simp add: demo_taken_spawned)

theorem fetches_bounded_witness:
  "src_reach demo_clock_of (demo_taken InPrimary AtStart) \<and> is_inflight (sw_src (demo_taken InPrimary AtStart)) = 2 \<and>
   snd (fst (start_fetch 200 (sw_src (demo_taken InPrimary AtStart))))"
  using fetches_bounded [OF demo_taken_reach] demo_taken_reach
  by (simp add: demo_taken_def demo_src_def in_primary_def demo_fetch_def)

definition demo_late :: src_world where
  "demo_late = demo_taken (AtEnd (Some [demo_row PEND]) False) (AtEnd (Some [demo_row RUN]) True)"

lemma demo_attempts:
  "attempt_result demo_clock_of (demo_answer ''RUN'') 200 (sw_src (demo_taken p q)) = Parsed [demo_row RUN]"
  "attempt_result demo_clock_of (demo_answer ''pend'') 0 (sw_src (demo_taken p q)) = Parsed [demo_row PEND]"
proof -
  have i: "is_interest (sw_src (demo_taken p q)) = {7}" by (simp add: demo_taken_def)
  have "parse_internal_jobs demo_clock_of (Envelope (Some (JobsList [RowDict [(''dataId'', Some ''7''), (''stat'', Some ''RUN'')]]))) 200 (Some {7})
      = Inr [demo_row RUN]"
    "parse_internal_jobs demo_clock_of (Envelope (Some (JobsList [RowDict [(''dataId'', Some ''7''), (''stat'', Some ''pend'')]]))) 0 (Some {7})
      = Inr [demo_row PEND]" by code_simp+
  then show "attempt_result demo_clock_of (demo_answer ''RUN'') 200 (sw_src (demo_taken p q)) = Parsed [demo_row RUN]"
    "attempt_result demo_clock_of (demo_answer ''pend'') 0 (sw_src (demo_taken p q)) = Parsed [demo_row PEND]"
    by (simp_all add: attempt_result_def i demo_answer_def)
qed

lemma demo_late_steps: "(src_step demo_clock_of)\<^sup>*\<^sup>* (demo_taken InPrimary AtStart) demo_late"
proof -
  let ?e = "AtEnd (Some [demo_row RUN]) True" and ?h = "PrimaryHas (Parsed [demo_row PEND])"
  have "src_step demo_clock_of (demo_taken InPrimary AtStart) (demo_taken InPrimary InFailover)"
    using src_step.begins [of "demo_taken InPrimary AtStart" "[demo_fetch 1 False 0 InPrimary]" "demo_fetch 2 True 0 AtStart" "[]"
        200 200 "demo_fetch 2 True 200 InFailover" "sw_src (demo_taken InPrimary AtStart)" demo_clock_of]
    by (simp add: fetch_begin_def demo_fetch_def demo_taken_def)
  moreover have "src_step demo_clock_of (demo_taken InPrimary InFailover) (demo_taken InPrimary ?e)"
    using src_step.failover [of "demo_taken InPrimary InFailover" "[demo_fetch 1 False 0 InPrimary]" "demo_fetch 2 True 200 InFailover" "[]"
        demo_clock_of "demo_answer ''RUN''"] demo_attempts(1) [of InPrimary InFailover]
    by (simp add: failover_returns_def demo_fetch_def demo_taken_def)
  moreover have "src_step demo_clock_of (demo_taken InPrimary ?e) (demo_taken ?h ?e)"
    using src_step.primary [of "demo_taken InPrimary ?e" "[]" "demo_fetch 1 False 0 InPrimary" "[demo_fetch 2 True 200 ?e]"
        demo_clock_of "demo_answer ''pend''"] demo_attempts(2) [of InPrimary ?e]
    by (simp add: primary_returns_def demo_fetch_def demo_taken_def in_primary_def)
  moreover have "src_step demo_clock_of (demo_taken ?h ?e) demo_late"
    using src_step.leaves [of "demo_taken ?h ?e" "[]" "demo_fetch 1 False 0 ?h" "[demo_fetch 2 True 200 ?e]"
        "Parsed [demo_row PEND]" "demo_fetch 1 False 0 (AtEnd (Some [demo_row PEND]) False)" "sw_src demo_late" demo_clock_of]
    by (simp add: primary_leave_def demo_fetch_def demo_taken_def demo_late_def in_primary_def)
  ultimately show ?thesis by (meson converse_rtranclp_into_rtranclp rtranclp.rtrancl_refl)
qed

definition demo_served :: src_world where
  "demo_served = demo_late\<lparr>sw_src := fetch_end (Some [demo_row RUN]) True (demo_fetch 2 True 200 (AtEnd (Some [demo_row RUN]) True)) (sw_src demo_late),
     sw_fetches := [demo_fetch 1 False 0 (AtEnd (Some [demo_row PEND]) False)], sw_served := [200]\<rparr>"

lemma demo_served_step: "src_step demo_clock_of demo_late demo_served"
  using src_step.ends [of demo_late "[demo_fetch 1 False 0 (AtEnd (Some [demo_row PEND]) False)]"
      "demo_fetch 2 True 200 (AtEnd (Some [demo_row RUN]) True)" "[]" "Some [demo_row RUN]" True demo_clock_of]
  by (simp add: demo_late_def demo_taken_def demo_served_def demo_fetch_def)

lemma demo_served_src:
  "is_ledger (sw_src demo_served) = [(7, [(None, \<lparr> lr_status = demo_row RUN, lr_seen_at = 200, lr_fetched_at = 200 \<rparr>)])]"
  "is_last_fetch_at (sw_src demo_served) = Some 200" "is_gen (sw_src demo_served) = 1" "\<not> is_closed (sw_src demo_served)"
  "is_interest (sw_src demo_served) = {7}"
  by (simp_all add: demo_served_def fetch_end_def merge_statuses_def merge_row_def ledger_rows_def dget_or_def
      demo_late_def demo_taken_def demo_fetch_def demo_src_def demo_row_def Let_def refresh_runtimes_def past_def later_than_def
      prune_def expired_def note_outcome_def reaches_def) auto

lemma demo_served_reach: "src_reach demo_clock_of demo_served"
  using src_reach.stepped [OF reach_steps [OF demo_late_steps demo_taken_reach] demo_served_step] .

theorem fetched_is_fresh_witness:
  "ensured demo_clock_of demo_call demo_stuck True demo_served \<and> (\<exists>t\<in>set (sw_served demo_served). 150 \<le> t)"
proof -
  have steps: "(src_step demo_clock_of)\<^sup>*\<^sup>* (demo_taken InPrimary AtStart) demo_served"
    using demo_late_steps demo_served_step by (rule rtranclp.rtrancl_into_rtrancl)
  have "ensure_wake 201 True demo_call None 0 (sw_src demo_served) = (Some True, sw_src demo_served)"
    by (simp add: ensure_wake_def demo_served_src later_than_def reaches_def demo_call_def ensure_begin_def)
  from ensured.woken [OF demo_turn _ this, unfolded demo_taken_spawned, OF steps]
  have run: "ensured demo_clock_of (ensure_begin 150 True (sw_src demo_stuck)) demo_stuck True demo_served"
    by (simp add: demo_call_def)
  with fetched_is_fresh [OF demo_stuck_reach run] show ?thesis by (auto simp: demo_call_def)
qed

theorem newest_answer_wins_witness:
  "\<exists>e'. row_of (is_ledger (fetch_end (Some [demo_row PEND]) False (demo_fetch 1 False 0 (AtEnd (Some [demo_row PEND]) False)) (sw_src demo_served)))
     7 None = Some e' \<and> st_state (lr_status e') = RUN"
proof -
  let ?f = "demo_fetch 1 False 0 (AtEnd (Some [demo_row PEND]) False)"
  have f: "?f \<in> set (sw_fetches demo_served)" "ft_phase ?f = AtEnd (Some [demo_row PEND]) False"
    by (simp_all add: demo_served_def demo_fetch_def)
  have row: "row_of (is_ledger (sw_src demo_served)) 7 None = Some \<lparr> lr_status = demo_row RUN, lr_seen_at = 200, lr_fetched_at = 200 \<rparr>"
    by (simp add: demo_served_src row_of_def ledger_rows_def dget_or_def)
  then have "\<not> supersedes (is_interest (sw_src demo_served)) (is_ledger (sw_src demo_served)) (ft_at ?f) [demo_row PEND] 7 None"
    by (simp add: supersedes_def demo_fetch_def)
  with newest_answer_wins [OF demo_served_reach f refl, of 7 None] row
  obtain e' where e': "row_of (is_ledger (fetch_end (Some [demo_row PEND]) False ?f (sw_src demo_served))) 7 None = Some e'"
    "same_row \<lparr> lr_status = demo_row RUN, lr_seen_at = 200, lr_fetched_at = 200 \<rparr> e'"
    by (auto simp: expired_def demo_row_def)
  then have "(lr_status e')\<lparr>st_run_time_s := None\<rparr> = (demo_row RUN)\<lparr>st_run_time_s := None\<rparr>" by (simp add: same_row_def)
  from arg_cong [OF this, of st_state] e'(1) show ?thesis by (simp add: demo_row_def)
qed


end
