(* ===== verification/CommandLayer.thy ===== *)
theory CommandLayer
  imports StatusSource
begin

text \<open>
  The command layer as an object (\<open>src/lsfmgr/command.py\<close>, \<open>LsfCommand\<close> and what it is built
  from): the processes of the status queries and their shutdown, the adaptation of an injected
  runner, and the choice between bjobs and the callback source.
\<close>

section \<open>The processes of the status queries\<close>

text \<open>
  \<open>_QueryRunner\<close>: the processes between \<open>Popen\<close> and the end of the \<open>finally\<close> block. A process
  handle is a number; the process itself is the operating system's.
\<close>

record query_procs =
  qp_closed :: bool
  qp_processes :: "nat set"

definition new_query_procs :: query_procs where
  "new_query_procs = \<lparr> qp_closed = False, qp_processes = {} \<rparr>"

text \<open>The section under the lock that starts a process: \<open>started\<close> is what \<open>Popen\<close> gave.\<close>

definition query_start :: "py_error + nat \<Rightarrow> query_procs \<Rightarrow> (nat, query_procs) outcome" where
  "query_start started q =
     (if qp_closed q then (Inl (LsfCommandError None []), q)
      else (case started of
              Inl e \<Rightarrow> (Inl e, q)
            | Inr p \<Rightarrow> (Inr p, q\<lparr>qp_processes := insert p (qp_processes q)\<rparr>)))"

text \<open>The answer of \<open>communicate\<close>; on an exception the process is killed first.\<close>

definition query_result :: "py_error + CommandResult \<Rightarrow> nat \<Rightarrow> (py_error + CommandResult) \<times> nat set" where
  "query_result res p = (case res of Inl e \<Rightarrow> (Inl e, {p}) | Inr r \<Rightarrow> (Inr r, {}))"

definition query_finish :: "nat \<Rightarrow> query_procs \<Rightarrow> query_procs" where
  "query_finish p q = q\<lparr>qp_processes := qp_processes q - {p}\<rparr>"

text \<open>\<open>shutdown\<close>, with the processes it kills.\<close>

definition query_shutdown :: "query_procs \<Rightarrow> nat set \<times> query_procs" where
  "query_shutdown q = (qp_processes q, q\<lparr>qp_closed := True\<rparr>)"

section \<open>Injected runners\<close>

text \<open>How an adapted runner is called with the directory.\<close>

datatype runner_call = CallPositional | CallKeyword | CallWithoutCwd

text \<open>
  \<open>_adapt_runner\<close>: whether a signature can be inspected at all, and whether it binds three
  positional arguments, the keyword \<open>cwd\<close>, or two arguments. \<open>bind\<close> raises \<open>TypeError\<close>.
\<close>

definition adapt_runner :: "(bool \<times> bool \<times> bool) option \<Rightarrow> py_error + runner_call" where
  "adapt_runner sig =
     (case sig of
        None \<Rightarrow> Inr CallPositional
      | Some (three, keyword, two) \<Rightarrow>
          (if three then Inr CallPositional
           else if keyword then Inr CallKeyword
           else if two then Inr CallWithoutCwd
           else Inl TypeError))"

definition call_runner :: "runner_call \<Rightarrow> (string list \<Rightarrow> seconds \<Rightarrow> 'w \<Rightarrow> (CommandResult, 'w) outcome) \<Rightarrow> 'w runner \<Rightarrow> 'w runner" where
  "call_runner how two three argv timeout cwd w =
     (case how of CallWithoutCwd \<Rightarrow> two argv timeout w | _ \<Rightarrow> three argv timeout cwd w)"

section \<open>The command object\<close>

record layer_config = command_config +
  ly_fetcher :: bool
  ly_failover :: bool
  ly_refresh_min_s :: "seconds option"
  ly_poll_interval_s :: seconds
  ly_retention_days :: real
  ly_track_runtime :: bool

record lsf_command =
  lc_own_queries :: bool
  lc_queries :: query_procs
  lc_stopped :: bool
  lc_fmt_idx :: nat
  lc_pool_open :: bool
  lc_internal :: "isrc option"

text \<open>\<open>__init__\<close>; \<open>own\<close>: no runner was injected.\<close>

definition new_lsf_command :: "bool \<Rightarrow> layer_config \<Rightarrow> py_error + lsf_command" where
  "new_lsf_command own cfg =
     (let c = \<lparr> lc_own_queries = own, lc_queries = new_query_procs, lc_stopped = False, lc_fmt_idx = 0,
                lc_pool_open = True, lc_internal = None \<rparr>
      in if ly_fetcher cfg
         then map_sum id (\<lambda>s. c\<lparr>lc_internal := Some s\<rparr>)
                (new_isrc True (if ly_failover cfg then Some True else None) (ly_refresh_min_s cfg) (ly_poll_interval_s cfg)
                   (cc_query_timeout_s cfg) (ly_retention_days cfg) (ly_track_runtime cfg))
         else Inr c)"

definition KILL_BUDGET_WARN_S :: real where
  "KILL_BUDGET_WARN_S = 1 / 10"

text \<open>The warning about a tight kill budget, with the chunk size it proposes.\<close>

definition kill_budget_warning :: "layer_config \<Rightarrow> int option" where
  "kill_budget_warning cfg =
     (let budget = cc_kill_timeout_s cfg / of_int (max 1 (cc_kill_chunk_size cfg))
      in if budget \<ge> KILL_BUDGET_WARN_S then None
         else Some (max 1 (py_int_of_real (cc_kill_timeout_s cfg / KILL_BUDGET_WARN_S))))"

definition status_fetcher_state :: "lsf_command \<Rightarrow> FetcherState option" where
  "status_fetcher_state c = map_option fetcher_state (lc_internal c)"

definition command_note_poll_interval :: "seconds \<Rightarrow> lsf_command \<Rightarrow> lsf_command" where
  "command_note_poll_interval t c = c\<lparr>lc_internal := map_option (note_poll_interval t) (lc_internal c)\<rparr>"

definition forget_status :: "int list \<Rightarrow> lsf_command \<Rightarrow> lsf_command" where
  "forget_status ids c = c\<lparr>lc_internal := map_option (src_forget ids) (lc_internal c)\<rparr>"

definition shutdown_bkill_pool :: "lsf_command \<Rightarrow> lsf_command" where
  "shutdown_bkill_pool c = c\<lparr>lc_pool_open := False\<rparr>"

definition shutdown_status_source :: "lsf_command \<Rightarrow> nat set \<times> lsf_command" where
  "shutdown_status_source c =
     (let (killed, q) = (if lc_own_queries c then query_shutdown (lc_queries c) else ({}, lc_queries c))
      in (killed, c\<lparr>lc_stopped := True, lc_queries := q, lc_internal := map_option src_shutdown (lc_internal c)\<rparr>))"

text \<open>
  \<open>bjobs_by_ids\<close> with its choice of source. Waiting for a fetch and running bjobs are given:
  \<open>ensure\<close> works on the callback source, \<open>q\<close> on the whole object.
\<close>

definition on_internal :: "(isrc \<Rightarrow> 'a \<times> isrc) \<Rightarrow> isrc \<Rightarrow> lsf_command \<Rightarrow> 'a \<times> lsf_command" where
  "on_internal f s c = (let (r, s') = f s in (r, c\<lparr>lc_internal := Some s'\<rparr>))"

definition command_statuses :: "(bool \<Rightarrow> isrc \<Rightarrow> bool \<times> isrc)
    \<Rightarrow> (string list \<Rightarrow> lsf_command \<Rightarrow> (JobStatus list, lsf_command) outcome) \<Rightarrow> layer_config \<Rightarrow> bool \<Rightarrow> int list
    \<Rightarrow> lsf_command \<Rightarrow> (JobStatus list \<times> int list, lsf_command) outcome" where
  "command_statuses ensure q cfg fresh ids c =
     (case lc_internal c of
        Some s \<Rightarrow> on_internal (statuses_by_ids ensure fresh ids) s c
      | None \<Rightarrow> bjobs_by_ids q (command_config.truncate cfg) ids c)"

section \<open>The callback source keeps the contract\<close>

text \<open>Of an id that is not reported as failed, all rows of the ledger are in the answer.\<close>

definition in_ledger :: "int \<Rightarrow> JobStatus list \<Rightarrow> isrc \<Rightarrow> bool" where
  "in_ledger i sts s \<longleftrightarrow> set (map lr_status (dvalues (ledger_rows (is_ledger s) i))) \<subseteq> set sts"

interpretation callback_source: status_source "statuses_by_ids ensure fresh" in_ledger for ensure fresh
proof unfold_locales
  fix ids s sts failed s' i
  assume run: "statuses_by_ids ensure fresh ids s = (Inr (sts, failed), s')"
  then show "set failed \<subseteq> set ids"
    by (auto simp: statuses_by_ids_def register_interest_def split: if_splits prod.splits)
  assume "i \<in> set ids" "i \<notin> set failed"
  with run have "sts = read_ledger (is_ledger s') ids" "i \<in> set ids"
    by (auto simp: statuses_by_ids_def register_interest_def split: if_splits prod.splits)
  then show "in_ledger i sts s'" by (auto simp: in_ledger_def read_ledger_def)
qed

text \<open>And so does the command object, whichever source it has.\<close>

definition answered_by :: "(string list \<Rightarrow> lsf_command \<Rightarrow> (JobStatus list, lsf_command) outcome) \<Rightarrow> int \<Rightarrow> JobStatus list
    \<Rightarrow> lsf_command \<Rightarrow> bool" where
  "answered_by q i sts c \<longleftrightarrow> asked_ok q i sts \<or> (\<exists>s. lc_internal c = Some s \<and> in_ledger i sts s)"

interpretation command_source: status_source "command_statuses ensure q cfg fresh" "answered_by q" for ensure q cfg fresh
proof unfold_locales
  fix ids c sts failed c' i
  assume run: "command_statuses ensure q cfg fresh ids c = (Inr (sts, failed), c')"
  show "set failed \<subseteq> set ids"
  proof (cases "lc_internal c")
    case None
    with run have "bjobs_by_ids q (command_config.truncate cfg) ids c = (Inr (sts, failed), c')" by (simp add: command_statuses_def)
    then show ?thesis by (rule bjobs_source.failed_subset)
  next
    case (Some s)
    with run obtain s' where "statuses_by_ids ensure fresh ids s = (Inr (sts, failed), s')"
      by (auto simp: command_statuses_def on_internal_def split: prod.splits)
    then show ?thesis by (rule callback_source.failed_subset)
  qed
  assume i: "i \<in> set ids" "i \<notin> set failed"
  show "answered_by q i sts c'"
  proof (cases "lc_internal c")
    case None
    with run have "bjobs_by_ids q (command_config.truncate cfg) ids c = (Inr (sts, failed), c')" by (simp add: command_statuses_def)
    from bjobs_source.not_failed_answered [OF this i] show ?thesis by (simp add: answered_by_def)
  next
    case (Some s)
    with run obtain s' where "statuses_by_ids ensure fresh ids s = (Inr (sts, failed), s')" "lc_internal c' = Some s'"
      by (auto simp: command_statuses_def on_internal_def split: prod.splits)
    with callback_source.not_failed_answered [OF _ i] show ?thesis by (auto simp: answered_by_def)
  qed
qed

section \<open>Shutdown of the queries\<close>

text \<open>The processes alive, and those that were sent a kill.\<close>

inductive query_run :: "query_procs \<Rightarrow> nat set \<Rightarrow> nat set \<Rightarrow> bool" where
  fresh_runner: "query_run new_query_procs {} {}"
| starts: "query_run q alive killed \<Longrightarrow> p \<notin> alive \<union> killed \<Longrightarrow> query_start (Inr p) q = (Inr p', q') \<Longrightarrow>
    query_run q' (insert p alive) killed"
| refused: "query_run q alive killed \<Longrightarrow> query_start started q = (Inl e, q') \<Longrightarrow> query_run q' alive killed"
| exits: "query_run q alive killed \<Longrightarrow> p \<in> alive \<Longrightarrow> query_run q (alive - {p}) killed"
| result: "query_run q alive killed \<Longrightarrow> query_result res p = (r, ks) \<Longrightarrow> query_run q alive (killed \<union> ks)"
| finishes: "query_run q alive killed \<Longrightarrow> p \<notin> alive \<or> p \<in> killed \<Longrightarrow> query_run (query_finish p q) alive killed"
| stops: "query_run q alive killed \<Longrightarrow> query_shutdown q = (ks, q') \<Longrightarrow> query_run q' alive (killed \<union> ks)"

lemma query_run_tracked: "query_run q alive killed \<Longrightarrow>
    alive \<subseteq> qp_processes q \<union> killed \<and> (qp_closed q \<longrightarrow> alive \<subseteq> killed)"
proof (induction rule: query_run.induct)
  case (starts q alive killed p p' q')
  then show ?case by (auto simp: query_start_def split: if_splits)
next
  case (result q alive killed res p r ks)
  then show ?case by auto
qed (auto simp: new_query_procs_def query_start_def query_finish_def query_shutdown_def split: if_splits sum.splits)

text \<open>
  Shutting down leaves no query behind. However the starts, answers, timeouts and the
  shutdown of the status queries interleave, after the shutdown every process that is still
  alive has been killed, and no process is started any more.
\<close>

theorem shutdown_kills_every_query:
  assumes "query_run q alive killed"
  shows "alive \<subseteq> qp_processes q \<union> killed \<and>
    (let (ks, q') = query_shutdown q
     in alive \<subseteq> killed \<union> ks \<and> (\<forall>started. fst (query_start started q') = Inl (LsfCommandError None [])))"
  using query_run_tracked [OF assms] by (auto simp: query_shutdown_def query_start_def)

theorem shutdown_kills_every_query_witness:
  "\<exists>q. query_run q {3} {} \<and> {3} \<subseteq> fst (query_shutdown q)"
proof -
  let ?q = "snd (query_start (Inr 3) new_query_procs)"
  have s: "query_start (Inr 3) new_query_procs = (Inr 3, ?q)" by (simp add: query_start_def new_query_procs_def)
  have run: "query_run ?q {3} {}" using query_run.starts [OF query_run.fresh_runner _ s] by simp
  from shutdown_kills_every_query [OF this] have "{3} \<subseteq> fst (query_shutdown ?q)" by (auto simp: query_shutdown_def)
  with run show ?thesis by blast
qed

end
