(* ===== verification/Pacer.thy ===== *)
theory Pacer
  imports Monitor
begin

text \<open>
  The pacer of the displayed transitions (\<open>src/lsfmgr/pacer.py\<close>): \<open>StatePacer\<close> delays the
  emission of a job's transitions so that every state is shown for a while.
\<close>

section \<open>State\<close>

type_synonym pace_key = "jobset_id \<times> job_key"

record pacer =
  pc_dwell :: seconds
  pc_shown :: "(pace_key, JobState \<times> seconds) dict"
  pc_queue :: "(pace_key, JobRecord list) dict"
  pc_timer :: "int option"
  pc_emitted :: "(jobset_id \<times> JobRecord list) list"

definition DUE_TOLERANCE_S :: seconds where
  "DUE_TOLERANCE_S = 5 / 1000"

definition PRUNE_AT :: nat where
  "PRUNE_AT = 4096"

definition new_pacer :: "seconds \<Rightarrow> pacer" where
  "new_pacer dwell = \<lparr> pc_dwell = dwell, pc_shown = [], pc_queue = [], pc_timer = None, pc_emitted = [] \<rparr>"

text \<open>
  \<open>_safe_emit\<close>: the emission, and what the subscribers do to the pacer before it returns. An
  exception of a subscriber is swallowed.
\<close>

type_synonym pace_slot = "jobset_id \<Rightarrow> JobRecord list \<Rightarrow> pacer \<Rightarrow> pacer"

definition safe_emit :: "pace_slot \<Rightarrow> jobset_id \<Rightarrow> JobRecord list \<Rightarrow> pacer \<Rightarrow> pacer" where
  "safe_emit slot j recs p = slot j recs (p\<lparr>pc_emitted := pc_emitted p @ [(j, recs)]\<rparr>)"

definition enqueue :: "JobRecord list \<Rightarrow> JobRecord \<Rightarrow> JobRecord list" where
  "enqueue q rec = (if q \<noteq> [] \<and> jr_state (last q) = jr_state rec then butlast q @ [rec] else q @ [rec])"

section \<open>The timer\<close>

definition due_of :: "seconds \<Rightarrow> pacer \<Rightarrow> pace_key \<Rightarrow> seconds" where
  "due_of now p k = (case dget (pc_shown p) k of Some (_, t) \<Rightarrow> t + pc_dwell p | None \<Rightarrow> now)"

definition pace_reschedule :: "seconds \<Rightarrow> pacer \<Rightarrow> pacer" where
  "pace_reschedule now p =
     (if pc_queue p = [] then p\<lparr>pc_timer := None\<rparr>
      else p\<lparr>pc_timer := Some (timer_ms (Min (set (map (due_of now p) (dkeys (pc_queue p)))) - now))\<rparr>)"

definition pace_prune :: "seconds \<Rightarrow> pacer \<Rightarrow> pacer" where
  "pace_prune now p =
     (if length (pc_shown p) \<le> PRUNE_AT then p
      else p\<lparr>pc_shown := filter (\<lambda>(k, (st, t)). \<not> (now - t > pc_dwell p \<and> \<not> dhas (pc_queue p) k)) (pc_shown p)\<rparr>)"

section \<open>Operations\<close>

text \<open>One record of a pushed batch: what is due now, and the pacer.\<close>

definition push_one :: "seconds \<Rightarrow> jobset_id \<Rightarrow> JobRecord \<Rightarrow> JobRecord list \<times> pacer \<Rightarrow> JobRecord list \<times> pacer" where
  "push_one now j rec acc =
     (case acc of (due, p) \<Rightarrow>
        (let k = (j, jr_job_key rec)
         in case dget (pc_queue p) k of
              Some q \<Rightarrow> (due, p\<lparr>pc_queue := dset k (enqueue q rec) (pc_queue p)\<rparr>)
            | None \<Rightarrow>
                (case dget (pc_shown p) k of
                   None \<Rightarrow> (due @ [rec], p\<lparr>pc_shown := dset k (jr_state rec, now) (pc_shown p)\<rparr>)
                 | Some (st, t) \<Rightarrow>
                     (if jr_state rec = st then (due @ [rec], p)
                      else if now - t \<ge> pc_dwell p - DUE_TOLERANCE_S
                      then (due @ [rec], p\<lparr>pc_shown := dset k (jr_state rec, now) (pc_shown p)\<rparr>)
                      else (due, p\<lparr>pc_queue := dset k [rec] (pc_queue p)\<rparr>)))))"

definition pace_push :: "pace_slot \<Rightarrow> seconds \<Rightarrow> jobset_id \<Rightarrow> JobRecord list \<Rightarrow> pacer \<Rightarrow> pacer" where
  "pace_push slot now j recs p =
     (let (due, p1) = fold (push_one now j) recs ([], p);
          p2 = (if due = [] then p1 else safe_emit slot j due p1)
      in pace_reschedule now (pace_prune now p2))"

definition pace_forget :: "seconds \<Rightarrow> jobset_id \<Rightarrow> job_key list option \<Rightarrow> pacer \<Rightarrow> pacer" where
  "pace_forget now j keys p =
     (let drop_it = (\<lambda>k. case keys of Some ks \<Rightarrow> fst k = j \<and> snd k \<in> set ks | None \<Rightarrow> fst k = j)
      in pace_reschedule now (p\<lparr>pc_queue := filter (\<lambda>(k, _). \<not> drop_it k) (pc_queue p),
           pc_shown := filter (\<lambda>(k, _). \<not> drop_it k) (pc_shown p)\<rparr>))"

text \<open>One key of a drained batch.\<close>

definition drain_one :: "seconds \<Rightarrow> bool \<Rightarrow> pace_key \<Rightarrow> JobRecord list \<times> pacer \<Rightarrow> JobRecord list \<times> pacer" where
  "drain_one now flush k acc =
     (case acc of (recs, p) \<Rightarrow>
        (case dget (pc_queue p) k of
           None \<Rightarrow> (recs, p)
         | Some [] \<Rightarrow> (recs, p)
         | Some (r # q) \<Rightarrow>
             (if \<not> flush \<and> (case dget (pc_shown p) k of Some (_, t) \<Rightarrow> now - t < pc_dwell p - DUE_TOLERANCE_S | None \<Rightarrow> False)
              then (recs, p)
              else
                (let rec = (if flush then last (r # q) else r)
                 in (recs @ [rec],
                     p\<lparr>pc_queue := (if flush \<or> q = [] then ddel k (pc_queue p) else dset k q (pc_queue p)),
                       pc_shown := dset k (jr_state rec, now) (pc_shown p)\<rparr>)))))"

definition drain_batch :: "pace_slot \<Rightarrow> seconds \<Rightarrow> bool \<Rightarrow> jobset_id \<times> pace_key list \<Rightarrow> pacer \<Rightarrow> pacer" where
  "drain_batch slot now flush b p =
     (let (recs, p1) = fold (drain_one now flush) (snd b) ([], p)
      in if recs = [] then p1 else safe_emit slot (fst b) recs p1)"

definition batches :: "pacer \<Rightarrow> (jobset_id \<times> pace_key list) list" where
  "batches p = fold (\<lambda>k d. dset (fst k) (dget_or d (fst k) [] @ [k]) d) (dkeys (pc_queue p)) []"

definition pace_drain :: "pace_slot \<Rightarrow> seconds \<Rightarrow> bool \<Rightarrow> pacer \<Rightarrow> pacer" where
  "pace_drain slot now flush p = pace_reschedule now (fold (drain_batch slot now flush) (batches p) p)"

definition pace_stop :: "pace_slot \<Rightarrow> seconds \<Rightarrow> pacer \<Rightarrow> pacer" where
  "pace_stop slot now p = (pace_drain slot now True (p\<lparr>pc_timer := None, pc_dwell := 0\<rparr>))\<lparr>pc_shown := []\<rparr>"

end
