(* ===== verification/PacerLaws.thy ===== *)
theory PacerLaws
  imports Pacer
begin

text \<open>
  What the pacer shows: every transition, in order, each for its minimum time, and never stuck.
\<close>

section \<open>Runs\<close>

text \<open>
  A run of pushes and drains, whose subscribers do not call back: what was pushed, and what was
  shown when.
\<close>

definition tagged :: "jobset_id \<Rightarrow> JobRecord list \<Rightarrow> (pace_key \<times> JobState) list" where
  "tagged j rs = map (\<lambda>r. ((j, jr_job_key r), jr_state r)) rs"

definition emitted_of :: "pacer \<Rightarrow> (pace_key \<times> JobState) list" where
  "emitted_of p = concat (map (\<lambda>(j, rs). tagged j rs) (pc_emitted p))"

definition timed :: "seconds \<Rightarrow> (pace_key \<times> JobState) list \<Rightarrow> (pace_key \<times> seconds \<times> JobState) list" where
  "timed now xs = map (\<lambda>(k, st). (k, now, st)) xs"

definition shown_since :: "seconds \<Rightarrow> pacer \<Rightarrow> pacer \<Rightarrow> (pace_key \<times> seconds \<times> JobState) list" where
  "shown_since now p p' = timed now (drop (length (emitted_of p)) (emitted_of p'))"

definition no_slot :: pace_slot where
  "no_slot j recs p = p"

inductive pace_run :: "seconds \<Rightarrow> pacer \<Rightarrow> (pace_key \<times> JobState) list \<Rightarrow> (pace_key \<times> seconds \<times> JobState) list
    \<Rightarrow> seconds \<Rightarrow> bool" for dwell where
  created: "pace_run dwell (new_pacer dwell) [] [] t"
| pushed: "pace_run dwell p P L t \<Longrightarrow> t \<le> now \<Longrightarrow> p' = pace_push no_slot now j recs p \<Longrightarrow>
    pace_run dwell p' (P @ tagged j recs) (L @ shown_since now p p') now"
| drained: "pace_run dwell p P L t \<Longrightarrow> t \<le> now \<Longrightarrow> p' = pace_drain no_slot now False p \<Longrightarrow>
    pace_run dwell p' P (L @ shown_since now p p') now"

text \<open>Of one job.\<close>

definition of_key :: "'k \<Rightarrow> ('k \<times> 'v) list \<Rightarrow> 'v list" where
  "of_key k xs = map snd (filter (\<lambda>x. fst x = k) xs)"

definition queue_of :: "pacer \<Rightarrow> pace_key \<Rightarrow> JobRecord list" where
  "queue_of p k = dget_or (pc_queue p) k []"

text \<open>The changes of the display: when a state began to be shown.\<close>

definition add_change :: "(seconds \<times> JobState) list \<Rightarrow> seconds \<times> JobState \<Rightarrow> (seconds \<times> JobState) list" where
  "add_change cs x = (if cs \<noteq> [] \<and> snd (last cs) = snd x then cs else cs @ [x])"

definition changes :: "(seconds \<times> JobState) list \<Rightarrow> (seconds \<times> JobState) list" where
  "changes D = foldl add_change [] D"

fun spaced :: "seconds \<Rightarrow> (seconds \<times> JobState) list \<Rightarrow> bool" where
  "spaced d (x # y # xs) \<longleftrightarrow> fst y - fst x \<ge> d \<and> spaced d (y # xs)"
| "spaced d xs \<longleftrightarrow> True"

lemma of_key_simps [simp]: "of_key k [] = []" "of_key k (xs @ ys) = of_key k xs @ of_key k ys"
  "of_key k (x # xs) = (if fst x = k then snd x # of_key k xs else of_key k xs)"
  by (simp_all add: of_key_def)

lemma changes_snoc [simp]: "changes [] = []" "changes (D @ [x]) = add_change (changes D) x"
  by (simp_all add: changes_def)

lemma changes_nonempty [simp]: "changes D = [] \<longleftrightarrow> D = []"
  by (induction D rule: rev_induct) (auto simp: add_change_def)

lemma remdups_adj_snoc: "remdups_adj (xs @ [y]) = (if xs \<noteq> [] \<and> last xs = y then remdups_adj xs else remdups_adj xs @ [y])"
  by (induction xs rule: remdups_adj.induct) auto

lemma spaced_snoc: "spaced d (xs @ [y]) \<longleftrightarrow> spaced d xs \<and> (xs \<noteq> [] \<longrightarrow> fst y - fst (last xs) \<ge> d)"
  by (induction d xs rule: spaced.induct) auto

lemma dedup_cong: "remdups_adj xs = remdups_adj ys \<Longrightarrow> remdups_adj (xs @ [y]) = remdups_adj (ys @ [y])"
proof -
  assume eq: "remdups_adj xs = remdups_adj ys"
  then have "xs = [] \<longleftrightarrow> ys = []" by (metis remdups_adj_Nil_iff)
  moreover have "last xs = last ys" if "xs \<noteq> []" using eq that by (metis last_remdups_adj)
  ultimately show ?thesis using eq by (auto simp: remdups_adj_snoc)
qed

section \<open>The invariant of one job\<close>

text \<open>\<open>sh\<close>, \<open>q\<close>: the pacer's entries of the job; \<open>D\<close>: what was shown of it; \<open>P\<close>: what was pushed.\<close>

definition pace_ok :: "seconds \<Rightarrow> seconds \<Rightarrow> (JobState \<times> seconds) option \<Rightarrow> JobRecord list option
    \<Rightarrow> (seconds \<times> JobState) list \<Rightarrow> JobState list \<Rightarrow> bool" where
  "pace_ok dwell now sh q D P \<longleftrightarrow>
     remdups_adj (map snd D @ map jr_state (case q of None \<Rightarrow> [] | Some rs \<Rightarrow> rs)) = remdups_adj P \<and>
     spaced (dwell - DUE_TOLERANCE_S) (changes D) \<and>
     q \<noteq> Some [] \<and>
     (case sh of
        Some (st, t) \<Rightarrow> D \<noteq> [] \<and> snd (last (changes D)) = st \<and> fst (last (changes D)) \<le> t \<and> t \<le> now
      | None \<Rightarrow> q = None \<and> (D = [] \<or> now - fst (last (changes D)) > dwell))"

lemma pace_ok_later: "pace_ok dwell t sh q D P \<Longrightarrow> t \<le> now \<Longrightarrow> pace_ok dwell now sh q D P"
  by (auto simp: pace_ok_def split: option.splits)

lemma tolerance_pos: "0 < DUE_TOLERANCE_S"
  by (simp add: DUE_TOLERANCE_S_def)

text \<open>Showing a state when its predecessor was shown long enough.\<close>

lemma spaced_show:
  assumes "spaced (dwell - DUE_TOLERANCE_S) (changes D)"
    and "D \<noteq> [] \<longrightarrow> snd (last (changes D)) = s \<or> now - fst (last (changes D)) \<ge> dwell - DUE_TOLERANCE_S"
  shows "spaced (dwell - DUE_TOLERANCE_S) (changes (D @ [(now, s)]))"
  using assms by (auto simp: add_change_def spaced_snoc)

lemma last_change: "snd (last (changes (D @ [(now, s)]))) = s"
  "fst (last (changes D)) \<le> now \<or> D = [] \<Longrightarrow> fst (last (changes (D @ [(now, s)]))) \<le> now"
  by (auto simp: add_change_def)

lemma pace_ok_show:
  assumes ok: "pace_ok dwell now sh None D P"
    and due: "case sh of Some (st, t) \<Rightarrow> now - t \<ge> dwell - DUE_TOLERANCE_S | None \<Rightarrow> True" and dw: "0 \<le> dwell"
  shows "pace_ok dwell now (Some (s, now)) None (D @ [(now, s)]) (P @ [s])"
proof -
  have "D \<noteq> [] \<longrightarrow> now - fst (last (changes D)) \<ge> dwell - DUE_TOLERANCE_S" "D \<noteq> [] \<longrightarrow> fst (last (changes D)) \<le> now"
    using ok due tolerance_pos dw by (auto simp: pace_ok_def split: option.splits)
  moreover have "remdups_adj (map snd D @ [s]) = remdups_adj (P @ [s])" using ok by (intro dedup_cong) (simp add: pace_ok_def)
  moreover have "spaced (dwell - DUE_TOLERANCE_S) (changes D)" using ok by (simp add: pace_ok_def)
  ultimately show ?thesis
    using spaced_show [of dwell D s now] last_change [of D now s] by (simp add: pace_ok_def del: changes_snoc) blast
qed

lemma pace_ok_same:
  assumes ok: "pace_ok dwell now (Some (s, t)) None D P"
  shows "pace_ok dwell now (Some (s, t)) None (D @ [(now, s)]) (P @ [s])"
  using ok dedup_cong by (auto simp: pace_ok_def add_change_def)

lemma pace_ok_hold:
  assumes ok: "pace_ok dwell now (Some (st, t)) None D P"
  shows "pace_ok dwell now (Some (st, t)) (Some [r]) D (P @ [jr_state r])"
  using ok dedup_cong by (auto simp: pace_ok_def)

lemma pace_ok_enqueue:
  assumes ok: "pace_ok dwell now sh (Some q) D P"
  shows "pace_ok dwell now sh (Some (enqueue q r)) D (P @ [jr_state r])"
proof -
  have q: "q \<noteq> []" and st: "remdups_adj (map snd D @ map jr_state q) = remdups_adj P" using ok by (auto simp: pace_ok_def)
  have "remdups_adj (map snd D @ map jr_state (enqueue q r)) = remdups_adj (P @ [jr_state r])"
  proof (cases "jr_state (last q) = jr_state r")
    case True
    have e: "enqueue q r = butlast q @ [r]" using True q by (simp add: enqueue_def)
    have "map jr_state q = map jr_state (butlast q) @ [jr_state (last q)]"
      using arg_cong [OF append_butlast_last_id [OF q], of "map jr_state"] by simp
    then have same: "map jr_state (enqueue q r) = map jr_state q" using True e by simp
    have "remdups_adj ((map snd D @ map jr_state q) @ [jr_state r]) = remdups_adj (map snd D @ map jr_state q)"
      unfolding remdups_adj_snoc using q True by (simp add: last_map)
    with dedup_cong [OF st, of "jr_state r"] same show ?thesis by simp
  next
    case False
    then have "enqueue q r = q @ [r]" by (simp add: enqueue_def)
    with dedup_cong [OF st, of "jr_state r"] show ?thesis by simp
  qed
  moreover have "enqueue q r \<noteq> []" by (simp add: enqueue_def)
  ultimately show ?thesis using ok by (auto simp: pace_ok_def split: option.splits)
qed

lemma pace_ok_drain:
  assumes ok: "pace_ok dwell now sh (Some (r # q)) D P"
    and due: "case sh of Some (st, t) \<Rightarrow> now - t \<ge> dwell - DUE_TOLERANCE_S | None \<Rightarrow> True"
  shows "pace_ok dwell now (Some (jr_state r, now)) (if q = [] then None else Some q) (D @ [(now, jr_state r)]) P"
proof -
  have "D \<noteq> []" "now - fst (last (changes D)) \<ge> dwell - DUE_TOLERANCE_S" "fst (last (changes D)) \<le> now"
    using ok due by (auto simp: pace_ok_def split: option.splits)
  moreover have "spaced (dwell - DUE_TOLERANCE_S) (changes D)" "remdups_adj (map snd D @ jr_state r # map jr_state q) = remdups_adj P"
    using ok by (simp_all add: pace_ok_def)
  ultimately show ?thesis
    using spaced_show [of dwell D "jr_state r" now] last_change [of D now "jr_state r"]
    by (cases "q = []") (simp_all add: pace_ok_def del: changes_snoc)
qed

lemma pace_ok_prune:
  assumes ok: "pace_ok dwell now (Some (st, t)) None D P" and "now - t > dwell"
  shows "pace_ok dwell now None None D P"
  using assms by (auto simp: pace_ok_def)


section \<open>The invariant of the pacer\<close>

text \<open>The queued records stand under their own keys.\<close>

definition keys_match :: "pacer \<Rightarrow> bool" where
  "keys_match p \<longleftrightarrow> (\<forall>k q. dget (pc_queue p) k = Some q \<longrightarrow> (\<forall>r\<in>set q. jr_job_key r = snd k))"

definition pace_inv :: "seconds \<Rightarrow> seconds \<Rightarrow> pacer \<Rightarrow> (pace_key \<times> JobState) list \<Rightarrow> (pace_key \<times> seconds \<times> JobState) list \<Rightarrow> bool" where
  "pace_inv dwell now p P L \<longleftrightarrow> pc_dwell p = dwell \<and> keys_match p \<and>
     distinct (dkeys (pc_shown p)) \<and> distinct (dkeys (pc_queue p)) \<and>
     (\<forall>k. pace_ok dwell now (dget (pc_shown p) k) (dget (pc_queue p) k) (of_key k L) (of_key k P))"

lemma pace_invI: "pc_dwell p = dwell \<Longrightarrow> keys_match p \<Longrightarrow> distinct (dkeys (pc_shown p)) \<Longrightarrow> distinct (dkeys (pc_queue p)) \<Longrightarrow>
    (\<And>k. pace_ok dwell now (dget (pc_shown p) k) (dget (pc_queue p) k) (of_key k L) (of_key k P)) \<Longrightarrow> pace_inv dwell now p P L"
  unfolding pace_inv_def by blast

lemma pace_invD: "pace_inv dwell now p P L \<Longrightarrow> pace_ok dwell now (dget (pc_shown p) k) (dget (pc_queue p) k) (of_key k L) (of_key k P)"
  "pace_inv dwell now p P L \<Longrightarrow> keys_match p" "pace_inv dwell now p P L \<Longrightarrow> pc_dwell p = dwell"
  "pace_inv dwell now p P L \<Longrightarrow> distinct (dkeys (pc_shown p))" "pace_inv dwell now p P L \<Longrightarrow> distinct (dkeys (pc_queue p))"
  unfolding pace_inv_def by blast+

lemma timed_append [simp]: "timed now (xs @ ys) = timed now xs @ timed now ys" "timed now [] = []"
  by (simp_all add: timed_def)

lemma tagged_append [simp]: "tagged j (xs @ ys) = tagged j xs @ tagged j ys" "tagged j [] = []"
  "tagged j (x # xs) = ((j, jr_job_key x), jr_state x) # tagged j xs"
  by (simp_all add: tagged_def)

lemma of_key_timed: "of_key k (timed now xs) = map (\<lambda>st. (now, st)) (of_key k xs)"
  by (induction xs) (auto simp: timed_def)

text \<open>Pushing one record, with what is due so far.\<close>

lemma push_one_inv:
  assumes inv: "pace_inv dwell now p P (L @ timed now (tagged j due))" and dw: "0 \<le> dwell"
    and run: "push_one now j r (due, p) = (due', p')"
  shows "pace_inv dwell now p' (P @ tagged j [r]) (L @ timed now (tagged j due')) \<and> pc_emitted p' = pc_emitted p"
proof -
  let ?k = "(j, jr_job_key r)" and ?L = "L @ timed now (tagged j due)"
  have ok: "pace_ok dwell now (dget (pc_shown p) k) (dget (pc_queue p) k) (of_key k ?L) (of_key k P)" for k
    using pace_invD(1) [OF inv] .
  have match: "keys_match p" and dwell: "pc_dwell p = dwell"
    and dist [simp]: "distinct (dkeys (pc_shown p))" "distinct (dkeys (pc_queue p))" using pace_invD(2-5) [OF inv] .
  show ?thesis
  proof (cases "dget (pc_queue p) ?k")
    case (Some q)
    with run have p': "due' = due" "p' = p\<lparr>pc_queue := dset ?k (enqueue q r) (pc_queue p)\<rparr>" by (auto simp: push_one_def)
    have "\<forall>x\<in>set (enqueue q r). jr_job_key x = jr_job_key r"
      using match Some by (auto simp: enqueue_def keys_match_def dest: in_set_butlastD)
    with match have "keys_match p'" by (auto simp: keys_match_def p' update_conv' split: if_splits)
    moreover have "pace_ok dwell now (dget (pc_shown p') k) (dget (pc_queue p') k) (of_key k ?L) (of_key k (P @ tagged j [r]))" for k
      using ok [of k] pace_ok_enqueue [of dwell now _ q _ _ r] Some by (auto simp: p' update_conv')
    ultimately show ?thesis using dwell by (auto simp: p' distinct_update intro!: pace_invI)
  next
    case None
    note ok1 = ok [of ?k, unfolded None]
    have km: "keys_match (p\<lparr>pc_shown := x\<rparr>)" "keys_match (p\<lparr>pc_queue := dset ?k [r] (pc_queue p)\<rparr>)" for x
      using match by (auto simp: keys_match_def update_conv' split: if_splits)
    have show_it: "pace_inv dwell now (p\<lparr>pc_shown := dset ?k (jr_state r, now) (pc_shown p)\<rparr>) (P @ tagged j [r]) (?L @ timed now (tagged j [r]))"
      if "case dget (pc_shown p) ?k of Some (st, t) \<Rightarrow> now - t \<ge> dwell - DUE_TOLERANCE_S | None \<Rightarrow> True"
    proof -
      note new = pace_ok_show [OF ok1 that dw, of "jr_state r"]
      have "pace_ok dwell now (dget (dset ?k (jr_state r, now) (pc_shown p)) k) (dget (pc_queue p) k)
          (of_key k (?L @ timed now (tagged j [r]))) (of_key k (P @ tagged j [r]))" for k
        using new ok [of k] None by (cases "k = ?k") (simp_all add: update_conv' of_key_timed)
      then show ?thesis using km(1) dwell by (intro pace_invI) (simp_all add: distinct_update)
    qed
    have same: "pace_inv dwell now p (P @ tagged j [r]) (?L @ timed now (tagged j [r]))" if "dget (pc_shown p) ?k = Some (jr_state r, t)" for t
    proof -
      note new = pace_ok_same [OF ok1 [unfolded that]]
      have "pace_ok dwell now (dget (pc_shown p) k) (dget (pc_queue p) k) (of_key k (?L @ timed now (tagged j [r]))) (of_key k (P @ tagged j [r]))" for k
        using new ok [of k] None that by (cases "k = ?k") (simp_all add: of_key_timed)
      then show ?thesis using match dwell by (intro pace_invI) simp_all
    qed
    have hold: "pace_inv dwell now (p\<lparr>pc_queue := dset ?k [r] (pc_queue p)\<rparr>) (P @ tagged j [r]) ?L" if "dget (pc_shown p) ?k = Some (st, t)" for st t
    proof -
      note new = pace_ok_hold [OF ok1 [unfolded that], of r]
      have "pace_ok dwell now (dget (pc_shown p) k) (dget (dset ?k [r] (pc_queue p)) k) (of_key k ?L) (of_key k (P @ tagged j [r]))" for k
        using new ok [of k] that by (cases "k = ?k") (simp_all add: update_conv')
      then show ?thesis using km(2) dwell by (intro pace_invI) (simp_all add: distinct_update)
    qed
    show ?thesis
    proof (cases "dget (pc_shown p) ?k")
      case s: None
      with run None have "due' = due @ [r]" "p' = p\<lparr>pc_shown := dset ?k (jr_state r, now) (pc_shown p)\<rparr>" by (simp_all add: push_one_def)
      with show_it s show ?thesis by simp
    next
      case s: (Some x)
      obtain st t where x: "x = (st, t)" by (cases x)
      consider "jr_state r = st" | "jr_state r \<noteq> st" "now - t \<ge> dwell - DUE_TOLERANCE_S" | "jr_state r \<noteq> st" "\<not> now - t \<ge> dwell - DUE_TOLERANCE_S"
        by blast
      then show ?thesis
      proof cases
        case 1
        with run None s x have "due' = due @ [r]" "p' = p" by (simp_all add: push_one_def)
        with same [of t] s x 1 show ?thesis by simp
      next
        case 2
        with run None s x dwell have "due' = due @ [r]" "p' = p\<lparr>pc_shown := dset ?k (jr_state r, now) (pc_shown p)\<rparr>" by (simp_all add: push_one_def)
        with show_it s x 2 show ?thesis by simp
      next
        case 3
        with run None s x dwell have "due' = due" "p' = p\<lparr>pc_queue := dset ?k [r] (pc_queue p)\<rparr>" by (simp_all add: push_one_def)
        with hold s x show ?thesis by simp
      qed
    qed
  qed
qed

lemma push_fold_inv:
  assumes "pace_inv dwell now p P (L @ timed now (tagged j due))" and "0 \<le> dwell"
    and "fold (push_one now j) recs (due, p) = (due', p')"
  shows "pace_inv dwell now p' (P @ tagged j recs) (L @ timed now (tagged j due')) \<and> pc_emitted p' = pc_emitted p"
  using assms
proof (induction recs arbitrary: due p P)
  case (Cons r recs)
  obtain due1 p1 where one: "push_one now j r (due, p) = (due1, p1)" by (rule prod.exhaust)
  note i1 = push_one_inv [OF Cons.prems(1,2) one]
  have "fold (push_one now j) recs (due1, p1) = (due', p')" using Cons.prems(3) one by simp
  from Cons.IH [OF conjunct1 [OF i1] Cons.prems(2) this] i1 show ?case by simp
qed simp

text \<open>What does not change the display.\<close>

lemma reschedule_keeps [simp]: "pc_emitted (pace_reschedule now p) = pc_emitted p" "pc_queue (pace_reschedule now p) = pc_queue p"
  "pc_shown (pace_reschedule now p) = pc_shown p" "pc_dwell (pace_reschedule now p) = pc_dwell p"
  "pc_timer (pace_reschedule now p) = None \<longleftrightarrow> pc_queue p = []"
  by (simp_all add: pace_reschedule_def)

lemma pace_inv_cong: "pc_dwell p' = pc_dwell p \<Longrightarrow> pc_queue p' = pc_queue p \<Longrightarrow> pc_shown p' = pc_shown p \<Longrightarrow>
    pace_inv dwell now p' P L = pace_inv dwell now p P L"
  by (simp add: pace_inv_def keys_match_def)

lemma prune_keeps [simp]: "pc_emitted (pace_prune now p) = pc_emitted p" "pc_queue (pace_prune now p) = pc_queue p"
  "pc_dwell (pace_prune now p) = pc_dwell p"
  by (simp_all add: pace_prune_def)


lemma prune_inv:
  assumes inv: "pace_inv dwell now p P L"
  shows "pace_inv dwell now (pace_prune now p) P L"
proof (cases "length (pc_shown p) \<le> PRUNE_AT")
  case True
  with inv show ?thesis by (simp add: pace_prune_def)
next
  case False
  let ?shown = "filter (\<lambda>(k, (st, t)). \<not> (now - t > pc_dwell p \<and> \<not> dhas (pc_queue p) k)) (pc_shown p)"
  have p': "pace_prune now p = p\<lparr>pc_shown := ?shown\<rparr>" using False by (simp add: pace_prune_def)
  have get: "dget ?shown k = (case dget (pc_shown p) k of None \<Rightarrow> None
      | Some (st, t) \<Rightarrow> if \<not> (now - t > dwell \<and> dget (pc_queue p) k = None) then Some (st, t) else None)" for k
    using dget_filter [OF pace_invD(4) [OF inv], of "\<lambda>k v. case v of (st, t) \<Rightarrow> \<not> (now - t > pc_dwell p \<and> \<not> dhas (pc_queue p) k)" k]
      pace_invD(3) [OF inv] by (auto simp: dhas_def case_prod_unfold split: option.split)
  have "pace_ok dwell now (dget ?shown k) (dget (pc_queue p) k) (of_key k L) (of_key k P)" for k
    using pace_invD(1) [OF inv, of k] unfolding get by (auto simp: pace_ok_prune split: option.split)
  then show ?thesis
    unfolding p' using pace_invD(2-5) [OF inv] by (intro pace_invI) (simp_all add: keys_match_def distinct_keys_filter)
qed

lemma drain_one_inv:
  assumes inv: "pace_inv dwell now p P (L @ timed now (tagged j recs))" and k: "fst k = j"
    and run: "drain_one now False k (recs, p) = (recs', p')"
  shows "pace_inv dwell now p' P (L @ timed now (tagged j recs')) \<and> pc_emitted p' = pc_emitted p"
proof -
  let ?L = "L @ timed now (tagged j recs)"
  have dwell: "pc_dwell p = dwell" by (rule pace_invD(3) [OF inv])
  consider "recs' = recs" "p' = p"
    | r q where "dget (pc_queue p) k = Some (r # q)" "recs' = recs @ [r]"
      "case dget (pc_shown p) k of Some (st, t) \<Rightarrow> now - t \<ge> dwell - DUE_TOLERANCE_S | None \<Rightarrow> True"
      "p' = p\<lparr>pc_queue := (if q = [] then ddel k (pc_queue p) else dset k q (pc_queue p)), pc_shown := dset k (jr_state r, now) (pc_shown p)\<rparr>"
  proof (cases "dget (pc_queue p) k")
    case None
    with run that(1) show ?thesis by (simp add: drain_one_def)
  next
    case (Some q0)
    show ?thesis
    proof (cases q0)
      case Nil
      with run Some that(1) show ?thesis by (simp add: drain_one_def)
    next
      case (Cons r q)
      show ?thesis
      proof (cases "case dget (pc_shown p) k of Some (_, t) \<Rightarrow> now - t < pc_dwell p - DUE_TOLERANCE_S | None \<Rightarrow> False")
        case True
        with run Some Cons that(1) show ?thesis by (simp add: drain_one_def)
      next
        case False
        with run Some Cons have "recs' = recs @ [r]"
          "p' = p\<lparr>pc_queue := (if q = [] then ddel k (pc_queue p) else dset k q (pc_queue p)), pc_shown := dset k (jr_state r, now) (pc_shown p)\<rparr>"
          by (auto simp: drain_one_def)
        moreover have "case dget (pc_shown p) k of Some (st, t) \<Rightarrow> now - t \<ge> dwell - DUE_TOLERANCE_S | None \<Rightarrow> True"
          using False dwell by (simp split: option.splits prod.splits)
        ultimately show ?thesis using that(2) Some Cons by blast
      qed
    qed
  qed
  then show ?thesis
  proof cases
    case 1
    with inv show ?thesis by simp
  next
    case 2
    have "jr_job_key r = snd k" using pace_invD(2) [OF inv] 2(1) unfolding keys_match_def by fastforce
    with k have kr: "(j, jr_job_key r) = k" by auto
    note new = pace_ok_drain [OF pace_invD(1) [OF inv, of k, unfolded 2(1)] 2(3)]
    have queue: "dget (pc_queue p') x = (if x = k then (if q = [] then None else Some q) else dget (pc_queue p) x)" for x
      by (simp add: 2(4) update_conv' delete_conv')
    have shown: "dget (pc_shown p') x = (if x = k then Some (jr_state r, now) else dget (pc_shown p) x)" for x
      by (simp add: 2(4) update_conv')
    have "keys_match p'" using pace_invD(2) [OF inv] 2(1) unfolding keys_match_def queue by (auto split: if_splits)
    moreover have "pace_ok dwell now (dget (pc_shown p') x) (dget (pc_queue p') x) (of_key x (?L @ timed now (tagged j [r]))) (of_key x P)" for x
      using new pace_invD(1) [OF inv, of x] by (cases "x = k") (simp_all add: queue shown of_key_timed kr)
    ultimately show ?thesis
      using dwell pace_invD(4,5) [OF inv] 2
      by (auto intro!: pace_invI simp: distinct_update distinct_delete)
  qed
qed

lemma drain_fold_inv:
  assumes "pace_inv dwell now p P (L @ timed now (tagged j recs))" and "\<forall>k\<in>set ks. fst k = j"
    and "fold (drain_one now False) ks (recs, p) = (recs', p')"
  shows "pace_inv dwell now p' P (L @ timed now (tagged j recs')) \<and> pc_emitted p' = pc_emitted p"
  using assms
proof (induction ks arbitrary: recs p)
  case (Cons k ks)
  obtain recs1 p1 where one: "drain_one now False k (recs, p) = (recs1, p1)" by (rule prod.exhaust)
  have "fst k = j" using Cons.prems(2) by simp
  note i1 = drain_one_inv [OF Cons.prems(1) this one]
  have "\<forall>k\<in>set ks. fst k = j" "fold (drain_one now False) ks (recs1, p1) = (recs', p')" using Cons.prems(2,3) one by auto
  from Cons.IH [OF conjunct1 [OF i1] this] i1 show ?case by simp
qed simp

lemma drain_batch_inv:
  assumes inv: "pace_inv dwell now p P L" and ks: "\<forall>k\<in>set (snd b). fst k = fst b"
  shows "\<exists>X. emitted_of (drain_batch no_slot now False b p) = emitted_of p @ X \<and>
    pace_inv dwell now (drain_batch no_slot now False b p) P (L @ timed now X)"
proof -
  obtain recs p1 where f: "fold (drain_one now False) (snd b) ([], p) = (recs, p1)" by (rule prod.exhaust)
  have "pace_inv dwell now p P (L @ timed now (tagged (fst b) []))" using inv by simp
  note i = drain_fold_inv [OF this ks f]
  have "drain_batch no_slot now False b p = (if recs = [] then p1 else p1\<lparr>pc_emitted := pc_emitted p1 @ [(fst b, recs)]\<rparr>)"
    by (simp add: drain_batch_def f safe_emit_def no_slot_def)
  moreover have "pace_inv dwell now (p1\<lparr>pc_emitted := x\<rparr>) P M = pace_inv dwell now p1 P M" for x M
    by (rule pace_inv_cong) simp_all
  ultimately show ?thesis using i by (intro exI [of _ "tagged (fst b) recs"]) (cases "recs = []"; simp add: emitted_of_def)
qed

lemma grouped_keys:
  assumes "\<forall>b\<in>set d. \<forall>k\<in>set (snd b). fst k = fst b"
  shows "\<forall>b\<in>set (fold (\<lambda>k d. dset (fst k) (dget_or d (fst k) [] @ [k]) d) ks d). \<forall>k\<in>set (snd b :: pace_key list). fst k = fst b"
  using assms
proof (induction ks arbitrary: d)
  case (Cons k ks)
  have up: "set (dset i v d) \<subseteq> insert (i, v) (set d)" for i :: jobset_id and v :: "pace_key list" by (induction d) auto
  have "\<forall>x\<in>set (dget_or d (fst k) []). fst x = fst k"
  proof (cases "dget d (fst k)")
    case (Some v)
    then have "(fst k, v) \<in> set d" by (rule map_of_SomeD)
    with Cons.prems Some show ?thesis by (auto simp: dget_or_def)
  qed (simp add: dget_or_def)
  note row = this
  have "\<forall>b\<in>set (dset (fst k) (dget_or d (fst k) [] @ [k]) d). \<forall>x\<in>set (snd b). fst x = fst b"
  proof
    fix b
    assume "b \<in> set (dset (fst k) (dget_or d (fst k) [] @ [k]) d)"
    then have "b = (fst k, dget_or d (fst k) [] @ [k]) \<or> b \<in> set d" using up by blast
    then show "\<forall>x\<in>set (snd b). fst x = fst b"
    proof
      assume "b = (fst k, dget_or d (fst k) [] @ [k])"
      with row show ?thesis by (simp add: ball_Un)
    qed (use Cons.prems in blast)
  qed
  then show ?case unfolding fold_simps by (rule Cons.IH)
next
  case Nil
  then show ?case unfolding fold_simps .
qed

lemma batches_keys: "\<forall>b\<in>set (batches p). \<forall>k\<in>set (snd b). fst k = fst b"
  unfolding batches_def by (rule grouped_keys) simp

lemma drain_inv:
  assumes inv: "pace_inv dwell now p P L"
  shows "\<exists>X. emitted_of (pace_drain no_slot now False p) = emitted_of p @ X \<and>
    pace_inv dwell now (pace_drain no_slot now False p) P (L @ timed now X)"
proof -
  have "\<exists>X. emitted_of (fold (drain_batch no_slot now False) bs p) = emitted_of p @ X \<and>
      pace_inv dwell now (fold (drain_batch no_slot now False) bs p) P (L @ timed now X)"
    if "pace_inv dwell now p P L" "\<forall>b\<in>set bs. \<forall>k\<in>set (snd b). fst k = fst b" for bs p L
    using that
  proof (induction bs arbitrary: p L)
    case (Cons b bs)
    have "\<forall>k\<in>set (snd b). fst k = fst b" using Cons.prems(2) by simp
    from drain_batch_inv [OF Cons.prems(1) this] obtain X where
      X: "emitted_of (drain_batch no_slot now False b p) = emitted_of p @ X" "pace_inv dwell now (drain_batch no_slot now False b p) P (L @ timed now X)"
      by blast
    have "\<forall>b\<in>set bs. \<forall>k\<in>set (snd b). fst k = fst b" using Cons.prems(2) by simp
    from Cons.IH [OF X(2) this] obtain Y where
      "emitted_of (fold (drain_batch no_slot now False) (b # bs) p) = emitted_of p @ X @ Y"
      "pace_inv dwell now (fold (drain_batch no_slot now False) (b # bs) p) P (L @ timed now (X @ Y))" using X(1) by auto
    then show ?case by (intro exI [of _ "X @ Y"]) simp
  qed (intro exI [of _ "[]"], simp)
  from this [OF inv batches_keys] obtain X where
    "emitted_of (fold (drain_batch no_slot now False) (batches p) p) = emitted_of p @ X"
    "pace_inv dwell now (fold (drain_batch no_slot now False) (batches p) p) P (L @ timed now X)" by blast
  moreover have "emitted_of (pace_reschedule now q) = emitted_of q" "pace_inv dwell now (pace_reschedule now q) P M = pace_inv dwell now q P M" for q M
    by (simp add: emitted_of_def) (rule pace_inv_cong; simp)
  ultimately show ?thesis by (auto simp: pace_drain_def)
qed

lemma push_inv:
  assumes inv: "pace_inv dwell now p P L" and dw: "0 \<le> dwell"
  shows "\<exists>X. emitted_of (pace_push no_slot now j recs p) = emitted_of p @ X \<and>
    pace_inv dwell now (pace_push no_slot now j recs p) (P @ tagged j recs) (L @ timed now X)"
proof -
  obtain due p1 where f: "fold (push_one now j) recs ([], p) = (due, p1)" by (rule prod.exhaust)
  let ?p2 = "if due = [] then p1 else safe_emit no_slot j due p1"
  have "pace_inv dwell now p P (L @ timed now (tagged j []))" using inv by simp
  note i = push_fold_inv [OF this dw f]
  have "pc_dwell ?p2 = pc_dwell p1 \<and> pc_queue ?p2 = pc_queue p1 \<and> pc_shown ?p2 = pc_shown p1"
    by (simp add: safe_emit_def no_slot_def)
  then have "pace_inv dwell now ?p2 (P @ tagged j recs) (L @ timed now (tagged j due))"
    using i pace_inv_cong [of ?p2 p1] by blast
  note pr = prune_inv [OF this]
  have push: "pace_push no_slot now j recs p = pace_reschedule now (pace_prune now ?p2)"
    by (simp add: pace_push_def f)
  have "pace_inv dwell now (pace_push no_slot now j recs p) (P @ tagged j recs) (L @ timed now (tagged j due))"
    unfolding push using pr pace_inv_cong [of "pace_reschedule now (pace_prune now ?p2)" "pace_prune now ?p2"] by simp
  moreover have "emitted_of (pace_push no_slot now j recs p) = emitted_of p @ tagged j due"
    using i by (simp add: push emitted_of_def safe_emit_def no_slot_def)
  ultimately show ?thesis by blast
qed

lemma pace_inv_later: "pace_inv dwell t p P L \<Longrightarrow> t \<le> now \<Longrightarrow> pace_inv dwell now p P L"
  unfolding pace_inv_def using pace_ok_later by blast

lemma pace_run_inv:
  assumes "pace_run dwell p P L t" and "0 \<le> dwell"
  shows "pace_inv dwell t p P L \<and> (pc_timer p = None \<longleftrightarrow> pc_queue p = [])"
  using assms
proof induction
  case (created t)
  show ?case by (auto simp: new_pacer_def pace_ok_def keys_match_def intro!: pace_invI)
next
  case (pushed p P L t now p' j recs)
  from push_inv [OF pace_inv_later [OF _ pushed(2)] pushed(5)] pushed(4,5) obtain X where
    "emitted_of p' = emitted_of p @ X" "pace_inv dwell now p' (P @ tagged j recs) (L @ timed now X)"
    unfolding pushed(3) by blast
  then show ?case by (simp add: shown_since_def) (simp add: pushed(3) pace_push_def split: prod.split)
next
  case (drained p P L t now p')
  from drain_inv [OF pace_inv_later [OF _ drained(2)]] drained(4,5) obtain X where
    "emitted_of p' = emitted_of p @ X" "pace_inv dwell now p' P (L @ timed now X)"
    unfolding drained(3) by blast
  then show ?case by (simp add: shown_since_def) (simp add: drained(3) pace_drain_def)
qed

text \<open>
  C29: The display skips nothing and is not hasty. For every job, what was shown followed by what
  still waits is exactly what was pushed, in order, but for repetitions of one state; two
  different states are shown at least the dwell (less the tolerance of the timer) apart; and
  while anything waits the timer is set, so nothing waits forever.
\<close>

theorem pacer_shows_every_transition:
  assumes "pace_run dwell p P L t" and "0 \<le> dwell"
  shows "remdups_adj (map snd (of_key k L) @ map jr_state (queue_of p k)) = remdups_adj (of_key k P) \<and>
    spaced (dwell - DUE_TOLERANCE_S) (changes (of_key k L)) \<and>
    (queue_of p k \<noteq> [] \<longrightarrow> pc_timer p \<noteq> None)"
proof -
  note inv = pace_run_inv [OF assms]
  have "queue_of p k = (case dget (pc_queue p) k of None \<Rightarrow> [] | Some rs \<Rightarrow> rs)" by (simp add: queue_of_def dget_or_def)
  moreover have "pc_queue p \<noteq> []" if "queue_of p k \<noteq> []" using that by (auto simp: queue_of_def dget_or_def)
  ultimately show ?thesis using pace_invD(1) [OF conjunct1 [OF inv], of k] inv by (simp add: pace_ok_def)
qed


definition demo_pacer :: "pacer" where
  "demo_pacer = pace_push no_slot (3 / 10) ''js'' [demo_job ''a'' 11 PEND]
     (pace_push no_slot 0 ''js'' [demo_job ''a'' 11 SUBMITTING] (new_pacer 1))"

theorem pacer_shows_every_transition_witness:
  "\<exists>L. pace_run 1 demo_pacer [((''js'', ''a''), SUBMITTING), ((''js'', ''a''), PEND)] L (3 / 10) \<and>
     remdups_adj (map snd (of_key (''js'', ''a'') L) @ map jr_state (queue_of demo_pacer (''js'', ''a''))) = [SUBMITTING, PEND] \<and>
     map jr_state (queue_of demo_pacer (''js'', ''a'')) = [PEND] \<and> pc_timer demo_pacer \<noteq> None"
proof -
  let ?p1 = "pace_push no_slot 0 ''js'' [demo_job ''a'' 11 SUBMITTING] (new_pacer 1)"
  have k: "jr_job_key (demo_job ''a'' 11 st) = ''a''" "jr_state (demo_job ''a'' 11 st) = st" for st
    by (simp_all add: demo_job_def demo_rec_def)
  have r1: "pace_run 1 ?p1 ([] @ tagged ''js'' [demo_job ''a'' 11 SUBMITTING]) ([] @ shown_since 0 (new_pacer 1) ?p1) 0"
    by (rule pace_run.pushed [OF pace_run.created [of 1 0]]) simp_all
  have "pace_run 1 demo_pacer (([] @ tagged ''js'' [demo_job ''a'' 11 SUBMITTING]) @ tagged ''js'' [demo_job ''a'' 11 PEND])
      (([] @ shown_since 0 (new_pacer 1) ?p1) @ shown_since (3 / 10) ?p1 demo_pacer) (3 / 10)"
    by (rule pace_run.pushed [OF r1]) (simp_all add: demo_pacer_def)
  then obtain L where run: "pace_run 1 demo_pacer [((''js'', ''a''), SUBMITTING), ((''js'', ''a''), PEND)] L (3 / 10)"
    by (auto simp: tagged_def k)
  have "map jr_state (queue_of demo_pacer (''js'', ''a'')) = [PEND]"
    by (simp add: demo_pacer_def pace_push_def push_one_def new_pacer_def safe_emit_def no_slot_def k pace_prune_def PRUNE_AT_def
        DUE_TOLERANCE_S_def queue_of_def dget_or_def Let_def)
  with run pacer_shows_every_transition [OF run, of "(''js'', ''a'')"] show ?thesis by fastforce
qed

end
