(* ===== verification/Handlers.thy ===== *)
theory Handlers
  imports JobsetCore
begin

text \<open>
  The handlers of a jobset (\<open>src/lsfmgr/handlers.py\<close>): registration, the evaluation of the jobs
  at every polling cycle, the queue of executions and the workers that drain it.
\<close>

section \<open>State\<close>

definition DEFAULT_START_STATES :: "JobState set" where
  "DEFAULT_START_STATES = {RUN}"

definition DEFAULT_END_STATES :: "JobState set" where
  "DEFAULT_END_STATES = {DONE, EXIT}"

definition MAX_HANDLER_WORKERS :: nat where
  "MAX_HANDLER_WORKERS = 4"

datatype state_spec = NoStates | OneState JobState | SomeStates "JobState list"

definition as_states :: "state_spec \<Rightarrow> JobState set \<Rightarrow> JobState set" where
  "as_states x dflt = (case x of NoStates \<Rightarrow> dflt | OneState s \<Rightarrow> {s} | SomeStates ss \<Rightarrow> set ss)"

record handler_context =
  hc_jobset_id :: jobset_id
  hc_record :: JobRecord
  hc_final :: bool

definition hc_job_id :: "handler_context \<Rightarrow> int option" where
  "hc_job_id c = jr_job_id (hc_record c)"

definition hc_job_key :: "handler_context \<Rightarrow> job_key" where
  "hc_job_key c = jr_job_key (hc_record c)"

definition hc_submit_cwd :: "handler_context \<Rightarrow> string option" where
  "hc_submit_cwd c = jr_submit_cwd (hc_record c)"

record 'd handler_result =
  hr_handler_name :: string
  hr_jobset_id :: jobset_id
  hr_job_key :: job_key
  hr_job_id :: "int option"
  hr_final :: bool
  hr_data :: "'d option"
  hr_error :: "py_error option"

text \<open>The progress of one job with one handler; \<open>PENDING\<close> is the absence of an entry.\<close>

datatype handler_progress = HPending | HRunning | HFinished

text \<open>
  A handler is an object: the queue refers to it after it has been removed. Objects are
  addressed by their position in \<open>hs_objects\<close>; the callback is given where it is executed.
\<close>

record handler =
  h_jobset_id :: jobset_id
  h_name :: string
  h_start_states :: "JobState set"
  h_end_states :: "JobState set"
  h_status :: "(job_key, handler_progress) dict"

type_synonym inflight_key = "jobset_id \<times> string \<times> job_key"

type_synonym queued_run = "nat \<times> JobRecord \<times> bool"

datatype 'd handler_event =
    HandlerFinished jobset_id string "'d handler_result"
  | RemoveRequested jobset_id string
  | Recheck jobset_id string job_key

record 'd hservice =
  hs_objects :: "handler list"
  hs_handlers :: "(jobset_id \<times> string, nat) dict"
  hs_inflight :: "inflight_key set"
  hs_queue :: "queued_run list"
  hs_draining :: nat
  hs_started :: nat
  hs_events :: "'d handler_event list"

definition new_hservice :: "'d hservice" where
  "new_hservice = \<lparr> hs_objects = [], hs_handlers = [], hs_inflight = {}, hs_queue = [], hs_draining = 0, hs_started = 0, hs_events = [] \<rparr>"

section \<open>Registration\<close>

definition add_handler :: "bool \<Rightarrow> jobset_id \<Rightarrow> string \<Rightarrow> state_spec \<Rightarrow> state_spec \<Rightarrow> 'd hservice \<Rightarrow> (unit, 'd hservice) outcome" where
  "add_handler on_main j name start_states end_states s =
     (if \<not> on_main then (Inl LsfmgrError, s)
      else if dhas (hs_handlers s) (j, name) then (Inl ValueError, s)
      else
        (let h = \<lparr> h_jobset_id = j, h_name = name, h_start_states = as_states start_states DEFAULT_START_STATES,
                   h_end_states = as_states end_states DEFAULT_END_STATES, h_status = [] \<rparr>
         in (Inr (), s\<lparr>hs_handlers := dset (j, name) (length (hs_objects s)) (hs_handlers s), hs_objects := hs_objects s @ [h]\<rparr>)))"

definition remove_handler :: "bool \<Rightarrow> jobset_id \<Rightarrow> string \<Rightarrow> 'd hservice \<Rightarrow> 'd hservice" where
  "remove_handler on_main j name s =
     (if \<not> on_main then s\<lparr>hs_events := hs_events s @ [RemoveRequested j name]\<rparr>
      else s\<lparr>hs_handlers := ddel (j, name) (hs_handlers s)\<rparr>)"

definition rearm_status :: "job_key list option \<Rightarrow> handler \<Rightarrow> handler" where
  "rearm_status keys h =
     h\<lparr>h_status := (case keys of None \<Rightarrow> [] | Some ks \<Rightarrow> filter (\<lambda>(k, _). k \<notin> set ks) (h_status h))\<rparr>"

definition on_object :: "nat \<Rightarrow> (handler \<Rightarrow> handler) \<Rightarrow> 'd hservice \<Rightarrow> 'd hservice" where
  "on_object i f s = s\<lparr>hs_objects := (hs_objects s)[i := f (hs_objects s ! i)]\<rparr>"

definition handlers_of :: "jobset_id \<Rightarrow> 'd hservice \<Rightarrow> nat list" where
  "handlers_of j s = map snd (filter (\<lambda>((jsid, _), _). jsid = j) (hs_handlers s))"

definition rearm :: "jobset_id \<Rightarrow> job_key list option \<Rightarrow> 'd hservice \<Rightarrow> 'd hservice" where
  "rearm j keys s = fold (\<lambda>i. on_object i (rearm_status keys)) (handlers_of j s) s"

definition remove_all :: "jobset_id \<Rightarrow> 'd hservice \<Rightarrow> 'd hservice" where
  "remove_all j s =
     fold (remove_handler True j) (map (snd \<circ> fst) (filter (\<lambda>((jsid, _), _). jsid = j) (hs_handlers s))) s"

text \<open>\<open>shutdown\<close> before and after the pool is joined.\<close>

definition handlers_shutdown_begin :: "'d hservice \<Rightarrow> 'd hservice" where
  "handlers_shutdown_begin s = s\<lparr>hs_handlers := [], hs_queue := filter (\<lambda>(_, _, final). final) (hs_queue s)\<rparr>"

definition handlers_shutdown_end :: "'d hservice \<Rightarrow> 'd hservice" where
  "handlers_shutdown_end s = s\<lparr>hs_inflight := {}\<rparr>"

section \<open>Evaluation\<close>

definition inflight_key :: "handler \<Rightarrow> job_key \<Rightarrow> inflight_key" where
  "inflight_key h k = (h_jobset_id h, h_name h, k)"

definition status_of :: "handler \<Rightarrow> job_key \<Rightarrow> handler_progress" where
  "status_of h k = dget_or (h_status h) k HPending"

definition set_status :: "job_key \<Rightarrow> handler_progress \<Rightarrow> handler \<Rightarrow> handler" where
  "set_status k p h = h\<lparr>h_status := dset k p (h_status h)\<rparr>"

definition eval_record :: "nat \<Rightarrow> JobRecord \<Rightarrow> 'd hservice \<Rightarrow> 'd hservice" where
  "eval_record i rec s =
     (let h = hs_objects s ! i; k = jr_job_key rec; st = status_of h k;
          in_end = jr_state rec \<in> h_end_states h; in_start = jr_state rec \<in> h_start_states h
      in if st = HFinished \<or> inflight_key h k \<in> hs_inflight s then s
         else if is_terminal (jr_state rec) \<and> \<not> in_end then on_object i (set_status k HFinished) s
         else if st = HPending \<and> \<not> in_start \<and> \<not> in_end then s
         else (on_object i (set_status k (if in_end then HFinished else HRunning)) s)
                \<lparr>hs_inflight := insert (inflight_key h k) (hs_inflight s), hs_queue := hs_queue s @ [(i, rec, in_end)]\<rparr>)"

definition run_cycle :: "JobRecord list \<Rightarrow> nat \<Rightarrow> 'd hservice \<Rightarrow> 'd hservice" where
  "run_cycle recs i s = fold (eval_record i) recs s"

text \<open>\<open>_pump\<close>: start workers for what waits, up to the limit.\<close>

definition pump :: "'d hservice \<Rightarrow> 'd hservice" where
  "pump s =
     (let want = min (MAX_HANDLER_WORKERS - hs_draining s) (length (hs_queue s))
      in s\<lparr>hs_draining := hs_draining s + want, hs_started := hs_started s + want\<rparr>)"

text \<open>\<open>tick\<close>; any exception of the store but a missing jobset skips the cycle.\<close>

definition tick :: "jobset_id \<Rightarrow> py_error + JobRecord list \<Rightarrow> 'd hservice \<Rightarrow> 'd hservice" where
  "tick j read s =
     (let hs = handlers_of j s
      in if hs = [] then s
         else (case read of
                 Inl e \<Rightarrow> if is_LsfmgrError e then remove_all j s else s
               | Inr recs \<Rightarrow> pump (fold (run_cycle recs) hs s)))"

definition on_recheck :: "jobset_id \<Rightarrow> string \<Rightarrow> py_error + JobRecord \<Rightarrow> 'd hservice \<Rightarrow> 'd hservice" where
  "on_recheck j name read s =
     (case dget (hs_handlers s) (j, name) of
        None \<Rightarrow> s
      | Some i \<Rightarrow>
          (case read of
             Inl e \<Rightarrow> s
           | Inr rec \<Rightarrow>
               (if jr_state rec \<in> h_end_states (hs_objects s ! i) \<or> is_terminal (jr_state rec)
                then pump (eval_record i rec s) else s)))"

section \<open>Execution\<close>

text \<open>One turn of \<open>_drain\<close>: the worker takes a run, or ends.\<close>

definition drain_turn :: "'d hservice \<Rightarrow> queued_run option \<times> 'd hservice" where
  "drain_turn s =
     (case hs_queue s of
        [] \<Rightarrow> (None, s\<lparr>hs_draining := hs_draining s - 1\<rparr>)
      | r # q \<Rightarrow> (Some r, s\<lparr>hs_queue := q\<rparr>))"

text \<open>\<open>_run\<close>, with what the callback gave.\<close>

definition run_result :: "handler \<Rightarrow> JobRecord \<Rightarrow> bool \<Rightarrow> py_error + 'd \<Rightarrow> 'd handler_result" where
  "run_result h rec final out =
     \<lparr> hr_handler_name = h_name h, hr_jobset_id = h_jobset_id h, hr_job_key = jr_job_key rec, hr_job_id = jr_job_id rec,
       hr_final = final, hr_data = (case out of Inl e \<Rightarrow> None | Inr d \<Rightarrow> Some d),
       hr_error = (case out of Inl e \<Rightarrow> Some e | Inr d \<Rightarrow> None) \<rparr>"

definition run_end :: "queued_run \<Rightarrow> py_error + 'd \<Rightarrow> 'd hservice \<Rightarrow> 'd hservice" where
  "run_end r out s =
     (case r of (i, rec, final) \<Rightarrow>
        (let h = hs_objects s ! i
         in s\<lparr>hs_inflight := hs_inflight s - {inflight_key h (jr_job_key rec)},
              hs_events := hs_events s @ [HandlerFinished (h_jobset_id h) (h_name h) (run_result h rec final out),
                                          Recheck (h_jobset_id h) (h_name h) (jr_job_key rec)]\<rparr>))"

end
