(* ===== verification/HandlerLaws.thy ===== *)
theory HandlerLaws
  imports Handlers
begin

text \<open>
  What the handlers guarantee under any interleaving of the main thread and the drain workers.
\<close>

section \<open>Interleavings\<close>

datatype handler_log = Queued nat job_key bool | Rearmed "nat set" "job_key list option"

text \<open>The runs in execution, whether the main thread still has to pump, and what it queued and rearmed.\<close>

record 'd hworld =
  hw_s :: "'d hservice"
  hw_running :: "queued_run list"
  hw_due :: bool
  hw_log :: "handler_log list"

definition queued_now :: "nat \<Rightarrow> JobRecord \<Rightarrow> 'd hservice \<Rightarrow> 'd hservice \<Rightarrow> handler_log list" where
  "queued_now i rec s s' =
     (if length (hs_queue s') > length (hs_queue s)
      then [Queued i (jr_job_key rec) (jr_state rec \<in> h_end_states (hs_objects s ! i))] else [])"

inductive hstep :: "'d hworld \<Rightarrow> 'd hworld \<Rightarrow> bool" where
  adds: "add_handler on_main j name ss es (hw_s w) = (r, s') \<Longrightarrow> hstep w (w\<lparr>hw_s := s'\<rparr>)"
| removes: "hstep w (w\<lparr>hw_s := remove_handler on_main j name (hw_s w)\<rparr>)"
| rearms: "hstep w (w\<lparr>hw_s := rearm j keys (hw_s w), hw_log := hw_log w @ [Rearmed (set (handlers_of j (hw_s w))) keys]\<rparr>)"
| evals: "i \<in> snd ` set (hs_handlers (hw_s w)) \<Longrightarrow> s' = eval_record i rec (hw_s w) \<Longrightarrow>
    hstep w (w\<lparr>hw_s := s', hw_due := True, hw_log := hw_log w @ queued_now i rec (hw_s w) s'\<rparr>)"
| pumps: "hstep w (w\<lparr>hw_s := pump (hw_s w), hw_due := False\<rparr>)"
| takes: "length (hw_running w) < hs_draining (hw_s w) \<Longrightarrow> drain_turn (hw_s w) = (Some r, s') \<Longrightarrow>
    hstep w (w\<lparr>hw_s := s', hw_running := hw_running w @ [r]\<rparr>)"
| quits: "length (hw_running w) < hs_draining (hw_s w) \<Longrightarrow> drain_turn (hw_s w) = (None, s') \<Longrightarrow> hstep w (w\<lparr>hw_s := s'\<rparr>)"
| ends: "hw_running w = xs @ r # ys \<Longrightarrow> hstep w (w\<lparr>hw_s := run_end r out (hw_s w), hw_running := xs @ ys\<rparr>)"
| closes: "hstep w (w\<lparr>hw_s := handlers_shutdown_begin (hw_s w)\<rparr>)"

inductive hreach :: "'d hworld \<Rightarrow> bool" where
  created: "hreach \<lparr> hw_s = new_hservice, hw_running = [], hw_due = False, hw_log = [] \<rparr>"
| stepped: "hreach w \<Longrightarrow> hstep w w' \<Longrightarrow> hreach w'"

section \<open>The objects\<close>

text \<open>Handlers keep who they are; only their progress changes.\<close>

definition same_handler :: "handler \<Rightarrow> handler \<Rightarrow> bool" where
  "same_handler h h' \<longleftrightarrow> h_jobset_id h' = h_jobset_id h \<and> h_name h' = h_name h \<and> h_end_states h' = h_end_states h"

definition run_key :: "'d hservice \<Rightarrow> queued_run \<Rightarrow> inflight_key" where
  "run_key s r = inflight_key (hs_objects s ! fst r) (jr_job_key (fst (snd r)))"

definition objects_kept :: "'d hservice \<Rightarrow> 'd hservice \<Rightarrow> bool" where
  "objects_kept s s' \<longleftrightarrow> length (hs_objects s) \<le> length (hs_objects s') \<and>
     (\<forall>i<length (hs_objects s). same_handler (hs_objects s ! i) (hs_objects s' ! i))"

lemma objects_kept_refl [simp]: "hs_objects s' = hs_objects s \<Longrightarrow> objects_kept s s'"
  by (simp add: objects_kept_def same_handler_def)

lemma objects_kept_trans: "objects_kept s s1 \<Longrightarrow> objects_kept s1 s2 \<Longrightarrow> objects_kept s s2"
  by (auto simp: objects_kept_def same_handler_def)

lemma run_key_kept: "objects_kept s s' \<Longrightarrow> fst r < length (hs_objects s) \<Longrightarrow> run_key s' r = run_key s r"
  by (auto simp: objects_kept_def same_handler_def run_key_def inflight_key_def)

lemma on_object_simps [simp]: "hs_handlers (on_object i f s) = hs_handlers s" "hs_inflight (on_object i f s) = hs_inflight s"
  "hs_queue (on_object i f s) = hs_queue s" "hs_draining (on_object i f s) = hs_draining s"
  "length (hs_objects (on_object i f s)) = length (hs_objects s)"
  by (simp_all add: on_object_def)

lemma nth_updated: "j < length xs \<Longrightarrow> xs[i := x] ! j = (if i = j then x else xs ! j)"
  by (cases "i < length xs") (auto simp: nth_list_update)

lemma kept_on_object: "(\<And>h. same_handler h (f h)) \<Longrightarrow> objects_kept s (on_object i f s)"
  by (cases "i < length (hs_objects s)") (auto simp: objects_kept_def on_object_def nth_list_update same_handler_def)

lemma same_set_status [simp]: "same_handler h (set_status k p h)" "same_handler h (rearm_status ks h)"
  by (simp_all add: same_handler_def set_status_def rearm_status_def)

lemma rearm_fold:
  "let s' = fold (\<lambda>i. on_object i (rearm_status keys)) is s
   in objects_kept s s' \<and> hs_handlers s' = hs_handlers s \<and> hs_inflight s' = hs_inflight s \<and> hs_queue s' = hs_queue s \<and>
      hs_draining s' = hs_draining s \<and> length (hs_objects s') = length (hs_objects s) \<and>
      (\<forall>i<length (hs_objects s). hs_objects s' ! i = (if i \<in> set is then rearm_status keys (hs_objects s ! i) else hs_objects s ! i))"
proof (induction "is" arbitrary: s)
  case (Cons i "is")
  let ?s1 = "on_object i (rearm_status keys) s"
  have idem: "rearm_status keys (rearm_status keys h) = rearm_status keys h" for h
    by (simp add: rearm_status_def split: option.split)
  have "objects_kept s ?s1" by (rule kept_on_object) simp
  with Cons.IH [of ?s1] show ?case
    by (auto simp: Let_def on_object_def nth_updated idem intro: objects_kept_trans)
qed (simp add: Let_def)

section \<open>The invariant\<close>

definition hinv :: "'d hservice \<Rightarrow> queued_run list \<Rightarrow> bool \<Rightarrow> bool" where
  "hinv s running due \<longleftrightarrow>
     (let runs = hs_queue s @ running
      in (\<forall>r\<in>set runs. fst r < length (hs_objects s)) \<and> (\<forall>i\<in>snd ` set (hs_handlers s). i < length (hs_objects s)) \<and>
         distinct (map (run_key s) runs) \<and> set (map (run_key s) runs) \<subseteq> hs_inflight s \<and>
         hs_draining s \<le> MAX_HANDLER_WORKERS \<and> length running \<le> hs_draining s \<and>
         (hs_queue s \<noteq> [] \<longrightarrow> hs_draining s > 0 \<or> due))"

lemma hinv_kept:
  assumes inv: "hinv s rn due" and kept: "objects_kept s s'"
    and q: "hs_queue s' = hs_queue s" "hs_inflight s' = hs_inflight s" "hs_draining s' = hs_draining s"
    and h: "\<forall>i\<in>snd ` set (hs_handlers s'). i < length (hs_objects s')"
  shows "hinv s' rn due"
proof -
  have runs: "\<forall>r\<in>set (hs_queue s @ rn). fst r < length (hs_objects s)" using inv by (simp add: hinv_def Let_def)
  then have "map (run_key s') (hs_queue s @ rn) = map (run_key s) (hs_queue s @ rn)"
    using run_key_kept [OF kept] by (intro map_cong) auto
  moreover have "\<forall>r\<in>set (hs_queue s @ rn). fst r < length (hs_objects s')"
    using runs kept unfolding objects_kept_def by (meson order_less_le_trans)
  ultimately show ?thesis using inv h unfolding hinv_def Let_def q by (elim conjE, intro conjI; simp only:)
qed

lemma hinv_due: "hinv s rn due \<Longrightarrow> hinv s rn True"
  by (simp add: hinv_def Let_def)

lemma hinv_handlers: "hinv s rn due \<Longrightarrow> \<forall>i\<in>snd ` set (hs_handlers s). i < length (hs_objects s)"
  by (simp add: hinv_def Let_def)

lemma run_key_cong: "hs_objects s' = hs_objects s \<Longrightarrow> run_key s' = run_key s"
  by (rule ext) (simp add: run_key_def)

definition fresh_run :: "nat \<Rightarrow> JobRecord \<Rightarrow> 'd hservice \<Rightarrow> queued_run" where
  "fresh_run i rec s = (i, rec, jr_state rec \<in> h_end_states (hs_objects s ! i))"

lemma eval_cases:
  "eval_record i rec s = s \<or> eval_record i rec s = on_object i (set_status (jr_job_key rec) HFinished) s \<or>
   status_of (hs_objects s ! i) (jr_job_key rec) \<noteq> HFinished \<and> run_key s (fresh_run i rec s) \<notin> hs_inflight s \<and>
   eval_record i rec s =
     (on_object i (set_status (jr_job_key rec) (if jr_state rec \<in> h_end_states (hs_objects s ! i) then HFinished else HRunning)) s)
       \<lparr>hs_inflight := insert (run_key s (fresh_run i rec s)) (hs_inflight s), hs_queue := hs_queue s @ [fresh_run i rec s]\<rparr>"
  by (simp add: eval_record_def Let_def run_key_def fresh_run_def)

lemma hinv_queue:
  assumes inv: "hinv s rn due" and r: "fst r < length (hs_objects s)" "run_key s r \<notin> hs_inflight s"
  shows "hinv (s\<lparr>hs_inflight := insert (run_key s r) (hs_inflight s), hs_queue := hs_queue s @ [r]\<rparr>) rn True"
proof -
  have key: "run_key (s\<lparr>hs_inflight := a, hs_queue := b\<rparr>) = run_key s" for a b by (rule run_key_cong) simp
  have "run_key s r \<notin> run_key s ` (set (hs_queue s) \<union> set rn)"
    using inv r(2) by (auto simp: hinv_def Let_def)
  with inv r(1) show ?thesis unfolding hinv_def Let_def key by auto
qed

lemma hinv_eval:
  assumes inv: "hinv s rn due" and i: "i < length (hs_objects s)"
  shows "hinv (eval_record i rec s) rn True"
proof -
  let ?k = "jr_job_key rec" and ?r = "fresh_run i rec s"
  let ?p = "if jr_state rec \<in> h_end_states (hs_objects s ! i) then HFinished else HRunning"
  have o: "hinv (on_object i (set_status ?k p) s) rn due" for p
    by (rule hinv_kept [OF inv kept_on_object]) (use hinv_handlers [OF inv] in simp_all)
  have r: "fst ?r = i" by (simp add: fresh_run_def)
  have key: "run_key (on_object i (set_status ?k ?p) s) ?r = run_key s ?r"
    by (rule run_key_kept [OF kept_on_object]) (simp_all add: i r)
  consider "eval_record i rec s = s" | "eval_record i rec s = on_object i (set_status ?k HFinished) s"
    | "run_key s ?r \<notin> hs_inflight s" "eval_record i rec s = (on_object i (set_status ?k ?p) s)
         \<lparr>hs_inflight := insert (run_key s ?r) (hs_inflight s), hs_queue := hs_queue s @ [?r]\<rparr>"
    using eval_cases [of i rec s] by blast
  then show ?thesis
  proof cases
    case 3
    with hinv_queue [OF o [of ?p], of ?r] show ?thesis by (simp only: key r i on_object_simps simp_thms)
  qed (use hinv_due [OF inv] hinv_due [OF o] in simp_all)
qed

lemma remove_handler_keeps: "hs_objects (remove_handler m j n s) = hs_objects s" "hs_queue (remove_handler m j n s) = hs_queue s"
    "hs_inflight (remove_handler m j n s) = hs_inflight s" "hs_draining (remove_handler m j n s) = hs_draining s"
    "set (hs_handlers (remove_handler m j n s)) \<subseteq> set (hs_handlers s)"
  by (auto simp: remove_handler_def AList.delete_eq)

lemma hinv_add:
  assumes inv: "hinv s rn due" and run: "add_handler on_main j name ss es s = (r, s')"
  shows "hinv s' rn due"
proof -
  have up: "snd ` set (dset k v d) \<subseteq> insert v (snd ` set d)" for k v and d :: "(jobset_id \<times> string, nat) dict" by (induction d) auto
  consider "s' = s" | h where "s' = s\<lparr>hs_handlers := dset (j, name) (length (hs_objects s)) (hs_handlers s), hs_objects := hs_objects s @ [h]\<rparr>"
    using run by (auto simp: add_handler_def Let_def split: if_splits)
  then show ?thesis
  proof cases
    case 2
    have "\<forall>i\<in>snd ` set (hs_handlers s'). i < length (hs_objects s')"
      using up [of "(j, name)" "length (hs_objects s)" "hs_handlers s"] hinv_handlers [OF inv] by (fastforce simp: 2)
    moreover have "objects_kept s s'" by (simp add: 2 objects_kept_def nth_append same_handler_def)
    ultimately show ?thesis by (intro hinv_kept [OF inv]) (simp_all add: 2)
  qed (use inv in simp)
qed

lemma hinv_pump:
  assumes "hinv s rn due" shows "hinv (pump s) rn False"
proof -
  have key: "run_key (pump s) = run_key s" by (rule run_key_cong) (simp add: pump_def Let_def)
  show ?thesis
    using assms unfolding hinv_def Let_def key by (simp add: pump_def Let_def) (auto simp: MAX_HANDLER_WORKERS_def)
qed

lemma hinv_take:
  assumes "hinv s rn due" and "length rn < hs_draining s" and t: "drain_turn s = (Some r, s')"
  shows "hinv s' (rn @ [r]) due"
proof -
  from t obtain q where q: "hs_queue s = r # q" "s' = s\<lparr>hs_queue := q\<rparr>" by (auto simp: drain_turn_def split: list.splits)
  have key: "run_key s' = run_key s" by (rule run_key_cong) (simp add: q)
  show ?thesis using assms(1,2) unfolding hinv_def Let_def key by (auto simp: q)
qed

lemma hinv_quit:
  assumes "hinv s rn due" and "length rn < hs_draining s" and t: "drain_turn s = (None, s')"
  shows "hinv s' rn due"
proof -
  from t have q: "hs_queue s = []" "s' = s\<lparr>hs_draining := hs_draining s - 1\<rparr>" by (auto simp: drain_turn_def split: list.splits)
  have key: "run_key s' = run_key s" by (rule run_key_cong) (simp add: q)
  show ?thesis using assms(1,2) unfolding hinv_def Let_def key by (auto simp: q)
qed

lemma hinv_run_end:
  assumes "hinv s (xs @ r # ys) due" shows "hinv (run_end r out s) (xs @ ys) due"
proof -
  let ?s = "run_end r out s"
  have key: "run_key ?s = run_key s" by (rule run_key_cong) (simp add: run_end_def Let_def split: prod.split)
  have s: "hs_inflight ?s = hs_inflight s - {run_key s r}" "hs_queue ?s = hs_queue s" "hs_draining ?s = hs_draining s"
    "hs_objects ?s = hs_objects s" "hs_handlers ?s = hs_handlers s"
    by (simp_all add: run_key_def run_end_def Let_def split: prod.split)
  show ?thesis using assms unfolding hinv_def Let_def key s by auto
qed

lemma hinv_close:
  assumes "hinv s rn due" shows "hinv (handlers_shutdown_begin s) rn due"
proof -
  have key: "run_key (handlers_shutdown_begin s) = run_key s" by (rule run_key_cong) (simp add: handlers_shutdown_begin_def)
  show ?thesis
    using assms unfolding hinv_def Let_def key by (auto simp: handlers_shutdown_begin_def distinct_map_filter)
qed

lemma hinv_step:
  assumes "hstep w w'" and inv: "hinv (hw_s w) (hw_running w) (hw_due w)"
  shows "hinv (hw_s w') (hw_running w') (hw_due w')"
  using assms(1)
proof cases
  case (adds on_main j name ss es r s')
  with hinv_add [OF inv] show ?thesis by simp
next
  case (removes on_main j name)
  have "\<forall>i\<in>snd ` set (hs_handlers (remove_handler on_main j name (hw_s w))). i < length (hs_objects (remove_handler on_main j name (hw_s w)))"
    using remove_handler_keeps(1,5) [of on_main j name "hw_s w"] hinv_handlers [OF inv] by auto
  then show ?thesis unfolding removes by (simp add: hinv_kept [OF inv objects_kept_refl] remove_handler_keeps(1-4))
next
  case (rearms j keys)
  have "hinv (rearm j keys (hw_s w)) (hw_running w) (hw_due w)"
    using rearm_fold [of keys "handlers_of j (hw_s w)" "hw_s w"] hinv_handlers [OF inv]
    by (intro hinv_kept [OF inv]) (simp_all add: rearm_def Let_def)
  then show ?thesis unfolding rearms by simp
next
  case (evals i s' rec)
  then have "i < length (hs_objects (hw_s w))" using hinv_handlers [OF inv] by blast
  from hinv_eval [OF inv this, of rec] evals show ?thesis by simp
next
  case pumps
  with hinv_pump [OF inv] show ?thesis by simp
next
  case (takes r s')
  with hinv_take [OF inv] show ?thesis by simp
next
  case (quits s')
  with hinv_quit [OF inv] show ?thesis by simp
next
  case (ends xs r ys out)
  with hinv_run_end [of "hw_s w" xs r ys "hw_due w" out] inv show ?thesis by simp
next
  case closes
  with hinv_close [OF inv] show ?thesis by simp
qed

section \<open>The final run\<close>

text \<open>Handler \<open>i\<close> has queued its final run for job \<open>k\<close> and was not rearmed for it since.\<close>

definition rearmed :: "nat \<Rightarrow> job_key \<Rightarrow> handler_log list \<Rightarrow> bool" where
  "rearmed i k l \<longleftrightarrow> (\<exists>is keys. Rearmed is keys \<in> set l \<and> i \<in> is \<and> (\<forall>ks. keys = Some ks \<longrightarrow> k \<in> set ks))"

definition final_queued :: "nat \<Rightarrow> job_key \<Rightarrow> handler_log list \<Rightarrow> bool" where
  "final_queued i k l \<longleftrightarrow> (\<exists>a b. l = a @ Queued i k True # b \<and> \<not> rearmed i k b)"

lemma rearmed_append [simp]: "rearmed i k (a @ b) \<longleftrightarrow> rearmed i k a \<or> rearmed i k b"
  by (auto simp: rearmed_def)

lemma final_queued_snoc:
  "final_queued i k (l @ [e]) \<Longrightarrow> e = Queued i k True \<or> final_queued i k l \<and> \<not> rearmed i k [e]"
  unfolding final_queued_def by (elim exE conjE, rename_tac a b, case_tac b rule: rev_cases) auto

definition settled :: "'d hworld \<Rightarrow> bool" where
  "settled w \<longleftrightarrow> (\<forall>i k. final_queued i k (hw_log w) \<longrightarrow>
     i < length (hs_objects (hw_s w)) \<and> status_of (hs_objects (hw_s w) ! i) k = HFinished)"

lemma settledI:
  assumes "settled w" and "hw_log w' = hw_log w"
    and "\<And>i. i < length (hs_objects (hw_s w)) \<Longrightarrow>
      i < length (hs_objects (hw_s w')) \<and> hs_objects (hw_s w') ! i = hs_objects (hw_s w) ! i"
  shows "settled w'"
  using assms by (auto simp: settled_def)

lemma settled_eval:
  assumes "settled w" and i: "i < length (hs_objects (hw_s w))"
  shows "settled (w\<lparr>hw_s := eval_record i rec (hw_s w), hw_due := True,
    hw_log := hw_log w @ queued_now i rec (hw_s w) (eval_record i rec (hw_s w))\<rparr>)"
proof -
  let ?s = "hw_s w" and ?k = "jr_job_key rec" and ?s' = "eval_record i rec (hw_s w)"
  have up: "status_of (set_status k p h) k' = (if k' = k then p else status_of h k')" for k k' p h
    by (simp add: status_of_def set_status_def dget_or_def)
  have len: "length (hs_objects ?s') = length (hs_objects ?s)" using eval_cases [of i rec ?s] by auto
  have st: "status_of (hs_objects ?s ! j) k = HFinished \<Longrightarrow> status_of (hs_objects ?s' ! j) k = HFinished"
    if "j < length (hs_objects ?s)" for j k
    using eval_cases [of i rec ?s] that i by (auto simp: on_object_def nth_list_update up)
  have new: "Queued j k True \<in> set (queued_now i rec ?s ?s') \<Longrightarrow> j = i \<and> k = ?k \<and> status_of (hs_objects ?s' ! i) ?k = HFinished" for j k
    using eval_cases [of i rec ?s] i by (auto simp: queued_now_def on_object_def up split: if_splits)
  have cases: "queued_now i rec ?s ?s' = [] \<or> (\<exists>e. queued_now i rec ?s ?s' = [e])" by (simp add: queued_now_def)
  show ?thesis unfolding settled_def
  proof (intro allI impI)
    fix j k assume f: "final_queued j k (hw_log (w\<lparr>hw_s := ?s', hw_due := True, hw_log := hw_log w @ queued_now i rec ?s ?s'\<rparr>))"
    then have "final_queued j k (hw_log w) \<or> Queued j k True \<in> set (queued_now i rec ?s ?s')"
      using cases by (auto dest: final_queued_snoc)
    then show "j < length (hs_objects (hw_s (w\<lparr>hw_s := ?s', hw_due := True, hw_log := hw_log w @ queued_now i rec ?s ?s'\<rparr>))) \<and>
        status_of (hs_objects (hw_s (w\<lparr>hw_s := ?s', hw_due := True, hw_log := hw_log w @ queued_now i rec ?s ?s'\<rparr>)) ! j) k = HFinished"
      using assms new st by (auto simp: settled_def len)
  qed
qed

lemma dget_filter_key: "P k \<Longrightarrow> dget (filter (\<lambda>(k', _). P k') d) k = dget d k"
  by (induction d) auto

lemma settled_rearm:
  assumes "settled w"
  shows "settled (w\<lparr>hw_s := rearm j keys (hw_s w), hw_log := hw_log w @ [Rearmed (set (handlers_of j (hw_s w))) keys]\<rparr>)"
proof -
  let ?is = "handlers_of j (hw_s w)"
  have keep: "status_of (rearm_status keys h) k = status_of h k" if "\<exists>ks. keys = Some ks \<and> k \<notin> set ks" for h k
    using that by (auto simp: status_of_def rearm_status_def dget_or_def dget_filter_key)
  show ?thesis unfolding settled_def
  proof (intro allI impI)
    fix i k assume "final_queued i k (hw_log (w\<lparr>hw_s := rearm j keys (hw_s w), hw_log := hw_log w @ [Rearmed (set ?is) keys]\<rparr>))"
    then have "final_queued i k (hw_log w)" "i \<notin> set ?is \<or> (\<exists>ks. keys = Some ks \<and> k \<notin> set ks)"
      using final_queued_snoc [of i k "hw_log w"] by (auto simp: rearmed_def)
    with assms rearm_fold [of keys ?is "hw_s w"] keep
    show "i < length (hs_objects (hw_s (w\<lparr>hw_s := rearm j keys (hw_s w), hw_log := hw_log w @ [Rearmed (set ?is) keys]\<rparr>))) \<and>
      status_of (hs_objects (hw_s (w\<lparr>hw_s := rearm j keys (hw_s w), hw_log := hw_log w @ [Rearmed (set ?is) keys]\<rparr>)) ! i) k = HFinished"
      by (auto simp: settled_def rearm_def Let_def)
  qed
qed

lemma settled_step:
  assumes "hstep w w'" and "hinv (hw_s w) (hw_running w) (hw_due w)" and inv: "settled w"
  shows "settled w'"
  using assms(1)
proof cases
  case (adds on_main j name ss es r s')
  then have "\<exists>hs. hs_objects s' = hs_objects (hw_s w) @ hs" by (auto simp: add_handler_def Let_def split: if_splits)
  with adds show ?thesis by (intro settledI [OF inv]) (auto simp: nth_append)
next
  case (evals i s' rec)
  with settled_eval [OF inv, of i rec] hinv_handlers [OF assms(2)] show ?thesis by auto
next
  case (rearms j keys)
  with settled_rearm [OF inv] show ?thesis by simp
qed (auto intro!: settledI [OF inv]
  simp: remove_handler_keeps pump_def Let_def drain_turn_def run_end_def handlers_shutdown_begin_def split: list.splits prod.splits)

lemma hreach_inv:
  assumes "hreach w" shows "hinv (hw_s w) (hw_running w) (hw_due w) \<and> settled w"
  using assms
proof induction
  case created
  show ?case by (simp add: hinv_def new_hservice_def settled_def final_queued_def)
next
  case (stepped w w')
  then show ?case using hinv_step settled_step by blast
qed

lemma step_log:
  assumes "hstep w w'"
  shows "hw_log w' = hw_log w \<or> (\<exists>e. hw_log w' = hw_log w @ [e] \<and>
    (\<forall>i k f. e = Queued i k f \<longrightarrow> status_of (hs_objects (hw_s w) ! i) k \<noteq> HFinished))"
  using assms
proof cases
  case (evals i s' rec)
  with eval_cases [of i rec "hw_s w"] show ?thesis by (auto simp: queued_now_def)
qed auto

section \<open>Properties\<close>

text \<open>
  C30: Executions of one handler on one job never overlap, and none gets lost. In every
  interleaving, also across removal and registration of a handler of the same name, the runs
  that wait and those in execution have different (jobset, handler, job) keys; at most four
  run at a time; and whenever a run waits there is a worker to take it, or the main thread is
  about to start one.
\<close>

theorem handler_runs_never_overlap:
  assumes "hreach w"
  shows "distinct (map (run_key (hw_s w)) (hs_queue (hw_s w) @ hw_running w)) \<and>
    length (hw_running w) \<le> MAX_HANDLER_WORKERS \<and>
    (hs_queue (hw_s w) \<noteq> [] \<longrightarrow> hs_draining (hw_s w) > 0 \<or> hw_due w)"
  using hreach_inv [OF assms] by (auto simp: hinv_def Let_def)

text \<open>
  C31: A handler executes for the end state of a job once. In every interleaving, when the
  final run of a job has been queued, the handler is not queued for this job again, neither
  for another end nor for the start, unless the job was rearmed in between (which a
  resubmission does).
\<close>

theorem handler_final_run_once:
  assumes "hreach w" and "hw_log w = a @ Queued i k True # b @ Queued i k final # c"
  shows "rearmed i k b"
  using assms
proof (induction arbitrary: c)
  case created
  then show ?case by simp
next
  case (stepped w w')
  from step_log [OF stepped.hyps(2)] show ?case
  proof (elim disjE exE conjE)
    assume "hw_log w' = hw_log w"
    with stepped.IH stepped.prems show ?thesis by simp
  next
    fix e assume log: "hw_log w' = hw_log w @ [e]"
      and new: "\<forall>i k f. e = Queued i k f \<longrightarrow> status_of (hs_objects (hw_s w) ! i) k \<noteq> HFinished"
    show ?thesis
    proof (cases c rule: rev_cases)
      case Nil
      with stepped.prems log have "hw_log w = a @ Queued i k True # b" "e = Queued i k final"
        by (simp_all flip: append_assoc append_Cons)
      with new hreach_inv [OF stepped.hyps(1)] show ?thesis unfolding settled_def final_queued_def by blast
    next
      case (snoc c' e')
      with stepped.prems log have "hw_log w = a @ Queued i k True # b @ Queued i k final # c'"
        by (simp flip: append_assoc append_Cons)
      then show ?thesis by (rule stepped.IH)
    qed
  qed
qed

definition hdemo_step :: "nat \<Rightarrow> unit hworld \<Rightarrow> unit hworld" where
  "hdemo_step n w =
     (if n = 0 then w\<lparr>hw_s := snd (add_handler True ''js'' ''h'' NoStates NoStates (hw_s w))\<rparr>
      else if n = 1 \<or> n = 6 then
        w\<lparr>hw_s := eval_record 0 (demo_rec ''a'' DONE) (hw_s w), hw_due := True,
          hw_log := hw_log w @ queued_now 0 (demo_rec ''a'' DONE) (hw_s w) (eval_record 0 (demo_rec ''a'' DONE) (hw_s w))\<rparr>
      else if n = 2 then w\<lparr>hw_s := pump (hw_s w), hw_due := False\<rparr>
      else if n = 3 then
        w\<lparr>hw_s := snd (drain_turn (hw_s w)), hw_running := hw_running w @ [the (fst (drain_turn (hw_s w)))]\<rparr>
      else if n = 4 then w\<lparr>hw_s := run_end (hd (hw_running w)) (Inr ()) (hw_s w), hw_running := tl (hw_running w)\<rparr>
      else w\<lparr>hw_s := rearm ''js'' None (hw_s w), hw_log := hw_log w @ [Rearmed (set (handlers_of ''js'' (hw_s w))) None]\<rparr>)"

definition hdemo :: "nat \<Rightarrow> unit hworld" where
  "hdemo n = fold hdemo_step [0..<n] \<lparr> hw_s = new_hservice, hw_running = [], hw_due = False, hw_log = [] \<rparr>"

lemma hdemo_log: "hw_log (hdemo 7) = [Queued 0 ''a'' True, Rearmed {0} None, Queued 0 ''a'' True]"
  by code_simp

lemma hdemo_facts:
  "0 \<in> snd ` set (hs_handlers (hw_s (hdemo 1)))" "0 \<in> snd ` set (hs_handlers (hw_s (hdemo 6)))"
  "length (hw_running (hdemo 3)) < hs_draining (hw_s (hdemo 3))"
  "fst (drain_turn (hw_s (hdemo 3))) \<noteq> None" "length (hw_running (hdemo 4)) = 1"
  by code_simp+

lemma hdemo_reach: "hreach (hdemo 7)"
proof -
  have up: "hreach (hdemo (Suc n))" if "hreach (hdemo n)" "hstep (hdemo n) (hdemo_step n (hdemo n))" for n
    using stepped [OF that] by (simp add: hdemo_def)
  have "hreach (hdemo 0)" using created by (simp add: hdemo_def)
  then have "hreach (hdemo (Suc 0))" by (rule up) (simp add: hdemo_step_def hstep.adds [OF surjective_pairing])
  then have "hreach (hdemo (Suc 1))"
    by (intro up) (use hstep.evals [OF hdemo_facts(1) refl, of "demo_rec ''a'' DONE"] in \<open>simp_all add: hdemo_step_def\<close>)
  then have "hreach (hdemo (Suc 2))"
    by (intro up) (use hstep.pumps [of "hdemo 2"] in \<open>simp_all add: hdemo_step_def eval_nat_numeral\<close>)
  moreover have "drain_turn (hw_s (hdemo 3)) = (Some (the (fst (drain_turn (hw_s (hdemo 3))))), snd (drain_turn (hw_s (hdemo 3))))"
    using hdemo_facts(4) by (auto simp: prod_eq_iff)
  note hstep.takes [OF hdemo_facts(3) this]
  ultimately have "hreach (hdemo (Suc 3))" by (intro up) (simp_all add: hdemo_step_def eval_nat_numeral)
  moreover from hdemo_facts(5) have "hw_running (hdemo 4) = [] @ hd (hw_running (hdemo 4)) # tl (hw_running (hdemo 4))"
    by (cases "hw_running (hdemo 4)") auto
  note hstep.ends [OF this, of "Inr ()"]
  ultimately have "hreach (hdemo (Suc 4))" by (intro up) (simp_all add: hdemo_step_def eval_nat_numeral)
  then have "hreach (hdemo (Suc 5))"
    by (intro up) (use hstep.rearms [of "hdemo 5" "''js''" None] in \<open>simp_all add: hdemo_step_def eval_nat_numeral\<close>)
  then have "hreach (hdemo (Suc 6))"
    by (intro up) (use hstep.evals [OF hdemo_facts(2) refl, of "demo_rec ''a'' DONE"] in \<open>simp_all add: hdemo_step_def eval_nat_numeral\<close>)
  then show ?thesis by (simp add: eval_nat_numeral)
qed

lemma handler_runs_never_overlap_witness:
  "distinct (map (run_key (hw_s (hdemo 7))) (hs_queue (hw_s (hdemo 7)) @ hw_running (hdemo 7))) \<and> hw_due (hdemo 7)"
proof -
  have "hs_queue (hw_s (hdemo 7)) \<noteq> []" "hw_due (hdemo 7)" by code_simp+
  with handler_runs_never_overlap [OF hdemo_reach] show ?thesis by blast
qed

lemma handler_final_run_once_witness: "rearmed 0 ''a'' [Rearmed {0} None]"
  using handler_final_run_once [OF hdemo_reach, of "[]" 0 "''a''" "[Rearmed {0} None]" True "[]"] hdemo_log by simp

end
