(* ===== verification/Completion.thy ===== *)
theory Completion
  imports Store
begin

text \<open>
  The completion tracker (\<open>src/lsfmgr/completion.py\<close>): when a jobset is reported finished, and
  when the post-processing that came with a submission is armed, dropped and executed.
\<close>

section \<open>State\<close>

text \<open>
  A submission cycle is named by its token. A callback is named by the token of the submission
  that brought it; what it returns is given where it is executed.
\<close>

record pending_arm =
  pa_token :: nat
  pa_post_process :: "nat option"
  pa_poll_interval_s :: "seconds option"

type_synonym post_task = "jobset_id \<times> nat \<times> JobRecord list"

record tracker =
  tr_post_process :: "(jobset_id, nat) dict"
  tr_finished_latch :: "jobset_id set"
  tr_pending_arm :: "(jobset_id, pending_arm) dict"
  tr_pool :: "post_task list"

definition new_tracker :: tracker where
  "new_tracker = \<lparr> tr_post_process = [], tr_finished_latch = {}, tr_pending_arm = [], tr_pool = [] \<rparr>"

section \<open>Arming\<close>

definition stage :: "jobset_id \<Rightarrow> nat \<Rightarrow> nat option \<Rightarrow> seconds option \<Rightarrow> tracker \<Rightarrow> tracker" where
  "stage j token post poll tr =
     tr\<lparr>tr_post_process := ddel j (tr_post_process tr),
        tr_pending_arm := dset j \<lparr> pa_token = token, pa_post_process = post, pa_poll_interval_s = poll \<rparr> (tr_pending_arm tr)\<rparr>"

definition confirm :: "jobset_id \<Rightarrow> nat \<Rightarrow> tracker \<Rightarrow> pending_arm option \<times> tracker" where
  "confirm j token tr =
     (case dget (tr_pending_arm tr) j of
        None \<Rightarrow> (None, tr)
      | Some ent \<Rightarrow>
          (if pa_token ent \<noteq> token then (None, tr)
           else (Some ent,
             tr\<lparr>tr_pending_arm := ddel j (tr_pending_arm tr), tr_finished_latch := tr_finished_latch tr - {j},
                tr_post_process := (case pa_post_process ent of
                  None \<Rightarrow> tr_post_process tr | Some f \<Rightarrow> dset j f (tr_post_process tr))\<rparr>)))"

definition discard_arm :: "jobset_id \<Rightarrow> nat \<Rightarrow> tracker \<Rightarrow> tracker" where
  "discard_arm j token tr =
     (case dget (tr_pending_arm tr) j of
        None \<Rightarrow> tr
      | Some ent \<Rightarrow> (if pa_token ent = token then tr\<lparr>tr_pending_arm := ddel j (tr_pending_arm tr)\<rparr> else tr))"

section \<open>Completion\<close>

definition all_terminal :: "JobRecord list \<Rightarrow> bool" where
  "all_terminal recs \<longleftrightarrow> recs \<noteq> [] \<and> list_all (\<lambda>r. is_terminal (jr_state r)) recs"

datatype 'd completion_event =
    JobsetFinished jobset_id "(string, int) dict"
  | PostStarted jobset_id
  | PostFinished jobset_id "'d option"
  | PostError jobset_id py_error

text \<open>What \<open>maybe_finish\<close> reads of the manager, its submitter, its killer and its store.\<close>

record completion_view =
  cv_shutdown :: bool
  cv_submitting :: bool
  cv_jobs :: "py_error + JobRecord list"
  cv_blocked :: bool
  cv_summary :: "py_error + (string, int) dict"

text \<open>
  \<open>maybe_finish\<close> emits two signals, and the slots of either may call the manager again. Its
  sections are functions: up to the emission of \<open>jobset_finished\<close>, up to that of
  \<open>post_processing_started\<close>, and the rest. The first one gives the summary to emit and the
  post-processing that remains to be started.
\<close>

definition judge_done :: "completion_view \<Rightarrow> jobset_id \<Rightarrow> tracker
    \<Rightarrow> ((string, int) dict option \<times> (nat \<times> JobRecord list) option, tracker) outcome" where
  "judge_done v j tr =
     (if cv_shutdown v \<or> cv_submitting v then (Inr (None, None), tr)
      else (case cv_jobs v of
        Inl e \<Rightarrow>
          (if is_LsfmgrError e
           then (Inr (None, None), tr\<lparr>tr_post_process := ddel j (tr_post_process tr), tr_finished_latch := tr_finished_latch tr - {j}\<rparr>)
           else (Inl e, tr))
      | Inr recs \<Rightarrow>
          (if \<not> all_terminal recs then (Inr (None, None), tr\<lparr>tr_finished_latch := tr_finished_latch tr - {j}\<rparr>)
           else if cv_blocked v then (Inr (None, None), tr)
           else
             (let post = map_option (\<lambda>f. (f, recs)) (dget (tr_post_process tr) j);
                  tr1 = tr\<lparr>tr_post_process := ddel j (tr_post_process tr),
                           tr_finished_latch := (if list_all jr_killed recs then insert j (tr_finished_latch tr) else tr_finished_latch tr)\<rparr>
              in if j \<in> tr_finished_latch tr1 then (Inr (None, post), tr1)
                 else (case cv_summary v of
                         Inl e \<Rightarrow> (if is_LsfmgrError e then (Inr (None, None), tr1) else (Inl e, tr1))
                       | Inr s \<Rightarrow> (Inr (Some s, post), tr1\<lparr>tr_finished_latch := insert j (tr_finished_latch tr1)\<rparr>))))))"

definition post_start :: "bool \<Rightarrow> jobset_id \<Rightarrow> 'd completion_event list" where
  "post_start shut j = (if shut then [] else [PostStarted j])"

definition post_queue :: "bool \<Rightarrow> jobset_id \<Rightarrow> nat \<times> JobRecord list \<Rightarrow> tracker \<Rightarrow> tracker" where
  "post_queue shut j post tr = (if shut then tr else tr\<lparr>tr_pool := tr_pool tr @ [(j, post)]\<rparr>)"

text \<open>\<open>_PostProcessTask.run\<close>, with what the callback gave.\<close>

definition post_run :: "jobset_id \<Rightarrow> py_error + 'd \<Rightarrow> 'd completion_event list" where
  "post_run j out = (case out of Inl e \<Rightarrow> [PostError j e, PostFinished j None] | Inr d \<Rightarrow> [PostFinished j (Some d)])"

definition tracker_forget :: "jobset_id \<Rightarrow> tracker \<Rightarrow> tracker" where
  "tracker_forget j tr =
     tr\<lparr>tr_post_process := ddel j (tr_post_process tr), tr_pending_arm := ddel j (tr_pending_arm tr),
        tr_finished_latch := tr_finished_latch tr - {j}\<rparr>"

end
