(* ===== verification/CompletionLaws.thy ===== *)
theory CompletionLaws
  imports Completion
begin

text \<open>
  What the tracker guarantees under any sequence of submissions, judgements and removals, also
  those made by the slots of its own signals.
\<close>

section \<open>Histories\<close>

text \<open>
  \<open>Taken\<close> is the moment a callback leaves the tracker to be executed; \<open>Reopened\<close> an
  observation of a job that is not terminal, \<open>Gone\<close> one of a jobset that no longer exists, or
  its removal.
\<close>

datatype completion_log =
    Staged jobset_id nat
  | Confirmed jobset_id nat
  | Reopened jobset_id
  | Gone jobset_id
  | Reported jobset_id
  | Taken jobset_id nat "JobRecord list"

record cworld =
  cw_tr :: tracker
  cw_next :: nat
  cw_log :: "completion_log list"

definition judged_log :: "completion_view \<Rightarrow> jobset_id \<Rightarrow> (py_error + (string, int) dict option \<times> (nat \<times> JobRecord list) option)
    \<Rightarrow> completion_log list" where
  "judged_log v j r =
     (if cv_shutdown v \<or> cv_submitting v then []
      else (case cv_jobs v of Inl e \<Rightarrow> (if is_LsfmgrError e then [Gone j] else [])
            | Inr recs \<Rightarrow> (if all_terminal recs then [] else [Reopened j])))
     @ (case r of Inl e \<Rightarrow> []
        | Inr (s, post) \<Rightarrow> (if s = None then [] else [Reported j]) @ (case post of None \<Rightarrow> [] | Some (f, recs) \<Rightarrow> [Taken j f recs]))"

inductive cstep :: "cworld \<Rightarrow> cworld \<Rightarrow> bool" where
  stages: "cstep w (w\<lparr>cw_tr := stage j (cw_next w) (if has then Some (cw_next w) else None) poll (cw_tr w),
      cw_next := Suc (cw_next w), cw_log := cw_log w @ [Staged j (cw_next w)]\<rparr>)"
| confirms: "confirm j token (cw_tr w) = (r, tr') \<Longrightarrow>
    cstep w (w\<lparr>cw_tr := tr', cw_log := cw_log w @ (if r = None then [] else [Confirmed j token])\<rparr>)"
| discards: "cstep w (w\<lparr>cw_tr := discard_arm j token (cw_tr w)\<rparr>)"
| judges: "judge_done v j (cw_tr w) = (r, tr') \<Longrightarrow> cstep w (w\<lparr>cw_tr := tr', cw_log := cw_log w @ judged_log v j r\<rparr>)"
| queues: "cstep w (w\<lparr>cw_tr := post_queue shut j post (cw_tr w)\<rparr>)"
| forgets: "cstep w (w\<lparr>cw_tr := tracker_forget j (cw_tr w), cw_log := cw_log w @ [Gone j]\<rparr>)"

inductive creach :: "cworld \<Rightarrow> bool" where
  created: "creach \<lparr> cw_tr = new_tracker, cw_next = 0, cw_log = [] \<rparr>"
| stepped: "creach w \<Longrightarrow> cstep w w' \<Longrightarrow> creach w'"

section \<open>The invariants\<close>

text \<open>\<open>p\<close> has happened, and \<open>q\<close> not since.\<close>

definition since :: "('e \<Rightarrow> bool) \<Rightarrow> ('e \<Rightarrow> bool) \<Rightarrow> 'e list \<Rightarrow> bool" where
  "since p q l = fold (\<lambda>e s. p e \<or> s \<and> \<not> q e) l False"

lemma since_snoc [simp]: "since p q (l @ [e]) \<longleftrightarrow> p e \<or> since p q l \<and> \<not> q e"
  by (simp add: since_def)

lemma since_Nil [simp]: "\<not> since p q []"
  by (simp add: since_def)

lemma since_append: "list_all (\<lambda>e. \<not> q e) b \<Longrightarrow> since p q l \<Longrightarrow> since p q (l @ b)"
  by (induction b rule: rev_induct) (simp_all flip: append_assoc)

lemma since_split: "p e \<Longrightarrow> \<not> list_ex q b \<Longrightarrow> since p q (a @ e # b)"
  using since_append [of q b p "a @ [e]"] by (simp add: list_ex_iff list_all_iff)

definition reopens :: "jobset_id \<Rightarrow> completion_log \<Rightarrow> bool" where
  "reopens j e \<longleftrightarrow> e = Reopened j \<or> e = Gone j \<or> (\<exists>t. e = Confirmed j t)"

definition drops :: "jobset_id \<Rightarrow> completion_log \<Rightarrow> bool" where
  "drops j e \<longleftrightarrow> e = Gone j \<or> (\<exists>t. e = Staged j t)"

definition taken :: "nat \<Rightarrow> completion_log list \<Rightarrow> bool" where
  "taken f l \<longleftrightarrow> (\<exists>j recs. Taken j f recs \<in> set l)"

definition latch_inv :: "cworld \<Rightarrow> bool" where
  "latch_inv w \<longleftrightarrow> (\<forall>j. since ((=) (Reported j)) (reopens j) (cw_log w) \<longrightarrow> j \<in> tr_finished_latch (cw_tr w))"

lemma latch_step:
  assumes "cstep w w'" and "latch_inv w"
  shows "latch_inv w'"
  using assms
  by cases (auto simp: latch_inv_def stage_def confirm_def discard_arm_def judge_done_def judged_log_def post_queue_def
    tracker_forget_def reopens_def Let_def simp flip: append_assoc split: option.splits if_splits sum.splits)

lemma taken_append [simp]: "taken f (l @ l') \<longleftrightarrow> taken f l \<or> taken f l'"
  by (auto simp: taken_def)

lemma taken_Nil [simp]: "\<not> taken f []"
  by (simp add: taken_def)

lemma taken_Cons [simp]: "taken f (e # l) \<longleftrightarrow> (\<exists>j recs. e = Taken j f recs) \<or> taken f l"
  by (auto simp: taken_def)

definition post_ok :: "completion_log list \<Rightarrow> jobset_id \<Rightarrow> nat \<Rightarrow> bool" where
  "post_ok l j f \<longleftrightarrow> since ((=) (Confirmed j f)) (drops j) l \<and> Staged j f \<in> set l \<and> \<not> taken f l"

definition arm_ok :: "completion_log list \<Rightarrow> nat option \<Rightarrow> jobset_id \<Rightarrow> pending_arm \<Rightarrow> bool" where
  "arm_ok l post j ent \<longleftrightarrow> Staged j (pa_token ent) \<in> set l \<and> \<not> taken (pa_token ent) l \<and>
     (\<forall>f. pa_post_process ent = Some f \<longrightarrow> f = pa_token ent) \<and> post \<noteq> Some (pa_token ent)"

definition names_ok :: "completion_log list \<Rightarrow> nat \<Rightarrow> bool" where
  "names_ok l n \<longleftrightarrow> (\<forall>j f. Staged j f \<in> set l \<longrightarrow> f < n) \<and> (\<forall>f. taken f l \<longrightarrow> f < n) \<and>
     (\<forall>j j' f. Staged j f \<in> set l \<longrightarrow> Staged j' f \<in> set l \<longrightarrow> j' = j)"

definition post_inv :: "cworld \<Rightarrow> bool" where
  "post_inv w \<longleftrightarrow> names_ok (cw_log w) (cw_next w) \<and>
     (\<forall>j f. dget (tr_post_process (cw_tr w)) j = Some f \<longrightarrow> post_ok (cw_log w) j f) \<and>
     (\<forall>j ent. dget (tr_pending_arm (cw_tr w)) j = Some ent \<longrightarrow> arm_ok (cw_log w) (dget (tr_post_process (cw_tr w)) j) j ent)"

lemma post_invI:
  assumes "names_ok (cw_log w) (cw_next w)"
    and "\<And>j f. dget (tr_post_process (cw_tr w)) j = Some f \<Longrightarrow> post_ok (cw_log w) j f"
    and "\<And>j ent. dget (tr_pending_arm (cw_tr w)) j = Some ent \<Longrightarrow> arm_ok (cw_log w) (dget (tr_post_process (cw_tr w)) j) j ent"
  shows "post_inv w"
  using assms by (simp add: post_inv_def)

lemma post_invD:
  assumes "post_inv w"
  shows "names_ok (cw_log w) (cw_next w)"
    and "dget (tr_post_process (cw_tr w)) j = Some f \<Longrightarrow> post_ok (cw_log w) j f"
    and "dget (tr_pending_arm (cw_tr w)) j = Some ent \<Longrightarrow> arm_ok (cw_log w) (dget (tr_post_process (cw_tr w)) j) j ent"
  using assms by (simp_all add: post_inv_def)

lemma post_ok_snoc:
  "post_ok l j f \<Longrightarrow> \<not> drops j e \<Longrightarrow> (\<And>j' recs. e \<noteq> Taken j' f recs) \<Longrightarrow> post_ok (l @ [e]) j f"
  by (auto simp: post_ok_def)

lemma arm_ok_snoc:
  "arm_ok l post j ent \<Longrightarrow> (\<And>j' recs. e \<noteq> Taken j' (pa_token ent) recs) \<Longrightarrow> arm_ok (l @ [e]) post j ent"
  by (auto simp: arm_ok_def)

lemma arm_ok_None: "arm_ok l post j ent \<Longrightarrow> arm_ok l None j ent"
  by (simp add: arm_ok_def)

lemma names_ok_snoc:
  "names_ok l n \<Longrightarrow> (\<And>j f. e \<noteq> Staged j f) \<Longrightarrow> (\<And>j f recs. e = Taken j f recs \<Longrightarrow> f < n) \<Longrightarrow> names_ok (l @ [e]) n"
  by (auto simp: names_ok_def)

text \<open>A step that at most drops callbacks and records an event that neither names nor takes one.\<close>

lemma post_inv_drop:
  assumes inv: "post_inv w"
    and post: "\<And>j f. dget (tr_post_process (cw_tr w')) j = Some f \<Longrightarrow> dget (tr_post_process (cw_tr w)) j = Some f"
    and pend: "\<And>j ent. dget (tr_pending_arm (cw_tr w')) j = Some ent \<Longrightarrow> dget (tr_pending_arm (cw_tr w)) j = Some ent"
    and log: "cw_log w' = cw_log w \<or> (\<exists>e. cw_log w' = cw_log w @ [e] \<and> (\<forall>j f. e \<noteq> Staged j f) \<and> (\<forall>j f recs. e \<noteq> Taken j f recs) \<and>
        (\<forall>j. drops j e \<longrightarrow> dget (tr_post_process (cw_tr w')) j = None))" and "cw_next w' = cw_next w"
  shows "post_inv w'"
proof (rule post_invI)
  show "names_ok (cw_log w') (cw_next w')"
    using log post_invD(1) [OF inv] by (auto simp: assms(5) intro!: names_ok_snoc)
  show "post_ok (cw_log w') j f" if "dget (tr_post_process (cw_tr w')) j = Some f" for j f
    using log post_invD(2) [OF inv post [OF that]] that by (auto intro!: post_ok_snoc)
  show "arm_ok (cw_log w') (dget (tr_post_process (cw_tr w')) j) j ent" if "dget (tr_pending_arm (cw_tr w')) j = Some ent" for j ent
  proof -
    from post_invD(3) [OF inv pend [OF that]] have ok: "arm_ok (cw_log w) (dget (tr_post_process (cw_tr w)) j) j ent" .
    have "dget (tr_post_process (cw_tr w')) j = dget (tr_post_process (cw_tr w)) j \<or> dget (tr_post_process (cw_tr w')) j = None"
      using post [of j] by (cases "dget (tr_post_process (cw_tr w')) j") auto
    with ok arm_ok_None [OF ok] have "arm_ok (cw_log w) (dget (tr_post_process (cw_tr w')) j) j ent" by auto
    then show ?thesis using log arm_ok_snoc by auto
  qed
qed

lemma post_inv_take:
  assumes inv: "post_inv w" and f: "dget (tr_post_process (cw_tr w)) j = Some f"
    and post: "tr_post_process (cw_tr w') = ddel j (tr_post_process (cw_tr w))"
    and pend: "tr_pending_arm (cw_tr w') = tr_pending_arm (cw_tr w)"
    and log: "cw_log w' = cw_log w @ [Taken j f recs]" and "cw_next w' = cw_next w"
  shows "post_inv w'"
proof (rule post_invI)
  have ok: "post_ok (cw_log w) j f" by (rule post_invD(2) [OF inv f])
  then have staged: "Staged j f \<in> set (cw_log w)" by (simp add: post_ok_def)
  have once: "j' = j" if "Staged j' f \<in> set (cw_log w)" for j'
    using post_invD(1) [OF inv] staged that by (auto simp: names_ok_def)
  show "names_ok (cw_log w') (cw_next w')"
    unfolding log assms(6) by (rule names_ok_snoc [OF post_invD(1) [OF inv]])
      (use post_invD(1) [OF inv] staged in \<open>auto simp: names_ok_def\<close>)
  show "post_ok (cw_log w') j' f'" if p: "dget (tr_post_process (cw_tr w')) j' = Some f'" for j' f'
  proof -
    from p have "j' \<noteq> j" "dget (tr_post_process (cw_tr w)) j' = Some f'" by (auto simp: post split: if_splits)
    with post_invD(2) [OF inv] have "post_ok (cw_log w) j' f'" by blast
    with once [of j'] \<open>j' \<noteq> j\<close> show ?thesis unfolding log by (intro post_ok_snoc) (auto simp: drops_def post_ok_def)
  qed
  show "arm_ok (cw_log w') (dget (tr_post_process (cw_tr w')) j') j' ent" if p: "dget (tr_pending_arm (cw_tr w')) j' = Some ent" for j' ent
  proof -
    have a: "arm_ok (cw_log w) (dget (tr_post_process (cw_tr w)) j') j' ent" using p by (intro post_invD(3) [OF inv]) (simp add: pend)
    with once [of j'] f have "pa_token ent \<noteq> f" by (auto simp: arm_ok_def)
    with a arm_ok_None [OF a] show ?thesis unfolding log by (intro arm_ok_snoc) (auto simp: post)
  qed
qed

lemma judge_cases:
  assumes run: "judge_done v j tr = (r, tr')"
  shows "judged_log v j r \<in> {[], [Reopened j], [Reported j]} \<and> tr_post_process tr' \<in> {tr_post_process tr, ddel j (tr_post_process tr)}
    \<or> judged_log v j r = [Gone j] \<and> tr_post_process tr' = ddel j (tr_post_process tr)
    \<or> (\<exists>f recs. dget (tr_post_process tr) j = Some f \<and> all_terminal recs \<and>
          (judged_log v j r = [Taken j f recs] \<or> judged_log v j r = [Reported j] @ [Taken j f recs]) \<and>
          tr_post_process tr' = ddel j (tr_post_process tr))"
proof (cases "cv_shutdown v \<or> cv_submitting v")
  case True
  with run show ?thesis by (auto simp: judge_done_def judged_log_def)
next
  case False
  show ?thesis
  proof (cases "cv_jobs v")
    case (Inl e)
    with run False show ?thesis by (cases "is_LsfmgrError e") (auto simp: judge_done_def judged_log_def)
  next
    case (Inr recs)
    consider "\<not> all_terminal recs" | "all_terminal recs" "cv_blocked v" | "all_terminal recs" "\<not> cv_blocked v" by blast
    then show ?thesis
    proof cases
      case 3
      with run False Inr show ?thesis
        by (cases "dget (tr_post_process tr) j"; cases "cv_summary v"; cases "j \<in> tr_finished_latch tr \<or> list_all jr_killed recs")
          (auto simp: judge_done_def judged_log_def Let_def split: if_splits)
    qed (use run False Inr in \<open>auto simp: judge_done_def judged_log_def\<close>)
  qed
qed

lemma post_inv_judge:
  assumes inv: "post_inv w" and run: "judge_done v j (cw_tr w) = (r, tr')"
  shows "post_inv (w\<lparr>cw_tr := tr', cw_log := cw_log w @ judged_log v j r\<rparr>)" (is "post_inv ?w")
proof -
  let ?post = "tr_post_process (cw_tr w)" and ?l = "judged_log v j r"
  have pend: "tr_pending_arm tr' = tr_pending_arm (cw_tr w)"
    using run by (auto simp: judge_done_def Let_def split: option.splits if_splits sum.splits)
  consider (drop) "?l \<in> {[], [Reopened j], [Reported j]}" "tr_post_process tr' \<in> {?post, ddel j ?post}"
    | (gone) "?l = [Gone j]" "tr_post_process tr' = ddel j ?post"
    | (took) f recs where "dget ?post j = Some f" "?l = [Taken j f recs] \<or> ?l = [Reported j] @ [Taken j f recs]"
       "tr_post_process tr' = ddel j ?post"
    using judge_cases [OF run] by blast
  then show ?thesis
  proof cases
    case drop
    then show ?thesis by (intro post_inv_drop [OF inv]) (auto simp: pend drops_def split: if_splits)
  next
    case gone
    then show ?thesis by (intro post_inv_drop [OF inv]) (auto simp: pend drops_def split: if_splits)
  next
    case (took f recs)
    have "post_inv (w\<lparr>cw_log := cw_log w @ [Reported j]\<rparr>)" by (intro post_inv_drop [OF inv]) (auto simp: drops_def)
    then have w: "post_inv (w\<lparr>cw_log := cw_log w @ l\<rparr>)" if "?l = l @ [Taken j f recs]" for l
      using inv that took(2) by auto
    from took(2) obtain l where l: "?l = l @ [Taken j f recs]" by (metis append_Nil)
    show ?thesis
      by (rule post_inv_take [OF w [OF l], where f = f and j = j and recs = recs]) (simp_all add: took pend l)
  qed
qed

lemma post_inv_stage:
  assumes inv: "post_inv w" and has: "post = None \<or> post = Some (cw_next w)"
  shows "post_inv (w\<lparr>cw_tr := stage j (cw_next w) post poll (cw_tr w), cw_next := Suc (cw_next w), cw_log := cw_log w @ [Staged j (cw_next w)]\<rparr>)"
proof (rule post_invI, goal_cases)
  case 1
  show ?case using post_invD(1) [OF inv] by (fastforce simp: names_ok_def less_Suc_eq)
next
  case (2 j' f)
  then have "j' \<noteq> j" "dget (tr_post_process (cw_tr w)) j' = Some f" by (auto simp: stage_def split: if_splits)
  then show ?case using post_invD(2) [OF inv] by (auto simp: drops_def intro!: post_ok_snoc)
next
  case (3 j' ent)
  have fresh: "\<not> taken (cw_next w) (cw_log w)" using post_invD(1) [OF inv] by (auto simp: names_ok_def)
  from 3 post_invD(3) [OF inv, of j' ent] has fresh show ?case
    by (auto simp: stage_def arm_ok_def split: if_splits)
qed

lemma post_inv_confirm:
  assumes inv: "post_inv w" and run: "confirm j token (cw_tr w) = (Some ent, tr')"
  shows "post_inv (w\<lparr>cw_tr := tr', cw_log := cw_log w @ [Confirmed j token]\<rparr>)"
proof -
  from run have ent: "dget (tr_pending_arm (cw_tr w)) j = Some ent" "pa_token ent = token"
    and tr': "tr_pending_arm tr' = ddel j (tr_pending_arm (cw_tr w))"
    "tr_post_process tr' = (case pa_post_process ent of None \<Rightarrow> tr_post_process (cw_tr w) | Some f \<Rightarrow> dset j f (tr_post_process (cw_tr w)))"
    by (auto simp: confirm_def split: option.splits if_splits)
  from post_invD(3) [OF inv ent(1)] ent(2) have arm: "Staged j token \<in> set (cw_log w)" "\<not> taken token (cw_log w)"
    "\<And>f. pa_post_process ent = Some f \<Longrightarrow> f = token" by (auto simp: arm_ok_def)
  show ?thesis
  proof (rule post_invI, goal_cases)
    case 1
    show ?case using names_ok_snoc [OF post_invD(1) [OF inv], of "Confirmed j token"] by simp
  next
    case (2 j' f)
    then have "f = token \<and> j' = j \<or> dget (tr_post_process (cw_tr w)) j' = Some f"
      using arm(3) by (auto simp: tr' split: option.splits if_splits)
    then show ?case
    proof
      assume "f = token \<and> j' = j"
      with arm show ?thesis by (auto simp: post_ok_def)
    next
      assume "dget (tr_post_process (cw_tr w)) j' = Some f"
      from post_invD(2) [OF inv this] show ?thesis by (auto simp: drops_def intro!: post_ok_snoc)
    qed
  next
    case (3 j' ent')
    then have "j' \<noteq> j" and p: "dget (tr_pending_arm (cw_tr w)) j' = Some ent'" by (auto simp: tr' split: if_splits)
    with post_invD(3) [OF inv p] show ?case by (auto simp: tr' intro!: arm_ok_snoc split: option.splits)
  qed
qed

lemma post_inv_step:
  assumes "cstep w w'" and inv: "post_inv w"
  shows "post_inv w'"
  using assms(1)
proof cases
  case (stages j has poll)
  then show ?thesis using post_inv_stage [OF inv, of "if has then Some (cw_next w) else None" j poll] by simp
next
  case (confirms j token r tr')
  then show ?thesis
  proof (cases r)
    case None
    with confirms have "tr' = cw_tr w" by (auto simp: confirm_def split: option.splits if_splits)
    with confirms None inv show ?thesis by simp
  qed (use post_inv_confirm [OF inv] confirms in auto)
next
  case (discards j token)
  show ?thesis unfolding discards
    by (rule post_inv_drop [OF inv]) (auto simp: discard_arm_def split: option.splits if_splits)
next
  case (judges v j r tr')
  then show ?thesis using post_inv_judge [OF inv] by simp
next
  case (queues shut j post)
  show ?thesis unfolding queues by (rule post_inv_drop [OF inv]) (auto simp: post_queue_def split: if_splits)
next
  case (forgets j)
  show ?thesis unfolding forgets
    by (rule post_inv_drop [OF inv]) (auto simp: tracker_forget_def drops_def split: if_splits)
qed

lemma creach_inv: "creach w \<Longrightarrow> latch_inv w \<and> post_inv w"
proof (induction rule: creach.induct)
  case created
  show ?case by (simp add: latch_inv_def post_inv_def names_ok_def new_tracker_def)
next
  case (stepped w w')
  then show ?case using latch_step post_inv_step by blast
qed

section \<open>Properties\<close>

lemma step_extends: "cstep w w' \<Longrightarrow> \<exists>l. cw_log w' = cw_log w @ l"
  by (cases rule: cstep.cases) auto

text \<open>Every event of a history was recorded by a step from a reachable state.\<close>

lemma recorded_by_step:
  assumes "creach w" and "cw_log w = p @ e # q"
  shows "\<exists>u u' x y. creach u \<and> cstep u u' \<and> cw_log u' = cw_log u @ x @ e # y \<and> p = cw_log u @ x"
  using assms
proof (induction arbitrary: q)
  case (stepped w w')
  from step_extends [OF stepped.hyps(2)] obtain l where l: "cw_log w' = cw_log w @ l" by blast
  with stepped.prems consider us where "cw_log w = p @ us" "us @ l = e # q" | us where "cw_log w @ us = p" "l = us @ e # q"
    by (auto simp: append_eq_append_conv2)
  then show ?case
  proof cases
    case (1 us)
    show ?thesis
    proof (cases us)
      case Nil
      with 1 l have "cw_log w' = cw_log w @ [] @ e # q" "p = cw_log w @ []" by simp_all
      with stepped.hyps show ?thesis by blast
    qed (use 1 stepped.IH in auto)
  next
    case (2 us)
    with stepped.hyps l show ?thesis by auto
  qed
qed simp

lemma step_reports:
  assumes "cstep u u'" and "cw_log u' = cw_log u @ x @ Reported j # y"
  shows "x = [] \<and> j \<notin> tr_finished_latch (cw_tr u)"
  using assms(1)
proof cases
  case (judges v i r tr')
  with assms(2) have l: "judged_log v i r = x @ Reported j # y" by simp
  with judge_cases [OF judges(2)] have "x = []" "i = j" by (auto simp: Cons_eq_append_conv append_eq_Cons_conv)
  moreover from judges(2) l \<open>x = []\<close> have "i \<notin> tr_finished_latch (cw_tr u)"
    by (auto simp: judge_done_def judged_log_def Let_def split: if_splits sum.splits option.splits)
  ultimately show ?thesis by simp
qed (use assms(2) in \<open>auto simp: Cons_eq_append_conv split: if_splits\<close>)

lemma step_takes:
  assumes "cstep u u'" and "cw_log u' = cw_log u @ x @ Taken j f recs # y"
  shows "x \<in> {[], [Reported j]} \<and> dget (tr_post_process (cw_tr u)) j = Some f \<and> all_terminal recs"
  using assms(1)
proof cases
  case (judges v i r tr')
  with assms(2) have l: "judged_log v i r = x @ Taken j f recs # y" by simp
  with judge_cases [OF judges(2)] have "x \<in> {[], [Reported j]}" "dget (tr_post_process (cw_tr u)) j = Some f" "all_terminal recs"
    by (auto simp: Cons_eq_append_conv append_eq_Cons_conv)
  then show ?thesis by simp
qed (use assms(2) in \<open>auto simp: Cons_eq_append_conv split: if_splits\<close>)

text \<open>
  C32: A jobset is reported finished once. However submissions, judgements, removals and their
  notifications interleave, between two reports of the same jobset a job was seen that is not
  terminal, or a new submission of it was confirmed, or the jobset was gone.
\<close>

theorem jobset_finished_once:
  assumes "creach w" and "cw_log w = a @ Reported j # b @ Reported j # c"
  shows "list_ex (reopens j) b"
proof (rule ccontr)
  assume no: "\<not> list_ex (reopens j) b"
  from recorded_by_step [OF assms(1), of "a @ Reported j # b"] assms(2)
  obtain u u' x y where u: "creach u" "cstep u u'" "cw_log u' = cw_log u @ x @ Reported j # y" "a @ Reported j # b = cw_log u @ x"
    by auto
  from step_reports [OF u(2,3)] have "x = []" "j \<notin> tr_finished_latch (cw_tr u)" by simp_all
  moreover have "since ((=) (Reported j)) (reopens j) (a @ Reported j # b)" by (rule since_split [OF refl no])
  ultimately show False using creach_inv [OF u(1)] u(4) by (simp add: latch_inv_def)
qed

text \<open>
  C33: A post-processing is executed at most once, and only for its own cycle. When it is taken
  for execution, all jobs of the jobset are terminal, its submission has been confirmed, and
  since then neither has the jobset been submitted again nor has it gone; it is never taken
  before or after that.
\<close>

theorem post_process_once:
  assumes "creach w" and "cw_log w = a @ Taken j f recs # b"
  shows "all_terminal recs \<and> since ((=) (Confirmed j f)) (drops j) a \<and> \<not> taken f a \<and> \<not> taken f b"
proof -
  have once: "all_terminal recs \<and> since ((=) (Confirmed j f)) (drops j) p \<and> \<not> taken f p"
    if "cw_log w = p @ Taken j f recs # q" for p j recs q
  proof -
    from recorded_by_step [OF assms(1) that]
    obtain u u' x y where u: "creach u" "cstep u u'" "cw_log u' = cw_log u @ x @ Taken j f recs # y" "p = cw_log u @ x" by blast
    from step_takes [OF u(2,3)] have x: "x \<in> {[], [Reported j]}" "dget (tr_post_process (cw_tr u)) j = Some f" "all_terminal recs"
      by simp_all
    from creach_inv [OF u(1)] x(2) have "post_ok (cw_log u) j f" by (simp add: post_inv_def)
    with x show ?thesis unfolding u(4) by (auto simp: post_ok_def drops_def intro!: since_append)
  qed
  have "\<not> taken f b"
  proof
    assume "taken f b"
    then obtain j' recs' x y where "b = x @ Taken j' f recs' # y" by (auto simp: taken_def in_set_conv_decomp)
    with once [of "a @ Taken j f recs # x" j' recs' y] assms(2) show False by simp
  qed
  with once [OF assms(2)] show ?thesis by blast
qed

definition cdemo_view :: "JobRecord list \<Rightarrow> completion_view" where
  "cdemo_view recs = \<lparr> cv_shutdown = False, cv_submitting = False, cv_jobs = Inr recs, cv_blocked = False, cv_summary = Inr [] \<rparr>"

definition cdemo_judge :: "JobRecord list \<Rightarrow> cworld \<Rightarrow> cworld" where
  "cdemo_judge recs w =
     (let (r, tr') = judge_done (cdemo_view recs) ''js'' (cw_tr w)
      in w\<lparr>cw_tr := tr', cw_log := cw_log w @ judged_log (cdemo_view recs) ''js'' r\<rparr>)"

definition cdemo_armed :: cworld where
  "cdemo_armed = \<lparr> cw_tr = snd (confirm ''js'' 0 (stage ''js'' 0 (Some 0) None new_tracker)), cw_next = 1,
     cw_log = [Staged ''js'' 0, Confirmed ''js'' 0] \<rparr>"

definition cdemo :: cworld where
  "cdemo = cdemo_judge [demo_rec ''a'' DONE] (cdemo_judge [demo_rec ''a'' RUN] (cdemo_judge [demo_rec ''a'' DONE] cdemo_armed))"

lemma cdemo_log: "cw_log cdemo =
    [Staged ''js'' 0, Confirmed ''js'' 0, Reported ''js'', Taken ''js'' 0 [demo_rec ''a'' DONE], Reopened ''js'', Reported ''js'']"
  by code_simp

lemma cdemo_reach: "creach cdemo"
proof -
  have judge: "creach (cdemo_judge recs w)" if "creach w" for recs w
    using stepped [OF that] cstep.judges [of "cdemo_view recs" "''js''" w]
    by (cases "judge_done (cdemo_view recs) ''js'' (cw_tr w)") (simp add: cdemo_judge_def)
  define w1 where "w1 = \<lparr> cw_tr = stage ''js'' 0 (Some 0) None new_tracker, cw_next = 1, cw_log = [Staged ''js'' 0] \<rparr>"
  have "creach w1"
    using stepped [OF created cstep.stages [of _ "''js''" True None]] by (simp add: w1_def)
  moreover have c: "confirm ''js'' 0 (cw_tr w1) = (Some \<lparr> pa_token = 0, pa_post_process = Some 0, pa_poll_interval_s = None \<rparr>,
      snd (confirm ''js'' 0 (cw_tr w1)))" by (simp add: w1_def confirm_def stage_def)
  ultimately have "creach cdemo_armed"
    using stepped [OF _ cstep.confirms [OF c]] by (simp add: w1_def cdemo_armed_def)
  then show ?thesis unfolding cdemo_def by (intro judge)
qed

lemma jobset_finished_once_witness:
  "list_ex (reopens ''js'') [Taken ''js'' 0 [demo_rec ''a'' DONE], Reopened ''js'']"
  by (rule jobset_finished_once [OF cdemo_reach, where a = "[Staged ''js'' 0, Confirmed ''js'' 0]" and c = "[]"])
    (simp add: cdemo_log)

lemma post_process_once_witness:
  "all_terminal [demo_rec ''a'' DONE] \<and> \<not> taken 0 [Reopened ''js'', Reported ''js'']"
  using post_process_once [OF cdemo_reach, where a = "[Staged ''js'' 0, Confirmed ''js'' 0, Reported ''js'']"
      and j = "''js''" and f = 0 and recs = "[demo_rec ''a'' DONE]" and b = "[Reopened ''js'', Reported ''js'']"] cdemo_log by simp

end
