(* ===== verification/Manager.thy ===== *)
theory Manager
  imports Submitter Killer Completion Pacer Handlers CommandLayer
begin

text \<open>
  The facade (\<open>src/lsfmgr/manager.py\<close>): the components wired together. This theory holds the
  state, the single points of emission, the relays to the handles and the delivery of the
  components' signals on the main thread. A signal is recorded; what its subscribers do is
  further operations after it.
\<close>

section \<open>State\<close>

datatype error_text = ErrText string | ErrOf py_error

datatype 'd manager_event =
    SigSubmitStarted jobset_id
  | SigSubmitProgress jobset_id int int
  | SigSubmitFinished jobset_id SubmitReport
  | SigPreSubmitStarted jobset_id
  | SigPreSubmitFinished jobset_id bool
  | SigJobsetFinished jobset_id "(string, int) dict"
  | SigPostStarted jobset_id
  | SigPostFinished jobset_id "'d option"
  | SigJobsetUpdated jobset_id "(string, int) dict"
  | SigJobsUpdated jobset_id "JobRecord list"
  | SigJobLost jobset_id JobRecord
  | SigKillStarted jobset_id
  | SigKillFinished jobset_id KillReport
  | SigKillProgress jobset_id int int
  | SigKillFailed jobset_id kill_error_msg
  | SigError jobset_id error_text
  | SigHandlerFinished jobset_id string "'d handler_result"
  | HandleSignal nat "'d manager_event"
  | HandleJobsFailed nat "JobRecord list"

datatype poll_request = PollStart jobset_id seconds | PollStop jobset_id | PollNow jobset_id

record handle =
  hd_jobset_id :: jobset_id
  hd_removed :: bool

text \<open>A jobset is named by a handle or by its id.\<close>

datatype jobset_ref = HandleRef nat | IdRef jobset_id

record manager_config =
  mc_sub :: sub_config
  mc_defaults :: "(string, py_value) dict"
  mc_poll_interval_s :: seconds
  mc_verify_kill :: bool
  mc_min_state_dwell_s :: seconds

text \<open>
  The store and the querier are shared by the components; \<open>mg_sub\<close> holds the submit gate. Handles
  and kill scopes are objects, addressed by their position. \<open>mg_coord\<close> holds the submissions to
  launch, \<open>mg_polls\<close> the requests to the polling thread, \<open>mg_world\<close> what else the kill tasks work on.
\<close>

record ('w, 'd) manager =
  mg_store :: store
  mg_sub :: sub
  mg_q :: querier
  mg_killer :: "'w killer"
  mg_world :: 'w
  mg_handlers :: "'d hservice"
  mg_completion :: tracker
  mg_pacer :: "pacer option"
  mg_command :: lsf_command
  mg_intervals :: "(jobset_id, seconds) dict"
  mg_revisions :: "(jobset_id, (job_key, nat) dict) dict"
  mg_handles :: "(jobset_id, nat) dict"
  mg_handle_objs :: "handle list"
  mg_scopes :: "KillScope list"
  mg_coord :: "(nat \<times> (job_key \<times> string list) list) list"
  mg_polls :: "poll_request list"
  mg_shutdown :: bool
  mg_next :: nat
  mg_signals :: "'d manager_event list"

text \<open>
  \<open>BulkSubmitter.__init__\<close> and the wiring of \<open>__init__\<close>, on the store that is given; \<open>own\<close>: no
  runner was injected. The command object may refuse its options.
\<close>

definition new_sub :: "store \<Rightarrow> SubmitGate \<Rightarrow> sub" where
  "new_sub s g = \<lparr> sb_store = s, sb_gate = g, sb_heap = [], sb_contexts = [], sb_shutdown = False, sb_pool = [],
     sb_timers = [], sb_forgotten = [], sb_events = [], sb_next = 0 \<rparr>"

definition new_manager :: "bool \<Rightarrow> layer_config \<Rightarrow> manager_config \<Rightarrow> store \<Rightarrow> 'w \<Rightarrow> py_error + ('w, 'd) manager" where
  "new_manager own lcfg cfg s wld =
     ebind (new_lsf_command own lcfg) (\<lambda>c.
       Inr \<lparr> mg_store = s, mg_sub = new_sub s new_SubmitGate, mg_q = new_querier, mg_killer = new_killer, mg_world = wld,
             mg_handlers = new_hservice, mg_completion = new_tracker,
             mg_pacer = (if mc_min_state_dwell_s cfg > 0 then Some (new_pacer (mc_min_state_dwell_s cfg)) else None),
             mg_command = command_note_poll_interval (mc_poll_interval_s cfg) c, mg_intervals = [], mg_revisions = [],
             mg_handles = [], mg_handle_objs = [], mg_scopes = [], mg_coord = [], mg_polls = [], mg_shutdown = False,
             mg_next = 0, mg_signals = [] \<rparr>)"

definition MAX_START_INTERVAL_S :: seconds where
  "MAX_START_INTERVAL_S = 86400"

section \<open>Handles\<close>

text \<open>\<open>_jsid\<close>.\<close>

definition jsid_of :: "jobset_ref \<Rightarrow> ('w, 'd) manager \<Rightarrow> py_error + jobset_id" where
  "jsid_of ref m =
     (case ref of
        IdRef j \<Rightarrow> Inr j
      | HandleRef n \<Rightarrow>
          (if hd_removed (mg_handle_objs m ! n) then Inl JobSetRemovedError else Inr (hd_jobset_id (mg_handle_objs m ! n))))"

definition handle_of :: "jobset_id \<Rightarrow> ('w, 'd) manager \<Rightarrow> nat option" where
  "handle_of j m =
     (case dget (mg_handles m) j of
        None \<Rightarrow> None
      | Some n \<Rightarrow> (if hd_removed (mg_handle_objs m ! n) then None else Some n))"

definition invalidate_handle :: "jobset_id \<Rightarrow> ('w, 'd) manager \<Rightarrow> ('w, 'd) manager" where
  "invalidate_handle j m =
     (case dget (mg_handles m) j of
        None \<Rightarrow> m
      | Some n \<Rightarrow> m\<lparr>mg_handles := ddel j (mg_handles m),
                     mg_handle_objs := (mg_handle_objs m)[n := (mg_handle_objs m ! n)\<lparr>hd_removed := True\<rparr>]\<rparr>)"

definition get_handle :: "jobset_ref \<Rightarrow> ('w, 'd) manager \<Rightarrow> (nat, ('w, 'd) manager) outcome" where
  "get_handle ref m =
     obind (oread (jsid_of ref m) m) (\<lambda>j m.
       case dget (mg_handles m) j of
         Some n \<Rightarrow> (Inr n, m)
       | None \<Rightarrow>
           obind (oread (get_jobset j (mg_store m)) m) (\<lambda>_ m.
             (Inr (length (mg_handle_objs m)),
              m\<lparr>mg_handles := dset j (length (mg_handle_objs m)) (mg_handles m),
                mg_handle_objs := mg_handle_objs m @ [\<lparr> hd_jobset_id = j, hd_removed = False \<rparr>]\<rparr>)))"

section \<open>Emission\<close>

definition record_signal :: "'d manager_event \<Rightarrow> ('w, 'd) manager \<Rightarrow> ('w, 'd) manager" where
  "record_signal e m = m\<lparr>mg_signals := mg_signals m @ [e]\<rparr>"

text \<open>The relay of a signal of jobset \<open>j\<close> to the signal of the same name of its handle.\<close>

definition handle_relay :: "jobset_id \<Rightarrow> 'd manager_event \<Rightarrow> ('w, 'd) manager \<Rightarrow> ('w, 'd) manager" where
  "handle_relay j e m = (case handle_of j m of None \<Rightarrow> m | Some n \<Rightarrow> record_signal (HandleSignal n e) m)"

definition signal :: "jobset_id \<Rightarrow> 'd manager_event \<Rightarrow> ('w, 'd) manager \<Rightarrow> ('w, 'd) manager" where
  "signal j e m = handle_relay j e (record_signal e m)"

text \<open>\<open>jobs_updated\<close> with its slot \<open>_h_jobs_updated\<close>.\<close>

definition h_jobs_updated :: "jobset_id \<Rightarrow> JobRecord list \<Rightarrow> ('w, 'd) manager \<Rightarrow> ('w, 'd) manager" where
  "h_jobs_updated j recs m =
     (case handle_of j m of
        None \<Rightarrow> m
      | Some n \<Rightarrow>
          (let m1 = record_signal (HandleSignal n (SigJobsUpdated j recs)) m;
               failed = filter (\<lambda>r. is_failed (jr_state r)) recs
           in if failed = [] then m1 else record_signal (HandleJobsFailed n failed) m1))"

definition signal_jobs :: "jobset_id \<Rightarrow> JobRecord list \<Rightarrow> ('w, 'd) manager \<Rightarrow> ('w, 'd) manager" where
  "signal_jobs j recs m = h_jobs_updated j recs (record_signal (SigJobsUpdated j recs) m)"

definition emit_summary :: "jobset_id \<Rightarrow> ('w, 'd) manager \<Rightarrow> ('w, 'd) manager" where
  "emit_summary j m =
     (case store_summary j (mg_store m) of Inl e \<Rightarrow> m | Inr s \<Rightarrow> signal j (SigJobsetUpdated j s) m)"

definition current_records :: "jobset_id \<Rightarrow> JobRecord list \<Rightarrow> ('w, 'd) manager \<Rightarrow> JobRecord list" where
  "current_records j recs m =
     (let current = get_jobs_by_keys j (map jr_job_key recs) (mg_store m)
      in filter (\<lambda>r. case dget current (jr_job_key r) of None \<Rightarrow> False | Some c \<Rightarrow> same_execution r c) recs)"

text \<open>The records of a batch that are not older than what was accepted before.\<close>

fun accept :: "JobRecord list \<Rightarrow> (job_key, nat) dict \<Rightarrow> JobRecord list \<times> (job_key, nat) dict" where
  "accept [] revs = ([], revs)"
| "accept (r # rs) revs =
     (if (case dget revs (jr_job_key r) of None \<Rightarrow> False | Some n \<Rightarrow> jr_revision r < n) then accept rs revs
      else (let (acc, revs') = accept rs (dset (jr_job_key r) (jr_revision r) revs) in (r # acc, revs')))"

text \<open>What a call of the pacer emitted; its subscribers run when the call has returned.\<close>

definition on_pacer :: "(pacer \<Rightarrow> pacer) \<Rightarrow> ('w, 'd) manager \<Rightarrow> ('w, 'd) manager" where
  "on_pacer f m =
     (case mg_pacer m of
        None \<Rightarrow> m
      | Some p \<Rightarrow>
          (let p' = f p
           in fold (\<lambda>(j, recs). signal_jobs j recs) (drop (length (pc_emitted p)) (pc_emitted p')) (m\<lparr>mg_pacer := Some p'\<rparr>)))"

abbreviation quiet_slot :: pace_slot where
  "quiet_slot \<equiv> \<lambda>_ _ p. p"

definition emit_jobs :: "clock \<Rightarrow> jobset_id \<Rightarrow> JobRecord list \<Rightarrow> ('w, 'd) manager \<Rightarrow> ('w, 'd) manager" where
  "emit_jobs t j recs m =
     (let cur = current_records j recs m
      in if cur = [] then m
         else
           (let (acc, revs) = accept cur (dget_or (mg_revisions m) j []);
                m1 = m\<lparr>mg_revisions := dset j revs (mg_revisions m)\<rparr>
            in if acc = [] then m1
               else if mg_pacer m1 = None then signal_jobs j acc m1
               else on_pacer (pace_push quiet_slot (ck_mono t) j acc) m1))"

definition relay_jobs_changed :: "clock \<Rightarrow> jobset_id \<Rightarrow> JobRecord list \<Rightarrow> ('w, 'd) manager \<Rightarrow> ('w, 'd) manager" where
  "relay_jobs_changed t j recs m = emit_summary j (emit_jobs t j recs m)"

text \<open>The pacer's timer, when there is one.\<close>

definition pacer_timeout :: "clock \<Rightarrow> ('w, 'd) manager \<Rightarrow> ('w, 'd) manager" where
  "pacer_timeout t = on_pacer (pace_drain quiet_slot (ck_mono t) False)"

section \<open>Tracking\<close>

definition forget_tracking :: "jobset_id \<Rightarrow> job_key list option \<Rightarrow> int list \<Rightarrow> ('w, 'd) manager \<Rightarrow> ('w, 'd) manager" where
  "forget_tracking j keys ids m =
     m\<lparr>mg_handlers := rearm j keys (mg_handlers m), mg_q := forget (mg_store m) j keys (mg_q m),
       mg_command := (if ids = [] then mg_command m else forget_status ids (mg_command m))\<rparr>"

definition pacer_forget :: "clock \<Rightarrow> jobset_id \<Rightarrow> job_key list option \<Rightarrow> ('w, 'd) manager \<Rightarrow> ('w, 'd) manager" where
  "pacer_forget t j keys m = m\<lparr>mg_pacer := map_option (pace_forget (ck_mono t) j keys) (mg_pacer m)\<rparr>"

definition drop_revisions :: "jobset_id \<Rightarrow> job_key list option \<Rightarrow> (jobset_id, (job_key, nat) dict) dict
    \<Rightarrow> (jobset_id, (job_key, nat) dict) dict" where
  "drop_revisions j keys d =
     (case keys of
        None \<Rightarrow> ddel j d
      | Some ks \<Rightarrow>
          (let revs = fold ddel ks (dget_or d j [])
           in if revs = [] then ddel j d else dset j revs d))"

definition forget_paced :: "clock \<Rightarrow> jobset_id \<Rightarrow> job_key list option \<Rightarrow> int list \<Rightarrow> ('w, 'd) manager \<Rightarrow> ('w, 'd) manager" where
  "forget_paced t j keys ids m =
     (let m1 = pacer_forget t j keys m
      in forget_tracking j keys ids (m1\<lparr>mg_revisions := drop_revisions j keys (mg_revisions m1)\<rparr>))"

definition ids_of :: "JobRecord list \<Rightarrow> int list" where
  "ids_of recs = List.map_filter jr_job_id recs"

section \<open>Completion\<close>

definition view_of :: "jobset_id \<Rightarrow> ('w, 'd) manager \<Rightarrow> completion_view" where
  "view_of j m =
     \<lparr> cv_shutdown = mg_shutdown m, cv_submitting = is_active j (mg_sub m), cv_jobs = get_jobs j None (mg_store m),
       cv_blocked = (case get_jobs j None (mg_store m) of Inl e \<Rightarrow> False | Inr recs \<Rightarrow> blocks_completion j recs (mg_killer m)),
       cv_summary = store_summary j (mg_store m) \<rparr>"

text \<open>The signals of the tracker; a callback's exception is an error of the facade.\<close>

fun completion_signal :: "'d completion_event \<Rightarrow> ('w, 'd) manager \<Rightarrow> ('w, 'd) manager" where
  "completion_signal (JobsetFinished j s) = signal j (SigJobsetFinished j s)"
| "completion_signal (PostStarted j) = signal j (SigPostStarted j)"
| "completion_signal (PostFinished j r) = signal j (SigPostFinished j r)"
| "completion_signal (PostError j e) = signal j (SigError j (ErrOf e))"

definition maybe_finish :: "jobset_id \<Rightarrow> ('w, 'd) manager \<Rightarrow> ('w, 'd) manager" where
  "maybe_finish j m =
     (case judge_done (view_of j m) j (mg_completion m) of
        (Inl e, tr) \<Rightarrow> m\<lparr>mg_completion := tr\<rparr>
      | (Inr (s, post), tr) \<Rightarrow>
          (let m1 = m\<lparr>mg_completion := tr\<rparr>;
               m2 = (case s of None \<Rightarrow> m1 | Some s \<Rightarrow> completion_signal (JobsetFinished j s) m1)
           in case post of
                None \<Rightarrow> m2
              | Some p \<Rightarrow>
                  (let m3 = fold completion_signal (post_start (mg_shutdown m2) j) m2
                   in m3\<lparr>mg_completion := post_queue (mg_shutdown m3) j p (mg_completion m3)\<rparr>)))"

definition emit_summary_after_submit :: "jobset_id \<Rightarrow> ('w, 'd) manager \<Rightarrow> ('w, 'd) manager" where
  "emit_summary_after_submit j m =
     (case store_summary j (mg_store m) of
        Inl e \<Rightarrow> m
      | Inr s \<Rightarrow> maybe_finish j (signal j (SigJobsetUpdated j s) m))"

end
