(* ===== verification/ManagerOps.thy ===== *)
theory ManagerOps
  imports Manager
begin

text \<open>
  The operations of the facade (\<open>src/lsfmgr/manager.py\<close>) on the main thread, and the properties
  of the handles (\<open>src/lsfmgr/handle.py\<close>).
\<close>

section \<open>Polling and snapshots\<close>

definition mg_start_polling :: "manager_config \<Rightarrow> jobset_ref \<Rightarrow> seconds option \<Rightarrow> ('w, 'd) manager \<Rightarrow> (unit, ('w, 'd) manager) outcome" where
  "mg_start_polling cfg ref interval m =
     obind (oread (jsid_of ref m) m) (\<lambda>j m.
       if mg_shutdown m then (Inr (), m)
       else
         (let eff = (case interval of None \<Rightarrow> mc_poll_interval_s cfg | Some s \<Rightarrow> s)
          in if \<not> (0 < eff \<and> eff \<le> MAX_START_INTERVAL_S) then (Inl ValueError, m)
             else (Inr (), m\<lparr>mg_intervals := dset j eff (mg_intervals m),
                             mg_command := command_note_poll_interval eff (mg_command m),
                             mg_polls := mg_polls m @ [PollStart j eff]\<rparr>)))"

definition mg_stop_polling :: "jobset_ref \<Rightarrow> ('w, 'd) manager \<Rightarrow> (unit, ('w, 'd) manager) outcome" where
  "mg_stop_polling ref m =
     obind (oread (jsid_of ref m) m) (\<lambda>j m.
       (Inr (), m\<lparr>mg_intervals := ddel j (mg_intervals m), mg_polls := mg_polls m @ [PollStop j]\<rparr>))"

definition query_once :: "jobset_ref \<Rightarrow> ('w, 'd) manager \<Rightarrow> (unit, ('w, 'd) manager) outcome" where
  "query_once ref m =
     obind (oread (jsid_of ref m) m) (\<lambda>j m.
       (Inr (), if mg_shutdown m then m else m\<lparr>mg_polls := mg_polls m @ [PollNow j]\<rparr>))"

definition mg_summary :: "jobset_ref \<Rightarrow> ('w, 'd) manager \<Rightarrow> py_error + (string, int) dict" where
  "mg_summary ref m = ebind (jsid_of ref m) (\<lambda>j. store_summary j (mg_store m))"

text \<open>\<open>Counter.update\<close>.\<close>

definition add_counts :: "(string, int) dict \<Rightarrow> (string, int) dict \<Rightarrow> (string, int) dict" where
  "add_counts agg s = fold (\<lambda>(k, n) d. dset k (dget_or d k 0 + n) d) s agg"

definition total_summary :: "('w, 'd) manager \<Rightarrow> (string, int) dict" where
  "total_summary m =
     fold (\<lambda>js agg. case store_summary (jset_jobset_id js) (mg_store m) of Inl e \<Rightarrow> agg | Inr s \<Rightarrow> add_counts agg s)
       (list_jobsets (mg_store m)) []"

definition mg_get_jobs :: "jobset_ref \<Rightarrow> JobState list option \<Rightarrow> ('w, 'd) manager \<Rightarrow> py_error + JobRecord list" where
  "mg_get_jobs ref states m = ebind (jsid_of ref m) (\<lambda>j. get_jobs j states (mg_store m))"

definition is_busy :: "jobset_id \<Rightarrow> ('w, 'd) manager \<Rightarrow> bool" where
  "is_busy j m \<longleftrightarrow> is_active j (mg_sub m) \<or> killer_is_active j (mg_killer m)"

definition is_submitting :: "jobset_ref \<Rightarrow> ('w, 'd) manager \<Rightarrow> py_error + bool" where
  "is_submitting ref m = ebind (jsid_of ref m) (\<lambda>j. Inr (is_active j (mg_sub m)))"

definition submit_state :: "jobset_ref \<Rightarrow> ('w, 'd) manager \<Rightarrow> py_error + SubmitProgress option" where
  "submit_state ref m = ebind (jsid_of ref m) (\<lambda>j. Inr (progress_snapshot j (mg_sub m)))"

definition is_killing :: "jobset_ref \<Rightarrow> ('w, 'd) manager \<Rightarrow> py_error + bool" where
  "is_killing ref m = ebind (jsid_of ref m) (\<lambda>j. Inr (killer_is_active j (mg_killer m)))"

definition kill_state :: "jobset_ref \<Rightarrow> ('w, 'd) manager \<Rightarrow> py_error + KillProgress option" where
  "kill_state ref m = ebind (jsid_of ref m) (\<lambda>j. Inr (kill_snapshot j (mg_killer m)))"

definition mg_fetcher_state :: "('w, 'd) manager \<Rightarrow> FetcherState option" where
  "mg_fetcher_state m = status_fetcher_state (mg_command m)"

definition search_jobsets :: "string option \<Rightarrow> string option \<Rightarrow> datetime option \<Rightarrow> ('w, 'd) manager \<Rightarrow> JobSetRecord list" where
  "search_jobsets tag label since m = store_search tag label since (mg_store m)"

definition mg_list_jobsets :: "('w, 'd) manager \<Rightarrow> JobSetRecord list" where
  "mg_list_jobsets m = list_jobsets (mg_store m)"

section \<open>Delivery of the components' signals\<close>

text \<open>
  A component that works for the facade on the main thread has its signals delivered in the call;
  those of workers come one by one through the event queue. A context's request of a retry timer is
  taken by the submitter itself.
\<close>

definition on_records_reset :: "manager_config \<Rightarrow> jobset_id \<Rightarrow> nat \<Rightarrow> JobRecord list \<Rightarrow> ('w, 'd) manager \<Rightarrow> ('w, 'd) manager" where
  "on_records_reset cfg j token recs m =
     (case confirm j token (mg_completion m) of
        (None, tr) \<Rightarrow> m\<lparr>mg_completion := tr\<rparr>
      | (Some ent, tr) \<Rightarrow>
          (let m1 = m\<lparr>mg_completion := tr\<rparr>;
               cur = current_records j recs m1;
               m2 = (if cur = [] then m1 else forget_tracking j (Some (map jr_job_key cur)) [] m1)
           in case pa_poll_interval_s ent of
                None \<Rightarrow> m2 | Some s \<Rightarrow> snd (mg_start_polling cfg (IdRef j) (Some s) m2)))"

definition on_gate_rejected :: "jobset_id \<Rightarrow> nat \<Rightarrow> ('w, 'd) manager \<Rightarrow> ('w, 'd) manager" where
  "on_gate_rejected j token m = m\<lparr>mg_completion := discard_arm j token (mg_completion m)\<rparr>"

fun deliver_submit :: "manager_config \<Rightarrow> clock \<Rightarrow> submit_event \<Rightarrow> ('w, 'd) manager \<Rightarrow> ('w, 'd) manager" where
  "deliver_submit cfg t (SubStarted c j) m = signal j (SigSubmitStarted j) m"
| "deliver_submit cfg t (SubProgress c j d n) m = signal j (SigSubmitProgress j d n) m"
| "deliver_submit cfg t (SubJobsChanged c j recs) m = relay_jobs_changed t j recs m"
| "deliver_submit cfg t (SubFinished c j rep) m = emit_summary_after_submit j (signal j (SigSubmitFinished j rep) m)"
| "deliver_submit cfg t (SubError c j e) m = signal j (SigError j (ErrText e)) m"
| "deliver_submit cfg t (SubRecordsReset c j token recs) m = on_records_reset cfg j token recs m"
| "deliver_submit cfg t (SubGateRejected c j token) m = on_gate_rejected j token m"
| "deliver_submit cfg t (SubPreSubmitStarted c j) m = signal j (SigPreSubmitStarted j) m"
| "deliver_submit cfg t (SubPreSubmitFinished c j ok) m = signal j (SigPreSubmitFinished j ok) m"
| "deliver_submit cfg t (SubRetryRequested c k) m = m"

text \<open>A call of the submitter on the main thread.\<close>

definition on_sub :: "manager_config \<Rightarrow> clock \<Rightarrow> (sub \<Rightarrow> 'a \<times> sub) \<Rightarrow> ('w, 'd) manager \<Rightarrow> 'a \<times> ('w, 'd) manager" where
  "on_sub cfg t f m =
     (let w = (mg_sub m)\<lparr>sb_store := mg_store m\<rparr>; (r, w') = f w
      in (r, fold (deliver_submit cfg t) (drop (length (sb_events w)) (sb_events w'))
               (m\<lparr>mg_sub := w', mg_store := sb_store w'\<rparr>)))"

definition on_poll_updated :: "clock \<Rightarrow> jobset_id \<Rightarrow> JobRecord list \<Rightarrow> ('w, 'd) manager \<Rightarrow> ('w, 'd) manager" where
  "on_poll_updated t j changed m =
     (if mg_shutdown m then m
      else
        (let m1 = emit_summary j m;
             m2 = (if changed = [] then m1 else emit_jobs t j changed m1)
         in maybe_finish j (m2\<lparr>mg_handlers := tick j (get_jobs j None (mg_store m2)) (mg_handlers m2)\<rparr>)))"

definition on_poll_lost :: "jobset_id \<Rightarrow> JobRecord \<Rightarrow> ('w, 'd) manager \<Rightarrow> ('w, 'd) manager" where
  "on_poll_lost j r m =
     (if \<not> mg_shutdown m \<and> current_records j [r] m \<noteq> [] then record_signal (SigJobLost j r) m else m)"

fun deliver_poll :: "clock \<Rightarrow> poll_event \<Rightarrow> ('w, 'd) manager \<Rightarrow> ('w, 'd) manager" where
  "deliver_poll t (PollUpdated j s changed) m = on_poll_updated t j changed m"
| "deliver_poll t (PollLost j r) m = on_poll_lost j r m"
| "deliver_poll t (PollError j e) m = signal j (SigError j (ErrOf e)) m"

definition emit_kill_failures :: "jobset_id \<Rightarrow> KillReport \<Rightarrow> ('w, 'd) manager \<Rightarrow> ('w, 'd) manager" where
  "emit_kill_failures j rep m = fold (\<lambda>msg. signal j (SigKillFailed j msg)) (krp_errors rep) m"

definition group_changed :: "jobset_id \<Rightarrow> KillReport \<Rightarrow> (jobset_id, JobRecord list) dict" where
  "group_changed j rep =
     (let d1 = fold (\<lambda>r d. dset (jr_jobset_id r) (dget_or d (jr_jobset_id r) [] @ [r]) d) (krp_changed rep) [];
          d2 = fold (\<lambda>i d. dsetdefault i [] d) (krp_jobset_ids rep) d1
      in if j \<noteq> [] then dsetdefault j [] d2 else d2)"

definition emit_updates_after_kill :: "clock \<Rightarrow> jobset_id \<Rightarrow> KillReport \<Rightarrow> ('w, 'd) manager \<Rightarrow> ('w, 'd) manager" where
  "emit_updates_after_kill t j rep m =
     fold (\<lambda>(i, recs) m. maybe_finish i (emit_summary i (if recs = [] then m else emit_jobs t i recs m))) (group_changed j rep) m"

definition on_kill_finished :: "clock \<Rightarrow> jobset_id \<Rightarrow> KillReport \<Rightarrow> ('w, 'd) manager \<Rightarrow> ('w, 'd) manager" where
  "on_kill_finished t j rep m =
     handle_relay j (SigKillFinished j rep)
       (emit_updates_after_kill t j rep (record_signal (SigKillFinished j rep) (emit_kill_failures j rep m)))"

text \<open>What the killer's slot of a completed task works on.\<close>

definition kill_world :: "('w, 'd) manager \<Rightarrow> 'w kworld" where
  "kill_world m =
     \<lparr> kw_m = \<lparr> m_store = mg_store m, m_q = mg_q m, m_env = mg_world m \<rparr>, kw_killer = mg_killer m,
       kw_prog = new_EmitThrottler 0 0, kw_events = [] \<rparr>"

fun deliver_kill :: "clock \<Rightarrow> kill_event \<Rightarrow> ('w, 'd) manager \<Rightarrow> ('w, 'd) manager" where
  "deliver_kill t (KillProgressed j d n) m = signal j (SigKillProgress j d n) m"
| "deliver_kill t (KillErrored j e) m = signal j (SigError j (ErrOf e)) m"
| "deliver_kill t (KillFinished j rep) m = on_kill_finished t j rep m"
| "deliver_kill t (KillCompleted j slot rep) m =
     (let w = finish_activity j slot rep (kill_world m)
      in fold (\<lambda>e m. case e of KillFinished j rep \<Rightarrow> on_kill_finished t j rep m | _ \<Rightarrow> m) (kw_events w)
           (m\<lparr>mg_killer := kw_killer w\<rparr>))"

fun deliver_handler :: "'d handler_event \<Rightarrow> ('w, 'd) manager \<Rightarrow> ('w, 'd) manager" where
  "deliver_handler (HandlerFinished j name res) m = signal j (SigHandlerFinished j name res) m"
| "deliver_handler (RemoveRequested j name) m = m\<lparr>mg_handlers := remove_handler True j name (mg_handlers m)\<rparr>"
| "deliver_handler (Recheck j name key) m =
     m\<lparr>mg_handlers := on_recheck j name (get_job j key (mg_store m)) (mg_handlers m)\<rparr>"

definition deliver_post :: "jobset_id \<Rightarrow> py_error + 'd \<Rightarrow> ('w, 'd) manager \<Rightarrow> ('w, 'd) manager" where
  "deliver_post j out m = fold completion_signal (post_run j out) m"

section \<open>Submission\<close>

text \<open>The \<open>Options\<close> built of the resolved keywords.\<close>

definition options_of :: "(string, py_value) dict \<Rightarrow> Options" where
  "options_of d =
     \<lparr> opt_workers = (case dget d ''workers'' of Some (PyInt n) \<Rightarrow> n | _ \<Rightarrow> opt_workers default_Options),
       opt_max_retry = (case dget d ''max_retry'' of Some (PyInt n) \<Rightarrow> n | _ \<Rightarrow> opt_max_retry default_Options),
       opt_retry_backoff = (case dget d ''retry_backoff'' of Some (PyStr s) \<Rightarrow> s | _ \<Rightarrow> opt_retry_backoff default_Options),
       opt_poll_interval_s = (case dget d ''poll_interval_s'' of Some (PyFloat (Fin x)) \<Rightarrow> x | _ \<Rightarrow> opt_poll_interval_s default_Options),
       opt_auto_poll = (case dget d ''auto_poll'' of Some (PyBool b) \<Rightarrow> b | _ \<Rightarrow> opt_auto_poll default_Options),
       opt_submit_timeout_s = (case dget d ''submit_timeout_s'' of Some (PyFloat (Fin x)) \<Rightarrow> x | _ \<Rightarrow> opt_submit_timeout_s default_Options) \<rparr>"

fun split_commands :: "JobRecord list \<Rightarrow> py_error + (job_key \<times> string list) list" where
  "split_commands [] = Inr []"
| "split_commands (r # rs) =
     ebind (shlex_split (jr_command r)) (\<lambda>argv. ebind (split_commands rs) (\<lambda>l. Inr ((jr_job_key r, argv) # l)))"

text \<open>The guards of \<open>submit\<close>: the options and what to submit.\<close>

definition submit_guard :: "manager_config \<Rightarrow> jobset_ref \<Rightarrow> refs_arg option \<Rightarrow> (string, py_value) dict \<Rightarrow> ('w, 'd) manager
    \<Rightarrow> py_error + (jobset_id \<times> Options \<times> JobRecord list)" where
  "submit_guard cfg ref only kwargs m =
     ebind (jsid_of ref m) (\<lambda>j.
       if mg_shutdown m then Inl (SubmitNotAllowedError j [])
       else ebind (resolve_options (mc_defaults cfg) kwargs) (\<lambda>o1.
            ebind (get_jobset j (mg_store m)) (\<lambda>_.
              if is_busy j m then Inl (SubmitNotAllowedError j [])
              else ebind (submit_targets j only (mg_store m)) (\<lambda>jobs. Inr (j, options_of o1, jobs)))))"

definition mg_submit :: "manager_config \<Rightarrow> clock \<Rightarrow> jobset_ref \<Rightarrow> refs_arg option \<Rightarrow> bool \<Rightarrow> (string, py_value) dict
    \<Rightarrow> ('w, 'd) manager \<Rightarrow> (nat, ('w, 'd) manager) outcome" where
  "mg_submit cfg t ref only post kwargs m =
     obind (oread (submit_guard cfg ref only kwargs m) m) (\<lambda>(j, opts, jobs) m.
     obind (oread (split_commands jobs) m) (\<lambda>keyed m.
       let token = mg_next m;
           m1 = m\<lparr>mg_next := Suc token,
                  mg_completion := stage j token (if post then Some token else None)
                    (if opt_auto_poll opts then Some (opt_poll_interval_s opts) else None) (mg_completion m)\<rparr>;
           (launched, m2) = on_sub cfg t (resubmit_existing (mc_sub cfg) j keyed opts token) m1;
           m3 = (case launched of
                   None \<Rightarrow> m2\<lparr>mg_completion := discard_arm j token (mg_completion m2)\<rparr>
                 | Some c \<Rightarrow> m2\<lparr>mg_coord := mg_coord m2 @ [(c, keyed)]\<rparr>)
       in get_handle (IdRef j) m3))"

definition can_submit :: "jobset_ref \<Rightarrow> refs_arg option \<Rightarrow> ('w, 'd) manager \<Rightarrow> py_error + bool" where
  "can_submit ref only m =
     (case ebind (jsid_of ref m) (\<lambda>j.
             if mg_shutdown m \<or> is_busy j m then Inr False
             else ebind (submit_targets j only (mg_store m)) (\<lambda>_. Inr True)) of
        Inl e \<Rightarrow> (if is_LsfmgrError e \<or> e = ValueError \<or> e = TypeError then Inr False else Inl e)
      | Inr b \<Rightarrow> Inr b)"

definition mg_cancel_submit :: "manager_config \<Rightarrow> clock \<Rightarrow> jobset_ref \<Rightarrow> ('w, 'd) manager \<Rightarrow> (unit, ('w, 'd) manager) outcome" where
  "mg_cancel_submit cfg t ref m =
     obind (oread (jsid_of ref m) m) (\<lambda>j m. (Inr (), snd (on_sub cfg t (\<lambda>w. ((), cancel_submit t j w)) m)))"

text \<open>The event queue's delivery of a worker's signal, and a retry timer that fires.\<close>

definition deliver_queued :: "manager_config \<Rightarrow> clock \<Rightarrow> submit_event \<Rightarrow> ('w, 'd) manager \<Rightarrow> ('w, 'd) manager" where
  "deliver_queued cfg t e m =
     (case e of
        SubRetryRequested c k \<Rightarrow> snd (on_sub cfg t (\<lambda>w. ((), on_retry_requested t c k w)) m)
      | _ \<Rightarrow> deliver_submit cfg t e m)"

definition retry_timeout :: "manager_config \<Rightarrow> clock \<Rightarrow> nat \<Rightarrow> job_key \<Rightarrow> ('w, 'd) manager \<Rightarrow> ('w, 'd) manager" where
  "retry_timeout cfg t c k m = snd (on_sub cfg t (\<lambda>w. ((), retry_fire t c k w)) m)"

section \<open>Kill\<close>

definition new_scope :: "jobset_id \<Rightarrow> job_key list option \<Rightarrow> ('w, 'd) manager \<Rightarrow> nat \<times> ('w, 'd) manager" where
  "new_scope j keys m =
     (length (mg_scopes m),
      m\<lparr>mg_scopes := mg_scopes m @ [kill_scope j keys (sb_next (mg_sub m))],
        mg_sub := (mg_sub m)\<lparr>sb_next := Suc (sb_next (mg_sub m))\<rparr>\<rparr>)"

text \<open>\<open>KillScope.begin\<close> on the main thread: the barrier, then the cancellation of each activity.\<close>

definition begin_scope :: "manager_config \<Rightarrow> clock \<Rightarrow> nat \<Rightarrow> ('w, 'd) manager \<Rightarrow> ('w, 'd) manager" where
  "begin_scope cfg t n m =
     (let (acts, sc', g) = scope_begin (mg_scopes m ! n) (sb_gate (mg_sub m));
          m1 = m\<lparr>mg_scopes := (mg_scopes m)[n := sc'], mg_sub := (mg_sub m)\<lparr>sb_gate := g\<rparr>\<rparr>
      in fold (\<lambda>a m. snd (on_sub cfg t (\<lambda>w. ((), cancel_scope t (ks_keys sc') (act_cycle (snd a)) w)) m)) acts m1)"

definition release_scope :: "nat \<Rightarrow> ('w, 'd) manager \<Rightarrow> ('w, 'd) manager" where
  "release_scope n m =
     (let (sc', g) = scope_release (mg_scopes m ! n) (sb_gate (mg_sub m))
      in m\<lparr>mg_scopes := (mg_scopes m)[n := sc'], mg_sub := (mg_sub m)\<lparr>sb_gate := g\<rparr>\<rparr>)"

definition launch_kill :: "manager_config \<Rightarrow> clock \<Rightarrow> nat option \<Rightarrow> ('w killer \<Rightarrow> bool \<times> 'w killer) \<Rightarrow> ('w, 'd) manager
    \<Rightarrow> bool \<times> ('w, 'd) manager" where
  "launch_kill cfg t sc queue_fn m =
     (let m1 = (case sc of None \<Rightarrow> m | Some n \<Rightarrow> begin_scope cfg t n m);
          (queued, kl) = queue_fn (mg_killer m1);
          m2 = m1\<lparr>mg_killer := kl\<rparr>
      in (queued, if queued then m2 else (case sc of None \<Rightarrow> m2 | Some n \<Rightarrow> release_scope n m2)))"

text \<open>\<open>barrier\<close> gives the task what it calls of a scope object.\<close>

definition queue_kill_jobs :: "(nat \<Rightarrow> 'w kill_barrier) \<Rightarrow> manager_config \<Rightarrow> clock \<Rightarrow> jobset_id \<Rightarrow> string list option
    \<Rightarrow> job_key list option \<Rightarrow> bool \<Rightarrow> nat option \<Rightarrow> ('w, 'd) manager \<Rightarrow> ('w, 'd) manager" where
  "queue_kill_jobs barrier cfg t j ids keys verify sc m =
     (let (queued, m1) = launch_kill cfg t sc (kill_jobs ids keys verify j (map_option barrier sc)) m
      in if queued then signal j (SigKillStarted j) m1 else m1)"

text \<open>\<open>_kill_selected\<close> of a known jobset, and with the owners looked up by key.\<close>

definition kill_selected_in :: "(nat \<Rightarrow> 'w kill_barrier) \<Rightarrow> manager_config \<Rightarrow> clock \<Rightarrow> bool \<Rightarrow> jobset_id \<times> job_key list
    \<Rightarrow> ('w, 'd) manager \<Rightarrow> ('w, 'd) manager" where
  "kill_selected_in barrier cfg t verify sel m =
     (case sel of (j, keys) \<Rightarrow>
        (if j = [] then queue_kill_jobs barrier cfg t j None (Some keys) verify None m
         else (let (n, m1) = new_scope j (Some keys) m
               in queue_kill_jobs barrier cfg t j None (Some keys) verify (Some n) m1)))"

definition owners_of :: "job_key list \<Rightarrow> ('w, 'd) manager \<Rightarrow> py_error + (jobset_id, job_key list) dict" where
  "owners_of keys m =
     ebind (find_jobs_by_keys (remdups keys) (mg_store m)) (\<lambda>recs.
       Inr (fold (\<lambda>r d. dset (jr_jobset_id r) (dget_or d (jr_jobset_id r) [] @ [jr_job_key r]) d) recs []))"

definition kill_selected :: "(nat \<Rightarrow> 'w kill_barrier) \<Rightarrow> manager_config \<Rightarrow> clock \<Rightarrow> bool \<Rightarrow> jobset_ref option \<Rightarrow> job_key list
    \<Rightarrow> ('w, 'd) manager \<Rightarrow> (unit, ('w, 'd) manager) outcome" where
  "kill_selected barrier cfg t verify owner keys m =
     (case owner of
        Some ref \<Rightarrow> obind (oread (jsid_of ref m) m) (\<lambda>j m. (Inr (), kill_selected_in barrier cfg t verify (j, keys) m))
      | None \<Rightarrow> obind (oread (owners_of keys m) m) (\<lambda>owners m.
          (Inr (), fold (kill_selected_in barrier cfg t verify) owners m)))"

definition mg_kill :: "(nat \<Rightarrow> 'w kill_barrier) \<Rightarrow> manager_config \<Rightarrow> clock \<Rightarrow> jobset_ref \<Rightarrow> JobState option \<Rightarrow> bool option
    \<Rightarrow> ('w, 'd) manager \<Rightarrow> (unit, ('w, 'd) manager) outcome" where
  "mg_kill barrier cfg t ref only_state verify m =
     obind (oread (jsid_of ref m) m) (\<lambda>j m.
       if mg_shutdown m then (Inr (), m)
       else
         (let v = (case verify of None \<Rightarrow> mc_verify_kill cfg | Some b \<Rightarrow> b)
          in (case only_state of
                Some st \<Rightarrow>
                  (let keys = (case get_jobs j (Some [st]) (mg_store m) of Inl e \<Rightarrow> [] | Inr recs \<Rightarrow> map jr_job_key recs)
                   in kill_selected barrier cfg t v (Some (IdRef j)) keys m)
              | None \<Rightarrow>
                  (let (n, m1) = new_scope j None m;
                       (queued, m2) = launch_kill cfg t (Some n) (kill_jobset j v (Some (barrier n))) m1
                   in (Inr (), if queued then signal j (SigKillStarted j) m2 else m2)))))"

text \<open>
  The first argument of \<open>kill_jobs\<close>: nothing, a jobset, or raw job ids. A list of ids together with
  \<open>job_keys\<close> is taken for a jobset and fails where the barrier is raised, since a list is no key.
\<close>

datatype kill_subject = NoSubject | JobsetSubject jobset_ref | IdSubjects "string list"

datatype keys_arg = KeysText string | KeysList "job_key list"

definition mg_kill_jobs :: "(nat \<Rightarrow> 'w kill_barrier) \<Rightarrow> manager_config \<Rightarrow> clock \<Rightarrow> kill_subject \<Rightarrow> keys_arg option \<Rightarrow> jobset_ref option
    \<Rightarrow> bool option \<Rightarrow> ('w, 'd) manager \<Rightarrow> (unit, ('w, 'd) manager) outcome" where
  "mg_kill_jobs barrier cfg t subj job_keys jobset verify m =
     (if mg_shutdown m then (Inr (), m)
      else
        (let v = (case verify of None \<Rightarrow> mc_verify_kill cfg | Some b \<Rightarrow> b)
         in case (job_keys, subj) of
              (Some (KeysText _), _) \<Rightarrow> (Inl TypeError, m)
            | (Some (KeysList keys), JobsetSubject ref) \<Rightarrow> kill_selected barrier cfg t v (Some ref) keys m
            | (Some (KeysList keys), NoSubject) \<Rightarrow> kill_selected barrier cfg t v jobset keys m
            | (Some (KeysList keys), IdSubjects ids) \<Rightarrow> (Inl TypeError, m)
            | (None, IdSubjects ids) \<Rightarrow>
                obind (oread (case jobset of None \<Rightarrow> Inr [] | Some ref \<Rightarrow> jsid_of ref m) m) (\<lambda>j m.
                  (Inr (), queue_kill_jobs barrier cfg t j (Some ids) None v None m))
            | (None, _) \<Rightarrow> (Inl TypeError, m)))"

section \<open>Editing\<close>

definition on_mstore :: "(store \<Rightarrow> ('a, store) outcome) \<Rightarrow> ('w, 'd) manager \<Rightarrow> ('a, ('w, 'd) manager) outcome" where
  "on_mstore f m = (let (r, s) = f (mg_store m) in (r, m\<lparr>mg_store := s\<rparr>))"

text \<open>What the jobs to build are described by.\<close>

record job_spec =
  js_commands :: commands_arg
  js_job_keys :: "job_key list option"
  js_user_datas :: "user_dict option list option"
  js_work_dir :: "string option"
  js_work_dirs :: "string option list option"

definition build_spec :: "(nat \<Rightarrow> uuid) \<Rightarrow> jobset_id \<Rightarrow> job_spec \<Rightarrow> py_error + JobRecord list" where
  "build_spec fresh j sp =
     build_records fresh j (js_commands sp) (js_job_keys sp) (js_user_datas sp) (js_work_dir sp) (js_work_dirs sp)"

definition mg_create_jobset :: "clock \<Rightarrow> (nat \<Rightarrow> datetime) \<Rightarrow> (nat \<Rightarrow> uuid) \<Rightarrow> jobset_id \<Rightarrow> job_spec \<Rightarrow> string \<Rightarrow> string list \<Rightarrow> int
    \<Rightarrow> ('w, 'd) manager \<Rightarrow> (nat, ('w, 'd) manager) outcome" where
  "mg_create_jobset t now fresh j sp label tags n m =
     obind (oread (build_spec fresh j sp) m) (\<lambda>records m.
     obind (on_mstore (local_create_jobset (ck_wall t) j n label tags (Some j)) m) (\<lambda>_ m.
       if records = [] then get_handle (IdRef j) m
       else (case on_mstore (local_create_jobs now j records) m of
               (Inl e, m1) \<Rightarrow> (Inl e, m1\<lparr>mg_store := store_delete_jobset j (mg_store m1)\<rparr>)
             | (Inr out, m1) \<Rightarrow> get_handle (IdRef j) (relay_jobs_changed t j out m1))))"

definition set_user_data :: "clock \<Rightarrow> jobset_ref \<Rightarrow> job_ref \<Rightarrow> user_dict option \<Rightarrow> ('w, 'd) manager \<Rightarrow> (JobRecord option, ('w, 'd) manager) outcome" where
  "set_user_data t ref r data m =
     obind (oread (jsid_of ref m) m) (\<lambda>j m.
     obind (oread (resolve_refs j (Refs [r]) (mg_store m)) m) (\<lambda>recs m.
     obind (on_mstore (transition (ck_wall t) j (jr_job_key (hd recs)) None None [FUserData data]) m) (\<lambda>new m.
       (Inr new, relay_jobs_changed t j (case new of None \<Rightarrow> [] | Some x \<Rightarrow> [x]) m))))"

definition mg_add_handler :: "bool \<Rightarrow> jobset_ref \<Rightarrow> string \<Rightarrow> state_spec \<Rightarrow> state_spec \<Rightarrow> ('w, 'd) manager \<Rightarrow> (unit, ('w, 'd) manager) outcome" where
  "mg_add_handler on_main ref name ss es m =
     obind (oread (jsid_of ref m) m) (\<lambda>j m.
       if mg_shutdown m then (Inr (), m)
       else obind (oread (get_jobset j (mg_store m)) m) (\<lambda>_ m.
         let (r, h) = add_handler on_main j name ss es (mg_handlers m) in (r, m\<lparr>mg_handlers := h\<rparr>)))"

definition mg_remove_handler :: "bool \<Rightarrow> jobset_ref \<Rightarrow> string \<Rightarrow> ('w, 'd) manager \<Rightarrow> (unit, ('w, 'd) manager) outcome" where
  "mg_remove_handler on_main ref name m =
     obind (oread (jsid_of ref m) m) (\<lambda>j m. (Inr (), m\<lparr>mg_handlers := remove_handler on_main j name (mg_handlers m)\<rparr>))"

text \<open>The names of the states in a summary, with \<open>total\<close> aside.\<close>

definition watchable :: "(string, int) dict \<Rightarrow> bool" where
  "watchable s \<longleftrightarrow> list_ex (\<lambda>(k, n). k \<noteq> ''total'' \<and> n \<noteq> 0 \<and> list_ex (\<lambda>st. state_value st = k \<and> \<not> is_terminal st) all_states) s"

definition resume_polling :: "manager_config \<Rightarrow> jobset_id \<Rightarrow> ('w, 'd) manager \<Rightarrow> (unit, ('w, 'd) manager) outcome" where
  "resume_polling cfg j m =
     (case store_summary j (mg_store m) of
        Inl e \<Rightarrow> (Inr (), m)
      | Inr s \<Rightarrow> (if watchable s then mg_start_polling cfg (IdRef j) (dget (mg_intervals m) j) m else (Inr (), m)))"

definition edit_jobs :: "manager_config \<Rightarrow> clock \<Rightarrow> (nat \<Rightarrow> datetime) \<Rightarrow> (nat \<Rightarrow> uuid) \<Rightarrow> edit_policy \<Rightarrow> bool \<Rightarrow> jobset_ref \<Rightarrow> job_spec
    \<Rightarrow> ('w, 'd) manager \<Rightarrow> (JobRecord list, ('w, 'd) manager) outcome" where
  "edit_jobs cfg t now fresh policy force ref sp m =
     obind (oread (jsid_of ref m) m) (\<lambda>j m.
       if is_busy j m then (Inl (JobEditNotAllowedError j []), m)
       else obind (oread (build_spec fresh j sp) m) (\<lambda>records m.
         if records = [] then (Inr [], m)
         else
           (let before = (if policy = PAdd then []
                          else map (\<lambda>(k, r). (k, jr_job_id r)) (get_jobs_by_keys j (map jr_job_key records) (mg_store m)))
            in obind (on_mstore (local_edit_jobs now j records policy force) m) (\<lambda>changed m.
                 let keys = map jr_job_key changed;
                     gone = List.map_filter (\<lambda>k. case dget before k of Some (Some i) \<Rightarrow> (if i = 0 then None else Some i) | _ \<Rightarrow> None) keys;
                     m1 = (if changed = [] then m
                           else relay_jobs_changed t j changed
                                  (forget_tracking j (Some keys) gone (pacer_forget t j (Some keys) m)))
                 in obind (resume_polling cfg j m1) (\<lambda>_ m. (Inr changed, m))))))"

definition mg_add_jobs :: "manager_config \<Rightarrow> clock \<Rightarrow> (nat \<Rightarrow> datetime) \<Rightarrow> (nat \<Rightarrow> uuid) \<Rightarrow> jobset_ref \<Rightarrow> job_spec
    \<Rightarrow> ('w, 'd) manager \<Rightarrow> (JobRecord list, ('w, 'd) manager) outcome" where
  "mg_add_jobs cfg t now fresh ref sp m = edit_jobs cfg t now fresh PAdd False ref sp m"

definition mg_replace_jobs :: "manager_config \<Rightarrow> clock \<Rightarrow> (nat \<Rightarrow> datetime) \<Rightarrow> (nat \<Rightarrow> uuid) \<Rightarrow> bool \<Rightarrow> jobset_ref \<Rightarrow> job_spec
    \<Rightarrow> ('w, 'd) manager \<Rightarrow> (JobRecord list, ('w, 'd) manager) outcome" where
  "mg_replace_jobs cfg t now fresh force ref sp m = edit_jobs cfg t now fresh PReplace force ref sp m"

definition mg_upsert_jobs :: "manager_config \<Rightarrow> clock \<Rightarrow> (nat \<Rightarrow> datetime) \<Rightarrow> (nat \<Rightarrow> uuid) \<Rightarrow> bool \<Rightarrow> jobset_ref \<Rightarrow> job_spec
    \<Rightarrow> ('w, 'd) manager \<Rightarrow> (JobRecord list, ('w, 'd) manager) outcome" where
  "mg_upsert_jobs cfg t now fresh force ref sp m = edit_jobs cfg t now fresh PUpsert force ref sp m"

definition remove_jobs :: "clock \<Rightarrow> jobset_ref \<Rightarrow> refs_arg \<Rightarrow> bool \<Rightarrow> ('w, 'd) manager \<Rightarrow> (JobRecord list, ('w, 'd) manager) outcome" where
  "remove_jobs t ref refs force m =
     obind (oread (jsid_of ref m) m) (\<lambda>j m.
     obind (oread (resolve_refs j refs (mg_store m)) m) (\<lambda>recs m.
     obind (on_mstore (local_remove_jobs j (map jr_job_key recs) force) m) (\<lambda>removed m.
       (Inr removed, emit_summary j (forget_paced t j (Some (map jr_job_key removed)) (ids_of removed) m)))))"

definition clear_jobs :: "clock \<Rightarrow> jobset_ref \<Rightarrow> bool \<Rightarrow> ('w, 'd) manager \<Rightarrow> (JobRecord list, ('w, 'd) manager) outcome" where
  "clear_jobs t ref force m =
     obind (oread (jsid_of ref m) m) (\<lambda>j m.
     obind (on_mstore (local_clear_jobs j force) m) (\<lambda>removed m.
       (Inr removed, emit_summary j (forget_paced t j None (ids_of removed) m))))"

definition mg_detect_lost :: "clock \<Rightarrow> jobset_ref \<Rightarrow> ('w, 'd) manager \<Rightarrow> (JobRecord list, ('w, 'd) manager) outcome" where
  "mg_detect_lost t ref m =
     obind (oread (jsid_of ref m) m) (\<lambda>j m.
     obind (on_mstore (detect_lost (ck_wall t) j) m) (\<lambda>gone m.
       (Inr gone, if gone = [] then m
                  else fold (\<lambda>r. record_signal (SigJobLost j r)) gone (relay_jobs_changed t j gone m))))"

definition remove_jobset :: "manager_config \<Rightarrow> clock \<Rightarrow> jobset_ref \<Rightarrow> bool \<Rightarrow> ('w, 'd) manager \<Rightarrow> (JobSetRecord, ('w, 'd) manager) outcome" where
  "remove_jobset cfg t ref force m =
     obind (oread (jsid_of ref m) m) (\<lambda>j m.
       if is_busy j m \<and> \<not> force then (Inl (RemoveJobSetNotAllowedError j []), m)
       else
         (let m1 = (if is_busy j m then snd (on_sub cfg t (\<lambda>w. ((), cancel_submit t j w)) m) else m);
              gone = (case get_jobs j None (mg_store m1) of Inl e \<Rightarrow> [] | Inr recs \<Rightarrow> ids_of recs)
          in obind (on_mstore (local_remove_jobset j force) m1) (\<lambda>removed m.
               let m2 = m\<lparr>mg_polls := mg_polls m @ [PollStop j], mg_handlers := remove_all j (mg_handlers m)\<rparr>;
                   m3 = forget_paced t j None gone m2
               in (Inr removed,
                   invalidate_handle j (m3\<lparr>mg_intervals := ddel j (mg_intervals m3),
                     mg_completion := tracker_forget j (mg_completion m3)\<rparr>)))))"

section \<open>Shutdown\<close>

text \<open>
  The steps of \<open>shutdown\<close> after its flag is set, in order. Where a component joins its workers,
  they run between its two steps; each step is made even if another fails.
\<close>

definition shutdown_steps :: "manager_config \<Rightarrow> clock \<Rightarrow> nat list \<Rightarrow> (('w, 'd) manager \<Rightarrow> ('w, 'd) manager) list" where
  "shutdown_steps cfg t contexts =
     [\<lambda>m. on_pacer (pace_stop quiet_slot (ck_mono t)) m,
      \<lambda>m. m\<lparr>mg_handlers := handlers_shutdown_begin (mg_handlers m)\<rparr>,
      \<lambda>m. m\<lparr>mg_handlers := handlers_shutdown_end (mg_handlers m)\<rparr>,
      \<lambda>m. snd (on_sub cfg t (\<lambda>w. ((), shutdown_begin w)) m),
      \<lambda>m. snd (on_sub cfg t (\<lambda>w. ((), shutdown_end t contexts w)) m),
      \<lambda>m. m\<lparr>mg_command := snd (shutdown_status_source (mg_command m))\<rparr>,
      \<lambda>m. m\<lparr>mg_killer := killer_shutdown_begin (mg_killer m)\<rparr>,
      \<lambda>m. m\<lparr>mg_killer := killer_shutdown_end (mg_killer m)\<rparr>,
      \<lambda>m. m\<lparr>mg_command := shutdown_bkill_pool (mg_command m)\<rparr>]"

definition manager_shutdown :: "manager_config \<Rightarrow> clock \<Rightarrow> ('w, 'd) manager \<Rightarrow> ('w, 'd) manager" where
  "manager_shutdown cfg t m =
     (if mg_shutdown m then m else fold (\<lambda>f. f) (shutdown_steps cfg t (dvalues (sb_contexts (mg_sub m)))) (m\<lparr>mg_shutdown := True\<rparr>))"

section \<open>The properties of a handle\<close>

definition handle_summary :: "nat \<Rightarrow> ('w, 'd) manager \<Rightarrow> py_error + (string, int) dict" where
  "handle_summary n m = mg_summary (HandleRef n) m"

text \<open>\<open>JobState(k).is_terminal\<close> for a key of a summary.\<close>

definition terminal_name :: "string \<Rightarrow> bool" where
  "terminal_name k \<longleftrightarrow> list_ex (\<lambda>st. state_value st = k \<and> is_terminal st) all_states"

definition handle_is_done :: "nat \<Rightarrow> ('w, 'd) manager \<Rightarrow> py_error + bool" where
  "handle_is_done n m =
     ebind (handle_summary n m) (\<lambda>s.
       let tot = dget_or s ''total'' 0;
           fin = sum_list (map snd (filter (\<lambda>(k, _). k \<noteq> ''total'' \<and> terminal_name k) s))
       in Inr (tot > 0 \<and> fin \<ge> tot))"

definition handle_is_active :: "nat \<Rightarrow> ('w, 'd) manager \<Rightarrow> py_error + bool" where
  "handle_is_active n m =
     ebind (handle_summary n m) (\<lambda>s. Inr (list_ex (\<lambda>(k, v). v > 0 \<and> k \<noteq> ''total'' \<and> \<not> terminal_name k) s))"

definition handle_is_inactive :: "nat \<Rightarrow> ('w, 'd) manager \<Rightarrow> py_error + bool" where
  "handle_is_inactive n m = ebind (handle_is_active n m) (\<lambda>b. Inr (\<not> b))"

definition handle_failed_jobs :: "nat \<Rightarrow> ('w, 'd) manager \<Rightarrow> py_error + JobRecord list" where
  "handle_failed_jobs n m = mg_get_jobs (HandleRef n) (Some (filter is_failed all_states)) m"

definition handle_is_submitting :: "nat \<Rightarrow> ('w, 'd) manager \<Rightarrow> py_error + bool" where
  "handle_is_submitting n m = is_submitting (HandleRef n) m"

definition handle_submit_state :: "nat \<Rightarrow> ('w, 'd) manager \<Rightarrow> py_error + SubmitProgress option" where
  "handle_submit_state n m = submit_state (HandleRef n) m"

definition handle_is_killing :: "nat \<Rightarrow> ('w, 'd) manager \<Rightarrow> py_error + bool" where
  "handle_is_killing n m = is_killing (HandleRef n) m"

definition handle_kill_state :: "nat \<Rightarrow> ('w, 'd) manager \<Rightarrow> py_error + KillProgress option" where
  "handle_kill_state n m = kill_state (HandleRef n) m"

definition handle_jobs :: "nat \<Rightarrow> JobState list option \<Rightarrow> ('w, 'd) manager \<Rightarrow> py_error + JobRecord list" where
  "handle_jobs n states m = mg_get_jobs (HandleRef n) states m"

end
