(* ===== verification/ManagerLaws.thy ===== *)
theory ManagerLaws
  imports ManagerOps
begin

text \<open>
  What the facade guarantees: what its emissions leave alone, the agreement of \<open>can_submit\<close> and
  \<open>submit\<close>, the barrier of a kill, the removal of a jobset, and what the handles say.
\<close>

section \<open>What emissions leave alone\<close>

text \<open>The store, the submitter, the killer, the kill scopes, the handles and the flag.\<close>

definition core :: "('w, 'd) manager \<Rightarrow> store \<times> sub \<times> 'w killer \<times> KillScope list \<times> handle list \<times> (jobset_id, nat) dict \<times> bool" where
  "core m = (mg_store m, mg_sub m, mg_killer m, mg_scopes m, mg_handle_objs m, mg_handles m, mg_shutdown m)"

lemma core_record [simp]: "core (record_signal e m) = core m"
  by (simp add: core_def record_signal_def)

lemma core_relay [simp]: "core (handle_relay j e m) = core m"
  by (simp add: handle_relay_def split: option.split)

lemma core_signal [simp]: "core (signal j e m) = core m"
  by (simp add: signal_def)

lemma core_jobs [simp]: "core (signal_jobs j recs m) = core m"
  by (simp add: signal_jobs_def h_jobs_updated_def Let_def split: option.split)

lemma core_summary [simp]: "core (emit_summary j m) = core m"
  by (simp add: emit_summary_def split: sum.split)

lemma core_fold: "(\<And>x m. core (f x m) = core m) \<Longrightarrow> core (fold f xs m) = core m"
  by (induction xs arbitrary: m) simp_all

lemma core_pacer [simp]: "core (on_pacer f m) = core m"
proof (cases "mg_pacer m")
  case (Some p)
  have "core (m\<lparr>mg_pacer := q\<rparr>) = core m" for q by (simp add: core_def)
  then have "core (fold (\<lambda>(j, recs). signal_jobs j recs) xs (m\<lparr>mg_pacer := q\<rparr>)) = core m" for xs q
    by (subst core_fold) (simp_all split: prod.split)
  with Some show ?thesis by (simp add: on_pacer_def Let_def)
qed (simp add: on_pacer_def)

lemma core_emit_jobs [simp]: "core (emit_jobs t j recs m) = core m"
proof -
  have "core (m\<lparr>mg_revisions := r\<rparr>) = core m" for r by (simp add: core_def)
  then show ?thesis by (simp add: emit_jobs_def Let_def split: prod.split)
qed

lemma core_relay_jobs [simp]: "core (relay_jobs_changed t j recs m) = core m"
  by (simp add: relay_jobs_changed_def)

lemma core_completion_signal [simp]: "core (completion_signal e m) = core m"
  by (cases e) simp_all

lemma core_completion [simp]: "core (m\<lparr>mg_completion := tr\<rparr>) = core m"
  by (simp add: core_def)

lemma core_maybe_finish [simp]: "core (maybe_finish j m) = core m"
  by (auto simp: maybe_finish_def Let_def core_fold split: prod.split sum.split option.split)

lemma core_forget_tracking [simp]: "core (forget_tracking j keys ids m) = core m"
  by (simp add: core_def forget_tracking_def)

lemma core_start_polling [simp]: "core (snd (mg_start_polling cfg ref s m)) = core m"
  by (auto simp: mg_start_polling_def core_def Let_def split: sum.split option.split)

lemma core_deliver [simp]: "core (deliver_submit cfg t e m) = core m"
  by (cases e) (auto simp: on_records_reset_def on_gate_rejected_def emit_summary_after_submit_def Let_def split: prod.split sum.split option.split)

lemma core_on_sub:
  "core (snd (on_sub cfg t f m)) =
     (let w' = snd (f ((mg_sub m)\<lparr>sb_store := mg_store m\<rparr>))
      in (sb_store w', w', mg_killer m, mg_scopes m, mg_handle_objs m, mg_handles m, mg_shutdown m))"
  by (simp add: on_sub_def Let_def core_fold split: prod.split) (simp add: core_def)

section \<open>Submitting\<close>

lemma resolve_loop_errors:
  "resolve_loop j jobs by_key by_jid refs seen = Inl e \<Longrightarrow> is_LsfmgrError e \<or> e = ValueError \<or> e = TypeError"
proof (induction refs arbitrary: seen)
  case (Cons r refs)
  then show ?case by (auto simp: ebind_eq_Inl split: option.splits if_splits)
qed simp

lemma resolve_refs_errors:
  "resolve_refs j refs s = Inl e \<Longrightarrow> is_LsfmgrError e \<or> e = ValueError \<or> e = TypeError"
  using resolve_loop_errors
  by (fastforce simp: resolve_refs_def ebind_eq_Inl get_jobset_def get_jobs_def split: refs_arg.splits if_splits option.splits)

lemma submit_targets_errors:
  assumes "submit_targets j only s = Inl e"
  shows "is_LsfmgrError e \<or> e = ValueError \<or> e = TypeError"
proof -
  consider "(case only of None \<Rightarrow> ebind (get_jobs j None s) (\<lambda>jobs. Inr (filter (\<lambda>r. jr_array_index r = None) jobs))
      | Some refs \<Rightarrow> resolve_refs j refs s) = Inl e" | "e = ValueError" | ks where "e = SubmitNotAllowedError j ks"
    using assms by (auto simp: submit_targets_def ebind_eq_Inl Let_def split: if_splits)
  then show ?thesis
  proof cases
    case 1
    then show ?thesis using resolve_refs_errors
      by (cases only) (auto simp: ebind_eq_Inl get_jobs_def split: if_splits)
  qed simp_all
qed

lemma submit_targets_jobset:
  "submit_targets j only s = Inr jobs \<Longrightarrow> \<exists>js. get_jobset j s = Inr js"
  by (cases only) (auto simp: submit_targets_def ebind_eq_Inr get_jobs_def resolve_refs_def get_jobset_def dhas_def
      split: refs_arg.splits if_splits option.splits)

text \<open>
  C34: \<open>can_submit\<close> answers for \<open>submit\<close>. It always answers, never raises; with options that are
  valid it says yes exactly when the guards of \<open>submit\<close> let the same request pass; and whenever
  it says no, \<open>submit\<close> raises, whatever the options, and nothing has changed.
\<close>

theorem can_submit_predicts_submit:
  "\<exists>b. can_submit ref only m = Inr b \<and>
     (isl (resolve_options (mc_defaults cfg) kwargs) \<or> b = (\<not> isl (submit_guard cfg ref only kwargs m))) \<and>
     (b \<or> (\<exists>e. mg_submit cfg t ref only post kwargs m = (Inl e, m)))"
proof (cases "jsid_of ref m")
  case (Inl e)
  then have "e = JobSetRemovedError" by (auto simp: jsid_of_def split: jobset_ref.splits if_splits)
  with Inl show ?thesis by (auto simp: can_submit_def submit_guard_def mg_submit_def)
next
  case (Inr j)
  show ?thesis
  proof (cases "submit_targets j only (mg_store m)")
    case (Inl e)
    from submit_targets_errors [OF this] Inl Inr have "can_submit ref only m = Inr False" by (auto simp: can_submit_def)
    moreover have "isl (submit_guard cfg ref only kwargs m)"
      using Inl Inr by (auto simp: submit_guard_def ebind_def split: sum.split)
    ultimately show ?thesis by (cases "submit_guard cfg ref only kwargs m") (auto simp: mg_submit_def)
  next
    case jobs: (Inr jobs)
    from submit_targets_jobset [OF jobs] obtain js where js: "get_jobset j (mg_store m) = Inr js" by blast
    show ?thesis
    proof (cases "mg_shutdown m \<or> is_busy j m")
      case True
      then have "isl (submit_guard cfg ref only kwargs m)" using Inr js by (auto simp: submit_guard_def ebind_def split: sum.split)
      with True Inr show ?thesis
        by (cases "submit_guard cfg ref only kwargs m") (auto simp: mg_submit_def can_submit_def)
    next
      case False
      with Inr jobs have "can_submit ref only m = Inr True" by (simp add: can_submit_def)
      moreover have "isl (submit_guard cfg ref only kwargs m) \<longleftrightarrow> isl (resolve_options (mc_defaults cfg) kwargs)"
        using False Inr js jobs by (cases "resolve_options (mc_defaults cfg) kwargs") (simp_all add: submit_guard_def)
      ultimately show ?thesis by auto
    qed
  qed
qed

section \<open>Killing\<close>

lemma barriers_count [simp]:
  "g_barriers (sb_gate (count_units t n kind changed c w)) = g_barriers (sb_gate w)"
  "sb_next (count_units t n kind changed c w) = sb_next w"
  by (simp_all add: count_units_def finish_if_done_def emit_progress_def drop_ctx_def gate_unregister_def emit_def Let_def
      split: prod.split option.split)

lemma barriers_finalize [simp]:
  "g_barriers (sb_gate (finalize_retry t d c e w)) = g_barriers (sb_gate w)" "sb_next (finalize_retry t d c e w) = sb_next w"
  by (simp_all add: finalize_retry_def on_store_def Let_def split: prod.split sum.split option.split)

lemma barriers_abort:
  "g_barriers (sb_gate (abort_retries t d keys c w)) = g_barriers (sb_gate w) \<and> sb_next (abort_retries t d keys c w) = sb_next w"
proof -
  have "g_barriers (sb_gate (fold (finalize_retry t d c) es w)) = g_barriers (sb_gate w) \<and>
      sb_next (fold (finalize_retry t d c) es w) = sb_next w" for es w
    by (induction es arbitrary: w) simp_all
  then show ?thesis by (simp add: abort_retries_def pop_retries_def Let_def)
qed

lemma barriers_cancel [simp]:
  "g_barriers (sb_gate (cancel_scope t keys c w)) = g_barriers (sb_gate w)" "sb_next (cancel_scope t keys c w) = sb_next w"
  using barriers_abort [of t "''KILLED''" keys c "mark_scope keys c w"]
  by (simp_all add: cancel_scope_def mark_scope_def split: option.split_asm option.split)

text \<open>The barriers, the numbering, the killer, the scopes and the flag.\<close>

definition kill_part :: "('w, 'd) manager \<Rightarrow> (jobset_id, scope) ledger \<times> nat \<times> 'w killer \<times> KillScope list \<times> bool" where
  "kill_part m = (g_barriers (sb_gate (mg_sub m)), sb_next (mg_sub m), mg_killer m, mg_scopes m, mg_shutdown m)"

lemma kill_part_cancels:
  "kill_part (fold (\<lambda>a m. snd (on_sub cfg t (\<lambda>w. ((), cancel_scope t keys (act_cycle (snd a)) w)) m)) acts m) = kill_part m"
proof (induction acts arbitrary: m)
  case (Cons a acts)
  have "kill_part (snd (on_sub cfg t (\<lambda>w. ((), cancel_scope t keys (act_cycle (snd a)) w)) m)) = kill_part m"
    using core_on_sub [of cfg t "\<lambda>w. ((), cancel_scope t keys (act_cycle (snd a)) w)" m]
    by (simp add: kill_part_def core_def Let_def)
  with Cons show ?case by simp
qed simp

definition blocked :: "jobset_id \<Rightarrow> job_key \<Rightarrow> ('w, 'd) manager \<Rightarrow> bool" where
  "blocked j k m = gate_covered (sb_gate (mg_sub m)) j k"

text \<open>The numbering of the scopes: whole-jobset scopes have number 0, the others a used one.\<close>

definition scopes_ok :: "('w, 'd) manager \<Rightarrow> bool" where
  "scopes_ok m \<longleftrightarrow> (\<forall>j. \<forall>e\<in>set (ledger_get (g_barriers (sb_gate (mg_sub m))) j).
     fst e \<le> sb_next (mg_sub m) \<and> (fst e = 0 \<longleftrightarrow> snd e = None))"

lemma remove_new_entry:
  assumes "\<forall>e\<in>set es. fst e = i \<longrightarrow> snd e = x"
  shows "set (remove_entry i (es @ [(i, x)])) = set es"
proof -
  have "mset (remove_entry i (es @ [(i, x)])) = mset es"
    using assms by (subst mset_remove_entry [where x = x]) auto
  then show ?thesis by (metis set_mset_mset)
qed

text \<open>A scope raised on the facade, whatever is cancelled by it.\<close>

lemma begin_new_scope:
  assumes "new_scope j keys m = (n, m1)"
  shows "\<exists>acts. kill_part (begin_scope cfg t n m1) =
    (ledger_add j (if keys = None then 0 else Suc (sb_next (mg_sub m)), map_option set keys) (g_barriers (sb_gate (mg_sub m))),
     Suc (sb_next (mg_sub m)), mg_killer m,
     mg_scopes m @ [(kill_scope j keys (sb_next (mg_sub m)))\<lparr>ks_acts := Some acts\<rparr>], mg_shutdown m)"
proof -
  let ?sc = "kill_scope j keys (sb_next (mg_sub m))"
  have sc: "ks_acts ?sc = None" "ks_jobset_id ?sc = j" "ks_keys ?sc = map_option set keys"
    "ks_ident ?sc = (if keys = None then 0 else Suc (sb_next (mg_sub m)))"
    by (simp_all add: kill_scope_def split: option.split)
  from assms have n: "n = length (mg_scopes m)" and m1: "mg_scopes m1 ! n = ?sc" "mg_scopes m1 = mg_scopes m @ [?sc]"
    "mg_killer m1 = mg_killer m" "mg_shutdown m1 = mg_shutdown m" "g_barriers (sb_gate (mg_sub m1)) = g_barriers (sb_gate (mg_sub m))"
    "sb_next (mg_sub m1) = Suc (sb_next (mg_sub m))"
    by (auto simp: new_scope_def)
  let ?acts = "ledger_get (g_activities (sb_gate (mg_sub m1))) j"
  have "scope_begin (mg_scopes m1 ! n) (sb_gate (mg_sub m1)) = (?acts, ?sc\<lparr>ks_acts := Some ?acts\<rparr>,
      (sb_gate (mg_sub m1))\<lparr>g_barriers := ledger_add j (if keys = None then 0 else Suc (sb_next (mg_sub m)), map_option set keys)
        (g_barriers (sb_gate (mg_sub m)))\<rparr>)"
    unfolding m1(1) scope_begin_def sc by (simp add: barrier_up_def sc(2-) m1(5) del: if_split)
  then show ?thesis
    by (intro exI [of _ ?acts]) (simp add: begin_scope_def kill_part_cancels Let_def, simp add: kill_part_def m1(2-6) n del: if_split)
qed

lemma release_raised:
  assumes "kill_part m = (ledger_add j (i, ks) b, nx, kl, scs @ [sc\<lparr>ks_acts := Some acts\<rparr>], shut)"
    and "ks_jobset_id sc = j" "ks_ident sc = i"
  shows "kill_part (release_scope (length scs) m) =
    (ledger_remove j i (ledger_add j (i, ks) b), nx, kl, scs @ [sc\<lparr>ks_acts := None\<rparr>], shut)"
  using assms by (simp add: release_scope_def scope_release_def kill_part_def barrier_down_def Let_def)

lemma barriers_restored:
  assumes "scopes_ok m" and "i = (if keys = None then 0 else Suc (sb_next (mg_sub m)))"
  shows "set (ledger_get (ledger_remove j i (ledger_add j (i, map_option set keys) (g_barriers (sb_gate (mg_sub m))))) j')
    = set (ledger_get (g_barriers (sb_gate (mg_sub m))) j')"
proof -
  have "\<forall>e\<in>set (ledger_get (g_barriers (sb_gate (mg_sub m))) j). fst e = i \<longrightarrow> snd e = map_option set keys"
  proof (intro ballI impI)
    fix e assume e: "e \<in> set (ledger_get (g_barriers (sb_gate (mg_sub m))) j)" "fst e = i"
    with assms(1) have "fst e \<le> sb_next (mg_sub m)" "fst e = 0 \<longleftrightarrow> snd e = None" by (auto simp: scopes_ok_def)
    with e(2) assms(2) show "snd e = map_option set keys" by (auto split: if_splits)
  qed
  from remove_new_entry [OF this] show ?thesis by (simp add: ledger_get_remove ledger_get_add)
qed

lemma blocked_iff: "blocked j k m \<longleftrightarrow> (\<exists>e\<in>set (ledger_get (g_barriers (sb_gate (mg_sub m))) j). in_scope (snd e) k)"
  by (simp add: blocked_def gate_covered_def list_ex_iff)

lemma kill_part_signal [simp]: "kill_part (signal j e m) = kill_part m" "kill_part (m\<lparr>mg_killer := kl\<rparr>) =
    (fst (kill_part m), fst (snd (kill_part m)), kl, snd (snd (snd (kill_part m))))"
proof -
  show "kill_part (signal j e m) = kill_part m" using core_signal [of j e m] by (simp add: kill_part_def core_def)
qed (simp add: kill_part_def)

lemma signal_recorded: "e \<in> set (mg_signals (signal j e m))"
  by (simp add: signal_def record_signal_def handle_relay_def split: option.split)

text \<open>The queueing of a kill with a new scope.\<close>

definition kill_with_scope :: "(nat \<Rightarrow> 'w kill_barrier) \<Rightarrow> manager_config \<Rightarrow> clock \<Rightarrow> jobset_id \<Rightarrow> job_key list option \<Rightarrow> bool
    \<Rightarrow> ('w, 'd) manager \<Rightarrow> ('w, 'd) manager" where
  "kill_with_scope barrier cfg t j keys v m =
     (let (n, m1) = new_scope j keys m;
          (queued, m2) = launch_kill cfg t (Some n) (queue_kill j None keys v (Some (barrier n))) m1
      in if queued then signal j (SigKillStarted j) m2 else m2)"

lemma kill_is_with_scope:
  assumes "\<not> mg_shutdown m" "j \<noteq> []"
  shows "mg_kill barrier cfg t (IdRef j) only v m =
    (Inr (), kill_with_scope barrier cfg t j
       (map_option (\<lambda>st. case get_jobs j (Some [st]) (mg_store m) of Inl e \<Rightarrow> [] | Inr recs \<Rightarrow> map jr_job_key recs) only)
       (case v of None \<Rightarrow> mc_verify_kill cfg | Some b \<Rightarrow> b) m)"
  using assms
  by (cases only) (simp_all add: mg_kill_def jsid_of_def kill_with_scope_def kill_jobset_def kill_selected_def kill_selected_in_def
      queue_kill_jobs_def kill_jobs_def Let_def split: prod.split)

lemma kill_with_scope_part:
  assumes b: "g_barriers (sb_gate (mg_sub m)) = b" "sb_next (mg_sub m) = nx" and i: "i = (if keys = None then 0 else Suc nx)"
    and m': "m' = kill_with_scope barrier cfg t j keys v m"
  shows "if kl_shutdown (mg_killer m)
    then \<exists>scs. kill_part m' = (ledger_remove j i (ledger_add j (i, map_option set keys) b), Suc nx, mg_killer m, scs, mg_shutdown m)
    else SigKillStarted j \<in> set (mg_signals m') \<and>
      (\<exists>acts. kill_part m' = (ledger_add j (i, map_option set keys) b, Suc nx,
         snd (queue_kill j None keys v (Some (barrier (length (mg_scopes m)))) (mg_killer m)),
         mg_scopes m @ [(kill_scope j keys nx)\<lparr>ks_acts := Some acts\<rparr>], mg_shutdown m))"
proof -
  obtain n m1 where n: "new_scope j keys m = (n, m1)" by (cases "new_scope j keys m")
  then have ln: "n = length (mg_scopes m)" by (simp add: new_scope_def)
  from begin_new_scope [OF n, of cfg t] obtain acts where
    p: "kill_part (begin_scope cfg t n m1) = (ledger_add j (i, map_option set keys) b, Suc nx, mg_killer m,
       mg_scopes m @ [(kill_scope j keys nx)\<lparr>ks_acts := Some acts\<rparr>], mg_shutdown m)"
    unfolding b i by blast
  then have kl: "mg_killer (begin_scope cfg t n m1) = mg_killer m" by (simp add: kill_part_def)
  have sc: "ks_jobset_id (kill_scope j keys nx) = j" "ks_ident (kill_scope j keys nx) = i"
    by (simp_all add: kill_scope_def i split: option.split)
  show ?thesis
  proof (cases "kl_shutdown (mg_killer m)")
    case True
    then have q: "queue_kill j None keys v (Some (barrier n)) (mg_killer m) = (False, mg_killer m)" by (simp add: queue_kill_def)
    have "m' = release_scope n ((begin_scope cfg t n m1)\<lparr>mg_killer := mg_killer m\<rparr>)"
      unfolding m' kill_with_scope_def n launch_kill_def by (simp add: kl q)
    with release_raised [of "(begin_scope cfg t n m1)\<lparr>mg_killer := mg_killer m\<rparr>", OF _ sc] p ln True show ?thesis by simp
  next
    case False
    then have "fst (queue_kill j None keys v (Some (barrier n)) (mg_killer m))" by (simp add: queue_kill_def split: prod.split)
    then obtain kl' where q: "queue_kill j None keys v (Some (barrier n)) (mg_killer m) = (True, kl')"
      by (cases "queue_kill j None keys v (Some (barrier n)) (mg_killer m)") simp
    have "m' = signal j (SigKillStarted j) ((begin_scope cfg t n m1)\<lparr>mg_killer := kl'\<rparr>)"
      unfolding m' kill_with_scope_def n launch_kill_def by (simp add: kl q)
    with p ln q False show ?thesis by (auto simp: signal_recorded)
  qed
qed

text \<open>
  C35: A kill blocks submissions exactly as long as a task is there to lift the block. When the
  request is accepted, the task is queued with its scope, the jobset counts as being killed,
  \<open>kill_started\<close> has been emitted, exactly the targets are blocked in addition, and the release of
  the task's scope unblocks exactly them. When the killer has been shut down meanwhile, no task is
  queued and nothing stays blocked, although submissions may have been cancelled.
\<close>

theorem kill_blocks_while_queued:
  assumes "scopes_ok m" and "\<not> mg_shutdown m" and "j \<noteq> []"
    and "mg_kill barrier cfg t (IdRef j) only v m = (r, m')"
  shows "r = Inr () \<and> scopes_ok m' \<and>
    (if kl_shutdown (mg_killer m) then mg_killer m' = mg_killer m \<and> (\<forall>i k. blocked i k m' \<longleftrightarrow> blocked i k m)
     else killer_is_active j (mg_killer m') \<and> SigKillStarted j \<in> set (mg_signals m') \<and>
       (\<exists>task. kl_pool (mg_killer m') = kl_pool (mg_killer m) @ [task] \<and> kt_jobset_id task = j \<and>
          kt_scope task = Some (barrier (length (mg_scopes m)))) \<and>
       (\<forall>i k. blocked i k m' \<longleftrightarrow> blocked i k m \<or> i = j \<and> (case only of None \<Rightarrow> True
          | Some st \<Rightarrow> k \<in> jr_job_key ` set (case get_jobs j (Some [st]) (mg_store m) of Inl e \<Rightarrow> [] | Inr recs \<Rightarrow> recs))) \<and>
       (\<forall>i k. blocked i k (release_scope (length (mg_scopes m)) m') \<longleftrightarrow> blocked i k m))"
proof -
  let ?keys = "map_option (\<lambda>st. case get_jobs j (Some [st]) (mg_store m) of Inl e \<Rightarrow> [] | Inr recs \<Rightarrow> map jr_job_key recs) only"
  let ?v = "case v of None \<Rightarrow> mc_verify_kill cfg | Some b \<Rightarrow> b"
  let ?b = "g_barriers (sb_gate (mg_sub m))" and ?nx = "sb_next (mg_sub m)"
  define i where "i = (if ?keys = None then 0 else Suc ?nx)"
  from assms(4) kill_is_with_scope [OF assms(2,3), of barrier cfg t only v]
  have r: "r = Inr ()" and m': "m' = kill_with_scope barrier cfg t j ?keys ?v m" by simp_all
  note part = kill_with_scope_part [OF refl refl i_def m']
  have restored: "set (ledger_get (ledger_remove j i (ledger_add j (i, map_option set ?keys) ?b)) j') = set (ledger_get ?b j')" for j'
    by (rule barriers_restored [OF assms(1) i_def])
  have ok: "fst e \<le> Suc ?nx \<and> (fst e = 0 \<longleftrightarrow> snd e = None)" if "e \<in> set (ledger_get ?b j')" for e j'
    using assms(1) that by (auto simp: scopes_ok_def intro: le_SucI)
  show ?thesis
  proof (cases "kl_shutdown (mg_killer m)")
    case True
    with part have "g_barriers (sb_gate (mg_sub m')) = ledger_remove j i (ledger_add j (i, map_option set ?keys) ?b)"
      "sb_next (mg_sub m') = Suc ?nx" "mg_killer m' = mg_killer m" by (auto simp: kill_part_def)
    with True r ok show ?thesis by (simp add: scopes_ok_def blocked_iff restored)
  next
    case False
    with part obtain acts where sig: "SigKillStarted j \<in> set (mg_signals m')" and
      p: "kill_part m' = (ledger_add j (i, map_option set ?keys) ?b, Suc ?nx,
         snd (queue_kill j None ?keys ?v (Some (barrier (length (mg_scopes m)))) (mg_killer m)),
         mg_scopes m @ [(kill_scope j ?keys ?nx)\<lparr>ks_acts := Some acts\<rparr>], mg_shutdown m)" by auto
    from p have new: "set (ledger_get (g_barriers (sb_gate (mg_sub m'))) j') =
        set (ledger_get ?b j') \<union> (if j' = j then {(i, map_option set ?keys)} else {})" for j'
      by (simp add: kill_part_def ledger_get_add)
    have "kill_part (release_scope (length (mg_scopes m)) m') = (ledger_remove j i (ledger_add j (i, map_option set ?keys) ?b),
        Suc ?nx, snd (queue_kill j None ?keys ?v (Some (barrier (length (mg_scopes m)))) (mg_killer m)),
        mg_scopes m @ [(kill_scope j ?keys ?nx)\<lparr>ks_acts := None\<rparr>], mg_shutdown m)"
      by (rule release_raised [OF p]) (simp_all add: kill_scope_def i_def split: option.split)
    then have "blocked j' k (release_scope (length (mg_scopes m)) m') \<longleftrightarrow> blocked j' k m" for j' k
      by (simp add: blocked_iff kill_part_def restored)
    moreover have "blocked j' k m' \<longleftrightarrow> blocked j' k m \<or> j' = j \<and> in_scope (map_option set ?keys) k" for j' k
      by (auto simp: blocked_iff new)
    moreover have "in_scope (map_option set ?keys) k \<longleftrightarrow> (case only of None \<Rightarrow> True
        | Some st \<Rightarrow> k \<in> jr_job_key ` set (case get_jobs j (Some [st]) (mg_store m) of Inl e \<Rightarrow> [] | Inr recs \<Rightarrow> recs))" for k
      by (auto split: option.split sum.split)
    moreover have "fst e \<le> Suc ?nx \<and> (fst e = 0 \<longleftrightarrow> snd e = None)" if "e = (i, map_option set ?keys)" for e
      by (simp add: that i_def)
    with ok p have "scopes_ok m'" unfolding scopes_ok_def new by (simp add: kill_part_def)
    moreover have "mg_killer m' = snd (queue_kill j None ?keys ?v (Some (barrier (length (mg_scopes m)))) (mg_killer m))"
      using p by (simp add: kill_part_def)
    ultimately show ?thesis using False r sig
      by (simp add: queue_kill_def kill_reg_def killer_is_active_def ledger_get_add Let_def)
  qed
qed

section \<open>Removing a jobset\<close>

lemma remove_handlers_fold:
  "hs_handlers (fold (remove_handler True j) names h) = filter (\<lambda>((i, name), _). \<not> (i = j \<and> name \<in> set names)) (hs_handlers h)"
proof (induction names arbitrary: h)
  case (Cons a names)
  then show ?case
    by (simp add: remove_handler_def AList.delete_eq) (rule filter_cong; auto)
qed (simp add: case_prod_unfold)

lemma handlers_of_remove_all: "handlers_of j (remove_all j h) = []"
  by (force simp: handlers_of_def remove_all_def remove_handlers_fold filter_empty_conv)

lemma rearm_handlers [simp]: "hs_handlers (rearm j keys h) = hs_handlers h"
proof -
  have "hs_handlers (fold (\<lambda>i. on_object i f) xs h) = hs_handlers h" for f xs h
    by (induction xs arbitrary: h) (simp_all add: on_object_def)
  then show ?thesis by (simp add: rearm_def)
qed

text \<open>Nothing the facade keeps refers to the jobset.\<close>

definition no_trace :: "jobset_id \<Rightarrow> ('w, 'd) manager \<Rightarrow> bool" where
  "no_trace j m \<longleftrightarrow>
     get_jobset j (mg_store m) = Inl (JobSetNotFoundError j) \<and> jobs_of (mg_store m) j = [] \<and>
     handlers_of j (mg_handlers m) = [] \<and> dget (q_streaks (mg_q m)) j = None \<and>
     dget (tr_post_process (mg_completion m)) j = None \<and> dget (tr_pending_arm (mg_completion m)) j = None \<and>
     j \<notin> tr_finished_latch (mg_completion m) \<and> dget (mg_intervals m) j = None \<and> dget (mg_revisions m) j = None \<and>
     (case mg_pacer m of None \<Rightarrow> True | Some p \<Rightarrow>
        list_all (\<lambda>k. fst k \<noteq> j) (dkeys (pc_queue p)) \<and> list_all (\<lambda>k. fst k \<noteq> j) (dkeys (pc_shown p))) \<and>
     handle_of j m = None \<and> mg_polls m \<noteq> [] \<and> last (mg_polls m) = PollStop j"

lemma pace_forget_all:
  "list_all (\<lambda>k. fst k \<noteq> j) (dkeys (pc_queue (pace_forget now j None p)))"
  "list_all (\<lambda>k. fst k \<noteq> j) (dkeys (pc_shown (pace_forget now j None p)))"
  by (auto simp: pace_forget_def pace_reschedule_def list_all_iff Let_def)


section \<open>A sample facade\<close>

definition demo_layer_config :: layer_config where
  "demo_layer_config = \<lparr> cc_bjobs_path = Program ''bjobs'', cc_bkill_path = Program ''bkill'',
     cc_submit_timeout_s = 60, cc_query_timeout_s = 30, cc_kill_timeout_s = 60, cc_chunk_size = 1,
     cc_kill_chunk_size = 100, cc_arg_max = 200000, cc_wrapper = None, cc_collect_clusters = False,
     ly_fetcher = False, ly_failover = False, ly_refresh_min_s = None, ly_poll_interval_s = 10,
     ly_retention_days = 7, ly_track_runtime = False \<rparr>"

definition demo_manager_config :: manager_config where
  "demo_manager_config = \<lparr> mc_sub = \<lparr> sx_progress_min_interval_s = 0, sx_progress_min_step_ratio = 0,
     sx_submit_finished_on_gate_reject = True, sx_workers = 4 \<rparr>, mc_defaults = [], mc_poll_interval_s = 10,
     mc_verify_kill = True, mc_min_state_dwell_s = 0 \<rparr>"

definition demo_manager :: "(unit, unit) manager" where
  "demo_manager = projr (new_manager True demo_layer_config demo_manager_config demo_store ())"

definition demo_barrier :: "nat \<Rightarrow> unit kill_barrier" where
  "demo_barrier n = \<lparr> kb_acquire = Pair True, kb_release = id \<rparr>"

definition demo_at :: clock where
  "demo_at = \<lparr> ck_wall = 100, ck_mono = 7 \<rparr>"

theorem kill_blocks_while_queued_witness:
  "\<exists>m'. mg_kill demo_barrier demo_manager_config demo_at (IdRef ''js'') (Some PEND) None demo_manager = (Inr (), m') \<and>
     killer_is_active ''js'' (mg_killer m') \<and> blocked ''js'' ''a'' m' \<and> \<not> blocked ''js'' ''b'' m' \<and>
     \<not> blocked ''js'' ''a'' (release_scope 0 m')"
proof -
  obtain r m' where k: "mg_kill demo_barrier demo_manager_config demo_at (IdRef ''js'') (Some PEND) None demo_manager = (r, m')"
    by fastforce
  have ok: "scopes_ok demo_manager" "\<not> mg_shutdown demo_manager" "\<not> kl_shutdown (mg_killer demo_manager)"
    "mg_scopes demo_manager = []" "mg_store demo_manager = demo_store" "\<not> blocked ''js'' k demo_manager" for k
    by (simp_all add: demo_manager_def new_manager_def new_lsf_command_def demo_layer_config_def new_killer_def scopes_ok_def
        new_sub_def new_SubmitGate_def ledger_get_def dget_or_def blocked_iff)
  have "map_sum id (map jr_job_key) (get_jobs ''js'' (Some [PEND]) demo_store) = Inr [''a'', ''c'']" by code_simp
  then obtain recs where recs: "get_jobs ''js'' (Some [PEND]) demo_store = Inr recs" "map jr_job_key recs = [''a'', ''c'']"
    by (cases "get_jobs ''js'' (Some [PEND]) demo_store") auto
  then have keys: "jr_job_key ` set recs = {''a'', ''c''}" by (simp flip: set_map)
  from kill_blocks_while_queued [OF ok(1,2) _ k] show ?thesis
    by (simp add: k ok recs(1) keys)
qed

definition demo_held :: "(unit, unit) manager" where
  "demo_held = snd (get_handle (IdRef ''js'') demo_manager)"

lemma demo_held:
  "mg_store demo_held = demo_store" "mg_handles demo_held = [(''js'', 0)]"
  "mg_handle_objs demo_held = [\<lparr> hd_jobset_id = ''js'', hd_removed = False \<rparr>]" "\<not> is_busy ''js'' demo_held"
proof -
  have m: "mg_store demo_manager = demo_store" "mg_handles demo_manager = []" "mg_handle_objs demo_manager = []"
    "\<not> is_busy ''js'' demo_manager"
    by (simp_all add: demo_manager_def new_manager_def new_lsf_command_def demo_layer_config_def new_sub_def new_killer_def
        is_busy_def is_active_def killer_is_active_def ledger_get_def dget_or_def dhas_def)
  have "map_sum id (\<lambda>_. ()) (get_jobset ''js'' demo_store) = Inr ()" by code_simp
  then obtain js where "get_jobset ''js'' demo_store = Inr js" by (cases "get_jobset ''js'' demo_store") auto
  with m show "mg_store demo_held = demo_store" "mg_handles demo_held = [(''js'', 0)]"
    "mg_handle_objs demo_held = [\<lparr> hd_jobset_id = ''js'', hd_removed = False \<rparr>]" "\<not> is_busy ''js'' demo_held"
    by (simp_all add: demo_held_def get_handle_def jsid_of_def is_busy_def)
qed


end
