(* ===== verification/JobSetHandle.thy ===== *)
theory JobSetHandle
  imports ManagerLaws
begin

text \<open>
  What a handle says of its jobset (\<open>src/lsfmgr/handle.py\<close>): the numbers of a summary, and what
  \<open>is_done\<close>, \<open>is_inactive\<close> and \<open>failed_jobs\<close> make of them.
\<close>

section \<open>The numbers of a summary\<close>

lemma sum_values:
  fixes d :: "(string, int) dict"
  assumes "distinct (dkeys d)"
  shows "sum_list (map snd (filter (\<lambda>(k, _). P k) d)) = (\<Sum>k\<in>{k \<in> set (dkeys d). P k}. dget_or d k 0)"
proof -
  have inj: "inj_on fst (set d)" and "distinct d" using assms by (auto simp: distinct_map)
  then have "sum_list (map snd (filter (\<lambda>(k, _). P k) d)) = sum snd {p \<in> set d. P (fst p)}"
    by (simp add: sum_list_distinct_conv_sum_set case_prod_unfold)
  also have "\<dots> = (\<Sum>k\<in>fst ` {p \<in> set d. P (fst p)}. dget_or d k 0)"
    by (rule sum.reindex_cong [symmetric, where l = fst])
      (use inj assms in \<open>auto simp: inj_on_def dget_or_def dest: map_of_is_SomeI\<close>)
  also have "fst ` {p \<in> set d. P (fst p)} = {k \<in> set (dkeys d). P k}" by force
  finally show ?thesis .
qed

lemma sum_states:
  fixes d :: "(string, int) dict"
  assumes "distinct (dkeys d)"
  shows "sum_list (map snd (filter (\<lambda>(k, _). list_ex (\<lambda>st. state_value st = k \<and> Q st) all_states) d)) =
    (\<Sum>st\<in>{st. Q st}. dget_or d (state_value st) 0)"
proof -
  have P: "list_ex (\<lambda>st. state_value st = k \<and> Q st) all_states \<longleftrightarrow> k \<in> state_value ` {st. Q st}" for k
    by (auto simp: list_ex_iff all_states_complete)
  have "(\<Sum>st\<in>{st. Q st}. dget_or d (state_value st) 0) = (\<Sum>k\<in>state_value ` {st. Q st}. dget_or d k 0)"
    by (subst sum.reindex) (simp_all add: inj_on_def state_value_inject)
  also have "\<dots> = (\<Sum>k\<in>{k \<in> set (dkeys d). k \<in> state_value ` {st. Q st}}. dget_or d k 0)"
    by (rule sum.mono_neutral_right) (force simp: dget_or_def dest: map_of_SomeD split: option.splits)+
  finally show ?thesis by (simp add: sum_values [OF assms] P)
qed

lemma sum_count_states:
  "(\<Sum>st\<in>{st. Q st}. state_count jobs (state_value st)) = length (filter (\<lambda>r. Q (jr_state r)) (dvalues jobs))"
proof (induction jobs)
  case (Cons p jobs)
  have "(\<Sum>st\<in>{st. Q st}. state_count (p # jobs) (state_value st)) =
      (\<Sum>st\<in>{st. Q st}. state_count jobs (state_value st) + of_bool (st = jr_state (snd p)))"
    by (rule sum.cong) (auto simp: state_count_def state_value_inject)
  with Cons show ?case by (simp add: sum.distrib)
qed (simp add: state_count_def)

lemma summary_keys:
  assumes "store_reach s" and "store_summary j s = Inr out"
  shows "distinct (dkeys out)" and "set (dkeys out) \<subseteq> insert ''total'' (range state_value)"
proof -
  from assms(2) obtain js where out: "out = summary_from_counts js (counts_of s j)"
    by (auto simp: store_summary_def split: sum.splits)
  have rep: "represents (counts_of s j) (state_count (jobs_of s j))" using store_reach_inv [OF assms(1)] by (simp add: store_inv_def)
  have ks: "set (dkeys (counts_of s j)) \<subseteq> range state_value"
  proof
    fix k assume "k \<in> set (dkeys (counts_of s j))"
    then have "dget (counts_of s j) k \<noteq> None" by (simp add: map_of_eq_None_iff)
    moreover have "dget (counts_of s j) k = (if state_count (jobs_of s j) k = 0 then None else Some (int (state_count (jobs_of s j) k)))"
      using rep unfolding represents_def by blast
    ultimately have "state_count (jobs_of s j) k \<noteq> 0" by presburger
    then show "k \<in> range state_value" using state_count_other [of k "jobs_of s j"] by linarith
  qed
  have key: "set (dkeys (dset k v d)) = insert k (set (dkeys d))" for k v and d :: "(string, int) dict"
    unfolding AList.update_keys by auto
  have keys: "set (dkeys (fold (\<lambda>(k, v) out. dset k v out) c d)) = set (dkeys d) \<union> set (dkeys c)" for c d :: "(string, int) dict"
    by (induction c arbitrary: d) (auto simp: key simp del: set_map)
  have dist: "distinct (dkeys d) \<Longrightarrow> distinct (dkeys (fold (\<lambda>(k, v) out. dset k v out) c d))" for c d :: "(string, int) dict"
    by (induction c arbitrary: d) (auto simp: distinct_update)
  show "distinct (dkeys out)" unfolding out summary_from_counts_def Let_def by (rule dist) simp
  show "set (dkeys out) \<subseteq> insert ''total'' (range state_value)"
    unfolding out summary_from_counts_def Let_def keys using ks rangeI [of state_value CREATED] by (auto simp: key simp del: set_map)
qed

text \<open>A summary in numbers: the jobs in a final state, and the others.\<close>

lemma summary_split:
  assumes "store_reach s" and "get_jobset j s = Inr js" and "int (length (jobs_of s j)) \<le> jset_intended_count js"
    and "n = int (length (filter (\<lambda>r. is_terminal (jr_state r)) (dvalues (jobs_of s j))))"
  obtains out where "store_summary j s = Inr out" and "dget_or out ''total'' 0 = jset_intended_count js"
    and "sum_list (map snd (filter (\<lambda>(k, _). k \<noteq> ''total'' \<and> terminal_name k) out)) = n"
    and "list_ex (\<lambda>(k, v). v > 0 \<and> k \<noteq> ''total'' \<and> \<not> terminal_name k) out \<longleftrightarrow> n < jset_intended_count js"
proof -
  from summary_accounts_for_every_job [OF assms(1-3)] obtain out where out: "store_summary j s = Inr out"
    and tot: "dget out ''total'' = Some (jset_intended_count js)"
    and val: "st = CREATED \<or> dget_or out (state_value st) 0 = int (state_count (jobs_of s j) (state_value st))"
    and all: "(\<Sum>st\<in>UNIV. dget_or out (state_value st) 0) = jset_intended_count js" for st
    by blast
  note keys = summary_keys [OF assms(1) out]
  have nt: "state_value st \<noteq> ''total''" for st by (cases st) simp_all
  have tn: "k \<noteq> ''total'' \<and> terminal_name k \<longleftrightarrow> terminal_name k" for k
    using nt by (auto simp: terminal_name_def list_ex_iff)
  let ?v = "\<lambda>st. dget_or out (state_value st) 0"
  have "(\<Sum>st\<in>{st. is_terminal st}. ?v st) = (\<Sum>st\<in>{st. is_terminal st}. int (state_count (jobs_of s j) (state_value st)))"
    using val by (intro sum.cong refl) (metis is_terminal_simps(6) mem_Collect_eq)
  also have "\<dots> = n" using sum_count_states [where Q = is_terminal and jobs = "jobs_of s j"] by (simp add: assms(4) flip: of_nat_sum)
  finally have fin: "(\<Sum>st\<in>{st. is_terminal st}. ?v st) = n" .
  have "(\<Sum>st\<in>UNIV. ?v st) = (\<Sum>st\<in>{st. is_terminal st}. ?v st) + (\<Sum>st\<in>{st. \<not> is_terminal st}. ?v st)"
    by (subst sum.union_disjoint [symmetric]) (auto intro: sum.cong)
  with all fin have open_sum: "(\<Sum>st\<in>{st. \<not> is_terminal st}. ?v st) = jset_intended_count js - n" by simp
  have nonneg: "0 \<le> ?v st" for st
  proof (cases "st = CREATED")
    case True
    have "(\<Sum>x\<in>UNIV. ?v x) = ?v CREATED + (\<Sum>x\<in>UNIV - {CREATED}. ?v x)" by (rule sum.remove) simp_all
    moreover have "(\<Sum>x\<in>UNIV - {CREATED}. ?v x) = (\<Sum>x\<in>UNIV - {CREATED}. int (state_count (jobs_of s j) (state_value x)))"
      using val by (intro sum.cong) auto
    moreover have "(\<Sum>x\<in>UNIV - {CREATED}. int (state_count (jobs_of s j) (state_value x))) \<le> int (length (jobs_of s j))"
      by (subst sum_state_count [symmetric], subst of_nat_sum) (rule sum_mono2; simp)
    ultimately show ?thesis using all assms(3) True by simp
  qed (use val in \<open>metis of_nat_0_le_iff\<close>)
  have "list_ex (\<lambda>(k, v). v > 0 \<and> k \<noteq> ''total'' \<and> \<not> terminal_name k) out \<longleftrightarrow> (\<exists>st\<in>{st. \<not> is_terminal st}. 0 < ?v st)"
  proof
    assume "list_ex (\<lambda>(k, v). v > 0 \<and> k \<noteq> ''total'' \<and> \<not> terminal_name k) out"
    then obtain k v where kv: "(k, v) \<in> set out" "v > 0" "k \<noteq> ''total''" "\<not> terminal_name k" by (auto simp: list_ex_iff)
    then obtain st where st: "k = state_value st" using keys(2) by force
    then have "\<not> is_terminal st" using kv(4) by (auto simp: terminal_name_def list_ex_iff all_states_complete)
    moreover have "?v st = v" using kv(1) keys(1) st by (simp add: dget_or_def)
    ultimately show "\<exists>st\<in>{st. \<not> is_terminal st}. 0 < ?v st" using kv(2) by blast
  next
    assume "\<exists>st\<in>{st. \<not> is_terminal st}. 0 < ?v st"
    then obtain st where st: "\<not> is_terminal st" "0 < ?v st" by blast
    then obtain v where "dget out (state_value st) = Some v" "0 < v" by (auto simp: dget_or_def split: option.splits)
    then show "list_ex (\<lambda>(k, v). v > 0 \<and> k \<noteq> ''total'' \<and> \<not> terminal_name k) out"
      using st(1) nt by (force simp: list_ex_iff terminal_name_def state_value_inject dest: map_of_SomeD)
  qed
  also have "\<dots> \<longleftrightarrow> 0 < (\<Sum>st\<in>{st. \<not> is_terminal st}. ?v st)"
    using nonneg by (metis (no_types, lifting) finite less_le_not_le linorder_not_less sum_nonneg sum_pos2 sum_nonpos)
  finally have act: "list_ex (\<lambda>(k, v). v > 0 \<and> k \<noteq> ''total'' \<and> \<not> terminal_name k) out \<longleftrightarrow> n < jset_intended_count js"
    by (simp add: open_sum)
  have "sum_list (map snd (filter (\<lambda>(k, _). terminal_name k) out)) = n"
    unfolding terminal_name_def sum_states [OF keys(1)] by (rule fin)
  with out tot act show thesis by (intro that) (simp_all add: dget_or_def tn)
qed

text \<open>
  C37: What a handle says of its jobset. On an open handle of a jobset with no more records than
  intended: done means that jobs are intended and all of them are there and in a final state;
  inactive means the same without the first part; the failed jobs are the records in a failed
  state. On a removed handle each of them raises.
\<close>

theorem handle_tells_state:
  assumes "store_reach (mg_store m)" and "hd_jobset_id (mg_handle_objs m ! n) = j" and "get_jobset j (mg_store m) = Inr js"
    and "int (length (jobs_of (mg_store m) j)) \<le> jset_intended_count js" and "recs = dvalues (jobs_of (mg_store m) j)"
    and "finished \<longleftrightarrow> int (length recs) = jset_intended_count js \<and> list_all (\<lambda>r. is_terminal (jr_state r)) recs"
  shows "if hd_removed (mg_handle_objs m ! n)
    then handle_is_done n m = Inl JobSetRemovedError \<and> handle_is_inactive n m = Inl JobSetRemovedError \<and>
      handle_failed_jobs n m = Inl JobSetRemovedError
    else handle_is_done n m = Inr (recs \<noteq> [] \<and> finished) \<and> handle_is_inactive n m = Inr finished \<and>
      handle_failed_jobs n m = Inr (filter (\<lambda>r. is_failed (jr_state r)) recs)"
proof (cases "hd_removed (mg_handle_objs m ! n)")
  case True
  then show ?thesis
    by (simp add: handle_is_done_def handle_is_inactive_def handle_is_active_def handle_summary_def mg_summary_def
        handle_failed_jobs_def mg_get_jobs_def jsid_of_def)
next
  case False
  then have j: "jsid_of (HandleRef n) m = Inr j" by (simp add: jsid_of_def assms(2))
  define fin where "fin = int (length (filter (\<lambda>r. is_terminal (jr_state r)) (dvalues (jobs_of (mg_store m) j))))"
  from summary_split [OF assms(1,3,4) fin_def] obtain out where out: "store_summary j (mg_store m) = Inr out"
    "dget_or out ''total'' 0 = jset_intended_count js"
    "sum_list (map snd (filter (\<lambda>(k, _). k \<noteq> ''total'' \<and> terminal_name k) out)) = fin"
    "list_ex (\<lambda>(k, v). v > 0 \<and> k \<noteq> ''total'' \<and> \<not> terminal_name k) out \<longleftrightarrow> fin < jset_intended_count js"
    by blast
  have n: "fin = int (length (filter (\<lambda>r. is_terminal (jr_state r)) recs))" by (simp only: fin_def assms(5))
  have le: "int (length recs) \<le> jset_intended_count js" using assms(4,5) by simp
  have len: "length (filter (\<lambda>r. is_terminal (jr_state r)) recs) = length recs \<longleftrightarrow> list_all (\<lambda>r. is_terminal (jr_state r)) recs"
    unfolding list_all_iff by (metis length_filter_less filter_True less_irrefl)
  have fin: "fin < jset_intended_count js \<longleftrightarrow> \<not> finished" "fin \<ge> jset_intended_count js \<longleftrightarrow> finished"
    using le len length_filter_le [of "\<lambda>r. is_terminal (jr_state r)" recs] unfolding n assms(6) by linarith+
  have pos: "0 < jset_intended_count js \<longleftrightarrow> recs \<noteq> []" if finished
    using assms(6) that by (auto simp flip: length_greater_0_conv)
  have "dhas (s_jobsets (mg_store m)) j" using assms(3) by (simp add: get_jobset_def dhas_def split: option.splits)
  then have "handle_failed_jobs n m = Inr (filter (\<lambda>r. is_failed (jr_state r)) recs)"
    by (simp add: handle_failed_jobs_def mg_get_jobs_def j get_jobs_def assms(5) all_states_complete)
  moreover have "handle_is_done n m = Inr (recs \<noteq> [] \<and> finished)"
    using fin pos by (auto simp: handle_is_done_def handle_summary_def mg_summary_def j out Let_def)
  moreover have "handle_is_inactive n m = Inr finished"
    by (simp add: handle_is_inactive_def handle_is_active_def handle_summary_def mg_summary_def j out fin)
  ultimately show ?thesis using False by simp
qed

text \<open>Two jobs, one of which failed.\<close>

definition demo_over_store :: store where
  "demo_over_store = snd (store_add_jobs 5 [demo_rec ''a'' DONE, demo_rec ''b'' EXIT]
     (snd (store_insert_jobset 1 (demo_jobset 2) empty_store)))"

theorem handle_tells_state_witness:
  "handle_is_done 0 (demo_held\<lparr>mg_store := demo_over_store\<rparr>) = Inr True \<and>
   map_sum id (map jr_job_key) (handle_failed_jobs 0 (demo_held\<lparr>mg_store := demo_over_store\<rparr>)) = Inr [''b'']"
proof -
  let ?m = "demo_held\<lparr>mg_store := demo_over_store\<rparr>"
  have reach: "store_reach demo_over_store" unfolding demo_over_store_def by (intro store_reach.intros)
  have js: "get_jobset ''js'' demo_over_store = Inr ((demo_jobset 2)\<lparr>jset_created_at := Some 1\<rparr>)" by code_simp
  have recs: "map (\<lambda>r. (jr_job_key r, jr_state r)) (dvalues (jobs_of demo_over_store ''js'')) = [(''a'', DONE), (''b'', EXIT)]"
    by code_simp
  then obtain a b where ab: "dvalues (jobs_of demo_over_store ''js'') = [a, b]" "jr_job_key a = ''a''" "jr_job_key b = ''b''"
    "jr_state a = DONE" "jr_state b = EXIT" by (auto simp: map_eq_Cons_conv)
  then have n: "length (jobs_of demo_over_store ''js'') = 2" by (metis length_Cons length_map list.size(3) numeral_2_eq_2)
  have held: "mg_handle_objs ?m ! 0 = \<lparr> hd_jobset_id = ''js'', hd_removed = False \<rparr>" "mg_store ?m = demo_over_store"
    by (simp_all add: demo_held(3))
  from handle_tells_state [of ?m 0 "''js''" _ "[a, b]" True, unfolded held, OF reach _ js]
  have "handle_is_done 0 ?m = Inr True \<and> handle_failed_jobs 0 ?m = Inr [b]" by (simp add: n ab demo_jobset_def is_failed_def FAILED_def)
  then show ?thesis by (simp add: ab)
qed

end
