(* ===== verification/MockDb.thy ===== *)
theory MockDb
  imports Options "HOL-Library.Option_ord"
begin

text \<open>
  The mock cluster's jobs, configuration and database (\<open>src/mocklsf/models.py\<close>, \<open>config.py\<close>,
  \<open>db.py\<close>). Every function of the database is one transaction. A time is in seconds.
\<close>

section \<open>Jobs\<close>

datatype mstat = MPEND | MRUN | MDONE | MEXIT | MPSUSP | MUSUSP | MSSUSP

fun stat_text :: "mstat \<Rightarrow> string" where
  "stat_text MPEND = ''PEND''" | "stat_text MRUN = ''RUN''" | "stat_text MDONE = ''DONE''" | "stat_text MEXIT = ''EXIT''"
| "stat_text MPSUSP = ''PSUSP''" | "stat_text MUSUSP = ''USUSP''" | "stat_text MSSUSP = ''SSUSP''"

definition FINISHED_STATES :: "mstat list" where
  "FINISHED_STATES = [MDONE, MEXIT]"

definition ACTIVE_STATES :: "mstat list" where
  "ACTIVE_STATES = [MRUN, MSSUSP, MUSUSP]"

record mjob =
  mj_row_id :: nat
  mj_job_id :: int
  mj_user :: string
  mj_command :: string
  mj_queue :: string
  mj_from_host :: string
  mj_job_name :: string
  mj_submit_time :: seconds
  mj_stat :: mstat
  mj_array_index :: "int option"
  mj_array_size :: int
  mj_array_limit :: int
  mj_exec_host :: "string option"
  mj_start_time :: "seconds option"
  mj_finish_time :: "seconds option"
  mj_pend_secs :: seconds
  mj_run_secs :: seconds
  mj_planned_outcome :: mstat
  mj_exit_code :: int
  mj_suspend_at :: seconds
  mj_suspend_secs :: seconds
  mj_susp_since :: seconds
  mj_num_cpus :: int
  mj_requested_hosts :: string
  mj_proj :: string
  mj_job_group :: string
  mj_cwd :: string
  mj_source_cluster :: string
  mj_forward_cluster :: string

definition mfinished :: "mjob \<Rightarrow> bool" where
  "mfinished j \<longleftrightarrow> mj_stat j \<in> set FINISHED_STATES"

definition mactive :: "mjob \<Rightarrow> bool" where
  "mactive j \<longleftrightarrow> mj_stat j \<in> set ACTIVE_STATES"

definition display_id :: "mjob \<Rightarrow> string" where
  "display_id j =
     (case mj_array_index j of
        None \<Rightarrow> show_int (mj_job_id j)
      | Some i \<Rightarrow> show_int (mj_job_id j) @ ''['' @ show_int i @ '']'')"

definition is_array :: "mjob \<Rightarrow> bool" where
  "is_array j \<longleftrightarrow> mj_array_index j \<noteq> None"

section \<open>Configuration\<close>

text \<open>The environment variables; a value that does not parse falls back to the default.\<close>

type_synonym environ = "(string, string) dict"

definition env_float :: "environ \<Rightarrow> string \<Rightarrow> py_float \<Rightarrow> py_float" where
  "env_float env name d =
     (case dget env name of None \<Rightarrow> d | Some s \<Rightarrow> (case py_float_of_string s of None \<Rightarrow> d | Some x \<Rightarrow> x))"

definition env_int :: "environ \<Rightarrow> string \<Rightarrow> int \<Rightarrow> int" where
  "env_int env name d =
     (case dget env name of None \<Rightarrow> d | Some s \<Rightarrow> (case py_int_of_string s of None \<Rightarrow> d | Some x \<Rightarrow> x))"

definition env_list :: "environ \<Rightarrow> string \<Rightarrow> string list" where
  "env_list env name = filter (\<lambda>c. c \<noteq> []) (map py_strip (py_split (CHR '','') (py_strip (dget_or env name []))))"

text \<open>The hosts with their slots, and the queues with their priorities.\<close>

record mock_config =
  mx_cluster :: string
  mx_master :: string
  mx_forward_clusters :: "string list"
  mx_hosts :: "(string, int) dict"
  mx_queues :: "(string, int) dict"
  mx_default_queue :: string
  mx_max_dispatch :: int
  mx_clean_period :: py_float
  mx_first_job_id :: int

definition QUEUES :: "(string, int) dict" where
  "QUEUES = [(''priority'', 43), (''normal'', 30), (''short'', 30), (''long'', 20), (''idle'', 10)]"

definition mock_hosts :: "environ \<Rightarrow> (string, int) dict" where
  "mock_hosts env = map (\<lambda>h. (h, env_int env ''MOCKLSF_SLOTS_PER_HOST'' 16)) [''hostA'', ''hostB'', ''hostC'', ''hostD'']"

definition mock_config_of :: "environ \<Rightarrow> mock_config" where
  "mock_config_of env =
     \<lparr> mx_cluster = dget_or env ''MOCKLSF_CLUSTER'' ''mockcluster'', mx_master = dget_or env ''MOCKLSF_MASTER'' ''mockmaster'',
       mx_forward_clusters = env_list env ''MOCKLSF_FORWARD_CLUSTERS'',
       mx_hosts = mock_hosts env,
       mx_queues = QUEUES, mx_default_queue = ''normal'',
       mx_max_dispatch = env_int env ''MOCKLSF_MAX_DISPATCH_PER_TICK'' 200,
       mx_clean_period = env_float env ''MOCKLSF_CLEAN_PERIOD'' (Fin 3600),
       mx_first_job_id = env_int env ''MOCKLSF_FIRST_JOB_ID'' 1000 \<rparr>"

section \<open>The database\<close>

record mevent =
  ev_job_id :: int
  ev_array_index :: "int option"
  ev_ts :: seconds
  ev_kind :: string
  ev_detail :: string

text \<open>The rows in the order of their keys, the next key, the counter, the events, and the output files.\<close>

record mdb =
  db_jobs :: "mjob list"
  db_next_row :: nat
  db_counter :: int
  db_events :: "mevent list"
  db_outs :: "(string, string) dict"

definition new_Database :: "mock_config \<Rightarrow> mdb" where
  "new_Database cfg = \<lparr> db_jobs = [], db_next_row = 1, db_counter = mx_first_job_id cfg, db_events = [], db_outs = [] \<rparr>"

definition next_job_id :: "mdb \<Rightarrow> int \<times> mdb" where
  "next_job_id db = (db_counter db + 1, db\<lparr>db_counter := db_counter db + 1\<rparr>)"

fun insert_jobs :: "mjob list \<Rightarrow> mdb \<Rightarrow> mdb" where
  "insert_jobs [] db = db"
| "insert_jobs (j # js) db =
     insert_jobs js (db\<lparr>db_jobs := db_jobs db @ [j\<lparr>mj_row_id := db_next_row db\<rparr>], db_next_row := Suc (db_next_row db)\<rparr>)"

text \<open>An \<open>UPDATE\<close> of the row with a key.\<close>

definition on_row :: "nat \<Rightarrow> (mjob \<Rightarrow> mjob) \<Rightarrow> mdb \<Rightarrow> mdb" where
  "on_row n f db = db\<lparr>db_jobs := map (\<lambda>r. if mj_row_id r = n then f r else r) (db_jobs db)\<rparr>"

definition mock_update_job :: "mjob \<Rightarrow> mdb \<Rightarrow> mdb" where
  "mock_update_job j db = on_row (mj_row_id j) (\<lambda>_. j) db"

definition update_many :: "mjob list \<Rightarrow> mdb \<Rightarrow> mdb" where
  "update_many js db = fold mock_update_job js db"

definition update_job_group :: "nat \<Rightarrow> string \<Rightarrow> mdb \<Rightarrow> mdb" where
  "update_job_group n grp db = on_row n (\<lambda>r. r\<lparr>mj_job_group := grp\<rparr>) db"

text \<open>The columns a conditional update writes, and the ones it compares as well.\<close>

definition write_run :: "mjob \<Rightarrow> mjob \<Rightarrow> mjob" where
  "write_run j r = r\<lparr>mj_stat := mj_stat j, mj_exec_host := mj_exec_host j, mj_start_time := mj_start_time j,
     mj_finish_time := mj_finish_time j, mj_exit_code := mj_exit_code j\<rparr>"

definition same_run :: "mjob \<Rightarrow> mjob \<Rightarrow> bool" where
  "same_run r p \<longleftrightarrow> mj_stat r = mj_stat p \<and> mj_exec_host r = mj_exec_host p \<and> mj_start_time r = mj_start_time p \<and>
     mj_finish_time r = mj_finish_time p \<and> mj_exit_code r = mj_exit_code p \<and> mj_pend_secs r = mj_pend_secs p \<and>
     mj_susp_since r = mj_susp_since p"

definition has_row :: "nat \<Rightarrow> (mjob \<Rightarrow> bool) \<Rightarrow> mdb \<Rightarrow> bool" where
  "has_row n P db \<longleftrightarrow> list_ex (\<lambda>r. mj_row_id r = n \<and> P r) (db_jobs db)"

fun update_guarded_many :: "(mjob \<times> mjob) list \<Rightarrow> mdb \<Rightarrow> (mjob \<times> mjob) list \<times> mdb" where
  "update_guarded_many [] db = ([], db)"
| "update_guarded_many ((j, prev) # ps) db =
     (if has_row (mj_row_id prev) (\<lambda>r. same_run r prev) db
      then (let (applied, db') = update_guarded_many ps
                  (on_row (mj_row_id prev) (\<lambda>r. if same_run r prev then write_run j r else r) db)
            in ((j, prev) # applied, db'))
      else update_guarded_many ps db)"

datatype mcolumn = ColStat | ColExitCode | ColFinishTime | ColSuspSince | ColPendSecs

fun copy_column :: "mjob \<Rightarrow> mcolumn \<Rightarrow> mjob \<Rightarrow> mjob" where
  "copy_column j ColStat r = r\<lparr>mj_stat := mj_stat j\<rparr>"
| "copy_column j ColExitCode r = r\<lparr>mj_exit_code := mj_exit_code j\<rparr>"
| "copy_column j ColFinishTime r = r\<lparr>mj_finish_time := mj_finish_time j\<rparr>"
| "copy_column j ColSuspSince r = r\<lparr>mj_susp_since := mj_susp_since j\<rparr>"
| "copy_column j ColPendSecs r = r\<lparr>mj_pend_secs := mj_pend_secs j\<rparr>"

definition update_if_stat_in :: "mjob \<Rightarrow> mstat list \<Rightarrow> mcolumn list \<Rightarrow> mdb \<Rightarrow> bool \<times> mdb" where
  "update_if_stat_in j allowed columns db =
     (has_row (mj_row_id j) (\<lambda>r. mj_stat r \<in> set allowed) db,
      on_row (mj_row_id j) (\<lambda>r. if mj_stat r \<in> set allowed then fold (copy_column j) columns r else r) db)"

definition log_event :: "mjob \<Rightarrow> string \<Rightarrow> string \<Rightarrow> seconds \<Rightarrow> mdb \<Rightarrow> mdb" where
  "log_event j kind detail ts db =
     db\<lparr>db_events := db_events db @ [\<lparr> ev_job_id = mj_job_id j, ev_array_index = mj_array_index j, ev_ts = ts,
                                       ev_kind = kind, ev_detail = detail \<rparr>]\<rparr>"

text \<open>Reading: \<open>ORDER BY submit_time, row_id\<close> is a stable sort of the rows.\<close>

definition by_submission :: "mjob list \<Rightarrow> mjob list" where
  "by_submission js = sort_key mj_submit_time (sort_key mj_row_id js)"

definition all_jobs :: "mdb \<Rightarrow> mjob list" where
  "all_jobs db = by_submission (db_jobs db)"

definition jobs_by_id :: "int \<Rightarrow> mdb \<Rightarrow> mjob list" where
  "jobs_by_id i db = sort_key mj_array_index (filter (\<lambda>j. mj_job_id j = i) (db_jobs db))"

definition one_element :: "int \<Rightarrow> int option \<Rightarrow> mdb \<Rightarrow> mjob option" where
  "one_element i idx db = find (\<lambda>j. mj_job_id j = i \<and> mj_array_index j = idx) (db_jobs db)"

definition jobs_in_states :: "mstat list \<Rightarrow> mdb \<Rightarrow> mjob list" where
  "jobs_in_states states db = by_submission (filter (\<lambda>j. mj_stat j \<in> set states) (db_jobs db))"

definition events_for :: "int \<Rightarrow> mdb \<Rightarrow> mevent list" where
  "events_for i db = sort_key ev_ts (filter (\<lambda>e. ev_job_id e = i) (db_events db))"

end
