(* ===== verification/MockSched.thy ===== *)
theory MockSched
  imports MockDb
begin

text \<open>
  The mock scheduler (\<open>src/mocklsf/scheduler.py\<close>). A tick reads and writes the shared database in
  several transactions; its parts between two of them are functions of what was read.
\<close>

section \<open>Slots\<close>

text \<open>\<open>s.split()\<close>.\<close>

definition py_words :: "string \<Rightarrow> string list" where
  "py_words s = filter (\<lambda>w. w \<noteq> []) (py_split (CHR '' '') (map (\<lambda>c. if py_isspace c then CHR '' '' else c) s))"

definition active_by_host :: "mjob list \<Rightarrow> (string, int) dict" where
  "active_by_host js =
     fold (\<lambda>j d. case mj_exec_host j of
         None \<Rightarrow> d
       | Some h \<Rightarrow> if h = [] then d else dset h (dget_or d h 0 + mj_num_cpus j) d) js []"

text \<open>The host with the most free slots among those asked for; the first one when there are several.\<close>

definition host_candidates :: "mock_config \<Rightarrow> mjob \<Rightarrow> (string \<times> int) list" where
  "host_candidates cfg j =
     (let wanted = py_words (mj_requested_hosts j);
          filtered = filter (\<lambda>(h, n). h \<in> set wanted) (mx_hosts cfg)
      in if mj_requested_hosts j \<noteq> [] \<and> filtered \<noteq> [] then filtered else mx_hosts cfg)"

definition pick_host :: "mock_config \<Rightarrow> mjob \<Rightarrow> (string, int) dict \<Rightarrow> string option" where
  "pick_host cfg j used =
     fst (fold (\<lambda>(h, slots) (best, best_free).
         let free = slots - dget_or used h 0
         in if free \<ge> mj_num_cpus j \<and> free > best_free then (Some h, free) else (best, best_free))
       (host_candidates cfg j) (None, - 1))"

section \<open>Transitions\<close>

definition dispatch_job :: "string \<Rightarrow> seconds \<Rightarrow> mjob \<Rightarrow> mjob" where
  "dispatch_job host now j = j\<lparr>mj_stat := MRUN, mj_exec_host := Some host, mj_start_time := Some now,
     mj_finish_time := Some (now + mj_run_secs j + mj_suspend_secs j)\<rparr>"

definition finish_job :: "seconds \<Rightarrow> mjob \<Rightarrow> mjob" where
  "finish_job now j =
     j\<lparr>mj_stat := mj_planned_outcome j, mj_finish_time := Some now,
       mj_exit_code := (if mj_planned_outcome j = MEXIT \<and> mj_exit_code j = 0 then 1
                        else if mj_planned_outcome j = MDONE then 0 else mj_exit_code j)\<rparr>"

definition in_suspension :: "seconds \<Rightarrow> mjob \<Rightarrow> bool" where
  "in_suspension now j \<longleftrightarrow> mj_suspend_secs j > 0 \<and>
     (case mj_start_time j of
        None \<Rightarrow> False
      | Some s \<Rightarrow> s + mj_suspend_at j \<le> now \<and> now < s + mj_suspend_at j + mj_suspend_secs j)"

text \<open>The first half of a tick: what becomes of one active job.\<close>

definition run_change :: "seconds \<Rightarrow> mjob \<Rightarrow> mjob option" where
  "run_change now j =
     (if mj_stat j = MUSUSP then None
      else if (case mj_finish_time j of None \<Rightarrow> False | Some f \<Rightarrow> now \<ge> f) then Some (finish_job now j)
      else (let st = (if in_suspension now j then MSSUSP else MRUN)
            in if st \<noteq> mj_stat j then Some (j\<lparr>mj_stat := st\<rparr>) else None))"

definition run_changes :: "seconds \<Rightarrow> mjob list \<Rightarrow> (mjob \<times> mjob) list" where
  "run_changes now js = List.map_filter (\<lambda>j. map_option (\<lambda>k. (k, j)) (run_change now j)) js"

text \<open>The second half: the loop over the waiting jobs.\<close>

fun dispatch_loop :: "mock_config \<Rightarrow> seconds \<Rightarrow> int \<Rightarrow> mjob list \<Rightarrow> (string, int) dict \<Rightarrow> (int, int) dict \<Rightarrow> (mjob \<times> mjob) list" where
  "dispatch_loop cfg now n [] used arr = []"
| "dispatch_loop cfg now n (j # js) used arr =
     (if n \<ge> mx_max_dispatch cfg then []
      else if now - mj_submit_time j < mj_pend_secs j then dispatch_loop cfg now n js used arr
      else if mj_array_limit j > 0 \<and> dget_or arr (mj_job_id j) 0 \<ge> mj_array_limit j then dispatch_loop cfg now n js used arr
      else (case pick_host cfg j used of
              None \<Rightarrow> dispatch_loop cfg now n js used arr
            | Some h \<Rightarrow>
                (dispatch_job h now j, j) #
                dispatch_loop cfg now (n + 1) js (dset h (dget_or used h 0 + mj_num_cpus j) used)
                  (if is_array j then dset (mj_job_id j) (dget_or arr (mj_job_id j) 0 + 1) arr else arr)))"

definition array_active :: "mjob list \<Rightarrow> (int, int) dict" where
  "array_active js = fold (\<lambda>j d. if is_array j then dset (mj_job_id j) (dget_or d (mj_job_id j) 0 + 1) d else d) js []"

definition dispatch_changes :: "mock_config \<Rightarrow> seconds \<Rightarrow> mjob list \<Rightarrow> mjob list \<Rightarrow> (mjob \<times> mjob) list" where
  "dispatch_changes cfg now still_active pend =
     dispatch_loop cfg now 0 (sort_key (\<lambda>j. - dget_or (mx_queues cfg) (mj_queue j) 0) pend)
       (active_by_host still_active) (array_active still_active)"

section \<open>Output and events\<close>

definition job_out_path :: "mjob \<Rightarrow> string" where
  "job_out_path j =
     show_int (mj_job_id j) @ (case mj_array_index j of None \<Rightarrow> [] | Some i \<Rightarrow> CHR ''.'' # show_int i) @ ''.out''"

abbreviation nl :: string where
  "nl \<equiv> [CHR 0x0A]"

definition write_job_banner :: "mjob \<Rightarrow> string \<Rightarrow> mdb \<Rightarrow> mdb" where
  "write_job_banner j host db =
     db\<lparr>db_outs := dset (job_out_path j)
       (''<< output from job '' @ display_id j @ '' >>'' @ nl @
        ''Job <'' @ display_id j @ ''> is running on host <'' @ host @ ''>.'' @ nl @
        ''Command: '' @ mj_command j @ nl @ ''Starting execution...'' @ nl) (db_outs db)\<rparr>"

definition write_job_result :: "mjob \<Rightarrow> mdb \<Rightarrow> mdb" where
  "write_job_result j db =
     db\<lparr>db_outs := dset (job_out_path j)
       (dget_or (db_outs db) (job_out_path j) [] @
        (if mj_stat j = MDONE then nl @ ''Successfully completed.'' @ nl
         else nl @ ''Exited with exit code '' @ show_int (mj_exit_code j) @ ''.'' @ nl)) (db_outs db)\<rparr>"

definition host_text :: "mjob \<Rightarrow> string" where
  "host_text j = (case mj_exec_host j of None \<Rightarrow> [] | Some h \<Rightarrow> h)"

definition mock_note_transition :: "seconds \<Rightarrow> mjob \<times> mjob \<Rightarrow> mdb \<Rightarrow> mdb" where
  "mock_note_transition now p db =
     (case p of (j, prev) \<Rightarrow>
        (if mj_stat prev = MPEND then write_job_banner j (host_text j) (log_event j ''dispatch'' (host_text j) now db)
         else if mj_stat j \<in> {MDONE, MEXIT}
         then write_job_result j (log_event j (if mj_stat j = MDONE then ''done'' else ''exit'')
                (''exit_code='' @ show_int (mj_exit_code j)) now db)
         else log_event j (if mj_stat j = MSSUSP then ''suspend'' else ''resume'') ''system'' now db))"

definition apply_transitions :: "seconds \<Rightarrow> (mjob \<times> mjob) list \<Rightarrow> mdb \<Rightarrow> mdb" where
  "apply_transitions now changed db =
     (let (applied, db') = update_guarded_many changed db in fold (mock_note_transition now) applied db')"

text \<open>A tick with nothing in between.\<close>

definition sched_tick :: "mock_config \<Rightarrow> seconds \<Rightarrow> mdb \<Rightarrow> mdb" where
  "sched_tick cfg now db =
     (let db1 = apply_transitions now (run_changes now (jobs_in_states ACTIVE_STATES db)) db
      in apply_transitions now
           (dispatch_changes cfg now (jobs_in_states ACTIVE_STATES db1) (jobs_in_states [MPEND] db1)) db1)"

end
