(* ===== verification/MockSubmit.thy ===== *)
theory MockSubmit
  imports MockSched Command
begin

text \<open>
  The mock \<open>bsub\<close> (\<open>src/mocklsf/submit.py\<close>): its arguments, the array notation, and the jobs it
  makes. What \<open>random\<close> draws is an argument; a \<open>SubmitError\<close> is its message.
\<close>

section \<open>Arguments\<close>

definition ARG_OPTS :: "string list" where
  "ARG_OPTS = [''-q'', ''-m'', ''-J'', ''-n'', ''-P'', ''-o'', ''-e'', ''-oo'', ''-eo'', ''-R'', ''-W'',
     ''-w'', ''-app'', ''-g'', ''-sp'', ''-cwd'', ''-M'', ''-u'', ''-jsdl'', ''-Jd'', ''-L'',
     ''-E'', ''-Ep'', ''-pre'', ''-post'', ''-C'', ''-c'', ''-D'', ''-S'', ''-F'', ''-T'',
     ''-G'', ''-Lp'', ''-U'', ''-rnc'', ''-XF'']"

record bsub_opts =
  bo_queue :: "string option"
  bo_hosts :: "string list"
  bo_job_name :: "string option"
  bo_num_cpus :: int
  bo_proj :: string
  bo_group :: string
  bo_cwd :: string

definition default_bsub_opts :: "string \<Rightarrow> bsub_opts" where
  "default_bsub_opts cwd = \<lparr> bo_queue = None, bo_hosts = [], bo_job_name = None, bo_num_cpus = 1, bo_proj = ''default'',
     bo_group = [], bo_cwd = cwd \<rparr>"

definition set_bsub_opt :: "string \<Rightarrow> string \<Rightarrow> bsub_opts \<Rightarrow> bsub_opts" where
  "set_bsub_opt tok val opts =
     (if tok = ''-q'' then opts\<lparr>bo_queue := Some val\<rparr>
      else if tok = ''-m'' then opts\<lparr>bo_hosts := py_words val\<rparr>
      else if tok = ''-J'' then opts\<lparr>bo_job_name := Some val\<rparr>
      else if tok = ''-n'' then opts\<lparr>bo_num_cpus := (if digits_of val = [] then 1 else int_of_digits (digits_of val))\<rparr>
      else if tok = ''-P'' then opts\<lparr>bo_proj := val\<rparr>
      else if tok = ''-g'' then opts\<lparr>bo_group := val\<rparr>
      else if tok = ''-cwd'' then opts\<lparr>bo_cwd := val\<rparr>
      else opts)"

fun parse_args :: "bsub_opts \<Rightarrow> string list \<Rightarrow> bsub_opts \<times> string list" where
  "parse_args opts [] = (opts, [])"
| "parse_args opts [tok] =
     (if \<not> starts_with ''-'' tok then (opts, [tok])
      else if tok \<in> set ARG_OPTS then (set_bsub_opt tok [] opts, [])
      else (opts, []))"
| "parse_args opts (tok # val # rest) =
     (if \<not> starts_with ''-'' tok then (opts, tok # val # rest)
      else if tok \<in> set ARG_OPTS then parse_args (set_bsub_opt tok val opts) rest
      else parse_args opts (val # rest))"

section \<open>Arrays\<close>

text \<open>
  The pattern of an array name: a base, a body in brackets, a limit after a percent sign, blanks.
  The base is as long as possible.
\<close>

definition array_tail :: "string \<Rightarrow> (string \<times> int) option" where
  "array_tail s =
     (let body = takeWhile (\<lambda>c. c \<noteq> CHR '']'') s; r = drop (length body) s
      in if body = [] \<or> r = [] then None
         else (case tl r of
                 [] \<Rightarrow> Some (body, 0)
               | c # u \<Rightarrow>
                   (if c = CHR ''%'' then
                      (let ds = digits_of u
                       in if ds \<noteq> [] \<and> list_all py_isspace (drop (length ds) u) then Some (body, int_of_digits ds) else None)
                    else if list_all py_isspace (c # u) then Some (body, 0) else None)))"

definition array_match :: "string \<Rightarrow> (string \<times> string \<times> int) option" where
  "array_match name =
     (case List.map_filter (\<lambda>i.
           if name ! i = CHR ''['' \<and> CHR 0x0A \<notin> set (take i name)
           then map_option (\<lambda>(body, limit). (take i name, body, limit)) (array_tail (drop (Suc i) name)) else None)
         (rev [0..<length name]) of
        [] \<Rightarrow> None | m # _ \<Rightarrow> Some m)"

text \<open>\<open>range(lo, hi + 1, step)\<close> for a positive step.\<close>

definition py_range :: "int \<Rightarrow> int \<Rightarrow> int \<Rightarrow> int list" where
  "py_range lo hi step = (if hi < lo then [] else map (\<lambda>k. lo + step * int k) [0..<nat ((hi - lo) div step + 1)])"

definition split_at_char :: "char \<Rightarrow> string \<Rightarrow> string \<times> string" where
  "split_at_char c s = (let a = takeWhile (\<lambda>x. x \<noteq> c) s in (a, drop (Suc (length a)) s))"

text \<open>The indices of one part of the body; \<open>None\<close> is the \<open>ValueError\<close>.\<close>

definition part_indices :: "string \<Rightarrow> int list option" where
  "part_indices part =
     (if part = [] then Some []
      else if CHR ''-'' \<in> set part then
        (let (rng, st) = split_at_char (CHR '':'') part; (lo, hi) = split_at_char (CHR ''-'') rng
         in (case (if st = [] then Some 1 else py_int_of_string st, py_int_of_string lo, py_int_of_string hi) of
               (Some n, Some a, Some b) \<Rightarrow> (if n \<le> 0 then None else Some (py_range a b n))
             | _ \<Rightarrow> None))
      else map_option (\<lambda>i. [i]) (py_int_of_string part))"

fun parts_indices :: "string list \<Rightarrow> int list option" where
  "parts_indices [] = Some []"
| "parts_indices (p # ps) =
     (case part_indices (py_strip p) of
        None \<Rightarrow> None | Some a \<Rightarrow> map_option (\<lambda>b. a @ b) (parts_indices ps))"

definition parse_array_spec :: "string option \<Rightarrow> string + (string option \<times> int list \<times> int)" where
  "parse_array_spec name =
     (case name of
        None \<Rightarrow> Inr (None, [], 0)
      | Some s \<Rightarrow>
          (case array_match s of
             None \<Rightarrow> Inr (Some s, [], 0)
           | Some (base, body, limit) \<Rightarrow>
               (case parts_indices (py_split (CHR '','') body) of
                  None \<Rightarrow> Inl (''Bad job name. Job array specification <['' @ body @ '']> is invalid.'')
                | Some [] \<Rightarrow> Inl (''Bad job name. Job array specification <['' @ body @ '']> is empty.'')
                | Some idx \<Rightarrow> Inr (Some base, idx, limit))))"

section \<open>Jobs\<close>

definition queue_of_opts :: "mock_config \<Rightarrow> bsub_opts \<Rightarrow> string + string" where
  "queue_of_opts cfg opts =
     (let q = (case bo_queue opts of None \<Rightarrow> mx_default_queue cfg | Some q \<Rightarrow> if q = [] then mx_default_queue cfg else q)
      in if dhas (mx_queues cfg) q then Inr q
         else Inl (''Queue <'' @ q @ ''> is not defined in the LSF configuration.''))"

definition precheck :: "mock_config \<Rightarrow> bsub_opts \<Rightarrow> string + unit" where
  "precheck cfg opts =
     (case queue_of_opts cfg opts of
        Inl e \<Rightarrow> Inl e
      | Inr _ \<Rightarrow> (case parse_array_spec (bo_job_name opts) of Inl e \<Rightarrow> Inl e | Inr _ \<Rightarrow> Inr ()))"

text \<open>The times and rates of the configuration, and the numbers drawn for one job.\<close>

record timing_config =
  tc_pend :: "seconds \<times> seconds"
  tc_run :: "seconds \<times> seconds"
  tc_suspend :: "seconds \<times> seconds"
  tc_exit_rate :: real
  tc_suspend_rate :: real
  tc_submit_fail_rate :: real
  tc_forward_rate :: real

record job_draws =
  jd_pend :: real
  jd_run :: real
  jd_exit :: real
  jd_code :: nat
  jd_suspend :: real
  jd_suspend_at :: real
  jd_suspend_secs :: real

definition uniform :: "seconds \<times> seconds \<Rightarrow> real \<Rightarrow> seconds" where
  "uniform r u = fst r + (snd r - fst r) * u"

definition EXIT_CODES :: "int list" where
  "EXIT_CODES = [1, 2, 127, 130, 137, 143, 255]"

definition plan_timing :: "timing_config \<Rightarrow> job_draws \<Rightarrow> mjob \<Rightarrow> mjob" where
  "plan_timing tc d j =
     (let run = uniform (tc_run tc) (jd_run d); fails = jd_exit d < tc_exit_rate tc;
          susp = jd_suspend d < tc_suspend_rate tc \<and> run > 2
      in j\<lparr>mj_pend_secs := uniform (tc_pend tc) (jd_pend d), mj_run_secs := run,
           mj_planned_outcome := (if fails then MEXIT else MDONE),
           mj_exit_code := (if fails then EXIT_CODES ! jd_code d else 0),
           mj_suspend_at := (if susp then uniform (1, run - 1) (jd_suspend_at d) else 0),
           mj_suspend_secs := (if susp then uniform (tc_suspend tc) (jd_suspend_secs d) else 0)\<rparr>)"

text \<open>The cluster that all jobs of one submission are forwarded to: the draw, and the choice.\<close>

definition forwarded_to :: "mock_config \<Rightarrow> timing_config \<Rightarrow> real \<times> nat \<Rightarrow> string" where
  "forwarded_to cfg tc u =
     (if mx_forward_clusters cfg = [] then [] else if fst u < tc_forward_rate tc then mx_forward_clusters cfg ! snd u else [])"

definition build_jobs :: "mock_config \<Rightarrow> timing_config \<Rightarrow> string \<Rightarrow> real \<times> nat \<Rightarrow> (nat \<Rightarrow> job_draws) \<Rightarrow> seconds \<Rightarrow> int
    \<Rightarrow> bsub_opts \<Rightarrow> string list \<Rightarrow> string + mjob list" where
  "build_jobs cfg tc user fwd draws now job_id opts command =
     (case queue_of_opts cfg opts of
        Inl e \<Rightarrow> Inl e
      | Inr queue \<Rightarrow>
          (case parse_array_spec (bo_job_name opts) of
             Inl e \<Rightarrow> Inl e
           | Inr (base, indices, limit) \<Rightarrow>
               (let cmd = (if command = [] then ''/bin/sleep 30'' else py_join '' '' command);
                    mk = (\<lambda>n idx. plan_timing tc (draws n)
                      \<lparr> mj_row_id = 0, mj_job_id = job_id, mj_user = user, mj_command = cmd, mj_queue = queue,
                        mj_from_host = mx_master cfg,
                        mj_job_name = (case base of None \<Rightarrow> cmd | Some b \<Rightarrow> if b = [] then cmd else b),
                        mj_submit_time = now, mj_stat = MPEND, mj_array_index = idx, mj_array_size = int (length indices),
                        mj_array_limit = limit, mj_exec_host = None, mj_start_time = None, mj_finish_time = None,
                        mj_pend_secs = 0, mj_run_secs = 0, mj_planned_outcome = MDONE, mj_exit_code = 0, mj_suspend_at = 0,
                        mj_suspend_secs = 0, mj_susp_since = 0, mj_num_cpus = bo_num_cpus opts,
                        mj_requested_hosts = py_join '' '' (bo_hosts opts), mj_proj = bo_proj opts,
                        mj_job_group = bo_group opts, mj_cwd = bo_cwd opts,
                        mj_source_cluster = (if mx_forward_clusters cfg = [] then [] else mx_cluster cfg),
                        mj_forward_cluster = forwarded_to cfg tc fwd \<rparr>)
                in Inr (if indices = [] then [mk 0 None] else map2 (\<lambda>n i. mk n (Some i)) [0..<length indices] indices))))"

definition SUBMIT_FAIL_MSGS :: "string list" where
  "SUBMIT_FAIL_MSGS =
     [''Failed in an LSF library call: Slave LIM configuration is not ready yet'',
      ''batch daemon (mbatchd) not responding: cannot open connection'',
      ''LSF daemon (LIM) not responding: still trying'']"

definition should_fail :: "timing_config \<Rightarrow> real \<times> nat \<Rightarrow> string option" where
  "should_fail tc u = (if fst u < tc_submit_fail_rate tc then Some (SUBMIT_FAIL_MSGS ! snd u) else None)"

end
