(* ===== verification/MockFormats.thy ===== *)
theory MockFormats
  imports MockSched StatusPayload
begin

text \<open>
  The output of the mock \<open>bjobs\<close> (\<open>src/mocklsf/formats.py\<close>). The conversion of a time to local
  calendar time is an argument; with it comes the day of the week, Monday being 0.
\<close>

section \<open>Times and columns\<close>

type_synonym local_time = "seconds \<Rightarrow> civil \<times> nat"

definition MONTH_NAMES :: "string list" where
  "MONTH_NAMES = [''Jan'', ''Feb'', ''Mar'', ''Apr'', ''May'', ''Jun'', ''Jul'', ''Aug'', ''Sep'', ''Oct'', ''Nov'', ''Dec'']"

definition DAY_NAMES :: "string list" where
  "DAY_NAMES = [''Mon'', ''Tue'', ''Wed'', ''Thu'', ''Fri'', ''Sat'', ''Sun'']"

definition pad_with :: "char \<Rightarrow> int \<Rightarrow> string" where
  "pad_with c n = (if n < 10 then c # show_int n else show_int n)"

text \<open>\<open>"%b %e %H:%M"\<close>, with the seconds, and with the day of the week.\<close>

definition strf_minute :: "civil \<Rightarrow> string" where
  "strf_minute c = MONTH_NAMES ! nat (cv_month c - 1) @ '' '' @ pad_with (CHR '' '') (cv_day c) @ '' '' @
     pad_with (CHR ''0'') (cv_hour c) @ '':'' @ pad_with (CHR ''0'') (cv_minute c)"

definition strf_second :: "civil \<Rightarrow> string" where
  "strf_second c = strf_minute c @ '':'' @ pad_with (CHR ''0'') (cv_second c)"

definition strf_weekday :: "civil \<times> nat \<Rightarrow> string" where
  "strf_weekday c = DAY_NAMES ! snd c @ '' '' @ strf_second (fst c)"

definition fmt_submit_time :: "local_time \<Rightarrow> seconds option \<Rightarrow> string" where
  "fmt_submit_time lt epoch = (case epoch of None \<Rightarrow> ''-'' | Some t \<Rightarrow> strf_minute (fst (lt t)))"

definition fmt_o_time :: "local_time \<Rightarrow> seconds option \<Rightarrow> string" where
  "fmt_o_time lt epoch = (case epoch of None \<Rightarrow> ''-'' | Some t \<Rightarrow> strf_second (fst (lt t)))"

definition trunc_name :: "string \<Rightarrow> nat \<Rightarrow> string" where
  "trunc_name name width = (if length name \<le> width then name else CHR ''*'' # drop (length name - (width - 1)) name)"

definition exec_host_str :: "mjob \<Rightarrow> string" where
  "exec_host_str j =
     (if host_text j = [] \<or> mj_stat j = MPEND then []
      else if mj_num_cpus j > 1 then show_int (mj_num_cpus j) @ ''*'' @ host_text j
      else host_text j)"

section \<open>The tables\<close>

definition ljust :: "nat \<Rightarrow> string \<Rightarrow> string" where
  "ljust w s = s @ replicate (w - length s) (CHR '' '')"

definition table_row :: "string list \<Rightarrow> string" where
  "table_row cells = py_join '' '' (map2 ljust [7, 7, 5, 10, 11, 11, 10, 0] cells)"

definition DEFAULT_HEADER :: string where
  "DEFAULT_HEADER = table_row [''JOBID'', ''USER'', ''STAT'', ''QUEUE'', ''FROM_HOST'', ''EXEC_HOST'', ''JOB_NAME'', ''SUBMIT_TIME'']"

definition default_row :: "local_time \<Rightarrow> bool \<Rightarrow> mjob \<Rightarrow> string" where
  "default_row lt wide j =
     (let cut = (\<lambda>w s. if wide then s else take w s)
      in table_row [display_id j, cut 7 (mj_user j), stat_text (mj_stat j), cut 10 (mj_queue j), cut 11 (mj_from_host j),
           cut 11 (exec_host_str j), if wide then mj_job_name j else trunc_name (mj_job_name j) 10,
           fmt_submit_time lt (Some (mj_submit_time j))])"

definition default_table :: "local_time \<Rightarrow> bool \<Rightarrow> mjob list \<Rightarrow> string" where
  "default_table lt wide js = py_join nl (DEFAULT_HEADER # map (default_row lt wide) js)"

text \<open>A time that counts as one: \<open>None\<close> and 0 do not.\<close>

definition truthy_time :: "seconds option \<Rightarrow> bool" where
  "truthy_time t \<longleftrightarrow> t \<noteq> None \<and> t \<noteq> Some 0"

definition long_one :: "local_time \<Rightarrow> mjob \<Rightarrow> string" where
  "long_one lt j = py_join nl
     ([''Job <'' @ display_id j @ ''>, Job Name <'' @ mj_job_name j @ ''>, User <'' @ mj_user j @ ''>, Project <'' @
         mj_proj j @ ''>, Status <'' @ stat_text (mj_stat j) @ ''>, Queue <'' @ mj_queue j @ ''>, Command <'' @ mj_command j @ ''>'',
       strf_weekday (lt (mj_submit_time j)) @ '': Submitted from host <'' @ mj_from_host j @ ''>, CWD <$HOME>, '' @
         show_int (mj_num_cpus j) @ '' Processors Requested;''] @
      (if truthy_time (mj_start_time j)
       then [strf_weekday (lt (the (mj_start_time j))) @ '': Started on <'' @
               (case mj_exec_host j of None \<Rightarrow> ''None'' | Some h \<Rightarrow> h) @ ''>;''] else []) @
      (if truthy_time (mj_finish_time j) \<and> mfinished j
       then [strf_weekday (lt (the (mj_finish_time j))) @ '': '' @
               (if mj_stat j = MDONE then ''Done successfully'' else ''Exited with exit code '' @ show_int (mj_exit_code j)) @ '';'']
       else []))"

definition long_format :: "local_time \<Rightarrow> mjob list \<Rightarrow> string" where
  "long_format lt js = py_join (nl @ replicate 78 (CHR ''-'') @ nl) (map (long_one lt) js)"

section \<open>Chosen fields\<close>

definition or_dash :: "string \<Rightarrow> string" where
  "or_dash s = (if s = [] then ''-'' else s)"

definition run_time_text :: "seconds \<Rightarrow> mjob \<Rightarrow> string" where
  "run_time_text now j =
     (if \<not> truthy_time (mj_start_time j) then ''-''
      else (let end_t = (if mfinished j \<and> truthy_time (mj_finish_time j) then the (mj_finish_time j) else now)
            in show_int (max 0 (py_int_of_real (end_t - the (mj_start_time j)))) @ '' second(s)''))"

definition field_value :: "local_time \<Rightarrow> seconds \<Rightarrow> mjob \<Rightarrow> string \<Rightarrow> string" where
  "field_value lt now j name0 =
     (let name = py_lower name0
      in if name \<in> {''jobid'', ''id''} then display_id j
         else if name = ''jobindex'' then (case mj_array_index j of None \<Rightarrow> ''0'' | Some i \<Rightarrow> show_int i)
         else if name = ''stat'' then stat_text (mj_stat j)
         else if name = ''queue'' then mj_queue j
         else if name = ''user'' then mj_user j
         else if name \<in> {''job_name'', ''name''} then mj_job_name j
         else if name = ''job_description'' then []
         else if name = ''from_host'' then mj_from_host j
         else if name = ''exec_host'' then or_dash (exec_host_str j)
         else if name = ''command'' then mj_command j
         else if name = ''submit_time'' then fmt_submit_time lt (Some (mj_submit_time j))
         else if name = ''start_time'' then (if truthy_time (mj_start_time j) then fmt_o_time lt (mj_start_time j) else ''-'')
         else if name = ''finish_time'' then
           (if mfinished j \<and> truthy_time (mj_finish_time j) then fmt_o_time lt (mj_finish_time j) else ''-'')
         else if name = ''run_time'' then run_time_text now j
         else if name \<in> {''exec_cwd'', ''sub_cwd''} then or_dash (mj_cwd j)
         else if name = ''exit_code'' then (if mfinished j then show_int (mj_exit_code j) else ''-'')
         else if name \<in> {''nreq_slot'', ''slots'', ''nalloc_slot'', ''min_req_proc''} then show_int (mj_num_cpus j)
         else if name = ''proj_name'' then mj_proj j
         else if name = ''source_cluster'' then or_dash (mj_source_cluster j)
         else if name = ''forward_cluster'' then or_dash (mj_forward_cluster j)
         else ''-'')"

text \<open>The keyword \<open>delimiter='X'\<close>, quoted or not, where a token begins: its value and what follows.\<close>

definition match_delim :: "string \<Rightarrow> (string \<times> string) option" where
  "match_delim s =
     (let s1 = (if starts_with ''-'' s then tl s else s); v = drop 10 s1;
          quoted = (\<lambda>q. v \<noteq> [] \<and> hd v = q \<and> q \<in> set (tl v));
          inside = (\<lambda>q. (takeWhile (\<lambda>c. c \<noteq> q) (tl v), tl (dropWhile (\<lambda>c. c \<noteq> q) (tl v))))
      in if \<not> starts_with ''delimiter='' (py_lower (take 10 s1)) then None
         else if quoted (CHR 0x27) then Some (inside (CHR 0x27))
         else if quoted (CHR 0x22) then Some (inside (CHR 0x22))
         else if v \<noteq> [] \<and> \<not> py_isspace (hd v)
         then Some (takeWhile (\<lambda>c. \<not> py_isspace c) v, dropWhile (\<lambda>c. \<not> py_isspace c) v)
         else None)"

fun find_delim :: "bool \<Rightarrow> string \<Rightarrow> string \<Rightarrow> (string \<times> string \<times> string) option" where
  "find_delim starts pre [] = None"
| "find_delim starts pre (c # s) =
     (case (if starts then match_delim (c # s) else None) of
        Some (v, r) \<Rightarrow> Some (pre, v, r)
      | None \<Rightarrow> find_delim (py_isspace c) (pre @ [c]) s)"

definition extract_delimiter :: "string \<Rightarrow> string \<times> string option" where
  "extract_delimiter spec =
     (case find_delim True [] spec of
        None \<Rightarrow> (spec, None)
      | Some (pre, v, r) \<Rightarrow> (py_join '' '' (py_words (pre @ '' '' @ r)), Some v))"

definition parse_o_spec :: "string \<Rightarrow> (string \<times> int option) list" where
  "parse_o_spec spec =
     map (\<lambda>tok. case py_partition (CHR '':'') tok of
         (name, None) \<Rightarrow> (tok, None) | (name, Some w) \<Rightarrow> (name, py_int_of_string w)) (py_words spec)"

definition py_rstrip :: "string \<Rightarrow> string" where
  "py_rstrip s = rev (py_lstrip (rev s))"

text \<open>\<open>v[:w]\<close>, also for a negative width.\<close>

definition cut_to :: "int \<Rightarrow> string \<Rightarrow> string" where
  "cut_to w v = (if int (length v) \<le> w then v else if w \<ge> 0 then take (nat w) v else take (length v - nat (- w)) v)"

definition fmt_line :: "int list \<Rightarrow> string list \<Rightarrow> string" where
  "fmt_line widths vals =
     py_rstrip (py_join '' '' (map2 (\<lambda>i (w, v). if Suc i = length vals then cut_to w v else ljust (nat w) (cut_to w v))
       [0..<length vals] (zip widths vals)))"

definition custom_format :: "local_time \<Rightarrow> seconds \<Rightarrow> mjob list \<Rightarrow> string \<Rightarrow> bool \<Rightarrow> string option \<Rightarrow> string" where
  "custom_format lt now js spec0 noheader delim0 =
     (let (spec, embedded) = extract_delimiter spec0;
          delim = (case embedded of None \<Rightarrow> delim0 | Some d \<Rightarrow> Some d);
          cols = parse_o_spec spec;
          header = map (\<lambda>c. map py_upper_char (fst c)) cols;
          rows = map (\<lambda>j. map (\<lambda>c. field_value lt now j (fst c)) cols) js;
          all = (if noheader then rows else header # rows)
      in case delim of
           Some d \<Rightarrow> py_join nl (map (py_join d) all)
         | None \<Rightarrow>
             (let widths = map (\<lambda>i. case snd (cols ! i) of
                    Some w \<Rightarrow> w
                  | None \<Rightarrow> fold max (map (\<lambda>r. int (length (r ! i))) rows) (int (length (header ! i)))) [0..<length cols]
              in py_join nl (map (fmt_line widths) all)))"

section \<open>JSON\<close>

definition json_char :: "char \<Rightarrow> string" where
  "json_char c =
     (let bs = CHR 0x5C; n = (of_char c :: nat);
          hex = (\<lambda>k. if k < 10 then digit_char k else char_of (87 + k))
      in if c = CHR 0x22 then [bs, c] else if c = bs then [bs, bs]
         else if n = 10 then [bs, CHR ''n''] else if n = 13 then [bs, CHR ''r''] else if n = 9 then [bs, CHR ''t'']
         else if n = 8 then [bs, CHR ''b''] else if n = 12 then [bs, CHR ''f'']
         else if n < 32 then [bs, CHR ''u'', CHR ''0'', CHR ''0'', hex (n div 16), hex (n mod 16)] else [c])"

definition json_string :: "string \<Rightarrow> string" where
  "json_string s = [CHR 0x22] @ concat (map json_char s) @ [CHR 0x22]"

text \<open>\<open>json.dumps\<close> with an indentation of two of an object and of a list, \<open>n\<close> levels deep.\<close>

definition json_block :: "nat \<Rightarrow> char \<Rightarrow> char \<Rightarrow> string list \<Rightarrow> string" where
  "json_block n opening closing items =
     (if items = [] then [opening, closing]
      else [opening] @ nl @ replicate (2 * n + 2) (CHR '' '') @
           py_join ('','' @ nl @ replicate (2 * n + 2) (CHR '' '')) items @ nl @ replicate (2 * n) (CHR '' '') @ [closing])"

definition json_record :: "(string, string) dict \<Rightarrow> string" where
  "json_record rec = json_block 2 (CHR ''{'') (CHR ''}'') (map (\<lambda>(k, v). json_string k @ '': '' @ json_string v) rec)"

definition json_columns :: "string option \<Rightarrow> string list" where
  "json_columns spec =
     (case spec of
        None \<Rightarrow> [''jobid'', ''stat'', ''user'', ''queue'', ''from_host'', ''exec_host'', ''job_name'', ''submit_time'']
      | Some s \<Rightarrow>
          (if s = [] then [''jobid'', ''stat'', ''user'', ''queue'', ''from_host'', ''exec_host'', ''job_name'', ''submit_time'']
           else map fst (parse_o_spec (fst (extract_delimiter s)))))"

definition json_format :: "local_time \<Rightarrow> seconds \<Rightarrow> mjob list \<Rightarrow> string option \<Rightarrow> string" where
  "json_format lt now js spec =
     (let recs = map (\<lambda>j. fold (\<lambda>name d. dset (map py_upper_char name) (field_value lt now j name) d) (json_columns spec) []) js
      in json_block 0 (CHR ''{'') (CHR ''}'')
           [json_string ''COMMAND'' @ '': '' @ json_string ''bjobs'',
            json_string ''JOBS'' @ '': '' @ show_int (int (length recs)),
            json_string ''RECORDS'' @ '': '' @ json_block 1 (CHR ''['') (CHR '']'') (map json_record recs)])"

end
