(* ===== verification/MockCli.thy ===== *)
theory MockCli
  imports MockSubmit MockFormats
begin

text \<open>
  The mock commands (\<open>src/mocklsf/cli.py\<close>). A command's effect on the database and its output are
  functions of its arguments, the time and the user; the body of each loop over jobs is a
  definition of its own, because every turn is a transaction that others may run between.
\<close>

datatype out_line = Out string | Err string

type_synonym cli_result = "int \<times> out_line list \<times> mdb"

section \<open>Arguments and targets\<close>

definition VALUE_OPTS :: "string list" where
  "VALUE_OPTS = [''-J'', ''-g'', ''-q'', ''-m'', ''-u'', ''-P'', ''-app'', ''-n'', ''-C'', ''-S'', ''-D'', ''-T'', ''-L'']"

fun positional_args :: "string list \<Rightarrow> string list" where
  "positional_args [] = []"
| "positional_args [tok] = (if tok \<in> set VALUE_OPTS \<or> starts_with ''-'' tok then [] else [tok])"
| "positional_args (tok # val # rest) =
     (if tok \<in> set VALUE_OPTS then positional_args rest
      else if starts_with ''-'' tok then positional_args (val # rest)
      else tok # positional_args (val # rest))"

fun collect_names :: "string \<Rightarrow> string list \<Rightarrow> string list" where
  "collect_names opt (tok # val # rest) =
     (if tok = opt then val # collect_names opt rest else collect_names opt (val # rest))"
| "collect_names opt _ = []"

text \<open>A job, or one element; the numbers are read by \<open>int\<close>.\<close>

datatype spec_index = AllElements | Element int

definition parse_job_spec :: "string \<Rightarrow> (int \<times> spec_index) option" where
  "parse_job_spec tok =
     (let s = py_strip tok
      in if s \<noteq> [] \<and> last s = CHR '']'' \<and> CHR ''['' \<in> set s
         then (let (base, rest) = split_at_char (CHR ''['') s
               in case (py_int_of_string base, py_int_of_string (butlast rest)) of
                    (Some a, Some i) \<Rightarrow> Some (a, Element i) | _ \<Rightarrow> None)
         else map_option (\<lambda>a. (a, AllElements)) (py_int_of_string s))"

definition spec_jobs :: "mdb \<Rightarrow> int \<times> spec_index \<Rightarrow> mjob list" where
  "spec_jobs db sp =
     (case snd sp of
        AllElements \<Rightarrow> jobs_by_id (fst sp) db
      | Element i \<Rightarrow> filter (\<lambda>j. mj_array_index j = Some i) (jobs_by_id (fst sp) db))"

text \<open>\<open>add_new\<close>: a job whose row was not seen is appended.\<close>

definition add_new :: "mjob \<Rightarrow> mjob list \<Rightarrow> mjob list" where
  "add_new j js = (if mj_row_id j \<in> mj_row_id ` set js then js else js @ [j])"

definition collect_by_specs :: "mdb \<Rightarrow> string list \<Rightarrow> mjob list \<times> string list" where
  "collect_by_specs db specs =
     fold (\<lambda>tok (jobs, missing).
         case parse_job_spec tok of
           None \<Rightarrow> (jobs, missing @ [tok])
         | Some sp \<Rightarrow>
             (let found = spec_jobs db sp
              in if found = [] then (jobs, missing @ [tok]) else (fold add_new found jobs, missing)))
       specs ([], [])"

definition purged :: "mock_config \<Rightarrow> seconds \<Rightarrow> mjob \<Rightarrow> bool" where
  "purged cfg now j \<longleftrightarrow> mfinished j \<and> truthy_time (mj_finish_time j) \<and>
     \<not> fl_ge (mx_clean_period cfg) (now - the (mj_finish_time j)) \<and> mx_clean_period cfg \<noteq> NaN"

definition no_match :: "string \<Rightarrow> out_line" where
  "no_match tok = Err (''Job <'' @ tok @ ''>: No matching job found'')"

section \<open>bsub\<close>

record bsub_draws =
  sd_fail :: "real \<times> nat"
  sd_forward :: "real \<times> nat"
  sd_jobs :: "nat \<Rightarrow> job_draws"

text \<open>\<open>stdin\<close>: what a standard input that is no terminal holds.\<close>

definition bsub_command :: "string list \<Rightarrow> string option \<Rightarrow> string list" where
  "bsub_command command stdin =
     (if command \<noteq> [] then command
      else (case stdin of
              None \<Rightarrow> []
            | Some s \<Rightarrow> (if py_strip s = [] then [] else [hd (py_splitlines (py_strip s))])))"

definition refused :: "string \<Rightarrow> mdb \<Rightarrow> cli_result" where
  "refused msg db = (255, [Err msg, Err ''Job not submitted.''], db)"

definition cmd_bsub :: "mock_config \<Rightarrow> timing_config \<Rightarrow> string \<Rightarrow> string \<Rightarrow> string option \<Rightarrow> bsub_draws \<Rightarrow> seconds
    \<Rightarrow> string list \<Rightarrow> mdb \<Rightarrow> cli_result" where
  "cmd_bsub cfg tc user cwd stdin draws now argv db =
     (let (opts, command0) = parse_args (default_bsub_opts cwd) argv;
          command = bsub_command command0 stdin
      in case should_fail tc (sd_fail draws) of
           Some msg \<Rightarrow> refused msg db
         | None \<Rightarrow>
             (case precheck cfg opts of
                Inl e \<Rightarrow> refused e db
              | Inr _ \<Rightarrow>
                  (let (i, db1) = next_job_id db
                   in case build_jobs cfg tc user (sd_forward draws) (sd_jobs draws) now i opts command of
                        Inl e \<Rightarrow> refused e db1
                      | Inr js \<Rightarrow>
                          (let db2 = fold (\<lambda>j. log_event j ''submit'' (mj_queue j) (mj_submit_time j)) js (insert_jobs js db1);
                               queue = mj_queue (hd js)
                           in (0, [Out (''Job <'' @ show_int i @ ''> is submitted to '' @
                                     (if bo_queue opts = None then ''default queue <'' else ''queue <'') @ queue @ ''>.'')], db2)))))"

section \<open>bjobs\<close>

record bjobs_opts =
  jo_all :: bool
  jo_wide :: bool
  jo_long :: bool
  jo_json :: bool
  jo_noheader :: bool
  jo_spec :: "string option"
  jo_delim :: "string option"
  jo_user :: string
  jo_name :: "string option"
  jo_queue :: "string option"
  jo_host :: "string option"
  jo_group :: "string option"
  jo_states :: "string list"
  jo_specs :: "string list"

definition default_bjobs_opts :: "string \<Rightarrow> bjobs_opts" where
  "default_bjobs_opts user = \<lparr> jo_all = False, jo_wide = False, jo_long = False, jo_json = False, jo_noheader = False,
     jo_spec = None, jo_delim = None, jo_user = user, jo_name = None, jo_queue = None, jo_host = None, jo_group = None,
     jo_states = [], jo_specs = [] \<rparr>"

definition bjobs_flag :: "string \<Rightarrow> bjobs_opts \<Rightarrow> bjobs_opts" where
  "bjobs_flag tok opts =
     (if tok = ''-a'' then opts\<lparr>jo_all := True\<rparr> else if tok = ''-w'' then opts\<lparr>jo_wide := True\<rparr>
      else if tok = ''-l'' then opts\<lparr>jo_long := True\<rparr>
      else if tok = ''-json'' \<or> tok = ''-json2'' then opts\<lparr>jo_json := True\<rparr>
      else if tok = ''-noheader'' then opts\<lparr>jo_noheader := True\<rparr>
      else if tok = ''-r'' then opts\<lparr>jo_states := jo_states opts @ [''run'']\<rparr>
      else if tok = ''-p'' then opts\<lparr>jo_states := jo_states opts @ [''pend'']\<rparr>
      else if tok = ''-s'' then opts\<lparr>jo_states := jo_states opts @ [''susp'']\<rparr>
      else if tok = ''-d'' then opts\<lparr>jo_states := jo_states opts @ [''done'']\<rparr>
      else if starts_with ''-'' tok then opts
      else opts\<lparr>jo_specs := jo_specs opts @ [tok]\<rparr>)"

text \<open>An option that takes a value; \<open>None\<close> when the arguments end with it.\<close>

definition bjobs_value :: "string \<Rightarrow> string option \<Rightarrow> bjobs_opts \<Rightarrow> bjobs_opts option" where
  "bjobs_value tok v opts =
     (if tok = ''-o'' then Some (opts\<lparr>jo_spec := Some (case v of None \<Rightarrow> [] | Some x \<Rightarrow> x)\<rparr>)
      else if tok = ''-delimiter'' then Some (opts\<lparr>jo_delim := Some (case v of None \<Rightarrow> '' '' | Some x \<Rightarrow> x)\<rparr>)
      else if tok = ''-u'' then Some (opts\<lparr>jo_user := (case v of None \<Rightarrow> jo_user opts | Some x \<Rightarrow> x)\<rparr>)
      else if tok = ''-J'' then Some (opts\<lparr>jo_name := v\<rparr>)
      else if tok = ''-q'' then Some (opts\<lparr>jo_queue := v\<rparr>)
      else if tok = ''-m'' then Some (opts\<lparr>jo_host := v\<rparr>)
      else if tok = ''-g'' then Some (opts\<lparr>jo_group := v\<rparr>)
      else None)"

fun bjobs_args :: "bjobs_opts \<Rightarrow> string list \<Rightarrow> bjobs_opts" where
  "bjobs_args opts [] = opts"
| "bjobs_args opts [tok] = (case bjobs_value tok None opts of Some o1 \<Rightarrow> o1 | None \<Rightarrow> bjobs_flag tok opts)"
| "bjobs_args opts (tok # v # rest) =
     (case bjobs_value tok (Some v) opts of
        Some o1 \<Rightarrow> bjobs_args o1 rest
      | None \<Rightarrow> bjobs_args (bjobs_flag tok opts) (v # rest))"

text \<open>An optional filter that is absent or empty lets everything pass.\<close>

definition passes :: "string option \<Rightarrow> string option \<Rightarrow> bool" where
  "passes f v \<longleftrightarrow> f = None \<or> f = Some [] \<or> f = v"

definition state_kept :: "string list \<Rightarrow> mjob \<Rightarrow> bool" where
  "state_kept fs j \<longleftrightarrow> ''run'' \<in> set fs \<and> mj_stat j = MRUN \<or> ''pend'' \<in> set fs \<and> mj_stat j = MPEND \<or>
     ''susp'' \<in> set fs \<and> mj_stat j \<in> {MPSUSP, MUSUSP, MSSUSP} \<or> ''done'' \<in> set fs \<and> mfinished j"

definition bjobs_filter :: "bjobs_opts \<Rightarrow> mjob list \<Rightarrow> mjob list" where
  "bjobs_filter opts js =
     (let js1 = (if jo_states opts \<noteq> [] then filter (state_kept (jo_states opts)) js
                 else if \<not> jo_all opts \<and> jo_specs opts = [] then filter (\<lambda>j. \<not> mfinished j) js else js)
      in filter (\<lambda>j. passes (jo_name opts) (Some (mj_job_name j)) \<and> passes (jo_queue opts) (Some (mj_queue j)) \<and>
           passes (jo_host opts) (mj_exec_host j) \<and> passes (jo_group opts) (Some (mj_job_group j))) js1)"

definition bjobs_text :: "local_time \<Rightarrow> seconds \<Rightarrow> bjobs_opts \<Rightarrow> mjob list \<Rightarrow> string" where
  "bjobs_text lt now opts js =
     (if jo_json opts then json_format lt now js (jo_spec opts)
      else (case jo_spec opts of
              Some sp \<Rightarrow> custom_format lt now js sp (jo_noheader opts) (jo_delim opts)
            | None \<Rightarrow> if jo_long opts then long_format lt js else default_table lt (jo_wide opts) js))"

definition cmd_bjobs :: "mock_config \<Rightarrow> local_time \<Rightarrow> string \<Rightarrow> seconds \<Rightarrow> string list \<Rightarrow> mdb \<Rightarrow> int \<times> out_line list" where
  "cmd_bjobs cfg lt user now argv db =
     (let opts = bjobs_args (default_bjobs_opts user) argv;
          (found, miss) = collect_by_specs db (jo_specs opts);
          missing = (if jo_specs opts = [] then [] else miss @ map display_id (filter (purged cfg now) found));
          js = (if jo_specs opts = []
                then filter (\<lambda>j. \<not> purged cfg now j \<and> (jo_user opts = ''all'' \<or> mj_user j = jo_user opts)) (all_jobs db)
                else filter (\<lambda>j. \<not> purged cfg now j) found);
          notes = map no_match missing;
          shown = bjobs_filter opts js
      in if missing \<noteq> [] \<and> js = [] then (255, notes)
         else if shown = [] then
           (if jo_json opts then (0, notes @ [Out (json_format lt now [] (jo_spec opts))])
            else (255, notes @ [Err (if jo_all opts then ''No job found'' else ''No unfinished job found'')]))
         else (if missing = [] then 0 else 255, notes @ [Out (bjobs_text lt now opts shown)]))"

section \<open>bkill\<close>

definition kill_reachable :: "mock_config \<Rightarrow> mjob \<Rightarrow> bool" where
  "kill_reachable cfg j \<longleftrightarrow>
     (if mj_source_cluster j = [] \<and> mj_forward_cluster j = [] then True
      else if mj_forward_cluster j \<noteq> [] then mx_cluster cfg = mj_forward_cluster j
      else mx_cluster cfg = mj_source_cluster j)"

record bkill_opts =
  ko_ids :: "string list"
  ko_names :: "string option list"
  ko_all :: bool
  ko_user :: "string option"
  ko_queue :: "string option"
  ko_group :: "string option"

definition bkill_value :: "string \<Rightarrow> string option \<Rightarrow> bkill_opts \<Rightarrow> bkill_opts option" where
  "bkill_value tok v opts =
     (if tok = ''-u'' then Some (opts\<lparr>ko_user := v\<rparr>) else if tok = ''-q'' then Some (opts\<lparr>ko_queue := v\<rparr>)
      else if tok = ''-g'' then Some (opts\<lparr>ko_group := v\<rparr>)
      else if tok = ''-stat'' then Some opts
      else if tok = ''-J'' then Some (opts\<lparr>ko_names := ko_names opts @ [v]\<rparr>)
      else if tok = ''-s'' then Some opts else None)"

definition bkill_flag :: "string \<Rightarrow> bkill_opts \<Rightarrow> bkill_opts" where
  "bkill_flag tok opts =
     (if starts_with ''-'' tok then opts
      else if tok = ''0'' then opts\<lparr>ko_all := True\<rparr> else opts\<lparr>ko_ids := ko_ids opts @ [tok]\<rparr>)"

fun bkill_args :: "bkill_opts \<Rightarrow> string list \<Rightarrow> bkill_opts" where
  "bkill_args opts [] = opts"
| "bkill_args opts [tok] = (case bkill_value tok None opts of Some o1 \<Rightarrow> o1 | None \<Rightarrow> bkill_flag tok opts)"
| "bkill_args opts (tok # v # rest) =
     (case bkill_value tok (Some v) opts of
        Some o1 \<Rightarrow> bkill_args o1 rest
      | None \<Rightarrow> bkill_args (bkill_flag tok opts) (v # rest))"

definition truthy_opt :: "string option \<Rightarrow> bool" where
  "truthy_opt v \<longleftrightarrow> v \<noteq> None \<and> v \<noteq> Some []"

definition bkill_selected :: "string \<Rightarrow> bkill_opts \<Rightarrow> mjob \<Rightarrow> bool" where
  "bkill_selected user opts j \<longleftrightarrow> \<not> mfinished j \<and>
     (let u = (if truthy_opt (ko_user opts) then the (ko_user opts) else user) in u = ''all'' \<or> mj_user j = u) \<and>
     passes (ko_queue opts) (Some (mj_queue j)) \<and> passes (ko_group opts) (Some (mj_job_group j)) \<and>
     (ko_names opts = [] \<or> Some (mj_job_name j) \<in> set (ko_names opts))"

text \<open>What \<open>bkill\<close> makes of its arguments: the targets and the unknown ids; \<open>None\<close> without arguments.\<close>

definition bkill_targets :: "string \<Rightarrow> bkill_opts \<Rightarrow> mdb \<Rightarrow> (mjob list \<times> string list) option" where
  "bkill_targets user opts db =
     (if ko_ids opts \<noteq> [] then
        (let (found, miss) = collect_by_specs db (ko_ids opts)
         in Some (fold (\<lambda>nm js. fold add_new (filter (\<lambda>j. Some (mj_job_name j) = nm \<and> \<not> mfinished j) (all_jobs db)) js)
                    (ko_names opts) found, miss))
      else if ko_names opts \<noteq> [] \<or> ko_all opts \<or> truthy_opt (ko_user opts) \<or> truthy_opt (ko_queue opts) \<or> truthy_opt (ko_group opts)
      then Some (fold add_new (filter (bkill_selected user opts) (all_jobs db)) [], [])
      else None)"

definition already_finished :: "mjob \<Rightarrow> out_line" where
  "already_finished j = Err (''Job <'' @ display_id j @ ''>: Job has already finished'')"

text \<open>The dash of the message, in UTF-8.\<close>

definition EM_DASH :: string where
  "EM_DASH = [CHR 0xE2, CHR 0x80, CHR 0x94]"

definition kill_one :: "mock_config \<Rightarrow> seconds \<Rightarrow> mjob \<Rightarrow> mdb \<Rightarrow> cli_result" where
  "kill_one cfg now j db =
     (if mfinished j then (0, [already_finished j], db)
      else if \<not> kill_reachable cfg j then
        (255, [Err (''Job <'' @ display_id j @ ''>: forwarded to cluster <'' @ mj_forward_cluster j @ ''> '' @ EM_DASH @
                 '' source its cluster env to kill'')], db)
      else
        (let k = j\<lparr>mj_stat := MEXIT, mj_exit_code := 130, mj_finish_time := Some now\<rparr>;
             (ok, db') = update_if_stat_in k [MPEND, MRUN, MSSUSP, MUSUSP, MPSUSP] [ColStat, ColExitCode, ColFinishTime] db
         in if ok then (0, [Out (''Job <'' @ display_id j @ ''> is being terminated'')], log_event k ''kill'' ''user'' now db')
            else (0, [already_finished j], db')))"

text \<open>A loop over jobs: any turn that fails makes the exit code 255.\<close>

definition each_job :: "(mjob \<Rightarrow> mdb \<Rightarrow> cli_result) \<Rightarrow> mjob list \<Rightarrow> mdb \<Rightarrow> cli_result" where
  "each_job f js db =
     fold (\<lambda>j (rc, out, db). let (rc', out', db') = f j db in (if rc' = 0 then rc else rc', out @ out', db')) js (0, [], db)"

definition cmd_bkill :: "mock_config \<Rightarrow> string \<Rightarrow> seconds \<Rightarrow> string list \<Rightarrow> mdb \<Rightarrow> cli_result" where
  "cmd_bkill cfg user now argv db =
     (case bkill_targets user (bkill_args \<lparr> ko_ids = [], ko_names = [], ko_all = False, ko_user = None, ko_queue = None,
              ko_group = None \<rparr> argv) db of
        None \<Rightarrow> (255, [Err ''No job found. Job ID or -J or 0 must be specified.''], db)
      | Some (targets, missing) \<Rightarrow>
          (if targets = [] then (255, if missing = [] then [Err ''No matching job found''] else map no_match missing, db)
           else (let (rc, out, db') = each_job (kill_one cfg now) targets db
                 in (if missing = [] then rc else 255, out @ map no_match missing, db'))))"

section \<open>bstop and bresume\<close>

definition stop_targets :: "mdb \<Rightarrow> string list \<Rightarrow> mjob list \<times> string list" where
  "stop_targets db argv =
     (let (jobs, missing) = collect_by_specs db (positional_args argv); names = collect_names ''-J'' argv
      in (fold add_new (filter (\<lambda>j. mj_job_name j \<in> set names \<and> \<not> mfinished j) (all_jobs db)) jobs, missing))"

definition cannot :: "string \<Rightarrow> mjob \<Rightarrow> mdb \<Rightarrow> cli_result" where
  "cannot why j db = (255, [Err (''Job <'' @ display_id j @ ''>: '' @ why)], db)"

text \<open>A guarded write with its event, or the refusal.\<close>

definition guarded_write :: "mjob \<Rightarrow> mstat list \<Rightarrow> mcolumn list \<Rightarrow> string \<Rightarrow> string \<Rightarrow> seconds \<Rightarrow> mdb \<Rightarrow> cli_result" where
  "guarded_write k allowed cols kind why now db =
     (let (ok, db') = update_if_stat_in k allowed cols db
      in if ok then (0, [], log_event k kind ''user'' now db') else cannot why k db')"

definition stop_one :: "seconds \<Rightarrow> mjob \<Rightarrow> mdb \<Rightarrow> cli_result" where
  "stop_one now j db =
     (let why = ''Job cannot be stopped in its current state''
      in if mj_stat j \<in> {MRUN, MSSUSP}
         then guarded_write (j\<lparr>mj_stat := MUSUSP, mj_susp_since := now\<rparr>) [MRUN, MSSUSP] [ColStat, ColSuspSince] ''suspend'' why now db
         else if mj_stat j = MPEND
         then guarded_write (j\<lparr>mj_stat := MPSUSP, mj_susp_since := now\<rparr>) [MPEND] [ColStat, ColSuspSince] ''suspend'' why now db
         else cannot why j db)"

definition resume_one :: "seconds \<Rightarrow> mjob \<Rightarrow> mdb \<Rightarrow> cli_result" where
  "resume_one now j db =
     (let why = ''Job is not in a suspended state''
      in if mj_stat j = MUSUSP
         then guarded_write (j\<lparr>mj_stat := MRUN, mj_susp_since := 0,
                mj_finish_time := (if mj_susp_since j \<noteq> 0 \<and> truthy_time (mj_finish_time j)
                                   then map_option (\<lambda>f. f + (now - mj_susp_since j)) (mj_finish_time j) else mj_finish_time j)\<rparr>)
              [MUSUSP] [ColStat, ColSuspSince, ColFinishTime] ''resume'' why now db
         else if mj_stat j = MPSUSP
         then guarded_write (j\<lparr>mj_stat := MPEND, mj_susp_since := 0,
                mj_pend_secs := (if mj_susp_since j \<noteq> 0 then mj_pend_secs j + (now - mj_susp_since j) else mj_pend_secs j)\<rparr>)
              [MPSUSP] [ColStat, ColSuspSince, ColPendSecs] ''resume'' why now db
         else cannot why j db)"

definition on_targets :: "(mjob \<Rightarrow> mdb \<Rightarrow> cli_result) \<Rightarrow> string list \<Rightarrow> mdb \<Rightarrow> cli_result" where
  "on_targets f argv db =
     (let (jobs, missing) = stop_targets db argv; (rc, out, db') = each_job f jobs db
      in (if missing = [] then rc else 255, out @ map no_match missing, db'))"

definition cmd_bstop :: "seconds \<Rightarrow> string list \<Rightarrow> mdb \<Rightarrow> cli_result" where
  "cmd_bstop now argv db = on_targets (stop_one now) argv db"

definition cmd_bresume :: "seconds \<Rightarrow> string list \<Rightarrow> mdb \<Rightarrow> cli_result" where
  "cmd_bresume now argv db = on_targets (resume_one now) argv db"

end
