(* ===== verification/MockMore.thy ===== *)
theory MockMore
  imports MockCli
begin

text \<open>
  The rest of the mock commands: \<open>bqueues\<close>, \<open>bhist\<close>, \<open>bpeek\<close>, \<open>bmod\<close> and \<open>bgdel\<close>
  (\<open>src/mocklsf/cli.py\<close>).
\<close>

section \<open>bqueues\<close>

record queue_counts =
  qc_njobs :: int
  qc_pend :: int
  qc_run :: int
  qc_susp :: int

definition no_counts :: queue_counts where
  "no_counts = \<lparr> qc_njobs = 0, qc_pend = 0, qc_run = 0, qc_susp = 0 \<rparr>"

definition count_one :: "mjob \<Rightarrow> (string, queue_counts) dict \<Rightarrow> (string, queue_counts) dict" where
  "count_one j d =
     (case dget d (mj_queue j) of
        None \<Rightarrow> d
      | Some c \<Rightarrow>
          (if mfinished j then d
           else dset (mj_queue j)
             (c\<lparr>qc_njobs := qc_njobs c + 1, qc_pend := qc_pend c + of_bool (mj_stat j = MPEND),
                qc_run := qc_run c + of_bool (mj_stat j = MRUN),
                qc_susp := qc_susp c + of_bool (mj_stat j \<in> {MPSUSP, MUSUSP, MSSUSP})\<rparr>) d))"

definition rjust :: "nat \<Rightarrow> string \<Rightarrow> string" where
  "rjust w s = replicate (w - length s) (CHR '' '') @ s"

definition bqueues_line :: "string list \<Rightarrow> string" where
  "bqueues_line cells = py_join '' ''
     (map2 (\<lambda>f s. f s) [ljust 15, rjust 4, ljust 15, rjust 3, rjust 4, rjust 4, rjust 4, rjust 5, rjust 5, rjust 5, rjust 5] cells)"

definition cmd_bqueues :: "mock_config \<Rightarrow> string list \<Rightarrow> mdb \<Rightarrow> int \<times> out_line list" where
  "cmd_bqueues cfg argv db =
     (let only = positional_args argv;
          counts = fold count_one (all_jobs db) (map (\<lambda>(q, _). (q, no_counts)) (mx_queues cfg));
          row = (\<lambda>(q, prio). let c = dget_or counts q no_counts
             in bqueues_line [q, show_int prio, ''Open:Active'', ''-'', ''-'', ''-'', ''-'', show_int (qc_njobs c),
                  show_int (qc_pend c), show_int (qc_run c), show_int (qc_susp c)])
      in (0, Out (bqueues_line [''QUEUE_NAME'', ''PRIO'', ''STATUS'', ''MAX'', ''JL/U'', ''JL/P'', ''JL/H'', ''NJOBS'',
                    ''PEND'', ''RUN'', ''SUSP'']) #
             map (\<lambda>q. Out (row q)) (filter (\<lambda>(q, _). only = [] \<or> q \<in> set only) (mx_queues cfg))))"

section \<open>bhist and bpeek\<close>

definition event_text :: "mjob \<Rightarrow> mevent \<Rightarrow> string option" where
  "event_text j e =
     (if ev_kind e = ''submit'' then Some (''Submitted from host <'' @ mj_from_host j @ ''> to Queue <'' @ ev_detail e @ ''>;'')
      else if ev_kind e = ''dispatch'' then Some (''Dispatched to <'' @ ev_detail e @ ''>;'')
      else if ev_kind e = ''run'' then Some ''Running;''
      else if ev_kind e = ''done'' then Some ''Done successfully;''
      else if ev_kind e = ''exit'' then Some ''Exited;''
      else if ev_kind e = ''suspend'' then Some (''Suspended ('' @ ev_detail e @ '');'')
      else if ev_kind e = ''resume'' then Some (''Resumed ('' @ ev_detail e @ '');'')
      else if ev_kind e = ''kill'' then Some ''Signal <KILL> requested by user;''
      else None)"

definition bhist_one :: "local_time \<Rightarrow> mdb \<Rightarrow> mjob \<Rightarrow> string" where
  "bhist_one lt db j = py_join nl
     ((''Job <'' @ display_id j @ ''>, User <'' @ mj_user j @ ''>, Project <'' @ mj_proj j @ ''>, Command <'' @ mj_command j @ ''>'') #
      List.map_filter (\<lambda>e. map_option (\<lambda>s. strf_weekday (lt (ev_ts e)) @ '': '' @ s) (event_text j e))
        (filter (\<lambda>e. mj_array_index j = None \<or> ev_array_index e = mj_array_index j) (events_for (mj_job_id j) db)))"

text \<open>The request to name a job id, in UTF-8.\<close>

definition NAME_A_JOB :: string where
  "NAME_A_JOB = '': '' @ [CHR 0xEC, CHR 0xA1, CHR 0xB0, CHR 0xED, CHR 0x9A, CHR 0x8C, CHR 0xED, CHR 0x95, CHR 0xA0] @ '' job id '' @ [CHR 0xEB, CHR 0xA5, CHR 0xBC] @ '' '' @ [CHR 0xEC, CHR 0xA7, CHR 0x80, CHR 0xEC, CHR 0xA0, CHR 0x95, CHR 0xED, CHR 0x95, CHR 0x98, CHR 0xEC, CHR 0x84, CHR 0xB8, CHR 0xEC, CHR 0x9A, CHR 0x94]"

definition spec_found :: "mdb \<Rightarrow> string \<Rightarrow> mjob list" where
  "spec_found db tok = (case parse_job_spec tok of None \<Rightarrow> [] | Some sp \<Rightarrow> spec_jobs db sp)"

definition cmd_bhist :: "local_time \<Rightarrow> string list \<Rightarrow> mdb \<Rightarrow> int \<times> out_line list" where
  "cmd_bhist lt argv db =
     (let specs = positional_args argv;
          missing = filter (\<lambda>tok. spec_found db tok = []) specs;
          blocks = map (bhist_one lt db) (concat (map (spec_found db) specs))
      in if specs = [] then (255, [Err (''bhist'' @ NAME_A_JOB)])
         else (if missing = [] then 0 else 255, map no_match missing @
                 (if blocks = [] then []
                  else [Out ''Summary of time in seconds spent in various states:'', Out (py_join nl blocks)])))"

text \<open>The last output is the file as it is, without a newline added.\<close>

definition cmd_bpeek :: "string list \<Rightarrow> mdb \<Rightarrow> int \<times> out_line list" where
  "cmd_bpeek argv db =
     (case positional_args argv of
        [] \<Rightarrow> (255, [Err (''bpeek'' @ NAME_A_JOB)])
      | tok # _ \<Rightarrow>
          (case spec_found db tok of
             [] \<Rightarrow> (255, [no_match tok])
           | j # _ \<Rightarrow>
               (if mj_stat j = MPEND then (255, [Err (''Job <'' @ display_id j @ ''> : Cannot peek into a pending job'')])
                else (case dget (db_outs db) (job_out_path j) of
                        None \<Rightarrow> (0, [Err (''Job <'' @ display_id j @ ''> : No output yet'')])
                      | Some text \<Rightarrow> (0, [Out text])))))"

section \<open>bmod and bgdel\<close>

fun opt_value :: "string list \<Rightarrow> string \<Rightarrow> string option" where
  "opt_value (tok # v # rest) opt = (if tok = opt then Some v else opt_value (v # rest) opt)"
| "opt_value _ opt = None"

definition cmd_bmod :: "string list \<Rightarrow> mdb \<Rightarrow> cli_result" where
  "cmd_bmod argv db =
     (case (opt_value argv ''-g'', positional_args argv) of
        (Some grp, s # ss) \<Rightarrow>
          (let (jobs, missing) = collect_by_specs db (s # ss)
           in (if missing = [] then 0 else 255, map no_match missing, fold (\<lambda>j. update_job_group (mj_row_id j) grp) jobs db))
      | _ \<Rightarrow> (0, [], db))"

definition cmd_bgdel :: "string list \<Rightarrow> mdb \<Rightarrow> cli_result" where
  "cmd_bgdel argv db = (0, [], db)"

end
