(* ===== verification/MockSteps.thy ===== *)
theory MockSteps
  imports MockMore
begin

text \<open>
  What the mock cluster guarantees while its scheduler and the commands of any number of
  processes interleave: a finished job stays as it is, and the slots of the hosts and the limits of
  the arrays are respected.
\<close>

section \<open>Processes and the scheduler\<close>

text \<open>
  The scheduler between two transactions of a tick: it has decided which jobs end, it has written
  that, it has read which are active, it has decided what to dispatch. There is one scheduler.
\<close>

datatype sched_phase =
    SchedIdle
  | SchedFinish seconds "(mjob \<times> mjob) list"
  | SchedRead seconds
  | SchedPlan seconds "mjob list"
  | SchedDispatch seconds "(mjob \<times> mjob) list"

text \<open>A command works on jobs read from any earlier state.\<close>

record lsf_world =
  lw_db :: mdb
  lw_past :: "mdb set"
  lw_sched :: sched_phase

definition record_db :: "mdb \<Rightarrow> lsf_world \<Rightarrow> lsf_world" where
  "record_db db w = w\<lparr>lw_db := db, lw_past := insert db (lw_past w)\<rparr>"

inductive lsf_step :: "mock_config \<Rightarrow> lsf_world \<Rightarrow> lsf_world \<Rightarrow> bool" for cfg where
  submit: "lsf_step cfg w (record_db (snd (snd (cmd_bsub cfg' tc user cwd stdin draws now argv (lw_db w)))) w)"
| kill: "db0 \<in> lw_past w \<Longrightarrow> j \<in> set (db_jobs db0) \<Longrightarrow>
    lsf_step cfg w (record_db (snd (snd (kill_one cfg' now j (lw_db w)))) w)"
| stop: "db0 \<in> lw_past w \<Longrightarrow> j \<in> set (db_jobs db0) \<Longrightarrow>
    lsf_step cfg w (record_db (snd (snd (stop_one now j (lw_db w)))) w)"
| resume: "db0 \<in> lw_past w \<Longrightarrow> j \<in> set (db_jobs db0) \<Longrightarrow>
    lsf_step cfg w (record_db (snd (snd (resume_one now j (lw_db w)))) w)"
| modify: "lsf_step cfg w (record_db (update_job_group n grp (lw_db w)) w)"
| tick_read: "lw_sched w = SchedIdle \<Longrightarrow>
    lsf_step cfg w (w\<lparr>lw_sched := SchedFinish now (run_changes now (jobs_in_states ACTIVE_STATES (lw_db w)))\<rparr>)"
| tick_finish: "lw_sched w = SchedFinish now ps \<Longrightarrow>
    lsf_step cfg w ((record_db (apply_transitions now ps (lw_db w)) w)\<lparr>lw_sched := SchedRead now\<rparr>)"
| tick_active: "lw_sched w = SchedRead now \<Longrightarrow>
    lsf_step cfg w (w\<lparr>lw_sched := SchedPlan now (jobs_in_states ACTIVE_STATES (lw_db w))\<rparr>)"
| tick_plan: "lw_sched w = SchedPlan now act \<Longrightarrow>
    lsf_step cfg w (w\<lparr>lw_sched := SchedDispatch now (dispatch_changes cfg now act (jobs_in_states [MPEND] (lw_db w)))\<rparr>)"
| tick_dispatch: "lw_sched w = SchedDispatch now ps \<Longrightarrow>
    lsf_step cfg w ((record_db (apply_transitions now ps (lw_db w)) w)\<lparr>lw_sched := SchedIdle\<rparr>)"
| tick_fails: "lsf_step cfg w (w\<lparr>lw_sched := SchedIdle\<rparr>)"

definition lsf_start :: "mock_config \<Rightarrow> lsf_world" where
  "lsf_start cfg = \<lparr> lw_db = new_Database cfg, lw_past = {new_Database cfg}, lw_sched = SchedIdle \<rparr>"

definition lsf_reach :: "mock_config \<Rightarrow> lsf_world \<Rightarrow> bool" where
  "lsf_reach cfg w \<longleftrightarrow> (lsf_step cfg)\<^sup>*\<^sup>* (lsf_start cfg) w"

section \<open>Calm changes\<close>

text \<open>What no update changes of a row, and an update that makes no job active.\<close>

definition fixed_of :: "mjob \<Rightarrow> nat \<times> int \<times> int option \<times> int \<times> int" where
  "fixed_of r = (mj_row_id r, mj_job_id r, mj_array_index r, mj_array_limit r, mj_num_cpus r)"

definition kept :: "mjob \<Rightarrow> mjob \<Rightarrow> bool" where
  "kept r r' \<longleftrightarrow> fixed_of r' = fixed_of r \<and> (mfinished r \<longrightarrow> (\<exists>g. r' = r\<lparr>mj_job_group := g\<rparr>))"

definition calm :: "mjob \<Rightarrow> mjob \<Rightarrow> bool" where
  "calm r r' \<longleftrightarrow> kept r r' \<and> (mactive r' \<longrightarrow> mactive r \<and> mj_exec_host r' = mj_exec_host r)"

definition changes_by :: "(mjob \<Rightarrow> mjob \<Rightarrow> bool) \<Rightarrow> mdb \<Rightarrow> mdb \<Rightarrow> bool" where
  "changes_by R db db' \<longleftrightarrow> list_all2 R (db_jobs db) (db_jobs db') \<and> db_next_row db' = db_next_row db \<and> db_counter db' = db_counter db"

lemma same_group [simp]: "\<exists>g. r = r\<lparr>mj_job_group := g\<rparr>"
  by (rule exI [of _ "mj_job_group r"]) simp

lemma calm_refl [simp]: "calm r r" "kept r r"
proof -
  show "kept r r" unfolding kept_def by (auto intro: exI [of _ "mj_job_group r"])
  then show "calm r r" by (simp add: calm_def)
qed

lemma kept_trans:
  assumes "kept a b" and "kept b c"
  shows "kept a c"
proof (cases "mfinished a")
  case True
  with assms(1) obtain g where b: "b = a\<lparr>mj_job_group := g\<rparr>" by (auto simp: kept_def)
  with True have "mfinished b" by (simp add: mfinished_def)
  with assms(2) obtain h where "c = b\<lparr>mj_job_group := h\<rparr>" by (auto simp: kept_def)
  with b assms show ?thesis by (auto simp: kept_def)
qed (use assms in \<open>simp add: kept_def\<close>)

lemma calm_trans: "calm a b \<Longrightarrow> calm b c \<Longrightarrow> calm a c"
  by (auto simp: calm_def intro: kept_trans)

lemma changes_refl: "(\<And>r. R r r) \<Longrightarrow> changes_by R db db"
  by (simp add: changes_by_def list_all2_same)

lemma changes_trans: "(\<And>a b c. R a b \<Longrightarrow> R b c \<Longrightarrow> R a c) \<Longrightarrow> changes_by R a b \<Longrightarrow> changes_by R b c \<Longrightarrow> changes_by R a c"
  by (auto simp: changes_by_def elim: list_all2_trans [rotated -2])

lemma changes_weaken: "(\<And>a b. R a b \<Longrightarrow> Q a b) \<Longrightarrow> changes_by R a b \<Longrightarrow> changes_by Q a b"
  by (auto simp: changes_by_def elim: list_all2_mono)

lemma changes_on_row: "(\<And>r. r \<in> set (db_jobs db) \<Longrightarrow> mj_row_id r = n \<Longrightarrow> R r (f r)) \<Longrightarrow> (\<And>r. R r r) \<Longrightarrow> changes_by R db (on_row n f db)"
  by (auto simp: changes_by_def on_row_def list_all2_map2 list_all2_same)

lemma same_jobs [simp]:
  "changes_by R db (log_event j k d t db') = changes_by R db db'"
  "changes_by R db (mock_note_transition t p db') = changes_by R db db'"
  "db_jobs (log_event j k d t db) = db_jobs db"
  "db_jobs (mock_note_transition t p db) = db_jobs db"
  by (auto simp: changes_by_def log_event_def mock_note_transition_def write_job_banner_def write_job_result_def Let_def split: prod.split)

lemma changes_notes [simp]: "changes_by R db (fold (mock_note_transition t) ps db') = changes_by R db db'"
  by (induction ps arbitrary: db') simp_all

lemma fold_copy:
  "fixed_of (fold (copy_column k) cols r) = fixed_of r \<and> mj_exec_host (fold (copy_column k) cols r) = mj_exec_host r \<and>
   mj_stat (fold (copy_column k) cols r) = (if ColStat \<in> set cols then mj_stat k else mj_stat r)"
proof (induction cols arbitrary: r)
  case (Cons c cols)
  have "fixed_of (copy_column k c r) = fixed_of r" "mj_exec_host (copy_column k c r) = mj_exec_host r"
    "mj_stat (copy_column k c r) = (if c = ColStat then mj_stat k else mj_stat r)"
    by (cases c; simp add: fixed_of_def)+
  with Cons show ?case by auto
qed simp

lemma calm_update:
  assumes "\<And>s. s \<in> set allowed \<Longrightarrow> s \<notin> set FINISHED_STATES"
    and "mj_stat k \<in> set ACTIVE_STATES \<Longrightarrow> set allowed \<subseteq> set ACTIVE_STATES" and "ColStat \<in> set cols"
  shows "changes_by calm db (snd (update_if_stat_in k allowed cols db))"
  unfolding update_if_stat_in_def snd_conv
  using assms fold_copy [where k = k and cols = cols]
  by (intro changes_on_row) (auto simp: calm_def kept_def mactive_def mfinished_def)

lemma calm_guarded:
  assumes "\<And>s. s \<in> set allowed \<Longrightarrow> s \<notin> set FINISHED_STATES"
    and "mj_stat k \<in> set ACTIVE_STATES \<Longrightarrow> set allowed \<subseteq> set ACTIVE_STATES" and "ColStat \<in> set cols"
  shows "changes_by calm db (snd (snd (guarded_write k allowed cols kind why t db)))"
  using calm_update [where k = k and db = db, OF assms]
  by (cases "update_if_stat_in k allowed cols db") (simp add: guarded_write_def cannot_def Let_def)

lemma calm_commands:
  "changes_by calm db (snd (snd (kill_one cfg t j db)))"
  "changes_by calm db (snd (snd (stop_one t j db)))"
  "changes_by calm db (snd (snd (resume_one t j db)))"
  "changes_by calm db (update_job_group n grp db)"
proof -
  have "changes_by calm db (snd (update_if_stat_in (j\<lparr>mj_stat := MEXIT, mj_exit_code := 130, mj_finish_time := Some t\<rparr>)
      [MPEND, MRUN, MSSUSP, MUSUSP, MPSUSP] [ColStat, ColExitCode, ColFinishTime] db))"
    by (rule calm_update) (auto simp: FINISHED_STATES_def ACTIVE_STATES_def)
  then show "changes_by calm db (snd (snd (kill_one cfg t j db)))"
    by (cases "update_if_stat_in (j\<lparr>mj_stat := MEXIT, mj_exit_code := 130, mj_finish_time := Some t\<rparr>)
        [MPEND, MRUN, MSSUSP, MUSUSP, MPSUSP] [ColStat, ColExitCode, ColFinishTime] db")
      (simp add: kill_one_def changes_refl Let_def)
  show "changes_by calm db (snd (snd (stop_one t j db)))"
    by (auto simp: stop_one_def Let_def cannot_def changes_refl FINISHED_STATES_def ACTIVE_STATES_def intro!: calm_guarded)
  show "changes_by calm db (snd (snd (resume_one t j db)))"
    by (auto simp: resume_one_def Let_def cannot_def changes_refl FINISHED_STATES_def ACTIVE_STATES_def intro!: calm_guarded)
  show "changes_by calm db (update_job_group n grp db)"
    unfolding update_job_group_def
    by (rule changes_on_row) (auto simp: calm_def kept_def fixed_of_def mactive_def)
qed

text \<open>The pairs of a conditional update, one after the other.\<close>

lemma guarded_many_induct:
  assumes "\<And>r. R r r" and "\<And>a b c. R a b \<Longrightarrow> R b c \<Longrightarrow> R a c"
    and "\<And>j prev r. (j, prev) \<in> set ps \<Longrightarrow> same_run r prev \<Longrightarrow> R r (write_run j r)"
  shows "changes_by R db (snd (update_guarded_many ps db))"
  using assms(3)
proof (induction ps arbitrary: db)
  case Nil
  then show ?case by (simp add: changes_refl assms(1))
next
  case (Cons p ps)
  obtain j prev where p: "p = (j, prev)" by (cases p)
  let ?db = "on_row (mj_row_id prev) (\<lambda>r. if same_run r prev then write_run j r else r) db"
  have rest: "changes_by R d (snd (update_guarded_many ps d))" for d by (rule Cons.IH) (use Cons.prems in auto)
  have first: "changes_by R db ?db" by (rule changes_on_row) (use Cons.prems [of j prev] assms(1) in \<open>simp_all add: p\<close>)
  have "changes_by R db (snd (update_guarded_many ps ?db))" by (rule changes_trans [OF assms(2) first rest])
  with rest [of db] show ?case by (cases "update_guarded_many ps ?db") (simp add: p Let_def)
qed

lemma kept_guarded:
  assumes "\<And>j prev. (j, prev) \<in> set ps \<Longrightarrow> \<not> mfinished prev"
  shows "changes_by kept db (snd (update_guarded_many ps db))"
proof (rule guarded_many_induct)
  fix j prev r assume "(j, prev) \<in> set ps" "same_run r prev"
  with assms have "\<not> mfinished r" by (auto simp: same_run_def mfinished_def)
  then show "kept r (write_run j r)" by (simp add: kept_def fixed_of_def write_run_def)
qed (auto intro: kept_trans)

lemma calm_guarded_many:
  assumes "\<And>j prev. (j, prev) \<in> set ps \<Longrightarrow> mactive prev \<and> mj_exec_host j = mj_exec_host prev"
  shows "changes_by calm db (snd (update_guarded_many ps db))"
proof (rule guarded_many_induct)
  fix j prev r assume p: "(j, prev) \<in> set ps" "same_run r prev"
  with assms have "mactive r" "mj_exec_host j = mj_exec_host r" by (auto simp: same_run_def mactive_def)
  moreover from this have "\<not> mfinished r" by (auto simp: mactive_def mfinished_def ACTIVE_STATES_def FINISHED_STATES_def)
  ultimately show "calm r (write_run j r)" by (simp add: calm_def kept_def fixed_of_def write_run_def)
qed (auto intro: calm_trans)

section \<open>Submissions\<close>

text \<open>What is added at the end: waiting jobs with new keys, one new number, and one limit.\<close>

definition adds_jobs :: "mdb \<Rightarrow> mdb \<Rightarrow> bool" where
  "adds_jobs db db' \<longleftrightarrow> (\<exists>news. db_jobs db' = db_jobs db @ news \<and> db_counter db \<le> db_counter db' \<and>
     map mj_row_id news = [db_next_row db..<db_next_row db'] \<and> db_next_row db \<le> db_next_row db' \<and>
     (\<forall>r\<in>set news. mj_stat r = MPEND \<and> db_counter db < mj_job_id r \<and> mj_job_id r \<le> db_counter db' \<and> 0 \<le> mj_num_cpus r) \<and>
     (\<forall>r\<in>set news. \<forall>r'\<in>set news. is_array r = is_array r' \<and> mj_array_limit r = mj_array_limit r'))"

lemma insert_jobs_rows:
  "\<exists>news. db_jobs (insert_jobs js db) = db_jobs db @ news \<and> map mj_row_id news = [db_next_row db..<db_next_row db + length js] \<and>
     db_next_row (insert_jobs js db) = db_next_row db + length js \<and> db_counter (insert_jobs js db) = db_counter db \<and>
     list_all2 (\<lambda>r j. r = j\<lparr>mj_row_id := mj_row_id r\<rparr>) news js"
proof (induction js arbitrary: db)
  case (Cons j js)
  let ?r = "j\<lparr>mj_row_id := db_next_row db\<rparr>"
  let ?db = "db\<lparr>db_jobs := db_jobs db @ [?r], db_next_row := Suc (db_next_row db)\<rparr>"
  from Cons.IH [of ?db] obtain news where n: "db_jobs (insert_jobs js ?db) = (db_jobs db @ [?r]) @ news"
    "map mj_row_id news = [Suc (db_next_row db)..<Suc (db_next_row db) + length js]"
    "db_next_row (insert_jobs js ?db) = Suc (db_next_row db) + length js" "db_counter (insert_jobs js ?db) = db_counter db"
    "list_all2 (\<lambda>r j. r = j\<lparr>mj_row_id := mj_row_id r\<rparr>) news js" by auto
  have "[db_next_row db..<db_next_row db + length (j # js)] = db_next_row db # [Suc (db_next_row db)..<Suc (db_next_row db) + length js]"
    by (simp add: upt_conv_Cons del: upt_Suc)
  with n show ?case by (intro exI [of _ "?r # news"]) (simp del: upt_Suc)
qed simp

lemma parse_args_cpus: "0 \<le> bo_num_cpus opts \<Longrightarrow> 0 \<le> bo_num_cpus (fst (parse_args opts argv))"
proof (induction opts argv rule: parse_args.induct)
  case (2 opts tok)
  then show ?case by (simp add: set_bsub_opt_def int_of_digits_def)
next
  case (3 opts tok val rest)
  moreover have "0 \<le> bo_num_cpus opts \<Longrightarrow> 0 \<le> bo_num_cpus (set_bsub_opt tok val opts)"
    by (simp add: set_bsub_opt_def int_of_digits_def)
  ultimately show ?case by simp
qed simp

lemma build_jobs_uniform:
  assumes "build_jobs cfg tc user fwd draws now i opts command = Inr js"
  shows "\<exists>a l. js \<noteq> [] \<and> (\<forall>j\<in>set js. mj_stat j = MPEND \<and> mj_job_id j = i \<and> mj_num_cpus j = bo_num_cpus opts \<and>
    is_array j = a \<and> mj_array_limit j = l)"
proof -
  obtain q base indices limit where q: "queue_of_opts cfg opts = Inr q" "parse_array_spec (bo_job_name opts) = Inr (base, indices, limit)"
    using assms by (auto simp: build_jobs_def split: sum.splits)
  have len: "length js = (if indices = [] then 1 else length indices)"
    using assms q by (auto simp: build_jobs_def Let_def)
  have "mj_stat j = MPEND \<and> mj_job_id j = i \<and> mj_num_cpus j = bo_num_cpus opts \<and> is_array j = (indices \<noteq> []) \<and> mj_array_limit j = limit"
    if "j \<in> set js" for j
    using assms q that by (auto simp: build_jobs_def plan_timing_def is_array_def Let_def split: if_splits)
  with len show ?thesis by (intro exI [of _ "indices \<noteq> []"] exI [of _ limit]) (auto split: if_splits)
qed

lemma adds_refl: "adds_jobs db db"
  by (simp add: adds_jobs_def)

lemma log_events_keep [simp]:
  "db_jobs (fold (\<lambda>j. log_event j k (d j) (t j)) js db) = db_jobs db"
  "db_next_row (fold (\<lambda>j. log_event j k (d j) (t j)) js db) = db_next_row db"
  "db_counter (fold (\<lambda>j. log_event j k (d j) (t j)) js db) = db_counter db"
  by (induction js arbitrary: db) (simp_all add: log_event_def)

lemma bsub_adds: "adds_jobs db (snd (snd (cmd_bsub cfg tc user cwd stdin draws now argv db)))"
proof -
  obtain opts command where p: "parse_args (default_bsub_opts cwd) argv = (opts, command)" by fastforce
  have cpus: "0 \<le> bo_num_cpus opts" using parse_args_cpus [of "default_bsub_opts cwd" argv] p by (simp add: default_bsub_opts_def)
  have counted: "adds_jobs db (db\<lparr>db_counter := db_counter db + 1\<rparr>)" by (simp add: adds_jobs_def)
  have made: "adds_jobs db (insert_jobs js (db\<lparr>db_counter := db_counter db + 1\<rparr>))"
    if b: "build_jobs cfg tc user fwd dr now (db_counter db + 1) opts cmd = Inr js" for fwd dr cmd js
  proof -
    from build_jobs_uniform [OF b] obtain a l where u: "\<forall>j\<in>set js. mj_stat j = MPEND \<and> mj_job_id j = db_counter db + 1 \<and>
      mj_num_cpus j = bo_num_cpus opts \<and> is_array j = a \<and> mj_array_limit j = l" by blast
    from insert_jobs_rows [of js "db\<lparr>db_counter := db_counter db + 1\<rparr>"] obtain news where
      n: "db_jobs (insert_jobs js (db\<lparr>db_counter := db_counter db + 1\<rparr>)) = db_jobs db @ news"
      "map mj_row_id news = [db_next_row db..<db_next_row db + length js]"
      "db_next_row (insert_jobs js (db\<lparr>db_counter := db_counter db + 1\<rparr>)) = db_next_row db + length js"
      "db_counter (insert_jobs js (db\<lparr>db_counter := db_counter db + 1\<rparr>)) = db_counter db + 1"
      and r: "list_all2 (\<lambda>r j. r = j\<lparr>mj_row_id := mj_row_id r\<rparr>) news js" by auto
    have "\<forall>r\<in>set news. mj_stat r = MPEND \<and> mj_job_id r = db_counter db + 1 \<and> mj_num_cpus r = bo_num_cpus opts \<and>
      is_array r = a \<and> mj_array_limit r = l"
    proof
      fix r assume "r \<in> set news"
      then obtain n where "n < length news" "r = news ! n" by (metis in_set_conv_nth)
      with r have "js ! n \<in> set js" "r = (js ! n)\<lparr>mj_row_id := mj_row_id r\<rparr>" by (auto simp: list_all2_conv_all_nth)
      then obtain j x where j: "j \<in> set js" and r: "r = j\<lparr>mj_row_id := x\<rparr>" by blast
      have same: "is_array (j\<lparr>mj_row_id := x\<rparr>) = is_array j" by (simp add: is_array_def)
      from u show "mj_stat r = MPEND \<and> mj_job_id r = db_counter db + 1 \<and> mj_num_cpus r = bo_num_cpus opts \<and>
        is_array r = a \<and> mj_array_limit r = l"
        using j unfolding r same by simp
    qed
    with n cpus show ?thesis unfolding adds_jobs_def by (intro exI [of _ news]) simp
  qed
  have logged: "adds_jobs db (fold (\<lambda>j. log_event j k (d j) (t j)) js db') = adds_jobs db db'" for k d t js db'
    by (simp add: adds_jobs_def)
  show ?thesis
    by (auto simp: cmd_bsub_def p refused_def adds_refl next_job_id_def counted logged Let_def dest: made split: option.split sum.split)
qed

end
