(* ===== verification/MockRoom.thy ===== *)
theory MockRoom
  imports MockSteps
begin

text \<open>
  The slots of the hosts and the limits of the arrays: the invariant that the interleaving of the
  scheduler with the commands keeps.
\<close>

section \<open>What is in use\<close>

definition used :: "string \<Rightarrow> mjob list \<Rightarrow> int" where
  "used h js = sum_list (map (\<lambda>r. if mactive r \<and> mj_exec_host r = Some h then mj_num_cpus r else 0) js)"

definition elems :: "int \<Rightarrow> mjob list \<Rightarrow> int" where
  "elems i js = int (length (filter (\<lambda>r. mactive r \<and> is_array r \<and> mj_job_id r = i) js))"

text \<open>What the dispatches still to be written take.\<close>

definition load :: "string \<Rightarrow> (mjob \<times> mjob) list \<Rightarrow> int" where
  "load h ps = sum_list (map (\<lambda>(j, p). if mj_exec_host j = Some h then mj_num_cpus p else 0) ps)"

definition starts :: "int \<Rightarrow> (mjob \<times> mjob) list \<Rightarrow> int" where
  "starts i ps = int (length (filter (\<lambda>(j, p). is_array p \<and> mj_job_id p = i) ps))"

definition slots_of :: "mock_config \<Rightarrow> string \<Rightarrow> int" where
  "slots_of cfg h = dget_or (mx_hosts cfg) h 0"

definition fixeds :: "mjob list \<Rightarrow> (nat \<times> int \<times> int option \<times> int \<times> int) set" where
  "fixeds js = fixed_of ` set js"

definition room :: "mock_config \<Rightarrow> mjob list \<Rightarrow> (mjob \<times> mjob) list \<Rightarrow> bool" where
  "room cfg js ps \<longleftrightarrow> (\<forall>h. used h js + load h ps \<le> max 0 (slots_of cfg h)) \<and>
     (\<forall>(n, i, x, l, c)\<in>fixeds js. x \<noteq> None \<and> 0 < l \<longrightarrow> elems i js + starts i ps \<le> l)"

definition rows_ok :: "mdb \<Rightarrow> bool" where
  "rows_ok db \<longleftrightarrow> distinct (map mj_row_id (db_jobs db)) \<and>
     (\<forall>(n, i, x, l, c)\<in>fixeds (db_jobs db). n < db_next_row db \<and> i \<le> db_counter db \<and> 0 \<le> c) \<and>
     (\<forall>(n, i, x, l, c)\<in>fixeds (db_jobs db). \<forall>(n', i', x', l', c')\<in>fixeds (db_jobs db).
        i = i' \<longrightarrow> (x = None \<longleftrightarrow> x' = None) \<and> l = l')"

fun phase_ok :: "sched_phase \<Rightarrow> mjob list \<Rightarrow> bool" where
  "phase_ok (SchedFinish t ps) js \<longleftrightarrow> (\<forall>(j, p)\<in>set ps. mactive p \<and> mj_exec_host j = mj_exec_host p)"
| "phase_ok (SchedPlan t act) js \<longleftrightarrow> (\<forall>h. used h js \<le> used h act) \<and> (\<forall>i. elems i js \<le> elems i act)"
| "phase_ok (SchedDispatch t ps) js \<longleftrightarrow>
     (\<forall>(j, p)\<in>set ps. mj_stat p = MPEND \<and> mj_stat j = MRUN \<and> fixed_of p \<in> fixeds js)"
| "phase_ok _ js \<longleftrightarrow> True"

fun to_dispatch :: "sched_phase \<Rightarrow> (mjob \<times> mjob) list" where
  "to_dispatch (SchedDispatch t ps) = ps"
| "to_dispatch _ = []"

definition lsf_inv :: "mock_config \<Rightarrow> lsf_world \<Rightarrow> bool" where
  "lsf_inv cfg w \<longleftrightarrow> rows_ok (lw_db w) \<and> room cfg (db_jobs (lw_db w)) (to_dispatch (lw_sched w)) \<and>
     phase_ok (lw_sched w) (db_jobs (lw_db w))"

lemma use_simps [simp]:
  "used h [] = 0" "used h (r # js) = (if mactive r \<and> mj_exec_host r = Some h then mj_num_cpus r else 0) + used h js"
  "used h (js @ ks) = used h js + used h ks"
  "elems i [] = 0" "elems i (r # js) = (if mactive r \<and> is_array r \<and> mj_job_id r = i then 1 else 0) + elems i js"
  "elems i (js @ ks) = elems i js + elems i ks"
  "load h [] = 0" "load h ((j, p) # ps) = (if mj_exec_host j = Some h then mj_num_cpus p else 0) + load h ps"
  "starts i [] = 0" "starts i ((j, p) # ps) = (if is_array p \<and> mj_job_id p = i then 1 else 0) + starts i ps"
  by (simp_all add: used_def elems_def load_def starts_def)

lemma calm_use:
  assumes "list_all2 calm js js'" and "\<forall>(n, i, x, l, c)\<in>fixeds js. 0 \<le> c"
  shows "used h js' \<le> used h js" and "elems i js' \<le> elems i js" and "fixeds js' = fixeds js"
    and "map mj_row_id js' = map mj_row_id js"
  using assms
proof (induction rule: list_all2_induct)
  case (Cons r js r' js')
  {
    case 1
    with Cons show ?case by (auto simp: fixeds_def calm_def kept_def fixed_of_def)
  next
    case 2
    with Cons show ?case by (auto simp: fixeds_def calm_def kept_def fixed_of_def is_array_def)
  next
    case 3
    with Cons show ?case by (auto simp: fixeds_def calm_def kept_def)
  next
    case 4
    with Cons show ?case by (auto simp: fixeds_def calm_def kept_def fixed_of_def)
  }
qed simp_all

lemma calm_inv:
  assumes "rows_ok db" and "room cfg (db_jobs db) ps" and "phase_ok ph (db_jobs db)" and c: "changes_by calm db db'"
  shows "rows_ok db'" and "room cfg (db_jobs db') ps" and "phase_ok ph (db_jobs db')"
proof -
  from assms(1) have pos: "\<forall>(n, i, x, l, c)\<in>fixeds (db_jobs db). 0 \<le> c" by (auto simp: rows_ok_def)
  from c have all: "list_all2 calm (db_jobs db) (db_jobs db')" by (simp add: changes_by_def)
  note use = calm_use [OF all pos]
  show "rows_ok db'" using assms(1) c by (simp add: rows_ok_def use(3,4) changes_by_def)
  show "room cfg (db_jobs db') ps" using assms(2) use(1,2) unfolding room_def use(3) by (smt (verit) case_prodD case_prodI2)
  show "phase_ok ph (db_jobs db')" using assms(3) use(1,2) by (cases ph) (auto simp: use(3), (meson order_trans)+)
qed

text \<open>New jobs wait.\<close>

lemma adds_inv:
  assumes "rows_ok db" and "room cfg (db_jobs db) ps" and "phase_ok ph (db_jobs db)" and "adds_jobs db db'"
    and "\<And>j p. (j, p) \<in> set ps \<Longrightarrow> fixed_of p \<in> fixeds (db_jobs db)"
  shows "rows_ok db'" and "room cfg (db_jobs db') ps" and "phase_ok ph (db_jobs db')"
proof -
  from assms(4) obtain news where n: "db_jobs db' = db_jobs db @ news" "db_counter db \<le> db_counter db'"
    "map mj_row_id news = [db_next_row db..<db_next_row db']" "db_next_row db \<le> db_next_row db'"
    and news: "\<And>r. r \<in> set news \<Longrightarrow> mj_stat r = MPEND \<and> db_counter db < mj_job_id r \<and> mj_job_id r \<le> db_counter db' \<and> 0 \<le> mj_num_cpus r"
    and same: "\<And>r r'. r \<in> set news \<Longrightarrow> r' \<in> set news \<Longrightarrow> is_array r = is_array r' \<and> mj_array_limit r = mj_array_limit r'"
    by (auto simp: adds_jobs_def)
  have idle: "used h news = 0" "elems i news = 0" for h i
    using news by (induction news) (auto simp: mactive_def ACTIVE_STATES_def)
  have ids: "mj_row_id r \<in> {db_next_row db..<db_next_row db'}" if "r \<in> set news" for r
    using that n(3) by (metis atLeastLessThan_upt imageI set_map)
  have old: "n < db_next_row db \<and> i \<le> db_counter db \<and> 0 \<le> c" if "(n, i, x, l, c) \<in> fixeds (db_jobs db)" for n i x l c
    using assms(1) that by (fastforce simp: rows_ok_def)
  have new: "db_next_row db \<le> n \<and> n < db_next_row db' \<and> db_counter db < i \<and> i \<le> db_counter db' \<and> 0 \<le> c"
    if "(n, i, x, l, c) \<in> fixeds news" for n i x l c
    using that news ids by (fastforce simp: fixeds_def fixed_of_def)
  have fx: "fixeds (db_jobs db') = fixeds (db_jobs db) \<union> fixeds news" by (auto simp: n(1) fixeds_def)
  have uniform: "(x = None \<longleftrightarrow> x' = None) \<and> l = l'" if "(n, i, x, l, c) \<in> fixeds news" "(n', i', x', l', c') \<in> fixeds news" for n i x l c n' i' x' l' c'
  proof -
    from that obtain r r' where r: "r \<in> set news" "(n, i, x, l, c) = fixed_of r" "r' \<in> set news" "(n', i', x', l', c') = fixed_of r'"
      by (auto simp: fixeds_def)
    from same [OF r(1,3)] r(2,4) show ?thesis by (auto simp: fixed_of_def is_array_def simp del: not_None_eq)
  qed
  have "distinct (map mj_row_id (db_jobs db'))"
  proof -
    have "mj_row_id r < db_next_row db" if "r \<in> set (db_jobs db)" for r
      using that old [of "mj_row_id r"] by (fastforce simp: fixeds_def fixed_of_def)
    moreover have "distinct (map mj_row_id news)" by (simp add: n(3))
    ultimately show ?thesis using assms(1) ids by (fastforce simp: n(1) rows_ok_def)
  qed
  moreover have "\<forall>(n, i, x, l, c)\<in>fixeds (db_jobs db'). n < db_next_row db' \<and> i \<le> db_counter db' \<and> 0 \<le> c"
    using old new n(2,4) unfolding fx by fastforce
  moreover have "\<forall>(m, i, x, l, c)\<in>fixeds (db_jobs db'). \<forall>(m', i', x', l', c')\<in>fixeds (db_jobs db').
      i = i' \<longrightarrow> (x = None \<longleftrightarrow> x' = None) \<and> l = l'"
  proof (clarify, intro conjI)
    fix m i x l c m' x' l' c'
    assume a: "(m, i, x, l, c) \<in> fixeds (db_jobs db')" "(m', i, x', l', c') \<in> fixeds (db_jobs db')"
    have "(x = None \<longleftrightarrow> x' = None) \<and> l = l'"
    proof (cases "i \<le> db_counter db")
      case True
      with a new have "(m, i, x, l, c) \<in> fixeds (db_jobs db)" "(m', i, x', l', c') \<in> fixeds (db_jobs db)"
        unfolding fx by (simp_all add: not_less [symmetric]) blast+
      note mem = this
      have "\<forall>f\<in>fixeds (db_jobs db). \<forall>g\<in>fixeds (db_jobs db). case f of (n, i, x, l, c) \<Rightarrow> case g of (n', i', x', l', c') \<Rightarrow>
          i = i' \<longrightarrow> (x = None \<longleftrightarrow> x' = None) \<and> l = l'"
        using assms(1) by (auto simp: rows_ok_def)
      from bspec [OF bspec [OF this mem(1)] mem(2)] show ?thesis by simp
    next
      case False
      with a old have "(m, i, x, l, c) \<in> fixeds news" "(m', i, x', l', c') \<in> fixeds news"
        unfolding fx by blast+
      then show ?thesis by (rule uniform)
    qed
    then show "x = None \<longleftrightarrow> x' = None" "l = l'" by simp_all
  qed
  ultimately show "rows_ok db'" by (simp add: rows_ok_def)
  have none: "starts i ps = 0 \<and> elems i (db_jobs db) = 0" if "db_counter db < i" for i
  proof -
    have "mj_job_id r \<noteq> i" if "r \<in> set (db_jobs db)" for r
      using that old [of "mj_row_id r" "mj_job_id r"] \<open>db_counter db < i\<close> by (fastforce simp: fixeds_def fixed_of_def)
    moreover have "mj_job_id p \<noteq> i" if "(j, p) \<in> set ps" for j p
      using assms(5) [OF that] old [of "mj_row_id p" "mj_job_id p"] \<open>db_counter db < i\<close> by (fastforce simp: fixed_of_def)
    ultimately show ?thesis by (auto simp: starts_def elems_def filter_empty_conv)
  qed
  show "room cfg (db_jobs db') ps"
    unfolding room_def
  proof (intro conjI allI ballI)
    fix h show "used h (db_jobs db') + load h ps \<le> max 0 (slots_of cfg h)"
      using assms(2) by (simp add: room_def n(1) idle)
  next
    fix f assume f: "f \<in> fixeds (db_jobs db')"
    obtain m i x l c where f': "f = (m, i, x, l, c)" by (cases f)
    show "case f of (n, i, x, l, c) \<Rightarrow> x \<noteq> None \<and> 0 < l \<longrightarrow> elems i (db_jobs db') + starts i ps \<le> l"
    proof (cases "f \<in> fixeds (db_jobs db)")
      case True
      with assms(2) f' show ?thesis by (auto simp: room_def n(1) idle)
    next
      case False
      with f fx f' new have "db_counter db < i" by blast
      from none [OF this] show ?thesis by (simp add: f' n(1) idle)
    qed
  qed
  show "phase_ok ph (db_jobs db')" using assms(3) by (cases ph) (auto simp: n(1) idle fixeds_def)
qed

section \<open>Dispatching\<close>

definition hosts_ok :: "mock_config \<Rightarrow> bool" where
  "hosts_ok cfg \<longleftrightarrow> distinct (dkeys (mx_hosts cfg)) \<and> [] \<notin> set (dkeys (mx_hosts cfg))"

lemma host_candidates_subset: "set (host_candidates cfg j) \<subseteq> set (mx_hosts cfg)"
  by (auto simp: host_candidates_def Let_def)

lemma pick_host_fits:
  assumes "hosts_ok cfg" and "pick_host cfg j u = Some h"
  shows "h \<noteq> [] \<and> dget_or u h 0 + mj_num_cpus j \<le> slots_of cfg h"
proof -
  let ?ok = "\<lambda>b. \<forall>h. b = Some h \<longrightarrow> (\<exists>n. (h, n) \<in> set (mx_hosts cfg) \<and> dget_or u h 0 + mj_num_cpus j \<le> n)"
  let ?f = "\<lambda>(h, slots) (best, best_free). let free = slots - dget_or u h 0
     in if free \<ge> mj_num_cpus j \<and> free > best_free then (Some h, free) else (best, best_free)"
  have "?ok (fst (fold ?f hs (b, n)))" if "set hs \<subseteq> set (mx_hosts cfg)" "?ok b" for hs b n
    using that
  proof (induction hs arbitrary: b n)
    case (Cons x hs)
    obtain h s where x: "x = (h, s)" by (cases x)
    then have "(h, s) \<in> set (mx_hosts cfg)" using Cons.prems by simp
    then have "?ok (fst (?f x (b, n)))" using Cons.prems(2) by (auto simp: x Let_def)
    with Cons show ?case by (cases "?f x (b, n)") simp
  qed simp
  from this [of "host_candidates cfg j" None "- 1"] assms(2) host_candidates_subset [of cfg j]
  obtain n where "(h, n) \<in> set (mx_hosts cfg)" "dget_or u h 0 + mj_num_cpus j \<le> n"
    unfolding pick_host_def by auto
  with assms(1) show ?thesis by (force simp: hosts_ok_def slots_of_def dget_or_def)
qed

text \<open>What the loop takes fits into what is free.\<close>

definition fits :: "mock_config \<Rightarrow> (string, int) dict \<Rightarrow> (int, int) dict \<Rightarrow> (mjob \<times> mjob) list \<Rightarrow> bool" where
  "fits cfg u a ps \<longleftrightarrow>
     (\<forall>x\<in>set ps. \<forall>h. mj_exec_host (fst x) = Some h \<longrightarrow> h \<noteq> [] \<and> dget_or u h 0 + load h ps \<le> slots_of cfg h) \<and>
     (\<forall>x\<in>set ps. is_array (snd x) \<and> 0 < mj_array_limit (snd x) \<longrightarrow>
        dget_or a (mj_job_id (snd x)) 0 + starts (mj_job_id (snd x)) ps \<le> mj_array_limit (snd x))"

lemma load_none: "\<forall>x\<in>set ps. mj_exec_host (fst x) \<noteq> Some h \<Longrightarrow> load h ps = 0"
  by (induction ps) auto

lemma starts_none: "\<forall>x\<in>set ps. \<not> (is_array (snd x) \<and> mj_job_id (snd x) = i) \<Longrightarrow> starts i ps = 0"
  by (induction ps) auto

lemma fits_cons:
  assumes "fits cfg (dset h (dget_or u h 0 + mj_num_cpus j) u) a' ps"
    and a': "a' = (if is_array j then dset (mj_job_id j) (dget_or a (mj_job_id j) 0 + 1) a else a)"
    and h: "h \<noteq> [] \<and> dget_or u h 0 + mj_num_cpus j \<le> slots_of cfg h"
    and below: "\<not> (mj_array_limit j > 0 \<and> dget_or a (mj_job_id j) 0 \<ge> mj_array_limit j)"
    and same: "\<And>x. x \<in> set ps \<Longrightarrow> mj_job_id (snd x) = mj_job_id j \<Longrightarrow> is_array (snd x) = is_array j \<and> mj_array_limit (snd x) = mj_array_limit j"
  shows "fits cfg u a ((dispatch_job h now j, j) # ps)"
proof -
  let ?ps = "(dispatch_job h now j, j) # ps"
  have ex: "mj_exec_host (dispatch_job h now j) = Some h" by (simp add: dispatch_job_def)
  have hosts: "h' \<noteq> [] \<and> dget_or u h' 0 + load h' ?ps \<le> slots_of cfg h'"
    if "x \<in> set ?ps" "mj_exec_host (fst x) = Some h'" for x h'
  proof (cases "\<exists>y\<in>set ps. mj_exec_host (fst y) = Some h'")
    case True
    with assms(1) have "h' \<noteq> [] \<and> dget_or (dset h (dget_or u h 0 + mj_num_cpus j) u) h' 0 + load h' ps \<le> slots_of cfg h'"
      unfolding fits_def by blast
    then show ?thesis using ex by (simp add: dget_or_def split: if_splits)
  next
    case False
    with that have "x = (dispatch_job h now j, j)" by auto
    with that ex have "h' = h" by simp
    with False h ex load_none [of ps h] show ?thesis by auto
  qed
  have arrays: "dget_or a i 0 + starts i ?ps \<le> mj_array_limit (snd x)"
    if x: "x \<in> set ?ps" "is_array (snd x)" "0 < mj_array_limit (snd x)" "i = mj_job_id (snd x)" for x i
  proof (cases "\<exists>y\<in>set ps. is_array (snd y) \<and> mj_job_id (snd y) = i")
    case True
    then obtain y where y: "y \<in> set ps" "is_array (snd y)" "mj_job_id (snd y) = i" by blast
    show ?thesis
    proof (cases "i = mj_job_id j")
      case j: True
      with same [OF y(1)] y have "is_array j" "mj_array_limit (snd y) = mj_array_limit j" by simp_all
      moreover have "mj_array_limit (snd x) = mj_array_limit j" using x(1,4) j same [of x] by auto
      moreover from this x(3) \<open>mj_array_limit (snd y) = mj_array_limit j\<close> have "0 < mj_array_limit (snd y)" by simp
      with assms(1) y have "dget_or a' i 0 + starts i ps \<le> mj_array_limit (snd y)" unfolding fits_def by auto
      ultimately show ?thesis using j by (simp add: a' dget_or_def)
    next
      case other: False
      with x have "x \<in> set ps" by auto
      with assms(1) x have "dget_or a' i 0 + starts i ps \<le> mj_array_limit (snd x)" unfolding fits_def by auto
      with other show ?thesis by (auto simp: a' dget_or_def split: if_splits)
    qed
  next
    case False
    with x have "x = (dispatch_job h now j, j)" by auto
    with x below False starts_none [of ps i] show ?thesis by auto
  qed
  show ?thesis unfolding fits_def using hosts arrays by blast
qed

lemma loop_jobs: "x \<in> set (dispatch_loop cfg now n pend u a) \<Longrightarrow> snd x \<in> set pend \<and> mj_stat (fst x) = MRUN"
  by (induction cfg now n pend u a rule: dispatch_loop.induct) (auto simp: dispatch_job_def split: if_splits option.splits)

definition same_limits :: "mjob set \<Rightarrow> bool" where
  "same_limits js \<longleftrightarrow>
     (\<forall>p\<in>js. \<forall>q\<in>js. mj_job_id p = mj_job_id q \<longrightarrow> is_array p = is_array q \<and> mj_array_limit p = mj_array_limit q)"

lemma same_limits_subset: "same_limits T \<Longrightarrow> S \<subseteq> T \<Longrightarrow> same_limits S"
  unfolding same_limits_def by blast

lemma same_limitsD: "same_limits S \<Longrightarrow> p \<in> S \<Longrightarrow> q \<in> S \<Longrightarrow> mj_job_id p = mj_job_id q \<Longrightarrow>
    is_array p = is_array q \<and> mj_array_limit p = mj_array_limit q"
  unfolding same_limits_def by blast

lemma loop_fits:
  assumes "hosts_ok cfg" and "same_limits (set pend)"
  shows "fits cfg u a (dispatch_loop cfg now n pend u a)"
  using assms(2)
proof (induction pend arbitrary: n u a)
  case (Cons j js)
  have nil: "fits cfg u a []" for u a by (simp add: fits_def)
  have IH: "fits cfg u a (dispatch_loop cfg now n js u a)" for n u a
    by (rule Cons.IH) (rule same_limits_subset [OF Cons.prems], auto)
  let ?late = "now - mj_submit_time j < mj_pend_secs j"
  let ?full = "mj_array_limit j > 0 \<and> dget_or a (mj_job_id j) 0 \<ge> mj_array_limit j"
  show ?case
  proof (cases "n \<ge> mx_max_dispatch cfg \<or> ?late \<or> ?full \<or> pick_host cfg j u = None")
    case True
    then consider "n \<ge> mx_max_dispatch cfg" | "\<not> n \<ge> mx_max_dispatch cfg" "?late \<or> ?full \<or> pick_host cfg j u = None" by argo
    then show ?thesis
    proof cases
      case 2
      then have "dispatch_loop cfg now n (j # js) u a = dispatch_loop cfg now n js u a" by auto
      then show ?thesis by (simp only: IH)
    qed (simp add: nil)
  next
    case False
    then obtain h where h: "pick_host cfg j u = Some h" by blast
    let ?u = "dset h (dget_or u h 0 + mj_num_cpus j) u"
    let ?a = "if is_array j then dset (mj_job_id j) (dget_or a (mj_job_id j) 0 + 1) a else a"
    have eq: "dispatch_loop cfg now n (j # js) u a = (dispatch_job h now j, j) # dispatch_loop cfg now (n + 1) js ?u ?a"
      using False h by auto
    show ?thesis unfolding eq
    proof (rule fits_cons [OF IH refl pick_host_fits [OF assms(1) h]])
      show "\<not> ?full" using False by blast
      fix x assume "x \<in> set (dispatch_loop cfg now (n + 1) js ?u ?a)" "mj_job_id (snd x) = mj_job_id j"
      with loop_jobs [of x cfg now "n + 1" js ?u ?a] show "is_array (snd x) = is_array j \<and> mj_array_limit (snd x) = mj_array_limit j"
        by (intro same_limitsD [OF Cons.prems]) auto
    qed
  qed
qed (simp add: fits_def)

text \<open>One dispatch is written, or it is given up because the job has changed.\<close>

definition write_pair :: "mjob \<Rightarrow> mjob \<Rightarrow> mjob \<Rightarrow> mjob" where
  "write_pair j p r = (if mj_row_id r = mj_row_id p \<and> same_run r p then write_run j r else r)"

lemma fixed_write [simp]: "fixed_of (write_pair j p r) = fixed_of r" "mj_row_id (write_pair j p r) = mj_row_id r"
  by (simp_all add: write_pair_def write_run_def fixed_of_def)

lemma write_elsewhere: "mj_row_id p \<notin> mj_row_id ` set js \<Longrightarrow> map (write_pair j p) js = js"
  by (induction js) (auto simp: write_pair_def)

lemma write_room:
  assumes "distinct (map mj_row_id js)" and "\<forall>(n, i, x, l, c)\<in>fixeds js. 0 \<le> c" and p: "fixed_of p \<in> fixeds js"
    and "mj_stat p = MPEND" and "mj_stat j = MRUN" and room: "room cfg js ((j, p) # ps)"
  shows "room cfg (map (write_pair j p) js) ps"
proof -
  let ?js = "map (write_pair j p) js"
  have fx: "fixeds ?js = fixeds js" by (simp add: fixeds_def image_image)
  from p assms(2) have pos: "0 \<le> mj_num_cpus p" by (auto simp: fixed_of_def)
  have use: "used h ?js \<le> used h js + (if mj_exec_host j = Some h then mj_num_cpus p else 0) \<and>
      elems i ?js \<le> elems i js + (if is_array p \<and> mj_job_id p = i then 1 else 0)" for h i
  proof -
    from p obtain r where r: "r \<in> set js" "fixed_of r = fixed_of p" by (auto simp: fixeds_def)
    then obtain xs ys where js: "js = xs @ r # ys" by (meson split_list)
    have same: "mj_row_id r = mj_row_id p" "mj_job_id r = mj_job_id p" "is_array r = is_array p" "mj_num_cpus r = mj_num_cpus p"
      using r(2) by (simp_all add: fixed_of_def is_array_def)
    have "mj_row_id p \<notin> mj_row_id ` set xs" "mj_row_id p \<notin> mj_row_id ` set ys"
      using assms(1) js same(1) by auto
    then have new: "?js = xs @ write_pair j p r # ys" by (simp add: js write_elsewhere)
    show ?thesis
    proof (cases "same_run r p")
      case True
      then have "mj_stat r = MPEND" using assms(4) by (simp add: same_run_def)
      then have "\<not> mactive r" by (simp add: mactive_def ACTIVE_STATES_def)
      moreover have "write_pair j p r = write_run j r" using True same(1) by (simp add: write_pair_def)
      moreover have "is_array (write_run j r) = is_array r" by (simp add: write_run_def is_array_def)
      moreover have "mactive (write_run j r)" using assms(5) by (simp add: write_run_def mactive_def ACTIVE_STATES_def)
      moreover have "mj_exec_host (write_run j r) = mj_exec_host j" "mj_job_id (write_run j r) = mj_job_id r"
        "mj_num_cpus (write_run j r) = mj_num_cpus r" by (simp_all add: write_run_def)
      ultimately show ?thesis using same unfolding new by (simp add: js)
    next
      case False
      then show ?thesis unfolding new using pos by (simp add: js write_pair_def)
    qed
  qed
  show ?thesis unfolding room_def fx
  proof (intro conjI allI ballI)
    fix h
    have "used h js + load h ((j, p) # ps) \<le> max 0 (slots_of cfg h)" using room by (simp only: room_def)
    with conjunct1 [OF use [of h 0]] show "used h ?js + load h ps \<le> max 0 (slots_of cfg h)"
      by (simp only: use_simps)
  next
    fix f assume f: "f \<in> fixeds js"
    obtain n i x l c where f': "f = (n, i, x, l, c)" by (cases f)
    from room f have "x \<noteq> None \<and> 0 < l \<longrightarrow> elems i js + starts i ((j, p) # ps) \<le> l" unfolding room_def f' by blast
    with conjunct2 [OF use [of "[]" i]] show "case f of (n, i, x, l, c) \<Rightarrow> x \<noteq> None \<and> 0 < l \<longrightarrow> elems i ?js + starts i ps \<le> l"
      by (auto simp: f' split: if_splits)
  qed
qed

lemma on_row_pair: "on_row (mj_row_id p) (\<lambda>r. if same_run r p then write_run j r else r) db = db\<lparr>db_jobs := map (write_pair j p) (db_jobs db)\<rparr>"
  by (auto simp: on_row_def write_pair_def)

lemma no_row: "\<not> has_row (mj_row_id p) (\<lambda>r. same_run r p) db \<Longrightarrow> map (write_pair j p) (db_jobs db) = db_jobs db"
  by (rule map_idI) (auto simp: has_row_def list_ex_iff write_pair_def)

lemma rows_okD: "rows_ok db \<Longrightarrow> \<forall>(n, i, x, l, c)\<in>fixeds (db_jobs db). 0 \<le> c"
  by (auto simp: rows_ok_def)

lemma dispatch_inv:
  assumes "rows_ok db" and "room cfg (db_jobs db) ps" and "\<And>j p. (j, p) \<in> set ps \<Longrightarrow> mj_stat p = MPEND \<and> mj_stat j = MRUN \<and>
      fixed_of p \<in> fixeds (db_jobs db)"
  shows "rows_ok (snd (update_guarded_many ps db)) \<and> room cfg (db_jobs (snd (update_guarded_many ps db))) []"
  using assms
proof (induction ps arbitrary: db)
  case (Cons x ps)
  obtain j p where x: "x = (j, p)" by (cases x)
  let ?db = "db\<lparr>db_jobs := map (write_pair j p) (db_jobs db)\<rparr>"
  have fx: "fixeds (map (write_pair j p) (db_jobs db)) = fixeds (db_jobs db)" by (simp add: fixeds_def image_image)
  have ids: "map mj_row_id (map (write_pair j p) (db_jobs db)) = map mj_row_id (db_jobs db)" by simp
  have rows: "rows_ok ?db" using Cons.prems(1) by (simp add: rows_ok_def fx ids del: map_map)
  have "room cfg (map (write_pair j p) (db_jobs db)) ps"
  proof (rule write_room)
    show "distinct (map mj_row_id (db_jobs db))" "\<forall>(n, i, x, l, c)\<in>fixeds (db_jobs db). 0 \<le> c"
      using Cons.prems(1) by (simp add: rows_ok_def) (rule rows_okD [OF Cons.prems(1)])
    show "fixed_of p \<in> fixeds (db_jobs db)" "mj_stat p = MPEND" "mj_stat j = MRUN" "room cfg (db_jobs db) ((j, p) # ps)"
      using Cons.prems(3) [of j p] Cons.prems(2) by (simp_all only: x list.set_intros)
  qed
  then have IH: "rows_ok (snd (update_guarded_many ps ?db)) \<and> room cfg (db_jobs (snd (update_guarded_many ps ?db))) []"
  proof (intro Cons.IH [OF rows])
    fix j' p' assume "(j', p') \<in> set ps"
    with Cons.prems(3) [of j' p'] show "mj_stat p' = MPEND \<and> mj_stat j' = MRUN \<and> fixed_of p' \<in> fixeds (db_jobs ?db)"
      by (simp add: x fx)
  qed simp
  show ?case
  proof (cases "has_row (mj_row_id p) (\<lambda>r. same_run r p) db")
    case True
    with IH show ?thesis by (cases "update_guarded_many ps ?db") (simp add: x on_row_pair Let_def)
  next
    case False
    from no_row [OF this] have "?db = db" by simp
    with False IH show ?thesis by (simp add: x)
  qed
qed simp

end
