(* ===== verification/MockLaws.thy ===== *)
theory MockLaws
  imports MockRoom "HOL-Library.Multiset"
begin

text \<open>
  The invariant of the interleaving of the mock scheduler with the commands, and what follows: no
  host and no array gets more than it may, and what is finished stays.
\<close>

section \<open>What the scheduler reads\<close>

lemma mset_submission [simp]: "mset (by_submission js) = mset js" "set (by_submission js) = set js"
  by (simp_all add: by_submission_def)

lemma used_mset: "mset js = mset ks \<Longrightarrow> used h js = used h ks \<and> elems i js = elems i ks"
proof -
  assume e: "mset js = mset ks"
  have "sum_list (map f js) = sum_list (map f ks)" for f :: "mjob \<Rightarrow> int"
    using e by (metis mset_map sum_mset_sum_list)
  moreover have "length (filter P js) = length (filter P ks)" for P
    using e by (metis mset_filter size_mset)
  ultimately show ?thesis by (simp add: used_def elems_def)
qed

lemma used_filter: "used h (filter mactive js) = used h js" "elems i (filter mactive js) = elems i js"
  by (induction js) auto

lemma read_active:
  "used h (jobs_in_states ACTIVE_STATES db) = used h (db_jobs db)" "elems i (jobs_in_states ACTIVE_STATES db) = elems i (db_jobs db)"
  "list_all mactive (jobs_in_states ACTIVE_STATES db)"
proof -
  have f: "filter (\<lambda>j. mj_stat j \<in> set ACTIVE_STATES) js = filter mactive js" for js
    by (intro filter_cong refl) (simp add: mactive_def)
  show "used h (jobs_in_states ACTIVE_STATES db) = used h (db_jobs db)" "elems i (jobs_in_states ACTIVE_STATES db) = elems i (db_jobs db)"
    using used_mset [of "by_submission (filter mactive (db_jobs db))" "filter mactive (db_jobs db)" h i]
    by (simp_all add: jobs_in_states_def f used_filter)
  show "list_all mactive (jobs_in_states ACTIVE_STATES db)" by (simp add: jobs_in_states_def f list_all_iff)
qed

lemma dget_active_by_host:
  assumes "list_all mactive act" and "h \<noteq> []"
  shows "dget_or (active_by_host act) h 0 = used h act"
proof -
  let ?f = "\<lambda>j d. case mj_exec_host j of None \<Rightarrow> d | Some h \<Rightarrow> if h = [] then d else dset h (dget_or d h 0 + mj_num_cpus j) d"
  have "dget_or (fold ?f act d) h 0 = dget_or d h 0 + used h act" for d
    using assms(1)
  proof (induction act arbitrary: d)
    case (Cons j act)
    have "dget_or (?f j d) h 0 = dget_or d h 0 + (if mj_exec_host j = Some h then mj_num_cpus j else 0)"
      using assms(2) by (auto simp: dget_or_def split: option.split)
    with Cons show ?case by simp
  qed simp
  from this [of "[]"] show ?thesis by (simp add: active_by_host_def dget_or_def)
qed

lemma dget_array_active:
  assumes "list_all mactive act"
  shows "dget_or (array_active act) i 0 = elems i act"
proof -
  let ?f = "\<lambda>j d. if is_array j then dset (mj_job_id j) (dget_or d (mj_job_id j) 0 + 1) d else d"
  have "dget_or (fold ?f act d) i 0 = dget_or d i 0 + elems i act" for d
    using assms
  proof (induction act arbitrary: d)
    case (Cons j act)
    have "dget_or (?f j d) i 0 = dget_or d i 0 + (if is_array j \<and> mj_job_id j = i then 1 else 0)"
      by (auto simp: dget_or_def)
    with Cons show ?case by simp
  qed simp
  from this [of "[]"] show ?thesis by (simp add: array_active_def dget_or_def)
qed

lemma fixed_facts: "rows_ok db \<Longrightarrow> (n, i, x, l, c) \<in> fixeds (db_jobs db) \<Longrightarrow> (n', i, x', l', c') \<in> fixeds (db_jobs db) \<Longrightarrow>
    (x = None \<longleftrightarrow> x' = None) \<and> l = l'"
proof -
  assume ok: "rows_ok db" and mem: "(n, i, x, l, c) \<in> fixeds (db_jobs db)" "(n', i, x', l', c') \<in> fixeds (db_jobs db)"
  from ok [unfolded rows_ok_def] have "\<forall>(n, i, x, l, c)\<in>fixeds (db_jobs db). \<forall>(n', i', x', l', c')\<in>fixeds (db_jobs db).
      i = i' \<longrightarrow> (x = None \<longleftrightarrow> x' = None) \<and> l = l'" by (elim conjE)
  from bspec [OF this mem(1)] have "\<forall>(n', i', x', l', c')\<in>fixeds (db_jobs db). i = i' \<longrightarrow> (x = None \<longleftrightarrow> x' = None) \<and> l = l'"
    by simp
  from bspec [OF this mem(2)] show ?thesis by simp
qed

lemma fixed_of_mem: "r \<in> set js \<Longrightarrow> (mj_row_id r, mj_job_id r, mj_array_index r, mj_array_limit r, mj_num_cpus r) \<in> fixeds js"
  by (force simp: fixeds_def fixed_of_def)

text \<open>The plan of the second half of a tick.\<close>

lemma plan_room:
  assumes "hosts_ok cfg" and rows: "rows_ok db" and room: "room cfg (db_jobs db) []" and act: "list_all mactive act"
    and le: "\<And>h. used h (db_jobs db) \<le> used h act" "\<And>i. elems i (db_jobs db) \<le> elems i act"
    and ps: "ps = dispatch_changes cfg now act (jobs_in_states [MPEND] db)"
  shows "room cfg (db_jobs db) ps" and "\<And>j p. (j, p) \<in> set ps \<Longrightarrow> mj_stat p = MPEND \<and> mj_stat j = MRUN \<and> fixed_of p \<in> fixeds (db_jobs db)"
proof -
  let ?pend = "sort_key (\<lambda>j. - dget_or (mx_queues cfg) (mj_queue j) 0) (jobs_in_states [MPEND] db)"
  have pend: "set ?pend = {r \<in> set (db_jobs db). mj_stat r = MPEND}" by (auto simp: jobs_in_states_def)
  have loop: "ps = dispatch_loop cfg now 0 ?pend (active_by_host act) (array_active act)" by (simp add: ps dispatch_changes_def)
  have "same_limits (set ?pend)" unfolding same_limits_def
  proof (intro ballI impI)
    fix p q assume "p \<in> set ?pend" "q \<in> set ?pend" and e: "mj_job_id p = mj_job_id q"
    then have "p \<in> set (db_jobs db)" "q \<in> set (db_jobs db)" by (simp_all only: pend mem_Collect_eq)
    from fixed_facts [OF rows fixed_of_mem [OF this(1), unfolded e] fixed_of_mem [OF this(2)]]
    show "is_array p = is_array q \<and> mj_array_limit p = mj_array_limit q" by (auto simp: is_array_def simp del: not_None_eq)
  qed
  from loop_fits [OF assms(1) this, of "active_by_host act" "array_active act" now 0]
  have fit: "fits cfg (active_by_host act) (array_active act) ps" by (simp only: loop)
  have jobs: "snd x \<in> set (db_jobs db) \<and> mj_stat (snd x) = MPEND \<and> mj_stat (fst x) = MRUN" if "x \<in> set ps" for x
    using loop_jobs [of x cfg now 0 ?pend "active_by_host act" "array_active act"] that pend by (simp only: loop) blast
  show "mj_stat p = MPEND \<and> mj_stat j = MRUN \<and> fixed_of p \<in> fixeds (db_jobs db)" if "(j, p) \<in> set ps" for j p
    using jobs [OF that] by (simp add: fixeds_def)
  show "room cfg (db_jobs db) ps" unfolding room_def
  proof (intro conjI allI ballI)
    fix h
    have base: "used h (db_jobs db) \<le> max 0 (slots_of cfg h)" using room by (simp add: room_def)
    show "used h (db_jobs db) + load h ps \<le> max 0 (slots_of cfg h)"
    proof (cases "\<exists>x\<in>set ps. mj_exec_host (fst x) = Some h")
      case True
      with fit have "h \<noteq> []" "dget_or (active_by_host act) h 0 + load h ps \<le> slots_of cfg h" unfolding fits_def by blast+
      with dget_active_by_host [OF act] le(1) [of h] show ?thesis by fastforce
    next
      case False
      with load_none [of ps h] base show ?thesis by simp
    qed
  next
    fix f assume f: "f \<in> fixeds (db_jobs db)"
    obtain n i x l c where f': "f = (n, i, x, l, c)" by (cases f)
    have base: "x \<noteq> None \<and> 0 < l \<longrightarrow> elems i (db_jobs db) \<le> l" using room f f' by (auto simp: room_def)
    have "elems i (db_jobs db) + starts i ps \<le> l" if "x \<noteq> None" "0 < l"
    proof (cases "\<exists>y\<in>set ps. is_array (snd y) \<and> mj_job_id (snd y) = i")
      case True
      then obtain y where y: "y \<in> set ps" "is_array (snd y)" "mj_job_id (snd y) = i" by blast
      from fixed_facts [OF rows f [unfolded f'] fixed_of_mem [OF conjunct1 [OF jobs [OF y(1)]], unfolded y(3)]]
      have "mj_array_limit (snd y) = l" by simp
      with fit y that have "dget_or (array_active act) i 0 + starts i ps \<le> l" unfolding fits_def by blast
      with dget_array_active [OF act, of i] le(2) [of i] show ?thesis by simp
    next
      case False
      with starts_none [of ps i] base that show ?thesis by simp
    qed
    then show "case f of (n, i, x, l, c) \<Rightarrow> x \<noteq> None \<and> 0 < l \<longrightarrow> elems i (db_jobs db) + starts i ps \<le> l" by (simp add: f')
  qed
qed

section \<open>Every step keeps the invariant\<close>

lemma run_changes_active:
  "(k, j) \<in> set (run_changes now (jobs_in_states ACTIVE_STATES db)) \<Longrightarrow> mactive j \<and> mj_exec_host k = mj_exec_host j"
  using read_active(3) [of db]
  by (fastforce simp: run_changes_def set_map_filter run_change_def finish_job_def Let_def list_all_iff split: if_splits)

lemma pending_nonneg:
  assumes "rows_ok db" and "room cfg (db_jobs db) ps" and "\<And>j p. (j, p) \<in> set ps \<Longrightarrow> fixed_of p \<in> fixeds (db_jobs db)"
  shows "room cfg (db_jobs db) []"
proof -
  have "0 \<le> mj_num_cpus p" if "(j, p) \<in> set ps" for j p
    using bspec [OF rows_okD [OF assms(1)] assms(3) [OF that]] by (simp add: fixed_of_def)
  then have nonneg: "0 \<le> load h ps" for h by (induction ps) fastforce+
  have "0 \<le> starts i ps" for i by (simp add: starts_def)
  have "used h (db_jobs db) + 0 \<le> max 0 (slots_of cfg h)" for h
    using conjunct1 [OF assms(2) [unfolded room_def], rule_format, of h] nonneg [of h] by linarith
  moreover have "elems i (db_jobs db) \<le> l" if "(n, i, x, l, c) \<in> fixeds (db_jobs db)" "x \<noteq> None" "0 < l" for n i x l c
    using bspec [OF conjunct2 [OF assms(2) [unfolded room_def]] that(1)] that(2,3) \<open>0 \<le> starts i ps\<close> by simp
  ultimately show ?thesis unfolding room_def by fastforce
qed

lemma apply_jobs: "db_jobs (apply_transitions t ps db) = db_jobs (snd (update_guarded_many ps db))"
  "changes_by R db (apply_transitions t ps db) = changes_by R db (snd (update_guarded_many ps db))"
proof -
  have "db_jobs (fold (mock_note_transition t) qs d) = db_jobs d" for qs d by (induction qs arbitrary: d) simp_all
  then show "db_jobs (apply_transitions t ps db) = db_jobs (snd (update_guarded_many ps db))"
    by (simp add: apply_transitions_def split: prod.split)
  show "changes_by R db (apply_transitions t ps db) = changes_by R db (snd (update_guarded_many ps db))"
    by (simp add: apply_transitions_def split: prod.split)
qed

lemma rows_ok_changes: "changes_by kept db db' \<Longrightarrow> rows_ok db \<Longrightarrow> rows_ok db'"
proof -
  assume c: "changes_by kept db db'" and ok: "rows_ok db"
  then have "map fixed_of (db_jobs db') = map fixed_of (db_jobs db)"
    by (auto simp: changes_by_def kept_def list_all2_conv_all_nth intro: nth_equalityI)
  then have "fixeds (db_jobs db') = fixeds (db_jobs db)" "map mj_row_id (db_jobs db') = map mj_row_id (db_jobs db)"
    unfolding fixeds_def
    by (metis set_map, metis (no_types, lifting) comp_apply fixed_of_def fst_conv list.map_comp map_eq_conv)
  with ok c show ?thesis by (simp add: rows_ok_def changes_by_def)
qed

lemma dispatch_pairs: "phase_ok ph js \<Longrightarrow> (j, p) \<in> set (to_dispatch ph) \<Longrightarrow> mj_stat p = MPEND \<and> mj_stat j = MRUN \<and> fixed_of p \<in> fixeds js"
  by (cases ph) auto

lemma step_inv:
  assumes "hosts_ok cfg" and "lsf_step cfg w w'" and "lsf_inv cfg w" and "list_all mactive (case lw_sched w of SchedPlan t act \<Rightarrow> act | _ \<Rightarrow> [])"
  shows "lsf_inv cfg w' \<and> list_all mactive (case lw_sched w' of SchedPlan t act \<Rightarrow> act | _ \<Rightarrow> [])"
  using assms(2)
proof cases
  have inv: "rows_ok (lw_db w)" "room cfg (db_jobs (lw_db w)) (to_dispatch (lw_sched w))" "phase_ok (lw_sched w) (db_jobs (lw_db w))"
    using assms(3) by (simp_all add: lsf_inv_def)
  have calm_case: "lsf_inv cfg (record_db db' w) \<and> list_all mactive (case lw_sched (record_db db' w) of SchedPlan t act \<Rightarrow> act | _ \<Rightarrow> [])"
    if "changes_by calm (lw_db w) db'" for db'
    using calm_inv [OF inv that] assms(4) by (simp add: lsf_inv_def record_db_def)
  {
    case (submit cfg' tc user cwd stdin draws now argv)
    have "fixed_of p \<in> fixeds (db_jobs (lw_db w))" if "(j, p) \<in> set (to_dispatch (lw_sched w))" for j p
      using dispatch_pairs [OF inv(3) that] by blast
    from adds_inv [OF inv bsub_adds this] assms(4) show ?thesis by (simp add: submit lsf_inv_def record_db_def)
  next
    case kill then show ?thesis by (simp only: calm_case calm_commands)
  next
    case stop then show ?thesis by (simp only: calm_case calm_commands)
  next
    case resume then show ?thesis by (simp only: calm_case calm_commands)
  next
    case modify then show ?thesis by (simp only: calm_case calm_commands)
  next
    case (tick_read now)
    with inv run_changes_active show ?thesis by (auto simp: lsf_inv_def)
  next
    case (tick_finish now ps)
    have "changes_by calm (lw_db w) (apply_transitions now ps (lw_db w))"
      unfolding apply_jobs by (rule calm_guarded_many) (use inv(3) tick_finish in auto)
    from calm_inv [OF inv this] tick_finish show ?thesis by (simp add: lsf_inv_def record_db_def)
  next
    case (tick_active now)
    with inv read_active show ?thesis by (simp add: lsf_inv_def)
  next
    case (tick_plan now act)
    with assms(4) inv have act: "list_all mactive act" "\<And>h. used h (db_jobs (lw_db w)) \<le> used h act"
      "\<And>i. elems i (db_jobs (lw_db w)) \<le> elems i act" "room cfg (db_jobs (lw_db w)) []" by simp_all
    from plan_room [where now = now, OF assms(1) inv(1) act(4,1,2,3) refl] inv(1) tick_plan show ?thesis by (auto simp: lsf_inv_def)
  next
    case (tick_dispatch now ps)
    have pairs: "mj_stat p = MPEND \<and> mj_stat j = MRUN \<and> fixed_of p \<in> fixeds (db_jobs (lw_db w))" if "(j, p) \<in> set ps" for j p
      using dispatch_pairs [OF inv(3)] that tick_dispatch by simp
    have "changes_by kept (lw_db w) (apply_transitions now ps (lw_db w))"
      unfolding apply_jobs by (rule kept_guarded) (use pairs in \<open>fastforce simp: mfinished_def FINISHED_STATES_def\<close>)
    from rows_ok_changes [OF this inv(1)]
    show ?thesis using dispatch_inv [OF inv(1) _ pairs] inv(2) tick_dispatch by (simp add: lsf_inv_def record_db_def apply_jobs)
  next
    case tick_fails
    from pending_nonneg [OF inv(1,2)] dispatch_pairs [OF inv(3)] inv(1) show ?thesis by (simp add: tick_fails lsf_inv_def)
  }
qed

lemma start_inv: "lsf_inv cfg (lsf_start cfg)"
  by (simp add: lsf_inv_def lsf_start_def new_Database_def rows_ok_def room_def fixeds_def)

lemma reach_inv:
  assumes "hosts_ok cfg" and "lsf_reach cfg w"
  shows "lsf_inv cfg w"
proof -
  have "lsf_inv cfg w \<and> list_all mactive (case lw_sched w of SchedPlan t act \<Rightarrow> act | _ \<Rightarrow> [])"
    using assms(2) unfolding lsf_reach_def
  proof (induction rule: rtranclp_induct)
    case base
    then show ?case using start_inv by (simp add: lsf_start_def)
  next
    case (step y z)
    with step_inv [OF assms(1)] show ?case by blast
  qed
  then show ?thesis ..
qed

lemma hosts_ok_of: "hosts_ok (mock_config_of env)"
  by (simp add: hosts_ok_def mock_config_of_def mock_hosts_def)

lemma changes_mem: "changes_by R db db' \<Longrightarrow> r \<in> set (db_jobs db) \<Longrightarrow> \<exists>r'\<in>set (db_jobs db'). R r r'"
  unfolding changes_by_def by (metis in_set_conv_nth list_all2_conv_all_nth)

lemma adds_mem: "adds_jobs db db' \<Longrightarrow> r \<in> set (db_jobs db) \<Longrightarrow> r \<in> set (db_jobs db')"
  by (auto simp: adds_jobs_def)

lemma step_kept:
  assumes "lsf_inv cfg w" and "lsf_step cfg w w'" and r: "r \<in> set (db_jobs (lw_db w))"
  shows "\<exists>r'\<in>set (db_jobs (lw_db w')). kept r r'"
  using assms(2)
proof cases
  have phase: "phase_ok (lw_sched w) (db_jobs (lw_db w))" using assms(1) by (simp add: lsf_inv_def)
  have calm_case: "\<exists>r'\<in>set (db_jobs (lw_db (record_db db' w))). kept r r'" if "changes_by calm (lw_db w) db'" for db'
    using changes_mem [OF that r] by (auto simp: record_db_def calm_def)
  {
    case (submit cfg' tc user cwd stdin draws now argv)
    from adds_mem [OF bsub_adds r] have "r \<in> set (db_jobs (lw_db w'))" by (simp add: submit record_db_def)
    then show ?thesis using calm_refl(2) by blast
  next
    case kill then show ?thesis by (simp only: calm_case calm_commands)
  next
    case stop then show ?thesis by (simp only: calm_case calm_commands)
  next
    case resume then show ?thesis by (simp only: calm_case calm_commands)
  next
    case modify then show ?thesis by (simp only: calm_case calm_commands)
  next
    case (tick_finish now ps)
    have "changes_by calm (lw_db w) (apply_transitions now ps (lw_db w))"
      unfolding apply_jobs by (rule calm_guarded_many) (use phase tick_finish in auto)
    from calm_case [OF this] show ?thesis by (simp add: tick_finish)
  next
    case (tick_dispatch now ps)
    have "mj_stat p = MPEND" if "(j, p) \<in> set ps" for j p using dispatch_pairs [OF phase] that tick_dispatch by simp
    then have "changes_by kept (lw_db w) (apply_transitions now ps (lw_db w))"
      unfolding apply_jobs by (intro kept_guarded) (fastforce simp: mfinished_def FINISHED_STATES_def)
    from changes_mem [OF this r] show ?thesis by (simp add: tick_dispatch record_db_def)
  }
qed (use r in \<open>auto intro!: bexI [of _ r]\<close>)

section \<open>Properties of the mock cluster\<close>

text \<open>
  C38: No host and no array gets more than it may. However the transactions of the scheduler's
  ticks interleave with submissions, kills, stops and resumes that work on jobs read earlier, the
  jobs that hold slots on a host never hold more than the host has, and no more elements of an array
  are active than its limit.
\<close>

theorem mock_slots_respected:
  assumes "lsf_reach (mock_config_of env) w"
  shows "used h (db_jobs (lw_db w)) \<le> max 0 (slots_of (mock_config_of env) h) \<and>
    (r \<in> set (db_jobs (lw_db w)) \<and> is_array r \<and> 0 < mj_array_limit r \<longrightarrow>
       elems (mj_job_id r) (db_jobs (lw_db w)) \<le> mj_array_limit r)"
proof -
  have inv: "lsf_inv (mock_config_of env) w" by (rule reach_inv [OF hosts_ok_of assms])
  then have room: "room (mock_config_of env) (db_jobs (lw_db w)) []"
    using pending_nonneg [of "lw_db w"] dispatch_pairs unfolding lsf_inv_def by blast
  then have "used h (db_jobs (lw_db w)) \<le> max 0 (slots_of (mock_config_of env) h)" by (simp add: room_def)
  moreover have "elems (mj_job_id r) (db_jobs (lw_db w)) \<le> mj_array_limit r"
    if "r \<in> set (db_jobs (lw_db w))" "is_array r" "0 < mj_array_limit r"
    using bspec [OF conjunct2 [OF room [unfolded room_def]] fixed_of_mem [OF that(1)]] that(2,3) by (simp add: is_array_def)
  ultimately show ?thesis by blast
qed

text \<open>
  C39: What is finished stays finished. A job that has ended keeps its state, its exit code, its
  times and everything else except the group, whatever runs afterwards: a kill, stop or resume that
  read the job before it ended, or a scheduler that did, has no effect on it.
\<close>

theorem mock_finished_stays:
  assumes "lsf_reach (mock_config_of env) w" and "(lsf_step (mock_config_of env))\<^sup>*\<^sup>* w w'"
    and "r \<in> set (db_jobs (lw_db w))" and "mfinished r"
  shows "\<exists>grp. r\<lparr>mj_job_group := grp\<rparr> \<in> set (db_jobs (lw_db w'))"
  using assms(2)
proof (induction rule: rtranclp_induct)
  case base
  from assms(3) show ?case by (intro exI [of _ "mj_job_group r"]) simp
next
  case (step y z)
  then obtain grp where r: "r\<lparr>mj_job_group := grp\<rparr> \<in> set (db_jobs (lw_db y))" by blast
  have "lsf_reach (mock_config_of env) y" using assms(1) step(1) by (simp add: lsf_reach_def)
  from step_kept [OF reach_inv [OF hosts_ok_of this] step(2) r] obtain r' where
    r': "r' \<in> set (db_jobs (lw_db z))" "kept (r\<lparr>mj_job_group := grp\<rparr>) r'" by blast
  have "mfinished (r\<lparr>mj_job_group := grp\<rparr>)" using assms(4) by (simp add: mfinished_def)
  with r'(2) obtain g where "r' = r\<lparr>mj_job_group := grp\<rparr>\<lparr>mj_job_group := g\<rparr>" by (auto simp: kept_def)
  with r'(1) show ?case by auto
qed

section \<open>A sample run\<close>

definition demo_mock_config :: mock_config where
  "demo_mock_config = mock_config_of [(''MOCKLSF_SLOTS_PER_HOST'', ''1'')]"

definition demo_timing :: timing_config where
  "demo_timing = \<lparr> tc_pend = (0, 0), tc_run = (0, 0), tc_suspend = (0, 0), tc_exit_rate = 0, tc_suspend_rate = 0,
     tc_submit_fail_rate = 0, tc_forward_rate = 0 \<rparr>"

definition demo_draws :: bsub_draws where
  "demo_draws = \<lparr> sd_fail = (1, 0), sd_forward = (1, 0), sd_jobs = \<lambda>_. \<lparr> jd_pend = 0, jd_run = 0, jd_exit = 0, jd_code = 0,
     jd_suspend = 0, jd_suspend_at = 0, jd_suspend_secs = 0 \<rparr> \<rparr>"

definition demo_mock_submitted :: mdb where
  "demo_mock_submitted = snd (snd (cmd_bsub demo_mock_config demo_timing ''u'' ''/w'' None demo_draws 0
     [''-J'', ''a[1-2]%1'', ''x''] (new_Database demo_mock_config)))"

text \<open>A tick that nothing runs in between, as steps.\<close>

definition ticked :: "mock_config \<Rightarrow> seconds \<Rightarrow> lsf_world \<Rightarrow> lsf_world" where
  "ticked cfg t w =
     (let w1 = record_db (apply_transitions t (run_changes t (jobs_in_states ACTIVE_STATES (lw_db w))) (lw_db w)) w
      in (record_db (apply_transitions t (dispatch_changes cfg t (jobs_in_states ACTIVE_STATES (lw_db w1))
            (jobs_in_states [MPEND] (lw_db w1))) (lw_db w1)) w1)\<lparr>lw_sched := SchedIdle\<rparr>)"

lemma ticked_db: "lw_db (ticked cfg t w) = sched_tick cfg t (lw_db w)"
  by (simp add: ticked_def sched_tick_def record_db_def Let_def)

lemma ticked_steps:
  assumes "lw_sched w = SchedIdle"
  shows "(lsf_step cfg)\<^sup>*\<^sup>* w (ticked cfg t w)"
proof -
  let ?ps = "run_changes t (jobs_in_states ACTIVE_STATES (lw_db w))"
  let ?db = "apply_transitions t ?ps (lw_db w)"
  let ?w2 = "record_db ?db w\<lparr>lw_sched := SchedRead t\<rparr>"
  let ?act = "jobs_in_states ACTIVE_STATES ?db"
  let ?qs = "dispatch_changes cfg t ?act (jobs_in_states [MPEND] ?db)"
  have "lsf_step cfg w (w\<lparr>lw_sched := SchedFinish t ?ps\<rparr>)" using assms by (rule tick_read)
  moreover have "lsf_step cfg (w\<lparr>lw_sched := SchedFinish t ?ps\<rparr>) ?w2"
    using tick_finish [of "w\<lparr>lw_sched := SchedFinish t ?ps\<rparr>" t ?ps cfg] by (simp add: record_db_def)
  moreover have "lsf_step cfg ?w2 (?w2\<lparr>lw_sched := SchedPlan t ?act\<rparr>)"
    using tick_active [of ?w2 t cfg] by (simp add: record_db_def)
  moreover have "lsf_step cfg (?w2\<lparr>lw_sched := SchedPlan t ?act\<rparr>) (?w2\<lparr>lw_sched := SchedDispatch t ?qs\<rparr>)"
    using tick_plan [of "?w2\<lparr>lw_sched := SchedPlan t ?act\<rparr>" t ?act cfg] by (simp add: record_db_def)
  moreover have "lsf_step cfg (?w2\<lparr>lw_sched := SchedDispatch t ?qs\<rparr>) (ticked cfg t w)"
    using tick_dispatch [of "?w2\<lparr>lw_sched := SchedDispatch t ?qs\<rparr>" t ?qs cfg] by (simp add: record_db_def ticked_def Let_def)
  ultimately show ?thesis by (meson converse_rtranclp_into_rtranclp rtranclp.rtrancl_refl)
qed

text \<open>An array of two elements, one of which may run at a time: it runs and ends; then a kill that read them running.\<close>

definition demo_submitted_world :: lsf_world where
  "demo_submitted_world = record_db demo_mock_submitted (lsf_start demo_mock_config)"

definition demo_running :: lsf_world where
  "demo_running = ticked demo_mock_config 1 demo_submitted_world"

definition demo_ended :: lsf_world where
  "demo_ended = ticked demo_mock_config 2 demo_running"

definition demo_killed :: lsf_world where
  "demo_killed = record_db (snd (snd (kill_one demo_mock_config 3 (hd (db_jobs (lw_db demo_running))) (lw_db demo_ended)))) demo_ended"

lemma demo_idle: "lw_sched demo_submitted_world = SchedIdle" "lw_sched demo_running = SchedIdle"
  by (simp_all add: demo_submitted_world_def demo_running_def ticked_def record_db_def lsf_start_def Let_def)

lemma demo_reach: "lsf_reach demo_mock_config demo_running" "lsf_reach demo_mock_config demo_ended"
proof -
  have "lsf_step demo_mock_config (lsf_start demo_mock_config) demo_submitted_world"
    using lsf_step.submit [of demo_mock_config "lsf_start demo_mock_config"]
    by (simp add: demo_submitted_world_def demo_mock_submitted_def lsf_start_def)
  then have w: "lsf_reach demo_mock_config demo_submitted_world" by (simp add: lsf_reach_def)
  show r: "lsf_reach demo_mock_config demo_running"
    using w ticked_steps [OF demo_idle(1)] unfolding lsf_reach_def demo_running_def by (rule rtranclp_trans)
  show "lsf_reach demo_mock_config demo_ended"
    using r ticked_steps [OF demo_idle(2)] unfolding lsf_reach_def demo_ended_def by (rule rtranclp_trans)
qed

theorem mock_slots_respected_witness:
  "used ''hostA'' (db_jobs (lw_db demo_running)) = 1 \<and> max 0 (slots_of demo_mock_config ''hostA'') = 1 \<and>
   elems 1001 (db_jobs (lw_db demo_running)) = 1 \<and> elems 1001 (db_jobs (lw_db demo_running)) \<le> 1"
proof -
  have v: "used ''hostA'' (db_jobs (lw_db demo_running)) = 1" "max 0 (slots_of demo_mock_config ''hostA'') = 1"
    "elems 1001 (db_jobs (lw_db demo_running)) = 1" by code_simp+
  have "(mj_job_id (hd (db_jobs (lw_db demo_running))), is_array (hd (db_jobs (lw_db demo_running))),
      mj_array_limit (hd (db_jobs (lw_db demo_running))), db_jobs (lw_db demo_running) = []) = (1001, True, 1, False)" by code_simp
  then have r: "mj_job_id (hd (db_jobs (lw_db demo_running))) = 1001" "is_array (hd (db_jobs (lw_db demo_running)))"
    "mj_array_limit (hd (db_jobs (lw_db demo_running))) = 1" "hd (db_jobs (lw_db demo_running)) \<in> set (db_jobs (lw_db demo_running))"
    by simp_all
  from mock_slots_respected [OF demo_reach(1) [unfolded demo_mock_config_def], of "''hostA''" "hd (db_jobs (lw_db demo_running))"] r v
  show ?thesis by simp
qed

theorem mock_finished_stays_witness:
  "mj_stat (hd (db_jobs (lw_db demo_running))) = MRUN \<and>
   (\<exists>grp. (hd (db_jobs (lw_db demo_ended)))\<lparr>mj_job_group := grp\<rparr> \<in> set (db_jobs (lw_db demo_killed)))"
proof -
  have "(mfinished (hd (db_jobs (lw_db demo_ended))), db_jobs (lw_db demo_ended) = [], db_jobs (lw_db demo_running) = []) = (True, False, False)"
    by code_simp
  then have r: "hd (db_jobs (lw_db demo_ended)) \<in> set (db_jobs (lw_db demo_ended))" "mfinished (hd (db_jobs (lw_db demo_ended)))"
    and k: "hd (db_jobs (lw_db demo_running)) \<in> set (db_jobs (lw_db demo_running))" by simp_all
  have "lw_db demo_running \<in> lw_past demo_ended" by (simp add: demo_ended_def demo_running_def ticked_def record_db_def Let_def)
  from lsf_step.kill [OF this k] have "lsf_step demo_mock_config demo_ended demo_killed" by (simp only: demo_killed_def)
  then have "(lsf_step demo_mock_config)\<^sup>*\<^sup>* demo_ended demo_killed" by simp
  note mock_finished_stays [OF demo_reach(2) [unfolded demo_mock_config_def] this [unfolded demo_mock_config_def] r]
  moreover have "mj_stat (hd (db_jobs (lw_db demo_running))) = MRUN" by code_simp
  ultimately show ?thesis by blast
qed

end
