(* ===== verification/MockAnswer.thy ===== *)
theory MockAnswer
  imports MockCli
begin

text \<open>
  The two programs together: what the mock \<open>bjobs\<close> prints for the formats that \<open>lsfmgr\<close> asks for
  is read back by \<open>lsfmgr\<close> as the states of exactly these jobs.
\<close>

fun lsf_state :: "mstat \<Rightarrow> JobState" where
  "lsf_state MPEND = PEND" | "lsf_state MRUN = RUN" | "lsf_state MDONE = DONE" | "lsf_state MEXIT = EXIT"
| "lsf_state MPSUSP = PSUSP" | "lsf_state MUSUSP = USUSP" | "lsf_state MSSUSP = SSUSP"

text \<open>What identifies a job, with its state and exit code: as \<open>lsfmgr\<close> sees it, and as it is.\<close>

definition seen :: "JobStatus \<Rightarrow> int \<times> int option \<times> JobState \<times> int option" where
  "seen s = (st_job_id s, st_array_index s, st_state s, st_exit_code s)"

definition actual :: "mjob \<Rightarrow> int \<times> int option \<times> JobState \<times> int option" where
  "actual j = (mj_job_id j, mj_array_index j, lsf_state (mj_stat j), if mfinished j then Some (mj_exit_code j) else None)"

section \<open>Rows and lines\<close>

text \<open>A field that stays one field of one line.\<close>

definition one_field :: "string \<Rightarrow> bool" where
  "one_field s \<longleftrightarrow> (\<forall>c\<in>set s. c \<noteq> CHR '';'' \<and> \<not> is_linebreak c)"

lemma one_field_simps [simp]:
  "one_field []" "one_field (c # s) \<longleftrightarrow> c \<noteq> CHR '';'' \<and> \<not> is_linebreak c \<and> one_field s"
  "one_field (s @ t) \<longleftrightarrow> one_field s \<and> one_field t"
  by (auto simp: one_field_def)

lemma one_field_show [simp]: "one_field (show_int i)"
proof -
  have "\<forall>c\<in>set (show_nat n). is_digit c" for n using show_nat_digits [of n] by (simp add: list_all_iff)
  moreover have "c \<noteq> CHR '';'' \<and> \<not> is_linebreak c" if "is_digit c \<or> c = CHR ''-''" for c
    using that by (auto simp: is_linebreak_def is_digit_def)
  ultimately show ?thesis by (auto simp: show_int_def one_field_def)
qed

lemma split_join: "fs \<noteq> [] \<Longrightarrow> (\<And>f. f \<in> set fs \<Longrightarrow> CHR '';'' \<notin> set f) \<Longrightarrow> py_split (CHR '';'') (py_join '';'' fs) = fs"
proof (induction "'';''" fs rule: py_join.induct)
  case (3 p q ps)
  then show ?case by (simp add: py_split_append_sep)
qed (simp_all add: py_split_nosep)

lemma splitlines_line: "(\<forall>c\<in>set s. \<not> is_linebreak c) \<Longrightarrow> splitlines_go acc (s @ newline # t) = (acc @ s) # splitlines_go [] t"
proof (induction s arbitrary: acc)
  case Nil
  have "is_linebreak newline" "newline \<noteq> CHR 0x0D" by (simp_all add: is_linebreak_def newline_def)
  then show ?case by (cases t) simp_all
qed simp

lemma splitlines_last: "(\<forall>c\<in>set s. \<not> is_linebreak c) \<Longrightarrow> acc @ s \<noteq> [] \<Longrightarrow> splitlines_go acc s = [acc @ s]"
  by (induction s arbitrary: acc) auto

lemma splitlines_join:
  "(\<And>l. l \<in> set ls \<Longrightarrow> l \<noteq> [] \<and> (\<forall>c\<in>set l. \<not> is_linebreak c)) \<Longrightarrow> py_splitlines (py_join nl ls) = ls"
proof (induction ls)
  case (Cons p ls)
  show ?case
  proof (cases ls)
    case Nil
    with Cons.prems [of p] show ?thesis by (simp add: py_splitlines_def splitlines_last)
  next
    case q: (Cons q ps)
    have "splitlines_go [] (py_join nl ls) = ls"
      unfolding py_splitlines_def [symmetric] by (rule Cons.IH) (rule Cons.prems, simp)
    with Cons.prems [of p] splitlines_line [of p "[]" "py_join nl ls"] show ?thesis
      by (simp add: q py_splitlines_def newline_def)
  qed
qed (simp add: py_splitlines_def)

lemma strip_ends: "s \<noteq> [] \<Longrightarrow> \<not> py_isspace (hd s) \<Longrightarrow> \<not> py_isspace (last s) \<Longrightarrow> py_strip s = s"
proof -
  assume s: "s \<noteq> []" "\<not> py_isspace (hd s)" "\<not> py_isspace (last s)"
  then have "dropWhile py_isspace s = s" by (cases s) simp_all
  moreover have "dropWhile py_isspace (rev s) = rev s" using s(1,3) by (cases s rule: rev_cases) simp_all
  ultimately show ?thesis by (simp add: py_strip_def py_lstrip_def)
qed

text \<open>The first three fields say it all.\<close>

lemma parse_row:
  assumes "0 \<le> pid" and "\<forall>i. idx = Some i \<longrightarrow> 0 \<le> i" and st: "is_on_lsf st \<or> st = DONE \<or> st = EXIT"
    and rest: "\<And>f. f \<in> set fs \<Longrightarrow> one_field f" and fin: "fs \<noteq> [] \<Longrightarrow> last fs \<noteq> [] \<and> \<not> py_isspace (last (last fs))"
  shows "map_option seen (parse_bjobs_line now (py_join '';'' ([job_text pid idx, state_value st, exit_text ec] @ fs))) = Some (pid, idx, st, ec)"
proof -
  let ?a = "job_text pid idx" and ?b = "state_value st" and ?c = "exit_text ec"
  let ?fs = "[?a, ?b, ?c] @ fs"
  let ?row = "py_join '';'' ?fs"
  have plain: "plain_field ?a" "plain_field ?b" "plain_field ?c"
    by (auto simp: job_text_def exit_text_def show_elem_def plain_show_int plain_literals split: option.splits)
  have full: "?a \<noteq> []" "?c \<noteq> []" by (auto simp: job_text_def exit_text_def show_elem_def split: option.split)
  have nosep: "CHR '';'' \<notin> set f" if "f \<in> set ?fs" for f
    using that plain rest [of f] by (auto simp: plain_field_def one_field_def)
  have split: "py_split (CHR '';'') ?row = ?fs" by (rule split_join) (use nosep in auto)
  have row: "?row = ?a @ '';'' @ ?b @ '';'' @ (if fs = [] then ?c else ?c @ '';'' @ py_join '';'' fs)"
    by (cases fs) simp_all
  have last_join: "last (py_join '';'' gs) = last (last gs)" if "gs \<noteq> []" "last gs \<noteq> []" for gs
    using that by (induction "'';''" gs rule: py_join.induct) (auto simp: neq_Nil_conv split: if_splits)
  have strip: "py_strip ?row = ?row"
  proof (rule strip_ends)
    show "?row \<noteq> []" using full by (simp add: row)
    have "hd ?row = hd ?a" using full by (simp add: row)
    with plain(1) full(1) show "\<not> py_isspace (hd ?row)" by (simp add: plain_field_def)
    have "last ?fs \<noteq> [] \<and> \<not> py_isspace (last (last ?fs))"
      using fin plain(3) full(2) by (auto simp: plain_field_def)
    with last_join [of ?fs] show "\<not> py_isspace (last ?row)" by simp
  qed
  have parts: "map py_strip (py_split (CHR '';'') (py_strip ?row)) = ?a # ?b # ?c # map py_strip fs"
    unfolding strip split using plain by (simp add: strip_plain)
  have "py_strip ?row \<noteq> []" unfolding strip using full by (simp add: row)
  moreover have "match_array_id ?a = Some (pid, idx)"
    using assms(1,2) by (cases idx) (simp_all add: job_text_def match_array_id_def match_show)
  moreover have "dget_or LSF_STAT_MAP ?b UNKWN = st"
    using st by (cases st) (auto simp: LSF_STAT_MAP_def dget_or_def ON_LSF_def)
  ultimately show ?thesis
    unfolding parse_bjobs_line_def parts Let_def
    using exit_text_parse [of ec] by (cases "exit_text ec \<in> {[], ''-''}") (auto simp: seen_def)
qed

section \<open>The formats\<close>

text \<open>A column name: it has no space or colon in it and does not look like the delimiter.\<close>

definition column_name :: "string \<Rightarrow> bool" where
  "column_name w \<longleftrightarrow> w \<noteq> [] \<and> hd w \<noteq> CHR ''-'' \<and> py_lower_char (hd w) \<noteq> CHR ''d'' \<and>
     list_all (\<lambda>c. \<not> py_isspace c \<and> c \<noteq> CHR '':'') w"

lemma match_delim_other: "c \<noteq> CHR ''-'' \<Longrightarrow> py_lower_char c \<noteq> CHR ''d'' \<Longrightarrow> match_delim (c # s) = None"
  by (simp add: match_delim_def starts_with_def py_lower_def)

lemma find_delim_inside:
  "list_all (\<lambda>c. \<not> py_isspace c \<and> c \<noteq> CHR '':'') w \<Longrightarrow> find_delim False pre (w @ s) = find_delim False (pre @ w) s"
  by (induction w arbitrary: pre) simp_all

lemma find_delim_skip: "column_name w \<Longrightarrow> find_delim True pre (w @ '' '' @ s) = find_delim True (pre @ w @ '' '') s"
  by (cases w) (simp_all add: column_name_def match_delim_other find_delim_inside py_isspace_def [of "CHR '' ''"])

lemma find_delim_format:
  "list_all column_name ws \<Longrightarrow> find_delim True pre (concat (map (\<lambda>w. w @ '' '') ws) @ BJOBS_DELIM) =
     Some (pre @ concat (map (\<lambda>w. w @ '' '') ws), '';'', [])"
proof (induction ws arbitrary: pre)
  case Nil
  have "match_delim BJOBS_DELIM = Some ('';'', [])" by code_simp
  then show ?case by (simp add: BJOBS_DELIM_def)
next
  case (Cons w ws)
  then show ?case using find_delim_skip [of w pre] by simp
qed

lemma column_plain:
  assumes "column_name w"
  shows "map (\<lambda>c. if py_isspace c then CHR '' '' else c) w = w" and "CHR '' '' \<notin> set w" and "w \<noteq> []"
proof -
  have no: "\<not> py_isspace c" if "c \<in> set w" for c using assms that by (simp add: column_name_def list_all_iff)
  then show "map (\<lambda>c. if py_isspace c then CHR '' '' else c) w = w" by (intro map_idI) simp
  have "py_isspace CHR '' ''" by (simp add: py_isspace_def)
  with no show "CHR '' '' \<notin> set w" by blast
  show "w \<noteq> []" using assms by (simp add: column_name_def)
qed

lemma words_word: "column_name w \<Longrightarrow> py_words (w @ '' '' @ s) = w # py_words s"
  using column_plain [of w] by (simp add: py_words_def py_split_append_sep py_isspace_def [of "CHR '' ''"])

lemma words_one: "column_name w \<Longrightarrow> py_words w = [w]"
  using column_plain [of w] by (simp add: py_words_def py_split_nosep)

lemma words_concat: "list_all column_name ws \<Longrightarrow> py_words (concat (map (\<lambda>w. w @ '' '') ws) @ s) = ws @ py_words s"
  by (induction ws) (use words_word in simp_all)

lemma words_join: "list_all column_name ws \<Longrightarrow> py_words (py_join '' '' ws) = ws"
proof (induction "'' ''" ws rule: py_join.induct)
  case (3 p q ps)
  then show ?case using words_word [of p] by simp
qed (simp_all add: words_one, simp add: py_words_def)

lemma format_read:
  assumes "list_all column_name ws"
  shows "extract_delimiter (concat (map (\<lambda>w. w @ '' '') ws) @ BJOBS_DELIM) = (py_join '' '' ws, Some '';'')"
    and "map fst (parse_o_spec (py_join '' '' ws)) = ws"
proof -
  have "py_words '' '' = []" by (simp add: py_words_def py_isspace_def)
  with words_concat [OF assms, of "'' ''"] show "extract_delimiter (concat (map (\<lambda>w. w @ '' '') ws) @ BJOBS_DELIM) = (py_join '' '' ws, Some '';'')"
    by (simp add: extract_delimiter_def find_delim_format [OF assms])
  have "fst (case py_partition (CHR '':'') w of (name, None) \<Rightarrow> (w, None) | (name, Some x) \<Rightarrow> (name, py_int_of_string x)) = w"
    if "w \<in> set ws" for w
  proof -
    have "takeWhile (\<lambda>x. x \<noteq> CHR '':'') w = w"
      using assms that by (auto simp: takeWhile_eq_all_conv list_all_iff column_name_def)
    then show ?thesis by (simp add: py_partition_def Let_def)
  qed
  then have "map (fst \<circ> (\<lambda>w. case py_partition (CHR '':'') w of (name, None) \<Rightarrow> (w, None) | (name, Some x) \<Rightarrow> (name, py_int_of_string x))) ws = ws"
    by (intro map_idI) (simp add: comp_def)
  then show "map fst (parse_o_spec (py_join '' '' ws)) = ws"
    by (simp add: parse_o_spec_def words_join [OF assms])
qed

definition more_columns :: "string list" where
  "more_columns = [''run_time'', ''start_time'', ''finish_time'', ''source_cluster'', ''forward_cluster'']"

lemma formats_are_columns:
  "BJOBS_CORE_FMT = concat (map (\<lambda>w. w @ '' '') ([''jobid'', ''stat'', ''exit_code''] @ [])) @ BJOBS_DELIM"
  "BJOBS_FULL_FMT = concat (map (\<lambda>w. w @ '' '') ([''jobid'', ''stat'', ''exit_code''] @ take 3 more_columns)) @ BJOBS_DELIM"
  "BJOBS_FULL_MC_FMT = concat (map (\<lambda>w. w @ '' '') ([''jobid'', ''stat'', ''exit_code''] @ more_columns)) @ BJOBS_DELIM"
  by (simp_all add: BJOBS_CORE_FMT_def BJOBS_FULL_FMT_def BJOBS_FULL_MC_FMT_def more_columns_def)

lemma columns_are_names: "list_all column_name ([''jobid'', ''stat'', ''exit_code''] @ more_columns)"
  by code_simp

lemma lower_names:
  "py_lower ''jobid'' = ''jobid''" "py_lower ''stat'' = ''stat''" "py_lower ''exit_code'' = ''exit_code''"
  "py_lower ''run_time'' = ''run_time''" "py_lower ''start_time'' = ''start_time''" "py_lower ''finish_time'' = ''finish_time''"
  "py_lower ''source_cluster'' = ''source_cluster''" "py_lower ''forward_cluster'' = ''forward_cluster''"
  by code_simp+

lemma stat_field: "stat_text st = state_value (lsf_state st)" "is_on_lsf (lsf_state st) \<or> lsf_state st = DONE \<or> lsf_state st = EXIT"
  by (cases st; simp add: is_on_lsf_def ON_LSF_def)+

lemma core_fields:
  "field_value lt t j ''jobid'' = job_text (mj_job_id j) (mj_array_index j)"
  "field_value lt t j ''stat'' = state_value (lsf_state (mj_stat j))"
  "field_value lt t j ''exit_code'' = exit_text (if mfinished j then Some (mj_exit_code j) else None)"
  by (simp_all add: field_value_def lower_names display_id_def job_text_def show_elem_def exit_text_def stat_field(1) split: option.split)

definition local_ok :: "local_time \<Rightarrow> bool" where
  "local_ok lt \<longleftrightarrow> (\<forall>t. 1 \<le> cv_month (fst (lt t)) \<and> cv_month (fst (lt t)) \<le> 12)"

definition clean_name :: "string \<Rightarrow> bool" where
  "clean_name s \<longleftrightarrow> one_field s \<and> (s \<noteq> [] \<longrightarrow> \<not> py_isspace (last s))"

lemma more_fields:
  assumes "local_ok lt" and "clean_name (mj_source_cluster j)" and "clean_name (mj_forward_cluster j)"
    and n: "n \<in> set more_columns"
  shows "one_field (field_value lt t j n) \<and> field_value lt t j n \<noteq> [] \<and> \<not> py_isspace (last (field_value lt t j n))"
proof -
  have dash: "one_field ''-''" "\<not> py_isspace (last ''-'')" by (simp_all add: is_linebreak_def py_isspace_def)
  have month: "one_field (MONTH_NAMES ! nat (cv_month (fst (lt s)) - 1))" for s
  proof -
    have "nat (cv_month (fst (lt s)) - 1) < length MONTH_NAMES" 
    proof -
      have "cv_month (fst (lt s)) \<le> 12" "length MONTH_NAMES = 12" using assms(1) by (simp_all add: local_ok_def MONTH_NAMES_def)
      then show ?thesis by simp
    qed
    then have "MONTH_NAMES ! nat (cv_month (fst (lt s)) - 1) \<in> set MONTH_NAMES" by (rule nth_mem)
    moreover have "list_all one_field MONTH_NAMES" by (simp add: MONTH_NAMES_def is_linebreak_def)
    ultimately show ?thesis by (simp add: list_all_iff)
  qed
  have last_int: "show_int i \<noteq> [] \<and> \<not> py_isspace (last (show_int i))" for i
    using plain_show_int [of i] by (auto simp: show_int_def plain_field_def)
  have pad: "one_field (pad_with c i) \<and> pad_with c i \<noteq> [] \<and> \<not> py_isspace (last (pad_with c i))" if "c \<in> {CHR '' '', CHR ''0''}" for c i
    using that last_int [of i] by (auto simp: pad_with_def is_linebreak_def)
  have time: "one_field (fmt_o_time lt s) \<and> fmt_o_time lt s \<noteq> [] \<and> \<not> py_isspace (last (fmt_o_time lt s))" for s
    using month pad [of "CHR '' ''"] pad [of "CHR ''0''"] dash
    by (cases s) (simp_all add: fmt_o_time_def strf_second_def strf_minute_def is_linebreak_def)
  have name: "one_field (or_dash s) \<and> or_dash s \<noteq> [] \<and> \<not> py_isspace (last (or_dash s))" if "clean_name s" for s
    using that dash by (simp add: or_dash_def clean_name_def)
  have run: "one_field (run_time_text t j) \<and> run_time_text t j \<noteq> [] \<and> \<not> py_isspace (last (run_time_text t j))"
    using dash by (simp add: run_time_text_def Let_def is_linebreak_def py_isspace_def)
  have value_of:
    "field_value lt t j ''run_time'' = run_time_text t j"
    "field_value lt t j ''start_time'' = (if truthy_time (mj_start_time j) then fmt_o_time lt (mj_start_time j) else ''-'')"
    "field_value lt t j ''finish_time'' =
       (if mfinished j \<and> truthy_time (mj_finish_time j) then fmt_o_time lt (mj_finish_time j) else ''-'')"
    "field_value lt t j ''source_cluster'' = or_dash (mj_source_cluster j)"
    "field_value lt t j ''forward_cluster'' = or_dash (mj_forward_cluster j)"
    by (simp_all add: field_value_def lower_names)
  define good where "good s \<longleftrightarrow> one_field s \<and> s \<noteq> [] \<and> \<not> py_isspace (last s)" for s
  have "good (if b then fmt_o_time lt s else ''-'')" for b s using time dash by (simp add: good_def)
  then have "list_all (\<lambda>n. good (field_value lt t j n)) more_columns"
    using name [OF assms(2)] name [OF assms(3)] run
    unfolding more_columns_def good_def [symmetric] by (simp only: value_of simp_thms list.pred_inject)
  with n show ?thesis by (simp add: list_all_iff good_def)
qed

lemma row_line:
  assumes "fmt \<in> {BJOBS_CORE_FMT, BJOBS_FULL_FMT, BJOBS_FULL_MC_FMT}"
  obtains ns where "set ns \<subseteq> set more_columns"
    and "\<And>lt t js. custom_format lt t js fmt True None =
      py_join nl (map (\<lambda>j. py_join '';'' (map (field_value lt t j) ([''jobid'', ''stat'', ''exit_code''] @ ns))) js)"
proof -
  note wanted = that
  have shape: thesis
    if "set ns \<subseteq> set more_columns" "fmt = concat (map (\<lambda>w. w @ '' '') ([''jobid'', ''stat'', ''exit_code''] @ ns)) @ BJOBS_DELIM" for ns
  proof -
    define ks where "ks = [''jobid'', ''stat'', ''exit_code''] @ ns"
    have "list_all column_name ks"
      using columns_are_names that(1) unfolding ks_def list_all_iff by (simp only: set_append) blast
    note format_read [OF this]
    then have "custom_format lt t js fmt True None = py_join nl (map (\<lambda>j. py_join '';'' (map (field_value lt t j) ks)) js)" for lt t js
    proof -
      have "map (\<lambda>c. field_value lt t j (fst c)) (parse_o_spec (py_join '' '' ks)) = map (field_value lt t j) ks" for j
        using arg_cong [OF \<open>map fst (parse_o_spec (py_join '' '' ks)) = ks\<close>, of "map (field_value lt t j)"] by (simp add: comp_def)
      then show ?thesis using that(2) \<open>extract_delimiter _ = _\<close> unfolding ks_def [symmetric]
        by (simp add: custom_format_def Let_def comp_def)
    qed
    with that(1) show thesis unfolding ks_def by (rule wanted)
  qed
  have "set (take 3 more_columns) \<subseteq> set more_columns" by (rule set_take_subset)
  with assms show thesis using shape formats_are_columns
    by (metis empty_subsetI list.set(1) insert_iff singletonD subset_refl)
qed

text \<open>
  C40: The answer of the mock is understood. For every format that \<open>lsfmgr\<close> asks with, what the mock
  \<open>bjobs\<close> prints of any jobs, in any states, is read back as exactly these jobs, each with its
  state, and with its exit code once it has ended.
\<close>

theorem mock_answer_understood:
  assumes "fmt \<in> {BJOBS_CORE_FMT, BJOBS_FULL_FMT, BJOBS_FULL_MC_FMT}" and "local_ok lt"
    and "\<And>j. j \<in> set js \<Longrightarrow> 0 \<le> mj_job_id j \<and> (\<forall>i. mj_array_index j = Some i \<longrightarrow> 0 \<le> i) \<and>
      clean_name (mj_source_cluster j) \<and> clean_name (mj_forward_cluster j)"
  shows "map seen (parse_bjobs now (custom_format lt t js fmt True None)) = map actual js"
proof -
  from row_line [OF assms(1)] obtain ns where ns: "set ns \<subseteq> set more_columns"
    and fmt: "custom_format lt t js fmt True None =
      py_join nl (map (\<lambda>j. py_join '';'' (map (field_value lt t j) ([''jobid'', ''stat'', ''exit_code''] @ ns))) js)" by metis
  define row where "row j = py_join '';'' (map (field_value lt t j) ([''jobid'', ''stat'', ''exit_code''] @ ns))" for j
  have parsed: "map_option seen (parse_bjobs_line now (row j)) = Some (actual j)" if "j \<in> set js" for j
  proof -
    have more: "one_field (field_value lt t j n) \<and> field_value lt t j n \<noteq> [] \<and> \<not> py_isspace (last (field_value lt t j n))"
      if "n \<in> set ns" for n
      using more_fields [OF assms(2), of j n t] assms(3) [OF \<open>j \<in> set js\<close>] ns that by blast
    have "map_option seen (parse_bjobs_line now (py_join '';'' ([job_text (mj_job_id j) (mj_array_index j),
        state_value (lsf_state (mj_stat j)), exit_text (if mfinished j then Some (mj_exit_code j) else None)] @ map (field_value lt t j) ns))) =
      Some (mj_job_id j, mj_array_index j, lsf_state (mj_stat j), if mfinished j then Some (mj_exit_code j) else None)"
    proof (rule parse_row)
      show "0 \<le> mj_job_id j" "\<forall>i. mj_array_index j = Some i \<longrightarrow> 0 \<le> i" using assms(3) [OF that] by blast+
      show "is_on_lsf (lsf_state (mj_stat j)) \<or> lsf_state (mj_stat j) = DONE \<or> lsf_state (mj_stat j) = EXIT" by (rule stat_field(2))
      show "one_field f" if "f \<in> set (map (field_value lt t j) ns)" for f using that more by auto
      assume "map (field_value lt t j) ns \<noteq> []"
      then have "ns \<noteq> []" by simp
      with more [of "last ns"] show "last (map (field_value lt t j) ns) \<noteq> [] \<and> \<not> py_isspace (last (last (map (field_value lt t j) ns)))"
        by (simp add: last_map)
    qed
    then show ?thesis by (simp only: row_def actual_def core_fields list.map map_append append_Cons append_Nil)
  qed
  have line: "row j \<noteq> [] \<and> (\<forall>c\<in>set (row j). \<not> is_linebreak c)" if "j \<in> set js" for j
  proof -
    have nonempty: "row j \<noteq> []" by (simp add: row_def core_fields job_text_def)
    have one: "one_field f" if "f \<in> set (map (field_value lt t j) ([''jobid'', ''stat'', ''exit_code''] @ ns))" for f
    proof -
      have a: "one_field (field_value lt t j n)" if "n \<in> set ns" for n
        using more_fields [OF assms(2), of j n t] assms(3) [OF \<open>j \<in> set js\<close>] ns that by blast
      have b: "one_field (state_value st)" for st by (cases st) (simp_all add: is_linebreak_def)
      have c: "one_field (job_text i x)" "one_field (exit_text e)" for i x e
        by (simp_all add: job_text_def show_elem_def exit_text_def is_linebreak_def split: option.split)
      from that consider n where "n \<in> set ns" "f = field_value lt t j n"
        | "f \<in> set (map (field_value lt t j) [''jobid'', ''stat'', ''exit_code''])" by (auto simp del: list.map)
      then show ?thesis by cases (use a b c in \<open>auto simp: core_fields\<close>)
    qed
    have "\<forall>c\<in>set (py_join '';'' fs). \<not> is_linebreak c" if "\<And>f. f \<in> set fs \<Longrightarrow> one_field f" for fs
    proof -
      have "c \<in> set (py_join '';'' fs) \<Longrightarrow> c = CHR '';'' \<or> (\<exists>f\<in>set fs. c \<in> set f)" for c
        by (induction "'';''" fs rule: py_join.induct) auto
      moreover have "\<not> is_linebreak CHR '';''" by (simp add: is_linebreak_def)
      ultimately show ?thesis using that unfolding one_field_def by metis
    qed
    then have "\<forall>c\<in>set (row j). \<not> is_linebreak c" unfolding row_def using one by blast
    with nonempty show ?thesis by blast
  qed
  have "parse_bjobs now (custom_format lt t js fmt True None) = List.map_filter (parse_bjobs_line now) (map row js)"
    unfolding parse_bjobs_def fmt row_def [symmetric] by (subst splitlines_join) (use line in auto)
  moreover have "map seen (List.map_filter f (map row ks)) = map g ks" if "\<And>j. j \<in> set ks \<Longrightarrow> map_option seen (f (row j)) = Some (g j)" for f g ks
    using that by (induction ks) (fastforce simp: List.map_filter_simps)+
  ultimately show ?thesis using parsed by simp
qed

text \<open>Two jobs, one of them an ended element of an array that was forwarded.\<close>

definition demo_answered :: "mjob list" where
  "demo_answered =
     (let j = \<lparr> mj_row_id = 1, mj_job_id = 7, mj_user = ''u'', mj_command = ''x'', mj_queue = ''normal'', mj_from_host = ''h'',
        mj_job_name = ''n'', mj_submit_time = 0, mj_stat = MPEND, mj_array_index = None, mj_array_size = 0, mj_array_limit = 0,
        mj_exec_host = None, mj_start_time = None, mj_finish_time = None, mj_pend_secs = 0, mj_run_secs = 0,
        mj_planned_outcome = MDONE, mj_exit_code = 0, mj_suspend_at = 0, mj_suspend_secs = 0, mj_susp_since = 0,
        mj_num_cpus = 1, mj_requested_hosts = [], mj_proj = [], mj_job_group = [], mj_cwd = [], mj_source_cluster = [],
        mj_forward_cluster = [] \<rparr>
      in [j, j\<lparr> mj_row_id := 2, mj_job_id := 8, mj_array_index := Some 3, mj_stat := MEXIT, mj_exit_code := 130,
               mj_start_time := Some 1, mj_finish_time := Some 4, mj_source_cluster := ''east'', mj_forward_cluster := ''west'' \<rparr>])"

definition demo_local :: local_time where
  "demo_local _ = (\<lparr> cv_year = 2024, cv_month = 2, cv_day = 1, cv_hour = 3, cv_minute = 4, cv_second = 5 \<rparr>, 0)"

theorem mock_answer_understood_witness:
  "map seen (parse_bjobs 9 (custom_format demo_local 5 demo_answered BJOBS_FULL_MC_FMT True None)) =
     [(7, None, PEND, None), (8, Some 3, EXIT, Some 130)]"
proof -
  have known: "BJOBS_FULL_MC_FMT \<in> {BJOBS_CORE_FMT, BJOBS_FULL_FMT, BJOBS_FULL_MC_FMT}" by simp
  have clock: "local_ok demo_local" by (simp add: local_ok_def demo_local_def)
  have "clean_name []" "clean_name ''east''" "clean_name ''west''"
    by (simp_all add: clean_name_def is_linebreak_def py_isspace_def)
  then have sane: "0 \<le> mj_job_id j \<and> (\<forall>i. mj_array_index j = Some i \<longrightarrow> 0 \<le> i) \<and>
      clean_name (mj_source_cluster j) \<and> clean_name (mj_forward_cluster j)" if "j \<in> set demo_answered" for j
    using that by (auto simp: demo_answered_def)
  have "map actual demo_answered = [(7, None, PEND, None), (8, Some 3, EXIT, Some 130)]"
    by (simp add: demo_answered_def actual_def mfinished_def FINISHED_STATES_def)
  with mock_answer_understood [OF known clock sane] show ?thesis by simp
qed

end
