(* ===== verification/Spec2Isabelle.thy ===== *)
theory Spec2Isabelle
  imports Options JobsetCore Lifecycle Command KillLaws SubmitRecords SubmitSlots StatusLaws CommandLayer PacerLaws HandlerLaws
    CompletionLaws JobSetHandle MockLaws MockAnswer
begin

text \<open>
  A model of \<open>lsfmgr\<close>, the job manager for LSF clusters of this repository, and of \<open>mocklsf\<close>, the
  cluster it is tested against, with the theorems that make them correct.

  \<^bold>\<open>The program.\<close> An application creates jobsets, groups of commands to run on the cluster, and
  submits, polls and kills them through one facade, \<open>LsfJobManager\<close>. The records of the jobs are
  in a store that every component shares. Submission, polling, killing and the handlers of jobs
  run on worker threads; they write the store under its lock with guarded transitions and report to
  the main thread by signals. The cluster is reached only by its command line programs, or for the
  state of jobs by a callback of the application.

  \<^bold>\<open>Theories and sources\<close> (\<open>src/lsfmgr\<close> unless another directory is named).
  \<^item> \<open>Prelude\<close>: Python dictionaries as insertion-ordered association lists, the operations of \<open>str\<close>
    and \<open>int\<close> that the program uses, the collections \<open>dict_simps\<close>, \<open>store_simps\<close>, \<open>counter_simps\<close>.
  \<^item> \<open>JobStates\<close>: \<open>states.py\<close>, \<open>errors.py\<close>, \<open>reports.py\<close>; the sum type of outcomes in which every raise
    is a value, with the state at that point. \<open>Util\<close>: \<open>util.py\<close>, \<open>qt.py\<close> (timer intervals), the
    activity ledger of the submitter and killer. \<open>Options\<close>: \<open>config.py\<close>, \<open>options.py\<close>.
  \<^item> \<open>Store\<close>: \<open>store/base.py\<close>, \<open>store/memory.py\<close>; \<open>JobsetCore\<close>: \<open>jobset_core.py\<close>;
    \<open>Lifecycle\<close>: \<open>lifecycle.py\<close>, the gate that gives kills priority over submissions.
  \<^item> \<open>Command\<close>: the functions and the query strategy of \<open>command.py\<close>; \<open>CommandLayer\<close>: its object, with
    the registry of running queries; \<open>StatusPayload\<close>, \<open>StatusSource\<close>, \<open>StatusLaws\<close>:
    \<open>internal_status.py\<close>; \<open>Monitor\<close>: \<open>monitor.py\<close>.
  \<^item> \<open>Submitter\<close> (state and callbacks), \<open>SubmitSettle\<close>, \<open>SubmitCycle\<close> (step relation), \<open>SubmitLaws\<close>,
    \<open>SubmitSlots\<close>, \<open>SubmitRecords\<close>: \<open>submitter.py\<close>. \<open>Killer\<close>, \<open>KillLaws\<close>: \<open>killer.py\<close>.
  \<^item> \<open>Pacer\<close>, \<open>PacerLaws\<close>: \<open>pacer.py\<close>. \<open>Handlers\<close>, \<open>HandlerLaws\<close>: \<open>handlers.py\<close>. \<open>Completion\<close>,
    \<open>CompletionLaws\<close>: \<open>completion.py\<close>.
  \<^item> \<open>Manager\<close> (the wiring of the components and the emission of signals), \<open>ManagerOps\<close> (the
    operations), \<open>ManagerLaws\<close>: \<open>manager.py\<close>; \<open>JobSetHandle\<close>: \<open>handle.py\<close>.
  \<^item> The mock, under \<open>src/mocklsf\<close>: \<open>MockDb\<close> (\<open>models.py\<close>, \<open>config.py\<close>, \<open>db.py\<close>), \<open>MockSched\<close>
    (\<open>scheduler.py\<close>), \<open>MockSubmit\<close> (\<open>submit.py\<close>), \<open>MockFormats\<close> (\<open>formats.py\<close>), \<open>MockCli\<close> and
    \<open>MockMore\<close> (\<open>cli.py\<close>); \<open>MockSteps\<close>, \<open>MockRoom\<close>, \<open>MockLaws\<close>: its interleavings; \<open>MockAnswer\<close>: the
    mock and \<open>lsfmgr\<close> together.

  \<^bold>\<open>How the code is modelled.\<close> An object is a record of its state; a method is a definition that takes
  the state and returns it updated with its value or error, with the guards and early returns of
  the code. A definition has the name of its method where that is free (the facade's operations
  have the prefix \<open>mg_\<close> where a component has one of the same name). Exceptions are values of a
  sum type. What is not in the repository is an argument: the programs of the cluster, the callbacks
  of the application, the clock, the random numbers of the mock, local time. Where code runs
  concurrently, a component has a step relation and reachable states; one step is one section
  under a lock, one callback on a thread, one slot on the main thread or one database transaction,
  and between steps anything else may happen. A clock is read once per step and may be any number.

  \<^bold>\<open>What is shown.\<close>
  \<^item> Store: its per-state counts agree with the records after any operations, adding jobs is all or
    nothing, and a transition whose guard names another execution of the job writes nothing.
    The contract that the other components use is the locale \<open>job_table\<close>.
  \<^item> Jobsets: rejected operations change nothing; editing and removing write exactly the records they
    should; a submission targets only records that are ready.
  \<^item> Gate: a kill sees every activity that it covers, in any order of registrations and kills (locale
    \<open>submit_gate\<close>; the ledger beneath it is \<open>activity_ledger\<close>).
  \<^item> Commands: a failed query is isolated to its own chunk, a submission is retried only when the
    program surely did not accept it. Both sources of states satisfy \<open>status_source\<close>.
  \<^item> Polling: \<open>LOST\<close> needs consecutive countable misses; a query writes only records it asked about;
    the timer runs exactly while it is needed.
  \<^item> Submission: over every interleaving the accounts of a cycle balance, it reports its end once, it
    can always be brought to its end, it respects the limit of concurrent wrappers, a scope that a kill
    found quiet stays quiet, and a record gets exactly the outcome of its own wrapper.
  \<^item> Kill: only records whose execution was accepted are marked; the confirmation ends and accounts for
    each target; each task reports once. The rounds terminate by the number of retries left.
  \<^item> Status callback: accepted rows are well formed, fetches are bounded, the newest answer wins, and
    a caller that needs a fresh state gets one that was fetched after its request or is told so.
  \<^item> Pacer, handlers, completion: every transition is shown in order and never stuck; the
    runs of a handler never overlap for a job; a final run, a report that a jobset is finished and a
    post-processing happen once for each cycle.
  \<^item> Facade: \<open>can_submit\<close> agrees with \<open>submit\<close>; a kill blocks submissions only while a task is there to
    lift the block; a removed jobset leaves nothing behind in any component; what handles tell.
  \<^item> Mock: no host and no array gets more than it may, what is finished stays finished, under any
    interleaving of ticks and commands; and \<open>lsfmgr\<close> reads the answer of the mock's \<open>bjobs\<close> as
    exactly the states of its jobs, for each of the formats it asks with.

  \<^bold>\<open>Bounds and termination.\<close> There is no fuel. Loops of the code are structural recursions, or
  \<open>function\<close>s with a measure (the formats left, the retries left, the length of a pattern). Worker
  loops and timers that never end in the code are the repetition of a step. Integers of Python are
  \<open>int\<close>, floats are reals, with infinities and NaN as values where a caller may pass them; rounding is
  not modelled. Timer intervals are cut to the 31 bits of Qt as in the code.

  \<^bold>\<open>Simplifications to know.\<close> The slots of the facade's signals are later operations: the model records
  what was emitted. The subscribers of the pacer are a parameter. A scope of a kill is raised and
  released as the two ends of \<open>with\<close>. Resetting the records of a submission is one step. Text is
  ASCII; messages of the mock in another script are their bytes. A kill whose program raises is not
  credited with the chunks it had finished. Rows of the SQLite tables are lists in row order.

  \<^bold>\<open>Not modelled.\<close> Qt's threads, event loops and queued connections beyond the order of steps that they
  allow; logging; hooks on the exit of the application; the joining of worker pools; running a
  process (\<open>subprocess\<close>); opening and migrating the SQLite file; \<open>mocklsf/daemon.py\<close> and \<open>mocklsfd\<close>,
  which fork and signal processes; the user interfaces under \<open>examples/\<close> and the self test under
  \<open>tools/\<close>, which only call the library. The merge of a configuration with manager options
  (\<open>resolve_manager_options\<close>) needs the formatting of floats.
\<close>

end
